(* ===== verification/Runtime_Prelude.thy ===== *)
theory Runtime_Prelude
  imports Main "HOL-Library.Word" "HOL-Library.Multiset"
begin

text \<open>
  Shared vocabulary of the development: the machine integer types of the runtime, the two ways
  a call of the runtime can fail to return a value (\<^verbatim>\<open>UNRECOVERABLE_IF\<close> and an access outside an
  object), and the generic lemmas on words, lists and multisets that the component theories use.
  Two collections, \<open>word_nat\<close> and \<open>cells_simps\<close>, gather the facts that move a word equation to
  the natural numbers and the algebra of address ranges.
\<close>

unbundle bit_operations_syntax

named_theorems word_nat
named_theorems cells_simps

type_synonym u8 = "8 word"
type_synonym u16 = "16 word"
type_synonym u32 = "32 word"
type_synonym u64 = "64 word"

text \<open>
  \<^verbatim>\<open>abortExecution\<close> and \<^verbatim>\<open>UNRECOVERABLE_IF\<close> end the process; reading or writing outside an
  array or vector is undefined behaviour in the source; \<open>Thrown\<close> is an exception. All are values of a sum type, so
  that no definition hides them behind an unspecified HOL term.
\<close>

datatype rt_fault = Unrecoverable | OutOfBounds | NullDereference | DivisionByZero | UseAfterFree | FuelExhausted | Thrown

type_synonym 'a rt_result = "rt_fault + 'a"

definition unrecoverable_if :: "bool \<Rightarrow> 'a rt_result \<Rightarrow> 'a rt_result" where
  "unrecoverable_if c k = (if c then Inl Unrecoverable else k)"

definition rt_bind :: "'a rt_result \<Rightarrow> ('a \<Rightarrow> 'b rt_result) \<Rightarrow> 'b rt_result" where
  "rt_bind m k = (case m of Inl f \<Rightarrow> Inl f | Inr x \<Rightarrow> k x)"

text \<open>The reduction of an unsigned result to its width, for sizes kept as natural numbers.\<close>

abbreviation wrap32 :: "nat \<Rightarrow> nat" where "wrap32 n \<equiv> n mod 4294967296"
abbreviation wrap64 :: "nat \<Rightarrow> nat" where "wrap64 n \<equiv> n mod 18446744073709551616"

text \<open>The addresses a block of memory occupies, as a multiset: adjacent blocks add up.\<close>

definition cells :: "nat \<Rightarrow> nat \<Rightarrow> nat multiset" where
  "cells p n = mset [p..<p + n]"

section \<open>Results\<close>

lemma unrecoverable_if_simps [simp]:
  "unrecoverable_if True k = Inl Unrecoverable"
  "unrecoverable_if False k = k"
  by (simp_all add: unrecoverable_if_def)

lemma unrecoverable_if_Inr [simp]:
  "unrecoverable_if c k = Inr x \<longleftrightarrow> \<not> c \<and> k = Inr x"
  by (simp add: unrecoverable_if_def)

lemma rt_bind_simps [simp]:
  "rt_bind (Inl f) k = Inl f"
  "rt_bind (Inr x) k = k x"
  by (simp_all add: rt_bind_def)

lemma rt_bind_Inr_iff [simp]:
  "rt_bind m k = Inr y \<longleftrightarrow> (\<exists>x. m = Inr x \<and> k x = Inr y)"
  by (cases m) simp_all

section \<open>Words\<close>

lemma unat_take_bit [word_nat]:
  "unat (take_bit k (x :: 'a::len word)) = unat x mod 2 ^ k"
  by (metis unsigned_take_bit_eq take_bit_eq_mod)

lemma unat_and_mask [word_nat]:
  "unat ((x :: 'a::len word) AND mask k) = unat x mod 2 ^ k"
  by (metis take_bit_eq_mask unat_take_bit)

lemma and_not_mask_eq:
  "(x :: 'a::len word) AND NOT (mask k) = x - take_bit k x"
proof -
  have "x AND NOT (mask k) = push_bit k (drop_bit k x)"
    by (rule bit_word_eqI) (auto simp: bit_simps)
  then show ?thesis
    by (metis add_diff_cancel_right' bits_ident)
qed

lemma unat_and_not_mask [word_nat]:
  "unat ((x :: 'a::len word) AND NOT (mask k)) = unat x div 2 ^ k * 2 ^ k"
proof -
  have "take_bit k x \<le> x"
    unfolding word_le_nat_alt unat_take_bit by simp
  then have "unat (x - take_bit k x) = unat x - unat x mod 2 ^ k"
    by (simp only: unat_sub unat_take_bit)
  then show ?thesis
    by (simp only: and_not_mask_eq minus_mod_eq_div_mult)
qed

lemma unat_add_nowrap [word_nat]:
  "unat x + unat y < 2 ^ LENGTH('a) \<Longrightarrow> unat ((x :: 'a::len word) + y) = unat x + unat y"
  by (simp add: unat_add_lem)

lemma unat_sub_le [word_nat]:
  "unat y \<le> unat x \<Longrightarrow> unat ((x :: 'a::len word) - y) = unat x - unat y"
  by (simp add: unat_sub word_le_nat_alt)

lemma unat_mult_nowrap [word_nat]:
  "unat x * unat y < 2 ^ LENGTH('a) \<Longrightarrow> unat ((x :: 'a::len word) * y) = unat x * unat y"
  by (simp add: unat_mult_lem)

lemma unat_lt_64: "unat (x :: u64) < 18446744073709551616"
  using unsigned_less [of x] by simp

lemma unat_lt_32: "unat (x :: u32) < 4294967296"
  using unsigned_less [of x] by simp

lemma unat_eq_iff: "(x :: 'a::len word) = y \<longleftrightarrow> unat x = unat y"
  by (rule word_unat_eq_iff)

section \<open>Address ranges\<close>

lemma cells_0 [cells_simps, simp]: "cells p 0 = {#}"
  by (simp add: cells_def)

lemma cells_add [cells_simps]: "cells p (m + n) = cells p m + cells (p + m) n"
  using upt_add_eq_append [of p "p + m" n] by (simp add: cells_def add.assoc)

lemma size_cells [cells_simps, simp]: "size (cells p n) = n"
  by (simp add: cells_def)

lemma set_cells [cells_simps, simp]: "set_mset (cells p n) = {p..<p + n}"
  by (simp add: cells_def)

lemma count_cells: "count (cells p n) a = (if p \<le> a \<and> a < p + n then 1 else 0)"
  by (auto simp: cells_def distinct_count_atmost_1)

lemma cells_subset_disjoint:
  assumes "cells p m + cells q n \<subseteq># cells b s"
  shows "{p..<p + m} \<inter> {q..<q + n} = {}"
proof -
  have "count (cells p m) a + count (cells q n) a \<le> 1" for a
  proof -
    have "count (cells p m + cells q n) a \<le> count (cells b s) a"
      using assms by (rule mset_subset_eq_count)
    then show ?thesis by (simp add: count_cells split: if_splits)
  qed
  then have "\<not> (a \<in> {p..<p + m} \<and> a \<in> {q..<q + n})" for a
    by (metis (no_types, lifting) add_le_cancel_left atLeastLessThan_iff count_cells
        le_zero_eq one_neq_zero add.right_neutral)
  then show ?thesis by blast
qed

lemma cells_subset_range:
  assumes "cells p m \<subseteq># cells b s" and "0 < m"
  shows "b \<le> p \<and> p + m \<le> b + s"
proof -
  have "{p..<p + m} \<subseteq> {b..<b + s}"
    using set_mset_mono [OF assms(1)] by simp
  with assms(2) show ?thesis by simp
qed

lemma mset_sum4_subset:
  assumes "A + B + C + M = (R :: 'a multiset)"
  shows "M \<subseteq># R \<and> A + M \<subseteq># R \<and> B + M \<subseteq># R \<and> A \<subseteq># R \<and> B \<subseteq># R"
proof -
  have "R = M + (A + B + C)" "R = (A + M) + (B + C)" "R = (B + M) + (A + C)"
    "R = A + (B + C + M)" "R = B + (A + C + M)"
    using assms by (simp_all only: ac_simps)
  then show ?thesis by (metis mset_subset_eq_add_left)
qed

section \<open>Lists\<close>

lemma mset_remove_nth:
  "i < length xs \<Longrightarrow> mset (take i xs @ drop (Suc i) xs) + {#xs ! i#} = mset xs"
  by (subst (4) id_take_nth_drop [of i]) auto

end
