(* ===== verification/Aligned_Memory.thy ===== *)
theory Aligned_Memory
  imports Runtime_Prelude
begin

text \<open>
  Alignment and pointer arithmetic: \<^verbatim>\<open>memory_manager/memory_constants.h\<close>,
  \<^verbatim>\<open>helpers/aligned_memory.h\<close> and \<^verbatim>\<open>helpers/ptr_math.h\<close> on a 64-bit build
  (\<^verbatim>\<open>size_t\<close>, \<^verbatim>\<open>uintptr_t\<close> and pointers are 64-bit words). The memory that
  \<^verbatim>\<open>alignedMalloc\<close> writes its back pointer to is a map from slot addresses to pointers, and
  \<^verbatim>\<open>operator new[]\<close> is a parameter.
\<close>

section \<open>Definitions\<close>

definition maxNBitValue :: "nat \<Rightarrow> u64" where
  "maxNBitValue n = push_bit n 1 - 1"

definition kiloByte :: u64 where "kiloByte = 1024"
definition megaByte :: u64 where "megaByte = 1024 * kiloByte"
definition gigaByte :: u64 where "gigaByte = 1024 * megaByte"
definition pageSize :: u64 where "pageSize = 4 * kiloByte"
definition pageSize64k :: u64 where "pageSize64k = 64 * kiloByte"
definition pageMask :: u64 where "pageMask = pageSize - 1"
definition sizeOf4GBinPageEntities :: u32 where
  "sizeOf4GBinPageEntities = ucast ((gigaByte * 4 - pageSize) div pageSize)"
definition max32BitAddress :: u64 where "max32BitAddress = maxNBitValue 32"

definition alignUp :: "u64 \<Rightarrow> u64 \<Rightarrow> u64" where
  "alignUp before alignment =
     (let mask = alignment - 1 in (before + mask) AND NOT mask)"

definition alignDown :: "u64 \<Rightarrow> u64 \<Rightarrow> u64" where
  "alignDown before alignment =
     (let mask = alignment - 1 in before AND NOT mask)"

definition alignSizeWholePage :: "u64 \<Rightarrow> u64 \<Rightarrow> u64" where
  "alignSizeWholePage ptr sz =
     (let startPageMisalignedAddressOffset = ptr AND pageMask
      in alignUp (startPageMisalignedAddressOffset + sz) pageSize)"

definition isAligned :: "u64 \<Rightarrow> u64 \<Rightarrow> bool" where
  "isAligned alignment val \<longleftrightarrow> val mod alignment = 0"

definition ptrOffset :: "u64 \<Rightarrow> u64 \<Rightarrow> u64" where
  "ptrOffset ptrBefore offset = ptrBefore + offset"

definition ptrDiff :: "u64 \<Rightarrow> u64 \<Rightarrow> u64" where
  "ptrDiff ptrAfter ptrBefore = ptrAfter - ptrBefore"

type_synonym slots = "u64 \<rightharpoonup> u64"

definition alignedMalloc :: "(u64 \<Rightarrow> u64) \<Rightarrow> slots \<Rightarrow> u64 \<Rightarrow> u64 \<Rightarrow> u64 \<times> slots" where
  "alignedMalloc newArray mem bytes alignment =
     (let bytes = (if bytes = 0 then 8 else bytes);
          alignment = max alignment 8;
          sizeToAlloc = bytes + alignment;
          pOriginalMemory = newArray sizeToAlloc
      in if pOriginalMemory = 0 then (0, mem)
         else let p = pOriginalMemory + alignment;
                  pAlignedMemory = p - p mod alignment
              in (pAlignedMemory, mem(pAlignedMemory - 8 \<mapsto> pOriginalMemory)))"

text \<open>The result is what \<^verbatim>\<open>delete[]\<close> receives: nothing for a null pointer, the word in the
  slot before the pointer otherwise, and a fault when that slot was never written.\<close>

definition alignedFree :: "slots \<Rightarrow> u64 \<Rightarrow> u64 option rt_result" where
  "alignedFree mem ptr =
     (if ptr = 0 then Inr None
      else case mem (ptr - 8) of Some originalPtr \<Rightarrow> Inr (Some originalPtr)
                               | None \<Rightarrow> Inl OutOfBounds)"

lemmas memory_constants = kiloByte_def megaByte_def gigaByte_def pageSize_def pageSize64k_def
  pageMask_def maxNBitValue_def max32BitAddress_def sizeOf4GBinPageEntities_def

section \<open>Alignment in terms of natural numbers\<close>

lemma unat_pageSize [simp]: "unat pageSize = 4096"
  by (simp add: memory_constants)

lemma pageMask_eq: "pageMask = mask 12"
  by (simp add: memory_constants mask_eq_exp_minus_1)

lemma pageSize_eq: "pageSize = 2 ^ 12"
  by (simp add: memory_constants)

lemma pow2_minus_1: "(2 ^ k :: u64) - 1 = mask k"
  by (simp add: mask_eq_exp_minus_1)

lemma unat_pow2: "k < 64 \<Longrightarrow> unat (2 ^ k :: u64) = 2 ^ k"
  using unat_of_nat [of "2 ^ k", where 'a = 64] power_strict_increasing [of k 64 "2 :: nat"]
  by simp

lemma unat_alignDown:
  "unat (alignDown x (2 ^ k)) = unat x div 2 ^ k * 2 ^ k"
  by (simp add: alignDown_def Let_def pow2_minus_1 unat_and_not_mask)

lemma unat_mask_64: "k < 64 \<Longrightarrow> unat (mask k :: u64) = 2 ^ k - 1"
  by (simp add: unat_pow2 unat_sub_le flip: pow2_minus_1)

lemma unat_alignUp:
  assumes "k < 64" and "unat x + 2 ^ k \<le> 2 ^ 64"
  shows "unat (alignUp x (2 ^ k)) = (unat x + (2 ^ k - 1)) div 2 ^ k * 2 ^ k"
proof -
  have "unat (x + mask k) = unat x + (2 ^ k - 1)"
    using assms by (subst unat_add_nowrap) (auto simp: unat_mask_64 le_less_trans)
  then show ?thesis
    by (simp add: alignUp_def Let_def pow2_minus_1 unat_and_not_mask)
qed

lemmas unat_alignUp_page = unat_alignUp [of 12, folded pageSize_eq, simplified]
lemmas unat_alignDown_page = unat_alignDown [of _ 12, folded pageSize_eq, simplified]

lemma alignSizeWholePage_eq:
  assumes "unat ptr mod 4096 + unat sz + 4096 \<le> 2 ^ 64"
  shows "unat (alignSizeWholePage ptr sz) = (unat ptr mod 4096 + unat sz + 4095) div 4096 * 4096"
proof -
  have "unat (ptr AND pageMask) = unat ptr mod 4096"
    by (simp add: pageMask_eq unat_and_mask)
  moreover have "unat ((ptr AND pageMask) + sz) = unat ptr mod 4096 + unat sz"
    using assms calculation by (subst unat_add_nowrap) simp_all
  ultimately show ?thesis
    using assms unat_alignUp_page [of "(ptr AND pageMask) + sz"]
    by (simp add: alignSizeWholePage_def Let_def)
qed

section \<open>Properties\<close>

lemma round_up_bounds:
  "0 < m \<Longrightarrow> n \<le> (n + (m - 1)) div m * m \<and> (n + (m - 1)) div m * m < n + m" for n m :: nat
proof -
  assume m: "0 < m"
  have "(n + (m - 1)) div m * m + (n + (m - 1)) mod m = n + (m - 1)" by simp
  moreover have "(n + (m - 1)) mod m < m" using m by simp
  ultimately show ?thesis using m by linarith
qed

text \<open>For a power-of-two alignment and a value that does not overflow when the
  mask is added, \<^verbatim>\<open>alignUp\<close> returns the least multiple of the alignment that is not below
  the value, and \<^verbatim>\<open>alignDown\<close> the greatest that is not above it.\<close>

theorem align_least_greatest_multiple:
  assumes "k < 64" and "unat x + 2 ^ k \<le> 2 ^ 64"
  shows "(2 :: nat) ^ k dvd unat (alignUp x (2 ^ k)) \<and> unat x \<le> unat (alignUp x (2 ^ k)) \<and>
         unat (alignUp x (2 ^ k)) < unat x + 2 ^ k \<and>
         (2 :: nat) ^ k dvd unat (alignDown x (2 ^ k)) \<and> unat (alignDown x (2 ^ k)) \<le> unat x \<and>
         unat x < unat (alignDown x (2 ^ k)) + 2 ^ k"
proof -
  have "unat x < unat x div 2 ^ k * 2 ^ k + 2 ^ k"
    using div_mult_mod_eq [of "unat x" "2 ^ k"]
    by (metis add_less_cancel_left mod_less_divisor zero_less_numeral zero_less_power)
  then show ?thesis
    using round_up_bounds [of "2 ^ k" "unat x"]
    by (simp add: unat_alignUp [OF assms] unat_alignDown)
qed

theorem align_least_greatest_multiple_witness:
  "unat (5000 :: u64) + 2 ^ 12 \<le> 2 ^ 64 \<and> unat (alignUp 5000 (2 ^ 12)) = 8192 \<and>
   (2 :: nat) ^ 12 dvd unat (alignUp 5000 (2 ^ 12)) \<and> unat (5000 :: u64) \<le> unat (alignUp 5000 (2 ^ 12))"
  using align_least_greatest_multiple [of 12 5000] by (simp add: alignUp_def Let_def)

lemma aligned_pointer_bounds:
  fixes p a :: nat
  assumes "0 < a" and "8 dvd a" and "8 dvd p"
  shows "a dvd (p + a) - (p + a) mod a \<and> p + 8 \<le> (p + a) - (p + a) mod a \<and>
         (p + a) - (p + a) mod a \<le> p + a"
proof -
  have "8 dvd p mod a" using assms by (simp add: dvd_mod)
  then obtain m where m: "p mod a = 8 * m" ..
  obtain b where b: "a = 8 * b" using assms(2) ..
  have "p mod a < a" using assms(1) by simp
  then have "8 * m + 8 \<le> a" using m b by simp
  then have "p + 8 \<le> (p + a) - (p + a) mod a" using m by simp
  then show ?thesis using dvd_minus_mod [of a "p + a"] by simp
qed

text \<open>If \<^verbatim>\<open>operator new[]\<close> returns a block that lies below the top of the address
  space and is 8-byte aligned, and the alignment is a multiple of the pointer size, then the
  pointer \<^verbatim>\<open>alignedMalloc\<close> returns is aligned, its back-pointer slot and all requested bytes
  lie inside the block, and \<^verbatim>\<open>alignedFree\<close> hands exactly the original block to
  \<^verbatim>\<open>delete[]\<close>.\<close>

theorem alignedMalloc_alignedFree:
  assumes new_in_range: "unat (newArray (bytes + alignment)) + unat bytes + unat alignment \<le> 2 ^ 64 - 1"
    and new_aligned: "8 dvd unat (newArray (bytes + alignment))"
    and new_ok: "newArray (bytes + alignment) \<noteq> 0"
    and "bytes \<noteq> 0" and "8 dvd unat alignment" and "8 \<le> alignment"
    and res: "alignedMalloc newArray mem bytes alignment = (q, mem')"
  shows "unat alignment dvd unat q \<and>
         unat (newArray (bytes + alignment)) + 8 \<le> unat q \<and>
         unat q + unat bytes \<le> unat (newArray (bytes + alignment)) + unat (bytes + alignment) \<and>
         alignedFree mem' q = Inr (Some (newArray (bytes + alignment)))"
proof -
  let ?p = "newArray (bytes + alignment)" and ?a = "unat alignment"
  have pa: "unat (?p + alignment) = unat ?p + ?a"
    using new_in_range by (subst unat_add_nowrap) simp_all
  have sz: "unat (bytes + alignment) = unat bytes + ?a"
    using new_in_range by (subst unat_add_nowrap) simp_all
  have a_pos: "0 < ?a" using \<open>8 \<le> alignment\<close> by (simp add: word_le_nat_alt)
  have q: "q = (?p + alignment) - (?p + alignment) mod alignment"
    and mem': "mem' = mem(q - 8 \<mapsto> ?p)"
    using res new_ok \<open>bytes \<noteq> 0\<close> \<open>8 \<le> alignment\<close>
    by (auto simp: alignedMalloc_def Let_def max_def split: if_splits)
  have uq: "unat q = (unat ?p + ?a) - (unat ?p + ?a) mod ?a"
    unfolding q by (subst unat_sub_le) (simp_all add: unat_mod pa trans_le_add1)
  have b: "?a dvd unat q" "unat ?p + 8 \<le> unat q" "unat q \<le> unat ?p + ?a"
    using aligned_pointer_bounds [OF a_pos \<open>8 dvd ?a\<close> new_aligned] uq by simp_all
  then have "q \<noteq> 0" by auto
  then show ?thesis
    using b sz mem' by (simp add: alignedFree_def)
qed

theorem alignedMalloc_alignedFree_witness:
  "unat (64 :: u64) dvd unat (fst (alignedMalloc (\<lambda>_. 4104) Map.empty 100 64)) \<and>
   alignedFree (snd (alignedMalloc (\<lambda>_. 4104) Map.empty 100 64))
     (fst (alignedMalloc (\<lambda>_. 4104) Map.empty 100 64)) = Inr (Some 4104)"
  using alignedMalloc_alignedFree [of "\<lambda>_. 4104" 100 64 Map.empty
      "fst (alignedMalloc (\<lambda>_. 4104) Map.empty 100 64)"
      "snd (alignedMalloc (\<lambda>_. 4104) Map.empty 100 64)"]
  by simp

end
