(* ===== verification/Block_Allocator.thy ===== *)
theory Block_Allocator
  imports Runtime_Prelude
begin

text \<open>
  The contract of an address range allocator, as its clients (the GPU address space partition,
  the 32-bit and the limited range allocators) rely on it: a call to allocate returns a null
  pointer or a block, a block may be given back once, and the allocator keeps an invariant
  that relates its state to the blocks the clients hold. The step relation \<open>client_run\<close> is the set
  of states a sequence of such calls can reach; the locale proves once that the blocks held
  never overlap and never leave the region.
\<close>

type_synonym block = "u64 \<times> u64"

definition block_cells :: "block \<Rightarrow> nat multiset" where
  "block_cells b = cells (unat (fst b)) (unat (snd b))"

definition blocks_cells :: "block list \<Rightarrow> nat multiset" where
  "blocks_cells bs = sum_list (map block_cells bs)"

definition block_range :: "block \<Rightarrow> nat set" where
  "block_range b = {unat (fst b)..<unat (fst b) + unat (snd b)}"

definition disjoint_blocks :: "block list \<Rightarrow> bool" where
  "disjoint_blocks bs \<longleftrightarrow>
     (\<forall>i < length bs. \<forall>j < length bs. i \<noteq> j \<longrightarrow> block_range (bs ! i) \<inter> block_range (bs ! j) = {})"

inductive client_run ::
  "('s \<Rightarrow> u64 \<Rightarrow> u64 \<times> u64 \<times> 's) \<Rightarrow> ('s \<Rightarrow> u64 \<Rightarrow> u64 \<Rightarrow> 's) \<Rightarrow> 's \<Rightarrow> 's \<Rightarrow> block list \<Rightarrow> bool"
  for alloc release s0 where
  start: "client_run alloc release s0 s0 []"
| allocated: "client_run alloc release s0 s live \<Longrightarrow> alloc s n = (p, n', s') \<Longrightarrow> p \<noteq> 0 \<Longrightarrow>
     client_run alloc release s0 s' ((p, n') # live)"
| refused: "client_run alloc release s0 s live \<Longrightarrow> alloc s n = (p, n', s') \<Longrightarrow> p = 0 \<Longrightarrow>
     client_run alloc release s0 s' live"
| released: "client_run alloc release s0 s live \<Longrightarrow> (p, n) \<in> set live \<Longrightarrow>
     client_run alloc release s0 (release s p n) (remove1 (p, n) live)"

section \<open>Blocks\<close>

lemma blocks_cells_simps [simp]:
  "blocks_cells [] = {#}"
  "blocks_cells (b # bs) = block_cells b + blocks_cells bs"
  by (simp_all add: blocks_cells_def)

lemma blocks_cells_remove1:
  "b \<in> set bs \<Longrightarrow> block_cells b + blocks_cells (remove1 b bs) = blocks_cells bs"
  by (induction bs) (auto simp: add.left_commute)

lemma block_in_blocks: "b \<in> set bs \<Longrightarrow> block_cells b \<subseteq># blocks_cells bs"
  by (metis blocks_cells_remove1 mset_subset_eq_add_left)

lemma two_blocks_subset:
  assumes "i < length bs" and "j < length bs" and "i < j"
  shows "block_cells (bs ! i) + block_cells (bs ! j) \<subseteq># blocks_cells bs"
proof -
  have "bs = take i bs @ bs ! i # drop (Suc i) bs"
    using assms(1) by (rule id_take_nth_drop)
  then have "blocks_cells bs = blocks_cells (take i bs) + (block_cells (bs ! i) + blocks_cells (drop (Suc i) bs))"
    by (metis blocks_cells_def blocks_cells_simps(2) map_append sum_list.append)
  moreover have "drop (Suc i) bs ! (j - Suc i) = bs ! j" and "j - Suc i < length (drop (Suc i) bs)"
    using assms by simp_all
  then have "block_cells (bs ! j) \<subseteq># blocks_cells (drop (Suc i) bs)"
    by (metis nth_mem block_in_blocks)
  then have "block_cells (bs ! i) + block_cells (bs ! j) \<subseteq>#
             block_cells (bs ! i) + blocks_cells (drop (Suc i) bs)"
    by simp
  ultimately show ?thesis
    by (metis mset_subset_eq_add_right subset_mset.order_trans)
qed

lemma cells_subset_disjoint_blocks:
  assumes "blocks_cells bs \<subseteq># cells b s"
  shows "disjoint_blocks bs"
proof -
  have "block_range (bs ! i) \<inter> block_range (bs ! j) = {}"
    if "i < j" "j < length bs" for i j
    using that assms two_blocks_subset [of i bs j] cells_subset_disjoint
    unfolding block_range_def block_cells_def
    by (meson dual_order.strict_trans subset_mset.order_trans)
  then show ?thesis
    unfolding disjoint_blocks_def by (metis Int_commute linorder_neqE_nat)
qed

section \<open>The contract\<close>

locale block_allocator =
  fixes alloc :: "'s \<Rightarrow> u64 \<Rightarrow> u64 \<times> u64 \<times> 's"
    and release :: "'s \<Rightarrow> u64 \<Rightarrow> u64 \<Rightarrow> 's"
    and inv :: "nat \<Rightarrow> nat \<Rightarrow> 's \<Rightarrow> block list \<Rightarrow> bool"
  assumes inv_region: "inv b len s live \<Longrightarrow> blocks_cells live \<subseteq># cells b len"
    and alloc_inv: "inv b len s live \<Longrightarrow> alloc s n = (p, n', s') \<Longrightarrow>
      inv b len s' (if p = 0 then live else (p, n') # live)"
    and release_inv: "inv b len s live \<Longrightarrow> (p, n) \<in> set live \<Longrightarrow>
      inv b len (release s p n) (remove1 (p, n) live)"
begin

lemma run_inv:
  assumes "inv b len s0 []" and "client_run alloc release s0 s live"
  shows "inv b len s live"
  using assms(2)
proof (induction rule: client_run.induct)
  case start
  show ?case by (rule assms(1))
next
  case (allocated s live n p n' s')
  then show ?case using alloc_inv by fastforce
next
  case (refused s live n p n' s')
  then show ?case using alloc_inv by fastforce
next
  case (released s live p n)
  then show ?case by (intro release_inv)
qed

lemma run_disjoint:
  assumes "inv b len s0 []" and "client_run alloc release s0 s live"
  shows "disjoint_blocks live"
  using run_inv [OF assms] inv_region cells_subset_disjoint_blocks by blast

lemma run_in_region:
  assumes "inv b len s0 []" and "client_run alloc release s0 s live"
    and "(p, n) \<in> set live" and "0 < unat n"
  shows "b \<le> unat p \<and> unat p + unat n \<le> b + len"
proof -
  have "block_cells (p, n) \<subseteq># cells b len"
    using block_in_blocks [OF assms(3)] inv_region [OF run_inv [OF assms(1,2)]]
    by (rule subset_mset.order_trans)
  then show ?thesis
    using assms(4) cells_subset_range [of "unat p" "unat n" b len] by (simp add: block_cells_def)
qed

end

end
