(* ===== verification/Heap_Allocator.thy ===== *)
theory Heap_Allocator
  imports Aligned_Memory Block_Allocator
begin

text \<open>
  The GPU virtual address allocator, \<^verbatim>\<open>utilities/heap_allocator.h\<close>: a heap that grows a left
  bound up for big requests and a right bound down for small ones, keeps two vectors of freed
  chunks, serves a request from the best fitting freed chunk first and defragments once before
  giving up. The state is a record of the class members; every method that changes state is a
  function that returns the new state. \<^verbatim>\<open>DEBUG_BREAK_IF\<close> and \<^verbatim>\<open>DBG_LOG\<close> have no effect in a
  release build and the mutex makes each call one step.
\<close>

section \<open>State\<close>

record HeapChunk =
  hc_ptr :: u64
  hc_size :: u64

record HeapAllocator =
  ha_size :: u64
  availableSize :: u64
  pLeftBound :: u64
  pRightBound :: u64
  sizeThreshold :: u64
  allocationAlignment :: u64
  freedChunksSmall :: "HeapChunk list"
  freedChunksBig :: "HeapChunk list"

definition HeapAllocator_ctor3 :: "u64 \<Rightarrow> u64 \<Rightarrow> u64 \<Rightarrow> HeapAllocator" where
  "HeapAllocator_ctor3 address sz threshold =
     \<lparr>ha_size = sz, availableSize = sz, pLeftBound = address, pRightBound = address + sz,
      sizeThreshold = threshold, allocationAlignment = pageSize,
      freedChunksSmall = [], freedChunksBig = []\<rparr>"

definition HeapAllocator_ctor :: "u64 \<Rightarrow> u64 \<Rightarrow> HeapAllocator" where
  "HeapAllocator_ctor address sz = HeapAllocator_ctor3 address sz (4 * megaByte)"

section \<open>Freed chunks\<close>

definition erase_at :: "nat \<Rightarrow> 'a list \<Rightarrow> 'a list" where
  "erase_at i xs = take i xs @ drop (Suc i) xs"

text \<open>The scan of \<^verbatim>\<open>getFromFreedChunks\<close>: \<open>Inl i\<close> is the early return on an exact fit at
  index \<open>i\<close>; \<open>Inr\<close> carries \<^verbatim>\<open>bestFitIndex\<close> and \<^verbatim>\<open>bestFitSize\<close> after the loop.\<close>

fun scanFreedChunks :: "u64 \<Rightarrow> HeapChunk list \<Rightarrow> nat \<Rightarrow> nat \<Rightarrow> u64 \<Rightarrow> nat + (nat \<times> u64)" where
  "scanFreedChunks sz [] i bestFitIndex bestFitSize = Inr (bestFitIndex, bestFitSize)"
| "scanFreedChunks sz (c # cs) i bestFitIndex bestFitSize =
     (if hc_size c = sz then Inl i
      else if hc_size c > sz \<and> (hc_size c < bestFitSize \<or> bestFitSize = 0)
      then scanFreedChunks sz cs (Suc i) i (hc_size c)
      else scanFreedChunks sz cs (Suc i) bestFitIndex bestFitSize)"

text \<open>The result is the returned pointer, \<^verbatim>\<open>sizeOfFreedChunk\<close> and the vector afterwards. The
  initial \<^verbatim>\<open>bestFitIndex = -1\<close> is never used as an index, so 0 stands for it.\<close>

definition getFromFreedChunks :: "u64 \<Rightarrow> HeapChunk list \<Rightarrow> u64 \<times> u64 \<times> HeapChunk list" where
  "getFromFreedChunks sz freedChunks =
     (case scanFreedChunks sz freedChunks 0 0 0 of
        Inl i \<Rightarrow> (hc_ptr (freedChunks ! i), 0, erase_at i freedChunks)
      | Inr (bestFitIndex, bestFitSize) \<Rightarrow>
          if bestFitSize \<noteq> 0 then
            if bestFitSize < push_bit 1 sz then
              (hc_ptr (freedChunks ! bestFitIndex), hc_size (freedChunks ! bestFitIndex),
               erase_at bestFitIndex freedChunks)
            else
              let sizeDelta = hc_size (freedChunks ! bestFitIndex) - sz
              in (hc_ptr (freedChunks ! bestFitIndex) + sizeDelta, 0,
                  freedChunks[bestFitIndex := (freedChunks ! bestFitIndex)\<lparr>hc_size := sizeDelta\<rparr>])
          else (0, 0, freedChunks))"

fun storeInFreedChunks :: "u64 \<Rightarrow> u64 \<Rightarrow> HeapChunk list \<Rightarrow> HeapChunk list" where
  "storeInFreedChunks ptr sz [] = [\<lparr>hc_ptr = ptr, hc_size = sz\<rparr>]"
| "storeInFreedChunks ptr sz (c # cs) =
     (if hc_ptr c = ptr + sz then \<lparr>hc_ptr = ptr, hc_size = hc_size c + sz\<rparr> # cs
      else if hc_ptr c + hc_size c = ptr then c\<lparr>hc_size := hc_size c + sz\<rparr> # cs
      else c # storeInFreedChunks ptr sz cs)"

definition mergeLastFreedSmall :: "HeapAllocator \<Rightarrow> HeapAllocator" where
  "mergeLastFreedSmall h =
     (if freedChunksSmall h \<noteq> [] \<and> hc_ptr (last (freedChunksSmall h)) = pRightBound h
      then h\<lparr>pRightBound := hc_ptr (last (freedChunksSmall h)) + hc_size (last (freedChunksSmall h)),
             freedChunksSmall := butlast (freedChunksSmall h)\<rparr>
      else h)"

definition mergeLastFreedBig :: "HeapAllocator \<Rightarrow> HeapAllocator" where
  "mergeLastFreedBig h =
     (if freedChunksBig h \<noteq> [] \<and>
         hc_ptr (last (freedChunksBig h)) = pLeftBound h - hc_size (last (freedChunksBig h))
      then h\<lparr>pLeftBound := hc_ptr (last (freedChunksBig h)),
             freedChunksBig := butlast (freedChunksBig h)\<rparr>
      else h)"

text \<open>The two merging loops of \<^verbatim>\<open>defragment\<close>, counting the index down from
  \<^verbatim>\<open>maxSize - 1\<close> to 1; the argument is the current index \<^verbatim>\<open>i\<close>.\<close>

fun defragmentSmallLoop :: "nat \<Rightarrow> HeapChunk list \<Rightarrow> HeapChunk list" where
  "defragmentSmallLoop 0 cs = cs"
| "defragmentSmallLoop (Suc j) cs =
     (let c = cs ! Suc j; d = cs ! j in
      if hc_ptr d = hc_ptr c + hc_size c
      then defragmentSmallLoop j
             (erase_at (Suc j) (cs[j := \<lparr>hc_ptr = hc_ptr c, hc_size = hc_size d + hc_size c\<rparr>]))
      else defragmentSmallLoop j cs)"

fun defragmentBigLoop :: "nat \<Rightarrow> HeapChunk list \<Rightarrow> HeapChunk list" where
  "defragmentBigLoop 0 cs = cs"
| "defragmentBigLoop (Suc j) cs =
     (let c = cs ! Suc j; d = cs ! j in
      if hc_ptr d + hc_size d = hc_ptr c
      then defragmentBigLoop j
             (erase_at (Suc j) (cs[j := d\<lparr>hc_size := hc_size d + hc_size c\<rparr>]))
      else defragmentBigLoop j cs)"

text \<open>\<^verbatim>\<open>operator<\<close> compares the pointers; sorting through reverse iterators leaves the small
  chunks in descending order.\<close>

definition sortChunks :: "HeapChunk list \<Rightarrow> HeapChunk list" where
  "sortChunks cs = sort_key hc_ptr cs"

definition defragment :: "HeapAllocator \<Rightarrow> HeapAllocator" where
  "defragment h =
     (let small = freedChunksSmall h;
          h1 = (if length small > 1
                then h\<lparr>freedChunksSmall := defragmentSmallLoop (length small - 1) (rev (sortChunks small))\<rparr>
                else h);
          h2 = mergeLastFreedSmall h1;
          big = freedChunksBig h2;
          h3 = (if length big > 1
                then h2\<lparr>freedChunksBig := defragmentBigLoop (length big - 1) (sortChunks big)\<rparr>
                else h2)
      in mergeLastFreedBig h3)"

section \<open>Allocation and release\<close>

text \<open>One pass of the \<^verbatim>\<open>for(;;)\<close> loop of \<^verbatim>\<open>allocate\<close> up to the null check: the pointer,
  \<^verbatim>\<open>sizeOfFreedChunk\<close> and the state.\<close>

definition allocateStep :: "HeapAllocator \<Rightarrow> u64 \<Rightarrow> u64 \<times> u64 \<times> HeapAllocator" where
  "allocateStep h sz =
     (if sz > sizeThreshold h then
        (case getFromFreedChunks sz (freedChunksBig h) of (ptrReturn, freed, cs) \<Rightarrow>
           let h = h\<lparr>freedChunksBig := cs\<rparr> in
           if ptrReturn = 0 \<and> pLeftBound h + sz \<le> pRightBound h
           then (pLeftBound h, freed, h\<lparr>pLeftBound := pLeftBound h + sz\<rparr>)
           else (ptrReturn, freed, h))
      else
        (case getFromFreedChunks sz (freedChunksSmall h) of (ptrReturn, freed, cs) \<Rightarrow>
           let h = h\<lparr>freedChunksSmall := cs\<rparr> in
           if ptrReturn = 0 \<and> pRightBound h - sz \<ge> pLeftBound h
           then (pRightBound h - sz, freed, h\<lparr>pRightBound := pRightBound h - sz\<rparr>)
           else (ptrReturn, freed, h)))"

text \<open>The tail of an iteration that found a pointer: account the space and report the size
  that was really taken.\<close>

definition allocateAccount :: "u64 \<times> u64 \<times> HeapAllocator \<Rightarrow> u64 \<Rightarrow> u64 \<times> u64 \<times> HeapAllocator" where
  "allocateAccount r sz =
     (case r of (ptrReturn, freed, h) \<Rightarrow>
        if freed > 0 then (ptrReturn, freed, h\<lparr>availableSize := availableSize h - freed\<rparr>)
        else (ptrReturn, sz, h\<lparr>availableSize := availableSize h - sz\<rparr>))"

text \<open>\<^verbatim>\<open>allocate\<close> returns the pointer (0 when the request cannot be served), the value left in
  the reference parameter \<^verbatim>\<open>sizeToAllocate\<close> and the state.\<close>

definition allocate :: "HeapAllocator \<Rightarrow> u64 \<Rightarrow> u64 \<times> u64 \<times> HeapAllocator" where
  "allocate h sizeToAllocate =
     (let sz = alignUp sizeToAllocate (allocationAlignment h) in
      if availableSize h < sz then (0, sz, h)
      else let r1 = allocateStep h sz in
        if fst r1 \<noteq> 0 then allocateAccount r1 sz
        else let r2 = allocateStep (defragment (snd (snd r1))) sz in
          if fst r2 \<noteq> 0 then allocateAccount r2 sz
          else (0, sz, snd (snd r2)))"

definition free :: "HeapAllocator \<Rightarrow> u64 \<Rightarrow> u64 \<Rightarrow> HeapAllocator" where
  "free h ptr sz =
     (if ptr = 0 then h
      else let h1 =
             (if ptr = pRightBound h then mergeLastFreedSmall (h\<lparr>pRightBound := ptr + sz\<rparr>)
              else if ptr = pLeftBound h - sz then mergeLastFreedBig (h\<lparr>pLeftBound := ptr\<rparr>)
              else if ptr < pLeftBound h
              then h\<lparr>freedChunksBig := storeInFreedChunks ptr sz (freedChunksBig h)\<rparr>
              else h\<lparr>freedChunksSmall := storeInFreedChunks ptr sz (freedChunksSmall h)\<rparr>)
           in h1\<lparr>availableSize := availableSize h1 + sz\<rparr>)"

definition getLeftSize :: "HeapAllocator \<Rightarrow> u64" where
  "getLeftSize h = availableSize h"

definition getUsedSize :: "HeapAllocator \<Rightarrow> u64" where
  "getUsedSize h = ha_size h - availableSize h"

section \<open>The invariant\<close>

definition chunk_cells :: "HeapChunk \<Rightarrow> nat multiset" where
  "chunk_cells c = cells (unat (hc_ptr c)) (unat (hc_size c))"

definition chunks_cells :: "HeapChunk list \<Rightarrow> nat multiset" where
  "chunks_cells cs = sum_list (map chunk_cells cs)"

text \<open>Every address of the heap region is owned exactly once: by a freed chunk, by the gap
  between the bounds or by a live block; \<^verbatim>\<open>availableSize\<close> counts what is not live. The region
  neither starts at 0 nor wraps, and lies high enough for \<^verbatim>\<open>pRightBound - sizeToAllocate\<close> and low
  enough for \<^verbatim>\<open>pLeftBound + sizeToAllocate\<close> not to wrap either.\<close>

definition heap_config :: "u64 \<Rightarrow> HeapAllocator \<Rightarrow> bool" where
  "heap_config base h \<longleftrightarrow>
     0 < unat base \<and> unat base + 2 * unat (ha_size h) < 2 ^ 64"

definition heap_tiled :: "u64 \<Rightarrow> HeapAllocator \<Rightarrow> nat multiset \<Rightarrow> bool" where
  "heap_tiled base h owned \<longleftrightarrow>
     heap_config base h \<and>
     unat base \<le> unat (pLeftBound h) \<and> unat (pLeftBound h) \<le> unat (pRightBound h) \<and>
     unat (pRightBound h) \<le> unat base + unat (ha_size h) \<and>
     chunks_cells (freedChunksSmall h) + chunks_cells (freedChunksBig h) +
       cells (unat (pLeftBound h)) (unat (pRightBound h) - unat (pLeftBound h)) +
       owned = cells (unat base) (unat (ha_size h))"

definition heap_inv :: "u64 \<Rightarrow> HeapAllocator \<Rightarrow> block list \<Rightarrow> bool" where
  "heap_inv base h live \<longleftrightarrow>
     heap_tiled base h (blocks_cells live) \<and> (\<forall>b \<in> set live. fst b \<noteq> 0) \<and>
     unat (availableSize h) + size (blocks_cells live) = unat (ha_size h)"

section \<open>Address accounting of the freed chunks\<close>

lemma chunks_cells_simps [simp]:
  "chunks_cells [] = {#}"
  "chunks_cells (c # cs) = chunk_cells c + chunks_cells cs"
  "chunks_cells (cs @ ds) = chunks_cells cs + chunks_cells ds"
  by (simp_all add: chunks_cells_def)

lemma chunk_cells_simps [simp]:
  "chunk_cells \<lparr>hc_ptr = p, hc_size = n\<rparr> = cells (unat p) (unat n)"
  "chunk_cells (c\<lparr>hc_size := n\<rparr>) = cells (unat (hc_ptr c)) (unat n)"
  by (simp_all add: chunk_cells_def)

lemma chunks_cells_mset: "mset cs = mset ds \<Longrightarrow> chunks_cells cs = chunks_cells ds"
  unfolding chunks_cells_def by (metis mset_map sum_mset_sum_list)

lemma chunks_cells_erase_at:
  "i < length cs \<Longrightarrow> chunks_cells cs = chunk_cells (cs ! i) + chunks_cells (erase_at i cs)"
  unfolding erase_at_def
  by (metis id_take_nth_drop chunks_cells_simps(2,3) add.left_commute)

lemma chunks_cells_update:
  "i < length cs \<Longrightarrow>
   chunks_cells (cs[i := c]) = chunk_cells c + chunks_cells (erase_at i cs)"
  unfolding erase_at_def
  by (simp add: upd_conv_take_nth_drop add.left_commute)

lemma length_erase_at [simp]: "i < length cs \<Longrightarrow> length (erase_at i cs) = length cs - 1"
  by (simp add: erase_at_def)

text \<open>A range inside a region that does not wrap does not wrap either.\<close>

lemma cells_nowrap:
  assumes "cells (unat (p :: u64)) (unat (n :: u64)) \<subseteq># cells b s" and "b + s < 2 ^ 64"
  shows "unat p + unat n < 2 ^ 64"
proof (cases "unat n = 0")
  case True
  then show ?thesis using unsigned_less [of p] by simp
next
  case False
  then show ?thesis using cells_subset_range [OF assms(1)] assms(2) by simp
qed

lemma cells_merge:
  fixes p m q n :: u64
  assumes "cells (unat p) (unat m) + cells (unat q) (unat n) \<subseteq># cells b s"
    and "b + s < 2 ^ 64" and "q = p + m"
  shows "cells (unat p) (unat (n + m)) = cells (unat p) (unat m) + cells (unat q) (unat n) \<and>
         unat q = unat p + unat m"
proof -
  have "unat p + unat m < 2 ^ 64"
    using cells_nowrap assms(1,2) by (meson mset_subset_eq_add_left subset_mset.order_trans)
  then have q: "unat q = unat p + unat m"
    unfolding assms(3) by (subst unat_add_nowrap) simp_all
  have "size (cells (unat p) (unat m) + cells (unat q) (unat n)) \<le> size (cells b s)"
    using assms(1) by (rule size_mset_mono)
  then have "unat (n + m) = unat m + unat n"
    using assms(2) by (subst unat_add_nowrap) simp_all
  with q show ?thesis by (simp add: cells_add)
qed

lemma cells_split:
  fixes p m n :: u64
  assumes "cells (unat p) (unat m) \<subseteq># cells b s" and "b + s < 2 ^ 64" and "n \<le> m"
  shows "cells (unat p) (unat m) = cells (unat p) (unat (m - n)) + cells (unat (p + (m - n))) (unat n)"
proof -
  have le: "unat n \<le> unat m" using assms(3) by (simp add: word_le_nat_alt)
  then have mn: "unat (m - n) = unat m - unat n" by (rule unat_sub_le)
  have "unat p + unat m < 2 ^ 64" using assms(1,2) by (rule cells_nowrap)
  then have "unat (p + (m - n)) = unat p + unat (m - n)"
    using mn by (subst unat_add_nowrap) simp_all
  then show ?thesis
    using le mn cells_add [of "unat p" "unat (m - n)" "unat n"] by simp
qed

section \<open>The freed chunk operations keep the addresses\<close>

lemma scanFreedChunks_Inl:
  "scanFreedChunks sz cs i bi bs = Inl j \<Longrightarrow>
   i \<le> j \<and> j < i + length cs \<and> hc_size (cs ! (j - i)) = sz"
proof (induction sz cs i bi bs rule: scanFreedChunks.induct)
  case (2 sz c cs i bi bs)
  then show ?case
    by (auto split: if_splits simp: nth_Cons' Suc_diff_le dest: less_imp_Suc_add)
qed simp

lemma scanFreedChunks_Inr:
  "scanFreedChunks sz cs i bi bs = Inr (b, s) \<Longrightarrow>
   (b, s) = (bi, bs) \<or> (i \<le> b \<and> b < i + length cs \<and> hc_size (cs ! (b - i)) = s \<and> sz < s)"
proof (induction sz cs i bi bs rule: scanFreedChunks.induct)
  case (2 sz c cs i bi bs)
  then show ?case
    by (auto split: if_splits simp: nth_Cons' Suc_diff_le dest: less_imp_Suc_add)
qed simp

definition taken :: "u64 \<Rightarrow> u64 \<Rightarrow> u64" where
  "taken freed sz = (if freed > 0 then freed else sz)"

lemma getFromFreedChunks_cells:
  assumes "getFromFreedChunks sz cs = (p, freed, cs')"
    and "chunks_cells cs \<subseteq># cells b s" and "b + s < 2 ^ 64"
  shows "chunks_cells cs = chunks_cells cs' + cells (unat p) (unat (taken freed sz)) \<and>
           sz \<le> taken freed sz \<or>
         p = 0 \<and> freed = 0 \<and> cs' = cs"
proof (cases "scanFreedChunks sz cs 0 0 0")
  case (Inl i)
  then have i: "i < length cs" "hc_size (cs ! i) = sz"
    using scanFreedChunks_Inl [OF Inl] by simp_all
  with Inl assms(1) chunks_cells_erase_at [OF i(1)] show ?thesis
    by (auto simp: getFromFreedChunks_def taken_def chunk_cells_def add.commute)
next
  case (Inr r)
  obtain j m where r: "r = (j, m)" by (cases r)
  show ?thesis
  proof (cases "m = 0")
    case True
    with Inr r assms(1) show ?thesis by (simp add: getFromFreedChunks_def)
  next
    case False
    then have j: "j < length cs" "hc_size (cs ! j) = m" "sz < m"
      using scanFreedChunks_Inr [of sz cs 0 0 0 j m] Inr r by auto
    have erase: "chunks_cells cs = chunk_cells (cs ! j) + chunks_cells (erase_at j cs)"
      using j(1) by (rule chunks_cells_erase_at)
    then have sub: "cells (unat (hc_ptr (cs ! j))) (unat m) \<subseteq># cells b s"
      using assms(2) j(2) by (metis chunk_cells_def mset_subset_eq_add_left subset_mset.order_trans)
    show ?thesis
    proof (cases "m < push_bit 1 sz")
      case True
      then show ?thesis
        using Inr r False j assms(1) erase
        by (auto simp: getFromFreedChunks_def taken_def chunk_cells_def add.commute word_neq_0_conv)
    next
      case nosplit: False
      show ?thesis
        using Inr r False j assms(1) erase nosplit cells_split [OF sub assms(3), of sz]
        by (auto simp: getFromFreedChunks_def taken_def chunk_cells_def chunks_cells_update
            add_ac Let_def)
    qed
  qed
qed

lemma storeInFreedChunks_cells:
  assumes "chunks_cells cs + cells (unat p) (unat sz) \<subseteq># cells b s" and "b + s < 2 ^ 64"
  shows "chunks_cells (storeInFreedChunks p sz cs) = chunks_cells cs + cells (unat p) (unat sz)"
  using assms(1)
proof (induction cs)
  case Nil
  then show ?case by (simp add: chunk_cells_def)
next
  case (Cons c cs)
  have all: "cells (unat (hc_ptr c)) (unat (hc_size c)) + cells (unat p) (unat sz) \<subseteq># cells b s"
    using Cons.prems by (simp add: chunk_cells_def)
      (metis (no_types, lifting) add.assoc add.commute mset_subset_eq_add_left subset_mset.order_trans)
  have tail: "chunks_cells cs + cells (unat p) (unat sz) \<subseteq># cells b s"
    using Cons.prems
    by (metis (no_types, lifting) add.assoc chunks_cells_simps(2) mset_subset_eq_add_right
        subset_mset.order_trans)
  have all': "cells (unat p) (unat sz) + cells (unat (hc_ptr c)) (unat (hc_size c)) \<subseteq># cells b s"
    using all by (simp only: add.commute)
  have after: "cells (unat p) (unat (hc_size c + sz)) =
      cells (unat (hc_ptr c)) (unat (hc_size c)) + cells (unat p) (unat sz)"
    if "hc_ptr c = p + sz"
    using cells_merge [OF all' assms(2) that] by (metis add.commute)
  have before: "cells (unat (hc_ptr c)) (unat (hc_size c + sz)) =
      cells (unat (hc_ptr c)) (unat (hc_size c)) + cells (unat p) (unat sz)"
    if "hc_ptr c + hc_size c = p"
    using cells_merge [OF all assms(2) that [symmetric]] by (simp only: add.commute [of sz])
  consider "hc_ptr c = p + sz" | "hc_ptr c \<noteq> p + sz" "hc_ptr c + hc_size c = p"
    | "hc_ptr c \<noteq> p + sz" "hc_ptr c + hc_size c \<noteq> p"
    by blast
  then show ?case
  proof cases
    case 1
    then have st: "storeInFreedChunks p sz (c # cs) = \<lparr>hc_ptr = p, hc_size = hc_size c + sz\<rparr> # cs"
      by simp
    show ?thesis
      unfolding st chunks_cells_simps chunk_cells_def HeapChunk.simps after [OF 1]
      by (simp only: ac_simps)
  next
    case 2
    then have st: "storeInFreedChunks p sz (c # cs) = c\<lparr>hc_size := hc_size c + sz\<rparr> # cs"
      by simp
    show ?thesis
      unfolding st chunks_cells_simps chunk_cells_simps before [OF 2(2)]
      by (simp only: ac_simps chunk_cells_def)
  next
    case 3
    then show ?thesis using Cons.IH [OF tail] by (simp add: add.assoc)
  qed
qed

lemma erase_at_update_cells:
  assumes "Suc j < length cs"
  shows "chunks_cells (erase_at (Suc j) (cs[j := c])) + chunk_cells (cs ! j) + chunk_cells (cs ! Suc j) =
         chunk_cells c + chunks_cells cs"
proof -
  have "chunks_cells (cs[j := c]) = chunk_cells (cs ! Suc j) + chunks_cells (erase_at (Suc j) (cs[j := c]))"
    using assms chunks_cells_erase_at [of "Suc j" "cs[j := c]"] by simp
  moreover have "chunks_cells (cs[j := c]) + chunk_cells (cs ! j) = chunk_cells c + chunks_cells cs"
    using assms chunks_cells_update [of j cs c] chunks_cells_erase_at [of j cs] by (simp add: ac_simps)
  ultimately show ?thesis by (simp add: ac_simps)
qed

lemma adjacent_chunks_subset:
  assumes "Suc j < length cs" and "chunks_cells cs \<subseteq># R"
  shows "chunk_cells (cs ! j) + chunk_cells (cs ! Suc j) \<subseteq># R"
proof -
  have "chunks_cells (erase_at (Suc j) (cs[j := \<lparr>hc_ptr = 0, hc_size = 0\<rparr>])) +
        (chunk_cells (cs ! j) + chunk_cells (cs ! Suc j)) = chunks_cells cs"
    using erase_at_update_cells [OF assms(1), of "\<lparr>hc_ptr = 0, hc_size = 0\<rparr>"]
    by (simp add: chunk_cells_def ac_simps)
  then show ?thesis
    using assms(2) by (metis mset_subset_eq_add_right subset_mset.order_trans)
qed

lemma defragmentSmallLoop_cells:
  assumes "j < length cs \<or> j = 0" and "chunks_cells cs \<subseteq># cells b s" and "b + s < 2 ^ 64"
  shows "chunks_cells (defragmentSmallLoop j cs) = chunks_cells cs"
  using assms(1,2)
proof (induction j cs rule: defragmentSmallLoop.induct)
  case (2 j cs)
  let ?c = "cs ! Suc j" and ?d = "cs ! j"
  let ?m = "\<lparr>hc_ptr = hc_ptr ?c, hc_size = hc_size ?d + hc_size ?c\<rparr>"
  show ?case
  proof (cases "hc_ptr ?d = hc_ptr ?c + hc_size ?c")
    case True
    have j: "Suc j < length cs" using "2.prems" by simp
    have "cells (unat (hc_ptr ?c)) (unat (hc_size ?c)) + cells (unat (hc_ptr ?d)) (unat (hc_size ?d)) \<subseteq># cells b s"
      using adjacent_chunks_subset [OF j "2.prems"(2)] by (simp add: chunk_cells_def add.commute)
    then have "chunk_cells ?m = chunk_cells ?c + chunk_cells ?d"
      using cells_merge [OF _ assms(3) True] by (simp only: chunk_cells_def HeapChunk.simps)
    then have eq: "chunks_cells (erase_at (Suc j) (cs[j := ?m])) = chunks_cells cs"
      using erase_at_update_cells [OF j, of ?m] by (simp add: ac_simps)
    have "chunks_cells (defragmentSmallLoop j (erase_at (Suc j) (cs[j := ?m]))) =
          chunks_cells (erase_at (Suc j) (cs[j := ?m]))"
      by (rule "2.IH"(1) [OF refl refl True]) (use "2.prems" j eq in auto)
    with True eq show ?thesis by (simp add: Let_def)
  next
    case False
    with "2.IH"(2) [OF refl refl False] "2.prems" show ?thesis by (simp add: Let_def)
  qed
qed simp

lemma defragmentBigLoop_cells:
  assumes "j < length cs \<or> j = 0" and "chunks_cells cs \<subseteq># cells b s" and "b + s < 2 ^ 64"
  shows "chunks_cells (defragmentBigLoop j cs) = chunks_cells cs"
  using assms(1,2)
proof (induction j cs rule: defragmentBigLoop.induct)
  case (2 j cs)
  let ?c = "cs ! Suc j" and ?d = "cs ! j"
  let ?m = "?d\<lparr>hc_size := hc_size ?d + hc_size ?c\<rparr>"
  show ?case
  proof (cases "hc_ptr ?d + hc_size ?d = hc_ptr ?c")
    case True
    have j: "Suc j < length cs" using "2.prems" by simp
    have "cells (unat (hc_ptr ?d)) (unat (hc_size ?d)) + cells (unat (hc_ptr ?c)) (unat (hc_size ?c)) \<subseteq># cells b s"
      using adjacent_chunks_subset [OF j "2.prems"(2)] by (simp add: chunk_cells_def)
    then have "chunk_cells ?m = chunk_cells ?d + chunk_cells ?c"
      using cells_merge [OF _ assms(3) True [symmetric]]
      by (simp only: chunk_cells_simps add.commute [of "hc_size ?d"]) (simp only: chunk_cells_def)
    then have eq: "chunks_cells (erase_at (Suc j) (cs[j := ?m])) = chunks_cells cs"
      using erase_at_update_cells [OF j, of ?m] by (simp add: ac_simps)
    have "chunks_cells (defragmentBigLoop j (erase_at (Suc j) (cs[j := ?m]))) =
          chunks_cells (erase_at (Suc j) (cs[j := ?m]))"
      by (rule "2.IH"(1) [OF refl refl True]) (use "2.prems" j eq in auto)
    with True eq show ?thesis by (simp add: Let_def)
  next
    case False
    with "2.IH"(2) [OF refl refl False] "2.prems" show ?thesis by (simp add: Let_def)
  qed
qed simp

section \<open>Moving the bounds\<close>

lemma heap_tiled_nowrap:
  "heap_tiled base h M \<Longrightarrow> unat base + unat (ha_size h) < 2 ^ 64"
  by (simp add: heap_tiled_def heap_config_def)

lemma heap_tiled_subset:
  assumes "heap_tiled base h M"
  shows "M \<subseteq># cells (unat base) (unat (ha_size h))"
    and "chunks_cells (freedChunksSmall h) + M \<subseteq># cells (unat base) (unat (ha_size h))"
    and "chunks_cells (freedChunksBig h) + M \<subseteq># cells (unat base) (unat (ha_size h))"
    and "chunks_cells (freedChunksSmall h) \<subseteq># cells (unat base) (unat (ha_size h))"
    and "chunks_cells (freedChunksBig h) \<subseteq># cells (unat base) (unat (ha_size h))"
  using assms mset_sum4_subset unfolding heap_tiled_def by blast+

lemma heap_tiled_set_small:
  "heap_tiled base h M \<Longrightarrow> chunks_cells cs + M' = chunks_cells (freedChunksSmall h) + M \<Longrightarrow>
   heap_tiled base (h\<lparr>freedChunksSmall := cs\<rparr>) M'"
  unfolding heap_tiled_def heap_config_def by simp (metis (no_types, lifting) ac_simps)

lemma heap_tiled_set_big:
  "heap_tiled base h M \<Longrightarrow> chunks_cells cs + M' = chunks_cells (freedChunksBig h) + M \<Longrightarrow>
   heap_tiled base (h\<lparr>freedChunksBig := cs\<rparr>) M'"
  unfolding heap_tiled_def heap_config_def by simp (metis (no_types, lifting) ac_simps)

lemma heap_tiled_grow_right:
  assumes t: "heap_tiled base h (cells (unat p) (unat sz) + M)" and p: "p = pRightBound h"
  shows "heap_tiled base (h\<lparr>pRightBound := p + sz\<rparr>) M"
proof -
  let ?R = "cells (unat base) (unat (ha_size h))"
  have sub: "cells (unat p) (unat sz) \<subseteq># ?R"
    using heap_tiled_subset(1) [OF t] by (metis mset_subset_eq_add_left subset_mset.order_trans)
  have "unat p + unat sz < 2 ^ 64"
    using sub heap_tiled_nowrap [OF t] by (rule cells_nowrap)
  then have u: "unat (p + sz) = unat p + unat sz" by (simp add: unat_add_nowrap)
  have top: "unat p + unat sz \<le> unat base + unat (ha_size h)"
    using cells_subset_range [OF sub] t p by (cases "unat sz = 0") (auto simp: heap_tiled_def)
  have "cells (unat (pLeftBound h)) (unat p + unat sz - unat (pLeftBound h)) =
        cells (unat (pLeftBound h)) (unat p - unat (pLeftBound h)) + cells (unat p) (unat sz)"
    using t p cells_add [of "unat (pLeftBound h)" "unat p - unat (pLeftBound h)" "unat sz"]
    by (simp add: heap_tiled_def)
  then show ?thesis
    using t p u top by (simp add: heap_tiled_def heap_config_def ac_simps)
qed

lemma heap_tiled_grow_left:
  assumes t: "heap_tiled base h (cells (unat p) (unat sz) + M)" and p: "p = pLeftBound h - sz"
  shows "heap_tiled base (h\<lparr>pLeftBound := p\<rparr>) M"
proof -
  let ?R = "cells (unat base) (unat (ha_size h))"
  have sub: "cells (unat p) (unat sz) \<subseteq># ?R"
    using heap_tiled_subset(1) [OF t] by (metis mset_subset_eq_add_left subset_mset.order_trans)
  have "unat p + unat sz < 2 ^ 64"
    using sub heap_tiled_nowrap [OF t] by (rule cells_nowrap)
  then have L: "unat (pLeftBound h) = unat p + unat sz"
    using p unat_add_nowrap [of p sz] by simp
  have "unat base \<le> unat p"
    using cells_subset_range [OF sub] t L by (cases "unat sz = 0") (auto simp: heap_tiled_def)
  moreover have "cells (unat p) (unat (pRightBound h) - unat p) =
        cells (unat p) (unat sz) +
        cells (unat (pLeftBound h)) (unat (pRightBound h) - unat (pLeftBound h))"
    using t L cells_add [of "unat p" "unat sz" "unat (pRightBound h) - unat (pLeftBound h)"]
    by (simp add: heap_tiled_def)
  ultimately show ?thesis
    using t L by (simp add: heap_tiled_def heap_config_def ac_simps)
qed

lemma heap_tiled_shrink_right:
  assumes t: "heap_tiled base h M" and sz: "unat sz \<le> unat base"
    and fit: "pLeftBound h \<le> pRightBound h - sz"
  shows "heap_tiled base (h\<lparr>pRightBound := pRightBound h - sz\<rparr>)
           (cells (unat (pRightBound h - sz)) (unat sz) + M)"
proof -
  have "unat sz \<le> unat (pRightBound h)"
    using t sz by (simp add: heap_tiled_def)
  then have u: "unat (pRightBound h - sz) = unat (pRightBound h) - unat sz" by (rule unat_sub_le)
  with fit have le: "unat (pLeftBound h) \<le> unat (pRightBound h) - unat sz"
    by (simp add: word_le_nat_alt)
  have "cells (unat (pLeftBound h)) (unat (pRightBound h) - unat (pLeftBound h)) =
        cells (unat (pLeftBound h)) (unat (pRightBound h) - unat sz - unat (pLeftBound h)) +
        cells (unat (pRightBound h) - unat sz) (unat sz)"
    using le \<open>unat sz \<le> unat (pRightBound h)\<close>
      cells_add [of "unat (pLeftBound h)" "unat (pRightBound h) - unat sz - unat (pLeftBound h)" "unat sz"]
    by simp
  then show ?thesis
    using t u le by (auto simp: heap_tiled_def heap_config_def ac_simps)
qed

lemma heap_tiled_shrink_left:
  assumes t: "heap_tiled base h M" and sz: "unat sz \<le> unat (ha_size h)"
    and fit: "pLeftBound h + sz \<le> pRightBound h"
  shows "heap_tiled base (h\<lparr>pLeftBound := pLeftBound h + sz\<rparr>)
           (cells (unat (pLeftBound h)) (unat sz) + M)"
proof -
  have "unat (pLeftBound h) + unat sz < 2 ^ 64"
    using t sz by (simp add: heap_tiled_def heap_config_def)
  then have u: "unat (pLeftBound h + sz) = unat (pLeftBound h) + unat sz" by (simp add: unat_add_nowrap)
  with fit have le: "unat (pLeftBound h) + unat sz \<le> unat (pRightBound h)"
    by (simp add: word_le_nat_alt)
  have "cells (unat (pLeftBound h)) (unat (pRightBound h) - unat (pLeftBound h)) =
        cells (unat (pLeftBound h)) (unat sz) +
        cells (unat (pLeftBound h) + unat sz) (unat (pRightBound h) - (unat (pLeftBound h) + unat sz))"
    using le cells_add [of "unat (pLeftBound h)" "unat sz" "unat (pRightBound h) - (unat (pLeftBound h) + unat sz)"]
    by simp
  then show ?thesis
    using t u le by (simp add: heap_tiled_def heap_config_def ac_simps)
qed

section \<open>The operations keep the invariant\<close>

lemma mergeLastFreedSmall_tiled:
  assumes "heap_tiled base h M"
  shows "heap_tiled base (mergeLastFreedSmall h) M"
proof (cases "freedChunksSmall h \<noteq> [] \<and> hc_ptr (last (freedChunksSmall h)) = pRightBound h")
  case True
  let ?c = "last (freedChunksSmall h)" and ?cs = "butlast (freedChunksSmall h)"
  have "chunks_cells (freedChunksSmall h) = chunks_cells (?cs @ [?c])"
    using True by simp
  then have "heap_tiled base (h\<lparr>freedChunksSmall := ?cs\<rparr>) (cells (unat (hc_ptr ?c)) (unat (hc_size ?c)) + M)"
    by (intro heap_tiled_set_small [OF assms]) (simp add: chunk_cells_def ac_simps del: append_butlast_last_id)
  from heap_tiled_grow_right [OF this]
  have "heap_tiled base (h\<lparr>freedChunksSmall := ?cs, pRightBound := hc_ptr ?c + hc_size ?c\<rparr>) M"
    using True by simp
  moreover have "mergeLastFreedSmall h =
      h\<lparr>freedChunksSmall := ?cs, pRightBound := hc_ptr ?c + hc_size ?c\<rparr>"
    using True by (cases h) (simp add: mergeLastFreedSmall_def)
  ultimately show ?thesis by simp
qed (auto simp: mergeLastFreedSmall_def assms)

lemma mergeLastFreedBig_tiled:
  assumes "heap_tiled base h M"
  shows "heap_tiled base (mergeLastFreedBig h) M"
proof (cases "freedChunksBig h \<noteq> [] \<and>
    hc_ptr (last (freedChunksBig h)) = pLeftBound h - hc_size (last (freedChunksBig h))")
  case True
  let ?c = "last (freedChunksBig h)" and ?cs = "butlast (freedChunksBig h)"
  have "chunks_cells (freedChunksBig h) = chunks_cells (?cs @ [?c])"
    using True by simp
  then have "heap_tiled base (h\<lparr>freedChunksBig := ?cs\<rparr>) (cells (unat (hc_ptr ?c)) (unat (hc_size ?c)) + M)"
    by (intro heap_tiled_set_big [OF assms]) (simp add: chunk_cells_def ac_simps del: append_butlast_last_id)
  from heap_tiled_grow_left [OF this]
  have "heap_tiled base (h\<lparr>freedChunksBig := ?cs, pLeftBound := hc_ptr ?c\<rparr>) M"
    using True by simp
  moreover have "mergeLastFreedBig h = h\<lparr>freedChunksBig := ?cs, pLeftBound := hc_ptr ?c\<rparr>"
    using True by (cases h) (simp add: mergeLastFreedBig_def)
  ultimately show ?thesis by simp
qed (auto simp: mergeLastFreedBig_def assms)

lemma defragment_sorted_cells:
  "chunks_cells (sortChunks cs) = chunks_cells cs" "chunks_cells (rev (sortChunks cs)) = chunks_cells cs"
  by (rule chunks_cells_mset, simp add: sortChunks_def)+

lemma defragment_tiled:
  assumes "heap_tiled base h M"
  shows "heap_tiled base (defragment h) M"
proof -
  let ?small = "freedChunksSmall h"
  let ?h1 = "if length ?small > 1
             then h\<lparr>freedChunksSmall := defragmentSmallLoop (length ?small - 1) (rev (sortChunks ?small))\<rparr>
             else h"
  have "chunks_cells (defragmentSmallLoop (length ?small - 1) (rev (sortChunks ?small))) = chunks_cells ?small"
    by (subst defragmentSmallLoop_cells [OF _ _ heap_tiled_nowrap [OF assms]])
      (auto simp: sortChunks_def defragment_sorted_cells [unfolded sortChunks_def] heap_tiled_subset [OF assms])
  then have "heap_tiled base ?h1 M"
    using assms by (auto intro: heap_tiled_set_small)
  then have t: "heap_tiled base (mergeLastFreedSmall ?h1) M"
    by (rule mergeLastFreedSmall_tiled)
  define h2 where "h2 = mergeLastFreedSmall ?h1"
  have t2: "heap_tiled base h2 M" using t by (simp only: h2_def)
  let ?big = "freedChunksBig h2"
  let ?h3 = "if length ?big > 1
             then h2\<lparr>freedChunksBig := defragmentBigLoop (length ?big - 1) (sortChunks ?big)\<rparr> else h2"
  have "chunks_cells (defragmentBigLoop (length ?big - 1) (sortChunks ?big)) = chunks_cells ?big"
    by (subst defragmentBigLoop_cells [OF _ _ heap_tiled_nowrap [OF t2]])
      (auto simp: sortChunks_def defragment_sorted_cells [unfolded sortChunks_def] heap_tiled_subset [OF t2])
  then have "heap_tiled base ?h3 M"
    using t2 by (auto intro: heap_tiled_set_big)
  then have "heap_tiled base (mergeLastFreedBig ?h3) M"
    by (rule mergeLastFreedBig_tiled)
  then show ?thesis unfolding defragment_def Let_def h2_def .
qed

lemma merge_fields [simp]:
  "availableSize (mergeLastFreedSmall h) = availableSize h"
  "ha_size (mergeLastFreedSmall h) = ha_size h"
  "sizeThreshold (mergeLastFreedSmall h) = sizeThreshold h"
  "allocationAlignment (mergeLastFreedSmall h) = allocationAlignment h"
  "availableSize (mergeLastFreedBig h) = availableSize h"
  "ha_size (mergeLastFreedBig h) = ha_size h"
  "sizeThreshold (mergeLastFreedBig h) = sizeThreshold h"
  "allocationAlignment (mergeLastFreedBig h) = allocationAlignment h"
  by (simp_all add: mergeLastFreedSmall_def mergeLastFreedBig_def)

lemma defragment_fields [simp]:
  "availableSize (defragment h) = availableSize h"
  "ha_size (defragment h) = ha_size h"
  "sizeThreshold (defragment h) = sizeThreshold h"
  "allocationAlignment (defragment h) = allocationAlignment h"
  by (simp_all add: defragment_def Let_def)

lemma allocateStep_fields:
  "allocateStep h sz = (p, freed, h') \<Longrightarrow>
   availableSize h' = availableSize h \<and> ha_size h' = ha_size h \<and>
   sizeThreshold h' = sizeThreshold h \<and> allocationAlignment h' = allocationAlignment h"
  by (auto simp: allocateStep_def Let_def split: prod.splits if_splits)

lemma cells_at_0_outside:
  "heap_tiled base h (cells 0 n + M) \<Longrightarrow> n = 0"
  using heap_tiled_subset(1) [of base h "cells 0 n + M"] cells_subset_range [of 0 n]
  by (metis bot_nat_0.extremum_unique bot_nat_0.not_eq_extremum heap_config_def heap_tiled_def
      mset_subset_eq_add_left subset_mset.order_trans)

lemma heap_tiled_left_pos:
  "heap_tiled base h M \<Longrightarrow> pLeftBound h \<noteq> 0"
  by (auto simp: heap_tiled_def heap_config_def)

text \<open>One iteration of \<^verbatim>\<open>allocate\<close>: without a result nothing is taken; with one, the returned
  range leaves the free addresses and is at least as long as requested.\<close>

lemma allocateStep_tiled:
  assumes t: "heap_tiled base h M" and sz: "unat sz \<le> unat (ha_size h)"
    and st: "allocateStep h sz = (p, freed, h')" and safe: "sz \<le> sizeThreshold h \<longrightarrow> unat sz \<le> unat base"
  shows "if p = 0 then heap_tiled base h' M
         else heap_tiled base h' (cells (unat p) (unat (taken freed sz)) + M) \<and> sz \<le> taken freed sz"
proof (cases "sz > sizeThreshold h")
  case True
  obtain q f cs where g: "getFromFreedChunks sz (freedChunksBig h) = (q, f, cs)"
    by (metis prod_cases3)
  note c = getFromFreedChunks_cells [OF g heap_tiled_subset(5) [OF t] heap_tiled_nowrap [OF t]]
  show ?thesis
  proof (cases "q = 0")
    case q0: True
    have t': "heap_tiled base (h\<lparr>freedChunksBig := cs\<rparr>) (cells 0 (unat (taken f sz)) + M) \<or> f = 0 \<and> cs = freedChunksBig h"
      using c q0 heap_tiled_set_big [OF t] by (auto simp: ac_simps)
    then have "heap_tiled base (h\<lparr>freedChunksBig := cs\<rparr>) M \<and> taken f sz = taken 0 sz"
      using cells_at_0_outside [of base "h\<lparr>freedChunksBig := cs\<rparr>" "unat (taken f sz)" M] t
      by (auto simp: taken_def word_neq_0_conv unat_eq_zero)
    with True q0 st g sz show ?thesis
      using heap_tiled_left_pos [OF t] heap_tiled_shrink_left [of base "h\<lparr>freedChunksBig := cs\<rparr>" M sz]
      by (auto simp: allocateStep_def Let_def taken_def split: if_splits)
  next
    case False
    with c have "heap_tiled base (h\<lparr>freedChunksBig := cs\<rparr>) (cells (unat q) (unat (taken f sz)) + M)"
      by (intro heap_tiled_set_big [OF t]) (simp add: ac_simps)
    with True False st g c show ?thesis by (auto simp: allocateStep_def Let_def)
  qed
next
  case small: False
  obtain q f cs where g: "getFromFreedChunks sz (freedChunksSmall h) = (q, f, cs)"
    by (metis prod_cases3)
  note c = getFromFreedChunks_cells [OF g heap_tiled_subset(4) [OF t] heap_tiled_nowrap [OF t]]
  show ?thesis
  proof (cases "q = 0")
    case q0: True
    have t': "heap_tiled base (h\<lparr>freedChunksSmall := cs\<rparr>) (cells 0 (unat (taken f sz)) + M) \<or> f = 0 \<and> cs = freedChunksSmall h"
      using c q0 heap_tiled_set_small [OF t] by (auto simp: ac_simps)
    then have "heap_tiled base (h\<lparr>freedChunksSmall := cs\<rparr>) M \<and> taken f sz = taken 0 sz"
      using cells_at_0_outside [of base "h\<lparr>freedChunksSmall := cs\<rparr>" "unat (taken f sz)" M] t
      by (auto simp: taken_def word_neq_0_conv unat_eq_zero)
    with small q0 st g sz safe show ?thesis
      using heap_tiled_left_pos [OF t] heap_tiled_shrink_right [of base "h\<lparr>freedChunksSmall := cs\<rparr>" M sz]
      by (auto simp: allocateStep_def Let_def taken_def split: if_splits)
  next
    case False
    with c have "heap_tiled base (h\<lparr>freedChunksSmall := cs\<rparr>) (cells (unat q) (unat (taken f sz)) + M)"
      by (intro heap_tiled_set_small [OF t]) (simp add: ac_simps)
    with small False st g c show ?thesis by (auto simp: allocateStep_def Let_def)
  qed
qed

lemma allocateAccount_inv:
  assumes "heap_tiled base h (cells (unat p) (unat (taken freed sz)) + blocks_cells live)"
    and "unat (availableSize h) + size (blocks_cells live) = unat (ha_size h)"
    and "allocateAccount (p, freed, h) sz = (q, n, h')" and "p \<noteq> 0" and "\<forall>b \<in> set live. fst b \<noteq> 0"
  shows "q = p \<and> n = taken freed sz \<and> heap_inv base h' ((q, n) # live)"
proof -
  have res: "q = p" "n = taken freed sz" "h' = h\<lparr>availableSize := availableSize h - taken freed sz\<rparr>"
    using assms(3) by (auto simp: allocateAccount_def taken_def split: if_splits)
  have "size (cells (unat p) (unat (taken freed sz)) + blocks_cells live) \<le> unat (ha_size h)"
    using size_mset_mono [OF heap_tiled_subset(1) [OF assms(1)]] by simp
  then have "unat (availableSize h - taken freed sz) = unat (availableSize h) - unat (taken freed sz)"
    using assms(2) by (intro unat_sub_le) simp
  moreover have "unat (taken freed sz) + size (blocks_cells live) \<le> unat (ha_size h)"
    using \<open>size _ \<le> _\<close> by simp
  ultimately show ?thesis
    using assms(1,2,4,5) res by (simp add: heap_inv_def block_cells_def heap_tiled_def heap_config_def)
qed

text \<open>A request the heap at \<open>base\<close> can bound: one served at the right bound is not larger than the
  base address, so that the bound minus the size does not wrap.\<close>

definition boundedRequest :: "u64 \<Rightarrow> HeapAllocator \<Rightarrow> u64 \<Rightarrow> bool" where
  "boundedRequest base h n \<longleftrightarrow>
     (alignUp n (allocationAlignment h) \<le> sizeThreshold h \<longrightarrow> unat (alignUp n (allocationAlignment h)) \<le> unat base)"

lemma allocate_heap_inv:
  assumes inv: "heap_inv base h live" and al: "allocate h n = (p, n', h')" and safe: "boundedRequest base h n"
  shows "if p = 0 then heap_inv base h' live
         else heap_inv base h' ((p, n') # live) \<and> alignUp n (allocationAlignment h) \<le> n'"
proof -
  define sz where "sz = alignUp n (allocationAlignment h)"
  have t: "heap_tiled base h (blocks_cells live)"
    and av: "unat (availableSize h) + size (blocks_cells live) = unat (ha_size h)"
    and nz: "\<forall>b \<in> set live. fst b \<noteq> 0"
    using inv by (simp_all add: heap_inv_def)
  show ?thesis
  proof (cases "availableSize h < sz")
    case True
    with al inv show ?thesis by (simp add: allocate_def Let_def sz_def)
  next
    case False
    then have sz: "unat sz \<le> unat (ha_size h)"
      using av by (simp add: word_less_nat_alt)
    obtain p1 f1 h1 where s1: "allocateStep h sz = (p1, f1, h1)" by (metis prod_cases3)
    have safe: "sz \<le> sizeThreshold h \<longrightarrow> unat sz \<le> unat base"
      using safe by (simp add: boundedRequest_def sz_def)
    note i1 = allocateStep_tiled [OF t sz s1 safe] and fl1 = allocateStep_fields [OF s1]
    show ?thesis
    proof (cases "p1 = 0")
      case False
      with s1 al \<open>\<not> availableSize h < sz\<close> have "allocateAccount (p1, f1, h1) sz = (p, n', h')"
        by (simp add: allocate_def Let_def flip: sz_def)
      with allocateAccount_inv [of base h1 p1 f1 sz live] i1 fl1 av nz False show ?thesis
        by (auto simp flip: sz_def)
    next
      case True
      then have t2: "heap_tiled base (defragment h1) (blocks_cells live)"
        using i1 by (simp add: defragment_tiled)
      obtain p2 f2 h2 where s2: "allocateStep (defragment h1) sz = (p2, f2, h2)" by (metis prod_cases3)
      have "unat sz \<le> unat (ha_size (defragment h1))" "sz \<le> sizeThreshold (defragment h1) \<longrightarrow> unat sz \<le> unat base"
        using sz safe fl1 by simp_all
      note i2 = allocateStep_tiled [OF t2 this(1) s2 this(2)] and fl2 = allocateStep_fields [OF s2]
      show ?thesis
      proof (cases "p2 = 0")
        case p2: True
        with s1 s2 True al \<open>\<not> availableSize h < sz\<close> have "p = 0" "h' = h2"
          by (simp_all add: allocate_def Let_def flip: sz_def)
        with i2 p2 fl1 fl2 av nz show ?thesis by (simp add: heap_inv_def)
      next
        case p2: False
        with s1 s2 True al \<open>\<not> availableSize h < sz\<close> have "allocateAccount (p2, f2, h2) sz = (p, n', h')"
          by (simp add: allocate_def Let_def flip: sz_def)
        with allocateAccount_inv [of base h2 p2 f2 sz live] i2 fl1 fl2 av nz p2 show ?thesis
          by (auto simp flip: sz_def)
      qed
    qed
  qed
qed

lemma free_heap_inv:
  assumes inv: "heap_inv base h live" and b: "(p, n) \<in> set live"
  shows "heap_inv base (free h p n) (remove1 (p, n) live)"
proof -
  let ?M = "blocks_cells (remove1 (p, n) live)"
  have p: "p \<noteq> 0" and nz: "\<forall>b \<in> set (remove1 (p, n) live). fst b \<noteq> 0"
    using inv b by (auto simp: heap_inv_def dest!: set_remove1_subset [THEN subsetD])
  have M: "blocks_cells live = cells (unat p) (unat n) + ?M"
    using blocks_cells_remove1 [OF b] by (simp add: block_cells_def)
  then have t: "heap_tiled base h (cells (unat p) (unat n) + ?M)"
    using inv by (simp add: heap_inv_def)
  note R = heap_tiled_subset [OF t] and nw = heap_tiled_nowrap [OF t]
  have small: "chunks_cells (freedChunksSmall h) + cells (unat p) (unat n) \<subseteq># cells (unat base) (unat (ha_size h))"
    using R(2) by (metis (no_types, lifting) add.assoc mset_subset_eq_add_left subset_mset.order_trans)
  have big: "chunks_cells (freedChunksBig h) + cells (unat p) (unat n) \<subseteq># cells (unat base) (unat (ha_size h))"
    using R(3) by (metis (no_types, lifting) add.assoc mset_subset_eq_add_left subset_mset.order_trans)
  define h1 where "h1 =
    (if p = pRightBound h then mergeLastFreedSmall (h\<lparr>pRightBound := p + n\<rparr>)
     else if p = pLeftBound h - n then mergeLastFreedBig (h\<lparr>pLeftBound := p\<rparr>)
     else if p < pLeftBound h
     then h\<lparr>freedChunksBig := storeInFreedChunks p n (freedChunksBig h)\<rparr>
     else h\<lparr>freedChunksSmall := storeInFreedChunks p n (freedChunksSmall h)\<rparr>)"
  have "heap_tiled base h1 ?M"
    unfolding h1_def
    using heap_tiled_grow_right [OF t] heap_tiled_grow_left [OF t]
      heap_tiled_set_big [OF t] storeInFreedChunks_cells [OF big nw]
      heap_tiled_set_small [OF t] storeInFreedChunks_cells [OF small nw]
    by (auto intro: mergeLastFreedSmall_tiled mergeLastFreedBig_tiled simp: add.assoc)
  moreover have "availableSize h1 = availableSize h" "ha_size h1 = ha_size h"
    by (simp_all add: h1_def)
  moreover have "unat (availableSize h) + (unat n + size ?M) = unat (ha_size h)"
    using inv M by (simp add: heap_inv_def)
  moreover from this have "unat (availableSize h + n) = unat (availableSize h) + unat n"
    using nw by (intro unat_add_nowrap) simp
  ultimately show ?thesis
    using p nz by (simp add: free_def Let_def heap_inv_def heap_tiled_def heap_config_def flip: h1_def)
qed

lemma heap_inv_ctor:
  assumes "0 < unat base" and "unat base + 2 * unat sz < 2 ^ 64"
  shows "heap_inv base (HeapAllocator_ctor3 base sz threshold) []"
proof -
  have "unat (base + sz) = unat base + unat sz"
    using assms by (intro unat_add_nowrap) simp
  with assms show ?thesis
    by (simp add: heap_inv_def heap_tiled_def heap_config_def HeapAllocator_ctor3_def)
qed

lemma allocateStep_snd [simp]:
  "ha_size (snd (snd (allocateStep h sz))) = ha_size h"
  "sizeThreshold (snd (snd (allocateStep h sz))) = sizeThreshold h"
  "allocationAlignment (snd (snd (allocateStep h sz))) = allocationAlignment h"
  using allocateStep_fields by (metis prod.collapse)+

lemma allocateAccount_snd [simp]:
  "ha_size (snd (snd (allocateAccount r sz))) = ha_size (snd (snd r))"
  "sizeThreshold (snd (snd (allocateAccount r sz))) = sizeThreshold (snd (snd r))"
  "allocationAlignment (snd (snd (allocateAccount r sz))) = allocationAlignment (snd (snd r))"
  by (cases r; simp add: allocateAccount_def)+

lemma allocate_fields:
  assumes "allocate h n = (p, n', h')"
  shows "ha_size h' = ha_size h \<and> sizeThreshold h' = sizeThreshold h \<and> allocationAlignment h' = allocationAlignment h"
proof -
  have "h' = snd (snd (allocate h n))" using assms by simp
  then show ?thesis by (simp add: allocate_def Let_def)
qed

lemma free_fields [simp]: "ha_size (free h p n) = ha_size h" "sizeThreshold (free h p n) = sizeThreshold h"
  by (simp_all add: free_def Let_def)

definition heap_contract :: "nat \<Rightarrow> nat \<Rightarrow> HeapAllocator \<Rightarrow> block list \<Rightarrow> bool" where
  "heap_contract b len h live \<longleftrightarrow>
     (\<exists>base. unat base = b \<and> unat (ha_size h) = len \<and> unat (sizeThreshold h) \<le> b \<and> heap_inv base h live)"

lemma threshold_bounds: "unat (sizeThreshold h) \<le> unat base \<Longrightarrow> boundedRequest base h n"
  by (simp add: boundedRequest_def word_le_nat_alt)

interpretation heap: block_allocator allocate free heap_contract
proof
  fix b len h live
  assume "heap_contract b len h live"
  then show "blocks_cells live \<subseteq># cells b len"
    using heap_tiled_subset(1) by (auto simp: heap_contract_def heap_inv_def)
next
  fix b len h live n p n' h'
  assume "heap_contract b len h live" and "allocate h n = (p, n', h')"
  then show "heap_contract b len h' (if p = 0 then live else (p, n') # live)"
    using allocate_heap_inv [OF _ _ threshold_bounds] allocate_fields by (fastforce simp: heap_contract_def split: if_splits)
next
  fix b len h live p n
  assume "heap_contract b len h live" and "(p, n) \<in> set live"
  then show "heap_contract b len (free h p n) (remove1 (p, n) live)"
    using free_heap_inv by (auto simp: heap_contract_def)
qed

lemma heap_contract_ctor:
  assumes "0 < unat base" and "unat base + 2 * unat sz < 2 ^ 64" and "unat threshold \<le> unat base"
  shows "heap_contract (unat base) (unat sz) (HeapAllocator_ctor3 base sz threshold) []"
  using heap_inv_ctor [OF assms(1,2)] assms(3) by (auto simp: heap_contract_def HeapAllocator_ctor3_def)

text \<open>A heap that starts below its threshold, with clients that only make requests it can bound.\<close>

definition boundedAllocate :: "u64 \<Rightarrow> HeapAllocator \<Rightarrow> u64 \<Rightarrow> u64 \<times> u64 \<times> HeapAllocator" where
  "boundedAllocate base h n = (if boundedRequest base h n then allocate h n else (0, n, h))"

definition bounded_contract :: "u64 \<Rightarrow> nat \<Rightarrow> nat \<Rightarrow> HeapAllocator \<Rightarrow> block list \<Rightarrow> bool" where
  "bounded_contract base b len h live \<longleftrightarrow> unat base = b \<and> unat (ha_size h) = len \<and> heap_inv base h live"

interpretation bounded: block_allocator "boundedAllocate base" free "bounded_contract base" for base
proof
  fix b len h live
  assume "bounded_contract base b len h live"
  then show "blocks_cells live \<subseteq># cells b len"
    using heap_tiled_subset(1) by (auto simp: bounded_contract_def heap_inv_def)
next
  fix b len h live n p n' h'
  assume "bounded_contract base b len h live" and "boundedAllocate base h n = (p, n', h')"
  then show "bounded_contract base b len h' (if p = 0 then live else (p, n') # live)"
    using allocate_heap_inv allocate_fields by (fastforce simp: bounded_contract_def boundedAllocate_def split: if_splits)
next
  fix b len h live p n
  assume "bounded_contract base b len h live" and "(p, n) \<in> set live"
  then show "bounded_contract base b len (free h p n) (remove1 (p, n) live)"
    using free_heap_inv by (auto simp: bounded_contract_def)
qed

lemma bounded_contract_ctor:
  assumes "0 < unat base" and "unat base + 2 * unat sz < 2 ^ 64"
  shows "bounded_contract base (unat base) (unat sz) (HeapAllocator_ctor3 base sz threshold) []"
  using heap_inv_ctor [OF assms] by (simp add: bounded_contract_def HeapAllocator_ctor3_def)

section \<open>Properties\<close>

lemmas heap_eval = allocate_def allocateStep_def allocateAccount_def
  getFromFreedChunks_def free_def mergeLastFreedSmall_def alignUp_def Let_def

text \<open>Claim C1. In a heap whose region lies above address zero and ends far enough from the top of the address space, the
  blocks the clients hold never overlap and lie inside the heap's region, whatever sequence of allocations and releases
  they make, if the region starts at or above the size threshold; and for a region that starts lower, whatever sequence they make
  in which no request at or below the threshold, rounded to pages, is larger than the base address of the heap.\<close>

theorem heap_blocks_never_overlap:
  assumes "0 < unat base" and "unat base + 2 * unat sz < 2 ^ 64"
    and "unat threshold \<le> unat base \<and> client_run allocate free (HeapAllocator_ctor3 base sz threshold) h live \<or>
         client_run (boundedAllocate base) free (HeapAllocator_ctor3 base sz threshold) h live"
  shows "disjoint_blocks live \<and>
         (\<forall>p n. (p, n) \<in> set live \<longrightarrow> 0 < unat n \<longrightarrow>
            unat base \<le> unat p \<and> unat p + unat n \<le> unat base + unat sz)"
  using assms(3)
proof (elim disjE conjE)
  assume "unat threshold \<le> unat base" and run: "client_run allocate free (HeapAllocator_ctor3 base sz threshold) h live"
  note c = heap_contract_ctor [OF assms(1,2) this(1)]
  show ?thesis using heap.run_disjoint [OF c run] heap.run_in_region [OF c run] by blast
next
  assume run: "client_run (boundedAllocate base) free (HeapAllocator_ctor3 base sz threshold) h live"
  note c = bounded_contract_ctor [OF assms(1,2)]
  show ?thesis using bounded.run_disjoint [OF c run] bounded.run_in_region [OF c run] by blast
qed

theorem heap_blocks_never_overlap_witness:
  "client_run allocate free (HeapAllocator_ctor3 8388608 1048576 4194304)
     (snd (snd (allocate (HeapAllocator_ctor3 8388608 1048576 4194304) 100)))
     [(9433088, 4096)] \<and>
   unat (8388608 :: u64) \<le> unat (9433088 :: u64) \<and>
   client_run (boundedAllocate 2097152) free (HeapAllocator_ctor3 2097152 1048576 4194304)
     (snd (snd (allocate (HeapAllocator_ctor3 2097152 1048576 4194304) 100)))
     [(3141632, 4096)] \<and>
   unat (2097152 :: u64) \<le> unat (3141632 :: u64)"
proof -
  have run: "client_run allocate free (HeapAllocator_ctor3 8388608 1048576 4194304)
     (snd (snd (allocate (HeapAllocator_ctor3 8388608 1048576 4194304) 100))) [(9433088, 4096)]"
    by (rule client_run.allocated [OF client_run.start, where n = 100])
      (simp_all add: heap_eval HeapAllocator_ctor3_def memory_constants)
  have low: "client_run (boundedAllocate 2097152) free (HeapAllocator_ctor3 2097152 1048576 4194304)
     (snd (snd (allocate (HeapAllocator_ctor3 2097152 1048576 4194304) 100))) [(3141632, 4096)]"
    by (rule client_run.allocated [OF client_run.start, where n = 100])
      (simp_all add: heap_eval boundedAllocate_def boundedRequest_def HeapAllocator_ctor3_def memory_constants)
  have "unat (8388608 :: u64) \<le> unat (9433088 :: u64)" "unat (2097152 :: u64) \<le> unat (3141632 :: u64)"
    using heap_blocks_never_overlap [OF _ _ disjI1, OF _ _ conjI [OF _ run]] heap_blocks_never_overlap [OF _ _ disjI2 [OF low]]
    by simp_all
  with run low show ?thesis by blast
qed

text \<open>The allocator's accounting is exact: in every reachable state the used size it
  reports is the sum of the sizes of the blocks held, and a block it returns is at least as
  large as the page-aligned request.\<close>

theorem heap_accounting_exact:
  assumes "0 < unat base" and "unat base + 2 * unat sz < 2 ^ 64" and "unat threshold \<le> unat base"
    and "client_run allocate free (HeapAllocator_ctor3 base sz threshold) h live"
  shows "unat (getUsedSize h) = sum_list (map (\<lambda>b. unat (snd b)) live) \<and>
         (\<forall>n p n' h'. allocate h n = (p, n', h') \<longrightarrow> p \<noteq> 0 \<longrightarrow>
            alignUp n (allocationAlignment h) \<le> n')"
proof -
  obtain base' where inv: "heap_inv base' h live" and th: "unat (sizeThreshold h) \<le> unat base'"
    using heap.run_inv [OF heap_contract_ctor [OF assms(1-3)] assms(4)] by (auto simp: heap_contract_def)
  have "size (blocks_cells bs) = sum_list (map (\<lambda>b. unat (snd b)) bs)" for bs
    by (induction bs) (simp_all add: block_cells_def)
  moreover have "unat (getUsedSize h) = unat (ha_size h) - unat (availableSize h)"
    using inv unfolding getUsedSize_def by (intro unat_sub_le) (simp add: heap_inv_def)
  ultimately show ?thesis
    using inv allocate_heap_inv [OF inv _ threshold_bounds [OF th]] by (force simp: heap_inv_def split: if_splits)
qed

theorem heap_accounting_exact_witness:
  "unat (getUsedSize (snd (snd (allocate (HeapAllocator_ctor3 8388608 1048576 4194304) 100)))) = 4096"
proof -
  have run: "client_run allocate free (HeapAllocator_ctor3 8388608 1048576 4194304)
     (snd (snd (allocate (HeapAllocator_ctor3 8388608 1048576 4194304) 100))) [(9433088, 4096)]"
    by (rule client_run.allocated [OF client_run.start, where n = 100])
      (simp_all add: heap_eval HeapAllocator_ctor3_def memory_constants)
  show ?thesis using heap_accounting_exact [OF _ _ _ run] by simp
qed

text \<open>The smallest chunk that is large enough is chosen when no chunk fits exactly.\<close>

lemma scanFreedChunks_best:
  "scanFreedChunks sz cs i bi bs = Inr (b, s) \<Longrightarrow> (bs \<noteq> 0 \<longrightarrow> s \<noteq> 0 \<and> s \<le> bs) \<and>
     (\<forall>c \<in> set cs. hc_size c \<noteq> sz \<and> (sz < hc_size c \<longrightarrow> s \<noteq> 0 \<and> s \<le> hc_size c))"
proof (induction sz cs i bi bs rule: scanFreedChunks.induct)
  case (2 sz c cs i bi bs)
  then show ?case by (fastforce split: if_splits simp: not_less)
qed simp

text \<open>\<^verbatim>\<open>getFromFreedChunks\<close> is a best fit search: if some freed chunk is at least as
  large as the request it succeeds from a chunk no larger than any other that would do, and
  what it takes from the chunk starts inside it; if none is large enough it changes nothing.\<close>

theorem getFromFreedChunks_best_fit:
  "if \<exists>c \<in> set cs. sz \<le> hc_size c \<and> hc_size c \<noteq> 0
   then \<exists>c \<in> set cs. sz \<le> hc_size c \<and>
          (\<forall>d \<in> set cs. sz \<le> hc_size d \<longrightarrow> hc_size c \<le> hc_size d) \<and>
          (fst (getFromFreedChunks sz cs) = hc_ptr c \<or>
           fst (getFromFreedChunks sz cs) = hc_ptr c + (hc_size c - sz))
   else sz \<noteq> 0 \<longrightarrow> getFromFreedChunks sz cs = (0, 0, cs)"
proof (cases "scanFreedChunks sz cs 0 0 0")
  case (Inl i)
  then have i: "i < length cs" "hc_size (cs ! i) = sz"
    using scanFreedChunks_Inl [OF Inl] by simp_all
  have g: "fst (getFromFreedChunks sz cs) = hc_ptr (cs ! i)"
    using Inl by (simp add: getFromFreedChunks_def)
  from i g show ?thesis
    by (metis nth_mem order_refl)
next
  case (Inr r)
  obtain j m where r: "r = (j, m)" by (cases r)
  note best = scanFreedChunks_best [OF Inr [unfolded r]]
  show ?thesis
  proof (cases "m = 0")
    case True
    then have "\<not> (\<exists>c \<in> set cs. sz \<le> hc_size c)"
      using best by (auto simp: order.order_iff_strict)
    with True Inr r show ?thesis by (auto simp: getFromFreedChunks_def)
  next
    case False
    then have j: "j < length cs" "hc_size (cs ! j) = m" "sz < m"
      using scanFreedChunks_Inr [of sz cs 0 0 0 j m] Inr r by auto
    have "fst (getFromFreedChunks sz cs) = hc_ptr (cs ! j) \<or>
          fst (getFromFreedChunks sz cs) = hc_ptr (cs ! j) + (hc_size (cs ! j) - sz)"
      using Inr r False by (simp add: getFromFreedChunks_def Let_def)
    moreover have "\<forall>d \<in> set cs. sz \<le> hc_size d \<longrightarrow> hc_size (cs ! j) \<le> hc_size d"
      using best j by (auto simp: order.order_iff_strict)
    moreover have "cs ! j \<in> set cs" "sz \<le> hc_size (cs ! j)" "hc_size (cs ! j) \<noteq> 0"
      using j False by auto
    ultimately show ?thesis by auto
  qed
qed

theorem getFromFreedChunks_best_fit_witness:
  "\<exists>c \<in> set [\<lparr>hc_ptr = 65536, hc_size = 16384\<rparr>, \<lparr>hc_ptr = 131072, hc_size = 8192\<rparr>].
     hc_size c = 8192 \<and>
     (fst (getFromFreedChunks 4096 [\<lparr>hc_ptr = 65536, hc_size = 16384\<rparr>, \<lparr>hc_ptr = 131072, hc_size = 8192\<rparr>])
        = hc_ptr c + (hc_size c - 4096))"
  using getFromFreedChunks_best_fit [of "[\<lparr>hc_ptr = 65536, hc_size = 16384\<rparr>, \<lparr>hc_ptr = 131072, hc_size = 8192\<rparr>]" 4096]
  by (simp add: getFromFreedChunks_def Let_def)

text \<open>A heap that starts below its size threshold, as the partition builds them at 2 MB with the
  4 MB default threshold: two blocks taken and two given back leave two free pages that do not
  touch, and a request for two pages makes \<^verbatim>\<open>pRightBound - sizeToAllocate\<close> wrap.\<close>

definition low_heap :: "u64 \<Rightarrow> u64 \<Rightarrow> HeapChunk list \<Rightarrow> HeapAllocator" where
  "low_heap right available chunks =
     \<lparr>ha_size = 16384, availableSize = available, pLeftBound = 4096, pRightBound = right,
      sizeThreshold = 4194304, allocationAlignment = 4096,
      freedChunksSmall = chunks, freedChunksBig = []\<rparr>"

lemma low_heap_run:
  "client_run allocate free (HeapAllocator_ctor 4096 16384)
     (low_heap 4096 8192 [\<lparr>hc_ptr = 16384, hc_size = 4096\<rparr>, \<lparr>hc_ptr = 8192, hc_size = 4096\<rparr>])
     [(4096, 4096), (12288, 4096)]"
proof -
  let ?run = "client_run allocate free (HeapAllocator_ctor 4096 16384)"
  have "?run (low_heap 20480 16384 []) []"
    using client_run.start [of allocate free "HeapAllocator_ctor 4096 16384"]
    by (simp add: HeapAllocator_ctor_def HeapAllocator_ctor3_def low_heap_def memory_constants)
  then have "?run (low_heap 16384 12288 []) [(16384, 4096)]"
    by (rule client_run.allocated [where n = 4096]) (simp_all add: heap_eval low_heap_def)
  then have "?run (low_heap 12288 8192 []) [(12288, 4096), (16384, 4096)]"
    by (rule client_run.allocated [where n = 4096]) (simp_all add: heap_eval low_heap_def)
  then have "?run (low_heap 8192 4096 []) [(8192, 4096), (12288, 4096), (16384, 4096)]"
    by (rule client_run.allocated [where n = 4096]) (simp_all add: heap_eval low_heap_def)
  then have "?run (low_heap 4096 0 []) [(4096, 4096), (8192, 4096), (12288, 4096), (16384, 4096)]"
    by (rule client_run.allocated [where n = 4096]) (simp_all add: heap_eval low_heap_def)
  from client_run.released [OF this, of 16384 4096]
  have "?run (low_heap 4096 4096 [\<lparr>hc_ptr = 16384, hc_size = 4096\<rparr>]) [(4096, 4096), (8192, 4096), (12288, 4096)]"
    by (simp add: heap_eval low_heap_def)
  from client_run.released [OF this, of 8192 4096] show ?thesis
    by (simp add: heap_eval low_heap_def)
qed

text \<open>The bounds check of a small request underflows when the request is larger than
  the right bound: a heap of four pages at address 4096 reaches, by allocations and releases
  alone, a state in which a two page request is answered with a block outside the heap.\<close>

theorem allocate_low_heap_escapes:
  "\<exists>h live p n h'. client_run allocate free (HeapAllocator_ctor 4096 16384) h live \<and>
     allocate h 8192 = (p, n, h') \<and> p = 0xFFFFFFFFFFFFF000 \<and> unat p \<notin> {4096..<4096 + 16384}"
proof -
  have "allocate (low_heap 4096 8192 [\<lparr>hc_ptr = 16384, hc_size = 4096\<rparr>, \<lparr>hc_ptr = 8192, hc_size = 4096\<rparr>]) 8192
      = (0xFFFFFFFFFFFFF000, 8192,
         low_heap 0xFFFFFFFFFFFFF000 0 [\<lparr>hc_ptr = 16384, hc_size = 4096\<rparr>, \<lparr>hc_ptr = 8192, hc_size = 4096\<rparr>])"
    by (simp add: heap_eval low_heap_def)
  with low_heap_run show ?thesis by fastforce
qed

end
