(* ===== verification/Gfx_Partition.thy ===== *)
theory Gfx_Partition
  imports Heap_Allocator
begin

text \<open>
  The clients of the heap allocator: the partition of the GPU address space into heaps
  (\<^verbatim>\<open>memory_manager/gfx_partition.h\<close>, \<^verbatim>\<open>gfx_partition.cpp\<close>) and the two Linux wrappers, the
  limited range allocator (\<^verbatim>\<open>drm_limited_range.cpp\<close>) and the 32-bit allocator
  (\<^verbatim>\<open>drm_32bit_memory.cpp\<close>). \<^verbatim>\<open>mmap\<close> is a parameter; the array of heaps is a function of the
  heap index; the null \<^verbatim>\<open>unique_ptr\<close> of an uninitialised heap is \<open>None\<close>.
\<close>

section \<open>The partition\<close>

datatype HeapIndex = HEAP_INTERNAL_DEVICE_MEMORY | HEAP_INTERNAL | HEAP_EXTERNAL_DEVICE_MEMORY
  | HEAP_EXTERNAL | HEAP_STANDARD | HEAP_STANDARD64KB | HEAP_SVM

record GfxHeap =
  gh_base :: u64
  gh_size :: u64
  gh_alloc :: "HeapAllocator option"

type_synonym GfxPartition = "HeapIndex \<Rightarrow> GfxHeap"

definition GfxPartition_ctor :: GfxPartition where
  "GfxPartition_ctor = (\<lambda>_. \<lparr>gh_base = 0, gh_size = 0, gh_alloc = None\<rparr>)"

definition Heap_init :: "u64 \<Rightarrow> u64 \<Rightarrow> GfxHeap" where
  "Heap_init base sz = \<lparr>gh_base = base, gh_size = sz, gh_alloc = Some (HeapAllocator_ctor base sz)\<rparr>"

definition heapInit :: "GfxPartition \<Rightarrow> HeapIndex \<Rightarrow> u64 \<Rightarrow> u64 \<Rightarrow> GfxPartition" where
  "heapInit gp heapIndex base sz = gp(heapIndex := Heap_init base sz)"

definition heapAllocate :: "GfxPartition \<Rightarrow> HeapIndex \<Rightarrow> u64 \<Rightarrow> (u64 \<times> u64 \<times> GfxPartition) rt_result" where
  "heapAllocate gp heapIndex sz =
     (case gh_alloc (gp heapIndex) of
        None \<Rightarrow> Inl NullDereference
      | Some a \<Rightarrow> (case allocate a sz of (p, n, a') \<Rightarrow>
          Inr (p, n, gp(heapIndex := (gp heapIndex)\<lparr>gh_alloc := Some a'\<rparr>))))"

definition heapFree :: "GfxPartition \<Rightarrow> HeapIndex \<Rightarrow> u64 \<Rightarrow> u64 \<Rightarrow> GfxPartition rt_result" where
  "heapFree gp heapIndex ptr sz =
     (case gh_alloc (gp heapIndex) of
        None \<Rightarrow> Inl NullDereference
      | Some a \<Rightarrow> Inr (gp(heapIndex := (gp heapIndex)\<lparr>gh_alloc := Some (free a ptr sz)\<rparr>)))"

definition getHeapBase :: "GfxPartition \<Rightarrow> HeapIndex \<Rightarrow> u64" where
  "getHeapBase gp heapIndex = gh_base (gp heapIndex)"

definition getHeapLimit :: "GfxPartition \<Rightarrow> HeapIndex \<Rightarrow> u64" where
  "getHeapLimit gp heapIndex = gh_base (gp heapIndex) + gh_size (gp heapIndex) - 1"

definition heap32Names :: "HeapIndex list" where
  "heap32Names = [HEAP_INTERNAL_DEVICE_MEMORY, HEAP_INTERNAL, HEAP_EXTERNAL_DEVICE_MEMORY, HEAP_EXTERNAL]"

definition max64BitAppAddress :: u64 where "max64BitAppAddress = maxNBitValue 47"
definition max48BitAddress :: u64 where "max48BitAddress = maxNBitValue 48"

text \<open>The loop over the four 32-bit heaps: partition and running \<^verbatim>\<open>gfxBase\<close>.\<close>

fun initHeaps32 :: "HeapIndex list \<Rightarrow> GfxPartition \<Rightarrow> u64 \<Rightarrow> GfxPartition \<times> u64" where
  "initHeaps32 [] gp gfxBase = (gp, gfxBase)"
| "initHeaps32 (heap # heaps) gp gfxBase =
     initHeaps32 heaps
       (heapInit gp heap (if gfxBase \<noteq> 0 then gfxBase else 2 * megaByte)
          (if gfxBase \<noteq> 0 then 4 * gigaByte else 4 * gigaByte - 2 * megaByte))
       (gfxBase + 4 * gigaByte)"

definition GfxPartition_init :: "GfxPartition \<Rightarrow> u64 \<Rightarrow> GfxPartition" where
  "GfxPartition_init gp gpuAddressSpace =
     (let gfxTop = gpuAddressSpace + 1;
          gfxGranularity = 2 * megaByte;
          (gp, gfxBase) =
            (if gpuAddressSpace = max48BitAddress
             then (heapInit gp HEAP_SVM gfxGranularity (max64BitAppAddress + 1 - gfxGranularity),
                   max64BitAppAddress + 1)
             else (gp, 0));
          (gp, gfxBase) = initHeaps32 heap32Names gp gfxBase;
          gfxStandardSize = drop_bit 1 (gfxTop - gfxBase);
          gp = heapInit gp HEAP_STANDARD gfxBase gfxStandardSize;
          gfxBase = gfxBase + gfxStandardSize;
          gfxBaseAligned = alignUp gfxBase gfxGranularity
      in heapInit gp HEAP_STANDARD64KB gfxBaseAligned (gfxStandardSize - ptrDiff gfxBaseAligned gfxBase))"

text \<open>On Windows the ranges come from the kernel: each has a base and a limit, its last address (\<^verbatim>\<open>Wddm::initGfxPartition\<close>).\<close>

record WddmRange =
  wp_Base :: u64
  wp_Limit :: u64

definition rangeSize :: "WddmRange \<Rightarrow> u64" where
  "rangeSize r = wp_Limit r - wp_Base r + 1"

definition Wddm_initGfxPartition :: "(HeapIndex \<Rightarrow> WddmRange) \<Rightarrow> GfxPartition \<Rightarrow> GfxPartition" where
  "Wddm_initGfxPartition ranges gp =
     (let gp = (if wp_Limit (ranges HEAP_SVM) \<noteq> 0 then heapInit gp HEAP_SVM (wp_Base (ranges HEAP_SVM)) (rangeSize (ranges HEAP_SVM)) else gp);
          gp = heapInit gp HEAP_STANDARD (wp_Base (ranges HEAP_STANDARD)) (rangeSize (ranges HEAP_STANDARD));
          gp = heapInit gp HEAP_STANDARD64KB (wp_Base (ranges HEAP_STANDARD64KB)) (rangeSize (ranges HEAP_STANDARD64KB))
      in fold (\<lambda>heap gp. heapInit gp heap (wp_Base (ranges heap) + pageSize) (rangeSize (ranges heap))) heap32Names gp)"

section \<open>The Linux wrappers\<close>

record AllocatorLimitedRange =
  lr_base :: u64
  lr_size :: u64
  lr_heapAllocator :: HeapAllocator

definition AllocatorLimitedRange_ctor :: "u64 \<Rightarrow> u64 \<Rightarrow> AllocatorLimitedRange" where
  "AllocatorLimitedRange_ctor base sz =
     \<lparr>lr_base = base, lr_size = sz, lr_heapAllocator = HeapAllocator_ctor base sz\<rparr>"

definition limitedRange_allocate :: "AllocatorLimitedRange \<Rightarrow> u64 \<Rightarrow> u64 \<times> u64 \<times> AllocatorLimitedRange" where
  "limitedRange_allocate a sz =
     (if sz \<ge> lr_size a then (0, sz, a)
      else case allocate (lr_heapAllocator a) sz of (p, n, h) \<Rightarrow> (p, n, a\<lparr>lr_heapAllocator := h\<rparr>))"

definition limitedRange_free :: "AllocatorLimitedRange \<Rightarrow> u64 \<Rightarrow> u64 \<Rightarrow> AllocatorLimitedRange" where
  "limitedRange_free a ptr sz = a\<lparr>lr_heapAllocator := free (lr_heapAllocator a) ptr sz\<rparr>"

record Allocator32bit =
  a32_base :: u64
  a32_size :: u64
  a32_heapAllocator :: HeapAllocator

definition MAP_FAILED :: u64 where "MAP_FAILED = -1"

text \<open>\<^verbatim>\<open>mmap\<close> takes the size to map; the first failure retries with a quarter less.\<close>

definition Allocator32bit_ctor :: "(u64 \<Rightarrow> u64) \<Rightarrow> u64 \<Rightarrow> Allocator32bit" where
  "Allocator32bit_ctor mmapFunction sizeToMap =
     (let ptr = mmapFunction sizeToMap;
          (ptr, sizeToMap) =
            (if ptr = MAP_FAILED then
               let sizeToMap = sizeToMap - sizeToMap div 4; ptr = mmapFunction sizeToMap
               in if ptr = MAP_FAILED then (0, 0) else (ptr, sizeToMap)
             else (ptr, sizeToMap))
      in \<lparr>a32_base = ptr, a32_size = sizeToMap, a32_heapAllocator = HeapAllocator_ctor ptr sizeToMap\<rparr>)"

definition a32_allocate :: "Allocator32bit \<Rightarrow> u64 \<Rightarrow> u64 \<times> u64 \<times> Allocator32bit" where
  "a32_allocate a sz =
     (case allocate (a32_heapAllocator a) sz of (p, n, h) \<Rightarrow> (p, n, a\<lparr>a32_heapAllocator := h\<rparr>))"

definition a32_free :: "Allocator32bit \<Rightarrow> u64 \<Rightarrow> u64 \<Rightarrow> Allocator32bit" where
  "a32_free a ptr sz =
     (if ptr = MAP_FAILED then a else a\<lparr>a32_heapAllocator := free (a32_heapAllocator a) ptr sz\<rparr>)"

section \<open>The wrappers provide the allocator contract\<close>

definition limited_contract :: "nat \<Rightarrow> nat \<Rightarrow> AllocatorLimitedRange \<Rightarrow> block list \<Rightarrow> bool" where
  "limited_contract b len a live \<longleftrightarrow> heap_contract b len (lr_heapAllocator a) live"

interpretation limited: block_allocator limitedRange_allocate limitedRange_free limited_contract
proof
  fix b len a live n p n' a'
  assume inv: "limited_contract b len a live" and step: "limitedRange_allocate a n = (p, n', a')"
  obtain q m h where call: "allocate (lr_heapAllocator a) n = (q, m, h)"
    by (metis prod_cases3)
  show "limited_contract b len a' (if p = 0 then live else (p, n') # live)"
    using inv step call heap.alloc_inv [OF _ call, of b len live]
    by (auto simp: limited_contract_def limitedRange_allocate_def split: if_splits)
qed (simp_all add: limited_contract_def limitedRange_free_def heap.inv_region heap.release_inv)

section \<open>The layout of the partition\<close>

definition heap_region :: "GfxPartition \<Rightarrow> HeapIndex \<Rightarrow> nat set" where
  "heap_region gp i = {unat (gh_base (gp i))..<unat (gh_base (gp i)) + unat (gh_size (gp i))}"

lemmas partition_eval = GfxPartition_init_def GfxPartition_ctor_def heapInit_def Heap_init_def
  heap32Names_def max64BitAppAddress_def max48BitAddress_def memory_constants ptrDiff_def Let_def

lemma init_full_range:
  "gh_base (GfxPartition_init gp max48BitAddress HEAP_SVM) = 0x200000"
  "gh_size (GfxPartition_init gp max48BitAddress HEAP_SVM) = 0x7FFFFFE00000"
  "gh_base (GfxPartition_init gp max48BitAddress HEAP_INTERNAL_DEVICE_MEMORY) = 0x800000000000"
  "gh_size (GfxPartition_init gp max48BitAddress HEAP_INTERNAL_DEVICE_MEMORY) = 0x100000000"
  "gh_base (GfxPartition_init gp max48BitAddress HEAP_INTERNAL) = 0x800100000000"
  "gh_size (GfxPartition_init gp max48BitAddress HEAP_INTERNAL) = 0x100000000"
  "gh_base (GfxPartition_init gp max48BitAddress HEAP_EXTERNAL_DEVICE_MEMORY) = 0x800200000000"
  "gh_size (GfxPartition_init gp max48BitAddress HEAP_EXTERNAL_DEVICE_MEMORY) = 0x100000000"
  "gh_base (GfxPartition_init gp max48BitAddress HEAP_EXTERNAL) = 0x800300000000"
  "gh_size (GfxPartition_init gp max48BitAddress HEAP_EXTERNAL) = 0x100000000"
  "gh_base (GfxPartition_init gp max48BitAddress HEAP_STANDARD) = 0x800400000000"
  "gh_size (GfxPartition_init gp max48BitAddress HEAP_STANDARD) = 0x3FFE00000000"
  "gh_base (GfxPartition_init gp max48BitAddress HEAP_STANDARD64KB) = 0xC00200000000"
  "gh_size (GfxPartition_init gp max48BitAddress HEAP_STANDARD64KB) = 0x3FFE00000000"
  by (simp_all add: partition_eval alignUp_def)

lemma init_limited_range:
  assumes "a \<noteq> max48BitAddress"
  shows
  "GfxPartition_init gp a HEAP_SVM = gp HEAP_SVM"
  "gh_base (GfxPartition_init gp a HEAP_INTERNAL_DEVICE_MEMORY) = 0x200000"
  "gh_size (GfxPartition_init gp a HEAP_INTERNAL_DEVICE_MEMORY) = 0xFFE00000"
  "gh_base (GfxPartition_init gp a HEAP_INTERNAL) = 0x100000000"
  "gh_size (GfxPartition_init gp a HEAP_INTERNAL) = 0x100000000"
  "gh_base (GfxPartition_init gp a HEAP_EXTERNAL_DEVICE_MEMORY) = 0x200000000"
  "gh_size (GfxPartition_init gp a HEAP_EXTERNAL_DEVICE_MEMORY) = 0x100000000"
  "gh_base (GfxPartition_init gp a HEAP_EXTERNAL) = 0x300000000"
  "gh_size (GfxPartition_init gp a HEAP_EXTERNAL) = 0x100000000"
  "gh_base (GfxPartition_init gp a HEAP_STANDARD) = 0x400000000"
  "gh_size (GfxPartition_init gp a HEAP_STANDARD) = drop_bit 1 (a + 1 - 0x400000000)"
  "gh_base (GfxPartition_init gp a HEAP_STANDARD64KB) =
     alignUp (0x400000000 + drop_bit 1 (a + 1 - 0x400000000)) 0x200000"
  "gh_size (GfxPartition_init gp a HEAP_STANDARD64KB) =
     drop_bit 1 (a + 1 - 0x400000000) -
       (alignUp (0x400000000 + drop_bit 1 (a + 1 - 0x400000000)) 0x200000 -
        (0x400000000 + drop_bit 1 (a + 1 - 0x400000000)))"
  using assms by (simp_all add: GfxPartition_init_def heapInit_def Heap_init_def heap32Names_def
      kiloByte_def megaByte_def gigaByte_def ptrDiff_def Let_def)

lemma standard_heap_sizes:
  assumes lo: "0x400400000 \<le> unat a" and hi: "unat a < 2 ^ 48 - 1"
  defines "s \<equiv> drop_bit 1 (a + 1 - 0x400000000 :: u64)"
  defines "b \<equiv> alignUp (0x400000000 + s) 0x200000"
  shows "unat s = (unat a + 1 - 0x400000000) div 2"
    and "unat b = (0x400000000 + unat s + 0x1FFFFF) div 0x200000 * 0x200000"
    and "unat (s - (b - (0x400000000 + s))) = unat s - (unat b - (0x400000000 + unat s))"
proof -
  have two: "unat (2 :: u64) = 2" by simp
  have a1: "unat (a + 1) = unat a + 1"
    using hi by (subst unat_add_nowrap) simp_all
  have "unat (a + 1 - 0x400000000) = unat a + 1 - 0x400000000"
    using lo a1 by (subst unat_sub_le) simp_all
  then show s: "unat s = (unat a + 1 - 0x400000000) div 2"
    using unat_div [of "a + 1 - 0x400000000" 2] two
    by (simp only: s_def drop_bit_eq_div power_one_right)
  have s2: "unat (0x400000000 + s) = 0x400000000 + unat s"
    using s hi by (subst unat_add_nowrap) simp_all
  show b: "unat b = (0x400000000 + unat s + 0x1FFFFF) div 0x200000 * 0x200000"
    using unat_alignUp [of 21 "0x400000000 + s"] s hi by (simp add: b_def s2)
  have ge: "0x400000000 + unat s \<le> unat b" and le: "unat b \<le> 0x400000000 + unat s + 0x1FFFFF"
    using b by linarith+
  have "unat (b - (0x400000000 + s)) = unat b - (0x400000000 + unat s)"
    using ge s2 by (subst unat_sub_le) simp_all
  moreover have "unat b - (0x400000000 + unat s) \<le> unat s"
    using le s lo by linarith
  ultimately show "unat (s - (b - (0x400000000 + s))) = unat s - (unat b - (0x400000000 + unat s))"
    by (subst unat_sub_le) simp_all
qed

lemma aligned_tail_subset:
  "m \<le> b \<Longrightarrow> m + s \<le> t \<Longrightarrow> {b..<b + (s - (b - m))} \<subseteq> {m..<t}" for m b s t :: nat
  by auto

lemma limited_range_regions:
  assumes "0x400400000 \<le> unat a" and "unat a < 2 ^ 48 - 1"
  defines "gp \<equiv> GfxPartition_init GfxPartition_ctor a"
  shows "heap_region gp HEAP_SVM = {}"
    and "heap_region gp HEAP_INTERNAL_DEVICE_MEMORY = {0x200000..<0x100000000}"
    and "heap_region gp HEAP_INTERNAL = {0x100000000..<0x200000000}"
    and "heap_region gp HEAP_EXTERNAL_DEVICE_MEMORY = {0x200000000..<0x300000000}"
    and "heap_region gp HEAP_EXTERNAL = {0x300000000..<0x400000000}"
    and "\<exists>m. 0x400000000 < m \<and> m \<le> unat a + 1 \<and> heap_region gp HEAP_STANDARD = {0x400000000..<m} \<and>
             heap_region gp HEAP_STANDARD64KB \<subseteq> {m..<unat a + 1}"
proof -
  let ?s = "drop_bit 1 (a + 1 - 0x400000000 :: u64)"
  have "unat max48BitAddress = 2 ^ 48 - 1" by (simp add: max48BitAddress_def maxNBitValue_def)
  then have ne: "a \<noteq> max48BitAddress" using assms(2) by auto
  note f = init_limited_range [OF ne, of GfxPartition_ctor, folded gp_def]
  note u = standard_heap_sizes [OF assms(1,2)]
  show "heap_region gp HEAP_SVM = {}" "heap_region gp HEAP_INTERNAL_DEVICE_MEMORY = {0x200000..<0x100000000}"
    "heap_region gp HEAP_INTERNAL = {0x100000000..<0x200000000}"
    "heap_region gp HEAP_EXTERNAL_DEVICE_MEMORY = {0x200000000..<0x300000000}"
    "heap_region gp HEAP_EXTERNAL = {0x300000000..<0x400000000}"
    by (simp_all add: heap_region_def f GfxPartition_ctor_def)
  have "heap_region gp HEAP_STANDARD = {0x400000000..<0x400000000 + unat ?s}"
    by (simp add: heap_region_def f)
  moreover have "heap_region gp HEAP_STANDARD64KB \<subseteq> {0x400000000 + unat ?s..<unat a + 1}"
  proof -
    let ?b = "unat (alignUp (0x400000000 + ?s) 0x200000)"
    have "0x400000000 + unat ?s \<le> ?b" using u(2) by linarith
    moreover have "0x400000000 + 2 * unat ?s \<le> unat a + 1" using u(1) assms(1) by linarith
    ultimately show ?thesis
      unfolding heap_region_def f u(3) by (intro aligned_tail_subset) linarith+
  qed
  moreover have "0 < unat ?s" using u(1) assms(1) by simp
  moreover have "0x400000000 + unat ?s \<le> unat a + 1" using u(1) assms(1) by linarith
  ultimately show "\<exists>m. 0x400000000 < m \<and> m \<le> unat a + 1 \<and> heap_region gp HEAP_STANDARD = {0x400000000..<m} \<and>
      heap_region gp HEAP_STANDARD64KB \<subseteq> {m..<unat a + 1}"
    by (intro exI [of _ "0x400000000 + unat ?s"]) simp
qed

lemma full_range_regions:
  assumes "i \<noteq> j"
  shows "heap_region (GfxPartition_init gp max48BitAddress) i \<inter>
           heap_region (GfxPartition_init gp max48BitAddress) j = {} \<and>
         heap_region (GfxPartition_init gp max48BitAddress) i \<subseteq> {0x200000..unat max48BitAddress}"
proof -
  have "unat max48BitAddress = 0xFFFFFFFFFFFF" by (simp add: max48BitAddress_def maxNBitValue_def)
  with assms show ?thesis
    unfolding heap_region_def by (cases i; cases j) (simp_all add: init_full_range, auto)
qed

section \<open>Properties\<close>

text \<open>Claim C17. For the full 48-bit address space and for every limited address space of more
  than 16 GB, the heaps \<^verbatim>\<open>init\<close> lays out are pairwise disjoint, none contains an address below
  2 MB, and none reaches beyond the last GPU address.\<close>

theorem partition_heaps_disjoint:
  assumes "a = max48BitAddress \<or> (0x400400000 \<le> unat a \<and> unat a < 2 ^ 48 - 1)" and "i \<noteq> j"
  shows "heap_region (GfxPartition_init GfxPartition_ctor a) i \<inter>
           heap_region (GfxPartition_init GfxPartition_ctor a) j = {} \<and>
         heap_region (GfxPartition_init GfxPartition_ctor a) i \<subseteq> {0x200000..unat a}"
proof (cases "a = max48BitAddress")
  case True
  then show ?thesis using full_range_regions [OF \<open>i \<noteq> j\<close>] by simp
next
  case False
  with assms have a: "0x400400000 \<le> unat a" "unat a < 2 ^ 48 - 1" by auto
  note r = limited_range_regions [OF a]
  obtain m where m: "0x400000000 < m" "m \<le> unat a + 1"
    "heap_region (GfxPartition_init GfxPartition_ctor a) HEAP_STANDARD = {0x400000000..<m}"
    "heap_region (GfxPartition_init GfxPartition_ctor a) HEAP_STANDARD64KB \<subseteq> {m..<unat a + 1}"
    using r(6) by blast
  from \<open>i \<noteq> j\<close> a m show ?thesis
    by (cases i; cases j) (auto simp: r(1-5))
qed

theorem partition_heaps_disjoint_witness:
  "heap_region (GfxPartition_init GfxPartition_ctor 0x7FFFFFFFF) HEAP_STANDARD \<inter>
     heap_region (GfxPartition_init GfxPartition_ctor 0x7FFFFFFFF) HEAP_STANDARD64KB = {} \<and>
   0x400400000 \<le> unat (0x7FFFFFFFF :: u64)"
  using partition_heaps_disjoint [of "0x7FFFFFFFF" HEAP_STANDARD HEAP_STANDARD64KB] by simp

lemma full_range_heap_run:
  assumes "i \<noteq> HEAP_SVM"
    and "client_run allocate free (HeapAllocator_ctor (gh_base (GfxPartition_init gp max48BitAddress i))
           (gh_size (GfxPartition_init gp max48BitAddress i))) h live"
    and "b \<in> set live"
  shows "block_range b \<subseteq> heap_region (GfxPartition_init gp max48BitAddress) i"
proof -
  let ?gp = "GfxPartition_init gp max48BitAddress"
  have c: "0 < unat (gh_base (?gp i)) \<and> unat (gh_base (?gp i)) + 2 * unat (gh_size (?gp i)) < 2 ^ 64 \<and>
        unat (4 * megaByte) \<le> unat (gh_base (?gp i))"
    using assms(1) by (cases i) (simp_all add: init_full_range kiloByte_def megaByte_def)
  then have "heap_contract (unat (gh_base (?gp i))) (unat (gh_size (?gp i)))
      (HeapAllocator_ctor (gh_base (?gp i)) (gh_size (?gp i))) []"
    unfolding HeapAllocator_ctor_def by (intro heap_contract_ctor) auto
  from heap.run_in_region [OF this assms(2), of "fst b" "snd b"] assms(3) show ?thesis
    by (cases "unat (snd b) = 0") (auto simp: block_range_def heap_region_def)
qed

text \<open>In the full 48-bit partition, blocks that clients hold from two different heaps
  other than the SVM heap never overlap, whatever each client allocated and released.\<close>

theorem blocks_of_different_heaps_disjoint:
  assumes "i \<noteq> j" and "i \<noteq> HEAP_SVM" and "j \<noteq> HEAP_SVM"
    and "gh_alloc (GfxPartition_init GfxPartition_ctor max48BitAddress i) = Some hi0"
    and "gh_alloc (GfxPartition_init GfxPartition_ctor max48BitAddress j) = Some hj0"
    and "client_run allocate free hi0 hi livei" and "client_run allocate free hj0 hj livej"
    and "bi \<in> set livei" and "bj \<in> set livej"
  shows "block_range bi \<inter> block_range bj = {}"
proof -
  let ?gp = "GfxPartition_init GfxPartition_ctor max48BitAddress"
  have alloc: "gh_alloc (?gp k) = Some (HeapAllocator_ctor (gh_base (?gp k)) (gh_size (?gp k)))" for k
    by (cases k) (simp_all add: GfxPartition_init_def heapInit_def Heap_init_def heap32Names_def Let_def
        split: prod.split)
  have "block_range bi \<subseteq> heap_region ?gp i"
    using full_range_heap_run [OF assms(2) _ assms(8)] assms(4,6) alloc by simp
  moreover have "block_range bj \<subseteq> heap_region ?gp j"
    using full_range_heap_run [OF assms(3) _ assms(9)] assms(5,7) alloc by simp
  ultimately show ?thesis
    using full_range_regions [OF assms(1)] by blast
qed

lemma one_allocation_run:
  "allocate (HeapAllocator_ctor b n) 100 = (p, n', h) \<Longrightarrow> p \<noteq> 0 \<Longrightarrow>
   client_run allocate free (HeapAllocator_ctor b n) h [(p, n')]"
  by (rule client_run.allocated [OF client_run.start])

theorem blocks_of_different_heaps_disjoint_witness:
  "block_range (0x8001FFFFF000, 0x1000) \<inter> block_range (0xC001FFFFF000, 0x1000) = {}"
proof -
  let ?gp = "GfxPartition_init GfxPartition_ctor max48BitAddress"
  let ?hi = "HeapAllocator_ctor 0x800100000000 0x100000000"
  let ?hj = "HeapAllocator_ctor 0x800400000000 0x3FFE00000000"
  have i: "gh_alloc (?gp HEAP_INTERNAL) = Some ?hi" and j: "gh_alloc (?gp HEAP_STANDARD) = Some ?hj"
    by (simp_all add: partition_eval alignUp_def)
  have "fst (allocate ?hi 100) = 0x8001FFFFF000" "fst (snd (allocate ?hi 100)) = 0x1000"
    "fst (allocate ?hj 100) = 0xC001FFFFF000" "fst (snd (allocate ?hj 100)) = 0x1000"
    by (simp_all add: heap_eval HeapAllocator_ctor_def HeapAllocator_ctor3_def memory_constants)
  then have ri: "client_run allocate free ?hi (snd (snd (allocate ?hi 100))) [(0x8001FFFFF000, 0x1000)]"
    and rj: "client_run allocate free ?hj (snd (snd (allocate ?hj 100))) [(0xC001FFFFF000, 0x1000)]"
    by (auto intro!: one_allocation_run simp: prod_eq_iff)
  show ?thesis
    using blocks_of_different_heaps_disjoint [OF _ _ _ i j ri rj] by simp
qed

text \<open>The 32-bit heaps of the Windows layout start one page above the base of their range and keep its full size, so each ends one page
  behind the limit the kernel gave, while the other heaps end exactly at theirs.\<close>

theorem wddm_heap32_ends_past_limit:
  "heap \<in> set heap32Names \<Longrightarrow> getHeapLimit (Wddm_initGfxPartition ranges gp) heap = wp_Limit (ranges heap) + pageSize"
  "getHeapLimit (Wddm_initGfxPartition ranges gp) HEAP_STANDARD = wp_Limit (ranges HEAP_STANDARD)"
  "getHeapLimit (Wddm_initGfxPartition ranges gp) HEAP_STANDARD64KB = wp_Limit (ranges HEAP_STANDARD64KB)"
  by (auto simp: Wddm_initGfxPartition_def heap32Names_def heapInit_def Heap_init_def getHeapLimit_def rangeSize_def Let_def)

end
