(* ===== verification/Graphics_Allocation.thy ===== *)
theory Graphics_Allocation
  imports Runtime_Prelude
begin

text \<open>
  A graphics allocation (\<^verbatim>\<open>memory_manager/graphics_allocation.h\<close> and \<^verbatim>\<open>.cpp\<close>): its address, size, type and
  lock, the per-context usage record that says until which task the GPU uses it, and the number
  of contexts registered as users. The array \<^verbatim>\<open>usageInfos\<close> is a function of the context id.
\<close>

datatype AllocationType = AT_UNKNOWN | AT_BUFFER | AT_BUFFER_COMPRESSED | AT_BUFFER_HOST_MEMORY
  | AT_COMMAND_BUFFER | AT_CONSTANT_SURFACE | AT_DYNAMIC_STATE_HEAP | AT_EXTERNAL_HOST_PTR
  | AT_FILL_PATTERN | AT_GLOBAL_SURFACE | AT_IMAGE | AT_INDIRECT_OBJECT_HEAP | AT_INSTRUCTION_HEAP
  | AT_INTERNAL_HEAP | AT_KERNEL_ISA | AT_LINEAR_STREAM | AT_PIPE | AT_PRINTF_SURFACE
  | AT_PRIVATE_SURFACE | AT_PROFILING_TAG_BUFFER | AT_SCRATCH_SURFACE | AT_SHARED_RESOURCE_COPY
  | AT_SURFACE_STATE_HEAP | AT_SVM | AT_TAG_BUFFER | AT_TIMESTAMP_PACKET_TAG_BUFFER | AT_UNDECIDED

definition maxOsContextCount :: nat where "maxOsContextCount = 2"

definition objectNotUsed :: u32 where "objectNotUsed = - 1"
definition objectNotResident :: u32 where "objectNotResident = - 1"

text \<open>The handle storage of an allocation made from a host pointer (\<^verbatim>\<open>host_ptr_defines.h\<close>): up to
  three fragments of pages, each with the pointer to its OS handle and its residency record.\<close>

definition maxFragmentsCount :: nat where "maxFragmentsCount = 3"

record AllocationStorageData =
  sd_osHandleStorage :: u64
  sd_fragmentSize :: u64
  sd_cpuPtr :: u64
  sd_freeTheFragment :: bool
  sd_residency :: u64

record OsHandleStorage =
  hs_fragmentStorageData :: "AllocationStorageData list"
  hs_fragmentCount :: nat

definition AllocationStorageData_init :: AllocationStorageData where
  "AllocationStorageData_init = \<lparr>sd_osHandleStorage = 0, sd_fragmentSize = 0, sd_cpuPtr = 0,
     sd_freeTheFragment = False, sd_residency = 0\<rparr>"

definition OsHandleStorage_init :: OsHandleStorage where
  "OsHandleStorage_init = \<lparr>hs_fragmentStorageData = replicate maxFragmentsCount AllocationStorageData_init,
     hs_fragmentCount = 0\<rparr>"

record UsageInfo =
  ui_taskCount :: u32
  ui_residencyTaskCount :: u32
  ui_inspectionId :: u32

definition UsageInfo_init :: UsageInfo where
  "UsageInfo_init = \<lparr>ui_taskCount = objectNotUsed, ui_residencyTaskCount = objectNotResident, ui_inspectionId = 0\<rparr>"

record GraphicsAllocation =
  ga_cpuPtr :: u64
  ga_gpuAddress :: u64
  ga_gpuBaseAddress :: u64
  ga_allocationOffset :: u64
  ga_size :: u64
  ga_lockedPtr :: u64
  ga_allocationType :: AllocationType
  ga_reuseCount :: u32
  ga_sharedHandle :: u32
  ga_multiOsContextCapable :: bool
  ga_usageInfos :: "nat \<Rightarrow> UsageInfo"
  ga_registeredContextsNum :: u32
  ga_fragmentsStorage :: OsHandleStorage

definition GraphicsAllocation_ctor ::
  "AllocationType \<Rightarrow> u64 \<Rightarrow> u64 \<Rightarrow> u64 \<Rightarrow> u64 \<Rightarrow> bool \<Rightarrow> GraphicsAllocation" where
  "GraphicsAllocation_ctor allocationType cpuPtrIn gpuAddress baseAddress sizeIn multiOsContextCapable =
     \<lparr>ga_cpuPtr = cpuPtrIn, ga_gpuAddress = gpuAddress, ga_gpuBaseAddress = baseAddress,
      ga_allocationOffset = 0, ga_size = sizeIn, ga_lockedPtr = 0, ga_allocationType = allocationType,
      ga_reuseCount = 0, ga_sharedHandle = 0, ga_multiOsContextCapable = multiOsContextCapable,
      ga_usageInfos = (\<lambda>_. UsageInfo_init), ga_registeredContextsNum = 0,
      ga_fragmentsStorage = OsHandleStorage_init\<rparr>"

definition GraphicsAllocation_ctor_shared ::
  "AllocationType \<Rightarrow> u64 \<Rightarrow> u64 \<Rightarrow> u32 \<Rightarrow> bool \<Rightarrow> GraphicsAllocation" where
  "GraphicsAllocation_ctor_shared allocationType cpuPtrIn sizeIn sharedHandleIn multiOsContextCapable =
     (GraphicsAllocation_ctor allocationType cpuPtrIn cpuPtrIn 0 sizeIn multiOsContextCapable)
       \<lparr>ga_sharedHandle := sharedHandleIn\<rparr>"

definition getGpuAddress :: "GraphicsAllocation \<Rightarrow> u64" where
  "getGpuAddress a = ga_gpuAddress a + ga_allocationOffset a"

definition getGpuAddressToPatch :: "GraphicsAllocation \<Rightarrow> u64" where
  "getGpuAddressToPatch a = ga_gpuAddress a + ga_allocationOffset a - ga_gpuBaseAddress a"

definition ga_lock :: "u64 \<Rightarrow> GraphicsAllocation \<Rightarrow> GraphicsAllocation" where
  "ga_lock ptr a = a\<lparr>ga_lockedPtr := ptr\<rparr>"

definition ga_unlock :: "GraphicsAllocation \<Rightarrow> GraphicsAllocation" where
  "ga_unlock a = a\<lparr>ga_lockedPtr := 0\<rparr>"

definition isLocked :: "GraphicsAllocation \<Rightarrow> bool" where
  "isLocked a \<longleftrightarrow> ga_lockedPtr a \<noteq> 0"

definition incReuseCount :: "GraphicsAllocation \<Rightarrow> GraphicsAllocation" where
  "incReuseCount a = a\<lparr>ga_reuseCount := ga_reuseCount a + 1\<rparr>"

definition decReuseCount :: "GraphicsAllocation \<Rightarrow> GraphicsAllocation" where
  "decReuseCount a = a\<lparr>ga_reuseCount := ga_reuseCount a - 1\<rparr>"

definition getTaskCount :: "GraphicsAllocation \<Rightarrow> nat \<Rightarrow> u32" where
  "getTaskCount a contextId = ui_taskCount (ga_usageInfos a contextId)"

definition updateTaskCount :: "u32 \<Rightarrow> nat \<Rightarrow> GraphicsAllocation \<Rightarrow> GraphicsAllocation" where
  "updateTaskCount newTaskCount contextId a =
     (let a1 = (if ui_taskCount (ga_usageInfos a contextId) = objectNotUsed
                then a\<lparr>ga_registeredContextsNum := ga_registeredContextsNum a + 1\<rparr> else a);
          a2 = (if newTaskCount = objectNotUsed
                then a1\<lparr>ga_registeredContextsNum := ga_registeredContextsNum a1 - 1\<rparr> else a1)
      in a2\<lparr>ga_usageInfos := (ga_usageInfos a2)
              (contextId := (ga_usageInfos a2 contextId)\<lparr>ui_taskCount := newTaskCount\<rparr>)\<rparr>)"

definition isUsed :: "GraphicsAllocation \<Rightarrow> bool" where
  "isUsed a \<longleftrightarrow> ga_registeredContextsNum a > 0"

definition isUsedByManyOsContexts :: "GraphicsAllocation \<Rightarrow> bool" where
  "isUsedByManyOsContexts a \<longleftrightarrow> ga_registeredContextsNum a > 1"

definition isUsedByOsContext :: "GraphicsAllocation \<Rightarrow> nat \<Rightarrow> bool" where
  "isUsedByOsContext a contextId \<longleftrightarrow> objectNotUsed \<noteq> getTaskCount a contextId"

definition releaseUsageInOsContext :: "nat \<Rightarrow> GraphicsAllocation \<Rightarrow> GraphicsAllocation" where
  "releaseUsageInOsContext contextId = updateTaskCount objectNotUsed contextId"

definition getInspectionId :: "GraphicsAllocation \<Rightarrow> nat \<Rightarrow> u32" where
  "getInspectionId a contextId = ui_inspectionId (ga_usageInfos a contextId)"

definition setInspectionId :: "u32 \<Rightarrow> nat \<Rightarrow> GraphicsAllocation \<Rightarrow> GraphicsAllocation" where
  "setInspectionId newInspectionId contextId a =
     a\<lparr>ga_usageInfos := (ga_usageInfos a)
         (contextId := (ga_usageInfos a contextId)\<lparr>ui_inspectionId := newInspectionId\<rparr>)\<rparr>"

definition getResidencyTaskCount :: "GraphicsAllocation \<Rightarrow> nat \<Rightarrow> u32" where
  "getResidencyTaskCount a contextId = ui_residencyTaskCount (ga_usageInfos a contextId)"

definition isResident :: "GraphicsAllocation \<Rightarrow> nat \<Rightarrow> bool" where
  "isResident a contextId \<longleftrightarrow> objectNotResident \<noteq> getResidencyTaskCount a contextId"

definition updateResidencyTaskCount :: "u32 \<Rightarrow> nat \<Rightarrow> GraphicsAllocation \<Rightarrow> GraphicsAllocation" where
  "updateResidencyTaskCount newTaskCount contextId a =
     a\<lparr>ga_usageInfos := (ga_usageInfos a)
         (contextId := (ga_usageInfos a contextId)\<lparr>ui_residencyTaskCount := newTaskCount\<rparr>)\<rparr>"

definition releaseResidencyInOsContext :: "nat \<Rightarrow> GraphicsAllocation \<Rightarrow> GraphicsAllocation" where
  "releaseResidencyInOsContext contextId = updateResidencyTaskCount objectNotResident contextId"

definition isResidencyTaskCountBelow :: "GraphicsAllocation \<Rightarrow> u32 \<Rightarrow> nat \<Rightarrow> bool" where
  "isResidencyTaskCountBelow a taskCount contextId \<longleftrightarrow>
     \<not> isResident a contextId \<or> getResidencyTaskCount a contextId < taskCount"

definition isCpuAccessRequired :: "AllocationType \<Rightarrow> bool" where
  "isCpuAccessRequired t \<longleftrightarrow> t = AT_LINEAR_STREAM \<or> t = AT_KERNEL_ISA \<or> t = AT_INTERNAL_HEAP \<or>
     t = AT_TIMESTAMP_PACKET_TAG_BUFFER \<or> t = AT_COMMAND_BUFFER"

section \<open>The registered users are counted exactly\<close>

definition users :: "GraphicsAllocation \<Rightarrow> nat set" where
  "users a = {c. ui_taskCount (ga_usageInfos a c) \<noteq> objectNotUsed}"

definition usage_inv :: "GraphicsAllocation \<Rightarrow> bool" where
  "usage_inv a \<longleftrightarrow> users a \<subseteq> {..<maxOsContextCount} \<and> unat (ga_registeredContextsNum a) = card (users a)"

datatype usage_op = UpdateTaskCount u32 nat | ReleaseUsage nat | UpdateResidency u32 nat
  | ReleaseResidency nat | SetInspection u32 nat

fun op_context :: "usage_op \<Rightarrow> nat" where
  "op_context (UpdateTaskCount t c) = c"
| "op_context (ReleaseUsage c) = c"
| "op_context (UpdateResidency t c) = c"
| "op_context (ReleaseResidency c) = c"
| "op_context (SetInspection t c) = c"

fun usage_step :: "usage_op \<Rightarrow> GraphicsAllocation \<Rightarrow> GraphicsAllocation" where
  "usage_step (UpdateTaskCount t c) a = updateTaskCount t c a"
| "usage_step (ReleaseUsage c) a = releaseUsageInOsContext c a"
| "usage_step (UpdateResidency t c) a = updateResidencyTaskCount t c a"
| "usage_step (ReleaseResidency c) a = releaseResidencyInOsContext c a"
| "usage_step (SetInspection t c) a = setInspectionId t c a"

lemma getTaskCount_update [simp]:
  "getTaskCount (updateTaskCount t c a) c' = (if c' = c then t else getTaskCount a c')"
  by (simp add: getTaskCount_def updateTaskCount_def Let_def)

lemma users_updateTaskCount:
  "users (updateTaskCount t c a) = (if t = objectNotUsed then users a - {c} else insert c (users a))"
  by (auto simp: users_def updateTaskCount_def Let_def)

lemma registered_updateTaskCount:
  "ga_registeredContextsNum (updateTaskCount t c a) =
     ga_registeredContextsNum a + (if c \<notin> users a then 1 else 0) - (if t = objectNotUsed then 1 else 0)"
  by (simp add: users_def updateTaskCount_def Let_def)

lemma users_unchanged [simp]:
  "users (updateResidencyTaskCount t c a) = users a" "users (setInspectionId t c a) = users a"
  "ga_registeredContextsNum (updateResidencyTaskCount t c a) = ga_registeredContextsNum a"
  "ga_registeredContextsNum (setInspectionId t c a) = ga_registeredContextsNum a"
  by (auto simp: users_def updateResidencyTaskCount_def setInspectionId_def)

lemma updateTaskCount_inv:
  assumes "usage_inv a" and "c < maxOsContextCount"
  shows "usage_inv (updateTaskCount t c a)"
proof -
  have fin: "finite (users a)" and le: "card (users a) \<le> maxOsContextCount"
    using assms(1) finite_subset [OF _ finite_lessThan] card_mono [OF finite_lessThan]
    by (auto simp: usage_inv_def)
  have n: "ga_registeredContextsNum a = word_of_nat (card (users a))"
    using assms(1) by (metis usage_inv_def of_nat_unat ucast_id)
  have "users (updateTaskCount t c a) \<subseteq> {..<maxOsContextCount}"
    using assms by (auto simp: usage_inv_def users_updateTaskCount)
  then have card_le: "card (users (updateTaskCount t c a)) \<le> maxOsContextCount"
    using card_mono [OF finite_lessThan] by (metis card_lessThan)
  have remove: "c \<in> users a \<Longrightarrow> card (users a) = Suc (card (users a - {c}))"
    using fin by (rule card.remove)
  have "ga_registeredContextsNum (updateTaskCount t c a) = word_of_nat (card (users (updateTaskCount t c a)))"
    using fin remove by (cases "c \<in> users a")
      (simp_all add: registered_updateTaskCount users_updateTaskCount n insert_absorb)
  then have "unat (ga_registeredContextsNum (updateTaskCount t c a)) = card (users (updateTaskCount t c a))"
    using card_le by (simp add: unat_of_nat maxOsContextCount_def)
  then show ?thesis
    using assms(1,2) by (auto simp: usage_inv_def users_updateTaskCount)
qed

lemma usage_inv_unchanged [simp]:
  "usage_inv (updateResidencyTaskCount t c a) = usage_inv a" "usage_inv (setInspectionId t c a) = usage_inv a"
  by (simp_all add: usage_inv_def)

lemma usage_step_inv:
  assumes "usage_inv a" and "op_context s < maxOsContextCount"
  shows "usage_inv (usage_step s a)"
  using assms
  by (cases s) (auto simp: releaseUsageInOsContext_def releaseResidencyInOsContext_def
      intro: updateTaskCount_inv)

lemma usage_run_inv:
  "usage_inv a \<Longrightarrow> \<forall>s \<in> set ss. op_context s < maxOsContextCount \<Longrightarrow>
   usage_inv (fold usage_step ss a)"
  by (induction ss arbitrary: a) (auto intro: usage_step_inv)

lemma usage_inv_ctor: "usage_inv (GraphicsAllocation_ctor t c g b s m)"
  by (simp add: usage_inv_def users_def GraphicsAllocation_ctor_def UsageInfo_init_def)

text \<open>Whatever sequence of task count, residency and inspection updates an allocation
  receives, \<^verbatim>\<open>isUsed\<close> says that some context uses it, \<^verbatim>\<open>isUsedByManyOsContexts\<close> that at least two
  do, and a context counts as a user exactly while its task count is not the unused mark.\<close>

theorem registered_contexts_exact:
  assumes "\<forall>s \<in> set ss. op_context s < maxOsContextCount"
  shows "let a = fold usage_step ss (GraphicsAllocation_ctor t cpu gpu base sz multi);
             used = {c. isUsedByOsContext a c}
         in (isUsed a \<longleftrightarrow> used \<noteq> {}) \<and> (isUsedByManyOsContexts a \<longleftrightarrow> 2 \<le> card used) \<and>
            unat (ga_registeredContextsNum a) = card used"
proof -
  let ?a = "fold usage_step ss (GraphicsAllocation_ctor t cpu gpu base sz multi)"
  have inv: "usage_inv ?a" by (rule usage_run_inv [OF usage_inv_ctor assms])
  have eq: "{c. isUsedByOsContext ?a c} = users ?a"
    by (auto simp: isUsedByOsContext_def getTaskCount_def users_def)
  have fin: "finite (users ?a)"
    using inv finite_subset [OF _ finite_lessThan] by (auto simp: usage_inv_def)
  have "isUsed ?a \<longleftrightarrow> card (users ?a) > 0" "isUsedByManyOsContexts ?a \<longleftrightarrow> card (users ?a) > 1"
    using inv by (simp_all add: isUsed_def isUsedByManyOsContexts_def word_less_nat_alt usage_inv_def)
  then show ?thesis
    using inv fin unfolding Let_def eq by (auto simp: usage_inv_def card_gt_0_iff)
qed

theorem registered_contexts_exact_witness:
  "let a = fold usage_step [UpdateTaskCount 5 0, UpdateTaskCount 7 1, ReleaseUsage 0, ReleaseUsage 0]
             (GraphicsAllocation_ctor AT_BUFFER 0x1000 0x1000 0 4096 False);
       used = {c. isUsedByOsContext a c}
   in (isUsed a \<longleftrightarrow> used \<noteq> {}) \<and> (isUsedByManyOsContexts a \<longleftrightarrow> 2 \<le> card used) \<and>
      unat (ga_registeredContextsNum a) = card used"
  by (rule registered_contexts_exact) (simp add: maxOsContextCount_def)

end
