(* ===== verification/Intrusive_List.thy ===== *)
theory Intrusive_List
  imports Runtime_Prelude
begin

text \<open>
  The intrusive doubly linked list of \<^verbatim>\<open>utilities/idlist.h\<close>: nodes that carry their own
  \<^verbatim>\<open>prev\<close> and \<^verbatim>\<open>next\<close> pointers, and the list object with its \<^verbatim>\<open>head\<close> and \<^verbatim>\<open>tail\<close>. Node memory is a
  function from addresses to link pairs, the null pointer is address 0, and each locked operation
  is one step. A loop that follows the links is a \<^theory_text>\<open>partial_function\<close>, so that not terminating on
  a cyclic chain is \<open>None\<close>. The relation \<open>list_rep\<close> says that the pointers spell a HOL list, and
  every operation is shown to refine the corresponding list operation.
\<close>

section \<open>Nodes\<close>

record IDNode =
  nd_prev :: u64
  nd_next :: u64

type_synonym node_heap = "u64 \<Rightarrow> IDNode"

definition set_prev :: "u64 \<Rightarrow> u64 \<Rightarrow> node_heap \<Rightarrow> node_heap" where
  "set_prev nd p h = h(nd := (h nd)\<lparr>nd_prev := p\<rparr>)"

definition set_next :: "u64 \<Rightarrow> u64 \<Rightarrow> node_heap \<Rightarrow> node_heap" where
  "set_next nd p h = h(nd := (h nd)\<lparr>nd_next := p\<rparr>)"

definition insertOneNext :: "u64 \<Rightarrow> u64 \<Rightarrow> node_heap \<Rightarrow> node_heap" where
  "insertOneNext this nd h =
     (let h = set_next nd (nd_next (h this)) h;
          h = (if nd_next (h this) \<noteq> 0 then set_prev (nd_next (h this)) nd h else h);
          h = set_prev nd this h
      in set_next this nd h)"

definition insertOnePrev :: "u64 \<Rightarrow> u64 \<Rightarrow> node_heap \<Rightarrow> node_heap" where
  "insertOnePrev this nd h =
     (let h = (if nd_prev (h this) \<noteq> 0 then set_next (nd_prev (h this)) nd h else h);
          h = set_next nd this h;
          h = set_prev nd (nd_prev (h this)) h
      in set_prev this nd h)"

definition slice :: "u64 \<Rightarrow> node_heap \<Rightarrow> u64 \<times> node_heap" where
  "slice this h =
     (let rest = nd_next (h this); h = set_next this 0 h
      in (rest, if rest \<noteq> 0 then set_prev rest 0 h else h))"

partial_function (option) getTail :: "node_heap \<Rightarrow> u64 \<Rightarrow> u64 option" where
  "getTail h cur = (if nd_next (h cur) \<noteq> 0 then getTail h (nd_next (h cur)) else Some cur)"

partial_function (option) getHead :: "node_heap \<Rightarrow> u64 \<Rightarrow> u64 option" where
  "getHead h cur = (if nd_prev (h cur) \<noteq> 0 then getHead h (nd_prev (h cur)) else Some cur)"

definition insertAllNext :: "u64 \<Rightarrow> u64 \<Rightarrow> node_heap \<Rightarrow> node_heap option" where
  "insertAllNext this rhs h =
     (case getTail h rhs of None \<Rightarrow> None
      | Some rhsTail \<Rightarrow>
          let h = set_next rhsTail (nd_next (h this)) h;
              h = (if nd_next (h this) \<noteq> 0 then set_prev (nd_next (h this)) rhsTail h else h);
              h = set_prev rhs this h
          in Some (set_next this rhs h))"

partial_function (option) countSuccessorsFrom :: "node_heap \<Rightarrow> u64 \<Rightarrow> nat \<Rightarrow> nat option" where
  "countSuccessorsFrom h cur successors =
     (if nd_next (h cur) \<noteq> 0 then countSuccessorsFrom h (nd_next (h cur)) (successors + 1)
      else Some successors)"

definition countSuccessors :: "node_heap \<Rightarrow> u64 \<Rightarrow> nat option" where
  "countSuccessors h this = countSuccessorsFrom h this 0"

partial_function (option) findForward :: "node_heap \<Rightarrow> u64 \<Rightarrow> u64 \<Rightarrow> bool option" where
  "findForward h node cur =
     (if cur \<noteq> 0 then (if cur = node then Some True else findForward h node (nd_next (h cur)))
      else Some False)"

definition isPredecessorOf :: "node_heap \<Rightarrow> u64 \<Rightarrow> u64 \<Rightarrow> bool option" where
  "isPredecessorOf h this rhs = findForward h rhs (nd_next (h this))"

section \<open>The list object\<close>

record IDList =
  il_head :: u64
  il_tail :: u64

definition IDList_ctor :: IDList where
  "IDList_ctor = \<lparr>il_head = 0, il_tail = 0\<rparr>"

definition pushTailOne :: "u64 \<Rightarrow> IDList \<times> node_heap \<Rightarrow> IDList \<times> node_heap" where
  "pushTailOne node = (\<lambda>(l, h).
     if il_tail l = 0
     then (l\<lparr>il_head := node, il_tail := node\<rparr>, set_next node 0 (set_prev node 0 h))
     else (l\<lparr>il_tail := node\<rparr>, set_next (il_tail l) node (set_prev node (il_tail l) (set_next node 0 h))))"

definition pushFrontOne :: "u64 \<Rightarrow> IDList \<times> node_heap \<Rightarrow> IDList \<times> node_heap" where
  "pushFrontOne node = (\<lambda>(l, h).
     if il_head l = 0 then pushTailOne node (l, h)
     else (l\<lparr>il_head := node\<rparr>, set_prev (il_head l) node (set_next node (il_head l) (set_prev node 0 h))))"

definition removeOne :: "u64 \<Rightarrow> IDList \<times> node_heap \<Rightarrow> u64 \<times> IDList \<times> node_heap" where
  "removeOne node = (\<lambda>(l, h).
     let h1 = (if nd_prev (h node) \<noteq> 0 then set_next (nd_prev (h node)) (nd_next (h node)) h else h);
         h2 = (if nd_next (h1 node) \<noteq> 0 then set_prev (nd_next (h1 node)) (nd_prev (h1 node)) h1 else h1);
         l1 = (if il_tail l = node then l\<lparr>il_tail := nd_prev (h2 node)\<rparr> else l);
         l2 = (if il_head l1 = node then l1\<lparr>il_head := nd_next (h2 node)\<rparr> else l1)
     in (node, l2, set_next node 0 (set_prev node 0 h2)))"

definition removeFrontOne :: "IDList \<times> node_heap \<Rightarrow> u64 \<times> IDList \<times> node_heap" where
  "removeFrontOne s =
     (if il_head (fst s) = 0 then (0, s) else removeOne (il_head (fst s)) s)"

definition detachSequence :: "u64 \<Rightarrow> u64 \<Rightarrow> IDList \<times> node_heap \<Rightarrow> u64 \<times> IDList \<times> node_heap" where
  "detachSequence first lst = (\<lambda>(l, h).
     if first = lst then removeOne first (l, h)
     else
       let h1 = (if nd_prev (h first) \<noteq> 0 then set_next (nd_prev (h first)) (nd_next (h lst)) h else h);
           h2 = (if nd_next (h1 lst) \<noteq> 0 then set_prev (nd_next (h1 lst)) (nd_prev (h1 first)) h1 else h1);
           l1 = (if il_head l = first then l\<lparr>il_head := nd_next (h2 lst)\<rparr> else l);
           l2 = (if il_tail l1 = lst then l1\<lparr>il_tail := nd_prev (h2 first)\<rparr> else l1)
       in (first, l2, set_next lst 0 (set_prev first 0 h2)))"

definition detachNodes :: "IDList \<times> node_heap \<Rightarrow> u64 \<times> IDList \<times> node_heap" where
  "detachNodes = (\<lambda>(l, h). (il_head l, l\<lparr>il_head := 0, il_tail := 0\<rparr>, h))"

definition splice :: "u64 \<Rightarrow> IDList \<times> node_heap \<Rightarrow> (IDList \<times> node_heap) option" where
  "splice node = (\<lambda>(l, h).
     if il_tail l = 0 then
       let h = set_prev node 0 h
       in map_option (\<lambda>t. (l\<lparr>il_head := node, il_tail := t\<rparr>, h)) (getTail h node)
     else
       let h = set_prev node (il_tail l) (set_next (il_tail l) node h)
       in map_option (\<lambda>t. (l\<lparr>il_tail := t\<rparr>, h)) (getTail h node))"

definition peekIsEmpty :: "IDList \<Rightarrow> bool" where
  "peekIsEmpty l \<longleftrightarrow> il_head l = 0"

definition peekContains :: "u64 \<Rightarrow> IDList \<times> node_heap \<Rightarrow> bool option" where
  "peekContains node = (\<lambda>(l, h). findForward h node (il_head l))"

section \<open>Chains\<close>

fun linked :: "node_heap \<Rightarrow> u64 \<Rightarrow> u64 list \<Rightarrow> u64 \<Rightarrow> bool" where
  "linked h p [] q = True"
| "linked h p (x # xs) q \<longleftrightarrow> nd_prev (h x) = p \<and> nd_next (h x) = hd (xs @ [q]) \<and> linked h x xs q"

definition list_rep :: "u64 list \<Rightarrow> IDList \<times> node_heap \<Rightarrow> bool" where
  "list_rep xs s \<longleftrightarrow> distinct xs \<and> 0 \<notin> set xs \<and>
     il_head (fst s) = hd (xs @ [0]) \<and> il_tail (fst s) = last (0 # xs) \<and> linked (snd s) 0 xs 0"

lemma links_simps [simp]:
  "nd_prev (set_prev a v h x) = (if x = a then v else nd_prev (h x))"
  "nd_next (set_prev a v h x) = nd_next (h x)"
  "nd_next (set_next a v h x) = (if x = a then v else nd_next (h x))"
  "nd_prev (set_next a v h x) = nd_prev (h x)"
  by (simp_all add: set_prev_def set_next_def)

lemma linked_append:
  "linked h p (xs @ ys) q \<longleftrightarrow> linked h p xs (hd (ys @ [q])) \<and> linked h (last (p # xs)) ys q"
  by (induction xs arbitrary: p) (auto simp: hd_append)

lemma linked_frame:
  "\<forall>x \<in> set xs. nd_prev (h' x) = nd_prev (h x) \<and> nd_next (h' x) = nd_next (h x) \<Longrightarrow>
   linked h' p xs q = linked h p xs q"
  by (induction xs arbitrary: p) auto

lemma linked_frame_simps [simp]:
  "a \<notin> set xs \<Longrightarrow> linked (set_prev a v h) p xs q = linked h p xs q"
  "a \<notin> set xs \<Longrightarrow> linked (set_next a v h) p xs q = linked h p xs q"
  by (rule linked_frame; auto)+

lemma linked_set_next_last:
  "linked h p xs q \<Longrightarrow> distinct xs \<Longrightarrow> xs \<noteq> [] \<Longrightarrow> linked (set_next (last xs) q' h) p xs q'"
proof (induction xs arbitrary: p)
  case (Cons x xs)
  show ?case
  proof (cases "xs = []")
    case False
    then have "linked (set_next (last xs) q' h) x xs q'" and "x \<noteq> last xs"
      using Cons by auto
    then show ?thesis using Cons.prems False by (auto simp: hd_append)
  qed (use Cons.prems in simp)
qed simp

lemma linked_set_prev_hd:
  "linked h p xs q \<Longrightarrow> distinct xs \<Longrightarrow> xs \<noteq> [] \<Longrightarrow> linked (set_prev (hd xs) p' h) p' xs q"
  by (cases xs) auto

lemma getTail_linked:
  assumes "linked h p xs 0" and "0 \<notin> set xs" and "xs \<noteq> []"
  shows "getTail h (hd xs) = Some (last xs)"
  using assms
proof (induction xs arbitrary: p)
  case (Cons x xs)
  then show ?case
    by (cases xs) (auto simp: getTail.simps [of h x])
qed simp

lemma findForward_linked:
  assumes "linked h p xs 0" and "0 \<notin> set xs"
  shows "findForward h node (hd (xs @ [0])) = Some (node \<in> set xs)"
  using assms
proof (induction xs arbitrary: p)
  case Nil
  then show ?case by (simp add: findForward.simps [of h node 0])
next
  case (Cons x xs)
  then show ?case
    by (auto simp: findForward.simps [of h node x])
qed

lemma countSuccessorsFrom_linked:
  assumes "linked h p xs 0" and "0 \<notin> set xs" and "xs \<noteq> []"
  shows "countSuccessorsFrom h (hd xs) n = Some (n + length xs - 1)"
  using assms
proof (induction xs arbitrary: p n)
  case (Cons x xs)
  then show ?case
    by (cases xs) (auto simp: countSuccessorsFrom.simps [of h x])
qed simp

section \<open>Every operation refines its list operation\<close>

lemma ends_notin [simp]:
  "xs \<noteq> [] \<Longrightarrow> set xs \<inter> set ys = {} \<Longrightarrow> hd xs \<notin> set ys"
  "xs \<noteq> [] \<Longrightarrow> set xs \<inter> set ys = {} \<Longrightarrow> last xs \<notin> set ys"
  "xs \<noteq> [] \<Longrightarrow> set ys \<inter> set xs = {} \<Longrightarrow> hd xs \<notin> set ys"
  "xs \<noteq> [] \<Longrightarrow> set ys \<inter> set xs = {} \<Longrightarrow> last xs \<notin> set ys"
  by (meson disjoint_iff hd_in_set last_in_set)+

lemma ends_nonnull [simp]:
  assumes "0 \<notin> set xs" and "xs \<noteq> []"
  shows "hd xs \<noteq> (0 :: u64)" and "last xs \<noteq> (0 :: u64)"
  using assms hd_in_set last_in_set by metis+

lemma rep_null:
  assumes "list_rep xs s"
  shows "il_head (fst s) = 0 \<longleftrightarrow> xs = []" and "il_tail (fst s) = 0 \<longleftrightarrow> xs = []"
  using assms by (cases "xs = []"; simp add: list_rep_def hd_append)+

lemma pushTailOne_rep:
  assumes "list_rep xs s" and "x \<noteq> 0" and "x \<notin> set xs"
  shows "list_rep (xs @ [x]) (pushTailOne x s)"
proof (cases "xs = []")
  case True
  then show ?thesis
    using assms by (auto simp: list_rep_def pushTailOne_def split: prod.splits)
next
  case False
  obtain l h where s: "s = (l, h)" by fastforce
  have tl: "il_tail l = last xs" and l: "linked h 0 xs 0" and d: "distinct xs"
    using assms(1) False by (auto simp: list_rep_def s)
  have "last xs \<noteq> 0" and "last xs \<noteq> x"
    using False assms by (auto simp: list_rep_def dest: last_in_set)
  moreover have "linked (set_prev x (last xs) (set_next x 0 h)) 0 xs 0"
    using l assms(3) by simp
  then have "linked (set_next (last xs) x (set_prev x (last xs) (set_next x 0 h))) 0 xs x"
    by (rule linked_set_next_last) (use d False in auto)
  ultimately show ?thesis
    using assms False tl by (auto simp: list_rep_def pushTailOne_def s linked_append)
qed

lemma pushFrontOne_rep:
  assumes "list_rep xs s" and "x \<noteq> 0" and "x \<notin> set xs"
  shows "list_rep (x # xs) (pushFrontOne x s)"
proof (cases "xs = []")
  case True
  with pushTailOne_rep [OF assms] rep_null [OF assms(1)] show ?thesis
    by (auto simp: pushFrontOne_def split: prod.splits)
next
  case False
  obtain l h where s: "s = (l, h)" by fastforce
  have "linked (set_prev (hd xs) x (set_next x (hd xs) (set_prev x 0 h))) x xs 0"
    using assms False by (intro linked_set_prev_hd [where p = 0]) (auto simp: list_rep_def s)
  moreover have "hd xs \<noteq> x" and "hd xs \<noteq> 0" and "il_head l = hd xs"
    using assms False by (auto simp: list_rep_def s)
  ultimately show ?thesis
    using assms False by (auto simp: list_rep_def pushFrontOne_def s)
qed

text \<open>Cutting a middle part out of a chain, as both \<^verbatim>\<open>removeOneImpl\<close> and \<^verbatim>\<open>detachSequenceImpl\<close> do.\<close>

definition unlink :: "u64 \<Rightarrow> u64 \<Rightarrow> node_heap \<Rightarrow> node_heap" where
  "unlink p q h =
     (let h1 = (if p \<noteq> 0 then set_next p q h else h) in if q \<noteq> 0 then set_prev q p h1 else h1)"

lemma unlink_linked:
  assumes "linked h 0 (as @ bs @ cs) 0" and "distinct (as @ bs @ cs)" and "0 \<notin> set (as @ bs @ cs)"
    and "bs \<noteq> []"
  defines "p \<equiv> last (0 # as)" and "q \<equiv> hd (cs @ [0])"
  shows "linked (unlink p q h) 0 (as @ cs) 0" and "linked (unlink p q h) p bs q"
proof -
  have l: "linked h 0 as (hd bs)" "linked h p bs q" "linked h (last bs) cs 0"
    using assms(1,4) by (auto simp: linked_append p_def q_def hd_append split: if_splits)
  have p0: "p = 0 \<longleftrightarrow> as = []" "as \<noteq> [] \<Longrightarrow> p = last as" "as \<noteq> [] \<Longrightarrow> last as \<in> set as"
    using assms(3) by (auto simp: p_def dest: last_in_set)
  have q0: "q = 0 \<longleftrightarrow> cs = []" "cs \<noteq> [] \<Longrightarrow> q = hd cs" "cs \<noteq> [] \<Longrightarrow> hd cs \<in> set cs"
    using assms(3) by (auto simp: q_def hd_append dest: hd_in_set)
  have q: "hd (cs @ [0]) = q" and lp: "last (0 # as) = p" by (simp_all add: q_def p_def)
  have "linked (unlink p q h) 0 as q"
  proof (cases "as = []")
    case False
    then have "linked (set_next (last as) q h) 0 as q"
      using l(1) assms(2) by (intro linked_set_next_last) auto
    then show ?thesis
      using False p0 q0 assms(2) by (cases "cs = []") (auto simp: unlink_def Let_def Int_Un_distrib)
  qed simp
  moreover have "linked (unlink p q h) p cs 0"
  proof (cases "cs = []")
    case False
    have "p \<notin> set cs" if "as \<noteq> []"
      using that p0 assms(2) by (auto simp: Int_Un_distrib)
    then have "linked (if p \<noteq> 0 then set_next p q h else h) (last bs) cs 0"
      using l(3) p0(1) by simp
    then have "linked (set_prev (hd cs) p (if p \<noteq> 0 then set_next p q h else h)) p cs 0"
      using assms(2) False by (intro linked_set_prev_hd) auto
    then show ?thesis using False q0 by (auto simp: unlink_def Let_def split: if_splits)
  qed simp
  ultimately show "linked (unlink p q h) 0 (as @ cs) 0"
    unfolding linked_append q lp by blast
  have "p \<notin> set bs"
    using p0(1,2) assms(2,3) by (cases "as = []") (simp_all add: Int_Un_distrib)
  moreover have "q \<notin> set bs"
    using q0(1,2) assms(2,3) by (cases "cs = []") simp_all
  ultimately show "linked (unlink p q h) p bs q"
    using l(2) by (auto simp: unlink_def Let_def)
qed

lemma removeOne_unlink:
  assumes "nd_prev (h x) \<noteq> x" and "nd_next (h x) \<noteq> x"
  shows "removeOne x (l, h) =
    (x, \<lparr>il_head = (if il_head l = x then nd_next (h x) else il_head l),
         il_tail = (if il_tail l = x then nd_prev (h x) else il_tail l)\<rparr>,
     set_next x 0 (set_prev x 0 (unlink (nd_prev (h x)) (nd_next (h x)) h)))"
  using assms by (cases l) (auto simp: removeOne_def unlink_def Let_def)

lemma detachSequence_rep:
  assumes "list_rep (as @ bs @ cs) (l, h)" and "bs \<noteq> []"
    and "detachSequence (hd bs) (last bs) (l, h) = (r, s')"
  shows "r = hd bs \<and> list_rep (as @ cs) s' \<and> linked (snd s') 0 bs 0 \<and>
         (\<forall>x. x \<notin> set (as @ bs @ cs) \<longrightarrow>
            nd_prev (snd s' x) = nd_prev (h x) \<and> nd_next (snd s' x) = nd_next (h x))"
proof -
  let ?p = "last (0 # as)" and ?q = "hd (cs @ [0])"
  have L: "linked h 0 (as @ bs @ cs) 0" and D: "distinct (as @ bs @ cs)" and Z: "0 \<notin> set (as @ bs @ cs)"
    using assms(1) by (auto simp: list_rep_def)
  note u = unlink_linked [OF L D Z assms(2)]
  have lb: "linked h ?p bs ?q"
    using L assms(2) by (auto simp: linked_append hd_append split: if_splits)
  have pv: "nd_prev (h (hd bs)) = ?p"
    using lb assms(2) by (cases bs) auto
  have nx: "nd_next (h (last bs)) = ?q"
    using lb assms(2) linked_append [of h ?p "butlast bs" "[last bs]" ?q] by simp
  have notin: "hd bs \<noteq> ?p" "last bs \<noteq> ?q" "hd bs \<noteq> ?q" "last bs \<noteq> ?p"
    using D Z assms(2) hd_in_set [of bs] last_in_set [of bs]
    by (cases "as = []"; cases "cs = []"; auto simp: hd_append dest: last_in_set hd_in_set)+
  let ?h = "set_next (last bs) 0 (set_prev (hd bs) 0 (unlink ?p ?q h))"
  let ?l = "\<lparr>il_head = (if il_head l = hd bs then ?q else il_head l),
             il_tail = (if il_tail l = last bs then ?p else il_tail l)\<rparr>"
  have "(r, s') = (hd bs, ?l, ?h)"
  proof (cases "hd bs = last bs")
    case True
    then show ?thesis
      using assms(3) removeOne_unlink [of h "hd bs" l] pv nx notin by (simp add: detachSequence_def)
  next
    case False
    then show ?thesis
      using assms(3) pv nx notin
      by (cases l) (auto simp: detachSequence_def unlink_def Let_def split: if_splits)
  qed
  moreover have "hd bs \<notin> set (as @ cs)" "last bs \<notin> set (as @ cs)"
    using D assms(2) hd_in_set [of bs] last_in_set [of bs] by auto
  then have "linked ?h 0 (as @ cs) 0"
    using u(1) by simp
  moreover have "linked ?h 0 bs 0"
    by (rule linked_set_next_last, rule linked_set_prev_hd, rule u(2)) (use D assms(2) in auto)
  moreover have "as \<noteq> [] \<Longrightarrow> hd as \<noteq> hd bs" "cs \<noteq> [] \<Longrightarrow> last cs \<noteq> last bs"
    using D assms(2) by (metis Int_Un_distrib Un_empty disjoint_iff distinct_append hd_in_set last_in_set set_append)+
  then have "il_head ?l = hd ((as @ cs) @ [0])" "il_tail ?l = last (0 # as @ cs)"
    using assms(1,2) by (cases "as = []"; cases "cs = []"; auto simp: list_rep_def hd_append)+
  moreover have "nd_prev (?h x) = nd_prev (h x) \<and> nd_next (?h x) = nd_next (h x)"
    if x: "x \<notin> set (as @ bs @ cs)" for x
  proof -
    have "x \<noteq> hd bs" "x \<noteq> last bs" "?p = 0 \<or> x \<noteq> ?p" "?q = 0 \<or> x \<noteq> ?q"
      using x assms(2) by (auto simp: hd_append)
    then show ?thesis by (auto simp: unlink_def Let_def)
  qed
  ultimately show ?thesis
    using D Z by (simp add: list_rep_def Int_Un_distrib)
qed

lemma removeOne_rep:
  assumes "list_rep xs s" and "x \<in> set xs" and "removeOne x s = (r, s')"
  shows "r = x \<and> list_rep (remove1 x xs) s' \<and> nd_prev (snd s' x) = 0 \<and> nd_next (snd s' x) = 0"
proof -
  obtain as cs where xs: "xs = as @ [x] @ cs"
    using assms(2) by (metis append_Cons append_Nil split_list)
  moreover have "x \<notin> set as"
    using assms(1) xs by (auto simp: list_rep_def)
  ultimately have "remove1 x xs = as @ cs" by (simp add: remove1_append)
  then show ?thesis
    using detachSequence_rep [of as "[x]" cs "fst s" "snd s" r s'] assms xs
    by (simp add: detachSequence_def)
qed

lemma removeFrontOne_rep:
  assumes "list_rep xs s" and "removeFrontOne s = (r, s')"
  shows "r = hd (xs @ [0]) \<and> list_rep (tl xs) s'"
proof (cases xs)
  case Nil
  then show ?thesis using assms rep_null [OF assms(1)] by (auto simp: removeFrontOne_def)
next
  case (Cons x ys)
  then have "il_head (fst s) = x" and "x \<noteq> 0" using assms(1) by (auto simp: list_rep_def)
  then show ?thesis
    using removeOne_rep [OF assms(1), of x r s'] assms Cons by (simp add: removeFrontOne_def)
qed

lemma detachNodes_rep:
  assumes "list_rep xs s" and "detachNodes s = (r, s')"
  shows "r = hd (xs @ [0]) \<and> list_rep [] s' \<and> linked (snd s') 0 xs 0"
  using assms by (auto simp: list_rep_def detachNodes_def split: prod.splits)

lemma splice_rep:
  assumes "list_rep xs s" and "linked (snd s) p ys 0" and "ys \<noteq> []" and "distinct ys" and "0 \<notin> set ys"
    and "set xs \<inter> set ys = {}"
  shows "\<exists>s'. splice (hd ys) s = Some s' \<and> list_rep (xs @ ys) s'"
proof -
  obtain l h where s: "s = (l, h)" by fastforce
  have hy: "hd ys \<notin> set xs" using assms(3,6) hd_in_set by fastforce
  show ?thesis
  proof (cases "xs = []")
    case True
    have "linked (set_prev (hd ys) 0 h) 0 ys 0"
      using assms s by (intro linked_set_prev_hd) auto
    then show ?thesis
      using assms True getTail_linked [of "set_prev (hd ys) 0 h" 0 ys] s rep_null [OF assms(1)]
      by (auto simp: splice_def list_rep_def Let_def)
  next
    case False
    let ?h = "set_prev (hd ys) (last xs) (set_next (last xs) (hd ys) h)"
    have lx: "last xs \<notin> set ys" and tl: "il_tail l = last xs" "last xs \<noteq> 0"
      using assms False last_in_set [of xs] by (auto simp: list_rep_def s)
    have "linked ?h (last xs) ys 0"
      using assms s lx by (intro linked_set_prev_hd [where p = p]) auto
    moreover have "linked (set_next (last xs) (hd ys) h) 0 xs (hd ys)"
      using assms(1) False s by (intro linked_set_next_last) (auto simp: list_rep_def)
    then have "linked ?h 0 xs (hd ys)" using hy by simp
    ultimately show ?thesis
      using assms False getTail_linked [of ?h "last xs" ys] s tl
      by (auto simp: splice_def list_rep_def Let_def linked_append hd_append)
  qed
qed

section \<open>Sequences of operations\<close>

text \<open>The interface a client of an intrusive list relies on: a representation relation that
  every operation keeps, and the sequences of calls a client may make.\<close>

datatype list_op = PushFront u64 | PushTail u64 | Remove u64 | RemoveFront

fun spec_op :: "list_op \<Rightarrow> u64 list \<Rightarrow> u64 list" where
  "spec_op (PushFront x) xs = x # xs"
| "spec_op (PushTail x) xs = xs @ [x]"
| "spec_op (Remove x) xs = remove1 x xs"
| "spec_op RemoveFront xs = tl xs"

fun op_allowed :: "list_op \<Rightarrow> u64 list \<Rightarrow> bool" where
  "op_allowed (PushFront x) xs \<longleftrightarrow> x \<noteq> 0 \<and> x \<notin> set xs"
| "op_allowed (PushTail x) xs \<longleftrightarrow> x \<noteq> 0 \<and> x \<notin> set xs"
| "op_allowed (Remove x) xs \<longleftrightarrow> x \<in> set xs"
| "op_allowed RemoveFront xs \<longleftrightarrow> True"

fun ops_allowed :: "list_op list \<Rightarrow> u64 list \<Rightarrow> bool" where
  "ops_allowed [] xs \<longleftrightarrow> True"
| "ops_allowed (c # cs) xs \<longleftrightarrow> op_allowed c xs \<and> ops_allowed cs (spec_op c xs)"

locale node_list =
  fixes rep :: "u64 list \<Rightarrow> 's \<Rightarrow> bool"
    and step :: "list_op \<Rightarrow> 's \<Rightarrow> 's"
    and contains :: "u64 \<Rightarrow> 's \<Rightarrow> bool option"
  assumes step_rep: "rep xs s \<Longrightarrow> op_allowed c xs \<Longrightarrow> rep (spec_op c xs) (step c s)"
    and contains_rep: "rep xs s \<Longrightarrow> contains x s = Some (x \<in> set xs)"
begin

lemma run_rep: "rep xs s \<Longrightarrow> ops_allowed cs xs \<Longrightarrow> rep (fold spec_op cs xs) (fold step cs s)"
  by (induction cs arbitrary: xs s) (auto intro: step_rep)

lemma run_contains:
  "rep xs s \<Longrightarrow> ops_allowed cs xs \<Longrightarrow> contains x (fold step cs s) = Some (x \<in> set (fold spec_op cs xs))"
  by (intro contains_rep run_rep)

end

fun list_step :: "list_op \<Rightarrow> IDList \<times> node_heap \<Rightarrow> IDList \<times> node_heap" where
  "list_step (PushFront x) s = pushFrontOne x s"
| "list_step (PushTail x) s = pushTailOne x s"
| "list_step (Remove x) s = snd (removeOne x s)"
| "list_step RemoveFront s = snd (removeFrontOne s)"

interpretation idlist: node_list list_rep list_step peekContains
proof
  fix xs s c
  assume "list_rep xs s" and "op_allowed c xs"
  then show "list_rep (spec_op c xs) (list_step c s)"
    by (cases c)
      (use pushFrontOne_rep pushTailOne_rep removeOne_rep [OF _ _ prod.collapse [symmetric]]
         removeFrontOne_rep [OF _ prod.collapse [symmetric]] in auto)
next
  fix xs s x
  assume "list_rep xs s"
  then show "peekContains x s = Some (x \<in> set xs)"
    using findForward_linked by (auto simp: list_rep_def peekContains_def split: prod.splits)
qed

lemma list_rep_ctor: "list_rep [] (IDList_ctor, h)"
  by (simp add: list_rep_def IDList_ctor_def)

text \<open>Claim C3. After any sequence of push and remove calls on an initially empty list, in which a
  pushed node is not already in the list and a removed one is, the pointers represent exactly the
  sequence those calls produce on an ordinary list, the head is its first element (null when
  empty), the list reports empty exactly when it is, and a membership query terminates with the
  right answer.\<close>

theorem idlist_refines_sequence:
  assumes "ops_allowed cs []"
  shows "list_rep (fold spec_op cs []) (fold list_step cs (IDList_ctor, h)) \<and>
         (peekIsEmpty (fst (fold list_step cs (IDList_ctor, h))) \<longleftrightarrow> fold spec_op cs [] = []) \<and>
         peekContains x (fold list_step cs (IDList_ctor, h)) = Some (x \<in> set (fold spec_op cs []))"
  using idlist.run_rep [OF list_rep_ctor assms] idlist.run_contains [OF list_rep_ctor assms]
    rep_null(1) by (auto simp: peekIsEmpty_def)

theorem idlist_refines_sequence_witness:
  "peekContains 8 (fold list_step [PushTail 8, PushFront 16, PushTail 24, Remove 8]
     (IDList_ctor, \<lambda>_. \<lparr>nd_prev = 1, nd_next = 1\<rparr>)) = Some False \<and>
   list_rep [16, 24] (fold list_step [PushTail 8, PushFront 16, PushTail 24, Remove 8]
     (IDList_ctor, \<lambda>_. \<lparr>nd_prev = 1, nd_next = 1\<rparr>))"
  using idlist_refines_sequence
    [of "[PushTail 8, PushFront 16, PushTail 24, Remove 8]" "\<lambda>_. \<lparr>nd_prev = 1, nd_next = 1\<rparr>" 8]
  by simp

text \<open>Detaching a sequence of nodes from a list and splicing it into another list, in the
  same node memory, moves exactly that segment: the first list keeps what was before and after it,
  and the splice terminates with the segment appended to the second list.\<close>

theorem detach_then_splice:
  assumes "list_rep (as @ bs @ cs) (l, h)" and "bs \<noteq> []" and "list_rep ys (l2, h)"
    and "set ys \<inter> set (as @ bs @ cs) = {}"
    and "detachSequence (hd bs) (last bs) (l, h) = (r, l', h')"
  shows "list_rep (as @ cs) (l', h') \<and>
         (\<exists>s. splice r (l2, h') = Some s \<and> list_rep (ys @ bs) s)"
proof -
  note d = detachSequence_rep [OF assms(1,2,5)]
  have "linked h' 0 ys 0 = linked h 0 ys 0"
    by (rule linked_frame) (use d assms(4) in auto)
  then have "list_rep ys (l2, h')" using assms(3) by (simp add: list_rep_def)
  moreover have "distinct bs" "0 \<notin> set bs" "set ys \<inter> set bs = {}"
    using assms(1,4) by (auto simp: list_rep_def)
  ultimately show ?thesis
    using splice_rep [of ys "(l2, h')" 0 bs] d assms(2) by auto
qed

definition three_nodes :: node_heap where
  "three_nodes = (\<lambda>_. \<lparr>nd_prev = 0, nd_next = 0\<rparr>)
     (8 := \<lparr>nd_prev = 0, nd_next = 16\<rparr>, 16 := \<lparr>nd_prev = 8, nd_next = 24\<rparr>, 24 := \<lparr>nd_prev = 16, nd_next = 0\<rparr>)"

theorem detach_then_splice_witness:
  "list_rep [8] (fst (snd (detachSequence 16 24 (\<lparr>il_head = 8, il_tail = 24\<rparr>, three_nodes))),
                 snd (snd (detachSequence 16 24 (\<lparr>il_head = 8, il_tail = 24\<rparr>, three_nodes))))"
proof -
  have "list_rep ([8] @ [16, 24] @ []) (\<lparr>il_head = 8, il_tail = 24\<rparr>, three_nodes)"
    and "list_rep [] (IDList_ctor, three_nodes)"
    by (simp_all add: list_rep_def three_nodes_def IDList_ctor_def)
  from detach_then_splice [OF this(1) _ this(2), of "16"] show ?thesis
    by (cases "detachSequence 16 24 (\<lparr>il_head = 8, il_tail = 24\<rparr>, three_nodes)") (auto simp: detachSequence_def Let_def)
qed

end
