(* ===== verification/Internal_Allocation_Storage.thy ===== *)
theory Internal_Allocation_Storage
  imports Graphics_Allocation Intrusive_List
begin

text \<open>
  The per-context store of allocations whose destruction waits for the GPU
  (\<^verbatim>\<open>memory_manager/internal_allocation_storage.cpp\<close>): temporary allocations, freed once the
  completed task count has passed theirs, and allocations kept for reuse. The two intrusive
  lists are HOL lists, as \<open>Intrusive_List\<close> justifies. The calls to \<^verbatim>\<open>freeGraphicsMemory\<close> are
  recorded in the order they are made. \<^verbatim>\<open>MemoryManager::checkGpuUsageAndDestroyGraphicsAllocations\<close>,
  which fills the store, is modelled over the registered engines.
\<close>

datatype AllocationUsage = TEMPORARY_ALLOCATION | REUSABLE_ALLOCATION

record CsrView =
  csr_contextId :: nat
  csr_taskCount :: u32
  csr_tag :: u32

record InternalAllocationStorage =
  ias_temporaryAllocations :: "GraphicsAllocation list"
  ias_allocationsForReuse :: "GraphicsAllocation list"

definition InternalAllocationStorage_ctor :: InternalAllocationStorage where
  "InternalAllocationStorage_ctor = \<lparr>ias_temporaryAllocations = [], ias_allocationsForReuse = []\<rparr>"

definition storeAllocationWithTaskCount ::
  "bool \<Rightarrow> CsrView \<Rightarrow> GraphicsAllocation \<Rightarrow> AllocationUsage \<Rightarrow> u32 \<Rightarrow> InternalAllocationStorage
   \<Rightarrow> InternalAllocationStorage \<times> GraphicsAllocation list" where
  "storeAllocationWithTaskCount disableResourceRecycling csr gfxAllocation allocationUsage taskCount s =
     (if allocationUsage = REUSABLE_ALLOCATION \<and> disableResourceRecycling then (s, [gfxAllocation])
      else
        let a = updateTaskCount taskCount (csr_contextId csr) gfxAllocation
        in (if allocationUsage = TEMPORARY_ALLOCATION
            then s\<lparr>ias_temporaryAllocations := ias_temporaryAllocations s @ [a]\<rparr>
            else s\<lparr>ias_allocationsForReuse := ias_allocationsForReuse s @ [a]\<rparr>, []))"

definition storeAllocation ::
  "bool \<Rightarrow> CsrView \<Rightarrow> GraphicsAllocation \<Rightarrow> AllocationUsage \<Rightarrow> InternalAllocationStorage
   \<Rightarrow> InternalAllocationStorage \<times> GraphicsAllocation list" where
  "storeAllocation disableResourceRecycling csr gfxAllocation allocationUsage s =
     (let taskCount = getTaskCount gfxAllocation (csr_contextId csr);
          taskCount = (if allocationUsage = REUSABLE_ALLOCATION then csr_taskCount csr else taskCount)
      in storeAllocationWithTaskCount disableResourceRecycling csr gfxAllocation allocationUsage taskCount s)"

text \<open>The loop over the detached nodes: the allocations left over and the calls to free, in order.\<close>

fun freeAllocationsLoop ::
  "nat \<Rightarrow> u32 \<Rightarrow> GraphicsAllocation list \<Rightarrow> GraphicsAllocation list \<Rightarrow> GraphicsAllocation list
   \<Rightarrow> GraphicsAllocation list \<times> GraphicsAllocation list" where
  "freeAllocationsLoop contextId waitTaskCount [] allocationsLeft freed = (allocationsLeft, freed)"
| "freeAllocationsLoop contextId waitTaskCount (a # rest) allocationsLeft freed =
     (if getTaskCount a contextId \<le> waitTaskCount
      then freeAllocationsLoop contextId waitTaskCount rest allocationsLeft (freed @ [a])
      else freeAllocationsLoop contextId waitTaskCount rest (allocationsLeft @ [a]) freed)"

definition freeAllocationsList ::
  "CsrView \<Rightarrow> u32 \<Rightarrow> GraphicsAllocation list \<Rightarrow> GraphicsAllocation list \<times> GraphicsAllocation list" where
  "freeAllocationsList csr waitTaskCount allocationsList =
     freeAllocationsLoop (csr_contextId csr) waitTaskCount allocationsList [] []"

definition cleanAllocationList ::
  "CsrView \<Rightarrow> u32 \<Rightarrow> AllocationUsage \<Rightarrow> InternalAllocationStorage
   \<Rightarrow> InternalAllocationStorage \<times> GraphicsAllocation list" where
  "cleanAllocationList csr waitTaskCount allocationUsage s =
     (if allocationUsage = TEMPORARY_ALLOCATION
      then case freeAllocationsList csr waitTaskCount (ias_temporaryAllocations s) of (l, freed) \<Rightarrow>
             (s\<lparr>ias_temporaryAllocations := l\<rparr>, freed)
      else case freeAllocationsList csr waitTaskCount (ias_allocationsForReuse s) of (l, freed) \<Rightarrow>
             (s\<lparr>ias_allocationsForReuse := l\<rparr>, freed))"

definition reusable :: "u64 \<Rightarrow> AllocationType \<Rightarrow> u32 \<Rightarrow> nat \<Rightarrow> GraphicsAllocation \<Rightarrow> bool" where
  "reusable requiredMinimalSize allocationType currentTagValue contextId a \<longleftrightarrow>
     allocationType = ga_allocationType a \<and> ga_size a \<ge> requiredMinimalSize \<and>
     currentTagValue \<ge> getTaskCount a contextId"

fun detachAllocation ::
  "u64 \<Rightarrow> CsrView \<Rightarrow> AllocationType \<Rightarrow> GraphicsAllocation list
   \<Rightarrow> GraphicsAllocation option \<times> GraphicsAllocation list" where
  "detachAllocation requiredMinimalSize csr allocationType [] = (None, [])"
| "detachAllocation requiredMinimalSize csr allocationType (a # rest) =
     (if reusable requiredMinimalSize allocationType (csr_tag csr) (csr_contextId csr) a then (Some a, rest)
      else case detachAllocation requiredMinimalSize csr allocationType rest of (r, l) \<Rightarrow> (r, a # l))"

definition obtainReusableAllocation ::
  "CsrView \<Rightarrow> u64 \<Rightarrow> AllocationType \<Rightarrow> InternalAllocationStorage
   \<Rightarrow> GraphicsAllocation option \<times> InternalAllocationStorage" where
  "obtainReusableAllocation csr requiredSize allocationType s =
     (case detachAllocation requiredSize csr allocationType (ias_allocationsForReuse s) of (r, l) \<Rightarrow>
        (r, s\<lparr>ias_allocationsForReuse := l\<rparr>))"

text \<open>What destroying an allocation does: defer it, store it as temporary with the engine at the
  given position, or free it.\<close>

datatype destroy_action = DeferDeletion | StoreTemporary nat | FreeNow

fun findBusyEngine :: "GraphicsAllocation \<Rightarrow> CsrView list \<Rightarrow> nat \<Rightarrow> destroy_action" where
  "findBusyEngine a [] i = FreeNow"
| "findBusyEngine a (engine # engines) i =
     (if isUsedByOsContext a (csr_contextId engine) \<and>
         getTaskCount a (csr_contextId engine) > csr_tag engine
      then StoreTemporary i else findBusyEngine a engines (i + 1))"

definition checkGpuUsageAndDestroyGraphicsAllocations ::
  "GraphicsAllocation \<Rightarrow> CsrView list \<Rightarrow> destroy_action" where
  "checkGpuUsageAndDestroyGraphicsAllocations a engines =
     (if isUsed a then
        if isUsedByManyOsContexts a then DeferDeletion else findBusyEngine a engines 0
      else FreeNow)"

section \<open>What the operations do\<close>

lemma freeAllocationsLoop_eq:
  "freeAllocationsLoop c w as lft freed =
     (lft @ filter (\<lambda>a. \<not> getTaskCount a c \<le> w) as, freed @ filter (\<lambda>a. getTaskCount a c \<le> w) as)"
  by (induction as arbitrary: lft freed) simp_all

lemma freeAllocationsList_eq:
  "freeAllocationsList csr w as =
     (filter (\<lambda>a. \<not> getTaskCount a (csr_contextId csr) \<le> w) as,
      filter (\<lambda>a. getTaskCount a (csr_contextId csr) \<le> w) as)"
  by (simp add: freeAllocationsList_def freeAllocationsLoop_eq)

lemma detachAllocation_some:
  "detachAllocation n csr t as = (Some a, l) \<Longrightarrow>
   \<exists>xs ys. as = xs @ a # ys \<and> l = xs @ ys \<and> reusable n t (csr_tag csr) (csr_contextId csr) a \<and>
     (\<forall>x \<in> set xs. \<not> reusable n t (csr_tag csr) (csr_contextId csr) x)"
proof (induction as arbitrary: l)
  case (Cons x xs)
  show ?case
  proof (cases "reusable n t (csr_tag csr) (csr_contextId csr) x")
    case True
    then show ?thesis using Cons.prems by (intro exI [of _ "[]"] exI [of _ xs]) auto
  next
    case False
    then obtain l' where l': "detachAllocation n csr t xs = (Some a, l')" "l = x # l'"
      using Cons.prems by (auto split: prod.splits)
    from Cons.IH [OF l'(1)] obtain us vs where "xs = us @ a # vs \<and> l' = us @ vs \<and>
        reusable n t (csr_tag csr) (csr_contextId csr) a \<and>
        (\<forall>x \<in> set us. \<not> reusable n t (csr_tag csr) (csr_contextId csr) x)" by blast
    then show ?thesis
      using False l'(2) by (intro exI [of _ "x # us"] exI [of _ vs]) auto
  qed
qed simp

lemma detachAllocation_none:
  "detachAllocation n csr t as = (None, l) \<Longrightarrow>
   l = as \<and> (\<forall>x \<in> set as. \<not> reusable n t (csr_tag csr) (csr_contextId csr) x)"
  by (induction as arbitrary: l) (auto split: if_splits prod.splits)

text \<open>Cleaning the temporary allocations frees exactly those whose task count is not
  above the completed count, each once and in order, keeps the others in order, and does not
  touch the allocations kept for reuse.\<close>

theorem cleanAllocationList_partitions:
  assumes "cleanAllocationList csr w TEMPORARY_ALLOCATION s = (s', freed)"
  shows "mset freed + mset (ias_temporaryAllocations s') = mset (ias_temporaryAllocations s) \<and>
         (\<forall>a \<in> set freed. getTaskCount a (csr_contextId csr) \<le> w) \<and>
         (\<forall>a \<in> set (ias_temporaryAllocations s'). w < getTaskCount a (csr_contextId csr)) \<and>
         freed = filter (\<lambda>a. getTaskCount a (csr_contextId csr) \<le> w) (ias_temporaryAllocations s) \<and>
         ias_allocationsForReuse s' = ias_allocationsForReuse s"
  using assms by (auto simp: cleanAllocationList_def freeAllocationsList_eq)

theorem cleanAllocationList_partitions_witness:
  "let a = updateTaskCount 5 0 (GraphicsAllocation_ctor AT_BUFFER 0x1000 0x1000 0 4096 False);
       csr = \<lparr>csr_contextId = 0, csr_taskCount = 9, csr_tag = 6\<rparr>;
       r = cleanAllocationList csr 6 TEMPORARY_ALLOCATION
             \<lparr>ias_temporaryAllocations = [a], ias_allocationsForReuse = []\<rparr>
   in snd r = filter (\<lambda>a. getTaskCount a 0 \<le> 6) [a]"
  unfolding Let_def
  using cleanAllocationList_partitions [of "\<lparr>csr_contextId = 0, csr_taskCount = 9, csr_tag = 6\<rparr>" 6
      "\<lparr>ias_temporaryAllocations = [updateTaskCount 5 0 (GraphicsAllocation_ctor AT_BUFFER 0x1000 0x1000 0 4096 False)],
        ias_allocationsForReuse = []\<rparr>", OF prod.collapse [symmetric]]
  by simp

text \<open>A reusable allocation that \<^verbatim>\<open>obtainReusableAllocation\<close> returns has the requested
  type, is large enough and is no longer used by the GPU, it leaves the store while everything
  else stays, and it is the first such; a null result means that the store holds none.\<close>

theorem obtainReusableAllocation_correct:
  "case obtainReusableAllocation csr n t s of
     (Some a, s') \<Rightarrow> t = ga_allocationType a \<and> n \<le> ga_size a \<and> getTaskCount a (csr_contextId csr) \<le> csr_tag csr \<and>
        (\<exists>xs ys. ias_allocationsForReuse s = xs @ a # ys \<and> ias_allocationsForReuse s' = xs @ ys \<and>
           (\<forall>x \<in> set xs. \<not> reusable n t (csr_tag csr) (csr_contextId csr) x)) \<and>
        ias_temporaryAllocations s' = ias_temporaryAllocations s
   | (None, s') \<Rightarrow> s' = s \<and> (\<forall>x \<in> set (ias_allocationsForReuse s). \<not> reusable n t (csr_tag csr) (csr_contextId csr) x)"
proof -
  obtain r l where d: "detachAllocation n csr t (ias_allocationsForReuse s) = (r, l)" by fastforce
  show ?thesis
  proof (cases r)
    case None
    with d detachAllocation_none [of n csr t "ias_allocationsForReuse s" l] show ?thesis
      by (auto simp: obtainReusableAllocation_def)
  next
    case (Some a)
    with d detachAllocation_some [of n csr t "ias_allocationsForReuse s" a l] show ?thesis
      by (auto simp: obtainReusableAllocation_def reusable_def)
  qed
qed

theorem obtainReusableAllocation_correct_witness:
  "obtainReusableAllocation \<lparr>csr_contextId = 0, csr_taskCount = 9, csr_tag = 6\<rparr> 64 AT_BUFFER
     InternalAllocationStorage_ctor = (None, InternalAllocationStorage_ctor)"
  using obtainReusableAllocation_correct
    [where csr = "\<lparr>csr_contextId = 0, csr_taskCount = 9, csr_tag = 6\<rparr>" and n = 64 and t = AT_BUFFER
       and s = InternalAllocationStorage_ctor]
  by (simp add: obtainReusableAllocation_def InternalAllocationStorage_ctor_def)

lemma findBusyEngine_cases:
  "case findBusyEngine a es i of
     StoreTemporary j \<Rightarrow> i \<le> j \<and> j - i < length es \<and> getTaskCount a (csr_contextId (es ! (j - i))) > csr_tag (es ! (j - i))
   | FreeNow \<Rightarrow> \<forall>e \<in> set es. isUsedByOsContext a (csr_contextId e) \<longrightarrow> getTaskCount a (csr_contextId e) \<le> csr_tag e
   | DeferDeletion \<Rightarrow> False"
proof (induction a es i rule: findBusyEngine.induct)
  case (2 a e es i)
  show ?case
  proof (cases "isUsedByOsContext a (csr_contextId e) \<and> getTaskCount a (csr_contextId e) > csr_tag e")
    case False
    then have "case findBusyEngine a es (i + 1) of
        StoreTemporary j \<Rightarrow> i + 1 \<le> j \<and> j - (i + 1) < length es \<and>
          getTaskCount a (csr_contextId (es ! (j - (i + 1)))) > csr_tag (es ! (j - (i + 1)))
      | FreeNow \<Rightarrow> \<forall>e \<in> set es. isUsedByOsContext a (csr_contextId e) \<longrightarrow> getTaskCount a (csr_contextId e) \<le> csr_tag e
      | DeferDeletion \<Rightarrow> False"
      by (rule 2)
    then show ?thesis
      using False by (cases "findBusyEngine a es (i + 1)") (auto simp: nth_Cons')
  qed simp
qed simp

text \<open>An allocation is freed at once only when no registered engine still uses it: an
  allocation of which the GPU has not completed the last task is stored with an engine that is
  behind it, or, when more than one context uses it, its deletion is deferred.\<close>

theorem freed_allocation_not_in_use:
  assumes "checkGpuUsageAndDestroyGraphicsAllocations a engines = FreeNow"
    and "usage_inv a"
    and "e \<in> set engines" and "isUsedByOsContext a (csr_contextId e)"
  shows "getTaskCount a (csr_contextId e) \<le> csr_tag e"
proof -
  have "isUsed a"
    using assms(2,4) finite_subset [OF _ finite_lessThan]
    by (auto simp: isUsed_def word_less_nat_alt card_gt_0_iff usage_inv_def users_def
        isUsedByOsContext_def getTaskCount_def)
  then have "findBusyEngine a engines 0 = FreeNow"
    using assms(1) by (auto simp: checkGpuUsageAndDestroyGraphicsAllocations_def split: if_splits)
  then show ?thesis
    using findBusyEngine_cases [where a = a and es = engines and i = 0] assms(3,4) by auto
qed

theorem freed_allocation_not_in_use_witness:
  "getTaskCount (updateTaskCount 5 0 (GraphicsAllocation_ctor AT_BUFFER 0x1000 0x1000 0 4096 False)) 0 \<le> (6 :: u32)"
proof -
  let ?a = "updateTaskCount 5 0 (GraphicsAllocation_ctor AT_BUFFER 0x1000 0x1000 0 4096 False)"
  let ?e = "\<lparr>csr_contextId = 0, csr_taskCount = 9, csr_tag = 6\<rparr>"
  have u: "usage_inv ?a" and i: "isUsedByOsContext ?a 0"
    by (auto intro!: updateTaskCount_inv usage_inv_ctor simp: maxOsContextCount_def isUsedByOsContext_def objectNotUsed_def)
  have n: "ga_registeredContextsNum ?a = 1"
    by (simp add: updateTaskCount_def GraphicsAllocation_ctor_def UsageInfo_init_def objectNotUsed_def)
  have "checkGpuUsageAndDestroyGraphicsAllocations ?a [?e] = FreeNow"
    by (simp add: checkGpuUsageAndDestroyGraphicsAllocations_def isUsed_def isUsedByManyOsContexts_def n)
  then show ?thesis
    using freed_allocation_not_in_use [where a = ?a and engines = "[?e]" and e = ?e] u i by simp
qed

end
