(* ===== verification/Host_Ptr_Manager.thy ===== *)
theory Host_Ptr_Manager
  imports Aligned_Memory Internal_Allocation_Storage
begin

text \<open>
  The manager of host pointer fragments (\<^verbatim>\<open>memory_manager/host_ptr_manager.cpp\<close>). Memory that the
  application owns is tracked by page fragments in a \<^verbatim>\<open>std::map\<close> keyed by start address; several
  allocations may share a fragment, which is reference counted. The map is an association list
  kept sorted by key, an iterator is a position in it (the length is \<^verbatim>\<open>end()\<close>), and a
  \<^verbatim>\<open>FragmentStorage *\<close> into the map is the key of the element, so that using it after the element
  was erased is a fault. Each operation runs under the manager's recursive mutex and is one step.
\<close>

section \<open>Data\<close>

datatype FragmentPosition = FP_NONE | FP_LEADING | FP_MIDDLE | FP_TRAILING

datatype OverlapStatus = FRAGMENT_NOT_OVERLAPING_WITH_ANY_OTHER | FRAGMENT_WITHIN_STORED_FRAGMENT
  | FRAGMENT_WITH_EXACT_SIZE_AS_STORED_FRAGMENT | FRAGMENT_OVERLAPING_AND_BIGGER_THEN_STORED_FRAGMENT
  | FRAGMENT_NOT_CHECKED

datatype RequirementsStatus = RS_SUCCESS | RS_FATAL

record PartialAllocation =
  pa_fragmentPosition :: FragmentPosition
  pa_allocationPtr :: u64
  pa_allocationSize :: u64

record AllocationRequirements =
  ar_AllocationFragments :: "PartialAllocation list"
  ar_totalRequiredSize :: u64
  ar_requiredFragmentsCount :: nat

record FragmentStorage =
  fs_fragmentCpuPointer :: u64
  fs_fragmentSize :: u64
  fs_refCount :: int
  fs_osInternalStorage :: u64
  fs_residency :: u64
  fs_driverAllocation :: bool

record CheckedFragments =
  cf_fragments :: "u64 option list"
  cf_status :: "OverlapStatus list"
  cf_count :: nat

type_synonym HostPtrFragmentsContainer = "(u64 \<times> FragmentStorage) list"

definition PartialAllocation_init :: PartialAllocation where
  "PartialAllocation_init = \<lparr>pa_fragmentPosition = FP_NONE, pa_allocationPtr = 0, pa_allocationSize = 0\<rparr>"

section \<open>The map\<close>

definition lower_bound :: "u64 \<Rightarrow> HostPtrFragmentsContainer \<Rightarrow> nat" where
  "lower_bound ptr m = length (takeWhile (\<lambda>e. fst e < ptr) m)"

definition map_insert :: "u64 \<Rightarrow> FragmentStorage \<Rightarrow> HostPtrFragmentsContainer \<Rightarrow> HostPtrFragmentsContainer" where
  "map_insert k f m =
     (let i = lower_bound k m
      in if i < length m \<and> fst (m ! i) = k then m else take i m @ (k, f) # drop i m)"

definition map_erase :: "nat \<Rightarrow> HostPtrFragmentsContainer \<Rightarrow> HostPtrFragmentsContainer" where
  "map_erase i m = take i m @ drop (Suc i) m"

text \<open>The end address that \<^verbatim>\<open>findElement\<close> compares with: an empty fragment counts as one byte.\<close>

definition storedEnd :: "FragmentStorage \<Rightarrow> u64" where
  "storedEnd f = (let e = fs_fragmentCpuPointer f + fs_fragmentSize f
                  in if fs_fragmentSize f = 0 then e + 1 else e)"

definition findElement :: "u64 \<Rightarrow> HostPtrFragmentsContainer \<Rightarrow> nat" where
  "findElement ptr m =
     (let element = lower_bound ptr m
      in if element \<noteq> length m then
           if fs_fragmentCpuPointer (snd (m ! element)) \<le> ptr then element
           else if element \<noteq> 0 \<and> ptr < storedEnd (snd (m ! (element - 1))) then element - 1
           else length m
         else if element \<noteq> 0 \<and> ptr < storedEnd (snd (m ! (element - 1))) then element - 1
         else length m)"

section \<open>Requirements\<close>

definition getAllocationRequirements :: "u64 \<Rightarrow> u64 \<Rightarrow> AllocationRequirements" where
  "getAllocationRequirements inputPtr sz =
     (let fragments0 = replicate maxFragmentsCount PartialAllocation_init;
          wholeAllocationSize = alignSizeWholePage inputPtr sz;
          alignedStartAddress = alignDown inputPtr pageSize;
          leadingNeeded = (alignedStartAddress \<noteq> inputPtr);
          (fragments1, count1) =
            (if leadingNeeded
             then (fragments0[0 := \<lparr>pa_fragmentPosition = FP_LEADING, pa_allocationPtr = alignedStartAddress,
                                     pa_allocationSize = pageSize\<rparr>], 1)
             else (fragments0, 0));
          endAddress = ptrOffset inputPtr sz;
          alignedEndAddress = alignDown endAddress pageSize;
          trailingNeeded = (alignedEndAddress \<noteq> endAddress \<and> alignedEndAddress \<noteq> alignedStartAddress);
          middleSize = wholeAllocationSize - (of_bool trailingNeeded + of_bool leadingNeeded) * pageSize;
          (fragments2, count2) =
            (if middleSize \<noteq> 0
             then (fragments1[count1 := \<lparr>pa_fragmentPosition = FP_MIDDLE, pa_allocationPtr = alignUp inputPtr pageSize,
                                          pa_allocationSize = middleSize\<rparr>], count1 + 1)
             else (fragments1, count1));
          (fragments3, count3) =
            (if trailingNeeded
             then (fragments2[count2 := \<lparr>pa_fragmentPosition = FP_TRAILING, pa_allocationPtr = alignedEndAddress,
                                          pa_allocationSize = pageSize\<rparr>], count2 + 1)
             else (fragments2, count2))
      in \<lparr>ar_AllocationFragments = fragments3, ar_totalRequiredSize = wholeAllocationSize,
          ar_requiredFragmentsCount = count3\<rparr>)"

section \<open>Overlap checks\<close>

text \<open>The result is the stored fragment the pointer refers to, by its key, and the status.\<close>

definition getFragmentAndCheckForOverlaps ::
  "u64 \<Rightarrow> u64 \<Rightarrow> HostPtrFragmentsContainer \<Rightarrow> u64 option \<times> OverlapStatus" where
  "getFragmentAndCheckForOverlaps inputPtr sz m =
     (let nextElement = lower_bound inputPtr m;
          element = (if nextElement \<noteq> 0 then nextElement - 1 else nextElement)
      in if element \<noteq> length m then
           let stored = snd (m ! element);
               storedEndAddress = fs_fragmentCpuPointer stored + fs_fragmentSize stored;
               inputEndAddress = inputPtr + sz
           in if fs_fragmentCpuPointer stored = inputPtr \<and> fs_fragmentSize stored = sz
              then (Some (fst (m ! element)), FRAGMENT_WITH_EXACT_SIZE_AS_STORED_FRAGMENT)
              else if inputPtr \<ge> fs_fragmentCpuPointer stored \<and> inputPtr < storedEndAddress then
                if inputEndAddress \<le> storedEndAddress
                then (Some (fst (m ! element)), FRAGMENT_WITHIN_STORED_FRAGMENT)
                else (None, FRAGMENT_OVERLAPING_AND_BIGGER_THEN_STORED_FRAGMENT)
              else if nextElement \<noteq> length m then
                let next = snd (m ! nextElement);
                    storedNextEndAddress = fs_fragmentCpuPointer next + fs_fragmentSize next;
                    storedNextStartAddress = fs_fragmentCpuPointer next
                in if inputPtr < storedNextStartAddress then
                     if inputEndAddress > storedNextStartAddress
                     then (None, FRAGMENT_OVERLAPING_AND_BIGGER_THEN_STORED_FRAGMENT)
                     else (None, FRAGMENT_NOT_OVERLAPING_WITH_ANY_OTHER)
                   else if inputEndAddress > storedNextEndAddress
                   then (None, FRAGMENT_OVERLAPING_AND_BIGGER_THEN_STORED_FRAGMENT)
                   else if inputEndAddress < storedNextEndAddress
                   then (Some (fst (m ! nextElement)), FRAGMENT_WITHIN_STORED_FRAGMENT)
                   else (Some (fst (m ! nextElement)), FRAGMENT_WITH_EXACT_SIZE_AS_STORED_FRAGMENT)
              else (None, FRAGMENT_NOT_OVERLAPING_WITH_ANY_OTHER)
         else (None, FRAGMENT_NOT_OVERLAPING_WITH_ANY_OTHER))"

section \<open>Storing and releasing\<close>

definition add_ref :: "nat \<Rightarrow> int \<Rightarrow> HostPtrFragmentsContainer \<Rightarrow> HostPtrFragmentsContainer" where
  "add_ref i d m = m[i := (fst (m ! i), (snd (m ! i))\<lparr>fs_refCount := fs_refCount (snd (m ! i)) + d\<rparr>)]"

definition storeFragment :: "FragmentStorage \<Rightarrow> HostPtrFragmentsContainer \<Rightarrow> HostPtrFragmentsContainer" where
  "storeFragment fragment m =
     (let element = findElement (fs_fragmentCpuPointer fragment) m
      in if element \<noteq> length m then add_ref element 1 m
         else map_insert (fs_fragmentCpuPointer fragment) (fragment\<lparr>fs_refCount := fs_refCount fragment + 1\<rparr>) m)"

definition storeFragmentData :: "AllocationStorageData \<Rightarrow> HostPtrFragmentsContainer \<Rightarrow> HostPtrFragmentsContainer" where
  "storeFragmentData sd m =
     storeFragment \<lparr>fs_fragmentCpuPointer = sd_cpuPtr sd, fs_fragmentSize = sd_fragmentSize sd, fs_refCount = 0,
        fs_osInternalStorage = sd_osHandleStorage sd, fs_residency = sd_residency sd, fs_driverAllocation = False\<rparr> m"

definition releaseHostPtr :: "u64 \<Rightarrow> HostPtrFragmentsContainer \<Rightarrow> (bool \<times> HostPtrFragmentsContainer) rt_result" where
  "releaseHostPtr ptr m =
     (let element = findElement ptr m
      in if element = length m then Inl OutOfBounds
         else let m = add_ref element (- 1) m
              in if fs_refCount (snd (m ! element)) \<le> 0 then Inr (True, map_erase element m) else Inr (False, m))"

fun releaseHandles ::
  "AllocationStorageData list \<Rightarrow> HostPtrFragmentsContainer
   \<Rightarrow> (AllocationStorageData list \<times> HostPtrFragmentsContainer) rt_result" where
  "releaseHandles [] m = Inr ([], m)"
| "releaseHandles (d # ds) m =
     (if sd_fragmentSize d \<noteq> 0 \<or> sd_cpuPtr d \<noteq> 0 then
        rt_bind (releaseHostPtr (sd_cpuPtr d) m) (\<lambda>(b, m).
        rt_bind (releaseHandles ds m) (\<lambda>(ds, m). Inr (d\<lparr>sd_freeTheFragment := b\<rparr> # ds, m)))
      else rt_bind (releaseHandles ds m) (\<lambda>(ds, m). Inr (d # ds, m)))"

definition releaseHandleStorage ::
  "OsHandleStorage \<Rightarrow> HostPtrFragmentsContainer \<Rightarrow> (OsHandleStorage \<times> HostPtrFragmentsContainer) rt_result" where
  "releaseHandleStorage fragments m =
     rt_bind (releaseHandles (hs_fragmentStorageData fragments) m)
       (\<lambda>(ds, m). Inr (fragments\<lparr>hs_fragmentStorageData := ds\<rparr>, m))"

definition getFragment :: "u64 \<Rightarrow> HostPtrFragmentsContainer \<Rightarrow> FragmentStorage option" where
  "getFragment inputPtr m =
     (let element = findElement inputPtr m in if element \<noteq> length m then Some (snd (m ! element)) else None)"


text \<open>A \<^verbatim>\<open>FragmentStorage *\<close> is the key of its element; it dangles once the element is erased.\<close>

definition deref :: "u64 \<Rightarrow> HostPtrFragmentsContainer \<Rightarrow> nat rt_result" where
  "deref k m = (let i = lower_bound k m in if i < length m \<and> fst (m ! i) = k then Inr i else Inl UseAfterFree)"

fun populateFragments ::
  "(PartialAllocation \<times> u64 option \<times> OverlapStatus) list \<Rightarrow> HostPtrFragmentsContainer
   \<Rightarrow> (AllocationStorageData list \<times> HostPtrFragmentsContainer) rt_result" where
  "populateFragments [] m = Inr ([], m)"
| "populateFragments ((pa, fragment, status) # rest) m =
     (let (fragment, status) =
            (if status = FRAGMENT_NOT_CHECKED
             then getFragmentAndCheckForOverlaps (pa_allocationPtr pa) (pa_allocationSize pa) m
             else (fragment, status))
      in if status = FRAGMENT_WITHIN_STORED_FRAGMENT \<and> fragment = None then Inl Unrecoverable
         else if status = FRAGMENT_OVERLAPING_AND_BIGGER_THEN_STORED_FRAGMENT then Inl Unrecoverable
         else case fragment of
           Some k \<Rightarrow>
             rt_bind (deref k m) (\<lambda>i.
             rt_bind (populateFragments rest (add_ref i 1 m)) (\<lambda>(ds, m').
             Inr (\<lparr>sd_osHandleStorage = fs_osInternalStorage (snd (m ! i)), sd_fragmentSize = pa_allocationSize pa,
                   sd_cpuPtr = pa_allocationPtr pa, sd_freeTheFragment = False,
                   sd_residency = fs_residency (snd (m ! i))\<rparr> # ds, m')))
         | None \<Rightarrow>
             rt_bind (populateFragments rest m) (\<lambda>(ds, m').
             Inr (\<lparr>sd_osHandleStorage = 0, sd_fragmentSize = pa_allocationSize pa,
                   sd_cpuPtr = pa_allocationPtr pa, sd_freeTheFragment = False, sd_residency = 0\<rparr> # ds, m')))"

definition populateAlreadyAllocatedFragments ::
  "AllocationRequirements \<Rightarrow> CheckedFragments option \<Rightarrow> HostPtrFragmentsContainer
   \<Rightarrow> (OsHandleStorage \<times> HostPtrFragmentsContainer) rt_result" where
  "populateAlreadyAllocatedFragments requirements checked m =
     (let n = ar_requiredFragmentsCount requirements;
          pas = take n (ar_AllocationFragments requirements);
          checks = (case checked of None \<Rightarrow> replicate n (None, FRAGMENT_NOT_CHECKED)
                                  | Some c \<Rightarrow> zip (cf_fragments c) (cf_status c))
      in rt_bind (populateFragments (zip pas checks) m) (\<lambda>(ds, m).
         Inr (\<lparr>hs_fragmentStorageData = ds @ replicate (maxFragmentsCount - length ds) AllocationStorageData_init,
               hs_fragmentCount = n\<rparr>, m)))"

text \<open>Freeing a graphics allocation, as far as the fragments are concerned: the OS agnostic memory
  manager releases the handle storage of an allocation made from a host pointer.\<close>

definition dummyAddress :: u64 where "dummyAddress = 0xFFFFF000"

definition freeGraphicsMemory ::
  "GraphicsAllocation \<Rightarrow> HostPtrFragmentsContainer \<Rightarrow> HostPtrFragmentsContainer rt_result" where
  "freeGraphicsMemory a m =
     (if ga_cpuPtr a = dummyAddress then Inr m
      else if hs_fragmentCount (ga_fragmentsStorage a) \<noteq> 0
      then rt_bind (releaseHandleStorage (ga_fragmentsStorage a) m) (\<lambda>(_, m). Inr m)
      else Inr m)"

fun freeAll :: "GraphicsAllocation list \<Rightarrow> HostPtrFragmentsContainer \<Rightarrow> HostPtrFragmentsContainer rt_result" where
  "freeAll [] m = Inr m"
| "freeAll (a # as) m = rt_bind (freeGraphicsMemory a m) (freeAll as)"

definition cleanTemporary ::
  "CsrView \<Rightarrow> u32 \<Rightarrow> HostPtrFragmentsContainer \<times> InternalAllocationStorage
   \<Rightarrow> (HostPtrFragmentsContainer \<times> InternalAllocationStorage) rt_result" where
  "cleanTemporary csr taskCount = (\<lambda>(m, s).
     case cleanAllocationList csr taskCount TEMPORARY_ALLOCATION s of (s', freed) \<Rightarrow>
       rt_bind (freeAll freed m) (\<lambda>m. Inr (m, s')))"

text \<open>The check of one fragment: the tag is read once before the first clean, and again after the
  wait loop, whose exit value is the second argument.\<close>

definition checkFragment ::
  "CsrView \<Rightarrow> u32 \<Rightarrow> PartialAllocation \<Rightarrow> HostPtrFragmentsContainer \<times> InternalAllocationStorage
   \<Rightarrow> ((u64 option \<times> OverlapStatus) \<times> HostPtrFragmentsContainer \<times> InternalAllocationStorage) rt_result" where
  "checkFragment csr tagAfterWait pa ms =
     (let check = (\<lambda>ms. getFragmentAndCheckForOverlaps (pa_allocationPtr pa) (pa_allocationSize pa) (fst ms));
          bigger = (\<lambda>r. snd r = FRAGMENT_OVERLAPING_AND_BIGGER_THEN_STORED_FRAGMENT)
      in if bigger (check ms) then
           rt_bind (cleanTemporary csr (csr_tag csr) ms) (\<lambda>ms.
             if bigger (check ms) then
               rt_bind (cleanTemporary csr tagAfterWait ms) (\<lambda>ms. Inr (check ms, ms))
             else Inr (check ms, ms))
         else Inr (check ms, ms))"

fun checkFragments ::
  "CsrView \<Rightarrow> u32 \<Rightarrow> PartialAllocation list \<Rightarrow> HostPtrFragmentsContainer \<times> InternalAllocationStorage
   \<Rightarrow> (RequirementsStatus \<times> (u64 option \<times> OverlapStatus) list \<times>
        HostPtrFragmentsContainer \<times> InternalAllocationStorage) rt_result" where
  "checkFragments csr tagAfterWait [] ms = Inr (RS_SUCCESS, [], ms)"
| "checkFragments csr tagAfterWait (pa # pas) ms =
     rt_bind (checkFragment csr tagAfterWait pa ms) (\<lambda>(r, ms).
       if snd r = FRAGMENT_OVERLAPING_AND_BIGGER_THEN_STORED_FRAGMENT then Inr (RS_FATAL, [r], ms)
       else rt_bind (checkFragments csr tagAfterWait pas ms) (\<lambda>(status, rs, ms). Inr (status, r # rs, ms)))"

definition checkAllocationsForOverlapping ::
  "CsrView \<Rightarrow> u32 \<Rightarrow> AllocationRequirements \<Rightarrow> HostPtrFragmentsContainer \<times> InternalAllocationStorage
   \<Rightarrow> (RequirementsStatus \<times> CheckedFragments \<times> HostPtrFragmentsContainer \<times> InternalAllocationStorage) rt_result" where
  "checkAllocationsForOverlapping csr tagAfterWait requirements ms =
     rt_bind (checkFragments csr tagAfterWait
                (take (ar_requiredFragmentsCount requirements) (ar_AllocationFragments requirements)) ms)
       (\<lambda>(status, rs, ms).
          Inr (status,
               \<lparr>cf_fragments = map fst rs @ replicate (maxFragmentsCount - length rs) None,
                cf_status = map snd rs @ replicate (maxFragmentsCount - length rs) FRAGMENT_NOT_CHECKED,
                cf_count = length rs\<rparr>, ms))"

text \<open>\<^verbatim>\<open>OsAgnosticMemoryManager::populateOsHandles\<close>: the two \<^verbatim>\<open>new\<close> expressions are parameters that
  give the addresses of the objects made for a fragment.\<close>

fun populateOsHandles ::
  "(u64 \<Rightarrow> u64) \<Rightarrow> (u64 \<Rightarrow> u64) \<Rightarrow> AllocationStorageData list \<Rightarrow> HostPtrFragmentsContainer
   \<Rightarrow> AllocationStorageData list \<times> HostPtrFragmentsContainer" where
  "populateOsHandles newOsHandle newResidency [] m = ([], m)"
| "populateOsHandles newOsHandle newResidency (d # ds) m =
     (if sd_osHandleStorage d = 0 \<and> sd_cpuPtr d \<noteq> 0 then
        let d = d\<lparr>sd_osHandleStorage := newOsHandle (sd_cpuPtr d), sd_residency := newResidency (sd_cpuPtr d)\<rparr>;
            newFragment = \<lparr>fs_fragmentCpuPointer = sd_cpuPtr d, fs_fragmentSize = sd_fragmentSize d, fs_refCount = 0,
              fs_osInternalStorage = sd_osHandleStorage d, fs_residency = sd_residency d, fs_driverAllocation = False\<rparr>;
            (ds, m) = populateOsHandles newOsHandle newResidency ds (storeFragment newFragment m)
        in (d # ds, m)
      else let (ds, m) = populateOsHandles newOsHandle newResidency ds m in (d # ds, m))"

definition prepareOsStorageForAllocation ::
  "(u64 \<Rightarrow> u64) \<Rightarrow> (u64 \<Rightarrow> u64) \<Rightarrow> CsrView \<Rightarrow> u32 \<Rightarrow> u64 \<Rightarrow> u64
   \<Rightarrow> HostPtrFragmentsContainer \<times> InternalAllocationStorage
   \<Rightarrow> (OsHandleStorage \<times> HostPtrFragmentsContainer \<times> InternalAllocationStorage) rt_result" where
  "prepareOsStorageForAllocation newOsHandle newResidency csr tagAfterWait sz ptr ms =
     (let requirements = getAllocationRequirements ptr sz
      in rt_bind (checkAllocationsForOverlapping csr tagAfterWait requirements ms) (\<lambda>(status, checked, m, s).
         if status = RS_FATAL then Inl Unrecoverable
         else rt_bind (populateAlreadyAllocatedFragments requirements (Some checked) m) (\<lambda>(osStorage, m).
           if hs_fragmentCount osStorage > 0 then
             let (ds, m) = populateOsHandles newOsHandle newResidency (hs_fragmentStorageData osStorage) m
             in Inr (osStorage\<lparr>hs_fragmentStorageData := ds\<rparr>, m, s)
           else Inr (osStorage, m, s))))"

section \<open>Fragments tile the pages\<close>

fun tiles :: "nat \<Rightarrow> PartialAllocation list \<Rightarrow> nat \<Rightarrow> bool" where
  "tiles a [] b \<longleftrightarrow> a = b"
| "tiles a (f # fs) b \<longleftrightarrow> unat (pa_allocationPtr f) = a \<and> 0 < unat (pa_allocationSize f) \<and>
     4096 dvd unat (pa_allocationSize f) \<and> tiles (a + unat (pa_allocationSize f)) fs b"

lemma page_round_up: "l < 4096 \<Longrightarrow> (4096 * d + l + 4095) div 4096 = d + of_bool (l \<noteq> 0)" for d l :: nat
  by (cases "l = 0") auto

lemma requirements_tile:
  assumes "unat p + unat s + 4096 \<le> 2 ^ 64"
  defines "r \<equiv> getAllocationRequirements p s"
  shows "tiles (unat p div 4096 * 4096) (take (ar_requiredFragmentsCount r) (ar_AllocationFragments r))
           ((unat p + unat s + 4095) div 4096 * 4096) \<and>
         ar_requiredFragmentsCount r \<le> maxFragmentsCount \<and> length (ar_AllocationFragments r) = maxFragmentsCount \<and>
         unat p div 4096 * 4096 + unat (ar_totalRequiredSize r) = (unat p + unat s + 4095) div 4096 * 4096"
proof -
  define q k where "q = unat p div 4096" and "k = unat p mod 4096"
  define t l where "t = (unat p + unat s) div 4096" and "l = (unat p + unat s) mod 4096"
  have p: "unat p = 4096 * q + k" "k < 4096" by (simp_all add: q_def k_def)
  have e: "unat p + unat s = 4096 * t + l" "l < 4096" by (simp_all add: t_def l_def)
  have "q \<le> t" unfolding q_def t_def by (simp add: div_le_mono)
  then obtain d where d: "t = q + d" using le_Suc_ex by blast
  have ks: "k + unat s = 4096 * d + l" using p e d by linarith
  have up: "(unat p + unat s + 4095) div 4096 = t + of_bool (l \<noteq> 0)"
    using e page_round_up [of l t] by simp
  have pup: "(unat p + 4095) div 4096 = q + of_bool (k \<noteq> 0)"
    using p page_round_up [of k q] by simp
  have whole: "unat (alignSizeWholePage p s) = 4096 * (d + of_bool (l \<noteq> 0))"
    using ks page_round_up [OF e(2), of d] assms(1) p
    by (subst alignSizeWholePage_eq) (simp_all flip: k_def)
  have start: "unat (alignDown p pageSize) = 4096 * q"
    by (simp add: unat_alignDown_page q_def)
  have off: "unat (ptrOffset p s) = unat p + unat s"
    using assms(1) by (simp add: ptrOffset_def unat_add_nowrap)
  then have fin: "unat (alignDown (ptrOffset p s) pageSize) = 4096 * t"
    by (simp add: unat_alignDown_page t_def)
  have aup: "unat (alignUp p pageSize) = 4096 * (q + of_bool (k \<noteq> 0))"
    using assms(1) pup by (subst unat_alignUp_page) auto
  have lead: "alignDown p pageSize \<noteq> p \<longleftrightarrow> k \<noteq> 0"
    using start p by (auto simp: word_unat_eq_iff)
  have trail: "alignDown (ptrOffset p s) pageSize \<noteq> ptrOffset p s \<and>
      alignDown (ptrOffset p s) pageSize \<noteq> alignDown p pageSize \<longleftrightarrow> l \<noteq> 0 \<and> d \<noteq> 0"
    using fin start off e d by (auto simp: word_unat_eq_iff)
  have kl: "d = 0 \<Longrightarrow> k \<noteq> 0 \<Longrightarrow> l \<noteq> 0" using ks by auto
  define n where "n = of_bool (l \<noteq> 0 \<and> d \<noteq> 0) + (of_bool (k \<noteq> 0) :: nat)"
  have n: "n \<le> 2" "n \<le> d + of_bool (l \<noteq> 0)" using kl by (auto simp: n_def)
  let ?n = "(of_bool (l \<noteq> 0 \<and> d \<noteq> 0) + of_bool (k \<noteq> 0)) * pageSize"
  have un: "unat ?n = 4096 * n"
    by (auto simp: n_def memory_constants)
  have mid: "unat (alignSizeWholePage p s - ?n) = 4096 * (d + of_bool (l \<noteq> 0) - n)"
    using whole un n by (subst unat_sub_le) (auto simp: word_le_nat_alt diff_mult_distrib2)
  have mid0: "alignSizeWholePage p s - ?n \<noteq> 0 \<longleftrightarrow> d + of_bool (l \<noteq> 0) \<noteq> n"
    using mid n by (auto simp: word_unat_eq_iff)
  have "d + of_bool (l \<noteq> 0) - n = (if d = 0 then of_bool (k = 0 \<and> l \<noteq> 0) else d - of_bool (k \<noteq> 0))"
    using kl by (auto simp: n_def)
  note mid = mid [unfolded this]
  note r = r_def [unfolded getAllocationRequirements_def Let_def lead trail mid0]
  have dk: "d \<noteq> 0 \<Longrightarrow> 4096 * (d - of_bool (k \<noteq> 0)) + 4096 * of_bool (k \<noteq> 0) = 4096 * d"
    by auto
  show ?thesis
    unfolding up r
    using whole mid start fin aup n_def d dk kl
    by (cases "k = 0"; cases "l = 0"; cases "d = 0")
      (simp_all add: maxFragmentsCount_def numeral_3_eq_3 q_def algebra_simps)
qed

section \<open>Well-formed fragment maps\<close>

definition frag_range :: "u64 \<times> FragmentStorage \<Rightarrow> nat set" where
  "frag_range e = {unat (fst e)..<unat (fst e) + unat (fs_fragmentSize (snd e))}"

definition frag_ok :: "u64 \<times> FragmentStorage \<Rightarrow> bool" where
  "frag_ok e \<longleftrightarrow> fs_fragmentCpuPointer (snd e) = fst e \<and> 0 < unat (fs_fragmentSize (snd e)) \<and>
     unat (fst e) + unat (fs_fragmentSize (snd e)) < 2 ^ 64"

definition frags_wf :: "HostPtrFragmentsContainer \<Rightarrow> bool" where
  "frags_wf m \<longleftrightarrow> (\<forall>e \<in> set m. frag_ok e) \<and>
     sorted_wrt (\<lambda>a b. unat (fst a) + unat (fs_fragmentSize (snd a)) \<le> unat (fst b)) m"

lemma frag_okD:
  assumes "frags_wf m" and "i < length m"
  shows "fs_fragmentCpuPointer (snd (m ! i)) = fst (m ! i)"
    and "0 < unat (fs_fragmentSize (snd (m ! i)))"
    and "unat (fst (m ! i) + fs_fragmentSize (snd (m ! i))) = unat (fst (m ! i)) + unat (fs_fragmentSize (snd (m ! i)))"
    and "storedEnd (snd (m ! i)) = fst (m ! i) + fs_fragmentSize (snd (m ! i))"
    and "unat (fst (m ! i)) + unat (fs_fragmentSize (snd (m ! i))) < 2 ^ 64"
proof -
  have ok: "frag_ok (m ! i)" using assms by (auto simp: frags_wf_def)
  then show "fs_fragmentCpuPointer (snd (m ! i)) = fst (m ! i)" "0 < unat (fs_fragmentSize (snd (m ! i)))"
    "unat (fst (m ! i)) + unat (fs_fragmentSize (snd (m ! i))) < 2 ^ 64"
    by (auto simp: frag_ok_def)
  show "unat (fst (m ! i) + fs_fragmentSize (snd (m ! i))) = unat (fst (m ! i)) + unat (fs_fragmentSize (snd (m ! i)))"
    using ok by (auto simp: frag_ok_def intro!: unat_add_nowrap)
  show "storedEnd (snd (m ! i)) = fst (m ! i) + fs_fragmentSize (snd (m ! i))"
    using ok by (auto simp: storedEnd_def Let_def frag_ok_def)
qed

lemma frag_order:
  assumes "frags_wf m" and "i < j" and "j < length m"
  shows "unat (fst (m ! i)) + unat (fs_fragmentSize (snd (m ! i))) \<le> unat (fst (m ! j))"
  using assms by (auto simp: frags_wf_def sorted_wrt_iff_nth_less)

lemma frag_disjoint:
  assumes "frags_wf m" and "i < length m" and "j < length m" and "x \<in> frag_range (m ! i)" and "x \<in> frag_range (m ! j)"
  shows "i = j"
  using frag_order [OF assms(1), of i j] frag_order [OF assms(1), of j i] assms
  by (cases i j rule: linorder_cases) (auto simp: frag_range_def)

lemma lower_bound_props:
  shows "lower_bound p m \<le> length m" and "j < lower_bound p m \<Longrightarrow> fst (m ! j) < p"
    and "lower_bound p m < length m \<Longrightarrow> p \<le> fst (m ! lower_bound p m)"
proof -
  show "lower_bound p m \<le> length m" by (simp add: lower_bound_def length_takeWhile_le)
  show "fst (m ! j) < p" if "j < lower_bound p m"
    using that takeWhile_nth [of j "\<lambda>e. fst e < p" m] nth_mem [of j "takeWhile (\<lambda>e. fst e < p) m"]
    by (auto simp: lower_bound_def dest: set_takeWhileD)
  show "p \<le> fst (m ! lower_bound p m)" if "lower_bound p m < length m"
    using that nth_length_takeWhile [of "\<lambda>e. fst e < p" m] by (simp add: lower_bound_def not_less)
qed

lemma lower_bound_above:
  assumes "frags_wf m" and "lower_bound p m \<le> j" and "j < length m"
  shows "unat p \<le> unat (fst (m ! j))"
proof -
  have "unat p \<le> unat (fst (m ! lower_bound p m))"
    using lower_bound_props(3) [of p m] assms by (simp add: word_le_nat_alt)
  also have "\<dots> \<le> unat (fst (m ! j))"
    using frag_order [OF assms(1), of "lower_bound p m" j] assms by (cases "lower_bound p m = j") auto
  finally show ?thesis .
qed

lemma lower_bound_below:
  assumes "frags_wf m" and "Suc j < lower_bound p m"
  shows "unat (fst (m ! j)) + unat (fs_fragmentSize (snd (m ! j))) < unat p"
proof -
  have "unat (fst (m ! j)) + unat (fs_fragmentSize (snd (m ! j))) \<le> unat (fst (m ! (lower_bound p m - 1)))"
    using frag_order [OF assms(1), of j "lower_bound p m - 1"] lower_bound_props(1) [of p m] assms(2) by auto
  also have "\<dots> < unat p"
    using lower_bound_props(2) [of "lower_bound p m - 1" p m] assms(2) by (simp add: word_less_nat_alt)
  finally show ?thesis .
qed

text \<open>\<^verbatim>\<open>findElement\<close> returns the fragment that holds the address, and the end when none does.\<close>

lemma findElement_cases:
  assumes wf: "frags_wf m"
  shows "findElement p m =
    (let b = lower_bound p m in
     if b < length m \<and> fst (m ! b) = p then b
     else if b \<noteq> 0 \<and> unat p \<in> frag_range (m ! (b - 1)) then b - 1 else length m)"
proof -
  let ?b = "lower_bound p m"
  have le: "?b < length m \<Longrightarrow> fs_fragmentCpuPointer (snd (m ! ?b)) \<le> p \<longleftrightarrow> fst (m ! ?b) = p"
    using lower_bound_props(3) [of p m] frag_okD(1) [OF wf, of ?b] by auto
  have rng: "?b \<noteq> 0 \<Longrightarrow> p < storedEnd (snd (m ! (?b - 1))) \<longleftrightarrow> unat p \<in> frag_range (m ! (?b - 1))"
    using lower_bound_props(1) [of p m] lower_bound_props(2) [of "?b - 1" p m] frag_okD [OF wf, of "?b - 1"]
    by (auto simp: frag_range_def word_less_nat_alt)
  show ?thesis
    using le rng lower_bound_props(1) [of p m] unfolding findElement_def Let_def
    by (cases "?b = length m") auto
qed

lemma findElement_found:
  assumes wf: "frags_wf m" and i: "i < length m" and p: "unat p \<in> frag_range (m ! i)"
  shows "findElement p m = i"
proof (cases "i < lower_bound p m")
  case True
  then have "\<not> Suc i < lower_bound p m"
    using lower_bound_below [OF wf, of i p] p by (auto simp: frag_range_def)
  then have b: "lower_bound p m = Suc i" using True by simp
  moreover have "fst (m ! lower_bound p m) \<noteq> p" if "lower_bound p m < length m"
    using frag_disjoint [OF wf i that p] that frag_okD(2) [OF wf that] b by (auto simp: frag_range_def)
  ultimately show ?thesis
    using p by (simp add: findElement_cases [OF wf] Let_def)
next
  case False
  then have le: "lower_bound p m \<le> i" by simp
  have eq: "unat p = unat (fst (m ! i))"
    using lower_bound_above [OF wf le i] p by (simp add: frag_range_def)
  have "lower_bound p m = i"
  proof (rule ccontr)
    assume "lower_bound p m \<noteq> i"
    then have "lower_bound p m < i" using le by simp
    then show False
      using frag_order [OF wf _ i] frag_okD(2) [OF wf, of "lower_bound p m"] lower_bound_above [OF wf order_refl, of p] eq i
      by fastforce
  qed
  then show ?thesis
    using eq i by (simp add: findElement_cases [OF wf] Let_def word_unat_eq_iff)
qed

lemma findElement_end:
  assumes wf: "frags_wf m" and p: "\<forall>e \<in> set m. unat p \<notin> frag_range e"
  shows "findElement p m = length m"
proof -
  have "fst (m ! lower_bound p m) \<noteq> p" if "lower_bound p m < length m"
    using p frag_okD(2) [OF wf that] nth_mem [OF that] by (auto simp: frag_range_def)
  moreover have "unat p \<notin> frag_range (m ! (lower_bound p m - 1))" if "lower_bound p m \<noteq> 0"
    using p lower_bound_props(1) [of p m] that by auto
  ultimately show ?thesis by (auto simp: findElement_cases [OF wf] Let_def)
qed

lemma findElement_iff:
  assumes "frags_wf m" and "findElement p m = i" and "i < length m"
  shows "unat p \<in> frag_range (m ! i)"
proof (rule ccontr)
  assume n: "unat p \<notin> frag_range (m ! i)"
  show False
  proof (cases "\<exists>j < length m. unat p \<in> frag_range (m ! j)")
    case True
    then show ?thesis using findElement_found [OF assms(1)] assms n by auto
  next
    case False
    then have "\<forall>e \<in> set m. unat p \<notin> frag_range e" by (metis in_set_conv_nth)
    then show ?thesis using findElement_end [OF assms(1)] assms by auto
  qed
qed

section \<open>The overlap check classifies ranges\<close>

lemma disjoint_all:
  assumes wf: "frags_wf m"
    and below: "lower_bound p m \<noteq> 0 \<Longrightarrow>
      unat (fst (m ! (lower_bound p m - 1))) + unat (fs_fragmentSize (snd (m ! (lower_bound p m - 1)))) \<le> unat p"
    and above: "lower_bound p m < length m \<Longrightarrow> unat p + n \<le> unat (fst (m ! lower_bound p m))"
    and e: "e \<in> set m"
  shows "{unat p..<unat p + n} \<inter> frag_range e = {}"
proof -
  obtain j where j: "j < length m" "e = m ! j" using e by (metis in_set_conv_nth)
  consider "Suc j < lower_bound p m" | "lower_bound p m = Suc j" | "lower_bound p m \<le> j" by linarith
  then show ?thesis
  proof cases
    case 1
    then show ?thesis using lower_bound_below [OF wf 1] j by (auto simp: frag_range_def)
  next
    case 2
    then show ?thesis using below j by (auto simp: frag_range_def)
  next
    case 3
    then have "unat (fst (m ! lower_bound p m)) \<le> unat (fst (m ! j))"
      using frag_order [OF wf, of "lower_bound p m" j] j by (cases "lower_bound p m = j") auto
    then show ?thesis using above 3 j by (auto simp: frag_range_def)
  qed
qed

definition classified :: "nat set \<Rightarrow> HostPtrFragmentsContainer \<Rightarrow> u64 option \<times> OverlapStatus \<Rightarrow> bool" where
  "classified R m r = (case r of
      (None, FRAGMENT_NOT_OVERLAPING_WITH_ANY_OTHER) \<Rightarrow> \<forall>e \<in> set m. R \<inter> frag_range e = {}
    | (Some k, FRAGMENT_WITHIN_STORED_FRAGMENT) \<Rightarrow> \<exists>e \<in> set m. fst e = k \<and> R \<subset> frag_range e
    | (Some k, FRAGMENT_WITH_EXACT_SIZE_AS_STORED_FRAGMENT) \<Rightarrow> \<exists>e \<in> set m. fst e = k \<and> R = frag_range e
    | (None, FRAGMENT_OVERLAPING_AND_BIGGER_THEN_STORED_FRAGMENT) \<Rightarrow>
        \<exists>e \<in> set m. R \<inter> frag_range e \<noteq> {} \<and> \<not> R \<subseteq> frag_range e
    | _ \<Rightarrow> False)"

lemma classified_exact:
  "j < length m \<Longrightarrow> R = frag_range (m ! j) \<Longrightarrow>
   classified R m (Some (fst (m ! j)), FRAGMENT_WITH_EXACT_SIZE_AS_STORED_FRAGMENT)"
  by (auto simp: classified_def intro!: bexI [of _ "m ! j"])

lemma classified_within:
  "j < length m \<Longrightarrow> R \<subseteq> frag_range (m ! j) \<Longrightarrow> x \<in> frag_range (m ! j) \<Longrightarrow> x \<notin> R \<Longrightarrow>
   classified R m (Some (fst (m ! j)), FRAGMENT_WITHIN_STORED_FRAGMENT)"
  by (auto simp: classified_def intro!: bexI [of _ "m ! j"])

lemma classified_bigger:
  "j < length m \<Longrightarrow> x \<in> R \<Longrightarrow> x \<in> frag_range (m ! j) \<Longrightarrow> y \<in> R \<Longrightarrow> y \<notin> frag_range (m ! j) \<Longrightarrow>
   classified R m (None, FRAGMENT_OVERLAPING_AND_BIGGER_THEN_STORED_FRAGMENT)"
  by (auto simp: classified_def intro!: bexI [of _ "m ! j"])

lemma overlap_classified:
  assumes wf: "frags_wf m" and sz: "0 < unat n" and nowrap: "unat p + unat n < 2 ^ 64"
  shows "classified {unat p..<unat p + unat n} m (getFragmentAndCheckForOverlaps p n m)"
proof -
  let ?b = "lower_bound p m" and ?R = "{unat p..<unat p + unat n}"
  let ?S = "\<lambda>j. unat (fst (m ! j))" and ?L = "\<lambda>j. unat (fs_fragmentSize (snd (m ! j)))"
  have pe: "unat (p + n) = unat p + unat n" using nowrap by (intro unat_add_nowrap) auto
  note words = word_less_nat_alt word_le_nat_alt word_unat_eq_iff pe frag_okD(1,3) [OF wf]
  have none: "classified ?R m (None, FRAGMENT_NOT_OVERLAPING_WITH_ANY_OTHER)"
    if "?b \<noteq> 0 \<Longrightarrow> ?S (?b - 1) + ?L (?b - 1) \<le> unat p" "?b < length m \<Longrightarrow> unat p + unat n \<le> ?S ?b"
    using disjoint_all [OF wf that] by (simp add: classified_def)
  have bigger_next: "classified ?R m (None, FRAGMENT_OVERLAPING_AND_BIGGER_THEN_STORED_FRAGMENT)"
    if "?b < length m" "unat p < ?S ?b" "?S ?b < unat p + unat n"
    using that frag_okD(2) [OF wf that(1)]
    by (intro classified_bigger [where x = "?S ?b" and y = "unat p"]) (auto simp: frag_range_def)
  show ?thesis
  proof (cases "?b = 0")
    case b0: True
    show ?thesis
    proof (cases "m = []")
      case False
      then have l: "0 < length m" and ge: "unat p \<le> ?S 0"
        using lower_bound_props(3) [of p m] b0 by (simp_all add: word_le_nat_alt)
      consider "?S 0 = unat p" "?L 0 = unat n" | "?S 0 = unat p" "unat n < ?L 0" | "?S 0 = unat p" "?L 0 < unat n"
        | "unat p < ?S 0" using ge by linarith
      then show ?thesis
      proof cases
        case 4
        then show ?thesis
          using none bigger_next b0 l by (auto simp: getFragmentAndCheckForOverlaps_def Let_def words)
      qed (use b0 l sz frag_okD(2,5) [OF wf l] in \<open>auto simp: getFragmentAndCheckForOverlaps_def Let_def words frag_range_def
             intro!: classified_exact [of 0] classified_within [of 0 m _ "unat p + unat n"] classified_bigger [of 0 m "unat p" _ "unat p + ?L 0"]\<close>)
    qed (simp add: getFragmentAndCheckForOverlaps_def Let_def lower_bound_def classified_def)
  next
    case b: False
    then have l: "?b - 1 < length m" and lt: "?S (?b - 1) < unat p"
      using lower_bound_props(1) [of p m] lower_bound_props(2) [of "?b - 1" p m] by (auto simp: word_less_nat_alt)
    have el: "?b - 1 \<noteq> length m" using l by simp
    show ?thesis
    proof (cases "unat p < ?S (?b - 1) + ?L (?b - 1)")
      case True
      then show ?thesis
        using b l el lt sz frag_okD(5) [OF wf l]
        by (auto simp: getFragmentAndCheckForOverlaps_def Let_def words frag_range_def
            intro!: classified_within [of "?b - Suc 0" m _ "?S (?b - Suc 0)"]
              classified_bigger [of "?b - Suc 0" m "unat p" _ "?S (?b - Suc 0) + ?L (?b - Suc 0)"])
    next
      case False
      then have skip: "getFragmentAndCheckForOverlaps p n m =
        (if ?b \<noteq> length m then
           if unat p < ?S ?b then
             if unat p + unat n > ?S ?b then (None, FRAGMENT_OVERLAPING_AND_BIGGER_THEN_STORED_FRAGMENT)
             else (None, FRAGMENT_NOT_OVERLAPING_WITH_ANY_OTHER)
           else if unat p + unat n > ?S ?b + ?L ?b then (None, FRAGMENT_OVERLAPING_AND_BIGGER_THEN_STORED_FRAGMENT)
           else if unat p + unat n < ?S ?b + ?L ?b then (Some (fst (m ! ?b)), FRAGMENT_WITHIN_STORED_FRAGMENT)
           else (Some (fst (m ! ?b)), FRAGMENT_WITH_EXACT_SIZE_AS_STORED_FRAGMENT)
         else (None, FRAGMENT_NOT_OVERLAPING_WITH_ANY_OTHER))"
        using b l el lt lower_bound_props(1) [of p m]
        by (auto simp: getFragmentAndCheckForOverlaps_def Let_def words)
      show ?thesis
      proof (cases "?b < length m")
        case True
        then have "unat p \<le> ?S ?b" using lower_bound_above [OF wf order_refl] by blast
        then show ?thesis
          using False True none bigger_next sz frag_okD(2) [OF wf True]
          unfolding skip by (auto simp: frag_range_def
            intro!: classified_exact [of ?b] classified_within [of ?b m _ "unat p + unat n"] classified_bigger [of ?b m "unat p" _ "unat p + ?L ?b"])
      next
        case False
        then show ?thesis
          using none \<open>\<not> unat p < _\<close> lower_bound_props(1) [of p m] unfolding skip by auto
      qed
    qed
  qed
qed

section \<open>Reference counts\<close>

definition holders :: "u64 multiset \<Rightarrow> u64 \<times> FragmentStorage \<Rightarrow> nat" where
  "holders held e = size {#p \<in># held. unat p \<in> frag_range e#}"

definition refs_inv :: "HostPtrFragmentsContainer \<Rightarrow> u64 multiset \<Rightarrow> bool" where
  "refs_inv m held \<longleftrightarrow> frags_wf m \<and>
     (\<forall>e \<in> set m. fs_refCount (snd e) = int (holders held e) \<and> 0 < holders held e) \<and>
     (\<forall>p. p \<in># held \<longrightarrow> (\<exists>e \<in> set m. unat p \<in> frag_range e))"

definition store_ok :: "FragmentStorage \<Rightarrow> HostPtrFragmentsContainer \<Rightarrow> bool" where
  "store_ok f m \<longleftrightarrow> fs_refCount f = 0 \<and> frag_ok (fs_fragmentCpuPointer f, f) \<and>
     ((\<exists>e \<in> set m. unat (fs_fragmentCpuPointer f) \<in> frag_range e) \<or>
      (\<forall>e \<in> set m. frag_range (fs_fragmentCpuPointer f, f) \<inter> frag_range e = {}))"

inductive hp_run :: "HostPtrFragmentsContainer \<Rightarrow> u64 multiset \<Rightarrow> bool" where
  start: "hp_run [] {#}"
| stored: "hp_run m held \<Longrightarrow> store_ok f m \<Longrightarrow>
     hp_run (storeFragment f m) (add_mset (fs_fragmentCpuPointer f) held)"
| released: "hp_run m held \<Longrightarrow> p \<in># held \<Longrightarrow> releaseHostPtr p m = Inr (b, m') \<Longrightarrow>
     hp_run m' (held - {#p#})"

lemma frag_range_ref [simp]:
  "frag_range (k, f\<lparr>fs_refCount := r\<rparr>) = frag_range (k, f)"
  "frag_ok (k, f\<lparr>fs_refCount := r\<rparr>) = frag_ok (k, f)"
  by (simp_all add: frag_range_def frag_ok_def)

lemma length_add_ref [simp]: "length (add_ref i d m) = length m"
  by (simp add: add_ref_def)

lemma nth_add_ref:
  "j < length m \<Longrightarrow> add_ref i d m ! j =
     (if j = i then (fst (m ! i), (snd (m ! i))\<lparr>fs_refCount := fs_refCount (snd (m ! i)) + d\<rparr>) else m ! j)"
  by (simp add: add_ref_def nth_list_update)

lemma add_ref_same [simp]:
  "j < length m \<Longrightarrow> frag_range (add_ref i d m ! j) = frag_range (m ! j)"
  "j < length m \<Longrightarrow> frag_ok (add_ref i d m ! j) = frag_ok (m ! j)"
  "j < length m \<Longrightarrow> fst (add_ref i d m ! j) = fst (m ! j)"
  "j < length m \<Longrightarrow> fs_fragmentSize (snd (add_ref i d m ! j)) = fs_fragmentSize (snd (m ! j))"
  by (auto simp: nth_add_ref)

lemma add_ref_cover [simp]:
  "(\<exists>j < length m. x \<in> frag_range (add_ref i d m ! j)) \<longleftrightarrow> (\<exists>j < length m. x \<in> frag_range (m ! j))"
  by auto

lemma frags_wf_nth:
  "frags_wf m \<longleftrightarrow> (\<forall>j < length m. frag_ok (m ! j)) \<and>
     (\<forall>i j. i < j \<longrightarrow> j < length m \<longrightarrow> unat (fst (m ! i)) + unat (fs_fragmentSize (snd (m ! i))) \<le> unat (fst (m ! j)))"
  by (simp add: frags_wf_def sorted_wrt_iff_nth_less all_set_conv_all_nth)

lemma add_ref_wf [simp]: "frags_wf (add_ref i d m) = frags_wf m"
  by (auto simp: frags_wf_nth)

lemma refs_inv_nth:
  "refs_inv m held \<longleftrightarrow> frags_wf m \<and>
     (\<forall>j < length m. fs_refCount (snd (m ! j)) = int (holders held (m ! j)) \<and> 0 < holders held (m ! j)) \<and>
     (\<forall>p. p \<in># held \<longrightarrow> (\<exists>j < length m. unat p \<in> frag_range (m ! j)))"
  by (auto simp: refs_inv_def all_set_conv_all_nth) (metis in_set_conv_nth nth_mem)+

lemma holders_add [simp]:
  "holders (add_mset p held) e = holders held e + (if unat p \<in> frag_range e then 1 else 0)"
  by (simp add: holders_def)

lemma holders_range: "frag_range e = frag_range e' \<Longrightarrow> holders held e = holders held e'"
  by (simp add: holders_def)

lemma holders_add_ref [simp]: "j < length m \<Longrightarrow> holders held (add_ref i d m ! j) = holders held (m ! j)"
  by (intro holders_range) simp

lemma fs_refCount_add_ref [simp]:
  "j < length m \<Longrightarrow> fs_refCount (snd (add_ref i d m ! j)) = fs_refCount (snd (m ! j)) + (if j = i then d else 0)"
  by (simp add: nth_add_ref)

lemma store_found_inv:
  assumes inv: "refs_inv m held" and i: "i < length m" and p: "unat p \<in> frag_range (m ! i)"
  shows "refs_inv (add_ref i 1 m) (add_mset p held)"
proof -
  have wf: "frags_wf m" using inv by (simp add: refs_inv_nth)
  have "unat p \<notin> frag_range (m ! j)" if "j < length m" "j \<noteq> i" for j
    using frag_disjoint [OF wf i that(1) p] that(2) by auto
  then show ?thesis
    using inv i p by (auto simp: refs_inv_nth)
qed

lemma map_insert_set:
  assumes "lower_bound k m < length m \<Longrightarrow> fst (m ! lower_bound k m) \<noteq> k"
  shows "set (map_insert k f m) = insert (k, f) (set m)"
proof -
  have "set (take (lower_bound k m) m) \<union> set (drop (lower_bound k m) m) = set m"
    by (metis append_take_drop_id set_append)
  then show ?thesis using assms by (auto simp: map_insert_def Let_def)
qed

lemma map_insert_wf:
  assumes wf: "frags_wf m" and ok: "frag_ok (k, f)" and dis: "\<forall>e \<in> set m. frag_range (k, f) \<inter> frag_range e = {}"
  shows "frags_wf (map_insert k f m) \<and> set (map_insert k f m) = insert (k, f) (set m)"
proof -
  let ?b = "lower_bound k m"
  have kin: "unat k \<in> frag_range (k, f)" using ok by (auto simp: frag_ok_def frag_range_def)
  have sep: "unat k + unat (fs_fragmentSize f) \<le> unat (fst e) \<or>
      unat (fst e) + unat (fs_fragmentSize (snd e)) \<le> unat k" if "e \<in> set m" for e
  proof (rule ccontr)
    assume "\<not> ?thesis"
    moreover have "0 < unat (fs_fragmentSize (snd e))" "0 < unat (fs_fragmentSize f)"
      using wf ok that by (auto simp: frags_wf_def frag_ok_def)
    ultimately have "max (unat k) (unat (fst e)) \<in> frag_range (k, f) \<inter> frag_range e"
      by (auto simp: frag_range_def)
    then show False using dis that by blast
  qed
  have ne: "fst (m ! ?b) \<noteq> k" if "?b < length m"
    using sep [OF nth_mem [OF that]] frag_okD(2) [OF wf that] ok by (auto simp: frag_ok_def)
  have eq: "map_insert k f m = take ?b m @ (k, f) # drop ?b m"
    using ne by (auto simp: map_insert_def Let_def)
  have lo: "unat (fst e) + unat (fs_fragmentSize (snd e)) \<le> unat k" if "e \<in> set (take ?b m)" for e
  proof -
    obtain j where "j < ?b" "e = m ! j" using \<open>e \<in> _\<close> by (auto simp: in_set_conv_nth)
    then show ?thesis
      using sep [of e] lower_bound_props(2) [of j k m] in_set_takeD [OF that] ok
      by (auto simp: word_less_nat_alt frag_ok_def)
  qed
  have hi: "unat k + unat (fs_fragmentSize f) \<le> unat (fst e)" if e: "e \<in> set (drop ?b m)" for e
  proof -
    obtain j where "j < length (drop ?b m)" "drop ?b m ! j = e"
      using e by (auto simp only: in_set_conv_nth)
    then have "j < length m - ?b" "e = m ! (?b + j)"
      using lower_bound_props(1) [of k m] by simp_all
    then have "unat k \<le> unat (fst e)" using lower_bound_above [OF wf, of k "?b + j"] by simp
    moreover have "0 < unat (fs_fragmentSize (snd e))"
      using wf in_set_dropD [OF that] by (auto simp: frags_wf_def frag_ok_def)
    ultimately show ?thesis using sep [OF in_set_dropD [OF that]] by linarith
  qed
  have sorted: "sorted_wrt (\<lambda>a b. unat (fst a) + unat (fs_fragmentSize (snd a)) \<le> unat (fst b)) (take ?b m @ drop ?b m)"
    using wf by (simp add: frags_wf_def)
  show ?thesis
    using sorted lo hi wf ok map_insert_set [OF ne, of f]
    unfolding frags_wf_def eq sorted_wrt_append by auto
qed

lemma store_new_inv:
  assumes inv: "refs_inv m held" and ok: "store_ok f m" and none: "\<forall>e \<in> set m. unat (fs_fragmentCpuPointer f) \<notin> frag_range e"
  shows "refs_inv (map_insert (fs_fragmentCpuPointer f) (f\<lparr>fs_refCount := fs_refCount f + 1\<rparr>) m)
           (add_mset (fs_fragmentCpuPointer f) held)"
proof -
  let ?k = "fs_fragmentCpuPointer f" and ?f = "f\<lparr>fs_refCount := fs_refCount f + 1\<rparr>"
  have dis: "\<forall>e \<in> set m. frag_range (?k, f) \<inter> frag_range e = {}" and fok: "frag_ok (?k, f)" and r: "fs_refCount f = 0"
    using ok none by (auto simp: store_ok_def)
  have wf: "frags_wf (map_insert ?k ?f m)" and set: "set (map_insert ?k ?f m) = insert (?k, ?f) (set m)"
    using map_insert_wf [of m ?k ?f] inv dis fok by (auto simp: refs_inv_def)
  have "unat q \<notin> frag_range (?k, f)" if "q \<in># held" for q
    using inv that dis by (fastforce simp: refs_inv_def)
  then have "{#q \<in># held. unat q \<in> frag_range (?k, f)#} = {#}"
    by (simp add: filter_mset_eq_conv)
  then have h0: "holders held (?k, f) = 0" by (simp add: holders_def)
  have kin: "unat ?k \<in> frag_range (?k, f)" using fok by (auto simp: frag_ok_def frag_range_def)
  have hf: "holders held (?k, ?f) = 0" using h0 by (simp add: holders_def)
  show ?thesis
    using inv wf none hf kin r unfolding refs_inv_def set by auto
qed

lemma storeFragment_inv:
  assumes inv: "refs_inv m held" and ok: "store_ok f m"
  shows "refs_inv (storeFragment f m) (add_mset (fs_fragmentCpuPointer f) held)"
proof (cases "\<exists>i < length m. unat (fs_fragmentCpuPointer f) \<in> frag_range (m ! i)")
  case True
  then obtain i where i: "i < length m" "unat (fs_fragmentCpuPointer f) \<in> frag_range (m ! i)" by blast
  then have "findElement (fs_fragmentCpuPointer f) m = i"
    using findElement_found inv by (auto simp: refs_inv_def)
  then show ?thesis
    using store_found_inv [OF inv i] i by (simp add: storeFragment_def Let_def)
next
  case False
  then have none: "\<forall>e \<in> set m. unat (fs_fragmentCpuPointer f) \<notin> frag_range e"
    by (metis in_set_conv_nth)
  then have "findElement (fs_fragmentCpuPointer f) m = length m"
    using findElement_end inv by (auto simp: refs_inv_def)
  then show ?thesis
    using store_new_inv [OF inv ok none] by (simp add: storeFragment_def Let_def)
qed


lemma map_erase_wf:
  assumes wf: "frags_wf m" and i: "i < length m"
  shows "frags_wf (map_erase i m)" and "e \<in> set (map_erase i m) \<longleftrightarrow> e \<in> set m \<and> e \<noteq> m ! i"
proof -
  have sp: "m = take i m @ m ! i # drop (Suc i) m" using i by (rule id_take_nth_drop)
  have "sorted_wrt (\<lambda>a b. unat (fst a) + unat (fs_fragmentSize (snd a)) \<le> unat (fst b)) (take i m @ m ! i # drop (Suc i) m)"
    using wf sp by (simp add: frags_wf_def)
  then show "frags_wf (map_erase i m)"
    using wf unfolding frags_wf_def map_erase_def sorted_wrt_append by (auto dest: in_set_takeD in_set_dropD)
  have "distinct m"
    unfolding distinct_conv_nth
    using frag_disjoint [OF wf] frag_okD(2) [OF wf] by (fastforce simp: frag_range_def)
  then have "distinct (take i m @ m ! i # drop (Suc i) m)" using sp by simp
  moreover have "e \<in> set m \<longleftrightarrow> e \<in> set (take i m @ m ! i # drop (Suc i) m)" using sp by simp
  ultimately show "e \<in> set (map_erase i m) \<longleftrightarrow> e \<in> set m \<and> e \<noteq> m ! i"
    unfolding map_erase_def by auto
qed

lemma holders_remove:
  assumes "p \<in># held"
  shows "holders (held - {#p#}) e = holders held e - (if unat p \<in> frag_range e then 1 else 0)"
    and "unat p \<in> frag_range e \<Longrightarrow> 0 < holders held e"
proof -
  obtain h where h: "held = add_mset p h" using assms by (metis insert_DiffM)
  show "holders (held - {#p#}) e = holders held e - (if unat p \<in> frag_range e then 1 else 0)"
    by (simp add: h)
  show "unat p \<in> frag_range e \<Longrightarrow> 0 < holders held e" by (simp add: h)
qed

lemma holders_zero: "holders held e = 0 \<longleftrightarrow> (\<forall>q. q \<in># held \<longrightarrow> unat q \<notin> frag_range e)"
  by (auto simp: holders_def filter_mset_eq_conv)

lemma release_step:
  assumes inv: "refs_inv m held" and p: "p \<in># held" and i: "i < length m" "unat p \<in> frag_range (m ! i)"
  shows "releaseHostPtr p m =
    (if holders held (m ! i) = 1 then Inr (True, map_erase i (add_ref i (- 1) m)) else Inr (False, add_ref i (- 1) m))"
proof -
  have "findElement p m = i" using findElement_found inv i by (auto simp: refs_inv_def)
  moreover have "fs_refCount (snd (m ! i)) = int (holders held (m ! i))" "0 < holders held (m ! i)"
    using inv i by (auto simp: refs_inv_nth)
  ultimately show ?thesis using i by (auto simp: releaseHostPtr_def Let_def)
qed

lemma releaseHostPtr_inv:
  assumes inv: "refs_inv m held" and p: "p \<in># held" and r: "releaseHostPtr p m = Inr (b, m')"
  shows "refs_inv m' (held - {#p#})"
proof -
  obtain i where i: "i < length m" "unat p \<in> frag_range (m ! i)"
    using inv p by (auto simp: refs_inv_nth)
  have wf: "frags_wf m" using inv by (simp add: refs_inv_nth)
  have other: "unat p \<notin> frag_range (m ! j)" if "j < length m" "j \<noteq> i" for j
    using frag_disjoint [OF wf i(1) that(1) i(2)] that(2) by auto
  have cnt: "\<forall>j < length m. fs_refCount (snd (m ! j)) = int (holders held (m ! j)) \<and> 0 < holders held (m ! j)"
    using inv by (simp add: refs_inv_nth)
  have cover: "\<exists>j < length m. unat q \<in> frag_range (m ! j)" if "q \<in># held - {#p#}" for q
    using inv in_diffD [OF that] by (simp add: refs_inv_nth)
  have wf': "frags_wf (add_ref i (- 1) m)" using wf by simp
  let ?h = "held - {#p#}"
  have h: "holders ?h (m ! j) = holders held (m ! j) - (if j = i then 1 else 0)" if "j < length m" for j
    using holders_remove(1) [OF p, of "m ! j"] i other [OF that] by auto
  show ?thesis
  proof (cases "holders held (m ! i) = 1")
    case False
    then have m': "m' = add_ref i (- 1) m" using r release_step [OF inv p i] by simp
    have "\<forall>j < length m. fs_refCount (snd (add_ref i (- 1) m ! j)) = int (holders ?h (add_ref i (- 1) m ! j)) \<and>
        0 < holders ?h (add_ref i (- 1) m ! j)"
      using cnt h False i(1) by auto
    then show ?thesis
      unfolding refs_inv_nth m' using wf cover by simp
  next
    case True
    let ?m = "add_ref i (- 1) m"
    have m': "m' = map_erase i ?m" using True r release_step [OF inv p i] by simp
    have li: "i < length ?m" using i by simp
    have setm: "e \<in> set m' \<longleftrightarrow> (\<exists>j < length m. j \<noteq> i \<and> e = m ! j)" for e
    proof -
      have "e \<in> set m' \<longleftrightarrow> e \<in> set ?m \<and> e \<noteq> ?m ! i"
        unfolding m' by (rule map_erase_wf(2) [OF wf' li])
      also have "\<dots> \<longleftrightarrow> (\<exists>j < length m. e = ?m ! j \<and> ?m ! j \<noteq> ?m ! i)"
        by (auto simp: in_set_conv_nth)
      also have "\<dots> \<longleftrightarrow> (\<exists>j < length m. j \<noteq> i \<and> e = m ! j)"
      proof -
        have "?m ! j \<noteq> ?m ! i" if "j < length m" "j \<noteq> i" for j
          using other [OF that] i add_ref_same(1) [of j m i "- 1"] add_ref_same(1) [of i m i "- 1"] that by metis
        then show ?thesis by (auto simp: nth_add_ref)
      qed
      finally show ?thesis .
    qed
    have "holders ?h (m ! i) = 0" using h [OF i(1)] True by simp
    then have "unat q \<notin> frag_range (m ! i)" if "q \<in># ?h" for q
      using holders_remove(2) [OF that, of "m ! i"] by auto
    then have "\<exists>e \<in> set m'. unat q \<in> frag_range e" if "q \<in># ?h" for q
      using cover [OF that] that setm by metis
    moreover have "frags_wf m'" unfolding m' by (rule map_erase_wf(1) [OF wf' li])
    moreover have "\<forall>e \<in> set m'. fs_refCount (snd e) = int (holders ?h e) \<and> 0 < holders ?h e"
    proof
      fix e assume "e \<in> set m'"
      then obtain j where "j < length m" "j \<noteq> i" "e = m ! j" using setm by blast
      then show "fs_refCount (snd e) = int (holders ?h e) \<and> 0 < holders ?h e" using cnt h by simp
    qed
    ultimately show ?thesis
      unfolding refs_inv_def by blast
  qed
qed

lemma hp_run_inv: "hp_run m held \<Longrightarrow> refs_inv m held"
proof (induction rule: hp_run.induct)
  case start
  show ?case by (simp add: refs_inv_def frags_wf_def)
qed (auto intro: storeFragment_inv releaseHostPtr_inv)

section \<open>Properties\<close>

text \<open>For every host pointer range that does not reach the last page of the address space,
  the fragments \<^verbatim>\<open>getAllocationRequirements\<close> asks for are whole pages, lie one after the other from
  the page of the first byte to the end of the page of the last one without gap or overlap, fit
  the array of three, and add up to the total size reported.\<close>

theorem requirements_tile_pages:
  assumes "unat p + unat s + 4096 \<le> 2 ^ 64"
  shows "tiles (unat p div 4096 * 4096)
           (take (ar_requiredFragmentsCount (getAllocationRequirements p s))
              (ar_AllocationFragments (getAllocationRequirements p s)))
           ((unat p + unat s + 4095) div 4096 * 4096) \<and>
         ar_requiredFragmentsCount (getAllocationRequirements p s) \<le> maxFragmentsCount \<and>
         unat p div 4096 * 4096 + unat (ar_totalRequiredSize (getAllocationRequirements p s)) =
           (unat p + unat s + 4095) div 4096 * 4096"
  using requirements_tile [OF assms] by simp

theorem requirements_tile_pages_witness:
  "unat (0x1800 :: u64) + unat (0x3000 :: u64) + 4096 \<le> 2 ^ 64 \<and>
   tiles 0x1000 (take (ar_requiredFragmentsCount (getAllocationRequirements 0x1800 0x3000))
                   (ar_AllocationFragments (getAllocationRequirements 0x1800 0x3000))) 0x5000"
  using requirements_tile_pages [of "0x1800" "0x3000"] by simp

text \<open>On a well-formed fragment map the overlap check tells the truth: no overlap means the
  range meets no stored fragment, within and exact name a stored fragment that strictly contains
  or equals the range, and the last status means that some stored fragment meets the range
  without containing it.\<close>

theorem overlap_check_correct:
  assumes "frags_wf m" and "0 < unat n" and "unat p + unat n < 2 ^ 64"
  shows "classified {unat p..<unat p + unat n} m (getFragmentAndCheckForOverlaps p n m)"
  using assms by (rule overlap_classified)

definition frag :: "u64 \<Rightarrow> u64 \<Rightarrow> u64 \<times> FragmentStorage" where
  "frag p n = (p, \<lparr>fs_fragmentCpuPointer = p, fs_fragmentSize = n, fs_refCount = 1, fs_osInternalStorage = 0x10,
     fs_residency = 0x20, fs_driverAllocation = False\<rparr>)"

theorem overlap_check_correct_witness:
  "classified {0x1000..<0x3000} [frag 0x1000 0x1000, frag 0x4000 0x2000]
     (None, FRAGMENT_OVERLAPING_AND_BIGGER_THEN_STORED_FRAGMENT)"
proof -
  have "frags_wf [frag 0x1000 0x1000, frag 0x4000 0x2000]"
    by (simp add: frags_wf_def frag_ok_def frag_def)
  from overlap_check_correct [OF this, of "0x2000" "0x1000"] show ?thesis
    by (simp add: getFragmentAndCheckForOverlaps_def lower_bound_def frag_def Let_def)
qed

lemma release_reports:
  assumes inv: "refs_inv m held" and p: "p \<in># held"
  obtains e m' b where "e \<in> set m" "unat p \<in> frag_range e" "releaseHostPtr p m = Inr (b, m')"
    "b \<longleftrightarrow> (\<forall>q. q \<in># held - {#p#} \<longrightarrow> unat q \<notin> frag_range e)"
proof -
  obtain i where i: "i < length m" "unat p \<in> frag_range (m ! i)"
    using inv p by (auto simp: refs_inv_nth)
  have "holders (held - {#p#}) (m ! i) = holders held (m ! i) - 1" "0 < holders held (m ! i)"
    using holders_remove [OF p, of "m ! i"] i by simp_all
  then have "holders held (m ! i) = 1 \<longleftrightarrow> (\<forall>q. q \<in># held - {#p#} \<longrightarrow> unat q \<notin> frag_range (m ! i))"
    unfolding holders_zero [symmetric] by linarith
  with release_step [OF inv p i] obtain b m' where "releaseHostPtr p m = Inr (b, m')"
      "b \<longleftrightarrow> (\<forall>q. q \<in># held - {#p#} \<longrightarrow> unat q \<notin> frag_range (m ! i))"
    by (cases "holders held (m ! i) = 1") auto
  with i that nth_mem show thesis by blast
qed

text \<open>Claim C2. After any sequence of stored fragments, each of which starts inside a stored fragment
  or is disjoint from all of them, and of releases of pointers still held, the map holds non-empty
  fragments each of which ends before the next begins, the reference count of every one of them is the number of pointers held
  in it and positive, and every held pointer lies in one of them. Releasing a held pointer never faults, leads to a map of which all this
  holds again, and reports that the fragment can be freed exactly when no other held pointer lies in it.\<close>

theorem host_ptr_refcounts_exact:
  assumes "hp_run m held"
  shows "sorted_wrt (\<lambda>a b. unat (fst a) + unat (fs_fragmentSize (snd a)) \<le> unat (fst b)) m \<and>
    (\<forall>e \<in> set m. 0 < unat (fs_fragmentSize (snd e))) \<and>
    (\<forall>e \<in> set m. fs_refCount (snd e) = int (holders held e) \<and> 0 < holders held e) \<and>
    (\<forall>p \<in># held. \<exists>e m' b. e \<in> set m \<and> unat p \<in> frag_range e \<and>
       releaseHostPtr p m = Inr (b, m') \<and> hp_run m' (held - {#p#}) \<and>
       (b \<longleftrightarrow> (\<forall>q. q \<in># held - {#p#} \<longrightarrow> unat q \<notin> frag_range e)))"
proof -
  have inv: "refs_inv m held" using assms by (rule hp_run_inv)
  then have wf: "frags_wf m" by (simp add: refs_inv_def)
  have "\<exists>e m' b. e \<in> set m \<and> unat p \<in> frag_range e \<and> releaseHostPtr p m = Inr (b, m') \<and> hp_run m' (held - {#p#}) \<and>
      (b \<longleftrightarrow> (\<forall>q. q \<in># held - {#p#} \<longrightarrow> unat q \<notin> frag_range e))" if p: "p \<in># held" for p
  proof -
    obtain e m' b where r: "e \<in> set m" "unat p \<in> frag_range e" "releaseHostPtr p m = Inr (b, m')"
      "b \<longleftrightarrow> (\<forall>q. q \<in># held - {#p#} \<longrightarrow> unat q \<notin> frag_range e)"
      by (rule release_reports [OF inv p])
    with hp_run.released [OF assms p r(3)] show ?thesis by (intro exI conjI)
  qed
  moreover have "sorted_wrt (\<lambda>a b. unat (fst a) + unat (fs_fragmentSize (snd a)) \<le> unat (fst b)) m"
    "\<forall>e \<in> set m. 0 < unat (fs_fragmentSize (snd e))"
    using wf by (auto simp: frags_wf_def frag_ok_def)
  ultimately show ?thesis using inv unfolding refs_inv_def by blast
qed

theorem host_ptr_refcounts_exact_witness:
  "\<exists>m' b. (\<forall>e \<in> set (storeFragment (snd (frag 0x1000 0x1000)\<lparr>fs_refCount := 0\<rparr>) []). fs_refCount (snd e) = int (holders {#0x1000#} e)) \<and>
     releaseHostPtr 0x1000 (storeFragment (snd (frag 0x1000 0x1000)\<lparr>fs_refCount := 0\<rparr>) []) = Inr (b, m') \<and> b"
proof -
  let ?f = "snd (frag 0x1000 0x1000)\<lparr>fs_refCount := 0\<rparr>"
  have "hp_run (storeFragment ?f []) (add_mset (fs_fragmentCpuPointer ?f) {#})"
    by (intro hp_run.stored hp_run.start) (simp add: store_ok_def frag_ok_def frag_def)
  then have "hp_run (storeFragment ?f []) {#0x1000#}" by (simp add: frag_def)
  from host_ptr_refcounts_exact [OF this] show ?thesis by auto
qed

definition stale_allocation :: GraphicsAllocation where
  "stale_allocation = (GraphicsAllocation_ctor AT_EXTERNAL_HOST_PTR 0x1800 0x1800 0 0x1800 False)
     \<lparr>ga_usageInfos := (\<lambda>_. UsageInfo_init)(0 := UsageInfo_init\<lparr>ui_taskCount := 1\<rparr>), ga_registeredContextsNum := 1,
      ga_fragmentsStorage := \<lparr>hs_fragmentStorageData =
        [AllocationStorageData_init\<lparr>sd_osHandleStorage := 0x10, sd_cpuPtr := 0x1000, sd_fragmentSize := 0x1000\<rparr>,
         AllocationStorageData_init\<lparr>sd_osHandleStorage := 0x10, sd_cpuPtr := 0x2000, sd_fragmentSize := 0x1000\<rparr>,
         AllocationStorageData_init], hs_fragmentCount = 2\<rparr>\<rparr>"

lemmas host_ptr_eval = prepareOsStorageForAllocation_def checkAllocationsForOverlapping_def checkFragment_def
  getFragmentAndCheckForOverlaps_def lower_bound_def cleanTemporary_def cleanAllocationList_def
  freeAllocationsList_def freeGraphicsMemory_def releaseHandleStorage_def releaseHostPtr_def findElement_def
  storedEnd_def add_ref_def map_erase_def deref_def populateAlreadyAllocatedFragments_def Let_def

lemma stale_requirements:
  "getAllocationRequirements 0x1800 0x3000 =
     \<lparr>ar_AllocationFragments =
        [\<lparr>pa_fragmentPosition = FP_LEADING, pa_allocationPtr = 0x1000, pa_allocationSize = 0x1000\<rparr>,
         \<lparr>pa_fragmentPosition = FP_MIDDLE, pa_allocationPtr = 0x2000, pa_allocationSize = 0x2000\<rparr>,
         \<lparr>pa_fragmentPosition = FP_TRAILING, pa_allocationPtr = 0x4000, pa_allocationSize = 0x1000\<rparr>],
      ar_totalRequiredSize = 0x4000, ar_requiredFragmentsCount = 3\<rparr>"
  by (simp add: getAllocationRequirements_def alignSizeWholePage_def alignDown_def alignUp_def ptrOffset_def
      memory_constants maxFragmentsCount_def numeral_3_eq_3 Let_def PartialAllocation_init_def)

text \<open>The check keeps pointers into the fragment map across a clean that erases elements:
  with one completed temporary allocation of 0x1800 bytes at 0x1800, preparing 0x3000 bytes at the
  same address first matches the leading page, then cleans the temporary allocation because the
  middle part is larger than the stored one, and finally uses the erased leading fragment.\<close>

theorem prepare_uses_erased_fragment:
  "prepareOsStorageForAllocation newOsHandle newResidency \<lparr>csr_contextId = 0, csr_taskCount = 1, csr_tag = 1\<rparr> 1
     0x3000 0x1800 ([frag 0x1000 0x1000, frag 0x2000 0x1000],
       \<lparr>ias_temporaryAllocations = [stale_allocation], ias_allocationsForReuse = []\<rparr>) = Inl UseAfterFree"
  unfolding prepareOsStorageForAllocation_def stale_requirements
  by (simp add: host_ptr_eval stale_allocation_def frag_def GraphicsAllocation_ctor_def getTaskCount_def
      UsageInfo_init_def AllocationStorageData_init_def dummyAddress_def maxFragmentsCount_def)

end
