(* ===== verification/Basic_Math.thy ===== *)
theory Basic_Math
  imports Runtime_Prelude
begin

text \<open>
  The integer helpers of \<^verbatim>\<open>helpers/basic_math.h\<close> on machine words: powers of two by bit smearing,
  the lowest set bit by a de Bruijn multiplication, the binary logarithm, divisibility by a power
  of two by masking. The floating point conversion is not modelled.
\<close>

unbundle bit_operations_syntax

definition nextPowerOfTwo32 :: "u32 \<Rightarrow> u32" where
  "nextPowerOfTwo32 val =
     (let v = val - 1; v = v OR drop_bit 1 v; v = v OR drop_bit 2 v; v = v OR drop_bit 4 v;
          v = v OR drop_bit 8 v; v = v OR drop_bit 16 v in v + 1)"

definition nextPowerOfTwo64 :: "u64 \<Rightarrow> u64" where
  "nextPowerOfTwo64 val =
     (let v = val - 1; v = v OR drop_bit 1 v; v = v OR drop_bit 2 v; v = v OR drop_bit 4 v;
          v = v OR drop_bit 8 v; v = v OR drop_bit 16 v; v = v OR drop_bit 32 v in v + 1)"

definition prevPowerOfTwo32 :: "u32 \<Rightarrow> u32" where
  "prevPowerOfTwo32 val =
     (let v = val OR drop_bit 1 val; v = v OR drop_bit 2 v; v = v OR drop_bit 4 v;
          v = v OR drop_bit 8 v; v = v OR drop_bit 16 v in v - drop_bit 1 v)"

definition prevPowerOfTwo64 :: "u64 \<Rightarrow> u64" where
  "prevPowerOfTwo64 val =
     (let v = val OR drop_bit 1 val; v = v OR drop_bit 2 v; v = v OR drop_bit 4 v;
          v = v OR drop_bit 8 v; v = v OR drop_bit 16 v; v = v OR drop_bit 32 v in v - drop_bit 1 v)"

definition multiplyDeBruijnBitPosition :: "nat list" where
  "multiplyDeBruijnBitPosition =
     [0, 1, 28, 2, 29, 14, 24, 3, 30, 22, 20, 15, 25, 17, 4, 8,
      31, 27, 13, 23, 21, 19, 16, 7, 26, 12, 18, 6, 11, 5, 10, 9]"

definition getMinLsbSet :: "u32 \<Rightarrow> nat" where
  "getMinLsbSet val =
     (let isolated = val AND - val
      in multiplyDeBruijnBitPosition ! unat (drop_bit 27 (isolated * 0x077CB531)))"

fun log2Loop :: "nat \<Rightarrow> nat \<Rightarrow> nat \<Rightarrow> nat" where
  "log2Loop width startVal exponent =
     (if startVal \<noteq> 0 \<and> exponent < width then log2Loop width (startVal div 2) (exponent + 1) else exponent)"

declare log2Loop.simps [simp del]

definition log2_32 :: "u32 \<Rightarrow> nat" where
  "log2_32 val = (if val = 0 then 32 else log2Loop 32 (unat (drop_bit 1 val)) 0)"

definition log2_64 :: "u64 \<Rightarrow> nat" where
  "log2_64 val = (if val = 0 then 64 else log2Loop 64 (unat (drop_bit 1 val)) 0)"

definition isDivisableByPowerOfTwoDivisor :: "u32 \<Rightarrow> u32 \<Rightarrow> bool" where
  "isDivisableByPowerOfTwoDivisor number divisor =
     (let m = 0xFFFFFFFF - (divisor - 1) in (number AND m) = number)"

definition computeTotalElementsCount :: "u64 \<times> u64 \<times> u64 \<Rightarrow> u64" where
  "computeTotalElementsCount = (\<lambda>(x, y, z). max 1 x * max 1 y * max 1 z)"

definition isPow2 :: "u64 \<Rightarrow> bool" where
  "isPow2 val = (val \<noteq> 0 \<and> (val AND (val - 1)) = 0)"

function ffsLoop :: "u64 \<Rightarrow> nat \<Rightarrow> nat option" where
  "ffsLoop v i = (if i < 64 then if v AND push_bit i 1 \<noteq> 0 then Some i else ffsLoop v (i + 1) else None)"
  by pat_completeness auto

termination ffsLoop by (relation "measure (\<lambda>(v, i). 64 - i)") auto

declare ffsLoop.simps [simp del]

text \<open>\<open>None\<close> is the call to \<^verbatim>\<open>std::abort\<close> after the loop.\<close>

definition ffs :: "u64 \<Rightarrow> u64 option" where
  "ffs v = (if v = 0 then Some (- 1) else map_option of_nat (ffsLoop v 0))"

section \<open>Bit smearing\<close>

definition smeared :: "nat \<Rightarrow> 'a :: len word \<Rightarrow> 'a word \<Rightarrow> bool" where
  "smeared s x v \<longleftrightarrow> (\<forall>i. bit v i \<longleftrightarrow> (\<exists>j. i \<le> j \<and> j < i + s \<and> bit x j))"

lemma smeared_start: "smeared 1 x x"
proof -
  have "i \<le> j \<and> j < i + 1 \<longleftrightarrow> j = i" for i j :: nat by auto
  then have "i \<le> j \<and> j < i + 1 \<and> bit x j \<longleftrightarrow> j = i \<and> bit x i" for i j by metis
  then show ?thesis by (simp add: smeared_def)
qed

lemma smeared_step:
  assumes "smeared s x v"
  shows "smeared (2 * s) x (v OR drop_bit s v)"
  unfolding smeared_def
proof
  fix i
  have "bit (v OR drop_bit s v) i \<longleftrightarrow> bit v i \<or> bit v (s + i)"
    by (simp add: bit_or_iff bit_drop_bit_eq)
  also have "\<dots> \<longleftrightarrow> (\<exists>j. i \<le> j \<and> j < i + 2 * s \<and> bit x j)"
  proof
    assume "bit v i \<or> bit v (s + i)"
    then obtain j where "i \<le> j \<and> j < i + s \<and> bit x j \<or> s + i \<le> j \<and> j < s + i + s \<and> bit x j"
      using assms unfolding smeared_def by blast
    then show "\<exists>j. i \<le> j \<and> j < i + 2 * s \<and> bit x j"
      by (intro exI [of _ j]) auto
  next
    assume "\<exists>j. i \<le> j \<and> j < i + 2 * s \<and> bit x j"
    then obtain j where j: "i \<le> j" "j < i + 2 * s" "bit x j" by blast
    show "bit v i \<or> bit v (s + i)"
    proof (cases "j < i + s")
      case True
      then show ?thesis using assms j by (auto simp: smeared_def)
    next
      case False
      then have "s + i \<le> j" "j < s + i + s" using j by auto
      then show ?thesis using assms j by (auto simp: smeared_def)
    qed
  qed
  finally show "bit (v OR drop_bit s v) i = (\<exists>j\<ge>i. j < i + 2 * s \<and> bit x j)" .
qed

lemma smeared_all:
  fixes x v :: "'a :: len word"
  assumes "smeared s x v" and "LENGTH('a) \<le> s" and "bit x n" and "\<forall>j. n < j \<longrightarrow> \<not> bit x j"
  shows "v = mask (Suc n)"
proof (rule bit_eqI)
  fix i assume "possible_bit TYPE('a word) i"
  then have "i < LENGTH('a)" by simp
  have n: "n < LENGTH('a)" using assms(3) by (simp add: bit_imp_le_length)
  have "(\<exists>j. i \<le> j \<and> j < i + s \<and> bit x j) \<longleftrightarrow> i \<le> n"
  proof
    assume "\<exists>j. i \<le> j \<and> j < i + s \<and> bit x j"
    then obtain j where "i \<le> j" "bit x j" by blast
    then show "i \<le> n" using assms(4) by (meson le_trans linorder_not_less)
  next
    assume "i \<le> n"
    then show "\<exists>j. i \<le> j \<and> j < i + s \<and> bit x j"
      using n assms(2,3) by (intro exI [of _ n]) auto
  qed
  then show "bit v i = bit (mask (Suc n) :: 'a word) i"
    using assms(1) \<open>i < LENGTH('a)\<close> by (simp add: smeared_def bit_mask_iff less_Suc_eq_le)
qed

lemma smeared_zero: "smeared s 0 v \<Longrightarrow> v = 0"
  by (rule bit_eqI) (auto simp: smeared_def)

lemma bit_iff_unat: "bit x j \<longleftrightarrow> odd (unat x div 2 ^ j)" for x :: "'a :: len word"
proof -
  have "bit x j \<longleftrightarrow> bit (unat x) j"
    by (simp add: bit_unsigned_iff bit_imp_le_length)
  then show ?thesis by (simp add: bit_iff_odd)
qed

lemma top_bit_exists:
  fixes x :: "'a :: len word"
  assumes "x \<noteq> 0"
  shows "\<exists>n. bit x n \<and> (\<forall>j. n < j \<longrightarrow> \<not> bit x j) \<and> 2 ^ n \<le> unat x \<and> unat x < 2 ^ Suc n"
proof -
  have "1 \<le> unat x" using assms by (metis less_one linorder_not_less unat_eq_zero)
  then obtain n where n: "2 ^ n \<le> unat x" "unat x < 2 ^ Suc n"
    using ex_power_ivl1 [of 2 "unat x"] by auto
  then have "unat x div 2 ^ n = 1"
    by (intro div_nat_eqI) auto
  then have "bit x n" by (simp add: bit_iff_unat)
  moreover have "\<not> bit x j" if "n < j" for j
  proof -
    have "unat x < 2 ^ j"
      using n(2) that by (metis Suc_leI less_le_trans one_le_numeral power_increasing)
    then show ?thesis by (simp add: bit_iff_unat)
  qed
  ultimately show ?thesis using n by blast
qed

lemma smear32:
  fixes x :: u32
  defines "v \<equiv> (let v = x OR drop_bit 1 x; v = v OR drop_bit 2 v; v = v OR drop_bit 4 v;
          v = v OR drop_bit 8 v in v OR drop_bit 16 v)"
  shows "smeared 32 x v"
  using smeared_step [OF smeared_step [OF smeared_step [OF smeared_step [OF smeared_step [OF smeared_start]]]], of x]
  by (simp add: v_def Let_def)

lemma smear64:
  fixes x :: u64
  defines "v \<equiv> (let v = x OR drop_bit 1 x; v = v OR drop_bit 2 v; v = v OR drop_bit 4 v;
          v = v OR drop_bit 8 v; v = v OR drop_bit 16 v in v OR drop_bit 32 v)"
  shows "smeared 64 x v"
  using smeared_step [OF smeared_step [OF smeared_step [OF smeared_step [OF smeared_step [OF smeared_step [OF smeared_start]]]]], of x]
  by (simp add: v_def Let_def)

lemma mask_next: "mask k + 1 = (2 ^ k :: 'a :: len word)"
  by (simp add: mask_eq_exp_minus_1)

lemma mask_half: "mask (Suc n) - drop_bit 1 (mask (Suc n) :: 'a :: len word) = 2 ^ n" if "n < LENGTH('a)"
proof -
  have "drop_bit 1 (mask (Suc n) :: 'a word) = mask n"
    by (rule bit_eqI) (use that in \<open>auto simp: bit_drop_bit_eq bit_mask_iff\<close>)
  then show ?thesis by (simp add: mask_eq_exp_minus_1)
qed

lemma next_of_pred:
  fixes x :: "'a :: len word"
  assumes "1 \<le> unat x" and "unat x \<le> 2 ^ (LENGTH('a) - 1)" and "smeared s (x - 1) v" and "LENGTH('a) \<le> s"
  shows "\<exists>k. unat (v + 1) = 2 ^ k \<and> unat x \<le> 2 ^ k \<and> 2 ^ k < 2 * unat x"
proof -
  have pred: "unat (x - 1) = unat x - 1"
    using assms(1) by (simp add: unat_sub_le word_le_nat_alt)
  show ?thesis
  proof (cases "x - 1 = 0")
    case True
    then have "unat x = 1" using pred assms(1) by simp
    moreover have "v = 0" using smeared_zero assms(3) True by simp
    ultimately show ?thesis by (intro exI [of _ 0]) simp
  next
    case False
    obtain n where n: "bit (x - 1) n" "\<forall>j. n < j \<longrightarrow> \<not> bit (x - 1) j" "2 ^ n \<le> unat (x - 1)" "unat (x - 1) < 2 ^ Suc n"
      using top_bit_exists [OF False] by blast
    have v: "v + 1 = 2 ^ Suc n"
      using smeared_all [OF assms(3,4) n(1,2)] mask_next by metis
    have "(2 :: nat) ^ n < 2 ^ (LENGTH('a) - 1)" using n(3) pred assms(1,2) by linarith
    then have "n < LENGTH('a) - 1" using power_less_imp_less_exp by (metis one_less_numeral_iff semiring_norm(76))
    then have "(2 :: nat) ^ Suc n < 2 ^ LENGTH('a)"
      by (intro power_strict_increasing) auto
    then have "unat (2 ^ Suc n :: 'a word) = 2 ^ Suc n"
      using unat_of_nat [of "2 ^ Suc n", where 'a = 'a] by simp
    then show ?thesis
      using v n(3,4) pred assms(1) by (intro exI [of _ "Suc n"]) auto
  qed
qed

lemma prev_of_smeared:
  fixes x :: "'a :: len word"
  assumes "x \<noteq> 0" and "smeared s x v" and "LENGTH('a) \<le> s"
  shows "\<exists>k. unat (v - drop_bit 1 v) = 2 ^ k \<and> 2 ^ k \<le> unat x \<and> unat x < 2 * 2 ^ k"
proof -
  obtain n where n: "bit x n" "\<forall>j. n < j \<longrightarrow> \<not> bit x j" "2 ^ n \<le> unat x" "unat x < 2 ^ Suc n"
    using top_bit_exists [OF assms(1)] by blast
  have len: "n < LENGTH('a)" using n(1) by (simp add: bit_imp_le_length)
  then have "v - drop_bit 1 v = 2 ^ n"
    using smeared_all [OF assms(2,3) n(1,2)] mask_half by metis
  moreover have "(2 :: nat) ^ n < 2 ^ LENGTH('a)" using len by (intro power_strict_increasing) auto
  then have "unat (2 ^ n :: 'a word) = 2 ^ n"
    using unat_of_nat [of "2 ^ n", where 'a = 'a] by simp
  ultimately show ?thesis using n(3,4) by auto
qed

section \<open>The lowest set bit\<close>

lemma odd_and_minus: "odd y \<Longrightarrow> y AND - y = (1 :: 'a :: len word)"
proof -
  assume "odd y"
  have "- y = NOT y OR 1"
  proof -
    have "even (NOT y)" using \<open>odd y\<close> by (simp add: even_not_iff)
    then have "NOT y + 1 = NOT y OR 1"
      by (simp add: or_one_eq)
    then show ?thesis by (simp add: minus_eq_not_plus_1)
  qed
  then have "y AND - y = (y AND NOT y) OR (y AND 1)"
    by (simp add: bit.conj_disj_distrib)
  then show ?thesis using \<open>odd y\<close> by (simp add: and_one_eq odd_iff_mod_2_eq_one)
qed

lemma isolate_lowest:
  fixes x :: "'a :: len word"
  assumes "bit x k" and "\<forall>j < k. \<not> bit x j"
  shows "x AND - x = 2 ^ k"
proof -
  have "take_bit k x = 0"
    by (rule bit_eqI) (use assms(2) in \<open>auto simp: bit_take_bit_iff\<close>)
  then have x: "x = push_bit k (drop_bit k x)" using bits_ident [of k x] by simp
  have "odd (drop_bit k x)" using assms(1) by (simp add: bit_iff_odd_drop_bit)
  then have "push_bit k (drop_bit k x AND - drop_bit k x) = push_bit k 1" by (simp add: odd_and_minus)
  moreover have "push_bit k (- drop_bit k x) = - push_bit k (drop_bit k x)"
    by (simp add: push_bit_eq_mult)
  ultimately show ?thesis
    using x by (metis push_bit_and push_bit_of_1)
qed

lemma deBruijn_table:
  "k < 32 \<Longrightarrow> multiplyDeBruijnBitPosition ! unat (drop_bit 27 (2 ^ k * 0x077CB531 :: u32)) = k"
proof -
  have "\<forall>k \<in> set [0..<32]. multiplyDeBruijnBitPosition ! unat (drop_bit 27 (2 ^ k * 0x077CB531 :: u32)) = k"
    by code_simp
  then show "k < 32 \<Longrightarrow> ?thesis" by simp
qed

lemma getMinLsbSet_eq:
  assumes "bit x k" and "\<forall>j < k. \<not> bit x j"
  shows "getMinLsbSet x = k"
proof -
  have "k < 32" using assms(1) bit_imp_le_length by fastforce
  then show ?thesis
    using isolate_lowest [OF assms] deBruijn_table by (simp add: getMinLsbSet_def Let_def)
qed

lemma lowest_bit_exists:
  fixes x :: "'a :: len word"
  assumes "x \<noteq> 0"
  shows "\<exists>k. bit x k \<and> (\<forall>j < k. \<not> bit x j)"
proof -
  have "\<exists>k. bit x k" using top_bit_exists [OF assms] by blast
  then show ?thesis using exists_least_iff [of "bit x"] by blast
qed

section \<open>Divisibility and logarithm\<close>

lemma isDivisable_iff_dvd:
  assumes "k < 32"
  shows "isDivisableByPowerOfTwoDivisor x (2 ^ k) \<longleftrightarrow> 2 ^ k dvd unat x"
proof -
  have m: "0xFFFFFFFF - (2 ^ k - 1) = (NOT (mask k) :: u32)"
    by (simp add: not_eq_complement mask_eq_exp_minus_1)
  have "x AND NOT (mask k) = x \<longleftrightarrow> unat (x AND NOT (mask k)) = unat x"
    by (simp add: word_unat_eq_iff)
  also have "\<dots> \<longleftrightarrow> 2 ^ k dvd unat x"
    by (metis unat_and_not_mask dvd_div_mult_self dvd_triv_right)
  finally show ?thesis by (simp add: isDivisableByPowerOfTwoDivisor_def m)
qed

lemma lowest_bit_dvd:
  fixes x :: u32
  assumes "bit x b" and "\<forall>j < b. \<not> bit x j"
  shows "2 ^ k dvd unat x \<longleftrightarrow> k \<le> b"
proof -
  have "take_bit b x = 0"
    by (rule bit_eqI) (use assms(2) in \<open>auto simp: bit_take_bit_iff\<close>)
  then have d: "2 ^ b dvd unat x"
    by (metis and_mask_dvd_nat take_bit_eq_mask)
  have n: "\<not> 2 ^ Suc b dvd unat x"
  proof
    assume "2 ^ Suc b dvd unat x"
    then have "even (unat x div 2 ^ b)"
      by (metis dvd_div_iff_mult mult.commute power_Suc power_not_zero zero_neq_numeral d)
    then show False using assms(1) by (simp add: bit_iff_unat)
  qed
  show ?thesis
  proof
    assume "2 ^ k dvd unat x"
    then show "k \<le> b" using n by (metis Suc_leI le_imp_power_dvd dvd_trans linorder_not_le)
  next
    assume "k \<le> b"
    then show "2 ^ k dvd unat x" using d by (metis le_imp_power_dvd dvd_trans)
  qed
qed

lemma log2Loop_eq:
  "n < 2 ^ m \<Longrightarrow> m + e \<le> w \<Longrightarrow>
   \<exists>k. log2Loop w n e = e + k \<and> (n = 0 \<longrightarrow> k = 0) \<and> (n \<noteq> 0 \<longrightarrow> 2 ^ k \<le> 2 * n \<and> 2 * n < 2 * 2 ^ k)"
proof (induction m arbitrary: n e)
  case 0
  then show ?case by (simp add: log2Loop.simps [of w 0 e])
next
  case (Suc m)
  show ?case
  proof (cases "n = 0")
    case True
    then show ?thesis by (simp add: log2Loop.simps [of w 0 e])
  next
    case False
    have "n div 2 < 2 ^ m" using Suc.prems(1) by auto
    from Suc.IH [OF this, of "e + 1"] Suc.prems(2) obtain k where k: "log2Loop w (n div 2) (e + 1) = e + 1 + k"
        "n div 2 = 0 \<longrightarrow> k = 0" "n div 2 \<noteq> 0 \<longrightarrow> 2 ^ k \<le> 2 * (n div 2) \<and> 2 * (n div 2) < 2 * 2 ^ k" by auto
    have "2 ^ Suc k \<le> 2 * n \<and> 2 * n < 2 * 2 ^ Suc k"
    proof (cases "n div 2 = 0")
      case True
      then have "n = 1" using False by auto
      then show ?thesis using k(2) True by simp
    next
      case f: False
      then have "2 ^ k \<le> 2 * (n div 2)" "n div 2 < 2 ^ k" using k(3) by auto
      then show ?thesis by auto
    qed
    then show ?thesis
      using k(1) False Suc.prems(2) by (intro exI [of _ "Suc k"]) (simp add: log2Loop.simps [of w n e])
  qed
qed

lemma log2Loop_floor:
  assumes "m \<noteq> 0" and "m < 2 ^ w"
  shows "2 ^ log2Loop w (m div 2) 0 \<le> m \<and> m < 2 * 2 ^ log2Loop w (m div 2) 0"
proof -
  have "m div 2 < 2 ^ w" using assms(2) by (meson div_le_dividend le_less_trans)
  from log2Loop_eq [OF this, of 0 w] obtain k where k: "log2Loop w (m div 2) 0 = k"
      "m div 2 = 0 \<longrightarrow> k = 0" "m div 2 \<noteq> 0 \<longrightarrow> 2 ^ k \<le> 2 * (m div 2) \<and> 2 * (m div 2) < 2 * 2 ^ k" by auto
  show ?thesis
  proof (cases "m div 2 = 0")
    case False
    then have "2 ^ k \<le> 2 * (m div 2)" "m div 2 < 2 ^ k" using k(3) by auto
    moreover have "2 * (m div 2) \<le> m" "m < 2 * (m div 2) + 2" by auto
    ultimately show ?thesis unfolding k(1) by linarith
  qed (use k assms in auto)
qed

section \<open>Properties\<close>

lemma next32:
  "1 \<le> unat x \<Longrightarrow> unat x \<le> 2 ^ 31 \<Longrightarrow>
   \<exists>k. unat (nextPowerOfTwo32 x) = 2 ^ k \<and> unat x \<le> 2 ^ k \<and> 2 ^ k < 2 * unat x"
  unfolding nextPowerOfTwo32_def Let_def by (rule next_of_pred [OF _ _ smear32 [unfolded Let_def]]) auto

lemma next64:
  "1 \<le> unat x \<Longrightarrow> unat x \<le> 2 ^ 63 \<Longrightarrow>
   \<exists>k. unat (nextPowerOfTwo64 x) = 2 ^ k \<and> unat x \<le> 2 ^ k \<and> 2 ^ k < 2 * unat x"
  unfolding nextPowerOfTwo64_def Let_def by (rule next_of_pred [OF _ _ smear64 [unfolded Let_def]]) auto

lemma prev32:
  "x \<noteq> 0 \<Longrightarrow> \<exists>k. unat (prevPowerOfTwo32 x) = 2 ^ k \<and> 2 ^ k \<le> unat x \<and> unat x < 2 * 2 ^ k"
  unfolding prevPowerOfTwo32_def Let_def by (rule prev_of_smeared [OF _ smear32 [unfolded Let_def]]) auto

lemma prev64:
  "x \<noteq> 0 \<Longrightarrow> \<exists>k. unat (prevPowerOfTwo64 x) = 2 ^ k \<and> 2 ^ k \<le> unat x \<and> unat x < 2 * 2 ^ k"
  unfolding prevPowerOfTwo64_def Let_def by (rule prev_of_smeared [OF _ smear64 [unfolded Let_def]]) auto

text \<open>The bit smearing helpers are right at their full width: for a value between 1 and the
  largest power of two of the type, \<^verbatim>\<open>nextPowerOfTwo\<close> returns the least power of two not below it,
  and for every nonzero value \<^verbatim>\<open>prevPowerOfTwo\<close> returns the greatest one not above it.\<close>

theorem power_of_two_helpers:
  "(1 \<le> unat x \<and> unat x \<le> 2 ^ 31 \<longrightarrow>
      (\<exists>k. unat (nextPowerOfTwo32 x) = 2 ^ k \<and> unat x \<le> 2 ^ k \<and> 2 ^ k < 2 * unat x)) \<and>
   (1 \<le> unat y \<and> unat y \<le> 2 ^ 63 \<longrightarrow>
      (\<exists>k. unat (nextPowerOfTwo64 y) = 2 ^ k \<and> unat y \<le> 2 ^ k \<and> 2 ^ k < 2 * unat y)) \<and>
   (x \<noteq> 0 \<longrightarrow> (\<exists>k. unat (prevPowerOfTwo32 x) = 2 ^ k \<and> 2 ^ k \<le> unat x \<and> unat x < 2 * 2 ^ k)) \<and>
   (y \<noteq> 0 \<longrightarrow> (\<exists>k. unat (prevPowerOfTwo64 y) = 2 ^ k \<and> 2 ^ k \<le> unat y \<and> unat y < 2 * 2 ^ k))"
  using next32 next64 prev32 prev64 by blast

theorem power_of_two_helpers_witness:
  "(\<exists>k. unat (nextPowerOfTwo32 1000) = 2 ^ k \<and> 1000 \<le> (2 :: nat) ^ k \<and> (2 :: nat) ^ k < 2000) \<and>
   (\<exists>k. unat (prevPowerOfTwo64 0x123456789) = 2 ^ k \<and> (2 :: nat) ^ k \<le> 0x123456789)"
  using power_of_two_helpers [of 1000 "0x123456789"] by auto

text \<open>The de Bruijn lookup of \<^verbatim>\<open>getMinLsbSet\<close> returns the position of the lowest set bit of
  every nonzero 32-bit value, that is the largest exponent whose power of two divides it, and
  \<^verbatim>\<open>isDivisableByPowerOfTwoDivisor\<close> decides divisibility by any 32-bit power of two.\<close>

theorem lowest_bit_and_divisibility:
  assumes "x \<noteq> 0" and "k < 32"
  shows "2 ^ getMinLsbSet x dvd unat x \<and> \<not> 2 ^ Suc (getMinLsbSet x) dvd unat x \<and> getMinLsbSet x < 32 \<and>
         (isDivisableByPowerOfTwoDivisor x (2 ^ k) \<longleftrightarrow> k \<le> getMinLsbSet x)"
proof -
  obtain b where b: "bit x b" "\<forall>j < b. \<not> bit x j" using lowest_bit_exists [OF assms(1)] by blast
  have "b < 32" using b(1) bit_imp_le_length by fastforce
  then show ?thesis
    using getMinLsbSet_eq [OF b] isDivisable_iff_dvd [OF assms(2)] lowest_bit_dvd [OF b] by (simp del: power_Suc)
qed

theorem lowest_bit_and_divisibility_witness:
  "getMinLsbSet 96 < 32 \<and> 2 ^ getMinLsbSet 96 dvd unat (96 :: u32) \<and>
   (isDivisableByPowerOfTwoDivisor 96 (2 ^ 5) \<longleftrightarrow> 5 \<le> getMinLsbSet 96)"
  using lowest_bit_and_divisibility [of 96 5] by simp

text \<open>The loop of \<^verbatim>\<open>log2\<close> computes the binary logarithm rounded down for every nonzero value
  of either width, and the width for zero.\<close>

theorem log2_correct:
  "log2_32 0 = 32 \<and> log2_64 0 = 64 \<and>
   (x \<noteq> 0 \<longrightarrow> 2 ^ log2_32 x \<le> unat x \<and> unat x < 2 * 2 ^ log2_32 x) \<and>
   (y \<noteq> 0 \<longrightarrow> 2 ^ log2_64 y \<le> unat y \<and> unat y < 2 * 2 ^ log2_64 y)"
proof -
  have half: "unat (drop_bit 1 w) = unat w div 2" for w :: "'a :: len word"
    using unat_drop_bit_eq [of 1 w] by (simp only: drop_bit_eq_div [where 'a = nat] power_one_right)
  have "2 ^ log2_32 x \<le> unat x \<and> unat x < 2 * 2 ^ log2_32 x" if "x \<noteq> 0"
    using log2Loop_floor [of "unat x" 32] unat_lt_32 [of x] that
    unfolding log2_32_def half by (simp add: unat_0_iff)
  moreover have "2 ^ log2_64 y \<le> unat y \<and> unat y < 2 * 2 ^ log2_64 y" if "y \<noteq> 0"
    using log2Loop_floor [of "unat y" 64] unat_lt_64 [of y] that
    unfolding log2_64_def half by (simp add: unat_0_iff)
  ultimately show ?thesis by (simp add: log2_32_def log2_64_def)
qed

theorem log2_correct_witness:
  "2 ^ log2_32 1000 \<le> (1000 :: nat) \<and> (1000 :: nat) < 2 * 2 ^ log2_32 1000"
  using log2_correct [of 1000 1] by simp

end
