(* ===== verification/Local_Work_Size.thy ===== *)
theory Local_Work_Size
  imports Basic_Math
begin

text \<open>
  The choice of a local work size when the application gives none
  (\<^verbatim>\<open>command_queue/local_work_size.cpp\<close> and \<^verbatim>\<open>WorkSizeInfo\<close> of \<^verbatim>\<open>program/kernel_info.cpp\<close>). Sizes are natural
  numbers with the wrap-around of the 32-bit and 64-bit products written out; the three element
  arrays are lists. A \<^verbatim>\<open>while\<close> loop that could run forever, or divide by zero, because of a 32-bit
  product that wraps is an option. The floating point operations of the ratio heuristics are a
  record of parameters, about which nothing is assumed.
\<close>

section \<open>Work size information\<close>

record 'f float_ops =
  f_log :: "nat \<Rightarrow> 'f"
  f_sub :: "'f \<Rightarrow> 'f \<Rightarrow> 'f"
  f_fabs :: "'f \<Rightarrow> 'f"
  f_less :: "'f \<Rightarrow> 'f \<Rightarrow> bool"
  f_of_uint :: "nat \<Rightarrow> 'f"
  f_YTilingRatioValue :: 'f

record 'f WorkSizeInfo =
  wsi_maxWorkGroupSize :: nat
  wsi_minWorkGroupSize :: nat
  wsi_hasBarriers :: bool
  wsi_simdSize :: nat
  wsi_slmTotalSize :: nat
  wsi_gen9OrLater :: bool
  wsi_numThreadsPerSubSlice :: nat
  wsi_localMemSize :: nat
  wsi_imgUsed :: bool
  wsi_yTiledSurfaces :: bool
  wsi_useRatio :: bool
  wsi_useStrictRatio :: bool
  wsi_targetRatio :: 'f

definition setMinWorkGroupSize :: "'f WorkSizeInfo \<Rightarrow> 'f WorkSizeInfo rt_result" where
  "setMinWorkGroupSize w =
     (let maxBarriersPerHSlice = (if wsi_gen9OrLater w then 32 else 16);
          m = (if wsi_hasBarriers w
               then wrap32 (wsi_numThreadsPerSubSlice w * wsi_simdSize w) div maxBarriersPerHSlice else 0)
      in if wsi_slmTotalSize w > 0 then
           if wsi_localMemSize w div wsi_slmTotalSize w = 0 then Inl DivisionByZero
           else Inr (w\<lparr>wsi_minWorkGroupSize :=
                  max (wsi_maxWorkGroupSize w div (wsi_localMemSize w div wsi_slmTotalSize w)) m\<rparr>)
         else Inr (w\<lparr>wsi_minWorkGroupSize := m\<rparr>))"

definition WorkSizeInfo_ctor ::
  "nat \<Rightarrow> bool \<Rightarrow> nat \<Rightarrow> nat \<Rightarrow> bool \<Rightarrow> nat \<Rightarrow> nat \<Rightarrow> bool \<Rightarrow> bool \<Rightarrow> 'f \<Rightarrow> 'f WorkSizeInfo rt_result" where
  "WorkSizeInfo_ctor maxWorkGroupSize hasBarriers simdSize slmTotalSize gen9 numThreadsPerSubSlice localMemSize
     imgUsed yTiledSurface zeroRatio =
     setMinWorkGroupSize
       \<lparr>wsi_maxWorkGroupSize = maxWorkGroupSize, wsi_minWorkGroupSize = 0, wsi_hasBarriers = hasBarriers,
        wsi_simdSize = simdSize, wsi_slmTotalSize = slmTotalSize, wsi_gen9OrLater = gen9,
        wsi_numThreadsPerSubSlice = numThreadsPerSubSlice, wsi_localMemSize = localMemSize,
        wsi_imgUsed = imgUsed, wsi_yTiledSurfaces = yTiledSurface, wsi_useRatio = False,
        wsi_useStrictRatio = False, wsi_targetRatio = zeroRatio\<rparr>"

definition setIfUseImg :: "bool list \<Rightarrow> 'f WorkSizeInfo \<Rightarrow> 'f WorkSizeInfo" where
  "setIfUseImg argIsImage w =
     (if True \<in> set argIsImage then w\<lparr>wsi_imgUsed := True, wsi_yTiledSurfaces := True\<rparr> else w)"

definition checkRatio :: "'f float_ops \<Rightarrow> nat list \<Rightarrow> 'f WorkSizeInfo \<Rightarrow> 'f WorkSizeInfo" where
  "checkRatio F workItems w =
     (if wsi_slmTotalSize w > 0
      then w\<lparr>wsi_useRatio := True, wsi_targetRatio := f_sub F (f_log F (workItems ! 0)) (f_log F (workItems ! 1)),
             wsi_useStrictRatio := False\<rparr>
      else if wsi_yTiledSurfaces w
      then w\<lparr>wsi_useRatio := True, wsi_targetRatio := f_YTilingRatioValue F, wsi_useStrictRatio := True\<rparr>
      else w)"

section \<open>Factors\<close>

definition highThreadCountThreshold :: nat where "highThreadCountThreshold = 56"

definition optimalHardwareThreadCountGeneric :: "nat list" where
  "optimalHardwareThreadCountGeneric = [32, 16, 8, 4, 2, 1]"

definition primeNumbers :: "nat list" where
  "primeNumbers =
     [251, 241, 239, 233, 229, 227, 223, 211, 199, 197, 193, 191, 181, 179, 173, 167, 163, 157, 151, 149,
      139, 137, 131, 127, 113, 109, 107, 103, 101, 97, 89, 83, 79, 73, 71, 67, 61, 59, 53, 47, 43, 41, 37, 31,
      29, 23, 19, 17, 13, 11, 7, 5, 3, 2]"

partial_function (option) factorLoop :: "nat \<Rightarrow> nat \<Rightarrow> nat \<Rightarrow> nat \<Rightarrow> nat option" where
  "factorLoop primeNumber workItems maxWorkGroupSize workSize =
     (let newWorkSize = wrap32 (workSize * primeNumber)
      in if newWorkSize \<le> maxWorkGroupSize then
           if newWorkSize = 0 then None
           else if workItems mod newWorkSize = 0
           then factorLoop primeNumber workItems maxWorkGroupSize newWorkSize else Some workSize
         else Some workSize)"

text \<open>The template recursion from the last prime index down to index 0: the list holds the primes
  still to try, in the order they are tried.\<close>

fun factor :: "nat list \<Rightarrow> nat \<Rightarrow> nat \<Rightarrow> nat \<Rightarrow> nat option" where
  "factor [] workItems workSize maxWorkGroupSize = Some workSize"
| "factor (p # ps) workItems workSize maxWorkGroupSize =
     (if wrap32 (workSize * p) \<le> workItems
      then case factorLoop p workItems maxWorkGroupSize workSize of
             None \<Rightarrow> None | Some s \<Rightarrow> factor ps workItems s maxWorkGroupSize
      else Some workSize)"

section \<open>Power of two sizes\<close>

fun pickThreads :: "nat list \<Rightarrow> nat \<Rightarrow> nat \<Rightarrow> nat rt_result" where
  "pickThreads [] maxWorkGroupSize simdSize = Inl OutOfBounds"
| "pickThreads (t # ts) maxWorkGroupSize simdSize =
     (if t > 1 \<and> maxWorkGroupSize < wrap32 (t * simdSize) then pickThreads ts maxWorkGroupSize simdSize else Inr t)"

fun halveTo :: "nat \<Rightarrow> nat \<Rightarrow> nat" where
  "halveTo x bound = (if x > bound then halveTo (x div 2) bound else x)"

declare halveTo.simps [simp del]

definition computePowerOfTwoLWS :: "nat list \<Rightarrow> 'f WorkSizeInfo \<Rightarrow> nat \<Rightarrow> bool \<Rightarrow> nat list rt_result" where
  "computePowerOfTwoLWS workItems w workDim canUseNx4 =
     (let targetIndex = (if canUseNx4 \<or> wsi_numThreadsPerSubSlice w < highThreadCountThreshold then 2 else 0)
      in rt_bind (pickThreads (drop targetIndex optimalHardwareThreadCountGeneric)
                    (wsi_maxWorkGroupSize w) (wsi_simdSize w)) (\<lambda>optimalLocalThreads.
         let total = wrap32 (optimalLocalThreads * wsi_simdSize w)
         in if workDim = 2 then
              let xDim = halveTo (total div (if canUseNx4 then 4 else 1)) (workItems ! 0)
              in if \<not> canUseNx4 \<and> xDim = 0 then Inl DivisionByZero
                 else Inr [xDim, if canUseNx4 then 4 else total div xDim, 1]
            else
              let xDim = halveTo total (workItems ! 0)
              in if xDim = 0 then Inl DivisionByZero
                 else let yDim = halveTo (total div xDim) (workItems ! 1)
                      in if wrap32 (xDim * yDim) = 0 then Inl Unrecoverable
                         else Inr [xDim, yDim, total div wrap32 (xDim * yDim)]))"

fun pow2Divisor :: "nat \<Rightarrow> nat \<Rightarrow> nat" where
  "pow2Divisor items r =
     (if r > 1 \<and> \<not> isDivisableByPowerOfTwoDivisor (of_nat items) (of_nat r) then pow2Divisor items (r div 2) else r)"

declare pow2Divisor.simps [simp del]

section \<open>Searching the divisors\<close>

definition groups :: "nat \<Rightarrow> nat \<Rightarrow> nat" where
  "groups items dim = wrap64 (items + dim - 1) div dim"

definition groups2 :: "nat list \<Rightarrow> nat \<Rightarrow> nat \<Rightarrow> nat" where
  "groups2 items x y = wrap64 (groups (items ! 0) x * groups (items ! 1) y)"

definition groups3 :: "nat list \<Rightarrow> nat \<Rightarrow> nat \<Rightarrow> nat \<Rightarrow> nat" where
  "groups3 items x y z = wrap64 (groups2 items x y * groups (items ! 2) z)"

definition euThreads :: "nat \<Rightarrow> nat \<Rightarrow> nat \<Rightarrow> nat" where
  "euThreads simd wgs workGroups = wrap64 (wrap32 (wgs + simd - 1) div simd * workGroups)"

definition euThreads2D :: "nat \<Rightarrow> nat \<Rightarrow> nat \<Rightarrow> nat" where
  "euThreads2D simd wgs workGroups = wrap64 (wrap64 (wgs + simd - 1) div simd * workGroups)"

definition waste :: "nat \<Rightarrow> nat \<Rightarrow> nat \<Rightarrow> nat" where
  "waste simd wgs workGroups = wrap64 ((simd - (wrap32 (wgs + 4294967295) AND (simd - 1))) * workGroups)"

fun ratioY :: "'f float_ops \<Rightarrow> 'f WorkSizeInfo \<Rightarrow> nat list \<Rightarrow> nat \<Rightarrow> nat list \<Rightarrow>
   (nat \<times> nat) \<times> 'f \<times> nat \<Rightarrow> (nat \<times> nat) \<times> 'f \<times> nat" where
  "ratioY F w items x [] st = st"
| "ratioY F w items x (y # ys) (best, localRatio, localWkgs) =
     (if wrap32 (x * y) > wsi_maxWorkGroupSize w then (best, localRatio, localWkgs)
      else if wrap32 (x * y) < wsi_minWorkGroupSize w then ratioY F w items x ys (best, localRatio, localWkgs)
      else
        let workGroups = groups2 items x y;
            ratioDiff = f_fabs F (f_sub F (wsi_targetRatio w) (f_sub F (f_log F x) (f_log F y)));
            better = (if wsi_useStrictRatio w then f_less F ratioDiff localRatio
                      else workGroups < localWkgs \<or> workGroups = localWkgs \<and> f_less F ratioDiff localRatio)
        in ratioY F w items x ys (if better then ((x, y), ratioDiff, workGroups) else (best, localRatio, localWkgs)))"

definition choosePreferredWorkGroupSizeWithRatio ::
  "'f float_ops \<Rightarrow> 'f WorkSizeInfo \<Rightarrow> nat list \<Rightarrow> nat list \<Rightarrow> nat list \<Rightarrow> nat \<times> nat \<Rightarrow> nat \<times> nat" where
  "choosePreferredWorkGroupSizeWithRatio F w items xs ys best =
     fst (fold (\<lambda>x st. ratioY F w items x ys st) (rev xs) (best, f_of_uint F 0xffffffff, 0xffffffff))"

fun plainY :: "'f WorkSizeInfo \<Rightarrow> nat list \<Rightarrow> nat \<Rightarrow> nat \<Rightarrow> nat list \<Rightarrow> nat list \<times> nat \<Rightarrow> nat list \<times> nat" where
  "plainY w items z x [] st = st"
| "plainY w items z x (y # ys) (best, localEu) =
     (if wrap32 (x * y * z) > wsi_maxWorkGroupSize w then (best, localEu)
      else if wrap32 (x * y * z) < wsi_minWorkGroupSize w then plainY w items z x ys (best, localEu)
      else
        let eu = euThreads (wsi_simdSize w) (wrap32 (x * y * z)) (groups3 items x y z)
        in plainY w items z x ys (if eu < localEu then ([x, y, z], eu) else (best, localEu)))"

definition choosePreferredWorkGroupSizeWithOutRatio ::
  "'f WorkSizeInfo \<Rightarrow> nat list \<Rightarrow> nat list \<Rightarrow> nat list \<Rightarrow> nat list \<Rightarrow> nat list \<Rightarrow> nat list" where
  "choosePreferredWorkGroupSizeWithOutRatio w items xs ys zs best =
     fst (fold (\<lambda>z st. fold (\<lambda>x st. plainY w items z x ys st) (rev xs) st) zs (best, 0xffffffff))"

section \<open>The strategies\<close>

definition computeWorkgroupSize1D :: "nat \<Rightarrow> nat list \<Rightarrow> nat list option" where
  "computeWorkgroupSize1D maxWorkGroupSize workItems =
     (let items = workItems ! 0;
          workSize = min (wrap32 (2 ^ getMinLsbSet (of_nat items))) maxWorkGroupSize
      in map_option (\<lambda>s. [s, 1, 1]) (factor (rev primeNumbers) items workSize maxWorkGroupSize))"

definition divisorsUpTo :: "nat \<Rightarrow> nat \<Rightarrow> nat list" where
  "divisorsUpTo items m = filter (\<lambda>i. items mod i = 0) [2..<Suc m]"

fun waste2D :: "nat \<Rightarrow> nat \<Rightarrow> nat list \<Rightarrow> nat \<Rightarrow> nat list \<Rightarrow> (nat \<times> nat) \<times> nat \<times> nat \<Rightarrow> (nat \<times> nat) \<times> nat \<times> nat" where
  "waste2D maxWgs simd items x [] st = st"
| "waste2D maxWgs simd items x (y # ys) (best, localEu, localWaste) =
     (if wrap32 (x * y) > maxWgs then (best, localEu, localWaste)
      else
        let workGroups = groups2 items x y;
            eu = euThreads2D simd (wrap32 (x * y)) workGroups;
            wst = waste simd (wrap32 (x * y)) workGroups
        in waste2D maxWgs simd items x ys
             (if eu < localEu \<or> eu = localEu \<and> wst < localWaste then ((x, y), eu, wst)
              else (best, localEu, localWaste)))"

text \<open>The factor arrays have 1024 entries.\<close>

definition computeWorkgroupSize2D :: "nat \<Rightarrow> nat list \<Rightarrow> nat \<Rightarrow> nat list rt_result" where
  "computeWorkgroupSize2D maxWorkGroupSize workItems simdSize =
     (let xs = divisorsUpTo (workItems ! 0) maxWorkGroupSize; ys = divisorsUpTo (workItems ! 1) maxWorkGroupSize
      in if length xs > 1024 \<or> length ys > 1024 then Inl OutOfBounds
         else let r = fold (\<lambda>x st. waste2D maxWorkGroupSize simdSize workItems x ys st) (rev xs)
                        ((1, 1), 0xffffffff, 0xffffffff)
              in Inr [fst (fst r), snd (fst r), 1])"

function balance :: "nat \<Rightarrow> nat \<Rightarrow> nat \<Rightarrow> nat \<times> nat" where
  "balance m a b =
     (if wrap64 (a * b) > m then if a > b then balance m (a div 2) b else balance m a (b div 2) else (a, b))"
  by pat_completeness auto

termination balance
proof (relation "measure (\<lambda>(m, a, b). a + b)")
  fix m a b :: nat
  assume "m < wrap64 (a * b)"
  then have "a \<noteq> 0" "b \<noteq> 0" by (metis less_zeroE mod_0 mult_0 mult_0_right)+
  then show "((m, a div 2, b), m, a, b) \<in> measure (\<lambda>(m, a, b). a + b)"
    "((m, a, b div 2), m, a, b) \<in> measure (\<lambda>(m, a, b). a + b)" by auto
qed auto

declare balance.simps [simp del]

definition pow2Divisors :: "nat list \<Rightarrow> nat \<Rightarrow> nat \<Rightarrow> nat list" where
  "pow2Divisors workItems workDim r = map (\<lambda>i. if i < workDim then pow2Divisor (workItems ! i) r else 1) [0..<3]"

definition computeWorkgroupSizeSquared :: "nat \<Rightarrow> nat list \<Rightarrow> nat \<Rightarrow> nat \<Rightarrow> nat list rt_result" where
  "computeWorkgroupSizeSquared maxWorkGroupSize workItems simdSize workDim =
     (let d = pow2Divisors workItems workDim maxWorkGroupSize
      in if wrap64 (d ! 0 * d ! 1) \<ge> maxWorkGroupSize then
           case balance maxWorkGroupSize (d ! 0) (d ! 1) of (a, b) \<Rightarrow> Inr [a, b, d ! 2]
         else if wrap64 (workItems ! 0 * workItems ! 1) > maxWorkGroupSize
         then computeWorkgroupSize2D maxWorkGroupSize workItems simdSize
         else Inr (map (\<lambda>i. if i < workDim then workItems ! i else 1) [0..<3]))"

definition dimFactors :: "nat list \<Rightarrow> nat \<Rightarrow> nat \<Rightarrow> nat \<Rightarrow> nat list" where
  "dimFactors workItems workDim m i =
     1 # (if i < workDim then filter (\<lambda>j. workItems ! i mod j = 0) [2..<m] else [])"

text \<open>The part of \<^verbatim>\<open>computeWorkgroupSizeND\<close> after the power of two block; \<open>None\<close>: does not return.\<close>

definition computeGeneralND ::
  "'f float_ops \<Rightarrow> 'f WorkSizeInfo \<Rightarrow> nat list \<Rightarrow> nat \<Rightarrow> nat list rt_result option" where
  "computeGeneralND F w workItems workDim =
     (let total = wrap64 (wrap64 (workItems ! 0 * workItems ! 1) * workItems ! 2);
          maxWgs = wsi_maxWorkGroupSize w
      in if total \<le> maxWgs
         then Some (Inr (map (\<lambda>i. if i < workDim then workItems ! i else 1) [0..<3]))
         else if workDim = 1
         then map_option Inr (computeWorkgroupSize1D maxWgs workItems)
         else
           let w = checkRatio F workItems w;
               f = dimFactors workItems workDim maxWgs
           in if length (f 0) > 1024 \<or> length (f 1) > 1024 \<or> length (f 2) > 1024 then Some (Inl OutOfBounds)
              else if wsi_useRatio w then
                let b = choosePreferredWorkGroupSizeWithRatio F w workItems (f 0) (f 1) (1, 1)
                in if wsi_useStrictRatio w \<and> wrap64 (fst b * snd b * 2) \<le> wsi_simdSize w
                   then let b = choosePreferredWorkGroupSizeWithRatio F (w\<lparr>wsi_useStrictRatio := False\<rparr>)
                                  workItems (f 0) (f 1) b
                        in Some (Inr [fst b, snd b, 1])
                   else Some (Inr [fst b, snd b, 1])
              else Some (Inr (choosePreferredWorkGroupSizeWithOutRatio w workItems (f 0) (f 1) (f 2) [1, 1, 1])))"

definition computeWorkgroupSizeND ::
  "bool \<Rightarrow> 'f float_ops \<Rightarrow> 'f WorkSizeInfo \<Rightarrow> nat list \<Rightarrow> nat \<Rightarrow> nat list rt_result option" where
  "computeWorkgroupSizeND enableSquared F w workItems workDim =
     (let maxWgs = wsi_maxWorkGroupSize w; simd = wsi_simdSize w;
          optimal = wrap32 (simd * (optimalHardwareThreadCountGeneric ! 0));
          d = pow2Divisors workItems workDim optimal;
          nx4 = (wsi_imgUsed w \<and> (d ! 0 \<ge> 4 \<or> d ! 0 \<ge> 2 \<and> simd = 8) \<and> d ! 1 \<ge> 4);
          allItems = wrap64 (wrap64 (d ! 0 * d ! 1) * d ! 2)
      in if simd = 0 then Some (Inl Unrecoverable)
         else if wsi_slmTotalSize w = 0 \<and> \<not> wsi_hasBarriers w then
           if enableSquared \<and> workDim = 2 \<and> \<not> wsi_imgUsed w
           then Some (computeWorkgroupSizeSquared maxWgs workItems simd workDim)
           else if allItems > simd \<and> (allItems > maxWgs \<or> allItems > optimal)
           then Some (computePowerOfTwoLWS d w workDim nx4)
           else if allItems \<ge> simd
           then Some (Inr (map (\<lambda>i. if i < workDim then (if i = 1 \<and> nx4 then 4 else d ! i) else 1) [0..<3]))
           else computeGeneralND F w workItems workDim
         else computeGeneralND F w workItems workDim)"

definition computeWorkgroupSize ::
  "bool \<Rightarrow> bool \<Rightarrow> 'f float_ops \<Rightarrow> 'f WorkSizeInfo option \<Rightarrow> nat list \<Rightarrow> nat \<Rightarrow> nat list rt_result option" where
  "computeWorkgroupSize enableND enableSquared F krn gws dim =
     (case krn of None \<Rightarrow> Some (Inr [0, 0, 0])
      | Some w \<Rightarrow>
          if enableND then computeWorkgroupSizeND enableSquared F w gws dim
          else if dim = 1 then map_option Inr (computeWorkgroupSize1D (wsi_maxWorkGroupSize w) gws)
          else if enableSquared \<and> dim = 2
          then Some (computeWorkgroupSizeSquared (wsi_maxWorkGroupSize w) gws (wsi_simdSize w) dim)
          else Some (computeWorkgroupSize2D (wsi_maxWorkGroupSize w) gws (wsi_simdSize w)))"

definition generateWorkgroupSize ::
  "bool \<Rightarrow> bool \<Rightarrow> 'f float_ops \<Rightarrow> 'f WorkSizeInfo option \<Rightarrow> nat list \<Rightarrow> nat \<Rightarrow> nat list \<Rightarrow> nat list rt_result option" where
  "generateWorkgroupSize enableND enableSquared F krn gws dim enqueued =
     (if enqueued ! 0 = 0 then computeWorkgroupSize enableND enableSquared F krn gws dim else Some (Inr enqueued))"

text \<open>A division by zero of a dimension is a fault.\<close>

definition computeWorkgroupsNumber :: "nat list \<Rightarrow> nat list \<Rightarrow> nat list rt_result" where
  "computeWorkgroupsNumber gws lws =
     (if 0 \<in> set lws then Inl DivisionByZero
      else Inr (map (\<lambda>(g, l). g div l + (if g mod l \<noteq> 0 then 1 else 0)) (zip gws lws)))"

definition generateWorkgroupsNumber :: "nat list \<Rightarrow> nat list \<Rightarrow> nat list rt_result" where
  "generateWorkgroupsNumber gws lws = (if lws ! 0 > 0 then computeWorkgroupsNumber gws lws else Inr [0, 0, 0])"

definition canonizeWorkgroup :: "nat list \<Rightarrow> nat list" where
  "canonizeWorkgroup wg = (if wg ! 0 > 0 then [wg ! 0, max (wg ! 1) 1, max (wg ! 2) 1] else [0, 0, 0])"

section \<open>Powers of two\<close>

lemma pow2Divisor_pow2:
  "k < 32 \<Longrightarrow> \<exists>j \<le> k. pow2Divisor items (2 ^ k) = 2 ^ j \<and> 2 ^ j dvd items"
proof (induction k)
  case 0
  then show ?case by (simp add: pow2Divisor.simps [of items "Suc 0"])
next
  case (Suc k)
  have dvd: "isDivisableByPowerOfTwoDivisor (of_nat items) (of_nat (2 ^ Suc k)) \<longleftrightarrow> 2 ^ Suc k dvd items"
  proof -
    have "isDivisableByPowerOfTwoDivisor (of_nat items) (2 ^ Suc k) \<longleftrightarrow> 2 ^ Suc k dvd items mod 2 ^ 32"
      using isDivisable_iff_dvd [OF Suc.prems] by (simp add: unat_of_nat)
    also have "\<dots> \<longleftrightarrow> 2 ^ Suc k dvd items"
      using Suc.prems le_imp_power_dvd [of "Suc k" 32 "2 :: nat"] by (intro dvd_mod_iff) simp
    finally show ?thesis by simp
  qed
  show ?case
  proof (cases "2 ^ Suc k dvd items")
    case True
    then show ?thesis
      using dvd by (intro exI [of _ "Suc k"]) (simp add: pow2Divisor.simps [of items "2 ^ Suc k"] del: power_Suc)
  next
    case False
    then have "pow2Divisor items (2 ^ Suc k) = pow2Divisor items (2 ^ k)"
      using dvd one_less_power [of "2 :: nat" "Suc k"] by (subst pow2Divisor.simps) simp
    then show ?thesis using Suc by (auto intro: le_SucI)
  qed
qed

lemma halveTo_pow2: "halveTo (2 ^ a) (2 ^ b) = 2 ^ min a b"
proof (induction a)
  case 0
  then show ?case by (simp add: halveTo.simps [of "Suc 0" "2 ^ b"])
next
  case (Suc a)
  show ?case
  proof (cases "Suc a \<le> b")
    case True
    then have "\<not> (2 :: nat) ^ b < 2 ^ Suc a" by (simp add: power_increasing not_less del: power_Suc)
    then show ?thesis using True by (simp add: halveTo.simps [of "2 ^ Suc a" "2 ^ b"] min_absorb1 del: power_Suc)
  next
    case False
    then have "(2 :: nat) ^ b < 2 ^ Suc a" by (intro power_strict_increasing) auto
    then show ?thesis using False Suc by (subst halveTo.simps) simp
  qed
qed

lemma pickThreads_list:
  assumes "ts \<noteq> []" and "last ts = 1" and "\<forall>t \<in> set ts. t * simd < 4294967296" and "simd \<le> m"
  shows "\<exists>t \<in> set ts. pickThreads ts m simd = Inr t \<and> t * simd \<le> m"
  using assms
proof (induction ts)
  case (Cons t ts)
  then have w: "wrap32 (t * simd) = t * simd" by simp
  show ?case
  proof (cases "t > 1 \<and> m < t * simd")
    case True
    then have "ts \<noteq> []" using Cons.prems(2) by (auto split: if_splits)
    then show ?thesis using Cons True w by auto
  next
    case False
    then have "t * simd \<le> m" using Cons.prems(4) by (cases "t = 0"; cases "t = 1") auto
    then show ?thesis using False w by auto
  qed
qed simp

lemma pickThreads_ok:
  assumes "s \<le> 5" and "2 ^ s \<le> m" and "i = 0 \<or> i = 2"
  shows "\<exists>j \<le> 5. pickThreads (drop i optimalHardwareThreadCountGeneric) m (2 ^ s) = Inr (2 ^ j) \<and> 2 ^ j * 2 ^ s \<le> m"
proof -
  let ?ts = "drop i optimalHardwareThreadCountGeneric"
  have "\<exists>j \<le> 5. t = 2 ^ j" if "t \<in> set ?ts" for t
  proof -
    have "t \<in> {2 ^ 0, 2 ^ 1, 2 ^ 2, 2 ^ 3, 2 ^ 4, 2 ^ 5}"
      using that assms(3) by (auto simp: optimalHardwareThreadCountGeneric_def)
    then show ?thesis
      by (elim insertE emptyE) (rule exI, rule conjI [rotated], assumption, simp)+
  qed
  moreover have "t * 2 ^ s < 4294967296" if "t \<in> set ?ts" for t
  proof -
    have "t \<le> 32" using that assms(3) by (auto simp: optimalHardwareThreadCountGeneric_def)
    moreover have "(2 :: nat) ^ s \<le> 2 ^ 5" using assms(1) by (intro power_increasing) auto
    ultimately have "t * 2 ^ s \<le> 32 * 2 ^ 5" by (intro mult_le_mono) auto
    then show ?thesis by simp
  qed
  moreover have "?ts \<noteq> []" "last ?ts = 1" using assms(3) by (auto simp: optimalHardwareThreadCountGeneric_def)
  ultimately show ?thesis
    using pickThreads_list [of ?ts "2 ^ s" m] assms(2) by blast
qed

section \<open>Valid sizes\<close>

definition lws_valid :: "nat list \<Rightarrow> nat \<Rightarrow> nat list \<Rightarrow> bool" where
  "lws_valid items m lws \<longleftrightarrow> length lws = 3 \<and> (\<forall>i < 3. 1 \<le> lws ! i \<and> lws ! i dvd items ! i) \<and>
     lws ! 0 * lws ! 1 * lws ! 2 \<le> m"

lemma lws_valid3 [simp]:
  "lws_valid [a, b, c] m [x, y, z] \<longleftrightarrow> 1 \<le> x \<and> 1 \<le> y \<and> 1 \<le> z \<and> x dvd a \<and> y dvd b \<and> z dvd c \<and> x * y * z \<le> m"
  by (auto simp: lws_valid_def numeral_3_eq_3 All_less_Suc)

lemma factorLoop_ok:
  assumes "1 \<le> s" and "s \<le> m" and "s dvd items" and "m \<le> 1024" and "2 \<le> p" and "p \<le> 251"
  shows "\<exists>r. factorLoop p items m s = Some r \<and> 1 \<le> r \<and> r \<le> m \<and> r dvd items"
  using assms
proof (induction "m - s" arbitrary: s rule: less_induct)
  case less
  have "s * p \<le> 1024 * 251" using less.prems by (intro mult_le_mono) auto
  then have w: "wrap32 (s * p) = s * p" by simp
  have "s * 2 \<le> s * p" using less.prems by (intro mult_le_mono) auto
  then have lt: "s < s * p" using less.prems(1) by linarith
  show ?case
  proof (cases "s * p \<le> m \<and> items mod (s * p) = 0")
    case True
    have "\<exists>r. factorLoop p items m (s * p) = Some r \<and> 1 \<le> r \<and> r \<le> m \<and> r dvd items"
    proof (rule less.hyps)
      show "m - s * p < m - s" using lt True by linarith
    qed (use True lt less.prems in auto)
    then show ?thesis using True lt w by (subst factorLoop.simps) (auto simp: Let_def)
  next
    case False
    then show ?thesis using less.prems w lt by (subst factorLoop.simps) (auto simp: Let_def)
  qed
qed

lemma factor_ok:
  assumes "1 \<le> s" and "s \<le> m" and "s dvd items" and "m \<le> 1024" and "\<forall>p \<in> set ps. 2 \<le> p \<and> p \<le> 251"
  shows "\<exists>r. factor ps items s m = Some r \<and> 1 \<le> r \<and> r \<le> m \<and> r dvd items"
  using assms
proof (induction ps arbitrary: s)
  case (Cons p ps)
  obtain r where "factorLoop p items m s = Some r \<and> 1 \<le> r \<and> r \<le> m \<and> r dvd items"
    using factorLoop_ok [of s m items p] Cons.prems by auto
  then show ?case using Cons by auto
qed simp

lemma compute1D_ok:
  assumes "1 \<le> a" and "m = 2 ^ k" and "m \<le> 1024"
  shows "\<exists>r. computeWorkgroupSize1D m [a, b, c] = Some [r, 1, 1] \<and> 1 \<le> r \<and> r \<le> m \<and> r dvd a"
proof -
  let ?b = "getMinLsbSet (of_nat a)"
  have "2 ^ ?b dvd a \<and> ?b < 32"
  proof (cases "(of_nat a :: u32) = 0")
    case True
    then show ?thesis by (simp add: getMinLsbSet_def multiplyDeBruijnBitPosition_def)
  next
    case False
    obtain n where n: "bit (of_nat a :: u32) n" "\<forall>j < n. \<not> bit (of_nat a :: u32) j"
      using lowest_bit_exists [OF False] by blast
    have len: "n < 32" using n(1) bit_imp_le_length by fastforce
    have "2 ^ n dvd a mod 2 ^ 32"
      using lowest_bit_dvd [OF n, of n] by (simp add: unat_of_nat)
    then have "2 ^ n dvd a"
      using len le_imp_power_dvd [of n 32 "2 :: nat"] by (simp add: dvd_mod_iff)
    then show ?thesis using getMinLsbSet_eq [OF n] len by simp
  qed
  then have d: "2 ^ ?b dvd a" and b32: "?b < 32" by auto
  have d2: "(2 :: nat) ^ ?b < 2 ^ 32" using b32 by (intro power_strict_increasing) auto
  have "min (2 ^ ?b) m = 2 ^ min ?b k"
    using assms(2) by (auto simp: min_def)
  moreover have "2 ^ min ?b k dvd a" using d by (metis dvd_trans le_imp_power_dvd min.cobounded1)
  ultimately have s: "1 \<le> min (2 ^ ?b) m" "min (2 ^ ?b) m \<le> m" "min (2 ^ ?b) m dvd a"
    using assms(2) by auto
  have "\<forall>p \<in> set (rev primeNumbers). 2 \<le> p \<and> p \<le> 251" by (simp add: primeNumbers_def)
  from factor_ok [OF s assms(3) this] show ?thesis
    using d2 by (auto simp: computeWorkgroupSize1D_def Let_def)
qed

lemma power_of_two_LWS_ok:
  assumes "s \<le> 5" and "3 \<le> s" and "wsi_simdSize w = 2 ^ s" and "2 ^ s \<le> wsi_maxWorkGroupSize w"
    and "wsi_maxWorkGroupSize w < 2 ^ (a + b + c) \<or> 2 ^ s * 32 < (2 :: nat) ^ (a + b + c)"
    and "nx4 \<Longrightarrow> 2 \<le> b" and "dim = 2 \<Longrightarrow> c = 0"
  shows "\<exists>r. computePowerOfTwoLWS [2 ^ a, 2 ^ b, 2 ^ c] w dim nx4 = Inr r \<and>
           lws_valid [2 ^ a, 2 ^ b, 2 ^ c] (wsi_maxWorkGroupSize w) r"
proof -
  let ?i = "if nx4 \<or> wsi_numThreadsPerSubSlice w < highThreadCountThreshold then 2 else 0 :: nat"
  obtain j where j: "j \<le> 5" "2 ^ j * 2 ^ s \<le> wsi_maxWorkGroupSize w"
     "pickThreads (drop ?i optimalHardwareThreadCountGeneric) (wsi_maxWorkGroupSize w) (2 ^ s) = Inr (2 ^ j)"
  proof -
    have "?i = 0 \<or> ?i = 2" by simp
    from pickThreads_ok [OF assms(1,4) this] that show thesis by blast
  qed
  have tot: "(2 :: nat) ^ j * 2 ^ s = 2 ^ (j + s)" by (simp add: power_add)
  have "(2 :: nat) ^ (j + s) \<le> 2 ^ 10" using j(1) assms(1) by (intro power_increasing) auto
  then have w32: "wrap32 (2 ^ j * 2 ^ s) = 2 ^ (j + s)" unfolding tot by simp
  have "(2 :: nat) ^ (j + s) < 2 ^ (a + b + c)"
  proof -
    have "(2 :: nat) ^ j \<le> 2 ^ 5" using j(1) by (intro power_increasing) auto
    then have "(2 :: nat) ^ j * 2 ^ s \<le> 2 ^ 5 * 2 ^ s" by (rule mult_le_mono1)
    moreover have "(2 :: nat) ^ 5 = 32" by simp
    ultimately have "(2 :: nat) ^ (j + s) \<le> 2 ^ s * 32" unfolding tot [symmetric] by (metis mult.commute)
    then show ?thesis using assms(5) j(2) unfolding tot by (meson le_less_trans)
  qed
  then have lt: "j + s < a + b + c" by (rule power_less_imp_less_exp [rotated]) simp
  have mx: "(2 :: nat) ^ (j + s) \<le> wsi_maxWorkGroupSize w" using j(2) unfolding tot .
  have sum_le: "(2 :: nat) ^ e \<le> wsi_maxWorkGroupSize w" if "e \<le> j + s" for e
    by (rule order_trans [OF power_increasing [OF that] mx]) simp
  show ?thesis
  proof (cases "dim = 2")
    case True
    show ?thesis
    proof (cases nx4)
      case n: True
      have q: "(2 :: nat) ^ (j + s) div 4 = 2 ^ (j + s - 2)"
        using assms(2) by (simp add: power_diff)
      have "computePowerOfTwoLWS [2 ^ a, 2 ^ b, 2 ^ c] w dim nx4 = Inr [2 ^ min (j + s - 2) a, 4, 1]"
        using True n j(3) w32 q assms(3) by (simp add: computePowerOfTwoLWS_def halveTo_pow2 Let_def)
      moreover have "min (j + s - 2) a + 2 \<le> j + s" using assms(2) by auto
      then have "(2 :: nat) ^ min (j + s - 2) a * 4 \<le> wsi_maxWorkGroupSize w"
        using sum_le [of "min (j + s - 2) a + 2"] by (simp add: power_add mult.commute)
      moreover have "4 dvd (2 :: nat) ^ b" using assms(6) n le_imp_power_dvd [of 2 b "2 :: nat"] by simp
      ultimately show ?thesis
        by (auto simp: le_imp_power_dvd)
    next
      case n: False
      let ?x = "min (j + s) a"
      have q: "(2 :: nat) ^ (j + s) div 2 ^ ?x = 2 ^ (j + s - ?x)" by (simp add: power_diff)
      have "computePowerOfTwoLWS [2 ^ a, 2 ^ b, 2 ^ c] w dim nx4 = Inr [2 ^ ?x, 2 ^ (j + s - ?x), 1]"
        using True n j(3) w32 q assms(3) by (simp add: computePowerOfTwoLWS_def halveTo_pow2 Let_def)
      moreover have "(2 :: nat) ^ ?x * 2 ^ (j + s - ?x) = 2 ^ (j + s)" by (simp flip: power_add)
      moreover have "j + s - ?x \<le> b" using lt True assms(7) by auto
      ultimately show ?thesis
        using mx by (auto simp: le_imp_power_dvd)
    qed
  next
    case False
    define x where "x = min (j + s) a"
    define y where "y = min (j + s - x) b"
    have hx: "halveTo (2 ^ (j + s)) (2 ^ a) = 2 ^ x" and hy: "halveTo (2 ^ (j + s - x)) (2 ^ b) = 2 ^ y"
      by (simp_all add: halveTo_pow2 x_def y_def)
    have le: "x \<le> j + s" "x \<le> a" "y \<le> b" "x + y \<le> j + s" "j + s - (x + y) \<le> c"
      using lt by (auto simp: x_def y_def)
    have q: "(2 :: nat) ^ (j + s) div 2 ^ x = 2 ^ (j + s - x)" using le(1) by (simp add: power_diff)
    have xy: "(2 :: nat) ^ x * 2 ^ y = 2 ^ (x + y)" by (simp add: power_add)
    have "(2 :: nat) ^ (x + y) \<le> 2 ^ 10" using le(4) j(1) assms(1) by (intro power_increasing) auto
    then have xyw: "wrap32 (2 ^ (x + y)) = 2 ^ (x + y)" by simp
    have q2: "(2 :: nat) ^ (j + s) div 2 ^ (x + y) = 2 ^ (j + s - (x + y))"
      using le(4) by (simp add: power_diff)
    have "computePowerOfTwoLWS [2 ^ a, 2 ^ b, 2 ^ c] w dim nx4 = Inr [2 ^ x, 2 ^ y, 2 ^ (j + s - (x + y))]"
      unfolding computePowerOfTwoLWS_def Let_def assms(3) j(3) rt_bind_simps w32
      by (simp add: False hx q hy xy xyw q2)
    moreover have "(2 :: nat) ^ x * 2 ^ y * 2 ^ (j + s - (x + y)) = 2 ^ (j + s)"
      using le(4) by (simp flip: power_add)
    ultimately show ?thesis using mx le by (auto simp: le_imp_power_dvd)
  qed
qed

section \<open>The searches keep valid sizes\<close>

definition pair_valid :: "nat \<Rightarrow> nat \<Rightarrow> nat \<Rightarrow> nat \<times> nat \<Rightarrow> bool" where
  "pair_valid a b m xy \<longleftrightarrow> 1 \<le> fst xy \<and> 1 \<le> snd xy \<and> fst xy dvd a \<and> snd xy dvd b \<and> fst xy * snd xy \<le> m"

lemma small_product: "x \<le> 1024 \<Longrightarrow> y \<le> 1024 \<Longrightarrow> x * y < (4294967296 :: nat)"
  using mult_le_mono [of x 1024 y 1024] by simp

lemma small_product3: "x \<le> 1024 \<Longrightarrow> y \<le> 1024 \<Longrightarrow> z \<le> 1024 \<Longrightarrow> x * y * z < (4294967296 :: nat)"
  using mult_le_mono [OF mult_le_mono [of x 1024 y 1024], of z 1024] by simp

lemma ratioY_valid:
  assumes "pair_valid a b (wsi_maxWorkGroupSize w) (fst st)" and "1 \<le> x" and "x \<le> 1024" and "x dvd a"
    and "\<forall>y \<in> set ys. 1 \<le> y \<and> y \<le> 1024 \<and> y dvd b"
  shows "pair_valid a b (wsi_maxWorkGroupSize w) (fst (ratioY F w items x ys st))"
  using assms
proof (induction F w items x ys st rule: ratioY.induct)
  case (2 F w items x y ys best localRatio localWkgs)
  have "wrap32 (x * y) = x * y" using 2 small_product by simp
  then show ?case
    using 2 by (auto simp: Let_def pair_valid_def)
qed simp

lemma fold_invariant: "P s \<Longrightarrow> (\<And>x s. x \<in> set xs \<Longrightarrow> P s \<Longrightarrow> P (f x s)) \<Longrightarrow> P (fold f xs s)"
  by (induction xs arbitrary: s) auto

lemma choose_ratio_valid:
  assumes "pair_valid a b (wsi_maxWorkGroupSize w) best"
    and "\<forall>x \<in> set xs. 1 \<le> x \<and> x \<le> 1024 \<and> x dvd a" and "\<forall>y \<in> set ys. 1 \<le> y \<and> y \<le> 1024 \<and> y dvd b"
  shows "pair_valid a b (wsi_maxWorkGroupSize w) (choosePreferredWorkGroupSizeWithRatio F w items xs ys best)"
  unfolding choosePreferredWorkGroupSizeWithRatio_def
  by (rule fold_invariant [where P = "\<lambda>st. pair_valid a b (wsi_maxWorkGroupSize w) (fst st)"])
    (use assms in \<open>auto intro!: ratioY_valid\<close>)

lemma plainY_valid:
  assumes "lws_valid [a, b, c] (wsi_maxWorkGroupSize w) (fst st)" and "1 \<le> x \<and> x \<le> 1024 \<and> x dvd a"
    and "1 \<le> z \<and> z \<le> 1024 \<and> z dvd c" and "\<forall>y \<in> set ys. 1 \<le> y \<and> y \<le> 1024 \<and> y dvd b"
  shows "lws_valid [a, b, c] (wsi_maxWorkGroupSize w) (fst (plainY w items z x ys st))"
  using assms
proof (induction w items z x ys st rule: plainY.induct)
  case (2 w items z x y ys best localEu)
  have "wrap32 (x * y * z) = x * y * z" using 2 small_product3 by simp
  then show ?case
    using 2 by (auto simp: Let_def)
qed simp

lemma choose_plain_valid:
  assumes "\<forall>x \<in> set xs. 1 \<le> x \<and> x \<le> 1024 \<and> x dvd a" and "\<forall>y \<in> set ys. 1 \<le> y \<and> y \<le> 1024 \<and> y dvd b"
    and "\<forall>z \<in> set zs. 1 \<le> z \<and> z \<le> 1024 \<and> z dvd c" and "1 \<le> wsi_maxWorkGroupSize w"
  shows "lws_valid [a, b, c] (wsi_maxWorkGroupSize w) (choosePreferredWorkGroupSizeWithOutRatio w items xs ys zs [1, 1, 1])"
  unfolding choosePreferredWorkGroupSizeWithOutRatio_def
  by (rule fold_invariant [where P = "\<lambda>st. lws_valid [a, b, c] (wsi_maxWorkGroupSize w) (fst st)"], use assms in simp)
    (rule fold_invariant [where P = "\<lambda>st. lws_valid [a, b, c] (wsi_maxWorkGroupSize w) (fst st)"],
      use assms in \<open>auto intro!: plainY_valid\<close>)

lemma waste2D_valid:
  assumes "pair_valid a b m (fst st)" and "1 \<le> x" and "x \<le> 1024" and "x dvd a"
    and "\<forall>y \<in> set ys. 1 \<le> y \<and> y \<le> 1024 \<and> y dvd b"
  shows "pair_valid a b m (fst (waste2D m simd items x ys st))"
  using assms
proof (induction m simd items x ys st rule: waste2D.induct)
  case (2 m simd items x y ys best localEu localWaste)
  have "wrap32 (x * y) = x * y" using 2 small_product by simp
  then show ?case
    using 2 by (auto simp: Let_def pair_valid_def)
qed simp

lemma length_divisors: "length (filter P [2..<Suc m]) \<le> m - 1"
  using length_filter_le [of P "[2..<Suc m]"] by (simp del: upt_Suc)

lemma compute2D_ok:
  assumes "1 \<le> m" and "m \<le> 1024"
  shows "\<exists>x y. computeWorkgroupSize2D m [a, b, c] simd = Inr [x, y, 1] \<and> pair_valid a b m (x, y)"
proof -
  let ?xs = "divisorsUpTo a m" and ?ys = "divisorsUpTo b m"
  let ?r = "fold (\<lambda>x st. waste2D m simd [a, b, c] x ?ys st) (rev ?xs) ((1, 1), 0xffffffff, 0xffffffff)"
  have d: "\<forall>x \<in> set (divisorsUpTo n m). 1 \<le> x \<and> x \<le> 1024 \<and> x dvd n" for n
    using assms(2) by (auto simp: divisorsUpTo_def)
  have one: "pair_valid a b m (1, 1)" using assms(1) by (simp add: pair_valid_def)
  have "pair_valid a b m (fst ?r)"
    by (rule fold_invariant [where P = "\<lambda>st. pair_valid a b m (fst st)"])
      (use one d in \<open>auto intro!: waste2D_valid\<close>)
  moreover have "length (divisorsUpTo n m) \<le> 1024" for n
    using length_divisors [of _ m] assms(2) unfolding divisorsUpTo_def by (meson diff_le_self le_trans)
  ultimately show ?thesis
    by (auto simp: computeWorkgroupSize2D_def Let_def not_less)
qed

lemma balance_pow2:
  assumes "i + j < 64" and "1 \<le> m"
  shows "\<exists>i' j'. balance m (2 ^ i) (2 ^ j) = (2 ^ i', 2 ^ j') \<and> i' \<le> i \<and> j' \<le> j \<and> 2 ^ i' * 2 ^ j' \<le> m"
  using assms
proof (induction "i + j" arbitrary: i j)
  case 0
  then show ?case by (intro exI [of _ 0]) (simp add: balance.simps [of m "Suc 0" "Suc 0"])
next
  case (Suc n)
  have "(2 :: nat) ^ (i + j) < 2 ^ 64" using Suc.prems by (intro power_strict_increasing) auto
  then have w: "wrap64 (2 ^ i * 2 ^ j) = 2 ^ i * 2 ^ j" by (simp add: power_add)
  show ?case
  proof (cases "2 ^ i * 2 ^ j > m")
    case False
    then show ?thesis using w by (subst balance.simps) auto
  next
    case True
    show ?thesis
    proof (cases "j < i")
      case lt: True
      then obtain i0 where i0: "i = Suc i0" by (cases i) auto
      have "(2 :: nat) ^ j < 2 ^ i" using lt by (intro power_strict_increasing) auto
      then have "balance m (2 ^ i) (2 ^ j) = balance m (2 ^ i0) (2 ^ j)"
        using True w i0 by (subst balance.simps) (simp del: power_Suc add: power_Suc2)
      then show ?thesis
        using Suc.hyps(1) [of i0 j] Suc.hyps(2) Suc.prems i0 by (auto intro: le_SucI)
    next
      case False
      then obtain j0 where j0: "j = Suc j0" using Suc.hyps(2) by (cases j) auto
      have "\<not> (2 :: nat) ^ j < 2 ^ i" using False by (simp add: power_increasing not_less)
      then have "balance m (2 ^ i) (2 ^ j) = balance m (2 ^ i) (2 ^ j0)"
        using True w j0 by (subst balance.simps) (simp del: power_Suc add: power_Suc2)
      then show ?thesis
        using Suc.hyps(1) [of i j0] Suc.hyps(2) Suc.prems j0 by (auto intro: le_SucI)
    qed
  qed
qed

lemma upt3: "[0..<3] = [0, 1, 2 :: nat]"
  by (simp add: upt_rec)

lemma squared_ok:
  assumes "m = 2 ^ k" and "k \<le> 10" and "1 \<le> a" and "1 \<le> b" and "a * b < 18446744073709551616"
  shows "\<exists>r. computeWorkgroupSizeSquared m [a, b, 1] simd 2 = Inr r \<and> lws_valid [a, b, 1] m r"
proof -
  obtain p where p: "p \<le> k" "pow2Divisor a m = 2 ^ p" "2 ^ p dvd a"
    using pow2Divisor_pow2 [of k a] assms(1,2) by auto
  obtain q where q: "q \<le> k" "pow2Divisor b m = 2 ^ q" "2 ^ q dvd b"
    using pow2Divisor_pow2 [of k b] assms(1,2) by auto
  have m: "1 \<le> m" "m \<le> 1024" using assms(1,2) power_increasing [of k 10 "2 :: nat"] by auto
  obtain i j where ij: "balance m (2 ^ p) (2 ^ q) = (2 ^ i, 2 ^ j)" "i \<le> p" "j \<le> q" "2 ^ i * 2 ^ j \<le> m"
    using balance_pow2 [of p q m] p(1) q(1) assms(2) m by auto
  have ijd: "2 ^ i dvd a" "2 ^ j dvd b" using ij p q by (meson dvd_trans le_imp_power_dvd)+
  obtain x y where xy: "computeWorkgroupSize2D m [a, b, 1] simd = Inr [x, y, 1]" "pair_valid a b m (x, y)"
    using compute2D_ok [OF m] by blast
  have sq: "computeWorkgroupSizeSquared m [a, b, 1] simd 2 =
    (if wrap64 (2 ^ p * 2 ^ q) \<ge> m then Inr [2 ^ i, 2 ^ j, 1]
     else if a * b > m then Inr [x, y, 1] else Inr [a, b, 1])"
    using p q ij xy assms(5) by (simp add: computeWorkgroupSizeSquared_def pow2Divisors_def upt3 Let_def)
  show ?thesis
    unfolding sq using ij(4) ijd xy(2) assms(3,4) by (auto simp: pair_valid_def not_less)
qed

lemma dimFactors_ok:
  assumes "m \<le> 1024" and "y \<in> set (dimFactors items dim m i)"
  shows "1 \<le> y \<and> y \<le> 1024 \<and> y dvd items ! i"
  using assms by (auto simp: dimFactors_def split: if_splits)

lemma length_dimFactors: "m \<le> 1024 \<Longrightarrow> length (dimFactors items dim m i) \<le> 1024"
  using length_filter_le [of "\<lambda>j. items ! i mod j = 0" "[2..<m]"] by (auto simp: dimFactors_def)

section \<open>Properties\<close>

lemma search_ok:
  assumes "wsi_maxWorkGroupSize w = m" and "1 \<le> m" and "m \<le> 1024"
    and "f = dimFactors [a, b, c] dim m" and "wsi_maxWorkGroupSize w' = m"
  shows "pair_valid a b m (choosePreferredWorkGroupSizeWithRatio F w items (f 0) (f 1) (1, 1))"
    and "pair_valid a b m best \<Longrightarrow> pair_valid a b m (choosePreferredWorkGroupSizeWithRatio F w' items (f 0) (f 1) best)"
    and "lws_valid [a, b, c] m (choosePreferredWorkGroupSizeWithOutRatio w items (f 0) (f 1) (f 2) [1, 1, 1])"
proof -
  have f: "\<forall>x \<in> set (f 0). 1 \<le> x \<and> x \<le> 1024 \<and> x dvd a" "\<forall>x \<in> set (f 1). 1 \<le> x \<and> x \<le> 1024 \<and> x dvd b"
    "\<forall>x \<in> set (f 2). 1 \<le> x \<and> x \<le> 1024 \<and> x dvd c"
    using dimFactors_ok [OF assms(3), of _ "[a, b, c]" dim 0] dimFactors_ok [OF assms(3), of _ "[a, b, c]" dim 1]
      dimFactors_ok [OF assms(3), of _ "[a, b, c]" dim 2] assms(4) by auto
  show "pair_valid a b m (choosePreferredWorkGroupSizeWithRatio F w items (f 0) (f 1) (1, 1))"
    using choose_ratio_valid [of a b w "(1, 1)", OF _ f(1,2)] assms(1,2) by (simp add: pair_valid_def)
  show "pair_valid a b m best \<Longrightarrow> pair_valid a b m (choosePreferredWorkGroupSizeWithRatio F w' items (f 0) (f 1) best)"
    using choose_ratio_valid [of a b w' best, OF _ f(1,2)] assms(5) by simp
  show "lws_valid [a, b, c] m (choosePreferredWorkGroupSizeWithOutRatio w items (f 0) (f 1) (f 2) [1, 1, 1])"
    using choose_plain_valid [OF f, of w] assms(1,2) by simp
qed

lemma checkRatio_max [simp]: "wsi_maxWorkGroupSize (checkRatio F items w) = wsi_maxWorkGroupSize w"
  by (simp add: checkRatio_def)

lemma pair_to_lws: "pair_valid a b m xy \<Longrightarrow> lws_valid [a, b, c] m [fst xy, snd xy, 1]"
  by (auto simp: pair_valid_def)

definition unused_dims_one :: "nat \<Rightarrow> nat \<Rightarrow> nat \<Rightarrow> bool" where
  "unused_dims_one dim b c \<longleftrightarrow> (dim = 1 \<and> b = 1 \<and> c = 1) \<or> (dim = 2 \<and> c = 1) \<or> dim = 3"

lemma ND_eq:
  assumes "wsi_maxWorkGroupSize w = M" and "wsi_simdSize w = S" and "S \<noteq> 0"
    and "wrap32 (S * (optimalHardwareThreadCountGeneric ! 0)) = Q"
    and "pow2Divisors items dim Q = [D0, D1, D2]" and "wrap64 (wrap64 (D0 * D1) * D2) = A"
    and "nx4 \<longleftrightarrow> wsi_imgUsed w \<and> (4 \<le> D0 \<or> 2 \<le> D0 \<and> S = 8) \<and> 4 \<le> D1"
  shows "computeWorkgroupSizeND sq F w items dim =
    (if wsi_slmTotalSize w = 0 \<and> \<not> wsi_hasBarriers w then
       if sq \<and> dim = 2 \<and> \<not> wsi_imgUsed w then Some (computeWorkgroupSizeSquared M items S dim)
       else if S < A \<and> (M < A \<or> Q < A) then Some (computePowerOfTwoLWS [D0, D1, D2] w dim nx4)
       else if S \<le> A
       then Some (Inr (map (\<lambda>i. if i < dim then (if i = 1 \<and> nx4 then 4 else [D0, D1, D2] ! i) else 1) [0..<3]))
       else computeGeneralND F w items dim
     else computeGeneralND F w items dim)"
  unfolding computeWorkgroupSizeND_def Let_def assms(1,2,4,5) using assms(3,6,7) by auto

lemma lws_valid_dvd:
  "lws_valid [d, e, f] m lws \<Longrightarrow> d dvd a \<Longrightarrow> e dvd b \<Longrightarrow> f dvd c \<Longrightarrow> lws_valid [a, b, c] m lws"
  by (auto simp: lws_valid_def numeral_3_eq_3 All_less_Suc intro: dvd_trans)

lemma general_ok:
  assumes "wsi_maxWorkGroupSize w = 2 ^ k" and "k \<le> 10" and "1 \<le> a" and "1 \<le> b" and "1 \<le> c"
    and "a * b * c < 18446744073709551616" and "unused_dims_one dim b c"
  shows "\<exists>lws. computeGeneralND F w [a, b, c] dim = Some (Inr lws) \<and> lws_valid [a, b, c] (2 ^ k) lws"
proof -
  have m: "1 \<le> (2 :: nat) ^ k" "(2 :: nat) ^ k \<le> 1024" using power_increasing [OF assms(2), of "2 :: nat"] by auto
  have "a * b * 1 \<le> a * b * c" using assms(5) by (intro mult_le_mono) auto
  then have "a * b < 18446744073709551616" using assms(6) by linarith
  then have tot: "wrap64 (wrap64 (a * b) * c) = a * b * c" using assms(6) by simp
  show ?thesis
  proof (cases "a * b * c \<le> 2 ^ k")
    case True
    then show ?thesis
      using assms tot by (auto simp: computeGeneralND_def Let_def upt3 unused_dims_one_def)
  next
    case big: False
    show ?thesis
    proof (cases "dim = 1")
      case True
      then obtain r where "computeWorkgroupSize1D (2 ^ k) [a, b, c] = Some [r, 1, 1]" "1 \<le> r" "r \<le> 2 ^ k" "r dvd a"
        using compute1D_ok [OF assms(3) refl m(2)] by blast
      then show ?thesis
        using True big tot assms by (auto simp: computeGeneralND_def Let_def)
    next
      case False
      let ?w = "checkRatio F [a, b, c] w" and ?f = "dimFactors [a, b, c] dim (2 ^ k)"
      have len: "length (?f i) \<le> 1024" for i using length_dimFactors [OF m(2)] by blast
      note s1 = search_ok(1) [where w = ?w and w' = "?w\<lparr>wsi_useStrictRatio := False\<rparr>" and f = ?f and m = "2 ^ k"
          and a = a and b = b and c = c and dim = dim and F = F and items = "[a, b, c]", OF _ m refl]
      note s2 = search_ok(2) [where w = ?w and w' = "?w\<lparr>wsi_useStrictRatio := False\<rparr>" and f = ?f and m = "2 ^ k"
          and a = a and b = b and c = c and dim = dim and F = F and items = "[a, b, c]", OF _ m refl]
      note s3 = search_ok(3) [where w = ?w and w' = ?w and f = ?f and m = "2 ^ k"
          and a = a and b = b and c = c and dim = dim and items = "[a, b, c]", OF _ m refl]
      show ?thesis
        using False big tot assms(1) len pair_to_lws [OF s1] pair_to_lws [OF s2 [OF _ _ s1]] s3
        by (simp add: computeGeneralND_def Let_def not_less del: lws_valid3)
    qed
  qed
qed

text \<open>The divisors the driver starts from are powers of two; over them the choice of strategy is this.\<close>

lemma ND_form:
  assumes "wsi_maxWorkGroupSize w = 2 ^ k" and "wsi_simdSize w = 2 ^ s" and "s \<le> 5" and dims: "unused_dims_one dim b c"
  obtains p q r nx4 where "2 ^ p dvd a" "2 ^ q dvd b" "2 ^ r dvd c" "dim = 1 \<longrightarrow> q = 0" "dim < 3 \<longrightarrow> r = 0" "nx4 \<longrightarrow> 2 \<le> q"
    "computeWorkgroupSizeND sq F w [a, b, c] dim =
    (if wsi_slmTotalSize w = 0 \<and> \<not> wsi_hasBarriers w then
       if sq \<and> dim = 2 \<and> \<not> wsi_imgUsed w then Some (computeWorkgroupSizeSquared (2 ^ k) [a, b, c] (2 ^ s) dim)
       else if (2 :: nat) ^ s < 2 ^ (p + q + r) \<and> ((2 :: nat) ^ k < 2 ^ (p + q + r) \<or> (2 :: nat) ^ (s + 5) < 2 ^ (p + q + r))
       then Some (computePowerOfTwoLWS [2 ^ p, 2 ^ q, 2 ^ r] w dim nx4)
       else if (2 :: nat) ^ s \<le> 2 ^ (p + q + r)
       then Some (Inr (map (\<lambda>i. if i < dim then (if i = 1 \<and> nx4 then 4 else [2 ^ p, 2 ^ q, 2 ^ r] ! i) else 1) [0..<3]))
       else computeGeneralND F w [a, b, c] dim
     else computeGeneralND F w [a, b, c] dim)"
proof -
  have "(2 :: nat) ^ s * 32 = 2 ^ (s + 5)" by (simp add: power_add)
  moreover have "(2 :: nat) ^ (s + 5) \<le> 2 ^ 10" using assms(3) by (intro power_increasing) auto
  ultimately have opt: "wrap32 (wsi_simdSize w * (optimalHardwareThreadCountGeneric ! 0)) = 2 ^ (s + 5)"
    unfolding assms(2) by (simp add: optimalHardwareThreadCountGeneric_def)
  have s5: "s + 5 < 32" using assms(3) by simp
  obtain p where p: "p \<le> s + 5" "pow2Divisor a (2 ^ (s + 5)) = 2 ^ p" "2 ^ p dvd a"
    using pow2Divisor_pow2 [OF s5, of a] by blast
  obtain q where q: "q \<le> s + 5" "2 ^ q dvd b" "(if 1 < dim then pow2Divisor b (2 ^ (s + 5)) else 1) = 2 ^ q" "dim = 1 \<longrightarrow> q = 0"
    using pow2Divisor_pow2 [OF s5, of b] dims
    by (cases "1 < dim") (force simp: unused_dims_one_def)+
  obtain r where r: "r \<le> s + 5" "2 ^ r dvd c" "(if 2 < dim then pow2Divisor c (2 ^ (s + 5)) else 1) = 2 ^ r" "dim < 3 \<longrightarrow> r = 0"
    using pow2Divisor_pow2 [OF s5, of c] dims
    by (cases "2 < dim") (force simp: unused_dims_one_def)+
  have d: "pow2Divisors [a, b, c] dim (2 ^ (s + 5)) = [2 ^ p, 2 ^ q, 2 ^ r]"
    using p q r dims by (auto simp: pow2Divisors_def upt3 unused_dims_one_def)
  have prod: "(2 :: nat) ^ p * 2 ^ q * 2 ^ r = 2 ^ (p + q + r)" by (simp add: power_add)
  have "(2 :: nat) ^ (p + q) \<le> 2 ^ 30" "(2 :: nat) ^ (p + q + r) \<le> 2 ^ 30"
    using p(1) q(1) r(1) assms(3) by (intro power_increasing; simp)+
  then have all: "wrap64 (wrap64 (2 ^ p * 2 ^ q) * 2 ^ r) = 2 ^ (p + q + r)"
    unfolding prod [symmetric] power_add [of 2 p q] by simp
  define nx4 where "nx4 \<longleftrightarrow> wsi_imgUsed w \<and> ((4 :: nat) \<le> 2 ^ p \<or> (2 :: nat) \<le> 2 ^ p \<and> (2 :: nat) ^ s = 8) \<and> (4 :: nat) \<le> 2 ^ q"
  have "2 \<le> q" if nx4
    using that power_strict_increasing_iff [of "2 :: nat" 1 q] by (simp add: nx4_def)
  then show ?thesis
    by (intro that [OF p(3) q(2) r(2) q(4) r(4) _ ND_eq [OF assms(1,2) _ opt [unfolded assms(2)] d all nx4_def]]) simp_all
qed

lemma divisors_fit:
  assumes "(2 :: nat) ^ (p + q + r) \<le> m" "nx4 \<longrightarrow> 2 \<le> q" "unused_dims_one dim b c" "dim = 1 \<longrightarrow> q = 0" "dim < 3 \<longrightarrow> r = 0"
  shows "lws_valid [2 ^ p, 2 ^ q, 2 ^ r] m
    (map (\<lambda>i. if i < dim then (if i = 1 \<and> nx4 then 4 else [2 ^ p, 2 ^ q, 2 ^ r] ! i) else 1) [0..<3])"
proof -
  have four: "4 dvd (2 :: nat) ^ q" if nx4 using assms(2) that le_imp_power_dvd [of 2 q "2 :: nat"] by simp
  have prod: "(2 :: nat) ^ p * 2 ^ q * 2 ^ r \<le> m" using assms(1) by (simp add: power_add)
  have "(2 :: nat) ^ p * 4 * 2 ^ r \<le> m" if nx4
  proof (rule le_trans [OF _ prod])
    show "(2 :: nat) ^ p * 4 * 2 ^ r \<le> 2 ^ p * 2 ^ q * 2 ^ r"
      using dvd_imp_le [OF four [OF that]] by (intro mult_le_mono) auto
  qed
  then have "lws_valid [2 ^ p, 2 ^ q, 2 ^ r] m [2 ^ p, if nx4 then 4 else 2 ^ q, 2 ^ r]"
    using prod four by auto
  moreover have "map (\<lambda>i. if i < dim then (if i = 1 \<and> nx4 then 4 else [2 ^ p, 2 ^ q, 2 ^ r] ! i) else 1) [0..<3] =
      [2 ^ p, if nx4 then 4 else 2 ^ q, (2 :: nat) ^ r]"
    using assms(2-5) by (auto simp: upt3 unused_dims_one_def)
  ultimately show ?thesis by simp
qed

lemma chosen_size_valid:
  assumes "wsi_maxWorkGroupSize w = 2 ^ k" and "k \<le> 10" and "wsi_simdSize w = 2 ^ s" and "3 \<le> s" and "s \<le> 5" and "s \<le> k"
    and "1 \<le> a" and "1 \<le> b" and "1 \<le> c" and "a * b * c < 18446744073709551616" and "unused_dims_one dim b c"
  shows "\<exists>lws. computeWorkgroupSizeND sq F w [a, b, c] dim = Some (Inr lws) \<and> lws_valid [a, b, c] (2 ^ k) lws"
proof -
  obtain p q r nx4 where dv: "2 ^ p dvd a" "2 ^ q dvd b" "2 ^ r dvd c" and z: "dim = 1 \<longrightarrow> q = 0" "dim < 3 \<longrightarrow> r = 0" "nx4 \<longrightarrow> 2 \<le> q"
    and nd: "computeWorkgroupSizeND sq F w [a, b, c] dim =
    (if wsi_slmTotalSize w = 0 \<and> \<not> wsi_hasBarriers w then
       if sq \<and> dim = 2 \<and> \<not> wsi_imgUsed w then Some (computeWorkgroupSizeSquared (2 ^ k) [a, b, c] (2 ^ s) dim)
       else if (2 :: nat) ^ s < 2 ^ (p + q + r) \<and> ((2 :: nat) ^ k < 2 ^ (p + q + r) \<or> (2 :: nat) ^ (s + 5) < 2 ^ (p + q + r))
       then Some (computePowerOfTwoLWS [2 ^ p, 2 ^ q, 2 ^ r] w dim nx4)
       else if (2 :: nat) ^ s \<le> 2 ^ (p + q + r)
       then Some (Inr (map (\<lambda>i. if i < dim then (if i = 1 \<and> nx4 then 4 else [2 ^ p, 2 ^ q, 2 ^ r] ! i) else 1) [0..<3]))
       else computeGeneralND F w [a, b, c] dim
     else computeGeneralND F w [a, b, c] dim)"
    by (rule ND_form [OF assms(1,3,5,11)])
  have sk: "(2 :: nat) ^ s \<le> 2 ^ k" using assms(6) by (intro power_increasing) auto
  have squared: "\<exists>l. computeWorkgroupSizeSquared (2 ^ k) [a, b, c] (2 ^ s) dim = Inr l \<and> lws_valid [a, b, c] (2 ^ k) l" if "dim = 2"
    using squared_ok [OF refl assms(2,7,8), of "2 ^ s"] assms(10,11) that by (auto simp: unused_dims_one_def)
  have down: "\<exists>l. computePowerOfTwoLWS [2 ^ p, 2 ^ q, 2 ^ r] w dim nx4 = Inr l \<and> lws_valid [a, b, c] (2 ^ k) l"
    if "(2 :: nat) ^ s < 2 ^ (p + q + r)" "(2 :: nat) ^ k < 2 ^ (p + q + r) \<or> (2 :: nat) ^ (s + 5) < 2 ^ (p + q + r)"
  proof -
    have "(2 :: nat) ^ s * 32 = 2 ^ (s + 5)" by (simp add: power_add)
    then have "\<exists>l. computePowerOfTwoLWS [2 ^ p, 2 ^ q, 2 ^ r] w dim nx4 = Inr l \<and>
        lws_valid [2 ^ p, 2 ^ q, 2 ^ r] (wsi_maxWorkGroupSize w) l"
      using that sk z assms(1) by (intro power_of_two_LWS_ok [OF assms(5,4,3)]) auto
    then show ?thesis using lws_valid_dvd [OF _ dv] assms(1) by auto
  qed
  have fits: "lws_valid [a, b, c] (2 ^ k)
      (map (\<lambda>i. if i < dim then (if i = 1 \<and> nx4 then 4 else [2 ^ p, 2 ^ q, 2 ^ r] ! i) else 1) [0..<3])" if "(2 :: nat) ^ (p + q + r) \<le> 2 ^ k"
    using divisors_fit [OF that z(3) assms(11) z(1,2)] by (rule lws_valid_dvd [OF _ dv])
  have "(2 :: nat) ^ (p + q + r) \<le> 2 ^ k"
    if "\<not> ((2 :: nat) ^ s < 2 ^ (p + q + r) \<and> ((2 :: nat) ^ k < 2 ^ (p + q + r) \<or> (2 :: nat) ^ (s + 5) < 2 ^ (p + q + r)))"
    using that sk by linarith
  then show ?thesis
    using general_ok [OF assms(1,2,7-11), of F] squared down fits unfolding nd by (simp split: if_split)
qed

text \<open>Claim C9. For every dispatch of one to three dimensions whose total number of work items fits 64
  bits, on a device with a power of two work group limit of at most 1024 that is not below the
  SIMD width, the local work size the driver chooses exists, is at least one and divides the global
  size in each dimension, and never exceeds the limit; whatever the image, barrier, shared memory,
  ratio and debug settings are and however floating point behaves.\<close>

theorem computeWorkgroupSizeND_valid:
  assumes "wsi_maxWorkGroupSize w = 2 ^ k" and "k \<le> 10" and "wsi_simdSize w = 2 ^ s" and "3 \<le> s" and "s \<le> 5" and "s \<le> k"
    and "1 \<le> a" and "1 \<le> b" and "1 \<le> c" and "a * b * c < 18446744073709551616" and "unused_dims_one dim b c"
  shows "\<exists>lws. computeWorkgroupSizeND sq F w [a, b, c] dim = Some (Inr lws) \<and> lws_valid [a, b, c] (2 ^ k) lws"
  using assms by (rule chosen_size_valid)

theorem computeWorkgroupSizeND_valid_witness:
  "\<exists>lws. computeWorkgroupSizeND True
     \<lparr>f_log = (\<lambda>n. n), f_sub = (-), f_fabs = (\<lambda>n. n), f_less = (<), f_of_uint = (\<lambda>n. n), f_YTilingRatioValue = 1\<rparr>
     \<lparr>wsi_maxWorkGroupSize = 2 ^ 8, wsi_minWorkGroupSize = 0, wsi_hasBarriers = False, wsi_simdSize = 2 ^ 4,
      wsi_slmTotalSize = 64, wsi_gen9OrLater = True, wsi_numThreadsPerSubSlice = 56, wsi_localMemSize = 65536,
      wsi_imgUsed = True, wsi_yTiledSurfaces = False, wsi_useRatio = False, wsi_useStrictRatio = False,
      wsi_targetRatio = (0 :: nat)\<rparr> [1000, 30, 1] 2 = Some (Inr lws) \<and> lws_valid [1000, 30, 1] (2 ^ 8) lws"
  by (rule computeWorkgroupSizeND_valid [where s = 4]) (simp_all add: unused_dims_one_def)

text \<open>The number of work groups covers the global size exactly: for a local size with no
  zero dimension the division does not fault, each dimension's groups times the local size reach
  the global size, and one group less would not.\<close>

theorem workgroups_cover:
  assumes "length gws = 3" and "length lws = 3" and "\<forall>l \<in> set lws. 0 < l"
  shows "\<exists>n. generateWorkgroupsNumber gws lws = Inr n \<and> length n = 3 \<and>
           (\<forall>i < 3. gws ! i \<le> n ! i * lws ! i \<and> (gws ! i = 0 \<or> (n ! i - 1) * lws ! i < gws ! i))"
proof -
  let ?g = "\<lambda>(g :: nat, l). g div l + (if g mod l \<noteq> 0 then 1 else 0)"
  have pos: "lws ! i > 0" if "i < 3" for i using assms(2,3) that by (metis nth_mem)
  have zip: "map ?g (zip gws lws) ! i = ?g (gws ! i, lws ! i)" if "i < 3" for i
    using assms that by simp
  have one: "g \<le> ?g (g, l) * l \<and> (g = 0 \<or> (?g (g, l) - 1) * l < g)" if "l > 0" for g l :: nat
  proof (cases "g mod l = 0")
    case True
    then have g: "g = g div l * l" by (metis add.right_neutral div_mult_mod_eq)
    have "g = 0 \<or> (g div l - 1) * l < g"
      using g that by (cases "g div l") auto
    then show ?thesis using True g by simp
  next
    case False
    have "g < (g div l + 1) * l" using that by (simp add: dividend_less_div_times)
    moreover have "g div l * l + g mod l = g" by simp
    then have "g div l * l < g" using False by (metis less_add_same_cancel1 not_gr_zero)
    ultimately show ?thesis using False by simp
  qed
  have "0 \<notin> set lws" using assms(3) by auto
  then show ?thesis
    using pos zip one assms by (auto simp: generateWorkgroupsNumber_def computeWorkgroupsNumber_def simp del: nth_map)
qed

theorem workgroups_cover_witness:
  "\<exists>n. generateWorkgroupsNumber [1000, 30, 1] [256, 1, 1] = Inr n \<and> length n = 3"
  using workgroups_cover [of "[1000, 30, 1]" "[256, 1, 1]"] by auto

text \<open>The product of the three dimensions is computed in 64 bits: a dispatch of 2 to the 32 by
  2 to the 32 work items, of a kernel with barriers, wraps to zero items and is given its whole
  global size as one work group, far above the device limit.\<close>

theorem total_items_wraps:
  "wsi_hasBarriers w \<Longrightarrow> wsi_simdSize w = 16 \<Longrightarrow>
   computeWorkgroupSizeND sq F w [4294967296, 4294967296, 1] 2 = Some (Inr [4294967296, 4294967296, 1])"
  by (simp add: computeWorkgroupSizeND_def computeGeneralND_def upt3 Let_def)

theorem total_items_wraps_witness:
  "computeWorkgroupSizeND False
     \<lparr>f_log = (\<lambda>n. n), f_sub = (-), f_fabs = (\<lambda>n. n), f_less = (<), f_of_uint = (\<lambda>n. n), f_YTilingRatioValue = 1\<rparr>
     \<lparr>wsi_maxWorkGroupSize = 256, wsi_minWorkGroupSize = 0, wsi_hasBarriers = True, wsi_simdSize = 16,
      wsi_slmTotalSize = 0, wsi_gen9OrLater = True, wsi_numThreadsPerSubSlice = 56, wsi_localMemSize = 65536,
      wsi_imgUsed = False, wsi_yTiledSurfaces = False, wsi_useRatio = False, wsi_useStrictRatio = False,
      wsi_targetRatio = (0 :: nat)\<rparr> [4294967296, 4294967296, 1] 2 = Some (Inr [4294967296, 4294967296, 1])"
  by (rule total_items_wraps) simp_all

end
