(* ===== verification/Command_Stream.thy ===== *)
theory Command_Stream
  imports Aligned_Memory
begin

text \<open>
  Building and batching command buffers: the linear stream that hands out space in a command
  buffer (\<^verbatim>\<open>command_stream/linear_stream.h\<close>, \<^verbatim>\<open>.cpp\<close>) and the submission aggregator that decides which
  recorded command buffers are submitted together (\<^verbatim>\<open>command_stream/submissions_aggregator.cpp\<close>).
  Graphics allocations are pointers; the two fields of an allocation the aggregator uses, its size
  and its inspection id for the OS context, are functions of the pointer.
\<close>

section \<open>Linear stream\<close>

record LinearStream =
  ls_sizeUsed :: u64
  ls_maxAvailableSpace :: u64
  ls_buffer :: u64
  ls_graphicsAllocation :: u64

definition LinearStream_ctor :: "u64 \<Rightarrow> u64 \<Rightarrow> LinearStream" where
  "LinearStream_ctor buffer bufferSize =
     \<lparr>ls_sizeUsed = 0, ls_maxAvailableSpace = bufferSize, ls_buffer = buffer, ls_graphicsAllocation = 0\<rparr>"

text \<open>The allocation argument comes with its size and its CPU address.\<close>

definition LinearStream_ctor_alloc :: "u64 \<Rightarrow> u64 \<Rightarrow> u64 \<Rightarrow> LinearStream" where
  "LinearStream_ctor_alloc gfxAllocation underlyingSize underlyingBuffer =
     (if gfxAllocation \<noteq> 0
      then \<lparr>ls_sizeUsed = 0, ls_maxAvailableSpace = underlyingSize, ls_buffer = underlyingBuffer,
            ls_graphicsAllocation = gfxAllocation\<rparr>
      else \<lparr>ls_sizeUsed = 0, ls_maxAvailableSpace = 0, ls_buffer = 0, ls_graphicsAllocation = gfxAllocation\<rparr>)"

definition getSpace :: "u64 \<Rightarrow> LinearStream \<Rightarrow> (u64 \<times> LinearStream) rt_result" where
  "getSpace sz ls =
     unrecoverable_if (ls_sizeUsed ls + sz > ls_maxAvailableSpace ls)
       (Inr (ptrOffset (ls_buffer ls) (ls_sizeUsed ls), ls\<lparr>ls_sizeUsed := ls_sizeUsed ls + sz\<rparr>))"

definition getAvailableSpace :: "LinearStream \<Rightarrow> u64" where
  "getAvailableSpace ls = ls_maxAvailableSpace ls - ls_sizeUsed ls"

definition getUsed :: "LinearStream \<Rightarrow> u64" where
  "getUsed ls = ls_sizeUsed ls"

definition overrideMaxSize :: "u64 \<Rightarrow> LinearStream \<Rightarrow> LinearStream" where
  "overrideMaxSize newMaxSize ls = ls\<lparr>ls_maxAvailableSpace := newMaxSize\<rparr>"

definition replaceBuffer :: "u64 \<Rightarrow> u64 \<Rightarrow> LinearStream \<Rightarrow> LinearStream" where
  "replaceBuffer buffer bufferSize ls =
     ls\<lparr>ls_buffer := buffer, ls_maxAvailableSpace := bufferSize, ls_sizeUsed := 0\<rparr>"

definition replaceGraphicsAllocation :: "u64 \<Rightarrow> LinearStream \<Rightarrow> LinearStream" where
  "replaceGraphicsAllocation gfxAllocation ls = ls\<lparr>ls_graphicsAllocation := gfxAllocation\<rparr>"

text \<open>A run of requests: the pointers handed out with their sizes, stopping at the first refusal.\<close>

fun getSpaces :: "u64 list \<Rightarrow> LinearStream \<Rightarrow> ((u64 \<times> u64) list \<times> LinearStream) rt_result" where
  "getSpaces [] ls = Inr ([], ls)"
| "getSpaces (n # ns) ls =
     rt_bind (getSpace n ls) (\<lambda>(p, ls). rt_bind (getSpaces ns ls) (\<lambda>(ps, ls). Inr ((p, n) # ps, ls)))"

section \<open>Submission aggregator\<close>

datatype QueueThrottle = THROTTLE_LOW | THROTTLE_MEDIUM | THROTTLE_HIGH

record BatchBuffer =
  bb_commandBufferAllocation :: u64
  bb_startOffset :: u64
  bb_requiresCoherency :: bool
  bb_low_priority :: bool
  bb_throttle :: QueueThrottle
  bb_usedSize :: u64

record CommandBuffer =
  cb_surfaces :: "u64 list"
  cb_batchBuffer :: BatchBuffer
  cb_inspectionId :: u32
  cb_taskCount :: u32

record SubmissionAggregator =
  sa_cmdBuffers :: "CommandBuffer list"
  sa_inspectionId :: u32

type_synonym inspection = "u64 \<Rightarrow> u32"

definition recordCommandBuffer :: "CommandBuffer \<Rightarrow> SubmissionAggregator \<Rightarrow> SubmissionAggregator" where
  "recordCommandBuffer cb sa = sa\<lparr>sa_cmdBuffers := sa_cmdBuffers sa @ [cb]\<rparr>"

text \<open>Inspecting one allocation: if its inspection id is old it is marked, added and counted.\<close>

definition inspect :: "(u64 \<Rightarrow> nat) \<Rightarrow> u32 \<Rightarrow> u64 \<Rightarrow> inspection \<times> u64 list \<times> nat \<Rightarrow> inspection \<times> u64 list \<times> nat" where
  "inspect sizeOf cur a = (\<lambda>(ins, package, used).
     if ins a < cur then (ins(a := cur), package @ [a], wrap64 (used + sizeOf a)) else (ins, package, used))"

definition inspectNext ::
  "(u64 \<Rightarrow> nat) \<Rightarrow> u32 \<Rightarrow> u64 \<Rightarrow> CommandBuffer \<Rightarrow> inspection \<Rightarrow> inspection \<times> u64 list \<times> nat" where
  "inspectNext sizeOf cur primary cb ins =
     (let s = fold (\<lambda>a s. if a = primary then s else inspect sizeOf cur a s) (cb_surfaces cb) (ins, [], 0);
          c = bb_commandBufferAllocation (cb_batchBuffer cb)
      in if c \<noteq> 0 \<and> c \<noteq> primary then inspect sizeOf cur c s else s)"

fun mergeLoop ::
  "(u64 \<Rightarrow> nat) \<Rightarrow> nat \<Rightarrow> u32 \<Rightarrow> u64 \<Rightarrow> CommandBuffer list \<Rightarrow> inspection \<times> u64 list \<times> nat
   \<Rightarrow> CommandBuffer list \<times> inspection \<times> u64 list \<times> nat" where
  "mergeLoop sizeOf budget cur primary [] s = ([], s)"
| "mergeLoop sizeOf budget cur primary (cb # cbs) (ins, package, used) =
     (case inspectNext sizeOf cur primary cb ins of (ins', newResources, newSize) \<Rightarrow>
        if wrap64 (newSize + used) \<le> budget
        then case mergeLoop sizeOf budget cur primary cbs (ins', package @ newResources, wrap64 (used + newSize)) of
               (cbs', s) \<Rightarrow> (cb\<lparr>cb_inspectionId := cur\<rparr> # cbs', s)
        else (cb # cbs, (ins', package, used)))"

definition compatible :: "CommandBuffer \<Rightarrow> CommandBuffer \<Rightarrow> bool" where
  "compatible nxt primary \<longleftrightarrow>
     bb_requiresCoherency (cb_batchBuffer nxt) = bb_requiresCoherency (cb_batchBuffer primary) \<and>
     bb_low_priority (cb_batchBuffer nxt) = bb_low_priority (cb_batchBuffer primary) \<and>
     bb_throttle (cb_batchBuffer nxt) = bb_throttle (cb_batchBuffer primary)"

definition aggregateCommandBuffers ::
  "(u64 \<Rightarrow> nat) \<Rightarrow> nat \<Rightarrow> SubmissionAggregator \<Rightarrow> inspection \<times> u64 list \<times> nat
   \<Rightarrow> SubmissionAggregator \<times> inspection \<times> u64 list \<times> nat" where
  "aggregateCommandBuffers sizeOf budget sa s =
     (case sa_cmdBuffers sa of
        [] \<Rightarrow> (sa, s)
      | primary # rest \<Rightarrow>
          let cur = sa_inspectionId sa;
              s = fold (inspect sizeOf cur) (cb_surfaces primary) s;
              primary' = primary\<lparr>cb_inspectionId := cur\<rparr>;
              sa = sa\<lparr>sa_inspectionId := cur + 1, sa_cmdBuffers := primary' # rest\<rparr>
          in case rest of
               [] \<Rightarrow> (sa, s)
             | nxt # _ \<Rightarrow>
                 if compatible nxt primary
                 then case mergeLoop sizeOf budget cur (bb_commandBufferAllocation (cb_batchBuffer primary)) rest s of
                        (rest', s) \<Rightarrow> (sa\<lparr>sa_cmdBuffers := primary' # rest'\<rparr>, s)
                 else (sa, s))"

section \<open>The stream hands out disjoint space\<close>

lemma getSpace_ok:
  assumes "getSpace n ls = Inr (p, ls')" and "unat (ls_sizeUsed ls) + unat n < 2 ^ 64"
    and "unat (ls_buffer ls) + unat (ls_maxAvailableSpace ls) < 2 ^ 64"
  shows "unat p = unat (ls_buffer ls) + unat (ls_sizeUsed ls) \<and>
         unat (ls_sizeUsed ls') = unat (ls_sizeUsed ls) + unat n \<and>
         unat (ls_sizeUsed ls') \<le> unat (ls_maxAvailableSpace ls) \<and>
         ls_buffer ls' = ls_buffer ls \<and> ls_maxAvailableSpace ls' = ls_maxAvailableSpace ls"
proof -
  have u: "unat (ls_sizeUsed ls + n) = unat (ls_sizeUsed ls) + unat n"
    using assms(2) by (intro unat_add_nowrap) auto
  have le: "unat (ls_sizeUsed ls) + unat n \<le> unat (ls_maxAvailableSpace ls)"
    using assms(1) u by (auto simp: getSpace_def unrecoverable_if_def word_less_nat_alt split: if_splits)
  moreover have "unat (ls_buffer ls + ls_sizeUsed ls) = unat (ls_buffer ls) + unat (ls_sizeUsed ls)"
    using assms(3) le by (intro unat_add_nowrap) auto
  ultimately show ?thesis
    using assms(1) u by (auto simp: getSpace_def unrecoverable_if_def ptrOffset_def split: if_splits)
qed

fun consecutive :: "nat \<Rightarrow> (u64 \<times> u64) list \<Rightarrow> nat \<Rightarrow> bool" where
  "consecutive a [] b \<longleftrightarrow> a = b"
| "consecutive a ((p, n) # ps) b \<longleftrightarrow> unat p = a \<and> consecutive (a + unat n) ps b"

lemma getSpaces_consecutive:
  assumes "getSpaces ns ls = Inr (ps, ls')" and "\<forall>n \<in> set ns. unat n < 2 ^ 63"
    and "unat (ls_maxAvailableSpace ls) < 2 ^ 63" and "unat (ls_sizeUsed ls) \<le> unat (ls_maxAvailableSpace ls)"
    and "unat (ls_buffer ls) + unat (ls_maxAvailableSpace ls) < 2 ^ 64"
  shows "consecutive (unat (ls_buffer ls) + unat (ls_sizeUsed ls)) ps (unat (ls_buffer ls) + unat (ls_sizeUsed ls')) \<and>
         map snd ps = ns \<and> unat (ls_sizeUsed ls') = unat (ls_sizeUsed ls) + sum_list (map unat ns) \<and>
         unat (ls_sizeUsed ls') \<le> unat (ls_maxAvailableSpace ls)"
  using assms
proof (induction ns arbitrary: ls ps)
  case (Cons n ns)
  from Cons.prems(1) obtain p ls1 ps1 where
    s: "getSpace n ls = Inr (p, ls1)" "getSpaces ns ls1 = Inr (ps1, ls')" "ps = (p, n) # ps1" by auto
  have "unat (ls_sizeUsed ls) + unat n < 2 ^ 64" using Cons.prems by auto
  note g = getSpace_ok [OF s(1) this Cons.prems(5)]
  show ?case
    using Cons.IH [OF s(2)] g Cons.prems s(3) by (auto simp: add.assoc)
qed simp

text \<open>For a stream of less than 2 to the 63 bytes, every run of successful requests returns
  pointers that lie one after the other from the current position, each followed by exactly the
  bytes asked for, never reaches beyond the buffer, and advances the used size by their sum.\<close>

theorem linear_stream_space:
  assumes "getSpaces ns ls = Inr (ps, ls')" and "\<forall>n \<in> set ns. unat n < 2 ^ 63"
    and "unat (ls_maxAvailableSpace ls) < 2 ^ 63" and "unat (ls_sizeUsed ls) \<le> unat (ls_maxAvailableSpace ls)"
    and "unat (ls_buffer ls) + unat (ls_maxAvailableSpace ls) < 2 ^ 64"
  shows "consecutive (unat (ls_buffer ls) + unat (ls_sizeUsed ls)) ps (unat (ls_buffer ls) + unat (getUsed ls')) \<and>
         map snd ps = ns \<and> unat (getUsed ls') = unat (getUsed ls) + sum_list (map unat ns) \<and>
         unat (getUsed ls') \<le> unat (ls_maxAvailableSpace ls)"
  unfolding getUsed_def by (rule getSpaces_consecutive [OF assms])

theorem linear_stream_space_witness:
  "\<exists>ps ls'. getSpaces [8, 16] (LinearStream_ctor 0x1000 64) = Inr (ps, ls') \<and> consecutive 0x1000 ps 0x1018"
proof -
  obtain ps ls' where r: "getSpaces [8, 16] (LinearStream_ctor 0x1000 64) = Inr (ps, ls')"
    by (simp add: getSpace_def unrecoverable_if_def LinearStream_ctor_def)
  from linear_stream_space [OF this] have "consecutive 0x1000 ps (0x1000 + unat (getUsed ls'))" "unat (getUsed ls') = 24"
    by (auto simp: LinearStream_ctor_def getUsed_def)
  then have "consecutive 0x1000 ps 0x1018" by simp
  then show ?thesis using r by blast
qed

section \<open>Aggregation\<close>

definition neededBy :: "u64 \<Rightarrow> CommandBuffer \<Rightarrow> u64 list" where
  "neededBy primary cb =
     (let c = bb_commandBufferAllocation (cb_batchBuffer cb)
      in filter (\<lambda>a. a \<noteq> primary) (cb_surfaces cb) @ (if c \<noteq> 0 \<and> c \<noteq> primary then [c] else []))"

definition mark :: "u32 \<Rightarrow> u64 list \<Rightarrow> inspection \<Rightarrow> inspection" where
  "mark cur new ins = (\<lambda>a. if a \<in> set new then cur else ins a)"

lemma inspect_apply:
  "inspect sizeOf cur a (ins, pk, u) =
     (if ins a < cur then (ins(a := cur), pk @ [a], wrap64 (u + sizeOf a)) else (ins, pk, u))"
  by (simp add: inspect_def)

lemma fold_inspect:
  "u < 18446744073709551616 \<Longrightarrow>
   \<exists>new. fold (inspect sizeOf cur) xs (ins, pk, u) =
      (mark cur new ins, pk @ new, wrap64 (u + sum_list (map sizeOf new))) \<and>
    distinct new \<and> set new = {a \<in> set xs. ins a < cur}"
proof (induction xs arbitrary: ins pk u)
  case Nil
  then show ?case by (intro exI [of _ "[]"]) (simp add: mark_def)
next
  case (Cons x xs)
  show ?case
  proof (cases "ins x < cur")
    case False
    from Cons.IH [OF Cons.prems, of ins pk] obtain new where
      "fold (inspect sizeOf cur) xs (ins, pk, u) = (mark cur new ins, pk @ new, wrap64 (u + sum_list (map sizeOf new)))"
      "distinct new" "set new = {a \<in> set xs. ins a < cur}" by blast
    moreover have "{a \<in> set (x # xs). ins a < cur} = {a \<in> set xs. ins a < cur}" using False by auto
    ultimately show ?thesis using False by (intro exI [of _ new]) (simp add: inspect_apply)
  next
    case True
    have "wrap64 (u + sizeOf x) < 18446744073709551616" by simp
    from Cons.IH [OF this, of "ins(x := cur)" "pk @ [x]"] obtain new where new:
      "fold (inspect sizeOf cur) xs (ins(x := cur), pk @ [x], wrap64 (u + sizeOf x)) =
         (mark cur new (ins(x := cur)), (pk @ [x]) @ new, wrap64 (wrap64 (u + sizeOf x) + sum_list (map sizeOf new)))"
      "distinct new" "set new = {a \<in> set xs. (ins(x := cur)) a < cur}" by blast
    have "mark cur new (ins(x := cur)) = mark cur (x # new) ins" by (auto simp: mark_def)
    then have "fold (inspect sizeOf cur) (x # xs) (ins, pk, u) =
        (mark cur (x # new) ins, pk @ (x # new), wrap64 (u + sum_list (map sizeOf (x # new))))"
      using True new(1) by (simp add: inspect_apply mod_add_left_eq add.assoc)
    moreover have "distinct (x # new)" "set (x # new) = {a \<in> set (x # xs). ins a < cur}"
      using new True by (auto split: if_splits)
    ultimately show ?thesis by blast
  qed
qed

lemma inspectNext_eq:
  "inspectNext sizeOf cur primary cb ins = fold (inspect sizeOf cur) (neededBy primary cb) (ins, [], 0)"
proof -
  have "fold (\<lambda>a s. if a = primary then s else inspect sizeOf cur a s) xs s =
      fold (inspect sizeOf cur) (filter (\<lambda>a. a \<noteq> primary) xs) s" for xs s
    by (induction xs arbitrary: s) auto
  then show ?thesis by (simp add: inspectNext_def neededBy_def Let_def)
qed

definition needed_all :: "u64 \<Rightarrow> CommandBuffer list \<Rightarrow> u64 set" where
  "needed_all primary cbs = (\<Union>cb \<in> set cbs. set (neededBy primary cb))"

lemma mergeLoop_spec:
  assumes "u + sum sizeOf {a \<in> needed_all primary cbs. ins a < cur} < 18446744073709551616"
  shows "\<exists>k new. mergeLoop sizeOf budget cur primary cbs (ins, pk, u) =
      (map (\<lambda>cb. cb\<lparr>cb_inspectionId := cur\<rparr>) (take k cbs) @ drop k cbs, snd (mergeLoop sizeOf budget cur primary cbs (ins, pk, u))) \<and>
    snd (snd (mergeLoop sizeOf budget cur primary cbs (ins, pk, u))) = (pk @ new, u + sum_list (map sizeOf new)) \<and>
    distinct new \<and> set new = {a \<in> needed_all primary (take k cbs). ins a < cur} \<and> k \<le> length cbs \<and>
    (0 < k \<longrightarrow> u + sum_list (map sizeOf new) \<le> budget)"
  using assms
proof (induction cbs arbitrary: ins pk u)
  case Nil
  show ?case by (intro exI [of _ 0] exI [of _ "[]"]) (simp add: needed_all_def)
next
  case (Cons cb cbs)
  obtain n1 where n1: "inspectNext sizeOf cur primary cb ins = (mark cur n1 ins, n1, wrap64 (sum_list (map sizeOf n1)))"
      "distinct n1" "set n1 = {a \<in> set (neededBy primary cb). ins a < cur}"
    using fold_inspect [of 0 sizeOf cur "neededBy primary cb" ins "[]"] by (auto simp: inspectNext_eq)
  let ?S = "{a \<in> needed_all primary (cb # cbs). ins a < cur}"
  let ?T = "{a \<in> needed_all primary cbs. mark cur n1 ins a < cur}"
  have fin: "finite ?S" by (simp add: needed_all_def)
  have sub: "?T \<subseteq> ?S - set n1" and n1S: "set n1 \<subseteq> ?S"
    using n1(3) by (auto simp: needed_all_def mark_def split: if_splits)
  have "sum sizeOf ?S = sum sizeOf (?S - set n1) + sum sizeOf (set n1)"
    using fin n1S by (simp add: sum.subset_diff)
  then have total: "sum sizeOf ?T + sum_list (map sizeOf n1) \<le> sum sizeOf ?S"
    using sum_mono2 [OF _ sub, of sizeOf] fin n1(2) by (simp add: sum_list_distinct_conv_sum_set)
  have w: "wrap64 (sum_list (map sizeOf n1)) = sum_list (map sizeOf n1)"
    "wrap64 (sum_list (map sizeOf n1) + u) = u + sum_list (map sizeOf n1)"
    using total Cons.prems by auto
  show ?case
  proof (cases "u + sum_list (map sizeOf n1) \<le> budget")
    case False
    then show ?thesis
      using n1 w by (intro exI [of _ 0] exI [of _ "[]"]) (simp add: needed_all_def)
  next
    case True
    have "u + sum_list (map sizeOf n1) + sum sizeOf ?T < 18446744073709551616"
      using total Cons.prems by simp
    from Cons.IH [OF this, of "pk @ n1"] obtain k new where ih:
      "mergeLoop sizeOf budget cur primary cbs (mark cur n1 ins, pk @ n1, u + sum_list (map sizeOf n1)) =
        (map (\<lambda>cb. cb\<lparr>cb_inspectionId := cur\<rparr>) (take k cbs) @ drop k cbs,
         snd (mergeLoop sizeOf budget cur primary cbs (mark cur n1 ins, pk @ n1, u + sum_list (map sizeOf n1))))"
      "snd (snd (mergeLoop sizeOf budget cur primary cbs (mark cur n1 ins, pk @ n1, u + sum_list (map sizeOf n1)))) =
         ((pk @ n1) @ new, u + sum_list (map sizeOf n1) + sum_list (map sizeOf new))"
      "distinct new" "set new = {a \<in> needed_all primary (take k cbs). mark cur n1 ins a < cur}" "k \<le> length cbs"
      "0 < k \<longrightarrow> u + sum_list (map sizeOf n1) + sum_list (map sizeOf new) \<le> budget" by blast
    have "u + sum_list (map sizeOf n1) + sum_list (map sizeOf new) \<le> budget"
      using ih(3,4,6) True by (cases "k = 0") (auto simp: needed_all_def)
    moreover have "distinct (n1 @ new)" "set (n1 @ new) = {a \<in> needed_all primary (take (Suc k) (cb # cbs)). ins a < cur}"
      using n1(2,3) ih(3,4) by (auto simp: mark_def needed_all_def split: if_splits)
    ultimately show ?thesis
      using n1(1) w True ih(1,2,5)
      by (intro exI [of _ "Suc k"] exI [of _ "n1 @ new"]) (auto simp: add.commute add.left_commute split: prod.splits)
  qed
qed

definition package_of :: "u64 \<Rightarrow> CommandBuffer \<Rightarrow> CommandBuffer list \<Rightarrow> u64 set" where
  "package_of primaryAllocation primary merged = set (cb_surfaces primary) \<union> needed_all primaryAllocation merged"

text \<open>The resources of the first buffer are inspected first; what the rest adds is disjoint from them.\<close>

lemma primary_inspected:
  assumes "\<forall>a. ins a < cur" and "used + sum sizeOf (package_of prim primary rest) < 18446744073709551616"
  obtains n1 where "fold (inspect sizeOf cur) (cb_surfaces primary) (ins, package, used) =
      (mark cur n1 ins, package @ n1, used + sum_list (map sizeOf n1))"
    "distinct n1" "set n1 = set (cb_surfaces primary)"
    "used + sum_list (map sizeOf n1) + sum sizeOf {a \<in> needed_all prim rest. mark cur n1 ins a < cur} < 18446744073709551616"
proof -
  have fin: "finite (needed_all prim cbs)" for cbs by (simp add: needed_all_def)
  obtain n1 where n1: "fold (inspect sizeOf cur) (cb_surfaces primary) (ins, package, used) =
        (mark cur n1 ins, package @ n1, wrap64 (used + sum_list (map sizeOf n1)))"
      "distinct n1" "set n1 = set (cb_surfaces primary)"
    using fold_inspect [of used sizeOf cur "cb_surfaces primary" ins package] assms by auto
  let ?T = "{a \<in> needed_all prim rest. mark cur n1 ins a < cur}"
  have "?T = package_of prim primary rest - set n1" "set n1 \<subseteq> package_of prim primary rest"
    using n1(3) assms(1) by (auto simp: package_of_def mark_def)
  then have "sum sizeOf (package_of prim primary rest) = sum sizeOf ?T + sum_list (map sizeOf n1)"
    using n1(2) fin sum.subset_diff [of "set n1" "package_of prim primary rest" sizeOf]
    by (simp add: sum_list_distinct_conv_sum_set package_of_def)
  then show ?thesis using n1 assms(2) by (intro that [of n1]) simp_all
qed

text \<open>Claim C18. When no allocation has been inspected in this round and the sizes involved fit 64 bits,
  aggregation marks a prefix of the recorded command buffers that contains the first one, the
  resources added to the package are, each once, exactly the surfaces of the first buffer and what
  the merged buffers need besides the first buffer's own allocation, the used size grows by the
  sum of their sizes, and if more than the first buffer was taken the result is within budget.\<close>

theorem aggregation_exact:
  assumes "sa_cmdBuffers sa = primary # rest" and "\<forall>a. ins a < sa_inspectionId sa"
    and "prim = bb_commandBufferAllocation (cb_batchBuffer primary)"
    and "used + sum sizeOf (package_of prim primary rest) < 18446744073709551616"
    and "aggregateCommandBuffers sizeOf budget sa (ins, package, used) = (sa', ins', package', used')"
  shows "\<exists>k new. sa_cmdBuffers sa' =
           map (\<lambda>cb. cb\<lparr>cb_inspectionId := sa_inspectionId sa\<rparr>) (primary # take k rest) @ drop k rest \<and>
         package' = package @ new \<and> distinct new \<and> set new = package_of prim primary (take k rest) \<and>
         used' = used + sum_list (map sizeOf new) \<and> (0 < k \<longrightarrow> used' \<le> budget)"
proof -
  let ?cur = "sa_inspectionId sa"
  obtain n1 where n1: "fold (inspect sizeOf ?cur) (cb_surfaces primary) (ins, package, used) =
      (mark ?cur n1 ins, package @ n1, used + sum_list (map sizeOf n1))"
    "distinct n1" "set n1 = set (cb_surfaces primary)"
    and tot: "used + sum_list (map sizeOf n1) + sum sizeOf {a \<in> needed_all prim rest. mark ?cur n1 ins a < ?cur} < 18446744073709551616"
    by (rule primary_inspected [OF assms(2,4)])
  have fresh: "mark ?cur n1 ins a < ?cur \<longleftrightarrow> a \<notin> set n1" for a using assms(2) by (simp add: mark_def)
  show ?thesis
  proof (cases "rest = [] \<or> \<not> compatible (hd rest) primary")
    case True
    then have "sa_cmdBuffers sa' = primary\<lparr>cb_inspectionId := ?cur\<rparr> # rest" "package' = package @ n1"
      "used' = used + sum_list (map sizeOf n1)"
      using assms(1,5) n1(1) by (auto simp: aggregateCommandBuffers_def Let_def split: list.splits)
    then show ?thesis
      using n1 by (intro exI [of _ 0] exI [of _ n1]) (simp add: package_of_def needed_all_def)
  next
    case False
    then obtain nxt tl where rest: "rest = nxt # tl" "compatible nxt primary" by (cases rest) auto
    let ?m = "mergeLoop sizeOf budget ?cur prim rest (mark ?cur n1 ins, package @ n1, used + sum_list (map sizeOf n1))"
    obtain k new where k: "?m = (map (\<lambda>cb. cb\<lparr>cb_inspectionId := ?cur\<rparr>) (take k rest) @ drop k rest, snd ?m)"
      "snd (snd ?m) = ((package @ n1) @ new, used + sum_list (map sizeOf n1) + sum_list (map sizeOf new))"
      "distinct new" "set new = {a \<in> needed_all prim (take k rest). mark ?cur n1 ins a < ?cur}" "k \<le> length rest"
      "0 < k \<longrightarrow> used + sum_list (map sizeOf n1) + sum_list (map sizeOf new) \<le> budget"
      using mergeLoop_spec [OF tot, of budget "package @ n1"] by blast
    have "aggregateCommandBuffers sizeOf budget sa (ins, package, used) =
       (sa\<lparr>sa_inspectionId := ?cur + 1, sa_cmdBuffers := primary\<lparr>cb_inspectionId := ?cur\<rparr> # fst ?m\<rparr>, snd ?m)"
      using assms(1,3) n1(1) rest by (simp add: aggregateCommandBuffers_def Let_def split: prod.split)
    then have res: "sa_cmdBuffers sa' = primary\<lparr>cb_inspectionId := ?cur\<rparr> # fst ?m" "snd (snd ?m) = (package', used')"
      using assms(5) by (auto dest: sym)
    moreover have "distinct (n1 @ new)" "set (n1 @ new) = package_of prim primary (take k rest)"
      using n1 k(3,4) fresh by (auto simp: package_of_def)
    moreover have "fst ?m = map (\<lambda>cb. cb\<lparr>cb_inspectionId := ?cur\<rparr>) (take k rest) @ drop k rest"
      using k(1) by (metis fst_conv)
    ultimately show ?thesis
      using k(2,6) by (intro exI [of _ k] exI [of _ "n1 @ new"]) auto
  qed
qed

definition sample_buffer :: "u64 list \<Rightarrow> u64 \<Rightarrow> bool \<Rightarrow> CommandBuffer" where
  "sample_buffer surfaces a low = \<lparr>cb_surfaces = surfaces,
     cb_batchBuffer = \<lparr>bb_commandBufferAllocation = a, bb_startOffset = 0, bb_requiresCoherency = False,
       bb_low_priority = low, bb_throttle = THROTTLE_MEDIUM, bb_usedSize = 0\<rparr>,
     cb_inspectionId = 0, cb_taskCount = 1\<rparr>"

theorem aggregation_exact_witness:
  "\<exists>k new. sa_cmdBuffers (fst (aggregateCommandBuffers (\<lambda>_. 10) 100
       \<lparr>sa_cmdBuffers = [sample_buffer [1, 2] 50 False, sample_buffer [2, 3] 51 False], sa_inspectionId = 1\<rparr> (\<lambda>_. 0, [], 0))) =
     map (\<lambda>cb. cb\<lparr>cb_inspectionId := 1\<rparr>) (sample_buffer [1, 2] 50 False # take k [sample_buffer [2, 3] 51 False]) @
       drop k [sample_buffer [2, 3] 51 False] \<and> distinct new \<and>
     set new = package_of 50 (sample_buffer [1, 2] 50 False) (take k [sample_buffer [2, 3] 51 False])"
proof -
  let ?sa = "\<lparr>sa_cmdBuffers = [sample_buffer [1, 2] 50 False, sample_buffer [2, 3] 51 False], sa_inspectionId = 1\<rparr>"
  let ?r = "aggregateCommandBuffers (\<lambda>_. 10) 100 ?sa (\<lambda>_. 0, [], 0)"
  obtain sa' ins' package' used' where r: "?r = (sa', ins', package', used')" by (metis prod_cases4)
  have "card (package_of 50 (sample_buffer [1, 2] 50 False) [sample_buffer [2, 3] 51 False]) \<le> 5"
    by (simp add: package_of_def needed_all_def neededBy_def sample_buffer_def card_insert_if)
  with aggregation_exact [OF _ _ _ _ r, of "sample_buffer [1, 2] 50 False" "[sample_buffer [2, 3] 51 False]" 50]
  obtain k new where "sa_cmdBuffers sa' = map (\<lambda>cb. cb\<lparr>cb_inspectionId := 1\<rparr>) (sample_buffer [1, 2] 50 False # take k [sample_buffer [2, 3] 51 False]) @
       drop k [sample_buffer [2, 3] 51 False]" "distinct new"
     "set new = package_of 50 (sample_buffer [1, 2] 50 False) (take k [sample_buffer [2, 3] 51 False])"
    by (auto simp: sample_buffer_def)
  then show ?thesis unfolding r by auto
qed

text \<open>Compatibility is checked for the second recorded buffer only: a third, low priority,
  buffer is merged into the submission of a first buffer that is not low priority.\<close>

theorem aggregation_merges_incompatible:
  "cb_inspectionId (sa_cmdBuffers (fst (aggregateCommandBuffers (\<lambda>_. 10) 100
     \<lparr>sa_cmdBuffers = [sample_buffer [1] 50 False, sample_buffer [2] 51 False, sample_buffer [3] 52 True],
      sa_inspectionId = 1\<rparr> (\<lambda>_. 0, [], 0))) ! 2) = 1 \<and>
   \<not> compatible (sample_buffer [3] 52 True) (sample_buffer [1] 50 False)"
  by (simp add: aggregateCommandBuffers_def inspectNext_def inspect_apply compatible_def sample_buffer_def Let_def)

end
