(* ===== verification/Event_Model.thy ===== *)
theory Event_Model
  imports Internal_Allocation_Storage
begin

text \<open>
  The OpenCL event of \<^verbatim>\<open>event/event.cpp\<close>, \<^verbatim>\<open>event/event.h\<close> and \<^verbatim>\<open>event/user_event.cpp\<close>: its execution
  status, the command it submits once nothing blocks it, the callbacks it runs and the child
  events it unblocks. Events are the cells of a store (a pointer is an index), because
  unblocking one event changes its children and theirs. The three classes \<^verbatim>\<open>Event\<close>,
  \<^verbatim>\<open>UserEvent\<close> and \<^verbatim>\<open>VirtualEvent\<close> are told apart by the kind of the cell. Calls of user callbacks
  and of \<^verbatim>\<open>Command::submit\<close> are recorded in the order they are made; what \<^verbatim>\<open>submit\<close>, an abstract
  method, does to the queues is a function carried by the command. A user callback that calls
  back into the runtime and the release of an event whose count reaches zero are outside the
  model. The recursion of \<^verbatim>\<open>unblockEventsBlockedByThis\<close> through the children is bounded by
  fuel; one unit more than the number of child links in the store is always enough.
\<close>

definition eventNotReady :: u32 where "eventNotReady = 0xFFFFFFF0"

abbreviation (input) CL_COMPLETE :: int where "CL_COMPLETE \<equiv> 0"
abbreviation (input) CL_RUNNING :: int where "CL_RUNNING \<equiv> 1"
abbreviation (input) CL_SUBMITTED :: int where "CL_SUBMITTED \<equiv> 2"
abbreviation (input) CL_QUEUED :: int where "CL_QUEUED \<equiv> 3"

datatype ECallbackTarget = Queued | Submitted | Running | Completed

datatype EventKind = BaseEvent | UserEvent | VirtualEvent

record Callback =
  clb_function :: nat
  clb_executionStatusTarget :: int
  clb_userData :: nat

record CompletionStamp =
  cs_taskCount :: u32
  cs_taskLevel :: u32
  cs_flushStamp :: u64

record TimeStampData =
  GPUTimeStamp :: u64
  CPUTimeinNS :: u64

record CommandQueue =
  q_csr :: CsrView
  q_csrTaskLevel :: u32
  q_storage :: InternalAllocationStorage
  q_freed :: "GraphicsAllocation list"
  q_resident :: "nat list"
  q_profilingEnable :: bool
  q_perfCounters :: bool

record Command =
  cmd_submit :: "u32 \<Rightarrow> bool \<Rightarrow> (nat \<Rightarrow> CommandQueue) \<Rightarrow> CompletionStamp \<times> (nat \<Rightarrow> CommandQueue)"
  cmd_timestamp :: "nat option"

record Event =
  ev_kind :: EventKind
  ev_cmdQueue :: "nat option"
  ev_isMapCommand :: bool
  ev_taskLevel :: u32
  ev_taskCount :: u32
  ev_flushStamp :: u64
  ev_executionStatus :: int
  ev_parentCount :: int
  ev_callbacks :: "ECallbackTarget \<Rightarrow> Callback list"
  ev_children :: "nat list"
  ev_cmdToSubmit :: "Command option"
  ev_submittedCmd :: "Command option"
  ev_eventWithoutCommand :: bool
  ev_profilingEnabled :: bool
  ev_profilingCpuPath :: bool
  ev_perfCountersEnabled :: bool
  ev_dataCalculated :: bool
  ev_queueTimeStamp :: TimeStampData
  ev_submitTimeStamp :: TimeStampData
  ev_startTimeStamp :: u64
  ev_endTimeStamp :: u64
  ev_completeTimeStamp :: u64
  ev_timeStampNode :: "nat option"
  ev_perfCounterNode :: "nat option"
  ev_refInternal :: int

text \<open>The store of events with what the calls leave behind: the command queues, the clock the OS
  reports at each reading, the callbacks executed with the status they were given, the commands
  submitted with their task level and whether they were aborted, and the two lists of the
  asynchronous events handler.\<close>

record World =
  w_events :: "nat \<Rightarrow> Event"
  w_queues :: "nat \<Rightarrow> CommandQueue"
  w_osTime :: "nat \<Rightarrow> TimeStampData"
  w_ticks :: nat
  w_executed :: "(nat \<times> Callback \<times> int) list"
  w_submissions :: "(nat \<times> u32 \<times> bool) list"
  w_enableAsyncEventsHandler :: bool
  w_registerList :: "nat list"
  w_list :: "nat list"

definition upd_event :: "nat \<Rightarrow> (Event \<Rightarrow> Event) \<Rightarrow> World \<Rightarrow> World" where
  "upd_event e f w = w\<lparr>w_events := (w_events w)(e := f (w_events w e))\<rparr>"

definition upd_queue :: "nat \<Rightarrow> (CommandQueue \<Rightarrow> CommandQueue) \<Rightarrow> World \<Rightarrow> World" where
  "upd_queue q f w = w\<lparr>w_queues := (w_queues w)(q := f (w_queues w q))\<rparr>"

definition Event_ctor ::
  "EventKind \<Rightarrow> nat option \<Rightarrow> bool \<Rightarrow> u32 \<Rightarrow> u32 \<Rightarrow> (nat \<Rightarrow> CommandQueue) \<Rightarrow> Event" where
  "Event_ctor kind cmdQueue isMapCommand taskLevel taskCount queues =
     (let profilingEnabled = (kind \<noteq> UserEvent \<and>
            (case cmdQueue of None \<Rightarrow> False | Some q \<Rightarrow> q_profilingEnable (queues q)))
      in \<lparr>ev_kind = kind, ev_cmdQueue = cmdQueue, ev_isMapCommand = isMapCommand,
          ev_taskLevel = taskLevel, ev_taskCount = taskCount, ev_flushStamp = 0,
          ev_executionStatus = CL_QUEUED, ev_parentCount = 0, ev_callbacks = (\<lambda>_. []),
          ev_children = [], ev_cmdToSubmit = None, ev_submittedCmd = None,
          ev_eventWithoutCommand = True, ev_profilingEnabled = profilingEnabled,
          ev_profilingCpuPath = (isMapCommand \<and> profilingEnabled),
          ev_perfCountersEnabled = (case cmdQueue of None \<Rightarrow> False | Some q \<Rightarrow> q_perfCounters (queues q)),
          ev_dataCalculated = False,
          ev_queueTimeStamp = \<lparr>GPUTimeStamp = 0, CPUTimeinNS = 0\<rparr>,
          ev_submitTimeStamp = \<lparr>GPUTimeStamp = 0, CPUTimeinNS = 0\<rparr>,
          ev_startTimeStamp = 0, ev_endTimeStamp = 0, ev_completeTimeStamp = 0,
          ev_timeStampNode = None, ev_perfCounterNode = None, ev_refInternal = 0\<rparr>)"

definition UserEvent_ctor :: "(nat \<Rightarrow> CommandQueue) \<Rightarrow> Event" where
  "UserEvent_ctor queues = Event_ctor UserEvent None False eventNotReady eventNotReady queues"

definition VirtualEvent_ctor :: "nat option \<Rightarrow> (nat \<Rightarrow> CommandQueue) \<Rightarrow> Event" where
  "VirtualEvent_ctor cmdQ queues = Event_ctor VirtualEvent cmdQ False eventNotReady eventNotReady queues"

section \<open>Status queries\<close>

definition isUserEvent :: "Event \<Rightarrow> bool" where
  "isUserEvent ev \<longleftrightarrow> ev_kind ev = UserEvent"

definition isStatusCompleted :: "int \<Rightarrow> bool" where
  "isStatusCompleted st \<longleftrightarrow> st = CL_COMPLETE \<or> st < 0"

definition isStatusCompletedByTermination :: "int \<Rightarrow> bool" where
  "isStatusCompletedByTermination st \<longleftrightarrow> st < 0"

definition peekNumEventsBlockingThis :: "Event \<Rightarrow> nat" where
  "peekNumEventsBlockingThis ev = nat (ev_parentCount ev mod 4294967296)"

definition peekIsBlocked :: "Event \<Rightarrow> bool" where
  "peekIsBlocked ev \<longleftrightarrow> peekNumEventsBlockingThis ev > 0"

definition isReadyForSubmission :: "Event \<Rightarrow> bool" where
  "isReadyForSubmission ev \<longleftrightarrow> ev_taskLevel ev \<noteq> eventNotReady"

fun checkUserEventDependencies :: "World \<Rightarrow> nat list \<Rightarrow> bool" where
  "checkUserEventDependencies w [] = False"
| "checkUserEventDependencies w (e # es) =
     (if \<not> isReadyForSubmission (w_events w e) then True else checkUserEventDependencies w es)"

definition translateToCallbackTarget :: "int \<Rightarrow> ECallbackTarget option" where
  "translateToCallbackTarget execStatus =
     (if execStatus = CL_QUEUED then Some Queued
      else if execStatus = CL_SUBMITTED then Some Submitted
      else if execStatus = CL_RUNNING then Some Running
      else if execStatus = CL_COMPLETE then Some Completed
      else None)"

definition callbackTargets :: "ECallbackTarget list" where
  "callbackTargets = [Queued, Submitted, Running, Completed]"

definition peekHasCallbacks :: "Event \<Rightarrow> bool" where
  "peekHasCallbacks ev \<longleftrightarrow> (\<exists>t\<in>set callbackTargets. ev_callbacks ev t \<noteq> [])"

definition isCompleted :: "u32 \<Rightarrow> CommandQueue \<Rightarrow> bool" where
  "isCompleted taskCount q \<longleftrightarrow> csr_tag (q_csr q) \<ge> taskCount"

definition UserEvent_getTaskLevel :: "Event \<Rightarrow> u32" where
  "UserEvent_getTaskLevel ev = (if ev_executionStatus ev = CL_COMPLETE then 0 else eventNotReady)"

definition VirtualEvent_getTaskLevel :: "World \<Rightarrow> Event \<Rightarrow> u32" where
  "VirtualEvent_getTaskLevel w ev =
     (case ev_cmdQueue ev of None \<Rightarrow> 0 | Some q \<Rightarrow> q_csrTaskLevel (w_queues w q))"

definition getTaskLevel :: "World \<Rightarrow> nat \<Rightarrow> u32" where
  "getTaskLevel w e =
     (let ev = w_events w e in
      case ev_kind ev of
        BaseEvent \<Rightarrow> ev_taskLevel ev
      | UserEvent \<Rightarrow> UserEvent_getTaskLevel ev
      | VirtualEvent \<Rightarrow> VirtualEvent_getTaskLevel w ev)"

section \<open>Task counts, stamps and time\<close>

definition setStamp :: "u64 \<Rightarrow> u64 \<Rightarrow> u64" where
  "setStamp stamp old = (if stamp \<noteq> 0 then stamp else old)"

definition updateCompletionStamp :: "u32 \<Rightarrow> u32 \<Rightarrow> u64 \<Rightarrow> Event \<Rightarrow> Event" where
  "updateCompletionStamp taskCount tasklevel flushStamp ev =
     ev\<lparr>ev_taskCount := taskCount, ev_taskLevel := tasklevel,
        ev_flushStamp := setStamp flushStamp (ev_flushStamp ev)\<rparr>"

definition Event_updateTaskCount :: "u32 \<Rightarrow> Event \<Rightarrow> Event" where
  "Event_updateTaskCount taskCount ev =
     (if taskCount = eventNotReady then ev
      else
        let prevTaskCount = ev_taskCount ev;
            ev = ev\<lparr>ev_taskCount := taskCount\<rparr>
        in if prevTaskCount \<noteq> eventNotReady \<and> prevTaskCount > taskCount
           then ev\<lparr>ev_taskCount := prevTaskCount\<rparr> else ev)"

definition getDelta :: "u64 \<Rightarrow> u64 \<Rightarrow> u64" where
  "getDelta startTime endTime =
     (let Max = push_bit 32 1 - 1;
          startTime = startTime AND Max;
          endTime = endTime AND Max
      in if startTime > endTime then Max - startTime + endTime else endTime - startTime)"

text \<open>\<^verbatim>\<open>getOSTime()->getCpuTime\<close> and \<^verbatim>\<open>getCpuGpuTime\<close>: the next reading of the clock.\<close>

definition readTime :: "World \<Rightarrow> TimeStampData" where
  "readTime w = w_osTime w (w_ticks w)"

definition tick :: "World \<Rightarrow> World" where
  "tick w = w\<lparr>w_ticks := w_ticks w + 1\<rparr>"

definition profiled :: "Event \<Rightarrow> bool" where
  "profiled ev \<longleftrightarrow> ev_profilingEnabled ev \<and> ev_cmdQueue ev \<noteq> None"

definition setQueueTimeStamp :: "nat \<Rightarrow> World \<Rightarrow> World" where
  "setQueueTimeStamp e w =
     (if profiled (w_events w e)
      then tick (upd_event e (\<lambda>ev. ev\<lparr>ev_queueTimeStamp :=
             (ev_queueTimeStamp ev)\<lparr>CPUTimeinNS := CPUTimeinNS (readTime w)\<rparr>\<rparr>) w)
      else w)"

definition setSubmitTimeStamp :: "nat \<Rightarrow> World \<Rightarrow> World" where
  "setSubmitTimeStamp e w =
     (if profiled (w_events w e)
      then tick (upd_event e (\<lambda>ev. ev\<lparr>ev_submitTimeStamp :=
             (ev_submitTimeStamp ev)\<lparr>CPUTimeinNS := CPUTimeinNS (readTime w)\<rparr>\<rparr>) w)
      else w)"

definition setStartTimeStamp :: "nat \<Rightarrow> World \<Rightarrow> World" where
  "setStartTimeStamp e w =
     (if profiled (w_events w e)
      then tick (upd_event e (\<lambda>ev. ev\<lparr>ev_startTimeStamp := CPUTimeinNS (readTime w)\<rparr>) w)
      else w)"

definition setEndTimeStamp :: "nat \<Rightarrow> World \<Rightarrow> World" where
  "setEndTimeStamp e w =
     (if profiled (w_events w e)
      then tick (upd_event e (\<lambda>ev. ev\<lparr>ev_endTimeStamp := CPUTimeinNS (readTime w),
             ev_completeTimeStamp := CPUTimeinNS (readTime w)\<rparr>) w)
      else w)"

section \<open>Submission and callbacks\<close>

definition setCommand :: "nat \<Rightarrow> Command \<Rightarrow> World \<Rightarrow> World rt_result" where
  "setCommand e newCmd w =
     unrecoverable_if (ev_cmdToSubmit (w_events w e) \<noteq> None)
       (Inr (upd_event e (\<lambda>ev. ev\<lparr>ev_cmdToSubmit := Some newCmd, ev_eventWithoutCommand := False\<rparr>) w))"

definition makeNodeResident :: "nat option \<Rightarrow> nat \<Rightarrow> World \<Rightarrow> World" where
  "makeNodeResident node q w =
     (case node of None \<Rightarrow> w | Some n \<Rightarrow> upd_queue q (\<lambda>x. x\<lparr>q_resident := q_resident x @ [n]\<rparr>) w)"

definition submitProfiling :: "nat \<Rightarrow> nat \<Rightarrow> World \<Rightarrow> World" where
  "submitProfiling e q w =
     (let ev = w_events w e;
          w = makeNodeResident (ev_timeStampNode ev) q w;
          w = (if ev_profilingCpuPath ev then setStartTimeStamp e (setSubmitTimeStamp e w)
               else tick (upd_event e (\<lambda>x. x\<lparr>ev_submitTimeStamp := readTime w\<rparr>) w))
      in if ev_perfCountersEnabled ev then makeNodeResident (ev_perfCounterNode ev) q w else w)"

definition runSubmit :: "nat \<Rightarrow> Command \<Rightarrow> bool \<Rightarrow> World \<Rightarrow> CompletionStamp \<times> World" where
  "runSubmit e cmd abortTasks w =
     (let lvl = ev_taskLevel (w_events w e)
      in case cmd_submit cmd lvl abortTasks (w_queues w) of (stamp, queues) \<Rightarrow>
           (stamp, w\<lparr>w_queues := queues, w_submissions := w_submissions w @ [(e, lvl, abortTasks)]\<rparr>))"

definition submitPending :: "nat \<Rightarrow> Command \<Rightarrow> bool \<Rightarrow> World \<Rightarrow> World" where
  "submitPending e cmd abortTasks w =
     (let ev = w_events w e;
          w = (case ev_cmdQueue ev of None \<Rightarrow> w
               | Some q \<Rightarrow> if ev_profilingEnabled ev then submitProfiling e q w else w);
          cmd = (if profiled ev \<and> ev_timeStampNode ev \<noteq> None
                 then cmd\<lparr>cmd_timestamp := ev_timeStampNode ev\<rparr> else cmd)
      in case runSubmit e cmd abortTasks w of (stamp, w) \<Rightarrow>
           let w = (if ev_profilingCpuPath ev then setEndTimeStamp e w else w)
           in upd_event e (\<lambda>x. (Event_updateTaskCount (cs_taskCount stamp) x)
                \<lparr>ev_flushStamp := setStamp (cs_flushStamp stamp) (ev_flushStamp x),
                 ev_submittedCmd := Some cmd\<rparr>) w)"

definition updateTaskCountWithoutCommand :: "nat \<Rightarrow> World \<Rightarrow> World" where
  "updateTaskCountWithoutCommand e w =
     (let ev = w_events w e in
      if ev_taskCount ev = eventNotReady \<and> \<not> isUserEvent ev \<and> ev_eventWithoutCommand ev
      then case ev_cmdQueue ev of None \<Rightarrow> w
           | Some q \<Rightarrow> upd_event e (Event_updateTaskCount (csr_taskCount (q_csr (w_queues w q)))) w
      else w)"

definition submitCommand :: "nat \<Rightarrow> bool \<Rightarrow> World \<Rightarrow> World" where
  "submitCommand e abortTasks w =
     (let cmdToProcess = ev_cmdToSubmit (w_events w e);
          w = upd_event e (\<lambda>ev. ev\<lparr>ev_cmdToSubmit := None\<rparr>) w;
          w = (case cmdToProcess of
                 Some cmd \<Rightarrow> submitPending e cmd abortTasks w
               | None \<Rightarrow> if ev_profilingCpuPath (w_events w e) \<and> ev_endTimeStamp (w_events w e) = 0
                         then setEndTimeStamp e w else w)
      in updateTaskCountWithoutCommand e w)"

definition transitionExecutionStatus :: "nat \<Rightarrow> int \<Rightarrow> World \<Rightarrow> World" where
  "transitionExecutionStatus e newExecutionStatus w =
     (if ev_executionStatus (w_events w e) > newExecutionStatus
      then upd_event e (\<lambda>ev. ev\<lparr>ev_executionStatus := newExecutionStatus\<rparr>) w else w)"

definition executeCallback :: "nat \<Rightarrow> int \<Rightarrow> Callback \<Rightarrow> World \<Rightarrow> World" where
  "executeCallback e execStatus cb w =
     (let passed = (if isStatusCompletedByTermination execStatus then execStatus
                    else clb_executionStatusTarget cb)
      in upd_event e (\<lambda>ev. ev\<lparr>ev_refInternal := ev_refInternal ev - 1\<rparr>)
           (w\<lparr>w_executed := w_executed w @ [(e, cb, passed)]\<rparr>))"

definition executeTarget :: "nat \<Rightarrow> int \<Rightarrow> ECallbackTarget \<Rightarrow> World \<Rightarrow> World" where
  "executeTarget e execStatus t w =
     fold (executeCallback e execStatus) (ev_callbacks (w_events w e) t)
       (upd_event e (\<lambda>ev. ev\<lparr>ev_callbacks := (ev_callbacks ev)(t := [])\<rparr>) w)"

fun targetsUpTo :: "ECallbackTarget \<Rightarrow> ECallbackTarget list" where
  "targetsUpTo Queued = [Queued]"
| "targetsUpTo Submitted = [Queued, Submitted]"
| "targetsUpTo Running = [Queued, Submitted, Running]"
| "targetsUpTo Completed = [Queued, Submitted, Running, Completed]"

definition executeCallbacks :: "nat \<Rightarrow> int \<Rightarrow> World \<Rightarrow> World" where
  "executeCallbacks e execStatus w =
     (case (if isStatusCompletedByTermination execStatus then Some Completed
            else translateToCallbackTarget execStatus) of
        None \<Rightarrow> w
      | Some target \<Rightarrow> fold (executeTarget e execStatus) (targetsUpTo target) w)"

definition cleanTemporary :: "nat \<Rightarrow> nat \<Rightarrow> World \<Rightarrow> World" where
  "cleanTemporary q e w =
     upd_queue q (\<lambda>x. case cleanAllocationList (q_csr x) (ev_taskCount (w_events w e))
                              TEMPORARY_ALLOCATION (q_storage x) of
         (s, freed) \<Rightarrow> x\<lparr>q_storage := s, q_freed := q_freed x @ freed\<rparr>) w"

section \<open>Status changes and unblocking\<close>

text \<open>The operations that call \<^verbatim>\<open>unblockEventsBlockedByThis\<close> take it as their first argument; the
  recursion is tied below.\<close>

type_synonym unblocker = "nat \<Rightarrow> int \<Rightarrow> World \<Rightarrow> World rt_result"

definition Event_setStatus_with :: "unblocker \<Rightarrow> nat \<Rightarrow> int \<Rightarrow> World \<Rightarrow> (bool \<times> World) rt_result" where
  "Event_setStatus_with unblock e status w =
     (let prevStatus = ev_executionStatus (w_events w e) in
      if isStatusCompleted prevStatus then Inr (False, w)
      else if status = prevStatus then Inr (False, w)
      else if peekIsBlocked (w_events w e) \<and> \<not> isStatusCompletedByTermination status
      then Inr (False, w)
      else
        let w = (if status = CL_SUBMITTED \<or> isStatusCompleted status
                 then submitCommand e (isStatusCompletedByTermination status) w else w);
            w = transitionExecutionStatus e status w
        in rt_bind (if isStatusCompleted status \<or> status = CL_SUBMITTED
                    then unblock e status w else Inr w)
             (\<lambda>w. Inr (True, executeCallbacks e status w)))"

definition setStatus_with :: "unblocker \<Rightarrow> nat \<Rightarrow> int \<Rightarrow> World \<Rightarrow> (bool \<times> World) rt_result" where
  "setStatus_with unblock e status w =
     Event_setStatus_with unblock e
       (if ev_kind (w_events w e) = VirtualEvent \<and> \<not> isStatusCompletedByTermination status
        then CL_COMPLETE else status) w"

definition updateFromQueued_with :: "unblocker \<Rightarrow> nat \<Rightarrow> World \<Rightarrow> World rt_result" where
  "updateFromQueued_with unblock e w =
     unblock e CL_SUBMITTED (executeCallbacks e CL_SUBMITTED
       (transitionExecutionStatus e CL_SUBMITTED (submitCommand e False w)))"

definition updateToComplete_with :: "unblocker \<Rightarrow> nat \<Rightarrow> World \<Rightarrow> World rt_result" where
  "updateToComplete_with unblock e w =
     (let ev = w_events w e in
      case ev_cmdQueue ev of
        Some q \<Rightarrow>
          if isCompleted (ev_taskCount ev) (w_queues w q)
          then rt_bind (unblock e CL_COMPLETE
                 (executeCallbacks e CL_COMPLETE (transitionExecutionStatus e CL_COMPLETE w)))
                 (\<lambda>w. Inr (cleanTemporary q e w))
          else Inr (transitionExecutionStatus e CL_SUBMITTED w)
      | None \<Rightarrow> Inr (transitionExecutionStatus e CL_SUBMITTED w))"

definition updateExecutionStatus_with :: "unblocker \<Rightarrow> nat \<Rightarrow> World \<Rightarrow> World rt_result" where
  "updateExecutionStatus_with unblock e w =
     (let ev = w_events w e; statusSnapshot = ev_executionStatus ev in
      if ev_kind ev \<noteq> BaseEvent then Inr w
      else if ev_taskLevel ev = eventNotReady then Inr w
      else if isStatusCompleted statusSnapshot then Inr (executeCallbacks e statusSnapshot w)
      else if peekIsBlocked ev
      then Inr (executeCallbacks e CL_QUEUED (transitionExecutionStatus e CL_QUEUED w))
      else rt_bind (if statusSnapshot = CL_QUEUED then updateFromQueued_with unblock e w else Inr w)
             (updateToComplete_with unblock e))"

definition raiseTaskLevel :: "nat \<Rightarrow> u32 \<Rightarrow> World \<Rightarrow> World rt_result" where
  "raiseTaskLevel c lvl w =
     (let ev = w_events w c in
      if ev_taskLevel ev = eventNotReady
      then case ev_cmdQueue ev of
             None \<Rightarrow> Inl NullDereference
           | Some q \<Rightarrow> Inr (upd_event c (\<lambda>ev. ev\<lparr>ev_taskLevel := max (q_csrTaskLevel (w_queues w q)) lvl\<rparr>) w)
      else Inr (upd_event c (\<lambda>ev. ev\<lparr>ev_taskLevel := max (ev_taskLevel ev) lvl\<rparr>) w))"

definition decParentCount :: "nat \<Rightarrow> World \<Rightarrow> World" where
  "decParentCount c = upd_event c (\<lambda>ev. ev\<lparr>ev_parentCount := ev_parentCount ev - 1\<rparr>)"

definition unblockEventBy_with :: "unblocker \<Rightarrow> nat \<Rightarrow> u32 \<Rightarrow> int \<Rightarrow> World \<Rightarrow> World rt_result" where
  "unblockEventBy_with unblock c lvl transitionStatus w =
     (let w = decParentCount c w in
      if ev_parentCount (w_events w c) > 0 \<and> \<not> isStatusCompletedByTermination transitionStatus
      then Inr w
      else rt_bind (raiseTaskLevel c lvl w) (\<lambda>w.
           rt_bind (setStatus_with unblock c
                     (if isStatusCompletedByTermination transitionStatus then transitionStatus
                      else CL_SUBMITTED) w) (\<lambda>(_, w).
           updateExecutionStatus_with unblock c w)))"

fun unblockChildren_with :: "unblocker \<Rightarrow> u32 \<Rightarrow> int \<Rightarrow> nat list \<Rightarrow> World \<Rightarrow> World rt_result" where
  "unblockChildren_with unblock lvl transitionStatus [] w = Inr w"
| "unblockChildren_with unblock lvl transitionStatus (c # cs) w =
     rt_bind (unblockEventBy_with unblock c lvl transitionStatus w) (\<lambda>w.
       unblockChildren_with unblock lvl transitionStatus cs
         (upd_event c (\<lambda>ev. ev\<lparr>ev_refInternal := ev_refInternal ev - 1\<rparr>) w))"

definition taskLevelToPropagate :: "nat \<Rightarrow> int \<Rightarrow> World \<Rightarrow> u32 \<times> World" where
  "taskLevelToPropagate e transitionStatus w =
     (if isStatusCompletedByTermination transitionStatus then (eventNotReady, w)
      else if ev_taskLevel (w_events w e) = eventNotReady
      then (getTaskLevel w e, upd_event e (\<lambda>ev. ev\<lparr>ev_taskLevel := getTaskLevel w e\<rparr>) w)
      else (ev_taskLevel (w_events w e) + 1, w))"

definition detachChildren :: "nat \<Rightarrow> World \<Rightarrow> nat list \<times> World" where
  "detachChildren e w =
     (ev_children (w_events w e), upd_event e (\<lambda>ev. ev\<lparr>ev_children := []\<rparr>) w)"

primrec unblockEventsBlockedByThis :: "nat \<Rightarrow> unblocker" where
  "unblockEventsBlockedByThis 0 = (\<lambda>e transitionStatus w. Inl FuelExhausted)"
| "unblockEventsBlockedByThis (Suc fuel) = (\<lambda>e transitionStatus w.
     case taskLevelToPropagate e transitionStatus w of (lvl, w) \<Rightarrow>
     case detachChildren e w of (cs, w) \<Rightarrow>
       unblockChildren_with (unblockEventsBlockedByThis fuel) lvl transitionStatus cs w)"

definition setStatus :: "nat \<Rightarrow> nat \<Rightarrow> int \<Rightarrow> World \<Rightarrow> (bool \<times> World) rt_result" where
  "setStatus fuel e status w = setStatus_with (unblockEventsBlockedByThis fuel) e status w"

definition updateExecutionStatus :: "nat \<Rightarrow> nat \<Rightarrow> World \<Rightarrow> World rt_result" where
  "updateExecutionStatus fuel e w = updateExecutionStatus_with (unblockEventsBlockedByThis fuel) e w"

definition updateStatusAndCheckCompletion :: "nat \<Rightarrow> nat \<Rightarrow> World \<Rightarrow> (bool \<times> World) rt_result" where
  "updateStatusAndCheckCompletion fuel e w =
     rt_bind (updateExecutionStatus fuel e w)
       (\<lambda>w. Inr (isStatusCompleted (ev_executionStatus (w_events w e)), w))"

definition addChild :: "nat \<Rightarrow> nat \<Rightarrow> nat \<Rightarrow> World \<Rightarrow> World rt_result" where
  "addChild fuel e childEvent w =
     (let w = upd_event childEvent (\<lambda>ev. ev\<lparr>ev_parentCount := ev_parentCount ev + 1,
                 ev_refInternal := ev_refInternal ev + 1\<rparr>) w;
          w = upd_event e (\<lambda>ev. ev\<lparr>ev_children := childEvent # ev_children ev\<rparr>) w
      in if ev_executionStatus (w_events w e) = CL_COMPLETE
         then unblockEventsBlockedByThis fuel e CL_COMPLETE w else Inr w)"

definition registerEvent :: "nat \<Rightarrow> World \<Rightarrow> World" where
  "registerEvent e w =
     (upd_event e (\<lambda>ev. ev\<lparr>ev_refInternal := ev_refInternal ev + 1\<rparr>) w)
       \<lparr>w_registerList := w_registerList w @ [e]\<rparr>"

definition addCallback :: "nat \<Rightarrow> nat \<Rightarrow> nat \<Rightarrow> int \<Rightarrow> nat \<Rightarrow> World \<Rightarrow> World rt_result" where
  "addCallback fuel e fn type data w =
     (case translateToCallbackTarget type of
        None \<Rightarrow> Inr w
      | Some target \<Rightarrow>
          let cb = \<lparr>clb_function = fn, clb_executionStatusTarget = type, clb_userData = data\<rparr>;
              w = upd_event e (\<lambda>ev. ev\<lparr>ev_refInternal := ev_refInternal ev + 2,
                    ev_callbacks := (ev_callbacks ev)(target := cb # ev_callbacks ev target)\<rparr>) w
          in rt_bind (updateStatusAndCheckCompletion fuel e w) (\<lambda>(completed, w).
               let w = (if completed then executeCallbacks e (ev_executionStatus (w_events w e)) w else w);
                   w = (if peekHasCallbacks (w_events w e) \<and> \<not> isUserEvent (w_events w e) \<and>
                           w_enableAsyncEventsHandler w
                        then registerEvent e w else w)
               in Inr (upd_event e (\<lambda>ev. ev\<lparr>ev_refInternal := ev_refInternal ev - 1\<rparr>) w)))"

section \<open>The asynchronous events handler\<close>

definition isExternallySynchronized :: "Event \<Rightarrow> bool" where
  "isExternallySynchronized ev \<longleftrightarrow> False"

definition transferRegisterList :: "World \<Rightarrow> World" where
  "transferRegisterList w = w\<lparr>w_list := w_list w @ w_registerList w, w_registerList := []\<rparr>"

fun processLoop ::
  "nat \<Rightarrow> nat list \<Rightarrow> nat list \<Rightarrow> u32 \<Rightarrow> nat option \<Rightarrow> World \<Rightarrow> (nat option \<times> nat list \<times> World) rt_result"
where
  "processLoop fuel [] pendingList lowestTaskCount sleepCandidate w = Inr (sleepCandidate, pendingList, w)"
| "processLoop fuel (e # es) pendingList lowestTaskCount sleepCandidate w =
     rt_bind (updateExecutionStatus fuel e w) (\<lambda>w.
       let ev = w_events w e in
       if peekHasCallbacks ev \<or> isExternallySynchronized ev \<and> ev_executionStatus ev > CL_COMPLETE
       then if ev_taskCount ev < lowestTaskCount
            then processLoop fuel es (pendingList @ [e]) (ev_taskCount ev) (Some e) w
            else processLoop fuel es (pendingList @ [e]) lowestTaskCount sleepCandidate w
       else processLoop fuel es pendingList lowestTaskCount sleepCandidate
              (upd_event e (\<lambda>ev. ev\<lparr>ev_refInternal := ev_refInternal ev - 1\<rparr>) w))"

definition processList :: "nat \<Rightarrow> World \<Rightarrow> (nat option \<times> World) rt_result" where
  "processList fuel w =
     rt_bind (processLoop fuel (w_list w) [] eventNotReady None w)
       (\<lambda>(sleepCandidate, pendingList, w). Inr (sleepCandidate, w\<lparr>w_list := pendingList\<rparr>))"

definition releaseEvents :: "World \<Rightarrow> World rt_result" where
  "releaseEvents w =
     (let w = (fold (\<lambda>e. upd_event e (\<lambda>ev. ev\<lparr>ev_refInternal := ev_refInternal ev - 1\<rparr>)) (w_list w) w)
                \<lparr>w_list := []\<rparr>
      in unrecoverable_if (w_registerList w \<noteq> []) (Inr w))"

section \<open>Building an event from its parents\<close>

record EventBuilder =
  eb_event :: "nat option"
  eb_finalized :: bool
  eb_parentEvents :: "nat list"

definition addParentEvent :: "nat \<Rightarrow> EventBuilder \<Rightarrow> World \<Rightarrow> EventBuilder \<times> World" where
  "addParentEvent p b w =
     (if p \<in> set (eb_parentEvents b) then (b, w)
      else (b\<lparr>eb_parentEvents := eb_parentEvents b @ [p]\<rparr>,
            upd_event p (\<lambda>ev. ev\<lparr>ev_refInternal := ev_refInternal ev + 1\<rparr>) w))"

definition builder_clear :: "EventBuilder \<Rightarrow> World \<Rightarrow> EventBuilder \<times> World" where
  "builder_clear b w =
     (b\<lparr>eb_parentEvents := []\<rparr>,
      fold (\<lambda>e. upd_event e (\<lambda>ev. ev\<lparr>ev_refInternal := ev_refInternal ev - 1\<rparr>)) (eb_parentEvents b) w)"

definition mustWaitFor :: "Event \<Rightarrow> bool" where
  "mustWaitFor parent \<longleftrightarrow>
     \<not> (\<not> peekIsBlocked parent \<and> ev_taskLevel parent \<noteq> eventNotReady) \<or>
     (\<not> ev_eventWithoutCommand parent \<and> ev_submittedCmd parent = None)"

fun addToParents :: "nat \<Rightarrow> nat \<Rightarrow> nat list \<Rightarrow> World \<Rightarrow> World rt_result" where
  "addToParents fuel e [] w = Inr w"
| "addToParents fuel e (p # ps) w =
     rt_bind (if mustWaitFor (w_events w p) then addChild fuel p e w else Inr w)
       (addToParents fuel e ps)"

text \<open>\<^verbatim>\<open>finalize\<close>: the sentinel is a user event on the stack, here a cell of the store that no other
  event refers to; its destructor finds nothing left to do.\<close>

definition builder_finalize ::
  "nat \<Rightarrow> nat \<Rightarrow> EventBuilder \<Rightarrow> World \<Rightarrow> (EventBuilder \<times> World) rt_result" where
  "builder_finalize fuel sentinel b w =
     (case eb_event b of
        None \<Rightarrow> Inr (builder_clear b w)
      | Some e \<Rightarrow>
          if eb_finalized b then Inr (builder_clear b w)
          else rt_bind
            (if eb_parentEvents b \<noteq> [] then
               rt_bind (addChild fuel sentinel e (upd_event sentinel (\<lambda>_. UserEvent_ctor (w_queues w)) w)) (\<lambda>w.
               rt_bind (addToParents fuel e (eb_parentEvents b) w) (\<lambda>w.
               rt_bind (setStatus fuel sentinel CL_COMPLETE w) (\<lambda>(_, w). Inr w)))
             else Inr w)
            (\<lambda>w. case builder_clear b w of (b, w) \<Rightarrow> Inr (b\<lparr>eb_finalized := True\<rparr>, w)))"

end
