(* ===== verification/Event_Relations.thy ===== *)
theory Event_Relations
  imports Event_Model
begin

text \<open>
  The library of the event proofs. First what submission and the execution of callbacks leave
  alone and what they add; then two locales, \<open>status_relation\<close> and its extension \<open>event_relation\<close>:
  a preorder on stores that each elementary step respects is respected by \<^verbatim>\<open>setStatus\<close>,
  \<^verbatim>\<open>updateExecutionStatus\<close> and \<^verbatim>\<open>unblockEventsBlockedByThis\<close>, by induction on the fuel. They are interpreted
  for the order of statuses, the fate of callbacks, the submissions, the child links against the
  parent counts, and the shrinking of the links, which gives termination.
\<close>

section \<open>What each step leaves alone\<close>

named_theorems event_simps

lemma upd_event_simps [event_simps, simp]:
  "w_events (upd_event e f w) x = (if x = e then f (w_events w e) else w_events w x)"
  "w_queues (upd_event e f w) = w_queues w" "w_executed (upd_event e f w) = w_executed w"
  "w_submissions (upd_event e f w) = w_submissions w" "w_registerList (upd_event e f w) = w_registerList w"
  "w_list (upd_event e f w) = w_list w" "w_ticks (upd_event e f w) = w_ticks w"
  "w_osTime (upd_event e f w) = w_osTime w"
  by (simp_all add: upd_event_def)

lemma upd_queue_simps [event_simps, simp]:
  "w_events (upd_queue q g w) = w_events w" "w_executed (upd_queue q g w) = w_executed w"
  "w_submissions (upd_queue q g w) = w_submissions w" "w_registerList (upd_queue q g w) = w_registerList w"
  "w_list (upd_queue q g w) = w_list w"
  by (simp_all add: upd_queue_def)

lemma tick_simps [event_simps, simp]:
  "w_events (tick w) = w_events w" "w_executed (tick w) = w_executed w"
  "w_submissions (tick w) = w_submissions w" "w_registerList (tick w) = w_registerList w"
  "w_list (tick w) = w_list w" "w_queues (tick w) = w_queues w"
  by (simp_all add: tick_def)

text \<open>The part of an event that submission does not touch.\<close>

definition core :: "Event \<Rightarrow> EventKind \<times> nat option \<times> u32 \<times> int \<times> int \<times> (ECallbackTarget \<Rightarrow> Callback list) \<times> nat list \<times> int" where
  "core ev = (ev_kind ev, ev_cmdQueue ev, ev_taskLevel ev, ev_executionStatus ev, ev_parentCount ev,
              ev_callbacks ev, ev_children ev, ev_refInternal ev)"

lemma core_eqD:
  "core a = core b \<Longrightarrow> ev_executionStatus a = ev_executionStatus b \<and> ev_parentCount a = ev_parentCount b \<and>
     ev_callbacks a = ev_callbacks b \<and> ev_children a = ev_children b \<and> ev_taskLevel a = ev_taskLevel b \<and>
     ev_kind a = ev_kind b \<and> ev_cmdQueue a = ev_cmdQueue b"
  by (simp add: core_def)

text \<open>A step that keeps the core of every event, both records and the pending commands.\<close>

definition quiet :: "World \<Rightarrow> World \<Rightarrow> bool" where
  "quiet w w' \<longleftrightarrow> (\<forall>x. core (w_events w' x) = core (w_events w x) \<and>
       ev_cmdToSubmit (w_events w' x) = ev_cmdToSubmit (w_events w x)) \<and>
     w_executed w' = w_executed w \<and> w_submissions w' = w_submissions w"

lemma quiet_refl [simp]: "quiet w w"
  by (simp add: quiet_def)

lemma quiet_trans: "quiet a b \<Longrightarrow> quiet b c \<Longrightarrow> quiet a c"
  by (simp add: quiet_def)

lemma quiet_upd_event:
  "(\<And>ev. core (f ev) = core ev \<and> ev_cmdToSubmit (f ev) = ev_cmdToSubmit ev) \<Longrightarrow> quiet w (upd_event e f w)"
  by (simp add: quiet_def)

lemma quiet_upd_queue [simp]: "quiet w (upd_queue q g w)"
  by (simp add: quiet_def)

lemma quiet_tick_iff [simp]: "quiet w (tick w') \<longleftrightarrow> quiet w w'"
  by (simp add: quiet_def)

lemma core_updateTaskCount [simp]:
  "core (Event_updateTaskCount t ev) = core ev"
  "ev_cmdToSubmit (Event_updateTaskCount t ev) = ev_cmdToSubmit ev"
  by (simp_all add: Event_updateTaskCount_def core_def Let_def)

lemma quiet_setStamps [simp]:
  "quiet w (setSubmitTimeStamp e w)" "quiet w (setStartTimeStamp e w)" "quiet w (setEndTimeStamp e w)"
  "quiet w (setQueueTimeStamp e w)"
  by (simp_all add: setSubmitTimeStamp_def setStartTimeStamp_def setEndTimeStamp_def setQueueTimeStamp_def
      quiet_upd_event core_def)

lemma quiet_makeNodeResident [simp]: "quiet w (makeNodeResident n q w)"
  by (simp add: makeNodeResident_def split: option.split)

lemma quiet_submitProfiling: "quiet w (submitProfiling e q w)"
proof -
  define w1 where "w1 = makeNodeResident (ev_timeStampNode (w_events w e)) q w"
  define w2 where "w2 = (if ev_profilingCpuPath (w_events w e) then setStartTimeStamp e (setSubmitTimeStamp e w1)
      else tick (upd_event e (\<lambda>x. x\<lparr>ev_submitTimeStamp := readTime w1\<rparr>) w1))"
  have "quiet w w1" by (simp add: w1_def)
  moreover have "quiet w1 w2"
    unfolding w2_def by (auto intro: quiet_trans [of _ "setSubmitTimeStamp e w1"] quiet_upd_event simp: core_def)
  ultimately have "quiet w w2" by (rule quiet_trans)
  then have "quiet w (if b then makeNodeResident n q w2 else w2)" for b n
    by (auto intro: quiet_trans)
  then show ?thesis by (simp only: submitProfiling_def Let_def w1_def [symmetric] w2_def [symmetric])
qed

lemma quiet_updateTaskCountWithoutCommand [simp]: "quiet w (updateTaskCountWithoutCommand e w)"
  by (auto simp: updateTaskCountWithoutCommand_def Let_def intro: quiet_upd_event split: option.split)

lemma quiet_cleanTemporary [simp]: "quiet w (cleanTemporary q e w)"
  by (simp add: cleanTemporary_def)

definition submitted :: "nat \<Rightarrow> bool \<Rightarrow> World \<Rightarrow> World \<Rightarrow> bool" where
  "submitted e abort w w' \<longleftrightarrow>
     (\<forall>x. core (w_events w' x) = core (w_events w x)) \<and> w_executed w' = w_executed w \<and>
     (\<forall>x. ev_cmdToSubmit (w_events w' x) = (if x = e then None else ev_cmdToSubmit (w_events w x))) \<and>
     w_submissions w' = w_submissions w @
       (if ev_cmdToSubmit (w_events w e) = None then [] else [(e, ev_taskLevel (w_events w e), abort)])"

lemma submitPending_effect:
  "\<exists>w1. quiet w w1 \<and> (\<forall>x. core (w_events (submitPending e cmd abort w) x) = core (w_events w1 x) \<and>
      ev_cmdToSubmit (w_events (submitPending e cmd abort w) x) = ev_cmdToSubmit (w_events w1 x)) \<and>
     w_executed (submitPending e cmd abort w) = w_executed w1 \<and>
     w_submissions (submitPending e cmd abort w) = w_submissions w1 @ [(e, ev_taskLevel (w_events w1 e), abort)]"
proof -
  define w1 where "w1 = (case ev_cmdQueue (w_events w e) of None \<Rightarrow> w
      | Some q \<Rightarrow> if ev_profilingEnabled (w_events w e) then submitProfiling e q w else w)"
  define cmd1 where "cmd1 = (if profiled (w_events w e) \<and> ev_timeStampNode (w_events w e) \<noteq> None
      then cmd\<lparr>cmd_timestamp := ev_timeStampNode (w_events w e)\<rparr> else cmd)"
  obtain stamp w2 where r: "runSubmit e cmd1 abort w1 = (stamp, w2)" by fastforce
  have w2: "w_events w2 = w_events w1" "w_executed w2 = w_executed w1"
    "w_submissions w2 = w_submissions w1 @ [(e, ev_taskLevel (w_events w1 e), abort)]"
    using r by (auto simp: runSubmit_def Let_def split: prod.splits)
  define w3 where "w3 = (if ev_profilingCpuPath (w_events w e) then setEndTimeStamp e w2 else w2)"
  have q: "quiet w w1"
    by (auto simp: w1_def quiet_submitProfiling split: option.split)
  have w3: "quiet w2 w3" by (simp add: w3_def)
  have "submitPending e cmd abort w = upd_event e (\<lambda>x. (Event_updateTaskCount (cs_taskCount stamp) x)
                \<lparr>ev_flushStamp := setStamp (cs_flushStamp stamp) (ev_flushStamp x),
                 ev_submittedCmd := Some cmd1\<rparr>) w3"
    by (simp only: submitPending_def Let_def w1_def [symmetric] cmd1_def [symmetric] r prod.case w3_def)
  moreover have "core (x\<lparr>ev_flushStamp := a, ev_submittedCmd := b\<rparr>) = core x" for x a b
    by (simp add: core_def)
  ultimately show ?thesis
    using q w2 w3 by (intro exI [of _ w1]) (auto simp: quiet_def)
qed

lemma submitCommand_submitted: "submitted e abort w (submitCommand e abort w)"
proof -
  define w1 where "w1 = upd_event e (\<lambda>ev. ev\<lparr>ev_cmdToSubmit := None\<rparr>) w"
  have c: "core (ev\<lparr>ev_cmdToSubmit := None\<rparr>) = core ev" for ev by (simp add: core_def)
  have w1: "\<forall>x. core (w_events w1 x) = core (w_events w x)" "w_executed w1 = w_executed w"
    "\<forall>x. ev_cmdToSubmit (w_events w1 x) = (if x = e then None else ev_cmdToSubmit (w_events w x))"
    "w_submissions w1 = w_submissions w"
    by (simp_all add: w1_def c)
  show ?thesis
  proof (cases "ev_cmdToSubmit (w_events w e)")
    case None
    then obtain w2 where "submitCommand e abort w = updateTaskCountWithoutCommand e w2" "quiet w1 w2"
      by (simp add: submitCommand_def Let_def w1_def [symmetric])
    then have "quiet w1 (submitCommand e abort w)" by (metis quiet_trans quiet_updateTaskCountWithoutCommand)
    then show ?thesis using w1 None by (simp add: quiet_def submitted_def)
  next
    case (Some cmd)
    then have s: "submitCommand e abort w = updateTaskCountWithoutCommand e (submitPending e cmd abort w1)"
      by (simp add: submitCommand_def Let_def w1_def [symmetric])
    obtain w2 where w2: "quiet w1 w2"
      "\<forall>x. core (w_events (submitPending e cmd abort w1) x) = core (w_events w2 x) \<and>
        ev_cmdToSubmit (w_events (submitPending e cmd abort w1) x) = ev_cmdToSubmit (w_events w2 x)"
      "w_executed (submitPending e cmd abort w1) = w_executed w2"
      "w_submissions (submitPending e cmd abort w1) = w_submissions w2 @ [(e, ev_taskLevel (w_events w2 e), abort)]"
      using submitPending_effect by blast
    have "quiet (submitPending e cmd abort w1) (submitCommand e abort w)"
      unfolding s by simp
    moreover have "ev_taskLevel (w_events w2 e) = ev_taskLevel (w_events w e)"
      using w2(1) w1(1) by (simp add: quiet_def core_def)
    ultimately show ?thesis
      using w2 w1 Some by (simp add: quiet_def submitted_def)
  qed
qed

section \<open>Callbacks\<close>

definition passedStatus :: "int \<Rightarrow> Callback \<Rightarrow> int" where
  "passedStatus st cb = (if isStatusCompletedByTermination st then st else clb_executionStatusTarget cb)"

lemma fold_executeCallback:
  "fold (executeCallback e st) cbs w =
     upd_event e (\<lambda>ev. ev\<lparr>ev_refInternal := ev_refInternal ev - int (length cbs)\<rparr>)
       (w\<lparr>w_executed := w_executed w @ map (\<lambda>cb. (e, cb, passedStatus st cb)) cbs\<rparr>)"
proof (induction cbs arbitrary: w)
  case Nil
  show ?case by (cases w) (simp add: upd_event_def)
next
  case (Cons cb cbs)
  show ?case
    by (simp add: Cons.IH) (simp add: executeCallback_def upd_event_def passedStatus_def Let_def algebra_simps)
qed

definition statusTargets :: "int \<Rightarrow> ECallbackTarget list" where
  "statusTargets st = (case (if isStatusCompletedByTermination st then Some Completed
        else translateToCallbackTarget st) of None \<Rightarrow> [] | Some t \<Rightarrow> targetsUpTo t)"

lemma executeCallbacks_fold: "executeCallbacks e st w = fold (executeTarget e st) (statusTargets st) w"
  by (simp add: executeCallbacks_def statusTargets_def split: option.split)

text \<open>The events after the callbacks of some targets of one event have been executed, and what is
  added to the record of executed callbacks.\<close>

definition ranTargets :: "nat \<Rightarrow> int \<Rightarrow> ECallbackTarget list \<Rightarrow> World \<Rightarrow> (nat \<times> Callback \<times> int) list" where
  "ranTargets e st ts w = concat (map (\<lambda>t. map (\<lambda>cb. (e, cb, passedStatus st cb)) (ev_callbacks (w_events w e) t)) ts)"

lemma executeTargets_effect:
  assumes "distinct ts"
  shows "w_executed (fold (executeTarget e st) ts w) = w_executed w @ ranTargets e st ts w"
    and "w_submissions (fold (executeTarget e st) ts w) = w_submissions w"
    and "\<exists>r. w_events (fold (executeTarget e st) ts w) = (w_events w)(e := (w_events w e)
       \<lparr>ev_callbacks := (\<lambda>t. if t \<in> set ts then [] else ev_callbacks (w_events w e) t), ev_refInternal := r\<rparr>)"
proof -
  have "w_executed (fold (executeTarget e st) ts w) = w_executed w @ ranTargets e st ts w \<and>
    w_submissions (fold (executeTarget e st) ts w) = w_submissions w \<and>
    (\<exists>r. w_events (fold (executeTarget e st) ts w) = (w_events w)(e := (w_events w e)
       \<lparr>ev_callbacks := (\<lambda>t. if t \<in> set ts then [] else ev_callbacks (w_events w e) t), ev_refInternal := r\<rparr>))"
    using assms
  proof (induction ts arbitrary: w)
    case Nil
    have "w_events w = (w_events w)(e := (w_events w e)\<lparr>ev_callbacks := \<lambda>t. ev_callbacks (w_events w e) t,
        ev_refInternal := ev_refInternal (w_events w e)\<rparr>)" by (cases "w_events w e") auto
    then show ?case by (auto simp: ranTargets_def simp del: fun_upd_apply intro!: exI [of _ "ev_refInternal (w_events w e)"])
  next
    case (Cons t ts)
    define w1 where "w1 = executeTarget e st t w"
    have w1: "w_executed w1 = w_executed w @ map (\<lambda>cb. (e, cb, passedStatus st cb)) (ev_callbacks (w_events w e) t)"
      "w_submissions w1 = w_submissions w"
      by (simp_all add: w1_def executeTarget_def fold_executeCallback)
    have w1': "w_events w1 = (w_events w)(e := (w_events w e)
        \<lparr>ev_callbacks := (ev_callbacks (w_events w e))(t := []),
         ev_refInternal := ev_refInternal (w_events w e) - int (length (ev_callbacks (w_events w e) t))\<rparr>)"
      by (simp add: w1_def executeTarget_def fold_executeCallback upd_event_def)
    have same: "ranTargets e st ts w1 = ranTargets e st ts w"
      using w1' Cons.prems by (auto simp: ranTargets_def intro!: arg_cong [where f = concat] map_cong)
    obtain r where r: "w_events (fold (executeTarget e st) ts w1) = (w_events w1)(e := (w_events w1 e)
       \<lparr>ev_callbacks := (\<lambda>t. if t \<in> set ts then [] else ev_callbacks (w_events w1 e) t), ev_refInternal := r\<rparr>)"
      using Cons by fastforce
    have cb: "(\<lambda>u. if u \<in> set ts then [] else if u = t then [] else f u) =
        (\<lambda>u. if u \<in> set (t # ts) then [] else (f :: ECallbackTarget \<Rightarrow> Callback list) u)" for f
      by auto
    have "\<exists>r. w_events (fold (executeTarget e st) (t # ts) w) = (w_events w)(e := (w_events w e)
       \<lparr>ev_callbacks := (\<lambda>u. if u \<in> set (t # ts) then [] else ev_callbacks (w_events w e) u), ev_refInternal := r\<rparr>)"
      unfolding fold_simps w1_def [symmetric] r w1' fun_upd_same by (rule exI [of _ r]) (simp add: cb del: set_simps cong del: if_weak_cong)
    moreover have "w_executed (fold (executeTarget e st) ts w1) = w_executed w1 @ ranTargets e st ts w"
      "w_submissions (fold (executeTarget e st) ts w1) = w_submissions w1"
      using Cons.IH [of w1] Cons.prems same by simp_all
    then have "w_executed (fold (executeTarget e st) (t # ts) w) = w_executed w @ ranTargets e st (t # ts) w"
      "w_submissions (fold (executeTarget e st) (t # ts) w) = w_submissions w"
      using w1 by (simp_all add: w1_def [symmetric] ranTargets_def)
    ultimately show ?case by blast
  qed
  then show "w_executed (fold (executeTarget e st) ts w) = w_executed w @ ranTargets e st ts w"
    and "w_submissions (fold (executeTarget e st) ts w) = w_submissions w"
    and "\<exists>r. w_events (fold (executeTarget e st) ts w) = (w_events w)(e := (w_events w e)
       \<lparr>ev_callbacks := (\<lambda>t. if t \<in> set ts then [] else ev_callbacks (w_events w e) t), ev_refInternal := r\<rparr>)"
    by auto
qed

lemma distinct_statusTargets [simp]: "distinct (statusTargets st)"
proof -
  have "distinct (targetsUpTo t)" for t by (cases t) simp_all
  then show ?thesis by (simp add: statusTargets_def split: option.split)
qed

lemma executeCallbacks_effect:
  "w_executed (executeCallbacks e st w) = w_executed w @ ranTargets e st (statusTargets st) w"
  "w_submissions (executeCallbacks e st w) = w_submissions w"
  "\<exists>r. w_events (executeCallbacks e st w) = (w_events w)(e := (w_events w e)
     \<lparr>ev_callbacks := (\<lambda>t. if t \<in> set (statusTargets st) then [] else ev_callbacks (w_events w e) t),
      ev_refInternal := r\<rparr>)"
  unfolding executeCallbacks_fold by (rule executeTargets_effect [OF distinct_statusTargets])+

lemma executeCallbacks_event:
  "ev_executionStatus (w_events (executeCallbacks e st w) x) = ev_executionStatus (w_events w x)"
  "ev_parentCount (w_events (executeCallbacks e st w) x) = ev_parentCount (w_events w x)"
  "ev_children (w_events (executeCallbacks e st w) x) = ev_children (w_events w x)"
  "ev_cmdToSubmit (w_events (executeCallbacks e st w) x) = ev_cmdToSubmit (w_events w x)"
  "ev_taskLevel (w_events (executeCallbacks e st w) x) = ev_taskLevel (w_events w x)"
  "ev_kind (w_events (executeCallbacks e st w) x) = ev_kind (w_events w x)"
  "ev_cmdQueue (w_events (executeCallbacks e st w) x) = ev_cmdQueue (w_events w x)"
  "ev_callbacks (w_events (executeCallbacks e st w) x) t =
     (if x = e \<and> t \<in> set (statusTargets st) then [] else ev_callbacks (w_events w x) t)"
  using executeCallbacks_effect(3) [where e = e and st = st and w = w] by auto

section \<open>Relations every status change respects\<close>

text \<open>A preorder on stores that each elementary step of the event code respects is respected by
  every operation built from them, however deep the unblocking of children goes.\<close>

definition unblocks_in :: "(World \<Rightarrow> World \<Rightarrow> bool) \<Rightarrow> unblocker \<Rightarrow> bool" where
  "unblocks_in R unblock \<longleftrightarrow> (\<forall>e st w w'. unblock e st w = Inr w' \<longrightarrow> R w w')"

locale status_relation =
  fixes R :: "World \<Rightarrow> World \<Rightarrow> bool"
  assumes refl: "R w w"
    and trans: "R a b \<Longrightarrow> R b c \<Longrightarrow> R a c"
    and mono: "R a b \<Longrightarrow> ev_executionStatus (w_events b x) \<le> ev_executionStatus (w_events a x)"
    and quiet_step: "quiet w w' \<Longrightarrow> R w w'"
    and submit_step: "submitted e abort w w' \<Longrightarrow> abort \<or> \<not> peekIsBlocked (w_events w e) \<Longrightarrow> R w w'"
    and transition_step:
      "0 \<le> st \<or> 0 < ev_executionStatus (w_events w e) \<Longrightarrow> R w (transitionExecutionStatus e st w)"
    and callbacks_step: "ev_executionStatus (w_events w e) \<le> st \<Longrightarrow> R w (executeCallbacks e st w)"
    and level_step: "R w (upd_event e (\<lambda>ev. ev\<lparr>ev_taskLevel := l ev\<rparr>) w)"
    and ref_step: "R w (upd_event e (\<lambda>ev. ev\<lparr>ev_refInternal := ref ev\<rparr>) w)"
begin

lemma submitCommand_R: "abort \<or> \<not> peekIsBlocked (w_events w e) \<Longrightarrow> R w (submitCommand e abort w)"
  using submit_step submitCommand_submitted by blast

lemma transition_le: "ev_executionStatus (w_events (transitionExecutionStatus e st w) e) \<le> st"
  by (simp add: transitionExecutionStatus_def)

lemma transition_callbacks_R:
  "0 \<le> st \<or> 0 < ev_executionStatus (w_events w e) \<Longrightarrow>
   R w (executeCallbacks e st (transitionExecutionStatus e st w))"
  using trans [OF transition_step callbacks_step [OF transition_le]] by blast

lemma Event_setStatus_R:
  assumes U: "unblocks_in R unblock"
    and s: "Event_setStatus_with unblock e st w = Inr (b, w')"
  shows "R w w'"
proof (cases "isStatusCompleted (ev_executionStatus (w_events w e)) \<or> st = ev_executionStatus (w_events w e) \<or>
    peekIsBlocked (w_events w e) \<and> \<not> isStatusCompletedByTermination st")
  case True
  then have "w' = w" using s by (auto simp: Event_setStatus_with_def Let_def split: if_splits)
  then show ?thesis by (simp add: refl)
next
  case False
  then have n: "\<not> isStatusCompleted (ev_executionStatus (w_events w e))" "st \<noteq> ev_executionStatus (w_events w e)"
    "\<not> (peekIsBlocked (w_events w e) \<and> \<not> isStatusCompletedByTermination st)" by blast+
  define w1 where "w1 = (if st = CL_SUBMITTED \<or> isStatusCompleted st
      then submitCommand e (isStatusCompletedByTermination st) w else w)"
  define w2 where "w2 = transitionExecutionStatus e st w1"
  have "ev_executionStatus (w_events w1 e) = ev_executionStatus (w_events w e)"
    using submitCommand_submitted [of e "isStatusCompletedByTermination st" w]
    by (simp add: w1_def submitted_def core_def)
  then have pos: "0 < ev_executionStatus (w_events w1 e)"
    using False by (auto simp: isStatusCompleted_def)
  have "R w w1" using False by (auto simp: w1_def refl intro: submitCommand_R)
  moreover have "R w1 w2" unfolding w2_def using pos by (simp add: transition_step)
  ultimately have R2: "R w w2" by (rule trans)
  have "rt_bind (if isStatusCompleted st \<or> st = CL_SUBMITTED then unblock e st w2 else Inr w2)
             (\<lambda>w. Inr (True, executeCallbacks e st w)) = Inr (b, w')"
    using s n by (simp only: Event_setStatus_with_def Let_def w2_def w1_def if_False simp_thms)
  then obtain w3 where w3: "(if isStatusCompleted st \<or> st = CL_SUBMITTED then unblock e st w2 else Inr w2) = Inr w3"
    and w': "w' = executeCallbacks e st w3" by auto
  have R3: "R w2 w3" using w3 U refl by (auto simp: unblocks_in_def split: if_splits)
  have "ev_executionStatus (w_events w3 e) \<le> st"
    using mono [OF R3, of e] transition_le [of e st w1] by (simp add: w2_def)
  then have "R w3 w'" unfolding w' by (rule callbacks_step)
  then show ?thesis using R2 R3 trans by blast
qed

lemma setStatus_R:
  assumes U: "unblocks_in R unblock"
    and "setStatus_with unblock e st w = Inr (b, w')"
  shows "R w w'"
  using assms(2) Event_setStatus_R [OF U] unfolding setStatus_with_def by blast

lemma updateFromQueued_R:
  assumes U: "unblocks_in R unblock"
    and "updateFromQueued_with unblock e w = Inr w'" and "\<not> peekIsBlocked (w_events w e)"
  shows "R w w'"
proof -
  have "R w (submitCommand e False w)" using assms(3) by (simp add: submitCommand_R)
  moreover have "R (submitCommand e False w)
      (executeCallbacks e CL_SUBMITTED (transitionExecutionStatus e CL_SUBMITTED (submitCommand e False w)))"
    by (rule transition_callbacks_R) simp
  moreover have "R (executeCallbacks e CL_SUBMITTED
      (transitionExecutionStatus e CL_SUBMITTED (submitCommand e False w))) w'"
    using assms(1,2) by (simp add: unblocks_in_def updateFromQueued_with_def)
  ultimately show ?thesis using trans by blast
qed

lemma updateToComplete_R:
  assumes U: "unblocks_in R unblock"
    and s: "updateToComplete_with unblock e w = Inr w'"
  shows "R w w'"
proof -
  have sub: "R w (transitionExecutionStatus e CL_SUBMITTED w)" by (rule transition_step) simp
  have com: "R w (executeCallbacks e CL_COMPLETE (transitionExecutionStatus e CL_COMPLETE w))"
    by (rule transition_callbacks_R) simp
  show ?thesis
  proof (cases "\<exists>q. ev_cmdQueue (w_events w e) = Some q \<and> isCompleted (ev_taskCount (w_events w e)) (w_queues w q)")
    case True
    then obtain q w1 where "unblock e CL_COMPLETE
        (executeCallbacks e CL_COMPLETE (transitionExecutionStatus e CL_COMPLETE w)) = Inr w1"
      and w': "w' = cleanTemporary q e w1"
      using s by (auto simp: updateToComplete_with_def Let_def)
    then have "R w w1" using U com trans unfolding unblocks_in_def by blast
    moreover have "R w1 w'" unfolding w' by (rule quiet_step) simp
    ultimately show ?thesis by (rule trans)
  next
    case False
    then have "w' = transitionExecutionStatus e CL_SUBMITTED w"
      using s by (auto simp: updateToComplete_with_def Let_def split: option.splits)
    then show ?thesis using sub by simp
  qed
qed

lemma updateExecutionStatus_R:
  assumes U: "unblocks_in R unblock"
    and s: "updateExecutionStatus_with unblock e w = Inr w'"
  shows "R w w'"
proof -
  have q: "R w (executeCallbacks e CL_QUEUED (transitionExecutionStatus e CL_QUEUED w))"
    by (rule transition_callbacks_R) simp
  have c: "R w (executeCallbacks e (ev_executionStatus (w_events w e)) w)"
    by (rule callbacks_step) simp
  show ?thesis
  proof (cases "ev_kind (w_events w e) \<noteq> BaseEvent \<or> ev_taskLevel (w_events w e) = eventNotReady \<or>
      isStatusCompleted (ev_executionStatus (w_events w e)) \<or> peekIsBlocked (w_events w e)")
    case True
    then show ?thesis
      using s q c refl by (auto simp: updateExecutionStatus_with_def Let_def split: if_splits)
  next
    case False
    then obtain w1 where w1: "(if ev_executionStatus (w_events w e) = CL_QUEUED
        then updateFromQueued_with unblock e w else Inr w) = Inr w1"
      and w': "updateToComplete_with unblock e w1 = Inr w'"
      using s by (auto simp: updateExecutionStatus_with_def Let_def)
    have "R w w1"
      using w1 False updateFromQueued_R [OF U] refl by (auto split: if_splits)
    then show ?thesis using updateToComplete_R [OF U w'] trans by blast
  qed
qed

lemma raiseTaskLevel_R: "raiseTaskLevel c lvl w = Inr w' \<Longrightarrow> R w w'"
  by (auto simp: raiseTaskLevel_def Let_def level_step split: if_splits option.splits)

end

locale event_relation = status_relation +
  assumes detach_step: "R w (upd_event e (\<lambda>ev. ev\<lparr>ev_children := []\<rparr>) w)"
    and dec_step: "R w (decParentCount e w)"
begin

lemma unblockEventBy_R:
  assumes U: "unblocks_in R unblock"
    and s: "unblockEventBy_with unblock c lvl st w = Inr w'"
  shows "R w w'"
proof -
  define w1 where "w1 = decParentCount c w"
  have "R w1 w'"
  proof (cases "ev_parentCount (w_events w1 c) > 0 \<and> \<not> isStatusCompletedByTermination st")
    case True
    then show ?thesis
      using s refl by (simp add: unblockEventBy_with_def Let_def w1_def)
  next
    case False
    then obtain w2 b w3 where w2: "raiseTaskLevel c lvl w1 = Inr w2"
      and w3: "setStatus_with unblock c (if isStatusCompletedByTermination st then st else CL_SUBMITTED) w2 = Inr (b, w3)"
      and w': "updateExecutionStatus_with unblock c w3 = Inr w'"
      using s by (auto simp: unblockEventBy_with_def Let_def w1_def [symmetric])
    show ?thesis
      by (rule trans [OF trans [OF raiseTaskLevel_R [OF w2] setStatus_R [OF U w3]] updateExecutionStatus_R [OF U w']])
  qed
  then show ?thesis using dec_step trans unfolding w1_def by blast
qed

lemma unblockChildren_R:
  assumes U: "unblocks_in R unblock"
  shows "unblockChildren_with unblock lvl st cs w = Inr w' \<Longrightarrow> R w w'"
proof (induction cs arbitrary: w)
  case Nil
  then show ?case by (simp add: refl)
next
  case (Cons c cs)
  then obtain w1 where w1: "unblockEventBy_with unblock c lvl st w = Inr w1"
    and r: "unblockChildren_with unblock lvl st cs
         (upd_event c (\<lambda>ev. ev\<lparr>ev_refInternal := ev_refInternal ev - 1\<rparr>) w1) = Inr w'"
    by auto
  show ?case
    by (rule trans [OF trans [OF unblockEventBy_R [OF U w1] ref_step] Cons.IH [OF r]])
qed

lemma unblockEventsBlockedByThis_R: "unblockEventsBlockedByThis fuel e st w = Inr w' \<Longrightarrow> R w w'"
proof (induction fuel arbitrary: e st w w')
  case 0
  then show ?case by simp
next
  case (Suc fuel)
  obtain lvl w1 where w1: "taskLevelToPropagate e st w = (lvl, w1)" by fastforce
  have "R w w1" using w1 refl level_step by (auto simp: taskLevelToPropagate_def split: if_splits)
  moreover have "unblocks_in R (unblockEventsBlockedByThis fuel)"
    using Suc.IH by (simp add: unblocks_in_def)
  then have "R (upd_event e (\<lambda>ev. ev\<lparr>ev_children := []\<rparr>) w1) w'"
    using Suc.prems w1 by (auto simp: detachChildren_def intro: unblockChildren_R)
  ultimately show ?case using detach_step trans by blast
qed

lemma unblock_in_rel: "unblocks_in R (unblockEventsBlockedByThis fuel)"
  using unblockEventsBlockedByThis_R by (simp add: unblocks_in_def)

lemma setStatus_related: "setStatus fuel e st w = Inr (b, w') \<Longrightarrow> R w w'"
  unfolding setStatus_def by (rule setStatus_R [OF unblock_in_rel])

lemma updateExecutionStatus_related: "updateExecutionStatus fuel e w = Inr w' \<Longrightarrow> R w w'"
  unfolding updateExecutionStatus_def by (rule updateExecutionStatus_R [OF unblock_in_rel])

end

section \<open>Statuses only decrease, and a completed status is final\<close>

definition status_rel :: "World \<Rightarrow> World \<Rightarrow> bool" where
  "status_rel a b \<longleftrightarrow> (\<forall>x. ev_executionStatus (w_events b x) \<le> ev_executionStatus (w_events a x) \<and>
     (ev_executionStatus (w_events a x) \<le> 0 \<longrightarrow> ev_executionStatus (w_events b x) = ev_executionStatus (w_events a x)))"

lemma status_rel_same:
  "(\<And>x. ev_executionStatus (w_events b x) = ev_executionStatus (w_events a x)) \<Longrightarrow> status_rel a b"
  by (simp add: status_rel_def)

lemma quiet_status: "quiet w w' \<Longrightarrow> ev_executionStatus (w_events w' x) = ev_executionStatus (w_events w x)"
  by (simp add: quiet_def core_def)

lemma submitted_status: "submitted e ab w w' \<Longrightarrow> ev_executionStatus (w_events w' x) = ev_executionStatus (w_events w x)"
  by (simp add: submitted_def core_def)

lemma status_rel_transition:
  "0 \<le> st \<or> 0 < ev_executionStatus (w_events w e) \<Longrightarrow> status_rel w (transitionExecutionStatus e st w)"
  by (auto simp: status_rel_def transitionExecutionStatus_def)

lemma status_rel_trans: "status_rel a b \<Longrightarrow> status_rel b c \<Longrightarrow> status_rel a c"
  unfolding status_rel_def by (metis order_trans)

interpretation status: event_relation status_rel
proof unfold_locales
  show "status_rel a c" if "status_rel a b" "status_rel b c" for a b c
    using that by (rule status_rel_trans)
qed (auto simp: status_rel_transition executeCallbacks_event decParentCount_def quiet_status submitted_status
       intro: status_rel_same, auto simp: status_rel_def)

section \<open>Callbacks run once, when their status is reached\<close>

definition pendingCallbacks :: "Event \<Rightarrow> Callback multiset" where
  "pendingCallbacks ev = mset (concat (map (ev_callbacks ev) callbackTargets))"

definition ranCallbacks :: "nat \<Rightarrow> (nat \<times> Callback \<times> int) list \<Rightarrow> Callback multiset" where
  "ranCallbacks x new = mset (map (\<lambda>r. fst (snd r)) (filter (\<lambda>r. fst r = x) new))"

definition callbacks_wf :: "World \<Rightarrow> bool" where
  "callbacks_wf w \<longleftrightarrow> (\<forall>x t. \<forall>cb \<in> set (ev_callbacks (w_events w x) t).
     translateToCallbackTarget (clb_executionStatusTarget cb) = Some t)"

definition callbacks_rel :: "World \<Rightarrow> World \<Rightarrow> bool" where
  "callbacks_rel a b \<longleftrightarrow> status_rel a b \<and> (callbacks_wf a \<longrightarrow> callbacks_wf b \<and>
     (\<exists>new. w_executed b = w_executed a @ new \<and>
        (\<forall>(x, cb, p) \<in> set new. ev_executionStatus (w_events b x) \<le> clb_executionStatusTarget cb) \<and>
        (\<forall>x. pendingCallbacks (w_events a x) = pendingCallbacks (w_events b x) + ranCallbacks x new)))"

lemma ranCallbacks_append: "ranCallbacks x (a @ b) = ranCallbacks x a + ranCallbacks x b"
  by (simp add: ranCallbacks_def)

lemma callbacks_rel_trans: 
  assumes "callbacks_rel a b" "callbacks_rel b c"
  shows "callbacks_rel a c"
proof -
  have s: "status_rel a b" "status_rel b c" using assms by (simp_all add: callbacks_rel_def)
  have "callbacks_wf c \<and> (\<exists>new. w_executed c = w_executed a @ new \<and>
        (\<forall>(x, cb, p) \<in> set new. ev_executionStatus (w_events c x) \<le> clb_executionStatusTarget cb) \<and>
        (\<forall>x. pendingCallbacks (w_events a x) = pendingCallbacks (w_events c x) + ranCallbacks x new))"
    if wf: "callbacks_wf a"
  proof -
    obtain n1 where n1: "w_executed b = w_executed a @ n1" "callbacks_wf b"
      "\<forall>(x, cb, p) \<in> set n1. ev_executionStatus (w_events b x) \<le> clb_executionStatusTarget cb"
      "\<forall>x. pendingCallbacks (w_events a x) = pendingCallbacks (w_events b x) + ranCallbacks x n1"
      using assms(1) wf by (auto simp: callbacks_rel_def)
    obtain n2 where n2: "w_executed c = w_executed b @ n2" "callbacks_wf c"
      "\<forall>(x, cb, p) \<in> set n2. ev_executionStatus (w_events c x) \<le> clb_executionStatusTarget cb"
      "\<forall>x. pendingCallbacks (w_events b x) = pendingCallbacks (w_events c x) + ranCallbacks x n2"
      using assms(2) n1(2) by (auto simp: callbacks_rel_def)
    have "\<forall>(x, cb, p) \<in> set n1. ev_executionStatus (w_events c x) \<le> clb_executionStatusTarget cb"
      using n1(3) s(2) unfolding status_rel_def by (fastforce intro: order_trans)
    then show ?thesis
      using n1 n2 by (intro conjI exI [of _ "n1 @ n2"]) (auto simp: ranCallbacks_append ac_simps)
  qed
  then show ?thesis using status_rel_trans [OF s] by (simp add: callbacks_rel_def)
qed

lemma callbacks_rel_same:
  "status_rel a b \<Longrightarrow> (\<And>x. ev_callbacks (w_events b x) = ev_callbacks (w_events a x)) \<Longrightarrow> w_executed b = w_executed a \<Longrightarrow>
   callbacks_rel a b"
  by (auto simp: callbacks_rel_def callbacks_wf_def pendingCallbacks_def ranCallbacks_def)

lemma statusTargets_cases:
  "statusTargets st \<in> {[], [Queued], [Queued, Submitted], [Queued, Submitted, Running], callbackTargets}"
  by (auto simp: statusTargets_def translateToCallbackTarget_def callbackTargets_def)

lemma statusTargets_reached:
  "t \<in> set (statusTargets st) \<Longrightarrow> translateToCallbackTarget target = Some t \<Longrightarrow> st \<le> target"
  by (auto simp: statusTargets_def translateToCallbackTarget_def isStatusCompletedByTermination_def split: if_splits)

lemma ranCallbacks_ranTargets:
  "ranCallbacks x (ranTargets e st ts w) = (if x = e then mset (concat (map (ev_callbacks (w_events w e)) ts)) else {#})"
  by (induction ts) (auto simp: ranTargets_def ranCallbacks_def o_def filter_map)

lemma pending_split:
  "pendingCallbacks (w_events w x) = pendingCallbacks (w_events (executeCallbacks e st w) x) +
     ranCallbacks x (ranTargets e st (statusTargets st) w)"
  using statusTargets_cases [of st]
  by (auto simp: pendingCallbacks_def ranCallbacks_ranTargets executeCallbacks_event callbackTargets_def)

lemma callbacks_rel_executeCallbacks:
  assumes "ev_executionStatus (w_events w e) \<le> st"
  shows "callbacks_rel w (executeCallbacks e st w)"
proof -
  have "\<forall>(x, cb, p) \<in> set (ranTargets e st (statusTargets st) w).
      ev_executionStatus (w_events (executeCallbacks e st w) x) \<le> clb_executionStatusTarget cb" if "callbacks_wf w"
    using that assms statusTargets_reached
    by (fastforce simp: ranTargets_def executeCallbacks_event callbacks_wf_def)
  moreover have "callbacks_wf (executeCallbacks e st w)" if "callbacks_wf w"
    using that by (simp add: callbacks_wf_def executeCallbacks_event)
  ultimately show ?thesis
    using pending_split executeCallbacks_effect(1)
    by (fastforce simp: callbacks_rel_def executeCallbacks_event intro: status_rel_same)
qed

interpretation callbacks: event_relation callbacks_rel
proof unfold_locales
  show "callbacks_rel a c" if "callbacks_rel a b" "callbacks_rel b c" for a b c
    using that by (rule callbacks_rel_trans)
  show "ev_executionStatus (w_events b x) \<le> ev_executionStatus (w_events a x)" if "callbacks_rel a b" for a b x
    using that by (simp add: callbacks_rel_def status_rel_def)
  show "callbacks_rel w (executeCallbacks e st w)" if "ev_executionStatus (w_events w e) \<le> st" for w e st
    using that by (rule callbacks_rel_executeCallbacks)
  show "callbacks_rel w w'" if "quiet w w'" for w w'
    using that by (intro callbacks_rel_same status.quiet_step) (simp_all add: quiet_def core_def)
  show "callbacks_rel w w'" if "submitted e ab w w'" for e ab w w'
    using that by (intro callbacks_rel_same status_rel_same) (simp_all add: submitted_def core_def)
  show "callbacks_rel w (transitionExecutionStatus e st w)"
    if "0 \<le> st \<or> 0 < ev_executionStatus (w_events w e)" for st w e
    using that by (intro callbacks_rel_same status_rel_transition) (simp_all add: transitionExecutionStatus_def)
qed (auto intro!: callbacks_rel_same status_rel_same simp: decParentCount_def)

section \<open>Commands are submitted once, and only when nothing blocks them\<close>

definition submit_rel :: "World \<Rightarrow> World \<Rightarrow> bool" where
  "submit_rel a b \<longleftrightarrow> status_rel a b \<and>
     (\<forall>x. ev_parentCount (w_events b x) \<le> ev_parentCount (w_events a x)) \<and>
     ((\<forall>x. ev_parentCount (w_events a x) < 4294967296) \<longrightarrow>
       (\<exists>new. w_submissions b = w_submissions a @ new \<and> distinct (map fst new) \<and>
          (\<forall>x. ev_cmdToSubmit (w_events b x) = (if x \<in> fst ` set new then None else ev_cmdToSubmit (w_events a x))) \<and>
          (\<forall>(x, lvl, abort) \<in> set new. ev_cmdToSubmit (w_events a x) \<noteq> None \<and>
             (abort \<or> ev_parentCount (w_events b x) \<le> 0))))"

lemma submit_relD:
  assumes "submit_rel a b" "\<forall>x. ev_parentCount (w_events a x) < 4294967296"
  obtains new where "w_submissions b = w_submissions a @ new" "distinct (map fst new)"
    "\<forall>x. ev_cmdToSubmit (w_events b x) = (if x \<in> fst ` set new then None else ev_cmdToSubmit (w_events a x))"
    "\<forall>(x, lvl, abort) \<in> set new. ev_cmdToSubmit (w_events a x) \<noteq> None \<and> (abort \<or> ev_parentCount (w_events b x) \<le> 0)"
    "\<forall>x. ev_parentCount (w_events b x) < 4294967296"
proof -
  have "\<forall>x. ev_parentCount (w_events b x) < 4294967296"
    using assms unfolding submit_rel_def by (meson le_less_trans)
  then show thesis using assms that unfolding submit_rel_def by blast
qed

lemma submit_rel_trans:
  assumes ab: "submit_rel a b" and bc: "submit_rel b c"
  shows "submit_rel a c"
proof -
  have s: "status_rel a c" using ab bc status_rel_trans by (auto simp: submit_rel_def)
  have p: "\<forall>x. ev_parentCount (w_events c x) \<le> ev_parentCount (w_events b x)" using bc by (simp add: submit_rel_def)
  have p': "\<forall>x. ev_parentCount (w_events c x) \<le> ev_parentCount (w_events a x)"
    using ab bc unfolding submit_rel_def by (meson order_trans)
  have "\<exists>new. w_submissions c = w_submissions a @ new \<and> distinct (map fst new) \<and>
          (\<forall>x. ev_cmdToSubmit (w_events c x) = (if x \<in> fst ` set new then None else ev_cmdToSubmit (w_events a x))) \<and>
          (\<forall>(x, lvl, abort) \<in> set new. ev_cmdToSubmit (w_events a x) \<noteq> None \<and>
             (abort \<or> ev_parentCount (w_events c x) \<le> 0))"
    if bound: "\<forall>x. ev_parentCount (w_events a x) < 4294967296"
  proof -
    obtain n1 where n1: "w_submissions b = w_submissions a @ n1" "distinct (map fst n1)"
      "\<forall>x. ev_cmdToSubmit (w_events b x) = (if x \<in> fst ` set n1 then None else ev_cmdToSubmit (w_events a x))"
      "\<forall>(x, lvl, abort) \<in> set n1. ev_cmdToSubmit (w_events a x) \<noteq> None \<and> (abort \<or> ev_parentCount (w_events b x) \<le> 0)"
      "\<forall>x. ev_parentCount (w_events b x) < 4294967296"
      by (rule submit_relD [OF ab bound])
    obtain n2 where n2: "w_submissions c = w_submissions b @ n2" "distinct (map fst n2)"
      "\<forall>x. ev_cmdToSubmit (w_events c x) = (if x \<in> fst ` set n2 then None else ev_cmdToSubmit (w_events b x))"
      "\<forall>(x, lvl, abort) \<in> set n2. ev_cmdToSubmit (w_events b x) \<noteq> None \<and> (abort \<or> ev_parentCount (w_events c x) \<le> 0)"
      by (rule submit_relD [OF bc n1(5)])
    have "ev_cmdToSubmit (w_events b x) \<noteq> None" if "x \<in> fst ` set n2" for x using that n2(4) by fastforce
    moreover have "ev_cmdToSubmit (w_events b x) = None" if "x \<in> fst ` set n1" for x using that n1(3) by simp
    ultimately have "fst ` set n1 \<inter> fst ` set n2 = {}" by blast
    then have "distinct (map fst (n1 @ n2))" using n1(2) n2(2) by auto
    moreover have "\<forall>(x, lvl, abort) \<in> set n1. ev_cmdToSubmit (w_events a x) \<noteq> None \<and>
        (abort \<or> ev_parentCount (w_events c x) \<le> 0)"
      using n1(4) p by (fastforce intro: order_trans)
    moreover have "\<forall>(x, lvl, abort) \<in> set n2. ev_cmdToSubmit (w_events a x) \<noteq> None \<and>
        (abort \<or> ev_parentCount (w_events c x) \<le> 0)"
      using n2(4) n1(3) by (fastforce split: if_splits)
    ultimately show ?thesis
      using n1(1,3) n2(1,3) by (intro exI [of _ "n1 @ n2"]) auto
  qed
  then show ?thesis using s p' by (simp add: submit_rel_def)
qed

lemma submit_rel_same:
  assumes "status_rel a b" "\<And>x. ev_cmdToSubmit (w_events b x) = ev_cmdToSubmit (w_events a x)"
    "\<And>x. ev_parentCount (w_events b x) \<le> ev_parentCount (w_events a x)" "w_submissions b = w_submissions a"
  shows "submit_rel a b"
  using assms by (auto simp: submit_rel_def)

lemma submit_rel_submitted:
  assumes s: "submitted e abort w w'" and free: "abort \<or> \<not> peekIsBlocked (w_events w e)"
  shows "submit_rel w w'"
proof -
  have p: "ev_parentCount (w_events w' x) = ev_parentCount (w_events w x)" for x
    using s by (simp add: submitted_def core_def)
  have le: "ev_parentCount (w_events w e) \<le> 0" if "\<not> abort" "ev_parentCount (w_events w e) < 4294967296"
  proof (rule ccontr)
    assume "\<not> ev_parentCount (w_events w e) \<le> 0"
    then have "ev_parentCount (w_events w e) mod 4294967296 = ev_parentCount (w_events w e)"
      using that(2) by (intro mod_pos_pos_trivial) simp_all
    then show False
      using that free \<open>\<not> ev_parentCount (w_events w e) \<le> 0\<close>
      by (simp add: peekIsBlocked_def peekNumEventsBlockingThis_def)
  qed
  have st: "status_rel w w'" using submitted_status [OF s] by (rule status_rel_same)
  have "\<exists>new. w_submissions w' = w_submissions w @ new \<and> distinct (map fst new) \<and>
          (\<forall>x. ev_cmdToSubmit (w_events w' x) = (if x \<in> fst ` set new then None else ev_cmdToSubmit (w_events w x))) \<and>
          (\<forall>(x, lvl, abort) \<in> set new. ev_cmdToSubmit (w_events w x) \<noteq> None \<and>
             (abort \<or> ev_parentCount (w_events w' x) \<le> 0))"
    if "\<forall>x. ev_parentCount (w_events w x) < 4294967296"
    using s le that p
    by (intro exI [of _ "if ev_cmdToSubmit (w_events w e) = None then [] else [(e, ev_taskLevel (w_events w e), abort)]"])
       (auto simp: submitted_def)
  then show ?thesis using st p by (simp add: submit_rel_def)
qed

interpretation submission: event_relation submit_rel
proof unfold_locales
  show "submit_rel a c" if "submit_rel a b" "submit_rel b c" for a b c
    using that by (rule submit_rel_trans)
  show "ev_executionStatus (w_events b x) \<le> ev_executionStatus (w_events a x)" if "submit_rel a b" for a b x
    using that by (simp add: submit_rel_def status_rel_def)
  show "submit_rel w w'" if "submitted e ab w w'" "ab \<or> \<not> peekIsBlocked (w_events w e)" for e ab w w'
    using that by (rule submit_rel_submitted)
  show "submit_rel w w'" if "quiet w w'" for w w'
    using that by (intro submit_rel_same status.quiet_step) (simp_all add: quiet_def core_def)
  show "submit_rel w (executeCallbacks e st w)" if "ev_executionStatus (w_events w e) \<le> st" for w e st
    using that by (intro submit_rel_same status.callbacks_step) (simp_all add: executeCallbacks_event executeCallbacks_effect)
  show "submit_rel w (transitionExecutionStatus e st w)"
    if "0 \<le> st \<or> 0 < ev_executionStatus (w_events w e)" for st w e
    using that by (intro submit_rel_same status_rel_transition) (simp_all add: transitionExecutionStatus_def)
qed (auto intro!: submit_rel_same status_rel_same simp: decParentCount_def)

section \<open>Parent counts\<close>

text \<open>All child links of a store start in the finite set \<open>S\<close>. The number of links to an event, and
  what its parent count says beyond that.\<close>

definition linksTo :: "nat set \<Rightarrow> nat \<Rightarrow> World \<Rightarrow> int" where
  "linksTo S c w = (\<Sum>e\<in>S. int (count (mset (ev_children (w_events w e))) c))"

definition links_in :: "nat set \<Rightarrow> World \<Rightarrow> bool" where
  "links_in S w \<longleftrightarrow> (\<forall>e. e \<notin> S \<longrightarrow> ev_children (w_events w e) = [])"

definition surplus :: "nat set \<Rightarrow> nat \<Rightarrow> World \<Rightarrow> int" where
  "surplus S c w = ev_parentCount (w_events w c) - linksTo S c w"

definition links_rel :: "nat set \<Rightarrow> World \<Rightarrow> World \<Rightarrow> bool" where
  "links_rel S a b \<longleftrightarrow> status_rel a b \<and>
     (links_in S a \<longrightarrow> links_in S b \<and> (\<forall>c. surplus S c b = surplus S c a))"

lemma links_rel_same:
  "status_rel a b \<Longrightarrow> (\<And>x. ev_children (w_events b x) = ev_children (w_events a x)) \<Longrightarrow>
   (\<And>x. ev_parentCount (w_events b x) = ev_parentCount (w_events a x)) \<Longrightarrow> links_rel S a b"
  by (simp add: links_rel_def links_in_def surplus_def linksTo_def)

interpretation links: status_relation "links_rel S" for S
proof unfold_locales
  show "links_rel S a c" if "links_rel S a b" "links_rel S b c" for a b c
    using that status_rel_trans by (auto simp: links_rel_def)
  show "ev_executionStatus (w_events b x) \<le> ev_executionStatus (w_events a x)" if "links_rel S a b" for a b x
    using that by (simp add: links_rel_def status_rel_def)
  show "links_rel S w w'" if "submitted e ab w w'" for e ab w w'
    using that by (intro links_rel_same status_rel_same) (simp_all add: submitted_def core_def)
  show "links_rel S w w'" if "quiet w w'" for w w'
    using that by (intro links_rel_same status.quiet_step) (simp_all add: quiet_def core_def)
  show "links_rel S w (executeCallbacks e st w)" if "ev_executionStatus (w_events w e) \<le> st" for w e st
    using that by (intro links_rel_same status.callbacks_step) (simp_all add: executeCallbacks_event)
  show "links_rel S w (transitionExecutionStatus e st w)"
    if "0 \<le> st \<or> 0 < ev_executionStatus (w_events w e)" for st w e
    using that by (intro links_rel_same status_rel_transition) (simp_all add: transitionExecutionStatus_def)
qed (auto intro!: links_rel_same status_rel_same)

lemma surplus_dec: "surplus S c (decParentCount d w) = surplus S c w - (if c = d then 1 else 0)"
proof -
  have "linksTo S c (decParentCount d w) = linksTo S c w"
    unfolding linksTo_def by (rule sum.cong) (simp_all add: decParentCount_def)
  then show ?thesis by (simp add: surplus_def decParentCount_def)
qed

lemma surplus_detach:
  assumes "finite S" "links_in S w"
  shows "surplus S c (upd_event e (\<lambda>ev. ev\<lparr>ev_children := []\<rparr>) w) =
    surplus S c w + int (count (mset (ev_children (w_events w e))) c)"
proof (cases "e \<in> S")
  case True
  have "linksTo S c (upd_event e (\<lambda>ev. ev\<lparr>ev_children := []\<rparr>) w) + int (count (mset (ev_children (w_events w e))) c) = linksTo S c w"
    unfolding linksTo_def using assms(1) True
    by (simp add: sum.remove [OF _ True] if_distrib cong: if_cong)
  then show ?thesis by (auto simp: surplus_def)
next
  case False
  then have "ev_children (w_events w e) = []" using assms(2) by (simp add: links_in_def)
  moreover have "linksTo S c (upd_event e (\<lambda>ev. ev\<lparr>ev_children := []\<rparr>) w) = linksTo S c w"
    unfolding linksTo_def using False by (intro sum.cong) auto
  ultimately show ?thesis by (simp add: surplus_def)
qed

lemma links_in_simps [simp]:
  "links_in S (decParentCount c w) \<longleftrightarrow> links_in S w"
  "links_in S w \<Longrightarrow> links_in S (upd_event e (\<lambda>ev. ev\<lparr>ev_children := []\<rparr>) w)"
  by (auto simp: links_in_def decParentCount_def)

lemma unblockEventBy_surplus:
  assumes U: "unblocks_in (links_rel S) unblock" and w: "links_in S w"
    and s: "unblockEventBy_with unblock d lvl st w = Inr w'"
  shows "status_rel w w' \<and> links_in S w' \<and> surplus S c w' = surplus S c w - (if c = d then 1 else 0)"
proof -
  define w1 where "w1 = decParentCount d w"
  have r: "links_rel S w1 w'"
  proof (cases "ev_parentCount (w_events w1 d) > 0 \<and> \<not> isStatusCompletedByTermination st")
    case True
    then show ?thesis
      using s links.refl by (simp add: unblockEventBy_with_def Let_def w1_def)
  next
    case False
    then obtain w2 b w3 where w2: "raiseTaskLevel d lvl w1 = Inr w2"
      and w3: "setStatus_with unblock d (if isStatusCompletedByTermination st then st else CL_SUBMITTED) w2 = Inr (b, w3)"
      and w': "updateExecutionStatus_with unblock d w3 = Inr w'"
      using s by (auto simp: unblockEventBy_with_def Let_def w1_def [symmetric])
    show ?thesis
      by (rule links.trans [OF links.trans [OF links.raiseTaskLevel_R [OF w2] links.setStatus_R [OF U w3]]
            links.updateExecutionStatus_R [OF U w']])
  qed
  have "status_rel w w'"
    using status_rel_trans [of w w1 w'] status.dec_step r by (simp add: w1_def links_rel_def)
  then show ?thesis
    using r w surplus_dec [of S c d w] by (simp add: links_rel_def w1_def)
qed

lemma unblockChildren_surplus:
  assumes U: "unblocks_in (links_rel S) unblock"
  shows "links_in S w \<Longrightarrow> unblockChildren_with unblock lvl st cs w = Inr w' \<Longrightarrow>
    status_rel w w' \<and> links_in S w' \<and> (\<forall>c. surplus S c w' = surplus S c w - int (count (mset cs) c))"
proof (induction cs arbitrary: w)
  case Nil
  then show ?case by (simp add: status.refl)
next
  case (Cons d cs)
  then obtain w1 where w1: "unblockEventBy_with unblock d lvl st w = Inr w1"
    and r: "unblockChildren_with unblock lvl st cs
         (upd_event d (\<lambda>ev. ev\<lparr>ev_refInternal := ev_refInternal ev - 1\<rparr>) w1) = Inr w'"
    by auto
  let ?w2 = "upd_event d (\<lambda>ev. ev\<lparr>ev_refInternal := ev_refInternal ev - 1\<rparr>) w1"
  have u: "status_rel w w1 \<and> links_in S w1 \<and> (\<forall>c. surplus S c w1 = surplus S c w - (if c = d then 1 else 0))"
    using unblockEventBy_surplus [OF U Cons.prems(1) w1] by blast
  have l: "links_rel S w1 ?w2" by (rule links.ref_step)
  then have "links_in S ?w2" using u by (simp add: links_rel_def)
  note rest = Cons.IH [OF this r]
  have "status_rel w w'"
    using u l rest by (meson links_rel_def status_rel_trans)
  moreover have "surplus S c w' = surplus S c w - int (count (mset (d # cs)) c)" for c
    using u l rest by (simp add: links_rel_def)
  ultimately show ?case using rest by simp
qed

lemma unblock_surplus:
  "finite S \<Longrightarrow> unblocks_in (links_rel S) (unblockEventsBlockedByThis fuel)"
proof (induction fuel)
  case 0
  then show ?case by (simp add: unblocks_in_def)
next
  case (Suc fuel)
  have "links_rel S w w'" if u: "unblockEventsBlockedByThis (Suc fuel) e st w = Inr w'" for e st w w'
  proof -
    obtain lvl w1 where w1: "taskLevelToPropagate e st w = (lvl, w1)" by fastforce
    define w2 where "w2 = upd_event e (\<lambda>ev. ev\<lparr>ev_children := []\<rparr>) w1"
    have l: "links_rel S w w1"
      using w1 links.refl links.level_step by (auto simp: taskLevelToPropagate_def split: if_splits)
    have c: "unblockChildren_with (unblockEventsBlockedByThis fuel) lvl st (ev_children (w_events w1 e)) w2 = Inr w'"
      using u w1 by (simp add: detachChildren_def w2_def)
    have s2: "status_rel w1 w2" unfolding w2_def by (rule status.detach_step)
    have s3: "status_rel w2 w'"
      using c status.unblockChildren_R [OF status.unblock_in_rel] by blast
    have "links_in S w' \<and> (\<forall>d. surplus S d w' = surplus S d w1)" if "links_in S w1"
      using unblockChildren_surplus [OF Suc.IH [OF Suc.prems] _ c] surplus_detach [OF Suc.prems that] that
      by (simp add: w2_def)
    then show ?thesis
      using l status_rel_trans [OF _ status_rel_trans [OF s2 s3], of w] by (simp add: links_rel_def)
  qed
  then show ?case by (simp add: unblocks_in_def)
qed

section \<open>Termination\<close>

definition totalLinks :: "nat set \<Rightarrow> World \<Rightarrow> nat" where
  "totalLinks S w = (\<Sum>e\<in>S. length (ev_children (w_events w e)))"

text \<open>Every event that is somebody's child has a command queue, as the runtime's child events do.\<close>

definition children_queued :: "World \<Rightarrow> bool" where
  "children_queued w \<longleftrightarrow> (\<forall>e. \<forall>c \<in> set (ev_children (w_events w e)). ev_cmdQueue (w_events w c) \<noteq> None)"

definition shrink_rel :: "World \<Rightarrow> World \<Rightarrow> bool" where
  "shrink_rel a b \<longleftrightarrow> status_rel a b \<and> (\<forall>x. ev_cmdQueue (w_events b x) = ev_cmdQueue (w_events a x)) \<and>
     (\<forall>x. ev_children (w_events b x) \<in> {ev_children (w_events a x), []})"

lemma shrink_rel_same:
  "status_rel a b \<Longrightarrow> (\<And>x. ev_children (w_events b x) = ev_children (w_events a x)) \<Longrightarrow>
   (\<And>x. ev_cmdQueue (w_events b x) = ev_cmdQueue (w_events a x)) \<Longrightarrow> shrink_rel a b"
  by (simp add: shrink_rel_def)

interpretation shrink: event_relation shrink_rel
proof unfold_locales
  show "shrink_rel a c" if "shrink_rel a b" "shrink_rel b c" for a b c
    using that status_rel_trans unfolding shrink_rel_def by (metis (no_types, lifting) insert_iff)
  show "ev_executionStatus (w_events b x) \<le> ev_executionStatus (w_events a x)" if "shrink_rel a b" for a b x
    using that by (simp add: shrink_rel_def status_rel_def)
  show "shrink_rel w w'" if "submitted e ab w w'" for e ab w w'
    using that by (intro shrink_rel_same status_rel_same) (simp_all add: submitted_def core_def)
  show "shrink_rel w w'" if "quiet w w'" for w w'
    using that by (intro shrink_rel_same status.quiet_step) (simp_all add: quiet_def core_def)
  show "shrink_rel w (executeCallbacks e st w)" if "ev_executionStatus (w_events w e) \<le> st" for w e st
    using that by (intro shrink_rel_same status.callbacks_step) (simp_all add: executeCallbacks_event)
  show "shrink_rel w (transitionExecutionStatus e st w)"
    if "0 \<le> st \<or> 0 < ev_executionStatus (w_events w e)" for st w e
    using that by (intro shrink_rel_same status_rel_transition) (simp_all add: transitionExecutionStatus_def)
  show "shrink_rel w (upd_event e (\<lambda>ev. ev\<lparr>ev_children := []\<rparr>) w)" for w e
    using status.detach_step by (simp add: shrink_rel_def)
qed (auto intro!: shrink_rel_same status_rel_same simp: decParentCount_def)

definition small :: "nat set \<Rightarrow> nat \<Rightarrow> World \<Rightarrow> bool" where
  "small S k w \<longleftrightarrow> links_in S w \<and> children_queued w \<and> totalLinks S w \<le> k"

lemma small_shrink:
  assumes c: "\<And>x. ev_children (w_events b x) = ev_children (w_events a x) \<or> ev_children (w_events b x) = []"
    and q: "\<And>x. ev_cmdQueue (w_events b x) = ev_cmdQueue (w_events a x)" and a: "small S k a"
  shows "small S k b"
proof -
  have "totalLinks S b \<le> totalLinks S a"
    unfolding totalLinks_def by (intro sum_mono) (metis c le0 list.size(3) order_refl)
  moreover have "links_in S b" using a c by (metis links_in_def small_def)
  moreover have "children_queued b"
    using a c unfolding small_def children_queued_def q by (metis empty_iff empty_set)
  ultimately show "small S k b" using a by (simp add: small_def)
qed

lemma small_same:
  "(\<And>x. ev_children (w_events b x) = ev_children (w_events a x) \<and> ev_cmdQueue (w_events b x) = ev_cmdQueue (w_events a x)) \<Longrightarrow>
   small S k a \<Longrightarrow> small S k b"
  by (rule small_shrink) simp_all

lemma small_steps:
  assumes "small S k w"
  shows "small S k (submitCommand e ab w)" "small S k (transitionExecutionStatus e st w)"
    "small S k (executeCallbacks e st w)" "small S k (decParentCount e w)" "small S k (cleanTemporary q e w)"
    "small S k (upd_event e (\<lambda>ev. ev\<lparr>ev_taskLevel := l ev\<rparr>) w)"
    "small S k (upd_event e (\<lambda>ev. ev\<lparr>ev_refInternal := r ev\<rparr>) w)"
    "small S k (upd_event e (\<lambda>ev. ev\<lparr>ev_children := []\<rparr>) w)"
  using submitCommand_submitted [of e ab w] quiet_cleanTemporary [of w q e]
  by (simp_all add: small_same [OF _ assms] submitted_def quiet_def core_def executeCallbacks_event
      transitionExecutionStatus_def decParentCount_def small_shrink [OF _ _ assms])

text \<open>A call that returns, in a store that is still small.\<close>

definition returns :: "nat set \<Rightarrow> nat \<Rightarrow> World rt_result \<Rightarrow> bool" where
  "returns S k m \<longleftrightarrow> (\<exists>w'. m = Inr w' \<and> small S k w')"

lemma returns_Inr [simp]: "returns S k (Inr w) \<longleftrightarrow> small S k w"
  by (simp add: returns_def)

lemma returns_bind:
  "returns S k m \<Longrightarrow> (\<And>w. small S k w \<Longrightarrow> returns S k (f w)) \<Longrightarrow> returns S k (rt_bind m f)"
  by (auto simp: returns_def)

definition returns_on :: "nat set \<Rightarrow> nat \<Rightarrow> unblocker \<Rightarrow> bool" where
  "returns_on S k unblock \<longleftrightarrow> (\<forall>e st w. small S k w \<longrightarrow> returns S k (unblock e st w))"

lemma Event_setStatus_returns:
  assumes U: "returns_on S k unblock" and "small S k w"
  shows "\<exists>b w'. Event_setStatus_with unblock e st w = Inr (b, w') \<and> small S k w'"
proof -
  define w2 where "w2 = transitionExecutionStatus e st (if st = CL_SUBMITTED \<or> isStatusCompleted st
      then submitCommand e (isStatusCompletedByTermination st) w else w)"
  have "small S k w2" using assms(2) by (simp add: w2_def small_steps)
  then have "returns S k (if isStatusCompleted st \<or> st = CL_SUBMITTED then unblock e st w2 else Inr w2)"
    using U by (simp add: returns_on_def)
  then obtain w3 where "(if isStatusCompleted st \<or> st = CL_SUBMITTED then unblock e st w2 else Inr w2) = Inr w3"
    and "small S k w3" by (auto simp: returns_def)
  then have "rt_bind (if isStatusCompleted st \<or> st = CL_SUBMITTED then unblock e st w2 else Inr w2)
      (\<lambda>w. Inr (True, executeCallbacks e st w)) = Inr (True, executeCallbacks e st w3)"
    "small S k (executeCallbacks e st w3)" by (simp_all add: small_steps)
  then show ?thesis
    using assms unfolding Event_setStatus_with_def Let_def w2_def [symmetric] by auto
qed

lemma updateExecutionStatus_returns:
  assumes U: "returns_on S k unblock" and w: "small S k w"
  shows "returns S k (updateExecutionStatus_with unblock e w)"
proof -
  have q: "returns S k (updateFromQueued_with unblock e w)"
    using U w by (simp add: updateFromQueued_with_def returns_on_def small_steps)
  have c: "returns S k (updateToComplete_with unblock e w1)" if "small S k w1" for w1
    using U that
    by (auto simp: updateToComplete_with_def Let_def returns_on_def small_steps intro!: returns_bind split: option.split)
  show ?thesis
    using w by (auto simp: updateExecutionStatus_with_def Let_def small_steps intro!: returns_bind q c)
qed

lemma unblockEventBy_returns:
  assumes U: "returns_on S k unblock" and w: "small S k w" and q: "ev_cmdQueue (w_events w c) \<noteq> None"
  shows "returns S k (unblockEventBy_with unblock c lvl st w)"
proof -
  define w1 where "w1 = decParentCount c w"
  have w1: "small S k w1" "ev_cmdQueue (w_events w1 c) \<noteq> None"
    using w q by (simp_all add: w1_def small_steps) (simp add: decParentCount_def)
  have "returns S k (raiseTaskLevel c lvl w1)"
    using w1 by (auto simp: raiseTaskLevel_def Let_def small_steps)
  moreover have "returns S k (rt_bind (setStatus_with unblock c s w2) (\<lambda>(_, w). updateExecutionStatus_with unblock c w))"
    if w2: "small S k w2" for s w2
  proof -
    obtain b w3 where "setStatus_with unblock c s w2 = Inr (b, w3)" "small S k w3"
      using Event_setStatus_returns [OF U w2] unfolding setStatus_with_def by blast
    then show ?thesis using updateExecutionStatus_returns [OF U] by simp
  qed
  ultimately show ?thesis
    using w1 by (auto simp: unblockEventBy_with_def Let_def w1_def [symmetric] intro!: returns_bind)
qed

lemma unblockChildren_returns:
  assumes U: "returns_on S k unblock" "unblocks_in shrink_rel unblock"
  shows "small S k w \<Longrightarrow> \<forall>c \<in> set cs. ev_cmdQueue (w_events w c) \<noteq> None \<Longrightarrow>
    returns S k (unblockChildren_with unblock lvl st cs w)"
proof (induction cs arbitrary: w)
  case Nil
  then show ?case by simp
next
  case (Cons c cs)
  have "returns S k (unblockEventBy_with unblock c lvl st w)"
    using Cons.prems by (intro unblockEventBy_returns [OF U(1)]) simp_all
  then obtain w1 where w1: "unblockEventBy_with unblock c lvl st w = Inr w1" "small S k w1"
    by (auto simp: returns_def)
  have "shrink_rel w w1" by (rule shrink.unblockEventBy_R [OF U(2) w1(1)])
  then have "\<forall>d \<in> set cs. ev_cmdQueue (w_events (upd_event c (\<lambda>ev. ev\<lparr>ev_refInternal := ev_refInternal ev - 1\<rparr>) w1) d) \<noteq> None"
    using Cons.prems(2) by (simp add: shrink_rel_def)
  then show ?case using w1 Cons.IH by (simp add: small_steps)
qed

lemma unblock_returns:
  assumes "finite S"
  shows "k < fuel \<Longrightarrow> returns_on S k (unblockEventsBlockedByThis fuel)"
proof (induction fuel arbitrary: k)
  case 0
  then show ?case by simp
next
  case (Suc fuel)
  have "returns S k (unblockEventsBlockedByThis (Suc fuel) e st w)" if w: "small S k w" for e st w
  proof -
    obtain lvl w1 where l: "taskLevelToPropagate e st w = (lvl, w1)" by fastforce
    have w1: "small S k w1"
      using l w by (auto simp: taskLevelToPropagate_def small_steps split: if_splits)
    define w2 where "w2 = upd_event e (\<lambda>ev. ev\<lparr>ev_children := []\<rparr>) w1"
    have r: "unblockEventsBlockedByThis (Suc fuel) e st w =
        unblockChildren_with (unblockEventsBlockedByThis fuel) lvl st (ev_children (w_events w1 e)) w2"
      using l by (simp add: detachChildren_def w2_def)
    show ?thesis
    proof (cases "ev_children (w_events w1 e) = []")
      case True
      then show ?thesis unfolding r using w1 by (simp add: w2_def small_steps)
    next
      case False
      then have e: "e \<in> S" using w1 by (auto simp: small_def links_in_def)
      have "totalLinks S w2 + length (ev_children (w_events w1 e)) = totalLinks S w1"
        unfolding totalLinks_def w2_def using assms e
        by (simp add: sum.remove [OF _ e] if_distrib cong: if_cong)
      then have "totalLinks S w2 < k" using False w1 by (cases "ev_children (w_events w1 e)") (simp_all add: small_def)
      moreover have s2: "small S k w2" using w1 by (simp add: w2_def small_steps)
      ultimately have k: "small S (k - 1) w2" "k - 1 < fuel" "k - 1 \<le> k"
        using Suc.prems by (simp_all add: small_def)
      have "\<forall>c \<in> set (ev_children (w_events w1 e)). ev_cmdQueue (w_events w2 c) \<noteq> None"
        using w1 by (simp add: small_def children_queued_def w2_def)
      then have "returns S (k - 1) (unblockEventsBlockedByThis (Suc fuel) e st w)"
        unfolding r using k Suc.IH shrink.unblock_in_rel by (intro unblockChildren_returns) simp_all
      then show ?thesis using k(3) by (auto simp: returns_def small_def)
    qed
  qed
  then show ?case by (simp only: returns_on_def) blast
qed

end
