(* ===== verification/Event_Properties.thy ===== *)
theory Event_Properties
  imports Event_Relations
begin

text \<open>
  What the event code guarantees: runs of the interface as a step relation, the order and
  finality of statuses, the fate of callbacks and commands, termination of a status change, the
  interleavings of the compare-and-exchange loop, and the arithmetic of the GPU timer. An example
  store at the end serves the witnesses.
\<close>

section \<open>Runs of the event interface\<close>

text \<open>One call of the interface, by any thread, or progress of the GPU.\<close>

inductive event_step :: "World \<Rightarrow> World \<Rightarrow> bool" where
  set_status: "setStatus fuel e st w = Inr (b, w') \<Longrightarrow> event_step w w'"
| update: "updateExecutionStatus fuel e w = Inr w' \<Longrightarrow> event_step w w'"
| add_child: "addChild fuel p c w = Inr w' \<Longrightarrow> event_step w w'"
| add_callback: "addCallback fuel e fn type data w = Inr w' \<Longrightarrow> event_step w w'"
| set_command: "setCommand e cmd w = Inr w' \<Longrightarrow> event_step w w'"
| set_stamp: "event_step w (upd_event e (updateCompletionStamp tc lvl fs) w)"
| task_count: "event_step w (upd_event e (Event_updateTaskCount tc) w)"
| process: "processList fuel w = Inr (s, w') \<Longrightarrow> event_step w w'"
| transfer: "event_step w (transferRegisterList w)"
| gpu: "event_step w (w\<lparr>w_queues := qs\<rparr>)"

lemma addChild_status: "addChild fuel p c w = Inr w' \<Longrightarrow> status_rel w w'"
proof -
  assume a: "addChild fuel p c w = Inr w'"
  define w2 where "w2 = upd_event p (\<lambda>ev. ev\<lparr>ev_children := c # ev_children ev\<rparr>)
     (upd_event c (\<lambda>ev. ev\<lparr>ev_parentCount := ev_parentCount ev + 1, ev_refInternal := ev_refInternal ev + 1\<rparr>) w)"
  have "status_rel w w2" by (rule status_rel_same) (simp add: w2_def)
  moreover have "status_rel w2 w'"
    using a status.unblockEventsBlockedByThis_R status.refl
    by (auto simp: addChild_def Let_def w2_def [symmetric] split: if_splits)
  ultimately show ?thesis by (rule status_rel_trans)
qed

lemma pending_none:
  "st \<le> 0 \<Longrightarrow> pendingCallbacks (w_events (executeCallbacks e st w) e) = {#}"
  by (auto simp: pendingCallbacks_def executeCallbacks_event callbackTargets_def statusTargets_def
      isStatusCompletedByTermination_def translateToCallbackTarget_def)

lemma addCallback_cases:
  assumes a: "addCallback fuel e fn type data w = Inr w'" and t: "translateToCallbackTarget type = Some t"
  obtains w1 w2 where
    "w1 = upd_event e (\<lambda>ev. ev\<lparr>ev_refInternal := ev_refInternal ev + 2, ev_callbacks := (ev_callbacks ev)
        (t := \<lparr>clb_function = fn, clb_executionStatusTarget = type, clb_userData = data\<rparr> # ev_callbacks ev t)\<rparr>) w"
    "updateExecutionStatus fuel e w1 = Inr w2" "callbacks_rel w2 w'"
    "ev_executionStatus (w_events w' e) \<le> 0 \<Longrightarrow> pendingCallbacks (w_events w' e) = {#}"
proof -
  define w1 where "w1 = upd_event e (\<lambda>ev. ev\<lparr>ev_refInternal := ev_refInternal ev + 2, ev_callbacks := (ev_callbacks ev)
        (t := \<lparr>clb_function = fn, clb_executionStatusTarget = type, clb_userData = data\<rparr> # ev_callbacks ev t)\<rparr>) w"
  obtain w2 where w2: "updateExecutionStatus fuel e w1 = Inr w2"
    using a t by (auto simp: addCallback_def Let_def w1_def [symmetric] updateStatusAndCheckCompletion_def)
  define w3 where "w3 = (if isStatusCompleted (ev_executionStatus (w_events w2 e))
      then executeCallbacks e (ev_executionStatus (w_events w2 e)) w2 else w2)"
  define w4 where "w4 = (if peekHasCallbacks (w_events w3 e) \<and> \<not> isUserEvent (w_events w3 e) \<and>
      w_enableAsyncEventsHandler w3 then registerEvent e w3 else w3)"
  have "addCallback fuel e fn type data w = Inr (upd_event e (\<lambda>ev. ev\<lparr>ev_refInternal := ev_refInternal ev - 1\<rparr>) w4)"
    by (simp only: addCallback_def t option.case Let_def w1_def [symmetric] updateStatusAndCheckCompletion_def
        w2 rt_bind_simps prod.case w3_def [symmetric] w4_def [symmetric])
  then have w': "w' = upd_event e (\<lambda>ev. ev\<lparr>ev_refInternal := ev_refInternal ev - 1\<rparr>) w4"
    using a by simp
  have r: "callbacks_rel w2 w3"
    using callbacks.refl callbacks.callbacks_step by (simp add: w3_def)
  have same: "ev_callbacks (w_events w' x) = ev_callbacks (w_events w3 x)"
    "ev_executionStatus (w_events w' x) = ev_executionStatus (w_events w3 x)" "w_executed w' = w_executed w3" for x
    by (simp_all add: w' w4_def registerEvent_def)
  then have "callbacks_rel w3 w'" by (intro callbacks_rel_same status_rel_same) simp_all
  then have "callbacks_rel w2 w'" using r callbacks.trans by blast
  moreover have "pendingCallbacks (w_events w' e) = {#}" if "ev_executionStatus (w_events w' e) \<le> 0"
  proof -
    have "ev_executionStatus (w_events w3 e) = ev_executionStatus (w_events w2 e)"
      by (simp add: w3_def executeCallbacks_event)
    then have "ev_executionStatus (w_events w2 e) \<le> 0" using that same(2) by simp
    then have "pendingCallbacks (w_events w3 e) = {#}"
      using pending_none by (auto simp: w3_def isStatusCompleted_def)
    then show ?thesis by (simp add: pendingCallbacks_def same)
  qed
  ultimately show thesis using that [OF w1_def w2] by blast
qed

lemma addCallback_status:
  assumes a: "addCallback fuel e fn type data w = Inr w'"
  shows "status_rel w w'"
proof (cases "translateToCallbackTarget type")
  case None
  then show ?thesis using a by (simp add: addCallback_def status.refl)
next
  case (Some t)
  show ?thesis
  proof (rule addCallback_cases [OF a Some])
    fix w1 w2
    assume w1: "w1 = upd_event e (\<lambda>ev. ev\<lparr>ev_refInternal := ev_refInternal ev + 2, ev_callbacks := (ev_callbacks ev)
        (t := \<lparr>clb_function = fn, clb_executionStatusTarget = type, clb_userData = data\<rparr> # ev_callbacks ev t)\<rparr>) w"
      and u: "updateExecutionStatus fuel e w1 = Inr w2" and c: "callbacks_rel w2 w'"
    have "status_rel w w1" unfolding w1 by (rule status_rel_same) simp
    moreover have "status_rel w2 w'" using c by (simp add: callbacks_rel_def)
    ultimately show ?thesis
      using status.updateExecutionStatus_related [OF u] status_rel_trans by blast
  qed
qed

lemma processLoop_status: "processLoop fuel es p lo sc w = Inr (s, ps, w') \<Longrightarrow> status_rel w w'"
proof (induction es arbitrary: p lo sc w)
  case Nil
  then show ?case by (simp add: status.refl)
next
  case (Cons e es)
  then obtain w1 where w1: "updateExecutionStatus fuel e w = Inr w1" by auto
  have "status_rel w1 w'"
    using Cons.prems w1 Cons.IH status_rel_trans [OF status.ref_step [of w1 e "\<lambda>ev. ev_refInternal ev - 1"] Cons.IH]
    by (auto simp: Let_def split: if_splits)
  then show ?case using status.updateExecutionStatus_related [OF w1] status_rel_trans by blast
qed

lemma event_step_status: "event_step w w' \<Longrightarrow> status_rel w w'"
proof (induction rule: event_step.induct)
  case (process fuel w s w')
  then obtain ps w1 where "processLoop fuel (w_list w) [] eventNotReady None w = Inr (s, ps, w1)"
    and "w' = w1\<lparr>w_list := ps\<rparr>" by (auto simp: processList_def)
  then show ?case using processLoop_status by (fastforce simp: status_rel_def)
next
  case (set_command e cmd w w')
  then show ?case by (intro status_rel_same) (auto simp: setCommand_def)
next
  case (set_stamp w e tc lvl fs)
  show ?case by (rule status_rel_same) (simp add: updateCompletionStamp_def)
next
  case (task_count w e tc)
  show ?case by (rule status_rel_same) (simp add: Event_updateTaskCount_def Let_def)
next
  case (transfer w)
  show ?case by (rule status_rel_same) (simp add: transferRegisterList_def)
next
  case (gpu w qs)
  show ?case by (rule status_rel_same) simp
qed (auto intro: status.setStatus_related status.updateExecutionStatus_related addChild_status addCallback_status)

section \<open>An example store\<close>

text \<open>A user event, cell 0, blocks the event of a command, cell 1, that has a callback for its
  completion.\<close>

definition demo_queue :: CommandQueue where
  "demo_queue = \<lparr>q_csr = \<lparr>csr_contextId = 0, csr_taskCount = 7, csr_tag = 3\<rparr>, q_csrTaskLevel = 4,
     q_storage = InternalAllocationStorage_ctor, q_freed = [], q_resident = [],
     q_profilingEnable = False, q_perfCounters = False\<rparr>"

definition demo_command :: Command where
  "demo_command = \<lparr>cmd_submit = (\<lambda>lvl abort qs. (\<lparr>cs_taskCount = 8, cs_taskLevel = lvl, cs_flushStamp = 1\<rparr>, qs)),
     cmd_timestamp = None\<rparr>"

definition demo_callback :: Callback where
  "demo_callback = \<lparr>clb_function = 1, clb_executionStatusTarget = CL_COMPLETE, clb_userData = 0\<rparr>"

definition demo :: World where
  "demo = \<lparr>w_events = (\<lambda>e. if e = 0 then (UserEvent_ctor (\<lambda>_. demo_queue))\<lparr>ev_children := [1]\<rparr>
        else if e = 1 then (Event_ctor BaseEvent (Some 0) False eventNotReady eventNotReady (\<lambda>_. demo_queue))
          \<lparr>ev_parentCount := 1, ev_cmdToSubmit := Some demo_command, ev_eventWithoutCommand := False,
           ev_callbacks := (\<lambda>t. if t = Completed then [demo_callback] else [])\<rparr>
        else UserEvent_ctor (\<lambda>_. demo_queue)),
     w_queues = (\<lambda>_. demo_queue), w_osTime = (\<lambda>_. \<lparr>GPUTimeStamp = 0, CPUTimeinNS = 0\<rparr>), w_ticks = 0,
     w_executed = [], w_submissions = [], w_enableAsyncEventsHandler = False, w_registerList = [], w_list = []\<rparr>"

lemma demo_events:
  "ev_children (w_events demo e) = (if e = 0 then [1] else [])"
  "ev_executionStatus (w_events demo e) = CL_QUEUED"
  "ev_parentCount (w_events demo e) = (if e = 1 then 1 else 0)"
  "ev_cmdQueue (w_events demo e) = (if e = 1 then Some 0 else None)"
  "ev_callbacks (w_events demo e) t = (if e = 1 \<and> t = Completed then [demo_callback] else [])"
  "ev_cmdToSubmit (w_events demo e) = (if e = 1 then Some demo_command else None)"
  "ev_kind (w_events demo e) = (if e = 1 then BaseEvent else UserEvent)"
  "w_executed demo = []" "w_submissions demo = []"
  by (simp_all add: demo_def Event_ctor_def UserEvent_ctor_def Let_def)

lemma demo_links:
  "links_in {0} demo" "children_queued demo" "totalLinks {0} demo = 1" "linksTo {0} c demo = (if c = 1 then 1 else 0)"
  "callbacks_wf demo"
  by (auto simp: links_in_def children_queued_def totalLinks_def linksTo_def demo_events callbacks_wf_def
      demo_callback_def translateToCallbackTarget_def)

lemma demo_unblock: "\<exists>x. unblockEventsBlockedByThis 2 0 st (transitionExecutionStatus 0 st (submitCommand 0 ab demo)) = Inr x"
proof -
  have "small {0} 1 demo" by (simp add: small_def demo_links)
  then have "small {0} 1 (transitionExecutionStatus 0 st (submitCommand 0 ab demo))" by (intro small_steps)
  moreover have "returns_on {0} 1 (unblockEventsBlockedByThis 2)" by (rule unblock_returns) simp_all
  ultimately show ?thesis unfolding returns_on_def returns_def by blast
qed

lemma demo_set: "st \<le> 0 \<Longrightarrow> \<exists>w'. setStatus 2 0 st demo = Inr (True, w')"
  using demo_unblock [of st "st < 0"]
  by (auto simp: setStatus_def setStatus_with_def Event_setStatus_with_def Let_def demo_events
      isStatusCompletedByTermination_def isStatusCompleted_def peekIsBlocked_def peekNumEventsBlockingThis_def)

text \<open>Claim C12. In any run of the event interface, whatever the order of the calls and however the GPU
  progresses, the execution status of an event never increases, and once it is complete or
  negative it never changes again.\<close>

theorem status_monotone_and_final:
  assumes "event_step\<^sup>*\<^sup>* w w'"
  shows "ev_executionStatus (w_events w' x) \<le> ev_executionStatus (w_events w x) \<and>
    (ev_executionStatus (w_events w x) \<le> 0 \<longrightarrow>
      ev_executionStatus (w_events w' x) = ev_executionStatus (w_events w x))"
proof -
  have "status_rel w w'"
    using assms by (induction rule: rtranclp_induct) (auto intro: status.refl status_rel_trans event_step_status)
  then show ?thesis by (simp add: status_rel_def)
qed

theorem status_monotone_and_final_witness:
  "\<exists>w'. setStatus 2 0 (- 5) demo = Inr (True, w') \<and> ev_executionStatus (w_events w' 1) \<le> 3"
proof -
  obtain w' where w': "setStatus 2 0 (- 5) demo = Inr (True, w')" using demo_set [of "- 5"] by auto
  then have "event_step\<^sup>*\<^sup>* demo w'" by (blast intro: set_status)
  from status_monotone_and_final [OF this, of 1] w' show ?thesis by (simp add: demo_events)
qed

definition allCallbacks :: "nat \<Rightarrow> World \<Rightarrow> Callback multiset" where
  "allCallbacks x w = pendingCallbacks (w_events w x) + ranCallbacks x (w_executed w)"

lemma callbacks_rel_all:
  "callbacks_rel a b \<Longrightarrow> callbacks_wf a \<Longrightarrow> allCallbacks x b = allCallbacks x a"
  by (auto simp: callbacks_rel_def allCallbacks_def ranCallbacks_append ac_simps)

lemma setStatus_true:
  assumes "setStatus fuel e st w = Inr (True, w')"
  shows "\<exists>st' w1. w' = executeCallbacks e st' w1 \<and> (st \<le> 0 \<longrightarrow> st' \<le> 0)"
  using assms unfolding setStatus_def setStatus_with_def Event_setStatus_with_def
  by (fastforce simp: Let_def split: if_splits)

text \<open>Claim C14. Callbacks are neither lost nor run twice: when a status change to a completed status
  succeeds, no callback of the event is left, for every event the callbacks pending before are
  those pending after plus those run, and each one that ran had its status reached.\<close>

theorem callbacks_run_once:
  assumes "callbacks_wf w" and "setStatus fuel e st w = Inr (True, w')" and "st \<le> 0"
  shows "pendingCallbacks (w_events w' e) = {#} \<and> callbacks_wf w' \<and>
    (\<forall>x. allCallbacks x w' = allCallbacks x w) \<and>
    (\<exists>new. w_executed w' = w_executed w @ new \<and>
       (\<forall>(x, cb, p) \<in> set new. ev_executionStatus (w_events w' x) \<le> clb_executionStatusTarget cb))"
proof -
  have r: "callbacks_rel w w'" by (rule callbacks.setStatus_related [OF assms(2)])
  have "pendingCallbacks (w_events w' e) = {#}"
    using setStatus_true [OF assms(2)] assms(3) pending_none by blast
  moreover have "callbacks_wf w' \<and> (\<exists>new. w_executed w' = w_executed w @ new \<and>
       (\<forall>(x, cb, p) \<in> set new. ev_executionStatus (w_events w' x) \<le> clb_executionStatusTarget cb))"
    using r assms(1) unfolding callbacks_rel_def by blast
  ultimately show ?thesis using callbacks_rel_all [OF r assms(1)] by blast
qed

theorem callbacks_run_once_witness:
  "\<exists>w'. setStatus 2 0 (- 5) demo = Inr (True, w') \<and> allCallbacks 1 w' = {#demo_callback#}"
proof -
  obtain w' where w': "setStatus 2 0 (- 5) demo = Inr (True, w')" using demo_set [of "- 5"] by auto
  have "allCallbacks 1 demo = {#demo_callback#}"
    by (simp add: allCallbacks_def pendingCallbacks_def ranCallbacks_def callbackTargets_def demo_events)
  then show ?thesis using callbacks_run_once [OF demo_links(5) w'] w' by auto
qed

text \<open>Adding a callback adds exactly that callback to the ones that are pending or have run,
  for this event only, and when the event is complete by then it has already run.\<close>

theorem added_callback_not_lost:
  assumes "callbacks_wf w" and a: "addCallback fuel e fn type data w = Inr w'"
    and t: "translateToCallbackTarget type = Some t"
  shows "callbacks_wf w' \<and>
    (\<forall>x. allCallbacks x w' = allCallbacks x w + (if x = e
       then {#\<lparr>clb_function = fn, clb_executionStatusTarget = type, clb_userData = data\<rparr>#} else {#})) \<and>
    (ev_executionStatus (w_events w' e) \<le> 0 \<longrightarrow> pendingCallbacks (w_events w' e) = {#})"
proof (rule addCallback_cases [OF a t])
  fix w1 w2
  assume w1: "w1 = upd_event e (\<lambda>ev. ev\<lparr>ev_refInternal := ev_refInternal ev + 2, ev_callbacks := (ev_callbacks ev)
        (t := \<lparr>clb_function = fn, clb_executionStatusTarget = type, clb_userData = data\<rparr> # ev_callbacks ev t)\<rparr>) w"
    and u: "updateExecutionStatus fuel e w1 = Inr w2" and c: "callbacks_rel w2 w'"
    and p: "ev_executionStatus (w_events w' e) \<le> 0 \<Longrightarrow> pendingCallbacks (w_events w' e) = {#}"
  have wf: "callbacks_wf w1" using assms(1) t by (auto simp: callbacks_wf_def w1)
  have r: "callbacks_rel w1 w'"
    by (rule callbacks.trans [OF callbacks.updateExecutionStatus_related [OF u] c])
  have "allCallbacks x w' = allCallbacks x w1" for x by (rule callbacks_rel_all [OF r wf])
  moreover have "allCallbacks x w1 = allCallbacks x w + (if x = e
       then {#\<lparr>clb_function = fn, clb_executionStatusTarget = type, clb_userData = data\<rparr>#} else {#})" for x
    by (cases t) (simp_all add: allCallbacks_def w1 pendingCallbacks_def callbackTargets_def)
  moreover have "callbacks_wf w'" using r wf by (simp add: callbacks_rel_def)
  ultimately show ?thesis using p by simp
qed

theorem added_callback_not_lost_witness:
  "\<exists>w'. addCallback 2 0 9 0 4 demo = Inr w' \<and>
     allCallbacks 0 w' = {#\<lparr>clb_function = 9, clb_executionStatusTarget = 0, clb_userData = 4\<rparr>#}"
proof -
  have t: "translateToCallbackTarget 0 = Some Completed" by (simp add: translateToCallbackTarget_def)
  obtain w' where w': "addCallback 2 0 9 0 4 demo = Inr w'"
    by (simp add: addCallback_def t Let_def updateStatusAndCheckCompletion_def updateExecutionStatus_def
        updateExecutionStatus_with_def demo_events)
  have "allCallbacks 0 demo = {#}"
    by (simp add: allCallbacks_def pendingCallbacks_def ranCallbacks_def callbackTargets_def demo_events)
  then show ?thesis using added_callback_not_lost [OF demo_links(5) w' t] w' by auto
qed

text \<open>Claim C13. Commands are submitted at most once and in dependency order: in a store whose parent
  counts are the numbers of child links, a status change submits a command only of an event that
  still had one, at most once per event, and without aborting it only if no parent link is left;
  and the parent counts are exact again afterwards.\<close>

theorem commands_submitted_in_order:
  assumes "finite S" and "links_in S w"
    and "\<forall>c. ev_parentCount (w_events w c) = linksTo S c w" and "\<forall>c. linksTo S c w < 4294967296"
    and s: "setStatus fuel e st w = Inr (b, w')"
  shows "\<exists>new. w_submissions w' = w_submissions w @ new \<and> distinct (map fst new) \<and>
    (\<forall>(x, lvl, abort) \<in> set new. ev_cmdToSubmit (w_events w x) \<noteq> None \<and> ev_cmdToSubmit (w_events w' x) = None \<and>
       (abort \<or> linksTo S x w' = 0)) \<and>
    (\<forall>c. ev_parentCount (w_events w' c) = linksTo S c w')"
proof -
  have "links_rel S w w'"
    using links.setStatus_R [OF unblock_surplus [OF assms(1)]] s unfolding setStatus_def by blast
  then have pc: "\<forall>c. ev_parentCount (w_events w' c) = linksTo S c w'"
    using assms(2,3) by (simp add: links_rel_def surplus_def)
  have nonneg: "0 \<le> linksTo S c w'" for c by (simp add: linksTo_def sum_nonneg)
  have bound: "\<forall>x. ev_parentCount (w_events w x) < 4294967296" using assms(3,4) by simp
  show ?thesis
  proof (rule submit_relD [OF submission.setStatus_related [OF s] bound])
    fix new
    assume n: "w_submissions w' = w_submissions w @ new" "distinct (map fst new)"
      "\<forall>x. ev_cmdToSubmit (w_events w' x) = (if x \<in> fst ` set new then None else ev_cmdToSubmit (w_events w x))"
      "\<forall>(x, lvl, abort) \<in> set new. ev_cmdToSubmit (w_events w x) \<noteq> None \<and> (abort \<or> ev_parentCount (w_events w' x) \<le> 0)"
    have "ev_cmdToSubmit (w_events w x) \<noteq> None \<and> ev_cmdToSubmit (w_events w' x) = None \<and> (abort \<or> linksTo S x w' = 0)"
      if m: "(x, lvl, abort) \<in> set new" for x lvl abort
    proof -
      have "x \<in> fst ` set new" using m by force
      moreover have "ev_cmdToSubmit (w_events w x) \<noteq> None \<and> (abort \<or> ev_parentCount (w_events w' x) \<le> 0)"
        using n(4) m by auto
      ultimately show ?thesis using n(3) pc nonneg [of x] by auto
    qed
    then show ?thesis using n(1,2) pc by blast
  qed
qed

theorem commands_submitted_in_order_witness:
  "\<exists>w'. setStatus 2 0 0 demo = Inr (True, w') \<and> ev_parentCount (w_events w' 1) = linksTo {0} 1 w'"
proof -
  obtain w' where w': "setStatus 2 0 0 demo = Inr (True, w')" using demo_set [of 0] by auto
  show ?thesis using commands_submitted_in_order [OF _ demo_links(1) _ _ w'] w' by (auto simp: demo_links demo_events)
qed

text \<open>Claim C15. A status change always returns: whatever the graph of child links, cyclic or not, one unit
  of fuel more than the number of links is enough, and no null pointer is followed as long as
  every child event has a command queue.\<close>

theorem setStatus_returns:
  assumes "finite S" and "links_in S w" and "children_queued w" and "totalLinks S w < fuel"
  shows "\<exists>b w'. setStatus fuel e st w = Inr (b, w') \<and> totalLinks S w' \<le> totalLinks S w"
proof -
  have "small S (totalLinks S w) w" using assms by (simp add: small_def)
  then obtain b w' where "Event_setStatus_with (unblockEventsBlockedByThis fuel) e
      (if ev_kind (w_events w e) = VirtualEvent \<and> \<not> isStatusCompletedByTermination st then CL_COMPLETE else st) w = Inr (b, w')"
    and "small S (totalLinks S w) w'"
    using Event_setStatus_returns [OF unblock_returns [OF assms(1,4)]] by blast
  then show ?thesis by (auto simp: setStatus_def setStatus_with_def small_def)
qed

theorem setStatus_returns_witness: "\<exists>b w'. setStatus 2 0 1 demo = Inr (b, w') \<and> totalLinks {0} w' \<le> 1"
  using setStatus_returns [of "{0}" demo 2 0 1] by (simp add: demo_links)

lemma setStatus_terminates_event:
  assumes "unblocks_in status_rel unblock" and "st < 0" and "setStatus_with unblock c st w = Inr (b, w')"
  shows "ev_executionStatus (w_events w' c) \<le> 0"
proof (cases "ev_executionStatus (w_events w c) \<le> 0")
  case True
  have "status_rel w w'" by (rule status.setStatus_R [OF assms(1,3)])
  then show ?thesis using True unfolding status_rel_def by (meson order_trans)
next
  case False
  have st: "isStatusCompleted st" "isStatusCompletedByTermination st" "\<not> isStatusCompleted (ev_executionStatus (w_events w c))"
    "st \<noteq> ev_executionStatus (w_events w c)"
    using assms(2) False by (auto simp: isStatusCompleted_def isStatusCompletedByTermination_def)
  define w2 where "w2 = transitionExecutionStatus c st (submitCommand c True w)"
  obtain w3 where w3: "unblock c st w2 = Inr w3" and w': "w' = executeCallbacks c st w3"
    using assms(3) st by (auto simp: setStatus_with_def Event_setStatus_with_def Let_def w2_def)
  have "ev_executionStatus (w_events w2 c) \<le> 0"
    using status.transition_le [of c st "submitCommand c True w"] assms(2) by (simp add: w2_def)
  moreover have "status_rel w2 w3" using assms(1) w3 by (simp add: unblocks_in_def)
  ultimately show ?thesis unfolding w' executeCallbacks_event status_rel_def by (metis order_trans)
qed

lemma unblockChildren_terminates:
  assumes U: "unblocks_in status_rel unblock" and st: "st < 0"
  shows "unblockChildren_with unblock lvl st cs w = Inr w' \<Longrightarrow>
    \<forall>c \<in> set cs. ev_executionStatus (w_events w' c) \<le> 0"
proof (induction cs arbitrary: w)
  case Nil
  then show ?case by simp
next
  case (Cons d cs)
  then obtain w1 where w1: "unblockEventBy_with unblock d lvl st w = Inr w1"
    and r: "unblockChildren_with unblock lvl st cs
         (upd_event d (\<lambda>ev. ev\<lparr>ev_refInternal := ev_refInternal ev - 1\<rparr>) w1) = Inr w'"
    by auto
  obtain w2 b w3 where w3: "setStatus_with unblock d st w2 = Inr (b, w3)"
    and u: "updateExecutionStatus_with unblock d w3 = Inr w1"
    using w1 st by (auto simp: unblockEventBy_with_def Let_def isStatusCompletedByTermination_def)
  have "status_rel w3 w'"
    by (rule status_rel_trans [OF status_rel_trans [OF status.updateExecutionStatus_R [OF U u] status.ref_step]
          status.unblockChildren_R [OF U r]])
  then have "ev_executionStatus (w_events w' d) \<le> 0"
    using setStatus_terminates_event [OF U st w3] unfolding status_rel_def by (metis order_trans)
  then show ?case using Cons.IH [OF r] by simp
qed

text \<open>Claim C16. A negative status terminates the dependents: when an event that was not complete is set
  to a negative status, it has that status, and every event that waits on it is complete, even
  one that other events still block.\<close>

theorem termination_reaches_children:
  assumes st: "st < 0" and p: "0 < ev_executionStatus (w_events w e)"
    and s: "setStatus fuel e st w = Inr (b, w')"
  shows "b \<and> ev_executionStatus (w_events w' e) = st \<and>
    (\<forall>c \<in> set (ev_children (w_events w e)). ev_executionStatus (w_events w' c) \<le> 0)"
proof -
  have t: "isStatusCompleted st" "isStatusCompletedByTermination st" "\<not> isStatusCompleted (ev_executionStatus (w_events w e))"
    "st \<noteq> ev_executionStatus (w_events w e)"
    using st p by (auto simp: isStatusCompleted_def isStatusCompletedByTermination_def)
  define w1 where "w1 = submitCommand e True w"
  define w2 where "w2 = transitionExecutionStatus e st w1"
  obtain w3 where u: "unblockEventsBlockedByThis fuel e st w2 = Inr w3" and w': "w' = executeCallbacks e st w3" and b
    using s t by (auto simp: setStatus_def setStatus_with_def Event_setStatus_with_def Let_def w1_def w2_def)
  have core: "core (w_events w1 e) = core (w_events w e)"
    using submitCommand_submitted [of e True w] by (simp add: submitted_def w1_def)
  have "ev_executionStatus (w_events w2 e) = st"
    using core p st by (simp add: w2_def transitionExecutionStatus_def core_def)
  moreover have "status_rel w2 w3" by (rule status.unblockEventsBlockedByThis_R [OF u])
  ultimately have e: "ev_executionStatus (w_events w3 e) = st" using st by (simp add: status_rel_def)
  obtain n where n: "fuel = Suc n" using u by (cases fuel) simp_all
  have "ev_children (w_events w2 e) = ev_children (w_events w e)"
    using core by (simp add: w2_def transitionExecutionStatus_def core_def)
  then obtain lvl w4 where "unblockChildren_with (unblockEventsBlockedByThis n) lvl st (ev_children (w_events w e)) w4 = Inr w3"
    using u t(2) by (auto simp: n taskLevelToPropagate_def detachChildren_def)
  then have "\<forall>c \<in> set (ev_children (w_events w e)). ev_executionStatus (w_events w3 c) \<le> 0"
    by (rule unblockChildren_terminates [OF status.unblock_in_rel st])
  then show ?thesis using e \<open>b\<close> by (simp add: w' executeCallbacks_event)
qed

theorem termination_reaches_children_witness:
  "\<exists>w'. setStatus 2 0 (- 5) demo = Inr (True, w') \<and> ev_executionStatus (w_events w' 1) \<le> 0"
proof -
  obtain w' where w': "setStatus 2 0 (- 5) demo = Inr (True, w')" using demo_set [of "- 5"] by auto
  show ?thesis using termination_reaches_children [OF _ _ w'] w' by (simp add: demo_events)
qed

section \<open>The compare-and-exchange loop of a status transition\<close>

text \<open>Several threads call \<^verbatim>\<open>transitionExecutionStatus\<close> on one event. A thread has still to read the
  status, is in the loop with the previous status it knows and the new one, or has returned.
  \<^verbatim>\<open>compare_exchange_weak\<close> may fail although the values agree; when it succeeds the loop runs once
  more with the old previous status.\<close>

datatype cas_thread = Entering int | Looping int int | Returned int

inductive cas_step :: "int \<times> cas_thread list \<Rightarrow> int \<times> cas_thread list \<Rightarrow> bool" where
  read: "i < length ts \<Longrightarrow> ts ! i = Entering new \<Longrightarrow> cas_step (s, ts) (s, ts[i := Looping s new])"
| success: "i < length ts \<Longrightarrow> ts ! i = Looping prev new \<Longrightarrow> prev > new \<Longrightarrow> s = prev \<Longrightarrow>
    cas_step (s, ts) (new, ts)"
| failure: "i < length ts \<Longrightarrow> ts ! i = Looping prev new \<Longrightarrow> prev > new \<Longrightarrow>
    cas_step (s, ts) (s, ts[i := Looping s new])"
| leave: "i < length ts \<Longrightarrow> ts ! i = Looping prev new \<Longrightarrow> \<not> prev > new \<Longrightarrow>
    cas_step (s, ts) (s, ts[i := Returned new])"

fun requested :: "cas_thread \<Rightarrow> int" where
  "requested (Entering new) = new"
| "requested (Looping prev new) = new"
| "requested (Returned new) = new"

fun thread_ok :: "int \<Rightarrow> cas_thread \<Rightarrow> bool" where
  "thread_ok s (Entering new) = True"
| "thread_ok s (Looping prev new) = (s \<le> prev)"
| "thread_ok s (Returned new) = (s \<le> new)"

definition cas_inv :: "int \<Rightarrow> int list \<Rightarrow> int \<times> cas_thread list \<Rightarrow> bool" where
  "cas_inv s0 ns = (\<lambda>(s, ts). s \<le> s0 \<and> s \<in> insert s0 (set ns) \<and> map requested ts = ns \<and> (\<forall>t \<in> set ts. thread_ok s t))"

lemma thread_ok_mono: "thread_ok s t \<Longrightarrow> s' \<le> s \<Longrightarrow> thread_ok s' t"
  by (cases t) simp_all

lemma map_requested_update:
  "i < length ts \<Longrightarrow> requested t = requested (ts ! i) \<Longrightarrow> map requested (ts[i := t]) = map requested ts"
  by (metis map_update list_update_id nth_map)

lemma cas_inv_update:
  assumes "cas_inv s0 ns (s, ts)" "i < length ts" "requested t = requested (ts ! i)" "thread_ok s t"
  shows "cas_inv s0 ns (s, ts[i := t])"
  using assms map_requested_update [OF assms(2,3)] set_update_subset_insert [of ts i t]
  by (auto simp: cas_inv_def)

lemma cas_inv_step:
  assumes "cas_step c c'" and "cas_inv s0 ns c"
  shows "cas_inv s0 ns c' \<and> fst c' \<le> fst c"
  using assms
proof (cases rule: cas_step.cases)
  case (success i ts prev new s)
  have inv: "s \<le> s0" "map requested ts = ns" "\<forall>t \<in> set ts. thread_ok s t"
    using assms(2) by (auto simp: success cas_inv_def)
  have "new \<in> set ns" using inv(2) success by (metis list.set_map nth_mem image_eqI requested.simps(2))
  moreover have "\<forall>t \<in> set ts. thread_ok new t" using inv(3) success thread_ok_mono less_imp_le by blast
  ultimately show ?thesis using success inv by (auto simp: cas_inv_def)
next
  case (leave i ts prev new s)
  then have "\<forall>t \<in> set ts. thread_ok s t" using assms(2) by (simp add: cas_inv_def)
  then have "thread_ok s (ts ! i)" using leave nth_mem by blast
  then show ?thesis using cas_inv_update [of s0 ns s ts i "Returned new"] leave assms(2) by simp
qed (use assms(2) in \<open>auto intro!: cas_inv_update\<close>)

text \<open>Threads that transition the status of one event concurrently, in any interleaving and
  with spurious failures of the exchange, never raise it; it always is the initial status or a
  requested one, and once all have returned it is the least of them.\<close>

theorem concurrent_transitions:
  assumes "cas_step\<^sup>*\<^sup>* (s0, map Entering ns) (s, ts)"
  shows "s \<le> s0 \<and> s \<in> insert s0 (set ns) \<and>
    ((\<forall>t \<in> set ts. \<exists>new. t = Returned new) \<longrightarrow> s = Min (insert s0 (set ns)))"
proof -
  have start: "cas_inv s0 ns (s0, map Entering ns)" by (auto simp: cas_inv_def o_def)
  have "cas_inv s0 ns (s, ts)"
    using assms
  proof (induction "(s, ts)" arbitrary: s ts rule: rtranclp_induct)
    case base
    then show ?case using start by simp
  next
    case (step y)
    then show ?case using cas_inv_step by (metis surj_pair)
  qed
  then have inv: "s \<le> s0" "s \<in> insert s0 (set ns)" "map requested ts = ns" "\<forall>t \<in> set ts. thread_ok s t"
    by (auto simp: cas_inv_def)
  have "s \<le> n" if ret: "\<forall>t \<in> set ts. \<exists>new. t = Returned new" and n: "n \<in> set ns" for n
  proof -
    obtain t where t: "t \<in> set ts" "n = requested t" using n inv(3) by auto
    moreover obtain new where "t = Returned new" using ret t(1) by blast
    ultimately show ?thesis using inv(4) by auto
  qed
  then have "(\<forall>t \<in> set ts. \<exists>new. t = Returned new) \<longrightarrow> s = Min (insert s0 (set ns))"
    using inv(1,2) by (intro impI Min_eqI [symmetric]) auto
  then show ?thesis using inv by blast
qed

lemma two_transitions: "cas_step\<^sup>*\<^sup>* (3, map Entering [2, 0]) (0, [Returned 2, Returned 0])"
proof -
  have "cas_step (3, [Entering 2, Entering 0]) (3, [Looping 3 2, Entering 0])"
    using cas_step.read [of 0 "[Entering 2, Entering 0]"] by simp
  moreover have "cas_step (3, [Looping 3 2, Entering 0]) (3, [Looping 3 2, Looping 3 0])"
    using cas_step.read [of 1 "[Looping 3 2, Entering 0]"] by simp
  moreover have "cas_step (3, [Looping 3 2, Looping 3 0]) (0, [Looping 3 2, Looping 3 0])"
    using cas_step.success [of 1 "[Looping 3 2, Looping 3 0]"] by simp
  moreover have "cas_step (0, [Looping 3 2, Looping 3 0]) (0, [Looping 0 2, Looping 3 0])"
    using cas_step.failure [of 0 "[Looping 3 2, Looping 3 0]"] by simp
  moreover have "cas_step (0, [Looping 0 2, Looping 3 0]) (0, [Looping 0 2, Looping 0 0])"
    using cas_step.failure [of 1 "[Looping 0 2, Looping 3 0]"] by simp
  moreover have "cas_step (0, [Looping 0 2, Looping 0 0]) (0, [Returned 2, Looping 0 0])"
    using cas_step.leave [of 0 "[Looping 0 2, Looping 0 0]"] by simp
  moreover have "cas_step (0, [Returned 2, Looping 0 0]) (0, [Returned 2, Returned 0])"
    using cas_step.leave [of 1 "[Returned 2, Looping 0 0]"] by simp
  ultimately show ?thesis by (auto intro: converse_rtranclp_into_rtranclp)
qed

theorem concurrent_transitions_witness:
  "cas_step\<^sup>*\<^sup>* (3, map Entering [2, 0]) (0, [Returned 2, Returned 0]) \<and> 0 = Min (insert (3 :: int) (set [2, 0]))"
  using two_transitions concurrent_transitions [OF two_transitions] by simp

section \<open>Time stamps\<close>

text \<open>\<^verbatim>\<open>getDelta\<close> is the distance between two readings of the 32-bit GPU timer when the timer has
  not wrapped, but one less than the distance when it has.\<close>

theorem getDelta_off_by_one:
  "unat (getDelta s e) =
     (if unat s mod 2 ^ 32 \<le> unat e mod 2 ^ 32 then unat e mod 2 ^ 32 - unat s mod 2 ^ 32
      else (2 ^ 32 - unat s mod 2 ^ 32 + unat e mod 2 ^ 32) - 1)"
proof -
  have m: "push_bit 32 1 - 1 = (mask 32 :: u64)" by (simp add: mask_eq_exp_minus_1)
  define a b where "a = s AND mask 32" and "b = e AND mask 32"
  have u: "unat a = unat s mod 2 ^ 32" "unat b = unat e mod 2 ^ 32" by (simp_all only: a_def b_def unat_and_mask)
  have top: "unat (mask 32 :: u64) = 2 ^ 32 - 1" by (simp add: mask_eq_exp_minus_1)
  have lt: "unat a < 2 ^ 32" "unat b < 2 ^ 32" by (simp_all add: u)
  have d: "getDelta s e = (if a > b then mask 32 - a + b else b - a)"
    by (simp only: getDelta_def Let_def m a_def b_def)
  show ?thesis
    unfolding d u [symmetric]
  proof (cases "a > b")
    case True
    then have "unat (mask 32 - a) = 2 ^ 32 - 1 - unat a" using lt top by (subst unat_sub_le) simp_all
    moreover from this have "unat (mask 32 - a + b) = 2 ^ 32 - 1 - unat a + unat b"
      using lt by (subst unat_add_nowrap) simp_all
    ultimately show "unat (if a > b then mask 32 - a + b else b - a) =
        (if unat a \<le> unat b then unat b - unat a else 2 ^ 32 - unat a + unat b - 1)"
      using True lt by (simp add: word_less_nat_alt)
  next
    case False
    then have "unat (b - a) = unat b - unat a" by (intro unat_sub_le) (simp add: word_less_nat_alt)
    then show "unat (if a > b then mask 32 - a + b else b - a) =
        (if unat a \<le> unat b then unat b - unat a else 2 ^ 32 - unat a + unat b - 1)"
      using False by (simp add: word_less_nat_alt)
  qed
qed

end
