(* ===== verification/Machine_Refinement.thy ===== *)
theory Machine_Refinement
  imports Runtime_Prelude
begin

text \<open>
  What it is for the operations of an object, which may fault, to implement an abstract machine:
  from a state that satisfies the invariant each allowed operation returns, keeps the invariant
  and commutes with the abstraction. Whole runs follow. For objects whose operations are a step relation, the
  second locale carries an invariant of single steps to every reachable state.
\<close>

fun run_ops :: "('op \<Rightarrow> 's \<Rightarrow> 's rt_result) \<Rightarrow> 'op list \<Rightarrow> 's \<Rightarrow> 's rt_result" where
  "run_ops step [] s = Inr s"
| "run_ops step (op # ops) s = rt_bind (step op s) (run_ops step ops)"

locale machine_refinement =
  fixes inv :: "'s \<Rightarrow> bool" and abs :: "'s \<Rightarrow> 'a" and allowed :: "'op \<Rightarrow> bool"
    and step :: "'op \<Rightarrow> 's \<Rightarrow> 's rt_result" and spec :: "'op \<Rightarrow> 'a \<Rightarrow> 'a"
  assumes step_refines:
    "inv s \<Longrightarrow> allowed op \<Longrightarrow> \<exists>s'. step op s = Inr s' \<and> inv s' \<and> abs s' = spec op (abs s)"
begin

lemma run_refines:
  "inv s \<Longrightarrow> \<forall>op \<in> set ops. allowed op \<Longrightarrow>
   \<exists>s'. run_ops step ops s = Inr s' \<and> inv s' \<and> abs s' = fold spec ops (abs s)"
proof (induction ops arbitrary: s)
  case (Cons op ops)
  obtain s1 where s1: "step op s = Inr s1" "inv s1" "abs s1 = spec op (abs s)"
    using step_refines [OF Cons.prems(1)] Cons.prems(2) by auto
  show ?case using Cons.IH [OF s1(2)] Cons.prems(2) s1 by auto
qed simp

end

locale step_invariant =
  fixes step :: "'s \<Rightarrow> 's \<Rightarrow> bool" and inv :: "'s \<Rightarrow> bool"
  assumes keeps: "step s s' \<Longrightarrow> inv s \<Longrightarrow> inv s'"
begin

lemma run_inv: "step\<^sup>*\<^sup>* s s' \<Longrightarrow> inv s \<Longrightarrow> inv s'"
  by (induction rule: rtranclp_induct) (auto intro: keeps)

end

end
