(* ===== verification/Stack_Vec.thy ===== *)
theory Stack_Vec
  imports Machine_Refinement
begin

text \<open>
  The small vector of \<^verbatim>\<open>utilities/stackvec.h\<close>: up to \<^verbatim>\<open>onStackCaps\<close> objects live in the object itself,
  more in a \<^verbatim>\<open>std::vector\<close>. A cell of the inline memory holds a live object or none; constructing
  outside the memory, reading or destroying a cell without an object are faults. The abstract
  specification is a HOL list; a locale states what it is for an implementation to refine an
  abstract machine, and gives the refinement of whole runs. Capacity is a matter of
  \<^verbatim>\<open>std::vector\<close> and is left out.
\<close>

record 'a StackVec =
  sv_onStackCaps :: nat
  sv_dynamicMem :: "'a list option"
  sv_onStackMem :: "'a option list"
  sv_onStackSize :: nat

definition StackVec_ctor :: "nat \<Rightarrow> 'a StackVec" where
  "StackVec_ctor caps = \<lparr>sv_onStackCaps = caps, sv_dynamicMem = None,
     sv_onStackMem = replicate caps None, sv_onStackSize = 0\<rparr>"

text \<open>Placement new, and the loops that destroy or read consecutive objects.\<close>

definition construct :: "'a \<Rightarrow> 'a StackVec \<Rightarrow> 'a StackVec rt_result" where
  "construct v s =
     (if sv_onStackSize s < length (sv_onStackMem s)
      then Inr (s\<lparr>sv_onStackMem := (sv_onStackMem s)[sv_onStackSize s := Some v],
                  sv_onStackSize := sv_onStackSize s + 1\<rparr>)
      else Inl OutOfBounds)"

fun destroyLoop :: "nat \<Rightarrow> nat \<Rightarrow> 'a option list \<Rightarrow> 'a option list rt_result" where
  "destroyLoop it 0 mem = Inr mem"
| "destroyLoop it (Suc n) mem =
     (if length mem \<le> it then Inl OutOfBounds
      else if mem ! it = None then Inl UseAfterFree
      else destroyLoop (it + 1) n (mem[it := None]))"

fun readLoop :: "nat \<Rightarrow> nat \<Rightarrow> 'a option list \<Rightarrow> 'a list rt_result" where
  "readLoop it 0 mem = Inr []"
| "readLoop it (Suc n) mem =
     (if length mem \<le> it then Inl OutOfBounds
      else case mem ! it of
             None \<Rightarrow> Inl UseAfterFree
           | Some v \<Rightarrow> rt_bind (readLoop (it + 1) n mem) (\<lambda>vs. Inr (v # vs)))"

definition clearStackObjects_range :: "nat \<Rightarrow> nat \<Rightarrow> 'a StackVec \<Rightarrow> 'a StackVec rt_result" where
  "clearStackObjects_range offset cnt s =
     unrecoverable_if (offset + cnt > sv_onStackSize s)
       (rt_bind (destroyLoop offset cnt (sv_onStackMem s)) (\<lambda>mem. Inr (s\<lparr>sv_onStackMem := mem\<rparr>)))"

definition clearStackObjects :: "'a StackVec \<Rightarrow> 'a StackVec rt_result" where
  "clearStackObjects s =
     rt_bind (clearStackObjects_range 0 (sv_onStackSize s) s) (\<lambda>s. Inr (s\<lparr>sv_onStackSize := 0\<rparr>))"

definition ensureDynamicMem :: "'a StackVec \<Rightarrow> 'a StackVec rt_result" where
  "ensureDynamicMem s =
     (case sv_dynamicMem s of
        Some _ \<Rightarrow> Inr s
      | None \<Rightarrow>
          if sv_onStackSize s > 0
          then rt_bind (readLoop 0 (sv_onStackSize s) (sv_onStackMem s)) (\<lambda>vs.
                 clearStackObjects (s\<lparr>sv_dynamicMem := Some vs\<rparr>))
          else Inr (s\<lparr>sv_dynamicMem := Some []\<rparr>))"

definition sv_size :: "'a StackVec \<Rightarrow> nat" where
  "sv_size s = (case sv_dynamicMem s of Some v \<Rightarrow> length v | None \<Rightarrow> sv_onStackSize s)"

text \<open>\<^verbatim>\<open>begin()\<close> to \<^verbatim>\<open>end()\<close>: what an iteration over the vector reads.\<close>

definition sv_iterate :: "'a StackVec \<Rightarrow> 'a list rt_result" where
  "sv_iterate s = (case sv_dynamicMem s of Some v \<Rightarrow> Inr v
                   | None \<Rightarrow> readLoop 0 (sv_onStackSize s) (sv_onStackMem s))"

definition sv_index :: "nat \<Rightarrow> 'a StackVec \<Rightarrow> 'a rt_result" where
  "sv_index idx s =
     (case sv_dynamicMem s of
        Some v \<Rightarrow> if idx < length v then Inr (v ! idx) else Inl OutOfBounds
      | None \<Rightarrow> if idx < length (sv_onStackMem s)
                then case sv_onStackMem s ! idx of Some v \<Rightarrow> Inr v | None \<Rightarrow> Inl UseAfterFree
                else Inl OutOfBounds)"

definition push_back :: "'a \<Rightarrow> 'a StackVec \<Rightarrow> 'a StackVec rt_result" where
  "push_back v s =
     rt_bind (if sv_onStackSize s = sv_onStackCaps s then ensureDynamicMem s else Inr s) (\<lambda>s.
       case sv_dynamicMem s of
         Some vec \<Rightarrow> Inr (s\<lparr>sv_dynamicMem := Some (vec @ [v])\<rparr>)
       | None \<Rightarrow> construct v s)"

fun push_all :: "'a list \<Rightarrow> 'a StackVec \<Rightarrow> 'a StackVec rt_result" where
  "push_all [] s = Inr s"
| "push_all (v # vs) s = rt_bind (push_back v s) (push_all vs)"

definition sv_clear :: "'a StackVec \<Rightarrow> 'a StackVec rt_result" where
  "sv_clear s = (case sv_dynamicMem s of Some _ \<Rightarrow> Inr (s\<lparr>sv_dynamicMem := Some []\<rparr>) | None \<Rightarrow> clearStackObjects s)"

definition reserve :: "nat \<Rightarrow> 'a StackVec \<Rightarrow> 'a StackVec rt_result" where
  "reserve newCapacity s = (if newCapacity > sv_onStackCaps s then ensureDynamicMem s else Inr s)"

fun constructN :: "nat \<Rightarrow> 'a \<Rightarrow> 'a StackVec \<Rightarrow> 'a StackVec rt_result" where
  "constructN 0 v s = Inr s"
| "constructN (Suc n) v s = rt_bind (construct v s) (constructN n v)"

definition vector_resize :: "nat \<Rightarrow> 'a \<Rightarrow> 'a list \<Rightarrow> 'a list" where
  "vector_resize n v xs = take n xs @ replicate (n - length xs) v"

definition resizeImpl :: "nat \<Rightarrow> 'a \<Rightarrow> 'a StackVec \<Rightarrow> 'a StackVec rt_result" where
  "resizeImpl newSize value s =
     rt_bind (if newSize > sv_onStackCaps s then ensureDynamicMem s else Inr s) (\<lambda>s.
       case sv_dynamicMem s of
         Some vec \<Rightarrow> Inr (s\<lparr>sv_dynamicMem := Some (vector_resize newSize value vec)\<rparr>)
       | None \<Rightarrow>
           if newSize \<le> sv_onStackSize s
           then rt_bind (clearStackObjects_range newSize (sv_onStackSize s - newSize) s)
                  (\<lambda>s. Inr (s\<lparr>sv_onStackSize := newSize\<rparr>))
           else constructN (newSize - sv_onStackSize s) value s)"

section \<open>Construction and assignment\<close>

definition StackVec_ctor_range :: "nat \<Rightarrow> 'a list \<Rightarrow> 'a StackVec rt_result" where
  "StackVec_ctor_range caps xs =
     (let s = StackVec_ctor caps; cnt = length xs in
      if cnt > caps then Inr (s\<lparr>sv_dynamicMem := Some xs\<rparr>)
      else rt_bind (push_all xs s) (\<lambda>s. Inr (s\<lparr>sv_onStackSize := cnt\<rparr>)))"

definition StackVec_ctor_copy :: "nat \<Rightarrow> 'a StackVec \<Rightarrow> 'a StackVec rt_result" where
  "StackVec_ctor_copy caps rhs =
     rt_bind (sv_iterate rhs) (\<lambda>xs.
       if caps < sv_size rhs then Inr ((StackVec_ctor caps)\<lparr>sv_dynamicMem := Some xs\<rparr>)
       else push_all xs (StackVec_ctor caps))"

definition StackVec_ctor_size :: "nat \<Rightarrow> nat \<Rightarrow> 'a \<Rightarrow> 'a StackVec rt_result" where
  "StackVec_ctor_size caps initialSize dflt = resizeImpl initialSize dflt (StackVec_ctor caps)"

definition StackVec_ctor_init :: "nat \<Rightarrow> 'a list \<Rightarrow> 'a StackVec rt_result" where
  "StackVec_ctor_init caps init = rt_bind (reserve (length init) (StackVec_ctor caps)) (push_all init)"

definition assign_copy :: "'a StackVec \<Rightarrow> 'a StackVec \<Rightarrow> 'a StackVec rt_result" where
  "assign_copy rhs s =
     rt_bind (sv_clear s) (\<lambda>s.
     rt_bind (sv_iterate rhs) (\<lambda>xs.
       case sv_dynamicMem s of
         Some vec \<Rightarrow> Inr (s\<lparr>sv_dynamicMem := Some (vec @ xs)\<rparr>)
       | None \<Rightarrow> if sv_onStackCaps s < sv_size rhs then Inr (s\<lparr>sv_dynamicMem := Some xs\<rparr>)
                 else push_all xs s))"

text \<open>The same code when the two operands are one object: the right hand side is read after it has
  been cleared.\<close>

definition assign_copy_self :: "'a StackVec \<Rightarrow> 'a StackVec rt_result" where
  "assign_copy_self s = rt_bind (sv_clear s) (\<lambda>s. assign_copy s s)"

definition StackVec_ctor_move :: "nat \<Rightarrow> 'a StackVec \<Rightarrow> ('a StackVec \<times> 'a StackVec) rt_result" where
  "StackVec_ctor_move caps rhs =
     (case sv_dynamicMem rhs of
        Some v \<Rightarrow> Inr ((StackVec_ctor caps)\<lparr>sv_dynamicMem := Some v\<rparr>, rhs\<lparr>sv_dynamicMem := None\<rparr>)
      | None \<Rightarrow> rt_bind (sv_iterate rhs) (\<lambda>xs.
                rt_bind (push_all xs (StackVec_ctor caps)) (\<lambda>s. Inr (s, rhs))))"

definition assign_move :: "'a StackVec \<Rightarrow> 'a StackVec \<Rightarrow> ('a StackVec \<times> 'a StackVec) rt_result" where
  "assign_move rhs s =
     rt_bind (sv_clear s) (\<lambda>s.
       case sv_dynamicMem rhs of
         Some v \<Rightarrow> Inr (s\<lparr>sv_dynamicMem := Some v\<rparr>, rhs\<lparr>sv_dynamicMem := sv_dynamicMem s\<rparr>)
       | None \<Rightarrow> rt_bind (sv_iterate rhs) (\<lambda>xs.
           case sv_dynamicMem s of
             Some vec \<Rightarrow> Inr (s\<lparr>sv_dynamicMem := Some (vec @ xs)\<rparr>, rhs)
           | None \<Rightarrow> rt_bind (push_all xs s) (\<lambda>s. Inr (s, rhs))))"

definition StackVec_dtor :: "'a StackVec \<Rightarrow> 'a StackVec rt_result" where
  "StackVec_dtor s = (case sv_dynamicMem s of Some _ \<Rightarrow> Inr (s\<lparr>sv_dynamicMem := None\<rparr>) | None \<Rightarrow> sv_clear s)"

fun equalLoop :: "'a list \<Rightarrow> 'a list \<Rightarrow> bool" where
  "equalLoop [] ys = True"
| "equalLoop (x # xs) [] = False"
| "equalLoop (x # xs) (y # ys) = (if x \<noteq> y then False else equalLoop xs ys)"

definition sv_equal :: "'a StackVec \<Rightarrow> 'a StackVec \<Rightarrow> bool rt_result" where
  "sv_equal lhs rhs =
     (if sv_size lhs \<noteq> sv_size rhs then Inr False
      else rt_bind (sv_iterate lhs) (\<lambda>xs. rt_bind (sv_iterate rhs) (\<lambda>ys. Inr (equalLoop xs ys))))"

definition elements :: "'a StackVec \<Rightarrow> 'a list" where
  "elements s = (case sv_dynamicMem s of Some v \<Rightarrow> v | None \<Rightarrow> map the (take (sv_onStackSize s) (sv_onStackMem s)))"

text \<open>The live objects of the inline memory are exactly its first \<^verbatim>\<open>onStackSize\<close> cells, and there are
  none once the vector is dynamic.\<close>

definition sv_inv :: "nat \<Rightarrow> 'a StackVec \<Rightarrow> bool" where
  "sv_inv caps s \<longleftrightarrow> sv_onStackCaps s = caps \<and> length (sv_onStackMem s) = caps \<and> sv_onStackSize s \<le> caps \<and>
     (\<forall>i < caps. (sv_onStackMem s ! i \<noteq> None) = (i < sv_onStackSize s)) \<and>
     (sv_dynamicMem s \<noteq> None \<longrightarrow> sv_onStackSize s = 0)"

datatype 'a vec_op = PushBack 'a | Clear | Reserve nat | Resize nat 'a | Assign "'a StackVec"

fun vec_step :: "'a vec_op \<Rightarrow> 'a StackVec \<Rightarrow> 'a StackVec rt_result" where
  "vec_step (PushBack v) s = push_back v s"
| "vec_step Clear s = sv_clear s"
| "vec_step (Reserve n) s = reserve n s"
| "vec_step (Resize n v) s = resizeImpl n v s"
| "vec_step (Assign rhs) s = assign_copy rhs s"

fun vec_spec :: "'a vec_op \<Rightarrow> 'a list \<Rightarrow> 'a list" where
  "vec_spec (PushBack v) xs = xs @ [v]"
| "vec_spec Clear xs = []"
| "vec_spec (Reserve n) xs = xs"
| "vec_spec (Resize n v) xs = take n xs @ replicate (n - length xs) v"
| "vec_spec (Assign rhs) xs = elements rhs"

fun vec_op_ok :: "nat \<Rightarrow> 'a vec_op \<Rightarrow> bool" where
  "vec_op_ok caps (Assign rhs) = sv_inv caps rhs"
| "vec_op_ok caps _ = True"

section \<open>The two representations\<close>

definition inline :: "nat \<Rightarrow> 'a list \<Rightarrow> 'a StackVec" where
  "inline caps vs = \<lparr>sv_onStackCaps = caps, sv_dynamicMem = None,
     sv_onStackMem = map Some vs @ replicate (caps - length vs) None, sv_onStackSize = length vs\<rparr>"

definition dynamic :: "nat \<Rightarrow> 'a list \<Rightarrow> 'a StackVec" where
  "dynamic caps vs = \<lparr>sv_onStackCaps = caps, sv_dynamicMem = Some vs,
     sv_onStackMem = replicate caps None, sv_onStackSize = 0\<rparr>"

lemma sv_inv_cases:
  assumes "sv_inv caps s"
  obtains vs where "s = inline caps vs" "length vs \<le> caps" | vs where "s = dynamic caps vs"
proof (cases "sv_dynamicMem s")
  case None
  let ?vs = "map the (take (sv_onStackSize s) (sv_onStackMem s))"
  have "sv_onStackMem s = map Some ?vs @ replicate (caps - length ?vs) None"
    using assms by (intro nth_equalityI) (auto simp: sv_inv_def nth_append)
  then have "s = inline caps ?vs" using assms None by (cases s) (auto simp: inline_def sv_inv_def)
  then show thesis using that(1) assms by (simp add: sv_inv_def)
next
  case (Some v)
  have "sv_onStackMem s = replicate caps None"
    using assms Some by (intro nth_equalityI) (auto simp: sv_inv_def)
  then have "s = dynamic caps v" using assms Some by (cases s) (auto simp: dynamic_def sv_inv_def)
  then show thesis by (rule that(2))
qed

lemma sv_inv_forms [simp]:
  "length vs \<le> caps \<Longrightarrow> sv_inv caps (inline caps vs)" "sv_inv caps (dynamic caps vs)"
  by (auto simp: sv_inv_def inline_def dynamic_def nth_append)

lemma elements_forms [simp]:
  "elements (inline caps vs) = vs" "elements (dynamic caps vs) = vs"
  by (simp_all add: elements_def inline_def dynamic_def o_def)

lemma readLoop_some:
  "readLoop (length as) (length vs) (as @ map Some vs @ bs) = Inr vs"
proof (induction vs arbitrary: as)
  case (Cons v vs)
  from Cons [of "as @ [Some v]"] show ?case by (simp add: nth_append)
qed simp

lemma destroyLoop_some:
  "destroyLoop (length as) (length vs) (as @ map Some vs @ bs) = Inr (as @ replicate (length vs) None @ bs)"
proof (induction vs arbitrary: as)
  case (Cons v vs)
  have "(as @ Some v # map Some vs @ bs)[length as := None] = (as @ [None]) @ map Some vs @ bs" by simp
  then show ?case using Cons [of "as @ [None]"] by (simp add: nth_append)
qed simp

lemma sv_iterate_forms [simp]:
  "length vs \<le> caps \<Longrightarrow> sv_iterate (inline caps vs) = Inr vs" "sv_iterate (dynamic caps vs) = Inr vs"
  using readLoop_some [of "[]" vs] by (simp_all add: sv_iterate_def inline_def dynamic_def)

lemma clear_range_inline:
  assumes "length vs \<le> caps" "n \<le> length vs"
  shows "clearStackObjects_range n (length vs - n) (inline caps vs) =
    Inr ((inline caps (take n vs))\<lparr>sv_onStackSize := length vs\<rparr>)"
proof -
  have m: "map Some vs @ replicate (caps - length vs) None =
      map Some (take n vs) @ map Some (drop n vs) @ replicate (caps - length vs) None"
    by (metis append_assoc append_take_drop_id map_append)
  have "replicate (length vs - n) None @ replicate (caps - length vs) None = replicate (caps - n) (None :: 'a option)"
    using assms by (simp add: replicate_add [symmetric])
  then have "destroyLoop n (length vs - n) (map Some vs @ replicate (caps - length vs) None) =
      Inr (map Some (take n vs) @ replicate (caps - n) None)"
    unfolding m using destroyLoop_some [of "map Some (take n vs)" "drop n vs"] assms(2) by (simp add: min_absorb2)
  then show ?thesis using assms by (simp add: clearStackObjects_range_def inline_def min_def)
qed

lemma clear_inline: "length vs \<le> caps \<Longrightarrow> clearStackObjects (inline caps vs) = Inr (inline caps [])"
  using clear_range_inline [of vs caps 0] by (simp add: clearStackObjects_def inline_def)

lemma sv_clear_forms [simp]:
  "length vs \<le> caps \<Longrightarrow> sv_clear (inline caps vs) = Inr (inline caps [])"
  "sv_clear (dynamic caps vs) = Inr (dynamic caps [])"
  using clear_inline [of vs caps] by (simp_all add: sv_clear_def inline_def dynamic_def)

lemma ensureDynamicMem_forms [simp]:
  "length vs \<le> caps \<Longrightarrow> ensureDynamicMem (inline caps vs) = Inr (dynamic caps vs)"
  "ensureDynamicMem (dynamic caps vs) = Inr (dynamic caps vs)"
proof -
  assume l: "length vs \<le> caps"
  show "ensureDynamicMem (inline caps vs) = Inr (dynamic caps vs)"
  proof (cases "vs = []")
    case True
    then show ?thesis by (simp add: ensureDynamicMem_def inline_def dynamic_def)
  next
    case False
    have "clearStackObjects ((inline caps vs)\<lparr>sv_dynamicMem := Some vs\<rparr>) = Inr (dynamic caps vs)"
      using clear_range_inline [OF l, of 0]
      by (simp add: clearStackObjects_def clearStackObjects_range_def inline_def dynamic_def)
    then show ?thesis
      using False readLoop_some [of "[]" vs] by (simp add: ensureDynamicMem_def inline_def)
  qed
qed (simp add: ensureDynamicMem_def dynamic_def)

lemma construct_inline:
  "length vs < caps \<Longrightarrow> construct v (inline caps vs) = Inr (inline caps (vs @ [v]))"
proof -
  assume l: "length vs < caps"
  then have "caps - length vs = Suc (caps - Suc (length vs))" by simp
  then show ?thesis using l by (simp add: construct_def inline_def list_update_append)
qed

lemma push_back_forms [simp]:
  "length vs \<le> caps \<Longrightarrow> push_back v (inline caps vs) =
     Inr (if length vs = caps then dynamic caps (vs @ [v]) else inline caps (vs @ [v]))"
  "push_back v (dynamic caps vs) = Inr (dynamic caps (vs @ [v]))"
proof -
  have d: "sv_dynamicMem (inline caps vs) = None" "sv_onStackCaps (inline caps vs) = caps" "sv_onStackSize (inline caps vs) = length vs"
    by (simp_all add: inline_def)
  have e: "(dynamic caps vs)\<lparr>sv_dynamicMem := Some xs\<rparr> = dynamic caps xs" "sv_dynamicMem (dynamic caps vs) = Some vs" for xs
    by (simp_all add: dynamic_def)
  show "length vs \<le> caps \<Longrightarrow> push_back v (inline caps vs) =
     Inr (if length vs = caps then dynamic caps (vs @ [v]) else inline caps (vs @ [v]))"
    by (auto simp: push_back_def d e construct_inline)
  show "push_back v (dynamic caps vs) = Inr (dynamic caps (vs @ [v]))"
    by (simp add: push_back_def e)
qed

lemma push_back_refines:
  "sv_inv caps s \<Longrightarrow> \<exists>s'. push_back v s = Inr s' \<and> sv_inv caps s' \<and> elements s' = elements s @ [v]"
  by (erule sv_inv_cases) auto

lemma push_all_refines:
  "sv_inv caps s \<Longrightarrow> \<exists>s'. push_all vs s = Inr s' \<and> sv_inv caps s' \<and> elements s' = elements s @ vs"
proof (induction vs arbitrary: s)
  case (Cons v vs)
  obtain s1 where s1: "push_back v s = Inr s1" "sv_inv caps s1" "elements s1 = elements s @ [v]"
    using push_back_refines [OF Cons.prems] by blast
  show ?case using Cons.IH [OF s1(2)] s1 by auto
qed simp

lemma constructN_inline:
  "length vs + n \<le> caps \<Longrightarrow> constructN n v (inline caps vs) = Inr (inline caps (vs @ replicate n v))"
  by (induction n arbitrary: vs) (auto simp: construct_inline)

lemma resizeImpl_refines:
  assumes "sv_inv caps s"
  shows "\<exists>s'. resizeImpl n v s = Inr s' \<and> sv_inv caps s' \<and> elements s' = take n (elements s) @ replicate (n - length (elements s)) v"
  using assms
proof (cases rule: sv_inv_cases)
  case (1 vs)
  have f: "sv_dynamicMem (inline caps vs) = None" "sv_onStackCaps (inline caps vs) = caps" "sv_onStackSize (inline caps vs) = length vs"
    by (simp_all add: inline_def)
  consider "n > caps" | "n \<le> caps" "n \<le> length vs" | "n \<le> caps" "n > length vs" by linarith
  then show ?thesis
  proof cases
    case 1
    have "resizeImpl n v s = Inr (dynamic caps (vector_resize n v vs))"
      using \<open>s = inline caps vs\<close> \<open>length vs \<le> caps\<close> 1 f
      by (simp add: resizeImpl_def) (simp add: dynamic_def)
    then show ?thesis using \<open>s = inline caps vs\<close> by (simp add: vector_resize_def)
  next
    case 2
    have "resizeImpl n v s = Inr (inline caps (take n vs))"
      using \<open>s = inline caps vs\<close> \<open>length vs \<le> caps\<close> 2 f clear_range_inline [of vs caps n]
      by (simp add: resizeImpl_def) (simp add: inline_def min_def)
    then show ?thesis using \<open>s = inline caps vs\<close> 2 by simp
  next
    case 3
    have "resizeImpl n v s = Inr (inline caps (vs @ replicate (n - length vs) v))"
      using \<open>s = inline caps vs\<close> 3 f constructN_inline [of vs "n - length vs" caps v] by (simp add: resizeImpl_def)
    then show ?thesis using \<open>s = inline caps vs\<close> 3 by simp
  qed
next
  case (2 vs)
  have "resizeImpl n v s = Inr (dynamic caps (vector_resize n v vs))"
    using 2 by (simp add: resizeImpl_def) (simp add: dynamic_def)
  then show ?thesis using 2 by (simp add: vector_resize_def)
qed

lemma reserve_refines:
  "sv_inv caps s \<Longrightarrow> \<exists>s'. reserve n s = Inr s' \<and> sv_inv caps s' \<and> elements s' = elements s"
  by (erule sv_inv_cases) (auto simp: reserve_def)

lemma sv_clear_refines:
  "sv_inv caps s \<Longrightarrow> \<exists>s'. sv_clear s = Inr s' \<and> sv_inv caps s' \<and> elements s' = []"
  by (erule sv_inv_cases) auto

lemma sv_iterate_elements: "sv_inv caps s \<Longrightarrow> sv_iterate s = Inr (elements s)"
  by (erule sv_inv_cases) auto

lemma sv_size_elements: "sv_inv caps s \<Longrightarrow> sv_size s = length (elements s)"
  by (erule sv_inv_cases) (auto simp: sv_size_def inline_def dynamic_def elements_def)

lemma sv_index_elements: "sv_inv caps s \<Longrightarrow> i < length (elements s) \<Longrightarrow> sv_index i s = Inr (elements s ! i)"
  by (erule sv_inv_cases) (auto simp: sv_index_def inline_def dynamic_def elements_def nth_append o_def)

lemma dynamicMem_upd_inv: "sv_inv caps s \<Longrightarrow> sv_onStackSize s = 0 \<Longrightarrow> sv_inv caps (s\<lparr>sv_dynamicMem := Some xs\<rparr>)"
  by (simp add: sv_inv_def)

lemma elements_dynamicMem_upd [simp]: "elements (s\<lparr>sv_dynamicMem := Some xs\<rparr>) = xs"
  by (simp add: elements_def)

lemma assign_copy_refines:
  assumes "sv_inv caps s" and rhs: "sv_inv caps' rhs"
  shows "\<exists>s'. assign_copy rhs s = Inr s' \<and> sv_inv caps s' \<and> elements s' = elements rhs"
proof -
  obtain s1 where s1: "sv_clear s = Inr s1" "sv_inv caps s1" "elements s1 = []"
    using sv_clear_refines [OF assms(1)] by blast
  have it: "sv_iterate rhs = Inr (elements rhs)" by (rule sv_iterate_elements [OF rhs])
  show ?thesis
  proof (cases "sv_dynamicMem s1")
    case None
    have "sv_onStackSize s1 = 0" using s1(2,3) None by (auto simp: elements_def sv_inv_def)
    then show ?thesis
      using s1 it None push_all_refines [OF s1(2), of "elements rhs"] dynamicMem_upd_inv [OF s1(2)]
      by (auto simp: assign_copy_def)
  next
    case (Some vec)
    then have "sv_onStackSize s1 = 0" "vec = []" using s1(2,3) by (auto simp: sv_inv_def elements_def)
    then show ?thesis using s1 it Some dynamicMem_upd_inv [OF s1(2)] by (auto simp: assign_copy_def)
  qed
qed

interpretation stackvec: machine_refinement "sv_inv caps" elements "vec_op_ok caps" vec_step vec_spec for caps
proof unfold_locales
  fix s :: "'a StackVec" and op :: "'a vec_op"
  assume "sv_inv caps s" "vec_op_ok caps op"
  then show "\<exists>s'. vec_step op s = Inr s' \<and> sv_inv caps s' \<and> elements s' = vec_spec op (elements s)"
    using push_back_refines resizeImpl_refines reserve_refines sv_clear_refines assign_copy_refines
    by (cases op) auto
qed

lemma ctor_inv [simp]: "sv_inv caps (StackVec_ctor caps)" "elements (StackVec_ctor caps) = []"
  by (auto simp: sv_inv_def StackVec_ctor_def elements_def)

lemma equalLoop_eq: "length xs = length ys \<Longrightarrow> equalLoop xs ys = (xs = ys)"
  by (induction xs ys rule: equalLoop.induct) auto

section \<open>Properties\<close>

text \<open>Claim C22. A small vector of any inline capacity behaves as a list: starting from an empty one, any
  sequence of insertions, resizes, reservations, clears and assignments returns without a fault, no
  object is lost, duplicated or destroyed twice when it moves to the dynamic memory, and size,
  indexing and iteration read the abstract list.\<close>

theorem stackvec_refines_list:
  assumes "\<forall>op \<in> set ops. vec_op_ok caps op"
  shows "\<exists>s. run_ops vec_step ops (StackVec_ctor caps) = Inr s \<and> sv_inv caps s \<and>
    elements s = fold vec_spec ops [] \<and> sv_size s = length (elements s) \<and> sv_iterate s = Inr (elements s) \<and>
    (\<forall>i < length (elements s). sv_index i s = Inr (elements s ! i))"
proof -
  obtain s where s: "run_ops vec_step ops (StackVec_ctor caps) = Inr s" "sv_inv caps s" "elements s = fold vec_spec ops []"
    using stackvec.run_refines [OF ctor_inv(1) assms] by auto
  then show ?thesis
    using sv_size_elements [OF s(2)] sv_iterate_elements [OF s(2)] sv_index_elements [OF s(2)] by blast
qed

theorem stackvec_refines_list_witness:
  "\<exists>s. run_ops vec_step [PushBack 1, PushBack 2, PushBack 3, Resize 2 0, PushBack 9] (StackVec_ctor 2) = Inr s \<and>
     elements s = [1, 2, 9 :: nat]"
  using stackvec_refines_list [of "[PushBack 1, PushBack 2, PushBack 3, Resize 2 0, PushBack 9 :: nat vec_op]" 2]
  by auto

lemma push_all_inline:
  "length vs + length xs \<le> caps \<Longrightarrow> push_all xs (inline caps vs) = Inr (inline caps (vs @ xs))"
  by (induction xs arbitrary: vs) auto

lemma ctor_inline: "StackVec_ctor caps = inline caps []"
  by (simp add: StackVec_ctor_def inline_def)

text \<open>Every constructor builds the sequence it is given, in either representation; moving hands
  the elements over, and equality of two vectors of different capacity is equality of their
  sequences.\<close>

lemma stackvec_constructors:
  fixes xs :: "'a list" and rhs other :: "'a StackVec"
  assumes "sv_inv caps' rhs" and "sv_inv caps'' other"
  shows "(\<exists>s. StackVec_ctor_range caps xs = Inr s \<and> sv_inv caps s \<and> elements s = xs) \<and>
    (\<exists>s. StackVec_ctor_init caps xs = Inr s \<and> sv_inv caps s \<and> elements s = xs) \<and>
    (\<exists>s. StackVec_ctor_copy caps rhs = Inr s \<and> sv_inv caps s \<and> elements s = elements rhs) \<and>
    (\<exists>s r. StackVec_ctor_move caps rhs = Inr (s, r) \<and> sv_inv caps s \<and> sv_inv caps' r \<and> elements s = elements rhs) \<and>
    sv_equal rhs other = Inr (elements rhs = elements other)"
proof (intro conjI)
  have "(inline caps xs)\<lparr>sv_onStackSize := length xs\<rparr> = inline caps xs" by (simp add: inline_def)
  moreover have "sv_inv caps ((inline caps [])\<lparr>sv_dynamicMem := Some xs\<rparr>)" by (simp add: sv_inv_def inline_def)
  ultimately show "\<exists>s. StackVec_ctor_range caps xs = Inr s \<and> sv_inv caps s \<and> elements s = xs"
    using push_all_inline [of "[]" xs caps]
    by (auto simp: StackVec_ctor_range_def Let_def ctor_inline not_less)
  obtain s1 :: "'a StackVec" where s1: "reserve (length xs) (StackVec_ctor caps) = Inr s1" "sv_inv caps s1" "elements s1 = []"
    using reserve_refines [OF ctor_inv(1)] by fastforce
  then show "\<exists>s. StackVec_ctor_init caps xs = Inr s \<and> sv_inv caps s \<and> elements s = xs"
    using push_all_refines [OF s1(2), of xs] by (auto simp: StackVec_ctor_init_def)
  have it: "sv_iterate rhs = Inr (elements rhs)" by (rule sv_iterate_elements [OF assms(1)])
  have dyn: "sv_inv caps ((StackVec_ctor caps)\<lparr>sv_dynamicMem := Some v\<rparr>)" for v :: "'a list"
    by (simp add: sv_inv_def StackVec_ctor_def)
  have push: "\<exists>s. push_all (elements rhs) (StackVec_ctor caps) = Inr s \<and> sv_inv caps s \<and> elements s = elements rhs"
    using push_all_refines [OF ctor_inv(1), of "elements rhs" caps] by simp
  show "\<exists>s. StackVec_ctor_copy caps rhs = Inr s \<and> sv_inv caps s \<and> elements s = elements rhs"
    using push it dyn by (auto simp: StackVec_ctor_copy_def)
  show "\<exists>s r. StackVec_ctor_move caps rhs = Inr (s, r) \<and> sv_inv caps s \<and> sv_inv caps' r \<and> elements s = elements rhs"
  proof (cases "sv_dynamicMem rhs")
    case None
    then show ?thesis using push it assms(1) by (auto simp: StackVec_ctor_move_def)
  next
    case (Some v)
    then have "sv_inv caps' (rhs\<lparr>sv_dynamicMem := None\<rparr>)" "elements rhs = v"
      using assms(1) by (simp_all add: sv_inv_def elements_def)
    then show ?thesis using Some dyn by (simp add: StackVec_ctor_move_def)
  qed
  show "sv_equal rhs other = Inr (elements rhs = elements other)"
    using it sv_iterate_elements [OF assms(2)] sv_size_elements [OF assms(1)] sv_size_elements [OF assms(2)] equalLoop_eq
    by (auto simp: sv_equal_def)
qed

text \<open>Assigning a vector to itself empties it: the copy assignment clears the object before it
  reads the right hand side, which is the same object.\<close>

theorem self_assignment_empties:
  assumes "sv_inv caps s"
  shows "\<exists>s'. assign_copy_self s = Inr s' \<and> elements s' = []"
proof -
  obtain s1 where s1: "sv_clear s = Inr s1" "sv_inv caps s1" "elements s1 = []"
    using sv_clear_refines [OF assms] by blast
  then show ?thesis using assign_copy_refines [OF s1(2) s1(2)] by (auto simp: assign_copy_self_def)
qed

theorem self_assignment_empties_witness:
  "elements (inline 4 [1, 2 :: nat]) = [1, 2] \<and> (\<exists>s'. assign_copy_self (inline 4 [1, 2 :: nat]) = Inr s' \<and> elements s' = [])"
  using self_assignment_empties [of 4 "inline 4 [1, 2 :: nat]"] by simp

end
