(* ===== verification/Tag_Allocator.thy ===== *)
theory Tag_Allocator
  imports Aligned_Memory
begin

text \<open>
  The pool of tags in GPU visible memory (\<^verbatim>\<open>utilities/tag_allocator.h\<close>) and the containers of timestamp
  packets that share them (\<^verbatim>\<open>helpers/timestamp_packet.h\<close>, \<^verbatim>\<open>helpers/timestamp_packet.cpp\<close>). A node is
  an index into the node memory; the three intrusive lists are HOL lists, as \<open>Intrusive_List\<close>
  justifies. The content of a tag, which the GPU writes, is kept in its node; the tag type's
  \<^verbatim>\<open>initialize\<close> and \<^verbatim>\<open>canBeReleased\<close> are the template's parameter. The memory manager that provides the
  memory of the tags is a parameter that may return nothing.
\<close>

record 't TagType =
  tag_sizeof :: u64
  tag_initialize :: "'t \<Rightarrow> 't"
  tag_canBeReleased :: "'t \<Rightarrow> bool"
  tag_raw :: 't

record 't TagNode =
  tn_tagForCpuAccess :: u64
  tn_gfxAllocation :: nat
  tn_gpuAddress :: u64
  tn_refCount :: u32
  tn_tag :: 't

record GfxBlock =
  gb_gpuAddress :: u64
  gb_buffer :: u64
  gb_size :: u64

type_synonym block_source = "nat \<Rightarrow> u64 \<Rightarrow> GfxBlock option"

record 't TagAllocator =
  ta_nodes :: "'t TagNode list"
  ta_freeTags :: "nat list"
  ta_usedTags :: "nat list"
  ta_deferredTags :: "nat list"
  ta_gfxAllocations :: "GfxBlock list"
  ta_tagCount :: u64
  ta_tagAlignment :: u64

definition upd_node :: "nat \<Rightarrow> ('t TagNode \<Rightarrow> 't TagNode) \<Rightarrow> 't TagAllocator \<Rightarrow> 't TagAllocator" where
  "upd_node n f t = t\<lparr>ta_nodes := (ta_nodes t)[n := f (ta_nodes t ! n)]\<rparr>"

definition canBeReleased :: "'t TagType \<Rightarrow> nat \<Rightarrow> 't TagAllocator \<Rightarrow> bool" where
  "canBeReleased ty n t \<longleftrightarrow> tag_canBeReleased ty (tn_tag (ta_nodes t ! n))"

definition incRefCount :: "nat \<Rightarrow> 't TagAllocator \<Rightarrow> 't TagAllocator" where
  "incRefCount n = upd_node n (\<lambda>nd. nd\<lparr>tn_refCount := tn_refCount nd + 1\<rparr>)"

definition newNode :: "'t TagType \<Rightarrow> nat \<Rightarrow> GfxBlock \<Rightarrow> u64 \<Rightarrow> nat \<Rightarrow> 't TagNode" where
  "newNode ty gfxAllocation g tagSize i =
     \<lparr>tn_tagForCpuAccess = gb_buffer g + of_nat i * tagSize, tn_gfxAllocation = gfxAllocation,
      tn_gpuAddress = gb_gpuAddress g + of_nat i * tagSize, tn_refCount = 0, tn_tag = tag_raw ty\<rparr>"

definition populateFreeTags ::
  "'t TagType \<Rightarrow> block_source \<Rightarrow> 't TagAllocator \<Rightarrow> 't TagAllocator rt_result" where
  "populateFreeTags ty allocate t =
     (let tagSize = alignUp (tag_sizeof ty) (ta_tagAlignment t);
          allocationSizeRequired = ta_tagCount t * tagSize;
          k = length (ta_gfxAllocations t)
      in case allocate k allocationSizeRequired of
           None \<Rightarrow> Inl NullDereference
         | Some g \<Rightarrow>
             if tagSize = 0 then Inl DivisionByZero
             else
               let nodeCount = unat (gb_size g div tagSize);
                   first = length (ta_nodes t)
               in Inr (t\<lparr>ta_gfxAllocations := ta_gfxAllocations t @ [g],
                         ta_nodes := ta_nodes t @ map (newNode ty k g tagSize) [0..<nodeCount],
                         ta_freeTags := ta_freeTags t @ [first..<first + nodeCount]\<rparr>))"

definition TagAllocator_ctor ::
  "'t TagType \<Rightarrow> block_source \<Rightarrow> u64 \<Rightarrow> u64 \<Rightarrow> 't TagAllocator rt_result" where
  "TagAllocator_ctor ty allocate tagCount tagAlignment =
     populateFreeTags ty allocate
       \<lparr>ta_nodes = [], ta_freeTags = [], ta_usedTags = [], ta_deferredTags = [], ta_gfxAllocations = [],
        ta_tagCount = tagCount, ta_tagAlignment = tagAlignment\<rparr>"

fun releaseLoop :: "('n \<Rightarrow> bool) \<Rightarrow> 'n list \<Rightarrow> 'n list \<Rightarrow> 'n list \<Rightarrow> 'n list \<times> 'n list" where
  "releaseLoop releasable [] pendingFree pendingDeferred = (pendingFree, pendingDeferred)"
| "releaseLoop releasable (n # ns) pendingFree pendingDeferred =
     (if releasable n then releaseLoop releasable ns (n # pendingFree) pendingDeferred
      else releaseLoop releasable ns pendingFree (n # pendingDeferred))"

definition releaseDeferredTags :: "'t TagType \<Rightarrow> 't TagAllocator \<Rightarrow> 't TagAllocator" where
  "releaseDeferredTags ty t =
     (case releaseLoop (\<lambda>n. canBeReleased ty n t) (ta_deferredTags t) [] [] of
        (pendingFree, pendingDeferred) \<Rightarrow>
          t\<lparr>ta_freeTags := ta_freeTags t @ pendingFree, ta_deferredTags := pendingDeferred\<rparr>)"

definition takeTag :: "'t TagType \<Rightarrow> 't TagAllocator \<Rightarrow> (nat \<times> 't TagAllocator) rt_result" where
  "takeTag ty t =
     (case ta_freeTags t of
        [] \<Rightarrow> Inl NullDereference
      | n # ns \<Rightarrow>
          let t = t\<lparr>ta_freeTags := ns, ta_usedTags := n # ta_usedTags t\<rparr>;
              t = incRefCount n t;
              t = upd_node n (\<lambda>nd. nd\<lparr>tn_tag := tag_initialize ty (tn_tag nd)\<rparr>) t
          in Inr (n, t))"

definition getTag ::
  "'t TagType \<Rightarrow> block_source \<Rightarrow> 't TagAllocator \<Rightarrow> (nat \<times> 't TagAllocator) rt_result" where
  "getTag ty allocate t =
     (let t = (if ta_freeTags t = [] then releaseDeferredTags ty t else t)
      in rt_bind (if ta_freeTags t = [] then populateFreeTags ty allocate t else Inr t) (takeTag ty))"

definition returnTagToFreePool :: "nat \<Rightarrow> 't TagAllocator \<Rightarrow> 't TagAllocator" where
  "returnTagToFreePool n t =
     t\<lparr>ta_usedTags := remove1 n (ta_usedTags t), ta_freeTags := n # ta_freeTags t\<rparr>"

definition returnTagToDeferredPool :: "nat \<Rightarrow> 't TagAllocator \<Rightarrow> 't TagAllocator" where
  "returnTagToDeferredPool n t =
     t\<lparr>ta_usedTags := remove1 n (ta_usedTags t), ta_deferredTags := n # ta_deferredTags t\<rparr>"

definition returnTag :: "'t TagType \<Rightarrow> nat \<Rightarrow> 't TagAllocator \<Rightarrow> 't TagAllocator" where
  "returnTag ty n t =
     (let old = tn_refCount (ta_nodes t ! n);
          t = upd_node n (\<lambda>nd. nd\<lparr>tn_refCount := tn_refCount nd - 1\<rparr>) t
      in if old = 1 then
           if canBeReleased ty n t then returnTagToFreePool n t else returnTagToDeferredPool n t
         else t)"

definition cleanUpResources :: "'t TagAllocator \<Rightarrow> 't TagAllocator \<times> GfxBlock list" where
  "cleanUpResources t = (t\<lparr>ta_gfxAllocations := [], ta_nodes := []\<rparr>, ta_gfxAllocations t)"

section \<open>Timestamp packets\<close>

datatype DataIndex = ContextStart | GlobalStart | ContextEnd | GlobalEnd

fun dataIndex :: "DataIndex \<Rightarrow> nat" where
  "dataIndex ContextStart = 0"
| "dataIndex GlobalStart = 1"
| "dataIndex ContextEnd = 2"
| "dataIndex GlobalEnd = 3"

definition preferedChunkCount :: nat where "preferedChunkCount = 16"

record TimestampPacket =
  tp_data :: "u32 list"
  tp_implicitDependenciesCount :: u32

definition TimestampPacket_canBeReleased :: "TimestampPacket \<Rightarrow> bool" where
  "TimestampPacket_canBeReleased p \<longleftrightarrow>
     tp_data p ! dataIndex ContextEnd \<noteq> 1 \<and> tp_data p ! dataIndex GlobalEnd \<noteq> 1 \<and>
     tp_implicitDependenciesCount p = 0"

definition getData :: "DataIndex \<Rightarrow> TimestampPacket \<Rightarrow> u32" where
  "getData operationType p = tp_data p ! dataIndex operationType"

definition TimestampPacket_initialize :: "TimestampPacket \<Rightarrow> TimestampPacket" where
  "TimestampPacket_initialize p =
     p\<lparr>tp_data := replicate (length (tp_data p)) 1, tp_implicitDependenciesCount := 0\<rparr>"

definition incImplicitDependenciesCount :: "TimestampPacket \<Rightarrow> TimestampPacket" where
  "incImplicitDependenciesCount p = p\<lparr>tp_implicitDependenciesCount := tp_implicitDependenciesCount p + 1\<rparr>"

definition TimestampPacket_type :: "TimestampPacket TagType" where
  "TimestampPacket_type =
     \<lparr>tag_sizeof = 260, tag_initialize = TimestampPacket_initialize,
      tag_canBeReleased = TimestampPacket_canBeReleased,
      tag_raw = \<lparr>tp_data = replicate (4 * preferedChunkCount) 0, tp_implicitDependenciesCount = 0\<rparr>\<rparr>"

definition getGpuAddressForDataWrite :: "'t TagNode \<Rightarrow> DataIndex \<Rightarrow> u64" where
  "getGpuAddressForDataWrite nd i = tn_gpuAddress nd + of_nat (dataIndex i * 4)"

definition getImplicitDependenciesCounGpuWriteAddress :: "'t TagNode \<Rightarrow> u64" where
  "getImplicitDependenciesCounGpuWriteAddress nd = tn_gpuAddress nd + of_nat (4 * preferedChunkCount * 4)"

text \<open>A container is the list of nodes it holds a reference to.\<close>

definition container_add :: "nat \<Rightarrow> nat list \<Rightarrow> nat list" where
  "container_add n nodes = nodes @ [n]"

definition container_dtor :: "'t TagType \<Rightarrow> nat list \<Rightarrow> 't TagAllocator \<Rightarrow> 't TagAllocator" where
  "container_dtor ty nodes t = fold (returnTag ty) nodes t"

fun resolveLoop ::
  "'t TagType \<Rightarrow> bool \<Rightarrow> nat list \<Rightarrow> nat list \<Rightarrow> 't TagAllocator \<Rightarrow> nat list \<times> 't TagAllocator" where
  "resolveLoop ty clearAll [] pendingNodes t = (pendingNodes, t)"
| "resolveLoop ty clearAll (n # ns) pendingNodes t =
     (if canBeReleased ty n t \<or> clearAll then resolveLoop ty clearAll ns pendingNodes (returnTag ty n t)
      else resolveLoop ty clearAll ns (pendingNodes @ [n]) t)"

definition resolveDependencies ::
  "'t TagType \<Rightarrow> bool \<Rightarrow> nat list \<Rightarrow> 't TagAllocator \<Rightarrow> nat list \<times> 't TagAllocator" where
  "resolveDependencies ty clearAllDependencies nodes t = resolveLoop ty clearAllDependencies nodes [] t"

definition assignAndIncrementNodesRefCounts ::
  "nat list \<Rightarrow> nat list \<Rightarrow> 't TagAllocator \<Rightarrow> nat list \<times> 't TagAllocator" where
  "assignAndIncrementNodesRefCounts inputNodes nodes t = (nodes @ inputNodes, fold incRefCount inputNodes t)"

definition swapNodes :: "nat list \<Rightarrow> nat list \<Rightarrow> nat list \<times> nat list" where
  "swapNodes a b = (b, a)"

section \<open>Runs of a set of containers\<close>

text \<open>The containers of a command stream receiver share one allocator. Each step is one container
  operation, or the GPU or the runtime writing to the tags.\<close>

inductive tp_step ::
  "'t TagType \<Rightarrow> block_source \<Rightarrow> 't TagAllocator \<times> nat list list \<Rightarrow> 't TagAllocator \<times> nat list list \<Rightarrow> bool"
  for ty allocate where
  add: "i < length cs \<Longrightarrow> getTag ty allocate t = Inr (n, t') \<Longrightarrow>
    tp_step ty allocate (t, cs) (t', cs[i := container_add n (cs ! i)])"
| assign: "i < length cs \<Longrightarrow> j < length cs \<Longrightarrow> i \<noteq> j \<Longrightarrow> length (concat cs) + length (cs ! j) < 2 ^ 32 \<Longrightarrow>
    assignAndIncrementNodesRefCounts (cs ! j) (cs ! i) t = (nodes, t') \<Longrightarrow>
    tp_step ty allocate (t, cs) (t', cs[i := nodes])"
| swap: "i < length cs \<Longrightarrow> j < length cs \<Longrightarrow> i \<noteq> j \<Longrightarrow> swapNodes (cs ! i) (cs ! j) = (a, b) \<Longrightarrow>
    tp_step ty allocate (t, cs) (t, cs[i := a, j := b])"
| resolve: "i < length cs \<Longrightarrow> resolveDependencies ty b (cs ! i) t = (nodes, t') \<Longrightarrow>
    tp_step ty allocate (t, cs) (t', cs[i := nodes])"
| destroy: "i < length cs \<Longrightarrow> tp_step ty allocate (t, cs) (container_dtor ty (cs ! i) t, cs[i := []])"
| gpu: "n < length (ta_nodes t) \<Longrightarrow>
    tp_step ty allocate (t, cs) (upd_node n (\<lambda>nd. nd\<lparr>tn_tag := x\<rparr>) t, cs)"

section \<open>Reference counted pools\<close>

text \<open>What the containers rely on: a pool whose state \<open>t\<close> is consistent with the multiset of references
  its clients hold.\<close>

locale ref_pool =
  fixes inv :: "'s \<Rightarrow> nat multiset \<Rightarrow> bool" and inc :: "nat \<Rightarrow> 's \<Rightarrow> 's" and ret :: "nat \<Rightarrow> 's \<Rightarrow> 's"
    and releasable :: "nat \<Rightarrow> 's \<Rightarrow> bool"
  assumes inc_inv: "inv t M \<Longrightarrow> n \<in># M \<Longrightarrow> size M + 1 < 2 ^ 32 \<Longrightarrow> inv (inc n t) (add_mset n M)"
    and ret_inv: "inv t M \<Longrightarrow> n \<in># M \<Longrightarrow> inv (ret n t) (M - {#n#})"
begin

lemma fold_ret_inv: "inv t (M + mset ns) \<Longrightarrow> inv (fold ret ns t) M"
proof (induction ns arbitrary: t)
  case (Cons n ns)
  then have "inv (ret n t) (M + mset (n # ns) - {#n#})" by (intro ret_inv) simp_all
  then show ?case using Cons.IH [of "ret n t"] by simp
qed simp

lemma fold_inc_inv:
  "inv t M \<Longrightarrow> set ns \<subseteq> set_mset M \<Longrightarrow> size M + length ns < 2 ^ 32 \<Longrightarrow> inv (fold inc ns t) (M + mset ns)"
proof (induction ns arbitrary: t M)
  case (Cons n ns)
  then have "inv (inc n t) (add_mset n M)" by (intro inc_inv) simp_all
  then have "inv (fold inc ns (inc n t)) (add_mset n M + mset ns)"
    using Cons.prems by (intro Cons.IH) auto
  then show ?case by simp
qed simp

end

section \<open>The allocator is a reference counted pool\<close>

definition nodes_partition :: "'t TagAllocator \<Rightarrow> bool" where
  "nodes_partition t \<longleftrightarrow>
     mset (ta_freeTags t) + mset (ta_usedTags t) + mset (ta_deferredTags t) = mset [0..<length (ta_nodes t)]"

definition tag_inv :: "'t TagAllocator \<Rightarrow> nat multiset \<Rightarrow> bool" where
  "tag_inv t M \<longleftrightarrow> nodes_partition t \<and>
     (\<forall>n < length (ta_nodes t). unat (tn_refCount (ta_nodes t ! n)) = count M n) \<and>
     set (ta_usedTags t) = set_mset M"

lemma partition_facts:
  assumes "nodes_partition t"
  shows "set (ta_freeTags t) \<union> set (ta_usedTags t) \<union> set (ta_deferredTags t) = {..<length (ta_nodes t)}"
    and "distinct (ta_freeTags t @ ta_usedTags t @ ta_deferredTags t)"
proof -
  have m: "mset (ta_freeTags t @ ta_usedTags t @ ta_deferredTags t) = mset [0..<length (ta_nodes t)]"
    using assms by (simp only: mset_append nodes_partition_def add.assoc)
  from mset_eq_setD [OF m] show "set (ta_freeTags t) \<union> set (ta_usedTags t) \<union> set (ta_deferredTags t) = {..<length (ta_nodes t)}"
    by (simp only: set_append set_upt Un_assoc lessThan_atLeast0)
  show "distinct (ta_freeTags t @ ta_usedTags t @ ta_deferredTags t)"
    using mset_eq_imp_distinct_iff [OF m] by simp
qed

lemma upd_node_simps [simp]:
  "ta_freeTags (upd_node n f t) = ta_freeTags t" "ta_usedTags (upd_node n f t) = ta_usedTags t"
  "ta_deferredTags (upd_node n f t) = ta_deferredTags t" "length (ta_nodes (upd_node n f t)) = length (ta_nodes t)"
  "nodes_partition (upd_node n f t) = nodes_partition t"
  "ta_gfxAllocations (upd_node n f t) = ta_gfxAllocations t"
  "ta_tagAlignment (upd_node n f t) = ta_tagAlignment t"
  by (simp_all add: upd_node_def nodes_partition_def)

lemma upd_node_nth:
  "m < length (ta_nodes t) \<Longrightarrow> ta_nodes (upd_node n f t) ! m = (if m = n then f (ta_nodes t ! n) else ta_nodes t ! m)"
  by (simp add: upd_node_def nth_list_update)

lemma tag_inv_node: "tag_inv t M \<Longrightarrow> n \<in># M \<Longrightarrow> n < length (ta_nodes t) \<and> 0 < count M n"
  using partition_facts(1) [of t] by (auto simp: tag_inv_def)

lemma unat_inc: "unat (x :: u32) + 1 < 2 ^ 32 \<Longrightarrow> unat (x + 1) = unat x + 1"
  using unat_add_nowrap [of x 1] by simp

lemma incRefCount_inv:
  assumes i: "tag_inv t M" and n: "n \<in># M" and bound: "size M + 1 < 2 ^ 32"
  shows "tag_inv (incRefCount n t) (add_mset n M)"
proof -
  have "count M n \<le> size M" by (metis count_le_size)
  then have "unat (tn_refCount (ta_nodes t ! n)) + 1 < 2 ^ 32"
    using i tag_inv_node [OF i n] bound by (simp add: tag_inv_def)
  then show ?thesis
    using i n unat_inc by (auto simp: tag_inv_def incRefCount_def upd_node_nth)
qed

lemma returnTag_inv:
  assumes i: "tag_inv t M" and n: "n \<in># M"
  shows "tag_inv (returnTag ty n t) (M - {#n#})"
proof -
  define t1 where "t1 = upd_node n (\<lambda>nd. nd\<lparr>tn_refCount := tn_refCount nd - 1\<rparr>) t"
  have len: "n < length (ta_nodes t)" and pos: "0 < count M n" using tag_inv_node [OF i n] by auto
  have ref: "unat (tn_refCount (ta_nodes t ! n)) = count M n" using i len by (simp add: tag_inv_def)
  have dec: "unat (tn_refCount (ta_nodes t ! n) - 1) = count M n - 1"
    using unat_sub_le [of 1 "tn_refCount (ta_nodes t ! n)"] ref pos by simp
  have refs: "\<forall>m < length (ta_nodes t1). unat (tn_refCount (ta_nodes t1 ! m)) = count (M - {#n#}) m"
    using i dec by (auto simp: t1_def tag_inv_def upd_node_nth)
  have part: "nodes_partition t1" "ta_usedTags t1 = ta_usedTags t" "set (ta_usedTags t) = set_mset M"
    using i by (simp_all add: t1_def tag_inv_def)
  have old: "tn_refCount (ta_nodes t ! n) = 1 \<longleftrightarrow> count M n = 1"
    using ref by (simp add: unat_eq_iff)
  show ?thesis
  proof (cases "count M n = 1")
    case True
    have du: "distinct (ta_usedTags t1)" using partition_facts(2) [OF part(1)] by simp
    have nu: "n \<in> set (ta_usedTags t1)" using part n by simp
    obtain U where m: "mset (ta_usedTags t1) = add_mset n U" using nu by (metis in_multiset_in_set mset_add)
    then have m': "mset (remove1 n (ta_usedTags t1)) = U" by (simp only: mset_remove1 add_mset_remove_trivial)
    have "set (remove1 n (ta_usedTags t1)) = set_mset (M - {#n#})"
      using at_most_one_mset_mset_diff [of n M] True
      unfolding set_remove1_eq [OF du] by (simp add: part(2,3) in_diff_count)
    moreover have "nodes_partition (returnTagToFreePool n t1)" "nodes_partition (returnTagToDeferredPool n t1)"
      using part(1) by (simp_all add: nodes_partition_def returnTagToFreePool_def returnTagToDeferredPool_def m m' del: mset_remove1)
    ultimately have "tag_inv (returnTagToFreePool n t1) (M - {#n#})" "tag_inv (returnTagToDeferredPool n t1) (M - {#n#})"
      using refs by (auto simp: tag_inv_def returnTagToFreePool_def returnTagToDeferredPool_def)
    then show ?thesis using old True by (simp add: returnTag_def Let_def t1_def [symmetric])
  next
    case False
    have "1 < count M n" using False pos by linarith
    then have "n \<in># M - {#n#}" by (simp add: in_diff_count)
    then have "set_mset (M - {#n#}) = set_mset M"
      by (metis insert_DiffM n set_mset_add_mset_insert insert_absorb)
    then have "tag_inv t1 (M - {#n#})" using refs part by (simp add: tag_inv_def)
    then show ?thesis using old False by (simp add: returnTag_def Let_def t1_def [symmetric])
  qed
qed

interpretation tags: ref_pool tag_inv incRefCount "returnTag ty" "canBeReleased ty" for ty
  by unfold_locales (auto intro: incRefCount_inv returnTag_inv)

lemma releaseLoop_mset:
  "releaseLoop p ns f d = (f', d') \<Longrightarrow> mset f' + mset d' = mset ns + mset f + mset d"
  by (induction ns arbitrary: f d) (auto split: if_splits)

lemma releaseDeferredTags_inv: "tag_inv t M \<Longrightarrow> tag_inv (releaseDeferredTags ty t) M"
proof -
  assume i: "tag_inv t M"
  obtain f d where r: "releaseLoop (\<lambda>n. canBeReleased ty n t) (ta_deferredTags t) [] [] = (f, d)" by fastforce
  have d: "mset (ta_deferredTags t) = mset f + mset d" using releaseLoop_mset [OF r] by simp
  have "mset (ta_freeTags t @ f) + mset (ta_usedTags t) + mset d =
      mset (ta_freeTags t) + mset (ta_usedTags t) + mset (ta_deferredTags t)"
    unfolding d by (simp only: mset_append ac_simps)
  also have "\<dots> = mset [0..<length (ta_nodes t)]" using i by (simp only: tag_inv_def nodes_partition_def)
  finally have "nodes_partition (releaseDeferredTags ty t)" using r by (simp add: nodes_partition_def releaseDeferredTags_def)
  then show ?thesis using i r by (simp add: tag_inv_def releaseDeferredTags_def)
qed

lemma tag_inv_outside: "tag_inv t M \<Longrightarrow> length (ta_nodes t) \<le> n \<Longrightarrow> count M n = 0"
  using tag_inv_node [of t M n] by (meson count_inI leD)

lemma populateFreeTags_inv:
  assumes i: "tag_inv t M" and p: "populateFreeTags ty allocate t = Inr t'"
  shows "tag_inv t' M"
proof -
  obtain k g sz where t': "t' = t\<lparr>ta_gfxAllocations := ta_gfxAllocations t @ [g],
      ta_nodes := ta_nodes t @ map (newNode ty (length (ta_gfxAllocations t)) g sz) [0..<k],
      ta_freeTags := ta_freeTags t @ [length (ta_nodes t)..<length (ta_nodes t) + k]\<rparr>"
    using p by (auto simp: populateFreeTags_def Let_def split: option.splits if_splits)
  have "mset [0..<length (ta_nodes t) + k] = mset [0..<length (ta_nodes t)] + mset [length (ta_nodes t)..<length (ta_nodes t) + k]"
    by (metis mset_append upt_add_eq_append zero_le)
  moreover have "mset (ta_freeTags t) + mset (ta_usedTags t) + mset (ta_deferredTags t) = mset [0..<length (ta_nodes t)]"
    using i by (simp only: tag_inv_def nodes_partition_def)
  ultimately have "nodes_partition t'"
    by (simp add: nodes_partition_def t' ac_simps del: mset_upt)
  moreover have "unat (tn_refCount (ta_nodes t' ! n)) = count M n" if "n < length (ta_nodes t')" for n
    using i that tag_inv_outside [OF i, of n]
    by (auto simp: t' nth_append newNode_def tag_inv_def)
  ultimately show ?thesis using i by (simp add: tag_inv_def t')
qed

lemma takeTag_inv:
  assumes i: "tag_inv t M" and g: "takeTag ty t = Inr (n, t')"
  shows "tag_inv t' (add_mset n M) \<and> n \<notin># M \<and> n < length (ta_nodes t) \<and>
    tn_tag (ta_nodes t' ! n) = tag_initialize ty (tn_tag (ta_nodes t ! n)) \<and> tn_refCount (ta_nodes t' ! n) = 1"
proof -
  obtain ns where f: "ta_freeTags t = n # ns"
    using g by (auto simp: takeTag_def Let_def split: list.splits)
  define t1 where "t1 = t\<lparr>ta_freeTags := ns, ta_usedTags := n # ta_usedTags t\<rparr>"
  have t': "t' = upd_node n (\<lambda>nd. nd\<lparr>tn_tag := tag_initialize ty (tn_tag nd)\<rparr>) (incRefCount n t1)"
    using g f by (simp add: takeTag_def Let_def t1_def)
  have part: "nodes_partition t" using i by (simp add: tag_inv_def)
  have n: "n < length (ta_nodes t)" using partition_facts(1) [OF part] f by auto
  have nM: "n \<notin># M" using partition_facts(2) [OF part] i f by (auto simp: tag_inv_def)
  then have ref: "tn_refCount (ta_nodes t ! n) = 0"
    using i n by (simp add: tag_inv_def not_in_iff unat_eq_iff)
  have "nodes_partition t1" using part f by (simp add: nodes_partition_def t1_def)
  moreover have "length (ta_nodes t1) = length (ta_nodes t)" "ta_nodes t1 = ta_nodes t" by (simp_all add: t1_def)
  ultimately show ?thesis
    using i n nM ref by (auto simp: t' incRefCount_def tag_inv_def upd_node_nth) (simp_all add: t1_def not_in_iff)
qed

lemma getTag_inv:
  assumes i: "tag_inv t M" and g: "getTag ty allocate t = Inr (n, t')"
  shows "tag_inv t' (add_mset n M) \<and> n \<notin># M \<and> tn_refCount (ta_nodes t' ! n) = 1 \<and> n < length (ta_nodes t') \<and>
    (\<exists>x. tn_tag (ta_nodes t' ! n) = tag_initialize ty x)"
proof -
  define t1 where "t1 = (if ta_freeTags t = [] then releaseDeferredTags ty t else t)"
  have t1: "tag_inv t1 M" using i releaseDeferredTags_inv [OF i] by (simp add: t1_def)
  obtain t2 where t2: "(if ta_freeTags t1 = [] then populateFreeTags ty allocate t1 else Inr t1) = Inr t2"
    and tk: "takeTag ty t2 = Inr (n, t')"
    using g by (auto simp: getTag_def Let_def t1_def [symmetric])
  have "tag_inv t2 M" using t1 t2 populateFreeTags_inv by (auto split: if_splits)
  then show ?thesis using takeTag_inv [OF _ tk] tag_inv_node by fastforce
qed

lemma mset_concat_update:
  "i < length cs \<Longrightarrow> mset (concat (cs[i := x])) + mset (cs ! i) = mset (concat cs) + mset x"
proof (induction cs arbitrary: i)
  case (Cons c cs)
  then show ?case by (cases i) (auto simp: ac_simps)
qed simp

lemma container_split:
  "i < length cs \<Longrightarrow> \<exists>R. mset (concat cs) = R + mset (cs ! i) \<and> (\<forall>x. mset (concat (cs[i := x])) = R + mset x)"
proof -
  assume i: "i < length cs"
  have "mset (cs ! i) \<subseteq># mset (concat cs)"
    using mset_concat_update [OF i, of "[]"] by (metis add.commute add.right_neutral mset.simps(1) mset_subset_eq_add_right)
  then obtain R where R: "mset (concat cs) = R + mset (cs ! i)" by (metis subset_mset.diff_add)
  have "mset (concat (cs[i := x])) = R + mset x" for x
    using mset_concat_update [OF i, of x] R by (simp add: add.commute add.left_commute)
  then show ?thesis using R by blast
qed

lemma resolveLoop_inv:
  "resolveLoop ty b ns p t = (p', t') \<Longrightarrow> tag_inv t (R + mset ns + mset p) \<Longrightarrow> tag_inv t' (R + mset p')"
proof (induction ns arbitrary: p t)
  case (Cons n ns)
  show ?case
  proof (cases "canBeReleased ty n t \<or> b")
    case True
    have "tag_inv (returnTag ty n t) (R + mset (n # ns) + mset p - {#n#})"
      using Cons.prems(2) by (rule returnTag_inv) simp
    then show ?thesis using True Cons by simp
  next
    case False
    then show ?thesis using Cons.IH [of "p @ [n]" t] Cons.prems by simp
  qed
qed simp

lemma tp_step_inv:
  "tp_step ty allocate c c' \<Longrightarrow> tag_inv (fst c) (mset (concat (snd c))) \<Longrightarrow> tag_inv (fst c') (mset (concat (snd c')))"
proof (induction rule: tp_step.induct)
  case (add i cs t n t')
  obtain R where R: "mset (concat cs) = R + mset (cs ! i)" "\<And>x. mset (concat (cs[i := x])) = R + mset x"
    using container_split [OF add(1)] by blast
  show ?case using getTag_inv [OF _ add(2)] add(3) by (simp add: R container_add_def)
next
  case (assign i cs j t nodes t')
  obtain R where R: "mset (concat cs) = R + mset (cs ! i)" "\<And>x. mset (concat (cs[i := x])) = R + mset x"
    using container_split [OF assign(1)] by blast
  have "cs ! j \<in> set cs" using assign(2) by simp
  then have "set (cs ! j) \<subseteq> set (concat cs)" by (simp add: UN_upper)
  then have "tag_inv (fold incRefCount (cs ! j) t) (mset (concat cs) + mset (cs ! j))"
    using assign(4,6) by (intro tags.fold_inc_inv) simp_all
  then have "tag_inv t' (mset (concat cs) + mset (cs ! j))"
    using assign(5) by (simp add: assignAndIncrementNodesRefCounts_def)
  moreover have "nodes = cs ! i @ cs ! j" using assign(5) by (simp add: assignAndIncrementNodesRefCounts_def)
  ultimately show ?case by (simp add: R add.assoc)
next
  case (swap i cs j a b t)
  have "mset (concat (cs[i := cs ! j, j := cs ! i])) + mset (cs ! j) = mset (concat (cs[i := cs ! j])) + mset (cs ! i)"
    using mset_concat_update [of j "cs[i := cs ! j]" "cs ! i"] swap by simp
  moreover have "mset (concat (cs[i := cs ! j])) + mset (cs ! i) = mset (concat cs) + mset (cs ! j)"
    by (rule mset_concat_update [OF swap(1)])
  ultimately show ?case using swap by (simp add: swapNodes_def)
next
  case (resolve i cs b t nodes t')
  obtain R where R: "mset (concat cs) = R + mset (cs ! i)" "\<And>x. mset (concat (cs[i := x])) = R + mset x"
    using container_split [OF resolve(1)] by blast
  show ?case
    using resolveLoop_inv [of ty b "cs ! i" "[]" t nodes t' R] resolve by (simp add: R resolveDependencies_def)
next
  case (destroy i cs t)
  obtain R where R: "mset (concat cs) = R + mset (cs ! i)" "\<And>x. mset (concat (cs[i := x])) = R + mset x"
    using container_split [OF destroy(1)] by blast
  show ?case using tags.fold_ret_inv [of t R "cs ! i" ty] destroy by (simp add: R container_dtor_def)
next
  case (gpu n t cs x)
  then show ?case by (auto simp: tag_inv_def upd_node_nth)
qed

lemma ctor_tag_inv: "TagAllocator_ctor ty allocate c a = Inr t \<Longrightarrow> tag_inv t {#}"
  unfolding TagAllocator_ctor_def by (rule populateFreeTags_inv) (simp_all add: tag_inv_def nodes_partition_def)

text \<open>Claim C19. Whatever the containers of timestamp packets do with a shared allocator (adding,
  copying, swapping, resolving and destroying, while the GPU writes the tags), every node is in
  exactly one of the free, used and deferred lists, its reference count is the number of times the
  containers hold it, and a tag handed out next is held by none of them.\<close>

theorem tags_never_shared:
  assumes "TagAllocator_ctor ty allocate c a = Inr t0"
    and "(tp_step ty allocate)\<^sup>*\<^sup>* (t0, replicate k []) (t, cs)"
  shows "distinct (ta_freeTags t @ ta_usedTags t @ ta_deferredTags t) \<and>
    (\<forall>n < length (ta_nodes t). unat (tn_refCount (ta_nodes t ! n)) = count (mset (concat cs)) n) \<and>
    (\<forall>n t'. getTag ty allocate t = Inr (n, t') \<longrightarrow> n \<notin> set (concat cs) \<and> tn_refCount (ta_nodes t' ! n) = 1 \<and>
       (\<exists>x. tn_tag (ta_nodes t' ! n) = tag_initialize ty x))"
proof -
  have "tag_inv (fst (t, cs)) (mset (concat (snd (t, cs))))"
    using assms(2)
  proof (induction rule: rtranclp_induct)
    case base
    then show ?case using ctor_tag_inv [OF assms(1)] by simp
  next
    case (step y z)
    then show ?case using tp_step_inv by blast
  qed
  then have i: "tag_inv t (mset (concat cs))" by simp
  then have "distinct (ta_freeTags t @ ta_usedTags t @ ta_deferredTags t)"
    by (intro partition_facts) (simp add: tag_inv_def)
  then show ?thesis using i getTag_inv [OF i] by (auto simp: tag_inv_def)
qed

definition page_source :: block_source where
  "page_source k sz = Some \<lparr>gb_gpuAddress = 0x10000 * (of_nat k + 1), gb_buffer = 0x10000 * (of_nat k + 1), gb_size = sz\<rparr>"

lemma tag_demo:
  "\<exists>t0 n t. TagAllocator_ctor TimestampPacket_type page_source 1 64 = Inr t0 \<and>
     getTag TimestampPacket_type page_source t0 = Inr (n, t)"
  by (simp add: TagAllocator_ctor_def populateFreeTags_def page_source_def TimestampPacket_type_def alignUp_def
      Let_def getTag_def takeTag_def)

theorem tags_never_shared_witness:
  "\<exists>t0 n t. TagAllocator_ctor TimestampPacket_type page_source 1 64 = Inr t0 \<and>
     getTag TimestampPacket_type page_source t0 = Inr (n, t) \<and> tn_refCount (ta_nodes t ! n) = 1"
proof -
  obtain t0 n t where d: "TagAllocator_ctor TimestampPacket_type page_source 1 64 = Inr t0"
    "getTag TimestampPacket_type page_source t0 = Inr (n, t)" using tag_demo by blast
  have "(tp_step TimestampPacket_type page_source)\<^sup>*\<^sup>* (t0, replicate 2 []) (t0, [[], []])" by (simp add: numeral_2_eq_2)
  from tags_never_shared [OF d(1) this] d show ?thesis by blast
qed

end
