(* ===== verification/Page_Table.thy ===== *)
theory Page_Table
  imports Aligned_Memory
begin

text \<open>
  The page tables of the simulated GPU (\<^verbatim>\<open>memory_manager/page_table.h\<close>, \<^verbatim>\<open>.inl\<close>, \<^verbatim>\<open>.cpp\<close>) and the
  allocator of physical pages (\<^verbatim>\<open>physical_address_allocator.h\<close>). A leaf table is a function from its
  512 indices to 64-bit entries, zero for an empty one; an inner table maps an index to a child
  or to nothing. The template over the child type is a function of the child's operations.
  Virtual addresses and sizes are natural numbers with the reduction modulo 2 to the 64 written
  out, except for the running offset, which starts at zero and stays below the mapped size; entries
  are words. The calls of the page walker are recorded in order.

  The reference definition is one flat table indexed by page number. A locale states what it is for a
  table of some number of index bits to implement the flat walk; it is interpreted for the leaf
  table and, level by level, for the inner ones.
\<close>

type_synonym walk_calls = "(u64 \<times> nat \<times> nat \<times> u64) list"
type_synonym leaf = "nat \<Rightarrow> u64"
type_synonym 'c table = "nat \<Rightarrow> 'c option"

record PhysicalAddressAllocator =
  mainAllocator :: u64

definition PhysicalAddressAllocator_ctor :: PhysicalAddressAllocator where
  "PhysicalAddressAllocator_ctor = \<lparr>mainAllocator = 0x1000\<rparr>"

definition reservePage ::
  "nat \<Rightarrow> u64 \<Rightarrow> u64 \<Rightarrow> PhysicalAddressAllocator \<Rightarrow> (u64 \<times> PhysicalAddressAllocator) rt_result" where
  "reservePage memoryBank sz alignement a =
     unrecoverable_if (memoryBank \<noteq> 0)
       (let currentAddress = mainAllocator a;
            alignmentSize = alignUp currentAddress alignement - currentAddress;
            start = mainAllocator a + alignmentSize
        in Inr (start, a\<lparr>mainAllocator := start + sz\<rparr>))"

definition reserve4kPage :: "nat \<Rightarrow> PhysicalAddressAllocator \<Rightarrow> (u64 \<times> PhysicalAddressAllocator) rt_result" where
  "reserve4kPage memoryBank = reservePage memoryBank 0x1000 0x1000"

definition reserve64kPage :: "nat \<Rightarrow> PhysicalAddressAllocator \<Rightarrow> (u64 \<times> PhysicalAddressAllocator) rt_result" where
  "reserve64kPage memoryBank = reservePage memoryBank 0x10000 0x10000"

definition nonValidBits :: u64 where "nonValidBits = - 1"

definition page4kEntryMask :: u64 where "page4kEntryMask = NOT 0xFFF"

definition newEntryBits :: "u64 \<Rightarrow> u64" where
  "newEntryBits entryBits = (entryBits AND 0xFFF) OR 1"

text \<open>Subtraction of unsigned 64-bit values.\<close>

definition sub64 :: "nat \<Rightarrow> nat \<Rightarrow> nat" where
  "sub64 a b = wrap64 (a + 18446744073709551616 - b)"

text \<open>What both loops do with one entry: reserve a page for an empty one, else replace its low bits.\<close>

definition touchEntry ::
  "u64 \<Rightarrow> nat \<Rightarrow> u64 \<Rightarrow> PhysicalAddressAllocator \<Rightarrow> (u64 \<times> PhysicalAddressAllocator) rt_result" where
  "touchEntry entryBits memoryBank entry a =
     (if entry = 0
      then rt_bind (reserve4kPage memoryBank a) (\<lambda>(tmp, a). Inr (tmp OR newEntryBits entryBits, a))
      else if entryBits \<noteq> nonValidBits
      then Inr ((entry AND page4kEntryMask) OR newEntryBits entryBits, a)
      else Inr (entry, a))"

fun PTE_mapLoop ::
  "u64 \<Rightarrow> nat \<Rightarrow> nat list \<Rightarrow> u64 \<Rightarrow> leaf \<Rightarrow> PhysicalAddressAllocator \<Rightarrow> (u64 \<times> leaf \<times> PhysicalAddressAllocator) rt_result"
where
  "PTE_mapLoop entryBits memoryBank [] res t a = Inr (res, t, a)"
| "PTE_mapLoop entryBits memoryBank (i # idxs) res t a =
     rt_bind (touchEntry entryBits memoryBank (t i) a) (\<lambda>(entry, a).
       PTE_mapLoop entryBits memoryBank idxs (min (entry AND page4kEntryMask) res) (t(i := entry)) a)"

definition PTE_map ::
  "u64 \<Rightarrow> nat \<Rightarrow> nat \<Rightarrow> nat \<Rightarrow> leaf \<Rightarrow> PhysicalAddressAllocator \<Rightarrow> (u64 \<times> leaf \<times> PhysicalAddressAllocator) rt_result"
where
  "PTE_map entryBits memoryBank vm sz t a =
     (let indexStart = vm div 2 ^ 12 mod 2 ^ 9;
          indexEnd = sub64 (vm + sz) 1 div 2 ^ 12 mod 2 ^ 9
      in rt_bind (PTE_mapLoop entryBits memoryBank [indexStart..<indexEnd + 1] (- 1) t a) (\<lambda>(res, t, a).
           Inr ((res AND NOT (newEntryBits entryBits)) + of_nat (vm mod 4096), t, a)))"

fun PTE_walkLoop ::
  "u64 \<Rightarrow> nat \<Rightarrow> nat list \<Rightarrow> nat \<Rightarrow> nat \<Rightarrow> nat \<Rightarrow> leaf \<Rightarrow> PhysicalAddressAllocator
   \<Rightarrow> (walk_calls \<times> leaf \<times> PhysicalAddressAllocator) rt_result" where
  "PTE_walkLoop entryBits memoryBank [] rm sz offset t a = Inr ([], t, a)"
| "PTE_walkLoop entryBits memoryBank (i # idxs) rm sz offset t a =
     rt_bind (touchEntry entryBits memoryBank (t i) a) (\<lambda>(entry, a).
       let res = entry AND page4kEntryMask;
           lSize = min (4096 - rm) sz
       in rt_bind (PTE_walkLoop entryBits memoryBank idxs 0 (sz - lSize) (offset + lSize) (t(i := entry)) a)
            (\<lambda>(calls, t, a). Inr (((res AND NOT 1) + of_nat rm, lSize, offset, entry AND 0xFFF) # calls, t, a)))"

definition PTE_pageWalk ::
  "u64 \<Rightarrow> nat \<Rightarrow> nat \<Rightarrow> nat \<Rightarrow> nat \<Rightarrow> leaf \<Rightarrow> PhysicalAddressAllocator
   \<Rightarrow> (walk_calls \<times> leaf \<times> PhysicalAddressAllocator) rt_result" where
  "PTE_pageWalk entryBits memoryBank vm sz offset t a =
     (let indexStart = vm div 2 ^ 12 mod 2 ^ 9;
          indexEnd = sub64 (vm + sz) 1 div 2 ^ 12 mod 2 ^ 9;
          rm = vm mod 4096
      in PTE_walkLoop entryBits memoryBank [indexStart..<indexEnd + 1] rm sz offset t a)"

section \<open>The template over the child table\<close>

text \<open>The part of the range that falls under one index.\<close>

definition vmStartOf :: "nat \<Rightarrow> nat \<Rightarrow> nat \<Rightarrow> nat" where
  "vmStartOf shift maskedVm index = max (2 ^ shift * index) maskedVm"

definition vmEndOf :: "nat \<Rightarrow> nat \<Rightarrow> nat \<Rightarrow> nat \<Rightarrow> nat" where
  "vmEndOf shift maskedVm sz index = min (2 ^ shift * (index + 1) - 1) (sub64 (maskedVm + sz) 1)"

definition partSize :: "nat \<Rightarrow> nat \<Rightarrow> nat \<Rightarrow> nat \<Rightarrow> nat" where
  "partSize shift maskedVm sz index =
     wrap64 (sub64 (vmEndOf shift maskedVm sz index) (vmStartOf shift maskedVm index) + 1)"

fun mapLoop ::
  "(nat \<Rightarrow> nat \<Rightarrow> 'c \<Rightarrow> PhysicalAddressAllocator \<Rightarrow> (u64 \<times> 'c \<times> PhysicalAddressAllocator) rt_result) \<Rightarrow> 'c
   \<Rightarrow> nat \<Rightarrow> nat \<Rightarrow> nat \<Rightarrow> nat list \<Rightarrow> u64 \<Rightarrow> 'c table \<Rightarrow> PhysicalAddressAllocator
   \<Rightarrow> (u64 \<times> 'c table \<times> PhysicalAddressAllocator) rt_result" where
  "mapLoop childMap newChild shift maskedVm sz [] res t a = Inr (res, t, a)"
| "mapLoop childMap newChild shift maskedVm sz (index # idxs) res t a =
     (let child = (case t index of None \<Rightarrow> newChild | Some c \<Rightarrow> c)
      in rt_bind (childMap (vmStartOf shift maskedVm index) (partSize shift maskedVm sz index) child a)
           (\<lambda>(r, child, a).
              mapLoop childMap newChild shift maskedVm sz idxs (min r res) (t(index := Some child)) a))"

definition PageTable_map ::
  "nat \<Rightarrow> nat \<Rightarrow> (nat \<Rightarrow> nat \<Rightarrow> 'c \<Rightarrow> PhysicalAddressAllocator \<Rightarrow> (u64 \<times> 'c \<times> PhysicalAddressAllocator) rt_result) \<Rightarrow> 'c
   \<Rightarrow> nat \<Rightarrow> nat \<Rightarrow> 'c table \<Rightarrow> PhysicalAddressAllocator \<Rightarrow> (u64 \<times> 'c table \<times> PhysicalAddressAllocator) rt_result" where
  "PageTable_map childBits bits childMap newChild vm sz t a =
     (let shift = childBits + 12;
          indexStart = vm div 2 ^ shift mod 2 ^ bits;
          indexEnd = sub64 (vm + sz) 1 div 2 ^ shift mod 2 ^ bits;
          maskedVm = vm mod 2 ^ (shift + bits)
      in mapLoop childMap newChild shift maskedVm sz [indexStart..<indexEnd + 1] (- 1) t a)"

fun walkLoop ::
  "(nat \<Rightarrow> nat \<Rightarrow> nat \<Rightarrow> 'c \<Rightarrow> PhysicalAddressAllocator \<Rightarrow> (walk_calls \<times> 'c \<times> PhysicalAddressAllocator) rt_result) \<Rightarrow> 'c
   \<Rightarrow> nat \<Rightarrow> nat \<Rightarrow> nat \<Rightarrow> nat list \<Rightarrow> nat \<Rightarrow> 'c table \<Rightarrow> PhysicalAddressAllocator
   \<Rightarrow> (walk_calls \<times> 'c table \<times> PhysicalAddressAllocator) rt_result" where
  "walkLoop childWalk newChild shift maskedVm sz [] offset t a = Inr ([], t, a)"
| "walkLoop childWalk newChild shift maskedVm sz (index # idxs) offset t a =
     (let child = (case t index of None \<Rightarrow> newChild | Some c \<Rightarrow> c);
          part = partSize shift maskedVm sz index
      in rt_bind (childWalk (vmStartOf shift maskedVm index) part offset child a)
           (\<lambda>(calls1, child, a).
              rt_bind (walkLoop childWalk newChild shift maskedVm sz idxs (offset + part) (t(index := Some child)) a)
                (\<lambda>(calls2, t, a). Inr (calls1 @ calls2, t, a))))"

definition PageTable_pageWalk ::
  "nat \<Rightarrow> nat \<Rightarrow> (nat \<Rightarrow> nat \<Rightarrow> nat \<Rightarrow> 'c \<Rightarrow> PhysicalAddressAllocator \<Rightarrow> (walk_calls \<times> 'c \<times> PhysicalAddressAllocator) rt_result) \<Rightarrow> 'c
   \<Rightarrow> nat \<Rightarrow> nat \<Rightarrow> nat \<Rightarrow> 'c table \<Rightarrow> PhysicalAddressAllocator
   \<Rightarrow> (walk_calls \<times> 'c table \<times> PhysicalAddressAllocator) rt_result" where
  "PageTable_pageWalk childBits bits childWalk newChild vm sz offset t a =
     (let shift = childBits + 12;
          indexStart = vm div 2 ^ shift mod 2 ^ bits;
          indexEnd = sub64 (vm + sz) 1 div 2 ^ shift mod 2 ^ bits;
          maskedVm = vm mod 2 ^ (shift + bits)
      in walkLoop childWalk newChild shift maskedVm sz [indexStart..<indexEnd + 1] offset t a)"

definition new_table :: "'c table" where "new_table = (\<lambda>_. None)"
definition new_leaf :: leaf where "new_leaf = (\<lambda>_. 0)"

definition PDE_pageWalk :: "u64 \<Rightarrow> nat \<Rightarrow> nat \<Rightarrow> nat \<Rightarrow> nat \<Rightarrow> leaf table \<Rightarrow> PhysicalAddressAllocator
   \<Rightarrow> (walk_calls \<times> leaf table \<times> PhysicalAddressAllocator) rt_result" where
  "PDE_pageWalk entryBits bank = PageTable_pageWalk 9 9 (PTE_pageWalk entryBits bank) new_leaf"

definition PDP_pageWalk :: "u64 \<Rightarrow> nat \<Rightarrow> nat \<Rightarrow> nat \<Rightarrow> nat \<Rightarrow> leaf table table \<Rightarrow> PhysicalAddressAllocator
   \<Rightarrow> (walk_calls \<times> leaf table table \<times> PhysicalAddressAllocator) rt_result" where
  "PDP_pageWalk entryBits bank = PageTable_pageWalk 18 9 (PDE_pageWalk entryBits bank) new_table"

definition PML4_pageWalk :: "u64 \<Rightarrow> nat \<Rightarrow> nat \<Rightarrow> nat \<Rightarrow> nat \<Rightarrow> leaf table table table \<Rightarrow> PhysicalAddressAllocator
   \<Rightarrow> (walk_calls \<times> leaf table table table \<times> PhysicalAddressAllocator) rt_result" where
  "PML4_pageWalk entryBits bank = PageTable_pageWalk 27 9 (PDP_pageWalk entryBits bank) new_table"

definition PDPE_pageWalk :: "u64 \<Rightarrow> nat \<Rightarrow> nat \<Rightarrow> nat \<Rightarrow> nat \<Rightarrow> leaf table table \<Rightarrow> PhysicalAddressAllocator
   \<Rightarrow> (walk_calls \<times> leaf table table \<times> PhysicalAddressAllocator) rt_result" where
  "PDPE_pageWalk entryBits bank = PageTable_pageWalk 18 2 (PDE_pageWalk entryBits bank) new_table"

definition PDE_map :: "u64 \<Rightarrow> nat \<Rightarrow> nat \<Rightarrow> nat \<Rightarrow> leaf table \<Rightarrow> PhysicalAddressAllocator
   \<Rightarrow> (u64 \<times> leaf table \<times> PhysicalAddressAllocator) rt_result" where
  "PDE_map entryBits bank = PageTable_map 9 9 (PTE_map entryBits bank) new_leaf"

definition PDP_map :: "u64 \<Rightarrow> nat \<Rightarrow> nat \<Rightarrow> nat \<Rightarrow> leaf table table \<Rightarrow> PhysicalAddressAllocator
   \<Rightarrow> (u64 \<times> leaf table table \<times> PhysicalAddressAllocator) rt_result" where
  "PDP_map entryBits bank = PageTable_map 18 9 (PDE_map entryBits bank) new_table"

definition PML4_map :: "u64 \<Rightarrow> nat \<Rightarrow> nat \<Rightarrow> nat \<Rightarrow> leaf table table table \<Rightarrow> PhysicalAddressAllocator
   \<Rightarrow> (u64 \<times> leaf table table table \<times> PhysicalAddressAllocator) rt_result" where
  "PML4_map entryBits bank = PageTable_map 27 9 (PDP_map entryBits bank) new_table"

section \<open>The flat reference table\<close>

text \<open>The reference walk is the loop over the pages of the range, on one table indexed by page number.\<close>

definition flatWalk ::
  "u64 \<Rightarrow> nat \<Rightarrow> nat \<Rightarrow> nat \<Rightarrow> nat \<Rightarrow> leaf \<Rightarrow> PhysicalAddressAllocator
   \<Rightarrow> (walk_calls \<times> leaf \<times> PhysicalAddressAllocator) rt_result" where
  "flatWalk entryBits bank v sz offset f a =
     PTE_walkLoop entryBits bank [v div 4096..<(v + sz - 1) div 4096 + 1] (v mod 4096) sz offset f a"

definition flat_table :: "nat \<Rightarrow> ('c \<Rightarrow> nat \<Rightarrow> u64) \<Rightarrow> 'c table \<Rightarrow> nat \<Rightarrow> u64" where
  "flat_table childBits flat t = (\<lambda>p. case t (p div 2 ^ childBits) of None \<Rightarrow> 0 | Some c \<Rightarrow> flat c (p mod 2 ^ childBits))"

definition through :: "('t \<Rightarrow> leaf) \<Rightarrow> (walk_calls \<times> 't \<times> PhysicalAddressAllocator) rt_result
   \<Rightarrow> (walk_calls \<times> leaf \<times> PhysicalAddressAllocator) rt_result" where
  "through flat r = map_sum id (\<lambda>(calls, t, a). (calls, flat t, a)) r"

definition PML4_flat :: "leaf table table table \<Rightarrow> leaf" where
  "PML4_flat = flat_table 27 (flat_table 18 (flat_table 9 id))"

text \<open>Tables reached by walks from the empty one, with a bound on the pages touched so far.\<close>

inductive walked :: "nat \<Rightarrow> leaf table table table \<Rightarrow> PhysicalAddressAllocator \<Rightarrow> bool" where
  start: "walked 1 new_table PhysicalAddressAllocator_ctor"
| step: "walked k t a \<Longrightarrow> 0 < sz \<Longrightarrow> vm + sz \<le> 2 ^ 48 \<Longrightarrow> PML4_pageWalk eb bk vm sz off t a = Inr (calls, t', a') \<Longrightarrow>
    walked (k + (sz div 4096 + 2)) t' a'"

definition frame :: "u64 \<Rightarrow> u64" where
  "frame entry = entry AND page4kEntryMask"

section \<open>Walking a part of the flat table\<close>

definition put :: "nat \<Rightarrow> nat \<Rightarrow> leaf \<Rightarrow> leaf \<Rightarrow> leaf" where
  "put base n f g = (\<lambda>p. if base \<le> p \<and> p < base + n then g (p - base) else f p)"

lemma walkLoop_shift:
  assumes "set qs \<subseteq> {..<n}" and "\<forall>q < n. g q = f (base + q)"
  shows "PTE_walkLoop eb bk (map ((+) base) qs) rm sz off f a = through (put base n f) (PTE_walkLoop eb bk qs rm sz off g a)"
  using assms
proof (induction qs arbitrary: rm sz off f g a)
  case Nil
  have "put base n f g p = f p" for p
    using Nil.prems(2) [rule_format, of "p - base"] by (auto simp: put_def)
  then have "put base n f g = f" by blast
  then show ?case by (simp add: through_def)
next
  case (Cons q qs)
  show ?case
  proof (cases "touchEntry eb bk (g q) a")
    case (Inl x)
    then show ?thesis using Cons.prems by (simp add: through_def)
  next
    case (Inr r)
    obtain e a1 where r: "r = (e, a1)" by (cases r)
    have IH: "PTE_walkLoop eb bk (map ((+) base) qs) rm' sz' off' (f(base + q := e)) a1 =
        through (put base n (f(base + q := e))) (PTE_walkLoop eb bk qs rm' sz' off' (g(q := e)) a1)" for rm' sz' off'
      using Cons.prems by (intro Cons.IH) auto
    have "put base n (f(base + q := e)) = put base n f"
      using Cons.prems(1) by (auto simp: put_def fun_eq_iff)
    then show ?thesis
      using Inr r Cons.prems IH
      by (cases "PTE_walkLoop eb bk qs 0 (sz - min (4096 - rm) sz) (off + min (4096 - rm) sz) (g(q := e)) a1")
         (auto simp: through_def Let_def)
  qed
qed

lemma walkLoop_append:
  assumes "ps \<noteq> []" and "rm < 4096" and "length ps * 4096 - rm \<le> sz"
  shows "PTE_walkLoop eb bk (ps @ qs) rm sz off f a =
    rt_bind (PTE_walkLoop eb bk ps rm (length ps * 4096 - rm) off f a) (\<lambda>(c1, f1, a1).
    rt_bind (PTE_walkLoop eb bk qs 0 (sz - (length ps * 4096 - rm)) (off + (length ps * 4096 - rm)) f1 a1)
      (\<lambda>(c2, f2, a2). Inr (c1 @ c2, f2, a2)))"
  using assms
proof (induction ps arbitrary: rm sz off f a)
  case (Cons p ps)
  show ?case
  proof (cases "touchEntry eb bk (f p) a")
    case (Inl x)
    then show ?thesis by simp
  next
    case (Inr r)
    obtain e a1 where r: "r = (e, a1)" by (cases r)
    have m: "min (4096 - rm) sz = 4096 - rm" "min (4096 - rm) (length (p # ps) * 4096 - rm) = 4096 - rm"
      using Cons.prems by auto
    have d: "length (p # ps) * 4096 - rm - (4096 - rm) = length ps * 4096"
      "sz - (4096 - rm) - length ps * 4096 = sz - (length (p # ps) * 4096 - rm)"
      "off + (4096 - rm) + length ps * 4096 = off + (length (p # ps) * 4096 - rm)"
      using Cons.prems by auto
    define call where "call = (((e AND page4kEntryMask) AND NOT 1) + of_nat rm, 4096 - rm, off, e AND 0xFFF)"
    have one: "PTE_walkLoop eb bk (p # xs) rm z off f a =
        rt_bind (PTE_walkLoop eb bk xs 0 (z - (4096 - rm)) (off + (4096 - rm)) (f(p := e)) a1)
          (\<lambda>(c, t, a). Inr (call # c, t, a))" if "min (4096 - rm) z = 4096 - rm" for xs z
      using that by (simp add: Inr r Let_def call_def)
    have rest: "PTE_walkLoop eb bk (ps @ qs) 0 (sz - (4096 - rm)) (off + (4096 - rm)) (f(p := e)) a1 =
        rt_bind (PTE_walkLoop eb bk ps 0 (length ps * 4096) (off + (4096 - rm)) (f(p := e)) a1) (\<lambda>(c1, f1, a1).
        rt_bind (PTE_walkLoop eb bk qs 0 (sz - (length (p # ps) * 4096 - rm)) (off + (length (p # ps) * 4096 - rm)) f1 a1)
          (\<lambda>(c2, f2, a2). Inr (c1 @ c2, f2, a2)))"
    proof (cases "ps = []")
      case True
      then show ?thesis by (simp add: rt_bind_def split: sum.split)
    next
      case False
      have "length ps * 4096 - 0 \<le> sz - (4096 - rm)" using Cons.prems by auto
      from Cons.IH [OF False _ this, of "off + (4096 - rm)" "f(p := e)" a1] show ?thesis
        by (simp only: d diff_zero)
    qed
    show ?thesis
      unfolding append_Cons one [OF m(1)] one [OF m(2)] d rest
      by (cases "PTE_walkLoop eb bk ps 0 (length ps * 4096) (off + (4096 - rm)) (f(p := e)) a1")
         (auto simp: rt_bind_def split: sum.split)
  qed
qed simp

lemma flat_table_put:
  "flat_table b fl (t(i := Some c)) = put (i * 2 ^ b) (2 ^ b) (flat_table b fl t) (fl c)"
proof
  fix p
  have d: "p div 2 ^ b = i \<longleftrightarrow> i * 2 ^ b \<le> p \<and> p < i * 2 ^ b + 2 ^ b"
    by (metis add.commute div_nat_eqI dividend_less_times_div le_add1 less_eq_div_iff_mult_less_eq mult.commute mult_Suc mult_Suc_right order_refl zero_less_numeral zero_less_power div_less_iff_less_mult)
  moreover have "p mod 2 ^ b = p - i * 2 ^ b" if "p div 2 ^ b = i"
    using that by (metis minus_div_mult_eq_mod)
  ultimately show "flat_table b fl (t(i := Some c)) p = put (i * 2 ^ b) (2 ^ b) (flat_table b fl t) (fl c) p"
    by (auto simp: flat_table_def put_def)
qed

lemma sub64_1:
  assumes "0 < n" "n \<le> 18446744073709551616"
  shows "sub64 n 1 = n - 1"
proof -
  have "n + 18446744073709551616 - 1 = (n - 1) + 18446744073709551616" using assms by simp
  then have "sub64 n 1 = (n - 1) mod 18446744073709551616" by (simp only: sub64_def mod_add_self2)
  then show ?thesis using assms by simp
qed

lemma sub64_le: "b \<le> a \<Longrightarrow> a < 18446744073709551616 \<Longrightarrow> sub64 a b = a - b"
proof -
  assume "b \<le> a" "a < 18446744073709551616"
  then have "a + 18446744073709551616 - b = (a - b) + 18446744073709551616" by simp
  then have "sub64 a b = (a - b) mod 18446744073709551616" by (simp only: sub64_def mod_add_self2)
  then show ?thesis using \<open>a < 18446744073709551616\<close> by simp
qed

lemma map_plus_upt: "map ((+) k) [a..<c] = [k + a..<k + c]"
  by (induction c) auto

section \<open>Every level implements the flat walk\<close>

locale page_level =
  fixes b :: nat and walk :: "nat \<Rightarrow> nat \<Rightarrow> nat \<Rightarrow> 't \<Rightarrow> PhysicalAddressAllocator
      \<Rightarrow> (walk_calls \<times> 't \<times> PhysicalAddressAllocator) rt_result"
    and fl :: "'t \<Rightarrow> leaf" and fresh :: 't and eb :: u64 and bk :: nat
  assumes fl_fresh: "fl fresh = (\<lambda>_. 0)"
    and walk_flat: "0 < sz \<Longrightarrow> vm mod 2 ^ (b + 12) + sz \<le> 2 ^ (b + 12) \<Longrightarrow> vm + sz < 18446744073709551616 \<Longrightarrow>
      through fl (walk vm sz off t a) = flatWalk eb bk (vm mod 2 ^ (b + 12)) sz off (fl t) a"
begin

lemma child_flat:
  "q < 2 ^ b \<Longrightarrow> fl (case t i of None \<Rightarrow> fresh | Some c \<Rightarrow> c) q = flat_table b fl t (i * 2 ^ b + q)"
  by (simp add: flat_table_def fl_fresh split: option.split)

lemma pages_under_index:
  assumes "q0 < 2 ^ (b + 12)" "0 < part" "q0 + part \<le> 2 ^ (b + 12)"
  shows "[(2 ^ (b + 12) * i + q0) div 4096..<(2 ^ (b + 12) * i + q0 + part - 1) div 4096 + 1] =
    map ((+) (i * 2 ^ b)) [q0 div 4096..<(q0 + part - 1) div 4096 + 1]"
    and "set [q0 div 4096..<(q0 + part - 1) div 4096 + 1] \<subseteq> {..<2 ^ b}"
proof -
  have base: "(2 :: nat) ^ (b + 12) * i = 4096 * (i * 2 ^ b)" by (simp add: power_add)
  have "(2 ^ (b + 12) * i + x) div 4096 = i * 2 ^ b + x div 4096" for x :: nat
    unfolding base by simp
  moreover have "2 ^ (b + 12) * i + q0 + part - 1 = 2 ^ (b + 12) * i + (q0 + part - 1)" using assms(2) by simp
  ultimately show "[(2 ^ (b + 12) * i + q0) div 4096..<(2 ^ (b + 12) * i + q0 + part - 1) div 4096 + 1] =
    map ((+) (i * 2 ^ b)) [q0 div 4096..<(q0 + part - 1) div 4096 + 1]"
    by (simp add: map_plus_upt del: upt_Suc)
  have "(q0 + part - 1) div 4096 < 2 ^ b" using assms by (simp add: div_less_iff_less_mult power_add)
  then show "set [q0 div 4096..<(q0 + part - 1) div 4096 + 1] \<subseteq> {..<2 ^ b}" by auto
qed

text \<open>One child walk is the flat walk of the pages under its index.\<close>

lemma child_walk:
  assumes "q0 < 2 ^ (b + 12)" "0 < part" "q0 + part \<le> 2 ^ (b + 12)"
    "2 ^ (b + 12) * i + q0 + part < 18446744073709551616"
  shows "flatWalk eb bk (2 ^ (b + 12) * i + q0) part off (flat_table b fl t) a =
    through (\<lambda>c. flat_table b fl (t(i := Some c)))
      (walk (2 ^ (b + 12) * i + q0) part off (case t i of None \<Rightarrow> fresh | Some c \<Rightarrow> c) a)"
proof -
  let ?c = "case t i of None \<Rightarrow> fresh | Some c \<Rightarrow> c"
  have m: "(2 ^ (b + 12) * i + q0) mod 2 ^ (b + 12) = q0" using assms(1) by simp
  have r: "(2 ^ (b + 12) * i + q0) mod 4096 = q0 mod 4096"
    by (simp add: power_add mult.assoc) (metis mod_mult_self4 mult.commute mult.left_commute)
  have "flatWalk eb bk (2 ^ (b + 12) * i + q0) part off (flat_table b fl t) a =
      through (put (i * 2 ^ b) (2 ^ b) (flat_table b fl t)) (flatWalk eb bk q0 part off (fl ?c) a)"
    unfolding flatWalk_def r pages_under_index(1) [OF assms(1-3)]
    by (rule walkLoop_shift [OF pages_under_index(2) [OF assms(1-3)]]) (simp add: child_flat)
  also have "flatWalk eb bk q0 part off (fl ?c) a = through fl (walk (2 ^ (b + 12) * i + q0) part off ?c a)"
    using walk_flat [of part "2 ^ (b + 12) * i + q0"] assms m by simp
  finally show ?thesis
    by (simp add: through_def flat_table_put sum.map_comp o_def case_prod_unfold id_def)
qed

lemma flatWalk_split:
  assumes "v < w" "w mod 4096 = 0" "w < v + sz"
  shows "flatWalk eb bk v sz off f a =
    rt_bind (flatWalk eb bk v (w - v) off f a) (\<lambda>(c1, f1, a1).
    rt_bind (flatWalk eb bk w (v + sz - w) (off + (w - v)) f1 a1) (\<lambda>(c2, f2, a2). Inr (c1 @ c2, f2, a2)))"
proof -
  obtain k where k: "w = 4096 * k" using assms(2) by (metis dvdE mod_eq_0_iff_dvd)
  have wk: "(w - 1) div 4096 + 1 = k" using assms(1) k by (cases k) auto
  have v: "v div 4096 < k" using assms(1) k by (simp add: div_less_iff_less_mult mult.commute)
  let ?e = "(v + sz - 1) div 4096 + 1"
  have e: "k < ?e" using assms(3) k by (simp add: less_Suc_eq_le less_eq_div_iff_mult_less_eq mult.commute)
  have len: "length [v div 4096..<k] * 4096 - v mod 4096 = w - v"
    using k v assms(1) by (simp add: diff_mult_distrib)
  have pages: "[v div 4096..<?e] = [v div 4096..<k] @ [k..<?e]"
    using v e by (metis le_add_diff_inverse less_imp_le_nat upt_add_eq_append)
  have rest: "w div 4096 = k" "w mod 4096 = 0" "w + (v + sz - w) - 1 = v + sz - 1" "v + (w - v) - 1 = w - 1"
    "sz - (w - v) = v + sz - w"
    using assms k by simp_all
  have "w - v \<le> sz" using assms by simp
  then show ?thesis
    using walkLoop_append [of "[v div 4096..<k]" "v mod 4096" sz eb bk "[k..<?e]" off f a] v
    unfolding flatWalk_def rest wk pages len by simp
qed

text \<open>The loop of the next level, from the index \<open>i\<close> on.\<close>

lemma level_loop:
  assumes "v div 2 ^ (b + 12) \<le> i" "i \<le> (v + sz - 1) div 2 ^ (b + 12)" "0 < sz" "v + sz < 18446744073709551616"
  shows "through (flat_table b fl)
      (walkLoop walk fresh (b + 12) v sz [i..<(v + sz - 1) div 2 ^ (b + 12) + 1] off t a) =
    flatWalk eb bk (max (2 ^ (b + 12) * i) v) (v + sz - max (2 ^ (b + 12) * i) v) off (flat_table b fl t) a"
  using assms(1,2)
proof (induction "(v + sz - 1) div 2 ^ (b + 12) - i" arbitrary: i off t a)
  case 0
  let ?s = "2 ^ (b + 12) :: nat"
  let ?e = "(v + sz - 1) div ?s"
  have e: "i = ?e" using 0 by simp
  define cur where "cur = max (?s * i) v"
  have "?s * i \<le> v + sz - 1" unfolding e by (rule times_div_less_eq_dividend)
  then have lo: "?s * i \<le> cur" "cur < v + sz" "v \<le> cur"
    using assms(3) by (auto simp: cur_def)
  have hi: "v + sz \<le> ?s * (i + 1)" 
    using dividend_less_times_div [of ?s "v + sz - 1"] assms(3) by (simp add: e)
  have vE: "vmEndOf (b + 12) v sz i = v + sz - 1"
    using hi sub64_1 [of "v + sz"] assms(3,4) by (simp add: vmEndOf_def)
  have part: "partSize (b + 12) v sz i = v + sz - cur"
  proof -
    have "sub64 (v + sz - 1) cur + 1 = v + sz - cur" using lo assms(4) sub64_le [of cur "v + sz - 1"] by simp
    then show ?thesis using assms(4) unfolding partSize_def vE vmStartOf_def cur_def [symmetric] by simp
  qed
  have q: "cur = ?s * i + (cur - ?s * i)" "cur - ?s * i < ?s" "0 < v + sz - cur" "cur - ?s * i + (v + sz - cur) \<le> ?s"
    "?s * i + (cur - ?s * i) + (v + sz - cur) < 18446744073709551616"
    using lo hi assms(4) by (auto simp: algebra_simps)
  have cw: "flatWalk eb bk cur (v + sz - cur) off (flat_table b fl t) a =
    through (\<lambda>c. flat_table b fl (t(i := Some c))) (walk cur (v + sz - cur) off (case t i of None \<Rightarrow> fresh | Some c \<Rightarrow> c) a)"
    using child_walk [OF q(2-5), of off t a] q(1) by simp
  have idx: "[i..<?e + 1] = [i]" using e by simp
  show ?case
    unfolding cur_def [symmetric] cw idx walkLoop.simps Let_def vmStartOf_def part
    by (auto simp: through_def rt_bind_def split: sum.split)
next
  case (Suc x)
  let ?s = "2 ^ (b + 12) :: nat"
  let ?e = "(v + sz - 1) div ?s"
  have e: "i < ?e" using Suc.hyps(2) by simp
  define cur where "cur = max (?s * i) v"
  define w where "w = ?s * (i + 1)"
  have vw: "v < w" using Suc.prems(1) unfolding w_def by (metis div_less_iff_less_mult less_Suc_eq_le mult.commute Suc_eq_plus1 zero_less_numeral zero_less_power)
  have "?s * (i + 1) \<le> ?s * ?e" using e by (intro mult_le_mono2) simp
  also have "\<dots> \<le> v + sz - 1" by (rule times_div_less_eq_dividend)
  finally have we: "w < v + sz" using assms(3) by (simp add: w_def)
  have lo: "?s * i \<le> cur" "cur < w" "v \<le> cur" using vw by (auto simp: cur_def w_def)
  have vE: "vmEndOf (b + 12) v sz i = w - 1"
    using we sub64_1 [of "v + sz"] assms(3,4) by (simp add: vmEndOf_def w_def)
  have part: "partSize (b + 12) v sz i = w - cur"
  proof -
    have "sub64 (w - 1) cur + 1 = w - cur" using lo we assms(4) sub64_le [of cur "w - 1"] by simp
    then show ?thesis using we assms(4) unfolding partSize_def vE vmStartOf_def cur_def [symmetric] by simp
  qed
  have q: "cur = ?s * i + (cur - ?s * i)" "cur - ?s * i < ?s" "0 < w - cur" "cur - ?s * i + (w - cur) \<le> ?s"
    "?s * i + (cur - ?s * i) + (w - cur) < 18446744073709551616"
    using lo we assms(4) by (auto simp: w_def)
  have w0: "w mod 4096 = 0" by (simp add: w_def power_add)
  have idx: "[i..<?e + 1] = i # [i + 1..<?e + 1]" using e by (simp add: upt_conv_Cons)
  have IH: "through (flat_table b fl) (walkLoop walk fresh (b + 12) v sz [i + 1..<?e + 1] off' t' a') =
      flatWalk eb bk w (v + sz - w) off' (flat_table b fl t') a'" for off' t' a'
    using Suc.hyps(1) [of "i + 1" off' t' a'] Suc.hyps(2) Suc.prems(1) e vw by (simp add: w_def max_def)
  have sp: "flatWalk eb bk cur (v + sz - cur) off (flat_table b fl t) a =
    rt_bind (flatWalk eb bk cur (w - cur) off (flat_table b fl t) a) (\<lambda>(c1, f1, a1).
    rt_bind (flatWalk eb bk w (v + sz - w) (off + (w - cur)) f1 a1) (\<lambda>(c2, f2, a2). Inr (c1 @ c2, f2, a2)))"
    using flatWalk_split [of cur w "v + sz - cur"] lo we w0 by simp
  have cw: "flatWalk eb bk cur (w - cur) off (flat_table b fl t) a =
    through (\<lambda>c. flat_table b fl (t(i := Some c))) (walk cur (w - cur) off (case t i of None \<Rightarrow> fresh | Some c \<Rightarrow> c) a)"
    using child_walk [OF q(2-5), of off t a] q(1) by simp
  show ?case
    unfolding cur_def [symmetric] sp cw idx walkLoop.simps Let_def vmStartOf_def part IH [symmetric]
    by (auto simp: through_def rt_bind_def case_prod_unfold IH [unfolded through_def, symmetric] split: sum.split)
qed

lemma level_up:
  assumes "0 < sz" "vm mod 2 ^ (b + 12 + bits) + sz \<le> 2 ^ (b + 12 + bits)" "vm + sz < 18446744073709551616"
  shows "through (flat_table b fl) (PageTable_pageWalk b bits walk fresh vm sz off t a) =
    flatWalk eb bk (vm mod 2 ^ (b + 12 + bits)) sz off (flat_table b fl t) a"
proof -
  let ?s = "2 ^ (b + 12) :: nat"
  define v where "v = vm mod 2 ^ (b + 12 + bits)"
  have idx: "n div ?s mod 2 ^ bits = n mod 2 ^ (b + 12 + bits) div ?s" for n :: nat
    unfolding power_add [of 2 "b + 12" bits] mod_mult2_eq by simp
  have "vm + sz - 1 = vm div 2 ^ (b + 12 + bits) * 2 ^ (b + 12 + bits) + (v + sz - 1)"
    using assms(1) div_mult_mod_eq [of vm "2 ^ (b + 12 + bits)"] unfolding v_def by linarith
  moreover have "v + sz - 1 < 2 ^ (b + 12 + bits)" using assms(1,2) unfolding v_def by linarith
  ultimately have "(vm + sz - 1) mod 2 ^ (b + 12 + bits) = v + sz - 1" by simp
  then have e: "sub64 (vm + sz) 1 div ?s mod 2 ^ bits = (v + sz - 1) div ?s"
    using sub64_1 [of "vm + sz"] assms(1,3) idx by simp
  have "v \<le> vm" by (simp add: v_def)
  then have "v + sz < 18446744073709551616" using assms(3) by linarith
  moreover have "v div ?s \<le> (v + sz - 1) div ?s" using assms(1) by (intro div_le_mono) simp
  moreover have "max (?s * (v div ?s)) v = v" by (simp add: max_def)
  ultimately show ?thesis
    using level_loop [of v "v div ?s" sz off t a] assms(1)
    unfolding PageTable_pageWalk_def Let_def e idx [of vm] v_def [symmetric] by simp
qed

lemma fresh_up: "flat_table b fl new_table = (\<lambda>_. 0)"
  by (simp add: flat_table_def new_table_def)

end

interpretation pte: page_level 9 "PTE_pageWalk eb bk" id new_leaf eb bk for eb bk
proof unfold_locales
  show "id new_leaf = (\<lambda>_. 0)" by (simp add: new_leaf_def)
  fix sz vm off :: nat and t :: leaf and a
  assume h: "0 < sz" "vm mod 2 ^ (9 + 12) + sz \<le> 2 ^ (9 + 12)" "vm + sz < 18446744073709551616"
  let ?v = "vm mod 2 ^ (9 + 12)"
  have idx: "n div 2 ^ 12 mod 2 ^ 9 = n mod 2 ^ (9 + 12) div (4096 :: nat)" for n :: nat
    using mod_mult2_eq [of n "2 ^ 12" "2 ^ 9"] by simp
  have "vm + sz - 1 = vm div 2 ^ (9 + 12) * 2 ^ (9 + 12) + (?v + sz - 1)"
    using h(1) div_mult_mod_eq [of vm "2 ^ (9 + 12)"] by linarith
  moreover have "?v + sz - 1 < 2 ^ (9 + 12)" using h(1,2) by linarith
  ultimately have "(vm + sz - 1) mod 2 ^ (9 + 12) = ?v + sz - 1" by simp
  then have "sub64 (vm + sz) 1 div 2 ^ 12 mod 2 ^ 9 = (?v + sz - 1) div 4096"
    using sub64_1 [of "vm + sz"] h idx [of "vm + sz - 1"] by simp
  moreover have "?v mod 4096 = vm mod 4096" using mod_mod_cancel [of 4096 "2 ^ (9 + 12)" vm] by simp
  ultimately show "through id (PTE_pageWalk eb bk vm sz off t a) = flatWalk eb bk ?v sz off (id t) a"
    using idx [of vm]
    by (simp add: PTE_pageWalk_def flatWalk_def through_def Let_def id_def sum.map_ident del: upt_Suc)
qed

lemma flat_PDE:
  "0 < sz \<Longrightarrow> vm mod 2 ^ (18 + 12) + sz \<le> 2 ^ (18 + 12) \<Longrightarrow> vm + sz < 18446744073709551616 \<Longrightarrow>
   through (flat_table 9 id) (PDE_pageWalk eb bk vm sz off t a) = flatWalk eb bk (vm mod 2 ^ (18 + 12)) sz off (flat_table 9 id t) a"
  using pte.level_up [where bits = 9] by (simp add: PDE_pageWalk_def)

interpretation pde: page_level 18 "PDE_pageWalk eb bk" "flat_table 9 id" new_table eb bk for eb bk
  by unfold_locales (use flat_PDE pte.fresh_up in blast)+

lemma flat_PDP:
  "0 < sz \<Longrightarrow> vm mod 2 ^ (27 + 12) + sz \<le> 2 ^ (27 + 12) \<Longrightarrow> vm + sz < 18446744073709551616 \<Longrightarrow>
   through (flat_table 18 (flat_table 9 id)) (PDP_pageWalk eb bk vm sz off t a) =
   flatWalk eb bk (vm mod 2 ^ (27 + 12)) sz off (flat_table 18 (flat_table 9 id) t) a"
  using pde.level_up [where bits = 9] by (simp add: PDP_pageWalk_def)

interpretation pdp: page_level 27 "PDP_pageWalk eb bk" "flat_table 18 (flat_table 9 id)" new_table eb bk for eb bk
  by unfold_locales (use flat_PDP pde.fresh_up in blast)+

section \<open>Physical frames\<close>

definition frames_inv :: "nat \<Rightarrow> leaf \<Rightarrow> PhysicalAddressAllocator \<Rightarrow> bool" where
  "frames_inv k f a \<longleftrightarrow> 1 \<le> k \<and> mainAllocator a = of_nat (4096 * k) \<and>
     (\<forall>p. f p \<noteq> 0 \<longrightarrow> (\<exists>j < k. frame (f p) = of_nat (4096 * j))) \<and>
     (\<forall>p q. f p \<noteq> 0 \<longrightarrow> f q \<noteq> 0 \<longrightarrow> frame (f p) = frame (f q) \<longrightarrow> p = q)"

lemma page4kEntryMask_eq: "page4kEntryMask = NOT (mask 12)"
  by (simp add: page4kEntryMask_def mask_eq_exp_minus_1)

lemma newEntryBits_bits: "newEntryBits eb AND page4kEntryMask = 0" "bit (newEntryBits eb) 0"
proof -
  have m: "(0xFFF :: u64) = mask 12" by (simp add: mask_eq_exp_minus_1)
  show "newEntryBits eb AND page4kEntryMask = 0"
    unfolding newEntryBits_def m page4kEntryMask_eq by (rule bit_word_eqI) (auto simp: bit_simps)
  show "bit (newEntryBits eb) 0" by (simp add: newEntryBits_def bit_simps)
qed

lemma frame_or: "frame (x OR newEntryBits eb) = frame x"
  using newEntryBits_bits(1) [of eb] by (simp add: frame_def bit.conj_disj_distrib2)

lemma or_newEntryBits_nonzero: "x OR newEntryBits eb \<noteq> 0"
  using newEntryBits_bits(2) [of eb] by (metis bit_or_iff bit_0_eq bot_apply bot_bool_def)

lemma frame_frame: "frame (x AND page4kEntryMask) = frame x"
  by (simp add: frame_def and.assoc)

lemma frame_page: "frame (of_nat (4096 * k)) = of_nat (4096 * k)"
proof -
  have "of_nat (4096 * k) = push_bit 12 (of_nat k :: u64)" by (simp add: push_bit_eq_mult)
  then show ?thesis
    unfolding frame_def page4kEntryMask_eq by (simp only:) (rule bit_word_eqI, auto simp: bit_simps)
qed

lemma unat_page:
  assumes "k < 2 ^ 51"
  shows "unat (of_nat (4096 * k) :: u64) = 4096 * k"
proof -
  have "4096 * k < 2 ^ 64" using assms by simp
  then show ?thesis unfolding unat_of_nat by (simp add: take_bit_nat_eq_self)
qed

lemma reserve4kPage_page:
  assumes "mainAllocator a = of_nat (4096 * k)" "k < 2 ^ 51" "reserve4kPage bk a = Inr (x, a')"
  shows "x = of_nat (4096 * k) \<and> mainAllocator a' = of_nat (4096 * (k + 1))"
proof -
  have "unat (mainAllocator a) = 4096 * k" using assms(1,2) by (simp only: unat_page)
  then have "unat (alignUp (mainAllocator a) (2 ^ 12)) = (4096 * k + (4096 - 1)) div 4096 * 4096"
    using unat_alignUp [of 12 "mainAllocator a"] assms(2) by simp
  also have "\<dots> = 4096 * k" by simp
  finally have "alignUp (mainAllocator a) 0x1000 = mainAllocator a"
    using \<open>unat (mainAllocator a) = 4096 * k\<close> by (simp add: unat_eq_iff)
  then show ?thesis
    using assms(1,3) by (auto simp: reserve4kPage_def reservePage_def Let_def algebra_simps)
qed

lemma touchEntry_inv:
  assumes i: "frames_inv k f a" and b: "k < 2 ^ 51" and t: "touchEntry eb bk (f p) a = Inr (e, a')"
  shows "e \<noteq> 0 \<and> (f p \<noteq> 0 \<longrightarrow> frame e = frame (f p)) \<and> (\<exists>k' \<le> k + 1. frames_inv k' (f(p := e)) a')"
proof (cases "f p = 0")
  case True
  then obtain x where x: "reserve4kPage bk a = Inr (x, a')" "e = x OR newEntryBits eb"
    using t by (auto simp: touchEntry_def)
  have r: "x = of_nat (4096 * k)" "mainAllocator a' = of_nat (4096 * (k + 1))"
    using reserve4kPage_page [OF _ b x(1)] i by (auto simp: frames_inv_def)
  have fe: "frame e = of_nat (4096 * k)" by (simp only: x(2) frame_or r(1) frame_page)
  have new: "frame (f q) \<noteq> of_nat (4096 * k)" if nz: "f q \<noteq> 0" for q
  proof
    assume "frame (f q) = of_nat (4096 * k)"
    moreover obtain j where j: "j < k" "frame (f q) = of_nat (4096 * j)" using i nz unfolding frames_inv_def by blast
    ultimately have "unat (of_nat (4096 * j) :: u64) = unat (of_nat (4096 * k) :: u64)" by (simp only:)
    moreover have "j < 2 ^ 51" using j(1) b by (rule less_trans)
    ultimately show False using j(1) b by (simp only: unat_page)
  qed
  have "frames_inv (k + 1) (f(p := e)) a'"
    unfolding frames_inv_def
  proof (intro conjI allI impI)
    show "\<exists>j < k + 1. frame ((f(p := e)) q) = of_nat (4096 * j)" if nz: "(f(p := e)) q \<noteq> 0" for q
    proof (cases "q = p")
      case True
      then show ?thesis using fe by (intro exI [of _ k]) simp
    next
      case False
      then have "f q \<noteq> 0" using nz by simp
      then obtain j where "j < k" "frame (f q) = of_nat (4096 * j)" using i unfolding frames_inv_def by blast
      then show ?thesis using False by (intro exI [of _ j]) simp
    qed
    show "q = r" if "(f(p := e)) q \<noteq> 0" "(f(p := e)) r \<noteq> 0" "frame ((f(p := e)) q) = frame ((f(p := e)) r)" for q r
      using i fe new that by (cases "q = p"; cases "r = p") (auto simp: frames_inv_def)
  qed (use i r in \<open>simp_all add: frames_inv_def\<close>)
  then show ?thesis using True x(2) or_newEntryBits_nonzero by auto
next
  case False
  then have e: "e \<noteq> 0 \<and> frame e = frame (f p) \<and> a' = a"
    using t or_newEntryBits_nonzero
    by (auto simp: touchEntry_def frame_or frame_frame split: if_splits)
  have "frames_inv k (f(p := e)) a'"
    using i e False unfolding frames_inv_def by (auto split: if_splits)
  then have "\<exists>k' \<le> k + 1. frames_inv k' (f(p := e)) a'" by (intro exI [of _ k]) simp
  then show ?thesis using e by simp
qed

lemma walkLoop_frames:
  assumes "frames_inv k f a" "k + length ps < 2 ^ 51" "PTE_walkLoop eb bk ps rm sz off f a = Inr (c, f', a')"
  shows "(\<exists>k' \<le> k + length ps. frames_inv k' f' a') \<and> (\<forall>p \<in> set ps. f' p \<noteq> 0) \<and>
    (\<forall>p. f p \<noteq> 0 \<longrightarrow> f' p \<noteq> 0 \<and> frame (f' p) = frame (f p)) \<and> (\<forall>p. p \<notin> set ps \<longrightarrow> f' p = f p)"
  using assms
proof (induction ps arbitrary: k f a rm sz off c)
  case Nil
  then show ?case by auto
next
  case (Cons p ps)
  obtain e a1 c1 where t: "touchEntry eb bk (f p) a = Inr (e, a1)"
    and r: "PTE_walkLoop eb bk ps 0 (sz - min (4096 - rm) sz) (off + min (4096 - rm) sz) (f(p := e)) a1 = Inr (c1, f', a')"
    using Cons.prems(3) by (auto simp: Let_def)
  obtain k1 where k1: "e \<noteq> 0" "f p \<noteq> 0 \<longrightarrow> frame e = frame (f p)" "k1 \<le> k + 1" "frames_inv k1 (f(p := e)) a1"
    using touchEntry_inv [OF Cons.prems(1) _ t] Cons.prems(2) by auto
  have "k1 + length ps < 2 ^ 51" using k1(3) Cons.prems(2) by simp
  note IH = Cons.IH [OF k1(4) this r]
  then obtain k2 where "k2 \<le> k1 + length ps" "frames_inv k2 f' a'" by blast
  then have "\<exists>k' \<le> k + length (p # ps). frames_inv k' f' a'"
    using k1(3) by (intro exI [of _ k2]) simp
  then show ?case using IH k1(1,2) by (auto split: if_splits)
qed

lemma walkLoop_untouched:
  "PTE_walkLoop eb bk ps rm sz off f a = Inr (c, f', a') \<Longrightarrow> p \<notin> set ps \<Longrightarrow> f' p = f p"
proof (induction ps arbitrary: rm sz off f a c)
  case (Cons q ps)
  then obtain e a1 c1 where "PTE_walkLoop eb bk ps 0 (sz - min (4096 - rm) sz) (off + min (4096 - rm) sz) (f(q := e)) a1 = Inr (c1, f', a')"
    by (auto simp: Let_def)
  from Cons.IH [OF this] Cons.prems(2) show ?case by simp
qed simp

lemma walkLoop_covers:
  assumes "PTE_walkLoop eb bk [P..<Q] rm sz off f a = Inr (c, f', a')" "rm < 4096" "sz + rm \<le> (Q - P) * 4096" "i < sz"
  shows "\<exists>(addr, len, offset, bits) \<in> set c. offset \<le> off + i \<and> off + i < offset + len \<and>
    addr + of_nat (off + i - offset) = frame (f' ((P * 4096 + rm + i) div 4096)) + of_nat ((P * 4096 + rm + i) mod 4096)"
  using assms
proof (induction "Q - P" arbitrary: P rm sz off f a c i)
  case 0
  then show ?case by simp
next
  case (Suc n)
  have PQ: "[P..<Q] = P # [P + 1..<Q]" using Suc.hyps(2) by (simp add: upt_conv_Cons)
  obtain e a1 c1 where t: "touchEntry eb bk (f P) a = Inr (e, a1)"
    and r: "PTE_walkLoop eb bk [P + 1..<Q] 0 (sz - min (4096 - rm) sz) (off + min (4096 - rm) sz) (f(P := e)) a1 = Inr (c1, f', a')"
    and c: "c = (((e AND page4kEntryMask) AND NOT 1) + of_nat rm, min (4096 - rm) sz, off, e AND 0xFFF) # c1"
    using Suc.prems(1) unfolding PQ by (auto simp: Let_def)
  show ?case
  proof (cases "i < min (4096 - rm) sz")
    case True
    have "f' P = (f(P := e)) P"
      using r by (rule walkLoop_untouched) simp
    moreover have "(P * 4096 + (rm + i)) div 4096 = P" "(P * 4096 + (rm + i)) mod 4096 = rm + i"
      using True by (simp_all add: div_less mod_less less_diff_conv)
    moreover have "(e AND page4kEntryMask) AND NOT 1 = frame e"
      unfolding frame_def page4kEntryMask_eq by (rule bit_word_eqI) (auto simp: bit_simps)
    ultimately show ?thesis using True by (auto simp: c algebra_simps)
  next
    case False
    then have ls: "min (4096 - rm) sz = 4096 - rm" "4096 - rm \<le> i" using Suc.prems(4) by auto
    have at: "(P + 1) * 4096 + 0 + (i - (4096 - rm)) = P * 4096 + rm + i" "off + (4096 - rm) + (i - (4096 - rm)) = off + i"
      using ls Suc.prems(2) by auto
    have n: "n = Q - (P + 1)" "(0 :: nat) < 4096" using Suc.hyps(2) by simp_all
    have "(Q - P) * 4096 = (Q - (P + 1)) * 4096 + 4096" using Suc.hyps(2) n(1) by simp
    then have b: "sz - (4096 - rm) + 0 \<le> (Q - (P + 1)) * 4096" "i - (4096 - rm) < sz - (4096 - rm)"
      using Suc.prems(2-4) ls(2) by linarith+
    from Suc.hyps(1) [OF n(1) r [unfolded ls(1)] n(2) b]
    show ?thesis unfolding at c by (simp only: list.set bex_simps) blast
  qed
qed

lemma PML4_walk_flat:
  assumes "0 < sz" "vm + sz \<le> 2 ^ 48"
  shows "through PML4_flat (PML4_pageWalk eb bk vm sz off t a) = flatWalk eb bk vm sz off (PML4_flat t) a"
proof -
  have "vm mod 2 ^ (27 + 12 + 9) = vm" using assms by simp
  then show ?thesis
    using pdp.level_up [where bits = 9 and vm = vm and sz = sz and off = off and t = t and a = a and eb = eb and bk = bk] assms
    by (simp add: PML4_pageWalk_def PML4_flat_def)
qed

lemma walkLoop_returns: "\<exists>c f' a'. PTE_walkLoop eb 0 ps rm sz off f a = Inr (c, f', a')"
proof (induction ps arbitrary: rm sz off f a)
  case (Cons p ps)
  obtain e a1 where "touchEntry eb 0 (f p) a = Inr (e, a1)"
    by (cases "f p = 0"; cases "eb = nonValidBits") (auto simp: touchEntry_def reserve4kPage_def reservePage_def Let_def)
  moreover obtain c f' a' where
    "PTE_walkLoop eb 0 ps 0 (sz - min (4096 - rm) sz) (off + min (4096 - rm) sz) (f(p := e)) a1 = Inr (c, f', a')"
    using Cons.IH by blast
  ultimately show ?case by (simp add: Let_def)
qed simp

lemma flat_result:
  assumes "0 < sz" "vm + sz \<le> 2 ^ 48" "flatWalk eb bk vm sz off (PML4_flat t) a = Inr (c, f', a')"
  obtains t' where "PML4_pageWalk eb bk vm sz off t a = Inr (c, t', a')" "PML4_flat t' = f'"
  using assms(3) PML4_walk_flat [OF assms(1,2), of eb bk off t a, symmetric]
  by (cases "PML4_pageWalk eb bk vm sz off t a") (auto simp: through_def)

lemma result_flat:
  assumes "0 < sz" "vm + sz \<le> 2 ^ 48" "PML4_pageWalk eb bk vm sz off t a = Inr (c, t', a')"
  shows "flatWalk eb bk vm sz off (PML4_flat t) a = Inr (c, PML4_flat t', a')"
  using PML4_walk_flat [OF assms(1,2), of eb bk off t a, symmetric] assms(3) by (simp add: through_def)

lemma range_pages: "0 < sz \<Longrightarrow> length [v div 4096..<(v + sz - 1) div 4096 + 1] \<le> sz div 4096 + 2" for sz v :: nat
proof -
  assume "0 < sz"
  then have "(v + sz - 1) div 4096 \<le> (v + sz) div 4096" by (intro div_le_mono) simp
  also have "\<dots> \<le> v div 4096 + sz div 4096 + 1" by linarith
  finally have "(v + sz - 1) div 4096 \<le> v div 4096 + sz div 4096 + 1" .
  then show ?thesis unfolding length_upt by linarith
qed

lemma walked_frames:
  "walked k t a \<Longrightarrow> k < 2 ^ 51 \<Longrightarrow> \<exists>j \<le> k. frames_inv j (PML4_flat t) a"
proof (induction rule: walked.induct)
  case start
  have "PML4_flat new_table = (\<lambda>_. 0)" by (simp add: PML4_flat_def flat_table_def new_table_def)
  then show ?case
    by (intro exI [of _ 1]) (simp add: frames_inv_def PhysicalAddressAllocator_ctor_def)
next
  case (step k t a sz vm eb bk off calls t' a')
  then obtain j where j: "j \<le> k" "frames_inv j (PML4_flat t) a" by auto
  let ?ps = "[vm div 4096..<(vm + sz - 1) div 4096 + 1]"
  have l: "length ?ps \<le> sz div 4096 + 2" by (rule range_pages [OF step.hyps(2)])
  then have "j + length ?ps < 2 ^ 51" using j(1) step.prems by linarith
  from walkLoop_frames [OF j(2) this result_flat [OF step.hyps(2-4), unfolded flatWalk_def]]
  obtain m where "m \<le> j + length ?ps" "frames_inv m (PML4_flat t') a'" by blast
  then show ?case using j(1) l by (intro exI [of _ m]) simp
qed

text \<open>Claim C21: the four-level walk of a 48-bit range, with its indices masked and the range cut at every
  level, makes exactly the calls, the table contents and the reservations of one loop over the
  pages of the range on a flat table. The calls are compared in order, errors included.\<close>

theorem four_levels_are_flat:
  assumes "0 < sz" "vm + sz \<le> 2 ^ 48"
  shows "through PML4_flat (PML4_pageWalk entryBits bank vm sz offset t a) =
    flatWalk entryBits bank vm sz offset (PML4_flat t) a"
  using assms by (rule PML4_walk_flat)

theorem four_levels_are_flat_witness:
  "through PML4_flat (PML4_pageWalk 1 0 0x7FFFFFF000 0x2001 0 new_table PhysicalAddressAllocator_ctor) =
    flatWalk 1 0 0x7FFFFFF000 0x2001 0 (PML4_flat new_table) PhysicalAddressAllocator_ctor"
  by (rule four_levels_are_flat) simp_all

text \<open>Claim C20: on the tables that walks build from an empty one, while fewer than 2 to the 51 pages have been
  touched, a walk in the main memory bank returns; afterwards two different pages never have the same
  physical frame, every page mapped before keeps its frame, and each byte of the range is
  covered by a call to the walker at the frame of its page plus its offset in the page, under the
  offset of that byte in the range.\<close>

theorem page_walk_translates:
  assumes "walked k t a" "0 < sz" "vm + sz \<le> 2 ^ 48" "k + (sz div 4096 + 2) < 2 ^ 51"
  shows "\<exists>calls t' a'. PML4_pageWalk entryBits 0 vm sz offset t a = Inr (calls, t', a') \<and>
    (\<forall>p q. PML4_flat t' p \<noteq> 0 \<longrightarrow> PML4_flat t' q \<noteq> 0 \<longrightarrow>
       frame (PML4_flat t' p) = frame (PML4_flat t' q) \<longrightarrow> p = q) \<and>
    (\<forall>p. PML4_flat t p \<noteq> 0 \<longrightarrow> PML4_flat t' p \<noteq> 0 \<and> frame (PML4_flat t' p) = frame (PML4_flat t p)) \<and>
    (\<forall>i < sz. PML4_flat t' ((vm + i) div 4096) \<noteq> 0 \<and>
       (\<exists>(addr, len, off, bits) \<in> set calls. off \<le> offset + i \<and> offset + i < off + len \<and>
          addr + of_nat (offset + i - off) = frame (PML4_flat t' ((vm + i) div 4096)) + of_nat ((vm + i) mod 4096)))"
proof -
  let ?P = "vm div 4096" and ?Q = "(vm + sz - 1) div 4096 + 1"
  obtain c f' a' where w: "flatWalk entryBits 0 vm sz offset (PML4_flat t) a = Inr (c, f', a')"
    unfolding flatWalk_def using walkLoop_returns by blast
  obtain t' where t': "PML4_pageWalk entryBits 0 vm sz offset t a = Inr (c, t', a')" "PML4_flat t' = f'"
    by (rule flat_result [OF assms(2,3) w])
  obtain j where j: "j \<le> k" "frames_inv j (PML4_flat t) a" using walked_frames [OF assms(1)] assms(4) by auto
  have "j + length [?P..<?Q] < 2 ^ 51" using j(1) range_pages [OF assms(2), of vm] assms(4) by linarith
  note fr = walkLoop_frames [OF j(2) this w [unfolded flatWalk_def]]
  then obtain m where m: "frames_inv m f' a'" by blast
  have "sz + vm mod 4096 \<le> (?Q - ?P) * 4096"
  proof -
    have "vm + sz - 1 < 4096 * ?Q" using dividend_less_div_times [of 4096 "vm + sz - 1"] by (simp add: algebra_simps)
    then have "vm + sz \<le> ?Q * 4096" using assms(2) by (simp add: algebra_simps)
    then show ?thesis unfolding diff_mult_distrib by (simp add: minus_div_mult_eq_mod [symmetric])
  qed
  note cov = walkLoop_covers [OF w [unfolded flatWalk_def] _ this]
  have at: "?P * 4096 + vm mod 4096 + i = vm + i" for i by simp
  have "(vm + i) div 4096 \<in> set [?P..<?Q]" if "i < sz" for i
  proof -
    have "?P \<le> (vm + i) div 4096" "(vm + i) div 4096 \<le> (vm + sz - 1) div 4096" using that by (intro div_le_mono; simp)+
    then show ?thesis unfolding set_upt atLeastLessThan_iff less_Suc_eq_le [symmetric] Suc_eq_plus1 by (rule conjI)
  qed
  moreover have "\<forall>p q. f' p \<noteq> 0 \<longrightarrow> f' q \<noteq> 0 \<longrightarrow> frame (f' p) = frame (f' q) \<longrightarrow> p = q"
    using m unfolding frames_inv_def by blast
  ultimately show ?thesis
    using fr cov unfolding at by (intro exI [of _ c] exI [of _ t'] exI [of _ a']) (simp add: t' del: upt_Suc)
qed

theorem page_walk_translates_witness:
  "\<exists>calls t' a'. PML4_pageWalk 3 0 4095 2 0 new_table PhysicalAddressAllocator_ctor = Inr (calls, t', a') \<and>
    frame (PML4_flat t' 0) \<noteq> frame (PML4_flat t' 1)"
proof -
  have "walked 1 new_table PhysicalAddressAllocator_ctor" by (rule walked.start)
  from page_walk_translates [OF this, where sz = 2 and vm = 4095 and entryBits = 3 and offset = 0]
  obtain calls t' a' where w: "PML4_pageWalk 3 0 4095 2 0 new_table PhysicalAddressAllocator_ctor = Inr (calls, t', a')"
    "\<forall>p q. PML4_flat t' p \<noteq> 0 \<longrightarrow> PML4_flat t' q \<noteq> 0 \<longrightarrow> frame (PML4_flat t' p) = frame (PML4_flat t' q) \<longrightarrow> p = q"
    "\<forall>i < 2. PML4_flat t' ((4095 + i) div 4096) \<noteq> 0" by auto
  have "PML4_flat t' 0 \<noteq> 0" "PML4_flat t' 1 \<noteq> 0" using spec [OF w(3), of 0] spec [OF w(3), of 1] by simp_all
  then show ?thesis using w(1,2) by (metis zero_neq_one)
qed

end
