(* ===== verification/Elf_Container.thy ===== *)
theory Elf_Container
  imports Runtime_Prelude
begin

text \<open>
  The container of program binaries: the writer and the reader of \<^verbatim>\<open>src/elf/\<close> at the level of bytes.
  A binary is a list of bytes; the structures are laid out at their byte offsets, little endian.
  The writer stores field by field with checked stores. The reader is given the address of the
  binary, computes pointers modulo 2 to the 64 as the code does, and reads through them;
  a read outside the binary is the fault \<open>OutOfBounds\<close>, \<^verbatim>\<open>ElfException\<close> is the fault \<open>Thrown\<close>.
\<close>

type_synonym bytes = "u8 list"

text \<open>Unsigned fields of some width; storing a wider value keeps its low bytes.\<close>

fun le_bytes :: "nat \<Rightarrow> nat \<Rightarrow> bytes" where
  "le_bytes 0 v = []"
| "le_bytes (Suc k) v = of_nat (v mod 256) # le_bytes k (v div 256)"

fun le_value :: "bytes \<Rightarrow> nat" where
  "le_value [] = 0"
| "le_value (b # bs) = unat b + 256 * le_value bs"

definition store :: "nat \<Rightarrow> bytes \<Rightarrow> bytes \<Rightarrow> bytes rt_result" where
  "store off bs bin =
     (if off + length bs \<le> length bin then Inr (take off bin @ bs @ drop (off + length bs) bin) else Inl OutOfBounds)"

definition bytesAt :: "nat \<Rightarrow> nat \<Rightarrow> bytes \<Rightarrow> bytes" where
  "bytesAt off n bin = take n (drop off bin)"

text \<open>A read of some bytes through a pointer, for a binary that lies at an address.\<close>

definition load :: "nat \<Rightarrow> bytes \<Rightarrow> nat \<Rightarrow> nat \<Rightarrow> bytes rt_result" where
  "load base bin p n =
     (if base \<le> p \<and> p + n \<le> base + length bin then Inr (bytesAt (p - base) n bin) else Inl OutOfBounds)"

definition loadField :: "nat \<Rightarrow> bytes \<Rightarrow> nat \<Rightarrow> nat \<Rightarrow> nat rt_result" where
  "loadField base bin p n = rt_bind (load base bin p n) (\<lambda>bs. Inr (le_value bs))"

section \<open>Types\<close>

definition EH_CLASS_64 :: nat where "EH_CLASS_64 = 2"
definition EH_VERSION_CURRENT :: nat where "EH_VERSION_CURRENT = 1"
definition EH_TYPE_OPENCL_OBJECTS :: nat where "EH_TYPE_OPENCL_OBJECTS = 0xff02"
definition EH_TYPE_OPENCL_LIBRARY :: nat where "EH_TYPE_OPENCL_LIBRARY = 0xff03"
definition EH_TYPE_OPENCL_EXECUTABLE :: nat where "EH_TYPE_OPENCL_EXECUTABLE = 0xff04"
definition EH_MACHINE_NONE :: nat where "EH_MACHINE_NONE = 0"

definition SH_TYPE_NULL :: nat where "SH_TYPE_NULL = 0"
definition SH_TYPE_STR_TBL :: nat where "SH_TYPE_STR_TBL = 3"
definition SH_TYPE_OPENCL_LLVM_BINARY :: nat where "SH_TYPE_OPENCL_LLVM_BINARY = 0xff000003"
definition SH_TYPE_OPENCL_DEV_BINARY :: nat where "SH_TYPE_OPENCL_DEV_BINARY = 0xff000005"
definition SH_TYPE_OPENCL_OPTIONS :: nat where "SH_TYPE_OPENCL_OPTIONS = 0xff000006"
definition SH_TYPE_OPENCL_DEV_DEBUG :: nat where "SH_TYPE_OPENCL_DEV_DEBUG = 0xff000008"
definition SH_TYPE_SPIRV :: nat where "SH_TYPE_SPIRV = 0xff000009"
definition SH_FLAG_NONE :: nat where "SH_FLAG_NONE = 0"

definition elfMagic :: bytes where "elfMagic = [0x7f, 0x45, 0x4c, 0x46]"

text \<open>The offsets of the fields of \<^verbatim>\<open>SElf64Header\<close> and \<^verbatim>\<open>SElf64SectionHeader\<close>; both have 64 bytes.\<close>

definition eh_Class :: nat where "eh_Class = 4"
definition eh_Version :: nat where "eh_Version = 5"
definition eh_Type :: nat where "eh_Type = 16"
definition eh_Machine :: nat where "eh_Machine = 18"
definition eh_SectionHeadersOffset :: nat where "eh_SectionHeadersOffset = 40"
definition eh_Flags :: nat where "eh_Flags = 48"
definition eh_ElfHeaderSize :: nat where "eh_ElfHeaderSize = 52"
definition eh_SectionHeaderEntrySize :: nat where "eh_SectionHeaderEntrySize = 58"
definition eh_NumSectionHeaderEntries :: nat where "eh_NumSectionHeaderEntries = 60"
definition eh_SectionNameTableIndex :: nat where "eh_SectionNameTableIndex = 62"
definition sizeof_SElf64Header :: nat where "sizeof_SElf64Header = 64"

definition sh_Name :: nat where "sh_Name = 0"
definition sh_Type :: nat where "sh_Type = 4"
definition sh_Flags :: nat where "sh_Flags = 8"
definition sh_DataOffset :: nat where "sh_DataOffset = 24"
definition sh_DataSize :: nat where "sh_DataSize = 32"
definition sizeof_SElf64SectionHeader :: nat where "sizeof_SElf64SectionHeader = 64"

lemmas elf_layout = eh_Class_def eh_Version_def eh_Type_def eh_Machine_def eh_SectionHeadersOffset_def eh_Flags_def
  eh_ElfHeaderSize_def eh_SectionHeaderEntrySize_def eh_NumSectionHeaderEntries_def eh_SectionNameTableIndex_def
  sizeof_SElf64Header_def sh_Name_def sh_Type_def sh_Flags_def sh_DataOffset_def sh_DataSize_def sizeof_SElf64SectionHeader_def

text \<open>The section headers the reader keeps; the fields it does not copy stay zero.\<close>

record SElf64SectionHeader =
  shName :: nat
  shType :: nat
  shFlags :: nat
  shAddress :: nat
  shDataOffset :: nat
  shDataSize :: nat
  shLink :: nat
  shInfo :: nat
  shAlignment :: nat
  shEntrySize :: nat

section \<open>The writer\<close>

record SSectionNode =
  sn_type :: nat
  sn_flag :: nat
  sn_name :: bytes
  sn_data :: bytes
  sn_dataSize :: nat

definition SSectionNode_default :: SSectionNode where
  "SSectionNode_default = \<lparr>sn_type = SH_TYPE_NULL, sn_flag = SH_FLAG_NONE, sn_name = [], sn_data = [], sn_dataSize = 0\<rparr>"

record CElfWriter =
  wr_type :: nat
  wr_machine :: nat
  wr_flag :: nat
  wr_nodeQueue :: "SSectionNode list"
  wr_dataSize :: nat
  wr_numSections :: nat
  wr_stringTableSize :: nat

definition addSection :: "SSectionNode \<Rightarrow> CElfWriter \<Rightarrow> CElfWriter" where
  "addSection n w = w\<lparr>wr_nodeQueue := wr_nodeQueue w @ [n], wr_dataSize := wrap32 (wr_dataSize w + sn_dataSize n),
     wr_stringTableSize := wrap64 (wr_stringTableSize w + (length (sn_name n) + 1)),
     wr_numSections := wrap32 (wr_numSections w + 1)\<rparr>"

definition CElfWriter_ctor :: "nat \<Rightarrow> nat \<Rightarrow> nat \<Rightarrow> CElfWriter" where
  "CElfWriter_ctor type machine flag = addSection SSectionNode_default
     \<lparr>wr_type = type, wr_machine = machine, wr_flag = flag, wr_nodeQueue = [], wr_dataSize = 0, wr_numSections = 0,
      wr_stringTableSize = 0\<rparr>"

definition dataStart :: "CElfWriter \<Rightarrow> nat" where
  "dataStart w = sizeof_SElf64Header + wrap32 (wr_numSections w + 1) * sizeof_SElf64SectionHeader"

definition getTotalBinarySize :: "CElfWriter \<Rightarrow> nat" where
  "getTotalBinarySize w = wrap64 (dataStart w + wr_dataSize w + wr_stringTableSize w)"

text \<open>One node: five header fields, then the data from a null terminated string, then the name.\<close>

definition writeSectionHeader :: "nat \<Rightarrow> SSectionNode \<Rightarrow> nat \<Rightarrow> nat \<Rightarrow> bytes \<Rightarrow> bytes rt_result" where
  "writeSectionHeader cur n dat name bin =
     rt_bind (store (cur + sh_Type) (le_bytes 4 (sn_type n)) bin) (\<lambda>bin.
     rt_bind (store (cur + sh_Flags) (le_bytes 8 (sn_flag n)) bin) (\<lambda>bin.
     rt_bind (store (cur + sh_DataSize) (le_bytes 8 (sn_dataSize n)) bin) (\<lambda>bin.
     rt_bind (store (cur + sh_DataOffset) (le_bytes 8 dat) bin) (\<lambda>bin.
     store (cur + sh_Name) (le_bytes 4 name) bin))))"

definition copyData :: "SSectionNode \<Rightarrow> nat \<Rightarrow> bytes \<Rightarrow> bytes rt_result" where
  "copyData n dat bin =
     (if sn_dataSize n \<le> length (sn_data n) + 1 then store dat (take (sn_dataSize n) (sn_data n @ [0])) bin
      else Inl OutOfBounds)"

fun writeNodes :: "SSectionNode list \<Rightarrow> nat \<Rightarrow> nat \<Rightarrow> nat \<Rightarrow> nat \<Rightarrow> bytes \<Rightarrow> (nat \<times> bytes) rt_result" where
  "writeNodes [] stringTable cur dat str bin = Inr (cur, bin)"
| "writeNodes (n # ns) stringTable cur dat str bin =
     rt_bind (writeSectionHeader cur n dat (str - stringTable) bin) (\<lambda>bin.
     rt_bind (copyData n dat bin) (\<lambda>bin.
     rt_bind (store str (sn_name n @ [0]) bin) (\<lambda>bin.
     writeNodes ns stringTable (cur + sizeof_SElf64SectionHeader) (dat + sn_dataSize n) (str + length (sn_name n) + 1) bin)))"

text \<open>The header of the string table is built apart and copied whole.\<close>

definition stringSectionHeader :: "nat \<Rightarrow> CElfWriter \<Rightarrow> bytes" where
  "stringSectionHeader stringTable w =
     le_bytes 4 0 @ le_bytes 4 SH_TYPE_STR_TBL @ le_bytes 8 SH_FLAG_NONE @ le_bytes 8 0 @ le_bytes 8 stringTable @
     le_bytes 8 (wr_stringTableSize w) @ replicate 24 0"

definition patchElfHeader :: "CElfWriter \<Rightarrow> bytes \<Rightarrow> bytes rt_result" where
  "patchElfHeader w bin =
     rt_bind (store 0 elfMagic bin) (\<lambda>bin.
     rt_bind (store eh_Class (le_bytes 1 EH_CLASS_64) bin) (\<lambda>bin.
     rt_bind (store eh_Version (le_bytes 1 EH_VERSION_CURRENT) bin) (\<lambda>bin.
     rt_bind (store eh_Type (le_bytes 2 (wr_type w)) bin) (\<lambda>bin.
     rt_bind (store eh_Machine (le_bytes 2 (wr_machine w)) bin) (\<lambda>bin.
     rt_bind (store eh_Flags (le_bytes 4 (wr_flag w)) bin) (\<lambda>bin.
     rt_bind (store eh_ElfHeaderSize (le_bytes 2 sizeof_SElf64Header) bin) (\<lambda>bin.
     rt_bind (store eh_SectionHeaderEntrySize (le_bytes 2 sizeof_SElf64SectionHeader) bin) (\<lambda>bin.
     rt_bind (store eh_NumSectionHeaderEntries (le_bytes 2 (wr_numSections w)) bin) (\<lambda>bin.
     rt_bind (store eh_SectionHeadersOffset (le_bytes 8 sizeof_SElf64Header) bin) (\<lambda>bin.
     store eh_SectionNameTableIndex (le_bytes 2 (wrap32 (wr_numSections w + 4294967295))) bin))))))))))"

definition resolveBinary :: "CElfWriter \<Rightarrow> bytes \<Rightarrow> (CElfWriter \<times> bytes) rt_result" where
  "resolveBinary w bin =
     (let bin = (if length bin < getTotalBinarySize w
                 then bin @ replicate (getTotalBinarySize w - length bin) 0 else bin);
          stringTable = dataStart w + wr_dataSize w
      in rt_bind (writeNodes (wr_nodeQueue w) stringTable sizeof_SElf64Header (dataStart w) stringTable bin) (\<lambda>(cur, bin).
         rt_bind (store cur (stringSectionHeader stringTable w) bin) (\<lambda>bin.
         let w = w\<lparr>wr_nodeQueue := [], wr_numSections := wrap32 (wr_numSections w + 1)\<rparr>
         in rt_bind (patchElfHeader w bin) (\<lambda>bin. Inr (w, bin)))))"

section \<open>The reader\<close>

record CElfReader =
  rd_beginBinary :: nat
  rd_sectionHeaders :: "SElf64SectionHeader list"

definition readSectionHeader :: "nat \<Rightarrow> bytes \<Rightarrow> nat \<Rightarrow> nat \<Rightarrow> nat \<Rightarrow> SElf64SectionHeader rt_result" where
  "readSectionHeader base bin end nameTable p =
     rt_bind (loadField base bin (p + sh_DataOffset) 8) (\<lambda>off.
     rt_bind (loadField base bin (p + sh_DataSize) 8) (\<lambda>sz.
     if wrap64 (base + off + sz) > end then Inl Thrown
     else rt_bind (loadField base bin (p + sh_Name) 4) (\<lambda>name.
     if wrap64 (nameTable + name) > end then Inl Thrown
     else rt_bind (loadField base bin (p + sh_Type) 4) (\<lambda>type.
     rt_bind (loadField base bin (p + sh_Flags) 8) (\<lambda>flags.
     Inr \<lparr>shName = name, shType = type, shFlags = flags, shAddress = 0, shDataOffset = off, shDataSize = sz,
          shLink = 0, shInfo = 0, shAlignment = 0, shEntrySize = 0\<rparr>)))))"

fun readSections ::
  "nat \<Rightarrow> bytes \<Rightarrow> nat \<Rightarrow> nat \<Rightarrow> nat \<Rightarrow> nat \<Rightarrow> nat list \<Rightarrow> nat \<Rightarrow> (SElf64SectionHeader list \<times> nat) rt_result" where
  "readSections base bin end nameTable headers entrySize [] ourSize = Inr ([], ourSize)"
| "readSections base bin end nameTable headers entrySize (i # idxs) ourSize =
     (let p = wrap64 (base + wrap64 (headers + i * entrySize))
      in if p > end then Inl Thrown
         else rt_bind (readSectionHeader base bin end nameTable p) (\<lambda>h.
              rt_bind (readSections base bin end nameTable headers entrySize idxs
                         (wrap64 (ourSize + shDataSize h + entrySize))) (\<lambda>(hs, ourSize).
              Inr (h # hs, ourSize))))"

definition findNameTable :: "nat \<Rightarrow> nat \<Rightarrow> nat \<Rightarrow> nat \<Rightarrow> nat \<Rightarrow> nat \<Rightarrow> nat" where
  "findNameTable base end headers entrySize index num =
     (let p = wrap64 (base + wrap64 (headers + index * entrySize))
      in if index < num \<and> p \<le> end then p else 0)"

definition validateElfBinary :: "nat \<Rightarrow> bytes \<Rightarrow> CElfReader rt_result" where
  "validateElfBinary base bin =
     (if length bin < sizeof_SElf64Header then Inl Thrown
      else rt_bind (load base bin base 4) (\<lambda>magic.
           rt_bind (loadField base bin (base + eh_Class) 1) (\<lambda>class.
           if \<not> (magic = elfMagic \<and> class = EH_CLASS_64) then Inl Thrown
           else rt_bind (loadField base bin (base + eh_ElfHeaderSize) 2) (\<lambda>ourSize.
                rt_bind (loadField base bin (base + eh_SectionHeaderEntrySize) 2) (\<lambda>entrySize.
                rt_bind (loadField base bin (base + eh_SectionNameTableIndex) 2) (\<lambda>index.
                rt_bind (loadField base bin (base + eh_NumSectionHeaderEntries) 2) (\<lambda>num.
                rt_bind (loadField base bin (base + eh_SectionHeadersOffset) 8) (\<lambda>headers.
                let end = base + length bin
                in rt_bind (readSections base bin end (findNameTable base end headers entrySize index num)
                              headers entrySize [0..<num] ourSize) (\<lambda>(hs, ourSize).
                   if ourSize \<noteq> length bin then Inl Thrown
                   else Inr \<lparr>rd_beginBinary = base, rd_sectionHeaders = hs\<rparr>)))))))))"

definition getSectionData :: "nat \<Rightarrow> CElfReader \<Rightarrow> nat" where
  "getSectionData dataOffset r = wrap64 (rd_beginBinary r + dataOffset)"

definition getElfHeader_Type :: "bytes \<Rightarrow> CElfReader \<Rightarrow> nat rt_result" where
  "getElfHeader_Type bin r = loadField (rd_beginBinary r) bin (rd_beginBinary r + eh_Type) 2"

section \<open>Bytes\<close>

lemma le_bytes_length [simp]: "length (le_bytes k v) = k"
  by (induction k arbitrary: v) auto

lemma le_value_bytes: "le_value (le_bytes k v) = v mod 256 ^ k"
proof (induction k arbitrary: v)
  case (Suc k)
  have "unat (of_nat (v mod 256) :: u8) = v mod 256" by (simp add: unat_of_nat take_bit_eq_mod)
  then show ?case using Suc mod_mult2_eq [of v 256 "256 ^ k"] by simp
qed simp

lemma le_value_small [simp]: "v < 256 ^ k \<Longrightarrow> le_value (le_bytes k v) = v"
  by (simp add: le_value_bytes)

definition overwrite :: "nat \<Rightarrow> bytes \<Rightarrow> bytes \<Rightarrow> bytes" where
  "overwrite off bs bin = take off bin @ bs @ drop (off + length bs) bin"

lemma store_overwrite [simp]: "off + length bs \<le> length bin \<Longrightarrow> store off bs bin = Inr (overwrite off bs bin)"
  by (simp add: store_def overwrite_def)

lemma length_overwrite [simp]: "off + length bs \<le> length bin \<Longrightarrow> length (overwrite off bs bin) = length bin"
  by (simp add: overwrite_def)

lemma bytesAt_overwrite_same [simp]:
  "off + length bs \<le> length bin \<Longrightarrow> n = length bs \<Longrightarrow> bytesAt off n (overwrite off bs bin) = bs"
  by (simp add: bytesAt_def overwrite_def)

lemma bytesAt_overwrite_before [simp]: "off' + n \<le> off \<Longrightarrow> off \<le> length bin \<Longrightarrow> bytesAt off' n (overwrite off bs bin) = bytesAt off' n bin"
  by (auto simp: bytesAt_def overwrite_def min_def drop_take)

lemma bytesAt_overwrite_after [simp]:
  "off + length bs \<le> off' \<Longrightarrow> off + length bs \<le> length bin \<Longrightarrow> bytesAt off' n (overwrite off bs bin) = bytesAt off' n bin"
  by (simp add: bytesAt_def overwrite_def min_def)

lemma bytesAt_within: "i + k \<le> n \<Longrightarrow> bytesAt (off + i) k bin = bytesAt i k (bytesAt off n bin)"
  by (simp add: bytesAt_def min_def drop_take add.commute)

lemma bytesAt_append [simp]:
  "bytesAt 0 (length bs) (bs @ cs) = bs"
  "length bs \<le> off \<Longrightarrow> bytesAt off n (bs @ cs) = bytesAt (off - length bs) n cs"
  by (simp_all add: bytesAt_def)

section \<open>What the writer leaves\<close>

definition nodes_wf :: "SSectionNode list \<Rightarrow> bool" where
  "nodes_wf ns \<longleftrightarrow> (\<forall>n \<in> set ns. sn_dataSize n \<le> length (sn_data n) + 1)"

definition nodeData :: "SSectionNode \<Rightarrow> bytes" where
  "nodeData n = take (sn_dataSize n) (sn_data n @ [0])"

definition dataSum :: "SSectionNode list \<Rightarrow> nat" where "dataSum ns = sum_list (map sn_dataSize ns)"
definition nameSum :: "SSectionNode list \<Rightarrow> nat" where "nameSum ns = sum_list (map (\<lambda>n. length (sn_name n) + 1) ns)"

lemma sums_simps [simp]:
  "dataSum [] = 0" "dataSum (n # ns) = sn_dataSize n + dataSum ns"
  "nameSum [] = 0" "nameSum (n # ns) = length (sn_name n) + 1 + nameSum ns"
  "dataSum (ns @ ms) = dataSum ns + dataSum ms" "nameSum (ns @ ms) = nameSum ns + nameSum ms"
  by (simp_all add: dataSum_def nameSum_def)

definition sectionAt :: "bytes \<Rightarrow> nat \<Rightarrow> nat \<Rightarrow> nat \<Rightarrow> nat \<Rightarrow> SSectionNode \<Rightarrow> bool" where
  "sectionAt bin stringTable cur d s n \<longleftrightarrow>
     bytesAt (cur + sh_Type) 4 bin = le_bytes 4 (sn_type n) \<and> bytesAt (cur + sh_Flags) 8 bin = le_bytes 8 (sn_flag n) \<and>
     bytesAt (cur + sh_DataSize) 8 bin = le_bytes 8 (sn_dataSize n) \<and> bytesAt (cur + sh_DataOffset) 8 bin = le_bytes 8 d \<and>
     bytesAt (cur + sh_Name) 4 bin = le_bytes 4 (s - stringTable) \<and>
     bytesAt d (sn_dataSize n) bin = nodeData n \<and> bytesAt s (length (sn_name n) + 1) bin = sn_name n @ [0]"

definition sameSlices :: "(nat \<Rightarrow> nat \<Rightarrow> bool) \<Rightarrow> bytes \<Rightarrow> bytes \<Rightarrow> bool" where
  "sameSlices P bin bin' \<longleftrightarrow> length bin' = length bin \<and> (\<forall>off k. P off (off + k) \<longrightarrow> bytesAt off k bin' = bytesAt off k bin)"

lemma sameSlicesD: "sameSlices P bin bin' \<Longrightarrow> P off (off + k) \<Longrightarrow> bytesAt off k bin' = bytesAt off k bin"
  by (simp add: sameSlices_def)

lemma sameSlices_trans:
  "sameSlices P bin bin1 \<Longrightarrow> sameSlices Q bin1 bin2 \<Longrightarrow> (\<And>a b. R a b \<Longrightarrow> P a b \<and> Q a b) \<Longrightarrow> sameSlices R bin bin2"
  by (simp add: sameSlices_def)

lemma sectionAt_frame:
  assumes "sameSlices P bin bin'" "sectionAt bin st cur d s n"
    "\<And>a b. cur \<le> a \<Longrightarrow> b \<le> cur + 40 \<Longrightarrow> P a b" "P d (d + sn_dataSize n)" "P s (s + (length (sn_name n) + 1))"
  shows "sectionAt bin' st cur d s n"
  using assms(2) sameSlicesD [OF assms(1)] assms(3-5) unfolding sectionAt_def elf_layout by simp

lemma writeSectionHeader_ok:
  assumes "cur + 40 \<le> length bin"
  obtains bin' where "writeSectionHeader cur n d name bin = Inr bin'"
    "sameSlices (\<lambda>a b. b \<le> cur \<or> cur + 40 \<le> a) bin bin'"
    "bytesAt (cur + sh_Type) 4 bin' = le_bytes 4 (sn_type n)" "bytesAt (cur + sh_Flags) 8 bin' = le_bytes 8 (sn_flag n)"
    "bytesAt (cur + sh_DataSize) 8 bin' = le_bytes 8 (sn_dataSize n)" "bytesAt (cur + sh_DataOffset) 8 bin' = le_bytes 8 d"
    "bytesAt (cur + sh_Name) 4 bin' = le_bytes 4 name"
  using assms
  by (intro that [of "overwrite (cur + 0) (le_bytes 4 name) (overwrite (cur + 24) (le_bytes 8 d)
      (overwrite (cur + 32) (le_bytes 8 (sn_dataSize n)) (overwrite (cur + 8) (le_bytes 8 (sn_flag n))
      (overwrite (cur + 4) (le_bytes 4 (sn_type n)) bin))))"])
    (auto simp: writeSectionHeader_def elf_layout sameSlices_def)

lemma writeNode_ok:
  assumes "cur + 64 \<le> d" "d + sn_dataSize n \<le> s" "s + length (sn_name n) + 1 \<le> length bin" "sn_dataSize n \<le> length (sn_data n) + 1"
  obtains bin' where "writeNodes (n # ns) st cur d s bin =
      writeNodes ns st (cur + sizeof_SElf64SectionHeader) (d + sn_dataSize n) (s + length (sn_name n) + 1) bin'"
    "sectionAt bin' st cur d s n"
    "sameSlices (\<lambda>a b. (b \<le> cur \<or> cur + 40 \<le> a) \<and> (b \<le> d \<or> d + sn_dataSize n \<le> a) \<and> (b \<le> s \<or> s + length (sn_name n) + 1 \<le> a)) bin bin'"
proof -
  obtain b1 where b1: "writeSectionHeader cur n d (s - st) bin = Inr b1"
    "sameSlices (\<lambda>a b. b \<le> cur \<or> cur + 40 \<le> a) bin b1"
    "bytesAt (cur + sh_Type) 4 b1 = le_bytes 4 (sn_type n)" "bytesAt (cur + sh_Flags) 8 b1 = le_bytes 8 (sn_flag n)"
    "bytesAt (cur + sh_DataSize) 8 b1 = le_bytes 8 (sn_dataSize n)" "bytesAt (cur + sh_DataOffset) 8 b1 = le_bytes 8 d"
    "bytesAt (cur + sh_Name) 4 b1 = le_bytes 4 (s - st)"
    using assms by (elim writeSectionHeader_ok [of cur bin, rotated]) auto
  have len: "length b1 = length bin" "length (nodeData n) = sn_dataSize n" using b1(2) assms(4) by (simp_all add: sameSlices_def nodeData_def)
  let ?b2 = "overwrite s (sn_name n @ [0]) (overwrite d (nodeData n) b1)"
  have "copyData n d b1 = Inr (overwrite d (nodeData n) b1)"
    unfolding copyData_def nodeData_def [symmetric] using assms len by simp
  then have "writeNodes (n # ns) st cur d s bin =
      writeNodes ns st (cur + sizeof_SElf64SectionHeader) (d + sn_dataSize n) (s + length (sn_name n) + 1) ?b2"
    using b1(1) assms len by simp
  moreover have "sectionAt ?b2 st cur d s n"
    using b1(3-7) assms len by (simp add: sectionAt_def elf_layout)
  moreover have "sameSlices (\<lambda>a b. (b \<le> cur \<or> cur + 40 \<le> a) \<and> (b \<le> d \<or> d + sn_dataSize n \<le> a) \<and> (b \<le> s \<or> s + length (sn_name n) + 1 \<le> a)) bin ?b2"
    using b1(2) assms len by (auto simp: sameSlices_def)
  ultimately show ?thesis by (rule that)
qed

lemma writeNodes_ok:
  assumes "nodes_wf ns" "cur + 64 * length ns \<le> d" "d + dataSum ns \<le> s" "s + nameSum ns \<le> length bin"
  obtains bin' where "writeNodes ns st cur d s bin = Inr (cur + 64 * length ns, bin')"
    "sameSlices (\<lambda>a b. b \<le> cur \<or> cur + 64 * length ns \<le> a \<and> b \<le> d \<or> d + dataSum ns \<le> a \<and> b \<le> s \<or> s + nameSum ns \<le> a) bin bin'"
    "\<forall>i < length ns. sectionAt bin' st (cur + 64 * i) (d + dataSum (take i ns)) (s + nameSum (take i ns)) (ns ! i)"
  using assms
proof (induction ns arbitrary: cur d s bin thesis)
  case Nil
  show ?case by (rule Nil.prems(1) [of bin]) (simp_all add: sameSlices_def)
next
  case (Cons n ns)
  have c: "cur + 64 \<le> d" "d + sn_dataSize n \<le> s" "s + length (sn_name n) + 1 \<le> length bin" "sn_dataSize n \<le> length (sn_data n) + 1"
    using Cons.prems by (simp_all add: nodes_wf_def)
  obtain b1 where b1: "writeNodes (n # ns) st cur d s bin =
      writeNodes ns st (cur + sizeof_SElf64SectionHeader) (d + sn_dataSize n) (s + length (sn_name n) + 1) b1"
    "sectionAt b1 st cur d s n"
    "sameSlices (\<lambda>a b. (b \<le> cur \<or> cur + 40 \<le> a) \<and> (b \<le> d \<or> d + sn_dataSize n \<le> a) \<and> (b \<le> s \<or> s + length (sn_name n) + 1 \<le> a)) bin b1"
    by (rule writeNode_ok [OF c])
  have "length b1 = length bin" using b1(3) by (simp add: sameSlices_def)
  then have w: "nodes_wf ns" "cur + 64 + 64 * length ns \<le> d + sn_dataSize n" "d + sn_dataSize n + dataSum ns \<le> s + length (sn_name n) + 1"
    "s + length (sn_name n) + 1 + nameSum ns \<le> length b1"
    using Cons.prems(2-) by (simp_all add: nodes_wf_def)
  obtain b2 where b2: "writeNodes ns st (cur + 64) (d + sn_dataSize n) (s + length (sn_name n) + 1) b1 = Inr (cur + 64 + 64 * length ns, b2)"
    "sameSlices (\<lambda>a b. b \<le> cur + 64 \<or> cur + 64 + 64 * length ns \<le> a \<and> b \<le> d + sn_dataSize n \<or>
       d + sn_dataSize n + dataSum ns \<le> a \<and> b \<le> s + length (sn_name n) + 1 \<or> s + length (sn_name n) + 1 + nameSum ns \<le> a) b1 b2"
    "\<forall>i < length ns. sectionAt b2 st (cur + 64 + 64 * i) (d + sn_dataSize n + dataSum (take i ns)) (s + length (sn_name n) + 1 + nameSum (take i ns)) (ns ! i)"
    by (rule Cons.IH [OF _ w])
  have n: "sectionAt b2 st cur d s n"
    using Cons.prems by (intro sectionAt_frame [OF b2(2) b1(2)]) auto
  show ?case
  proof (rule Cons.prems(1))
    show "writeNodes (n # ns) st cur d s bin = Inr (cur + 64 * length (n # ns), b2)"
      unfolding b1(1) using b2(1) by (simp add: elf_layout algebra_simps del: writeNodes.simps)
    show "sameSlices (\<lambda>a b. b \<le> cur \<or> cur + 64 * length (n # ns) \<le> a \<and> b \<le> d \<or> d + dataSum (n # ns) \<le> a \<and> b \<le> s \<or> s + nameSum (n # ns) \<le> a) bin b2"
      by (rule sameSlices_trans [OF b1(3) b2(2)]) (use Cons.prems in auto)
    show "\<forall>i < length (n # ns). sectionAt b2 st (cur + 64 * i) (d + dataSum (take i (n # ns))) (s + nameSum (take i (n # ns))) ((n # ns) ! i)"
      using n b2(3) by (auto simp: less_Suc_eq_0_disj algebra_simps)
  qed
qed

definition headerAt :: "bytes \<Rightarrow> nat \<Rightarrow> nat \<Rightarrow> bool" where
  "headerAt bin type num \<longleftrightarrow> bytesAt 0 4 bin = elfMagic \<and> bytesAt eh_Class 1 bin = le_bytes 1 EH_CLASS_64 \<and>
     bytesAt eh_Type 2 bin = le_bytes 2 type \<and> bytesAt eh_SectionHeadersOffset 8 bin = le_bytes 8 64 \<and>
     bytesAt eh_ElfHeaderSize 2 bin = le_bytes 2 64 \<and> bytesAt eh_SectionHeaderEntrySize 2 bin = le_bytes 2 64 \<and>
     bytesAt eh_NumSectionHeaderEntries 2 bin = le_bytes 2 num \<and> bytesAt eh_SectionNameTableIndex 2 bin = le_bytes 2 (num - 1)"

text \<open>A series of stores at places that do not overlap: each can be read back.\<close>

fun overwriteAll :: "(nat \<times> bytes) list \<Rightarrow> bytes \<Rightarrow> bytes" where
  "overwriteAll [] bin = bin"
| "overwriteAll ((off, bs) # fs) bin = overwriteAll fs (overwrite off bs bin)"

fun storeAll :: "(nat \<times> bytes) list \<Rightarrow> bytes \<Rightarrow> bytes rt_result" where
  "storeAll [] bin = Inr bin"
| "storeAll ((off, bs) # fs) bin = rt_bind (store off bs bin) (storeAll fs)"

lemma storeAll_funs:
  "storeAll [] = Inr" "storeAll ((off, bs) # fs) = (\<lambda>bin. rt_bind (store off bs bin) (storeAll fs))" "rt_bind m Inr = m"
  by (auto simp: rt_bind_def split: sum.splits)

lemma storeAll_overwriteAll:
  "\<forall>(off, bs) \<in> set fs. off + length bs \<le> length bin \<Longrightarrow>
   storeAll fs bin = Inr (overwriteAll fs bin) \<and> length (overwriteAll fs bin) = length bin"
  by (induction fs arbitrary: bin) auto

lemma overwriteAll_other:
  "\<forall>(off, bs) \<in> set fs. off + length bs \<le> length bin \<and> (off' + n \<le> off \<or> off + length bs \<le> off') \<Longrightarrow>
   bytesAt off' n (overwriteAll fs bin) = bytesAt off' n bin"
  by (induction fs arbitrary: bin) auto

lemma overwriteAll_same:
  "\<forall>(off, bs) \<in> set fs. off + length bs \<le> length bin \<Longrightarrow>
   sorted_wrt (\<lambda>(o1, b1) (o2, b2). o1 + length b1 \<le> o2 \<or> o2 + length b2 \<le> o1) fs \<Longrightarrow>
   (off', bs') \<in> set fs \<Longrightarrow> n = length bs' \<Longrightarrow> bytesAt off' n (overwriteAll fs bin) = bs'"
proof (induction fs arbitrary: bin)
  case (Cons f fs)
  obtain off bs where f: "f = (off, bs)" by (cases f)
  show ?case
  proof (cases "(off', bs') = f")
    case True
    then have "bytesAt off' n (overwriteAll fs (overwrite off bs bin)) = bytesAt off' n (overwrite off bs bin)"
      using Cons.prems f by (intro overwriteAll_other) auto
    then show ?thesis using True Cons.prems f by simp
  next
    case False
    then show ?thesis using Cons.prems Cons.IH [of "overwrite off bs bin"] f by auto
  qed
qed simp

lemma patchElfHeader_ok:
  assumes "64 \<le> length bin" "0 < wr_numSections w" "wr_numSections w < 2 ^ 32"
  obtains bin' where "patchElfHeader w bin = Inr bin'" "sameSlices (\<lambda>a b. 64 \<le> a) bin bin'"
    "headerAt bin' (wr_type w) (wr_numSections w)"
proof -
  let ?fs = "[(0, elfMagic), (4, le_bytes 1 EH_CLASS_64), (5, le_bytes 1 EH_VERSION_CURRENT), (16, le_bytes 2 (wr_type w)),
    (18, le_bytes 2 (wr_machine w)), (48, le_bytes 4 (wr_flag w)), (52, le_bytes 2 64), (58, le_bytes 2 64),
    (60, le_bytes 2 (wr_numSections w)), (40, le_bytes 8 64), (62, le_bytes 2 (wr_numSections w - 1))]"
  have num: "wrap32 (wr_numSections w + 4294967295) = wr_numSections w - 1"
    using assms(2,3) by (cases "wr_numSections w") auto
  have m: "length elfMagic = 4" by (simp add: elfMagic_def)
  have fit: "\<forall>(off, bs) \<in> set ?fs. off + length bs \<le> length bin" using assms(1) m by simp
  have dis: "sorted_wrt (\<lambda>(o1, b1) (o2, b2). o1 + length b1 \<le> o2 \<or> o2 + length b2 \<le> o1) ?fs" using m by simp
  have "patchElfHeader w bin = storeAll ?fs bin"
    unfolding patchElfHeader_def elf_layout num storeAll_funs ..
  then have "patchElfHeader w bin = Inr (overwriteAll ?fs bin)" "length (overwriteAll ?fs bin) = length bin"
    using storeAll_overwriteAll [OF fit] by (simp_all only:)
  moreover have "\<forall>off k. 64 \<le> off \<longrightarrow> bytesAt off k (overwriteAll ?fs bin) = bytesAt off k bin"
  proof (intro allI impI)
    fix off k :: nat assume "64 \<le> off"
    then show "bytesAt off k (overwriteAll ?fs bin) = bytesAt off k bin" using fit m by (intro overwriteAll_other) simp
  qed
  moreover have "headerAt (overwriteAll ?fs bin) (wr_type w) (wr_numSections w)"
    unfolding headerAt_def elf_layout by (intro conjI; rule overwriteAll_same [OF fit dis]; simp add: m)
  ultimately show ?thesis by (intro that [of "overwriteAll ?fs bin"]) (simp_all only: sameSlices_def)
qed

definition stringHeaderAt :: "bytes \<Rightarrow> nat \<Rightarrow> nat \<Rightarrow> nat \<Rightarrow> bool" where
  "stringHeaderAt bin cur st sz \<longleftrightarrow>
     bytesAt (cur + sh_Type) 4 bin = le_bytes 4 SH_TYPE_STR_TBL \<and> bytesAt (cur + sh_Flags) 8 bin = le_bytes 8 SH_FLAG_NONE \<and>
     bytesAt (cur + sh_DataSize) 8 bin = le_bytes 8 sz \<and> bytesAt (cur + sh_DataOffset) 8 bin = le_bytes 8 st \<and>
     bytesAt (cur + sh_Name) 4 bin = le_bytes 4 0"

lemma length_stringSectionHeader [simp]: "length (stringSectionHeader st w) = 64"
  by (simp add: stringSectionHeader_def)

lemma stringHeader_fields:
  "bytesAt 0 4 (stringSectionHeader st w) = le_bytes 4 0" "bytesAt 4 4 (stringSectionHeader st w) = le_bytes 4 SH_TYPE_STR_TBL"
  "bytesAt 8 8 (stringSectionHeader st w) = le_bytes 8 SH_FLAG_NONE" "bytesAt 24 8 (stringSectionHeader st w) = le_bytes 8 st"
  "bytesAt 32 8 (stringSectionHeader st w) = le_bytes 8 (wr_stringTableSize w)"
  by (simp_all add: stringSectionHeader_def bytesAt_def)

lemma storeStringHeader_ok:
  assumes "cur + 64 \<le> length bin"
  obtains bin' where "store cur (stringSectionHeader st w) bin = Inr bin'" "sameSlices (\<lambda>a b. b \<le> cur \<or> cur + 64 \<le> a) bin bin'"
    "stringHeaderAt bin' cur st (wr_stringTableSize w)"
proof (rule that)
  let ?b = "overwrite cur (stringSectionHeader st w) bin"
  show "store cur (stringSectionHeader st w) bin = Inr ?b" using assms by simp
  show "sameSlices (\<lambda>a b. b \<le> cur \<or> cur + 64 \<le> a) bin ?b" using assms by (auto simp: sameSlices_def)
  have "bytesAt (cur + i) k ?b = bytesAt i k (stringSectionHeader st w)" if "i + k \<le> 64" for i k
    using bytesAt_within [OF that, of cur ?b] assms by simp
  from this [of 0 4] this show "stringHeaderAt ?b cur st (wr_stringTableSize w)"
    by (simp add: stringHeaderAt_def elf_layout stringHeader_fields)
qed

text \<open>A writer whose counters have not wrapped and whose fields fit.\<close>

definition writerFits :: "CElfWriter \<Rightarrow> bool" where
  "writerFits w \<longleftrightarrow> nodes_wf (wr_nodeQueue w) \<and> wr_dataSize w = dataSum (wr_nodeQueue w) \<and>
     wr_numSections w = length (wr_nodeQueue w) \<and> wr_stringTableSize w = nameSum (wr_nodeQueue w) \<and>
     wr_type w < 2 ^ 16 \<and> length (wr_nodeQueue w) + 1 < 2 ^ 16 \<and>
     (\<forall>n \<in> set (wr_nodeQueue w). sn_type n < 2 ^ 32 \<and> sn_flag n < 2 ^ 64) \<and>
     64 + 64 * (length (wr_nodeQueue w) + 1) + dataSum (wr_nodeQueue w) + nameSum (wr_nodeQueue w) < 2 ^ 32"

lemma writerFits_sizes:
  assumes "writerFits w"
  shows "dataStart w = 64 + 64 * (length (wr_nodeQueue w) + 1)"
    "getTotalBinarySize w = dataStart w + dataSum (wr_nodeQueue w) + nameSum (wr_nodeQueue w)"
  using assms by (simp_all add: writerFits_def dataStart_def getTotalBinarySize_def elf_layout)

lemma resolveBinary_ok:
  assumes "writerFits w" "length bin \<le> getTotalBinarySize w"
  obtains w' bin' where "resolveBinary w bin = Inr (w', bin')" "length bin' = getTotalBinarySize w"
    "headerAt bin' (wr_type w) (length (wr_nodeQueue w) + 1)"
    "\<forall>i < length (wr_nodeQueue w). sectionAt bin' (dataStart w + wr_dataSize w) (64 + 64 * i) (dataStart w + dataSum (take i (wr_nodeQueue w)))
       (dataStart w + wr_dataSize w + nameSum (take i (wr_nodeQueue w))) (wr_nodeQueue w ! i)"
    "stringHeaderAt bin' (64 + 64 * length (wr_nodeQueue w)) (dataStart w + wr_dataSize w) (nameSum (wr_nodeQueue w))"
proof -
  let ?ns = "wr_nodeQueue w" and ?d = "dataStart w" and ?st = "dataStart w + wr_dataSize w"
  note sz = writerFits_sizes [OF assms(1)]
  have f: "nodes_wf ?ns" "wr_dataSize w = dataSum ?ns" "wr_stringTableSize w = nameSum ?ns" "wr_numSections w = length ?ns"
    "length ?ns + 1 < 2 ^ 16" using assms(1) by (simp_all add: writerFits_def)
  define b0 where "b0 = (if length bin < getTotalBinarySize w then bin @ replicate (getTotalBinarySize w - length bin) 0 else bin)"
  have l0: "length b0 = getTotalBinarySize w" using assms(2) by (simp add: b0_def)
  have c: "64 + 64 * length ?ns \<le> ?d" "?d + dataSum ?ns \<le> ?st" "?st + nameSum ?ns \<le> length b0" using sz l0 f(2) by simp_all
  obtain b1 where b1: "writeNodes ?ns ?st 64 ?d ?st b0 = Inr (64 + 64 * length ?ns, b1)"
    "\<forall>i < length ?ns. sectionAt b1 ?st (64 + 64 * i) (?d + dataSum (take i ?ns)) (?st + nameSum (take i ?ns)) (?ns ! i)"
    "length b1 = length b0"
    by (rule writeNodes_ok [OF f(1) c, where st = ?st]) (simp add: sameSlices_def)
  have "64 + 64 * length ?ns + 64 \<le> length b1" using b1(3) l0 sz by simp
  then obtain b2 where b2: "store (64 + 64 * length ?ns) (stringSectionHeader ?st w) b1 = Inr b2"
    "sameSlices (\<lambda>a b. b \<le> 64 + 64 * length ?ns \<or> 64 + 64 * length ?ns + 64 \<le> a) b1 b2"
    "stringHeaderAt b2 (64 + 64 * length ?ns) ?st (wr_stringTableSize w)"
    by (rule storeStringHeader_ok)
  let ?w = "w\<lparr>wr_nodeQueue := [], wr_numSections := wrap32 (wr_numSections w + 1)\<rparr>"
  have n: "wrap32 (wr_numSections w + 1) = length ?ns + 1" using f(4,5) by simp
  have "64 \<le> length b2" "0 < wr_numSections ?w" "wr_numSections ?w < 2 ^ 32"
    using b2(2) b1(3) l0 sz n f(5) by (simp_all add: sameSlices_def)
  then obtain b3 where b3: "patchElfHeader ?w b2 = Inr b3" "sameSlices (\<lambda>a b. 64 \<le> a) b2 b3" "headerAt b3 (wr_type ?w) (wr_numSections ?w)"
    by (rule patchElfHeader_ok)
  have "resolveBinary w bin = Inr (?w, b3)"
    using b1(1) b2(1) b3(1) by (simp add: resolveBinary_def Let_def b0_def [symmetric] elf_layout)
  moreover have "\<forall>i < length ?ns. sectionAt b3 ?st (64 + 64 * i) (?d + dataSum (take i ?ns)) (?st + nameSum (take i ?ns)) (?ns ! i)"
  proof (intro allI impI)
    fix i assume i: "i < length ?ns"
    have s12: "sameSlices (\<lambda>a b. 64 \<le> a \<and> (b \<le> 64 + 64 * length ?ns \<or> 64 + 64 * length ?ns + 64 \<le> a)) b1 b3"
      by (rule sameSlices_trans [OF b2(2) b3(2)]) simp
    have "64 + 64 * i + 40 \<le> 64 + 64 * length ?ns" using i by simp
    then show "sectionAt b3 ?st (64 + 64 * i) (?d + dataSum (take i ?ns)) (?st + nameSum (take i ?ns)) (?ns ! i)"
      using sz(1) b1(2) i by (intro sectionAt_frame [OF s12]) auto
  qed
  moreover have "stringHeaderAt b3 (64 + 64 * length ?ns) ?st (nameSum ?ns)"
    using b2(3) sameSlicesD [OF b3(2)] f(3) by (simp add: stringHeaderAt_def elf_layout)
  moreover have "length b3 = getTotalBinarySize w" using b3(2) b2(2) b1(3) l0 by (simp add: sameSlices_def)
  ultimately show ?thesis using that [of ?w b3] b3(3) n by simp
qed

section \<open>What the reader finds\<close>

lemma load_at: "off + n \<le> length bin \<Longrightarrow> load base bin (base + off) n = Inr (bytesAt off n bin)"
  by (simp add: load_def)

lemma loadField_at:
  "bytesAt off n bin = le_bytes n v \<Longrightarrow> off + n \<le> length bin \<Longrightarrow> v < 256 ^ n \<Longrightarrow> loadField base bin (base + off) n = Inr v"
  by (simp add: loadField_def load_at)

lemma readSections_ok:
  assumes "\<forall>i \<in> set idxs. base + headers + i * entrySize \<le> end \<and>
      readSectionHeader base bin end nameTable (base + (headers + i * entrySize)) = Inr (H i)"
    and "end < 18446744073709551616" "sz + sum_list (map (\<lambda>i. shDataSize (H i) + entrySize) idxs) < 18446744073709551616"
  shows "readSections base bin end nameTable headers entrySize idxs sz =
    Inr (map H idxs, sz + sum_list (map (\<lambda>i. shDataSize (H i) + entrySize) idxs))"
  using assms
proof (induction idxs arbitrary: sz)
  case (Cons i idxs)
  have i: "base + (headers + i * entrySize) \<le> end"
    "readSectionHeader base bin end nameTable (base + (headers + i * entrySize)) = Inr (H i)"
    using Cons.prems(1) by simp_all
  then have "headers + i * entrySize < 18446744073709551616" "base + (headers + i * entrySize) < 18446744073709551616"
    using Cons.prems(2) by linarith+
  then have p: "wrap64 (base + wrap64 (headers + i * entrySize)) = base + (headers + i * entrySize)" by simp
  have "sz + shDataSize (H i) + entrySize < 18446744073709551616" using Cons.prems(3) by simp
  then have w: "wrap64 (sz + shDataSize (H i) + entrySize) = sz + shDataSize (H i) + entrySize" by simp
  have IH: "readSections base bin end nameTable headers entrySize idxs (sz + shDataSize (H i) + entrySize) =
    Inr (map H idxs, sz + shDataSize (H i) + entrySize + sum_list (map (\<lambda>i. shDataSize (H i) + entrySize) idxs))"
    using Cons.prems by (intro Cons.IH) auto
  show ?case unfolding readSections.simps Let_def p using i by (simp add: w IH)
qed simp

definition headerOf :: "nat \<Rightarrow> nat \<Rightarrow> nat \<Rightarrow> nat \<Rightarrow> nat \<Rightarrow> SElf64SectionHeader" where
  "headerOf name type flags off sz = \<lparr>shName = name, shType = type, shFlags = flags, shAddress = 0, shDataOffset = off,
     shDataSize = sz, shLink = 0, shInfo = 0, shAlignment = 0, shEntrySize = 0\<rparr>"

lemma headerOf_simps [simp]:
  "shName (headerOf nm ty fl off sz) = nm" "shType (headerOf nm ty fl off sz) = ty" "shFlags (headerOf nm ty fl off sz) = fl"
  "shDataOffset (headerOf nm ty fl off sz) = off" "shDataSize (headerOf nm ty fl off sz) = sz"
  by (simp_all add: headerOf_def)

lemma readSectionHeader_ok:
  assumes "bytesAt (cur + sh_Type) 4 bin = le_bytes 4 ty" "bytesAt (cur + sh_Flags) 8 bin = le_bytes 8 fl"
    "bytesAt (cur + sh_DataSize) 8 bin = le_bytes 8 sz" "bytesAt (cur + sh_DataOffset) 8 bin = le_bytes 8 off"
    "bytesAt (cur + sh_Name) 4 bin = le_bytes 4 nm" "cur + 40 \<le> length bin"
    "ty < 2 ^ 32" "fl < 2 ^ 64" "off + sz \<le> length bin" "nm < 2 ^ 32" "nameTable + nm \<le> base + length bin"
    "base + length bin < 18446744073709551616"
  shows "readSectionHeader base bin (base + length bin) nameTable (base + cur) = Inr (headerOf nm ty fl off sz)"
proof -
  have "sz < 256 ^ 8" "off < 256 ^ 8" using assms(9,12) by simp_all
  then have "loadField base bin (base + cur + sh_DataOffset) 8 = Inr off" "loadField base bin (base + cur + sh_DataSize) 8 = Inr sz"
    "loadField base bin (base + cur + sh_Name) 4 = Inr nm" "loadField base bin (base + cur + sh_Type) 4 = Inr ty"
    "loadField base bin (base + cur + sh_Flags) 8 = Inr fl"
    using assms unfolding add.assoc by (intro loadField_at; simp add: elf_layout)+
  moreover have "wrap64 (base + off + sz) = base + off + sz" "wrap64 (nameTable + nm) = nameTable + nm" using assms(9,11,12) by simp_all
  ultimately show ?thesis
    unfolding readSectionHeader_def headerOf_def using assms(9,11) by simp
qed

lemma sectionAt_read:
  assumes "sectionAt bin st cur d s n" "cur + 40 \<le> length bin" "sn_type n < 2 ^ 32" "sn_flag n < 2 ^ 64" "d + sn_dataSize n \<le> length bin"
    "s - st < 2 ^ 32" "nameTable + (s - st) \<le> base + length bin" "base + length bin < 18446744073709551616"
  shows "readSectionHeader base bin (base + length bin) nameTable (base + cur) = Inr (headerOf (s - st) (sn_type n) (sn_flag n) d (sn_dataSize n))"
  using assms by (intro readSectionHeader_ok) (auto simp: sectionAt_def)

lemma stringHeaderAt_read:
  assumes "stringHeaderAt bin cur st sz" "cur + 40 \<le> length bin" "st + sz \<le> length bin" "nameTable \<le> base + length bin"
    "base + length bin < 18446744073709551616"
  shows "readSectionHeader base bin (base + length bin) nameTable (base + cur) = Inr (headerOf 0 SH_TYPE_STR_TBL SH_FLAG_NONE st sz)"
  using assms by (intro readSectionHeader_ok) (auto simp: stringHeaderAt_def SH_TYPE_STR_TBL_def SH_FLAG_NONE_def)

lemma sums_take_le: "dataSum (take i ns) \<le> dataSum ns" "nameSum (take i ns) \<le> nameSum ns"
  using sums_simps(5,6) [of "take i ns" "drop i ns"] by simp_all

lemma sums_take_nth:
  assumes "i < length ns"
  shows "dataSum (take i ns) + sn_dataSize (ns ! i) \<le> dataSum ns" "nameSum (take i ns) + (length (sn_name (ns ! i)) + 1) \<le> nameSum ns"
  using sums_take_le [of "Suc i" ns] assms by (simp_all add: take_Suc_conv_app_nth)

definition headersOf :: "CElfWriter \<Rightarrow> nat \<Rightarrow> SElf64SectionHeader" where
  "headersOf w i = (let ns = wr_nodeQueue w in
     if i < length ns
     then headerOf (nameSum (take i ns)) (sn_type (ns ! i)) (sn_flag (ns ! i)) (dataStart w + dataSum (take i ns)) (sn_dataSize (ns ! i))
     else headerOf 0 SH_TYPE_STR_TBL SH_FLAG_NONE (dataStart w + wr_dataSize w) (nameSum ns))"

lemma headersOf_sum:
  "sum_list (map (\<lambda>i. shDataSize (headersOf w i) + 64) [0..<length (wr_nodeQueue w) + 1]) =
    64 * (length (wr_nodeQueue w) + 1) + dataSum (wr_nodeQueue w) + nameSum (wr_nodeQueue w)"
proof -
  let ?ns = "wr_nodeQueue w"
  have "map (\<lambda>i. shDataSize (headersOf w i)) [0..<length ?ns] = map (\<lambda>i. sn_dataSize (?ns ! i)) [0..<length ?ns]"
    by (simp add: headersOf_def Let_def)
  also have "\<dots> = map sn_dataSize ?ns" by (rule nth_equalityI) simp_all
  finally show ?thesis
    by (simp add: sum_list_addf dataSum_def sum_list_triv headersOf_def Let_def)
qed

lemma elf_read_back:
  assumes "writerFits w" "length bin \<le> getTotalBinarySize w" "base + getTotalBinarySize w < 18446744073709551616"
  obtains w' bin' rd where "resolveBinary w bin = Inr (w', bin')" "length bin' = getTotalBinarySize w"
    "validateElfBinary base bin' = Inr rd" "rd_beginBinary rd = base" "getElfHeader_Type bin' rd = Inr (wr_type w)"
    "rd_sectionHeaders rd = map (headersOf w) [0..<length (wr_nodeQueue w) + 1]"
    "\<forall>i < length (wr_nodeQueue w). load base bin' (getSectionData (shDataOffset (headersOf w i)) rd) (sn_dataSize (wr_nodeQueue w ! i)) = Inr (nodeData (wr_nodeQueue w ! i))"
    "\<forall>i < length (wr_nodeQueue w). load base bin' (getSectionData (dataStart w + wr_dataSize w + shName (headersOf w i)) rd)
       (length (sn_name (wr_nodeQueue w ! i)) + 1) = Inr (sn_name (wr_nodeQueue w ! i) @ [0])"
proof -
  let ?ns = "wr_nodeQueue w" and ?st = "dataStart w + wr_dataSize w"
  let ?num = "length ?ns + 1"
  note sz = writerFits_sizes [OF assms(1)]
  have f: "wr_dataSize w = dataSum ?ns" "wr_type w < 256 ^ 2" "?num < 256 ^ 2" "getTotalBinarySize w < 2 ^ 32"
    using assms(1) sz by (simp_all add: writerFits_def)
  obtain w' b where b: "resolveBinary w bin = Inr (w', b)" "length b = getTotalBinarySize w" "headerAt b (wr_type w) ?num"
    "\<forall>i < length ?ns. sectionAt b ?st (64 + 64 * i) (dataStart w + dataSum (take i ?ns)) (?st + nameSum (take i ?ns)) (?ns ! i)"
    "stringHeaderAt b (64 + 64 * length ?ns) ?st (nameSum ?ns)"
    by (rule resolveBinary_ok [OF assms(1,2)])
  have e: "base + length b < 18446744073709551616" using assms(3) b(2) by simp
  have nt: "findNameTable base (base + length b) 64 64 (?num - 1) ?num = base + 64 + 64 * length ?ns"
    using e b(2) sz by (simp add: findNameTable_def Let_def)
  have H: "base + 64 + i * 64 \<le> base + length b \<and>
      readSectionHeader base b (base + length b) (base + 64 + 64 * length ?ns) (base + (64 + i * 64)) = Inr (headersOf w i)"
    if i: "i < ?num" for i
  proof (cases "i < length ?ns")
    case True
    note n = sums_take_nth [OF True]
    have t: "sn_type (?ns ! i) < 2 ^ 32" "sn_flag (?ns ! i) < 2 ^ 64" using assms(1) True by (simp_all add: writerFits_def)
    have le: "64 + i * 64 + 40 \<le> length b" using True b(2) sz by simp
    have sa: "sectionAt b ?st (64 + i * 64) (dataStart w + dataSum (take i ?ns)) (?st + nameSum (take i ?ns)) (?ns ! i)"
      using b(4) True by (simp add: mult.commute)
    have "readSectionHeader base b (base + length b) (base + 64 + 64 * length ?ns) (base + (64 + i * 64)) = Inr (headersOf w i)"
      using sectionAt_read [OF sa le t, of "base + 64 + 64 * length ?ns" base] b(2) n f(1,4) e sz True
      by (simp add: headersOf_def Let_def)
    then show ?thesis using le by simp
  next
    case False
    then have i: "64 + i * 64 = 64 + 64 * length ?ns" "i = length ?ns" using i by simp_all
    show ?thesis
      unfolding i(1) using stringHeaderAt_read [OF b(5), of "base + 64 + 64 * length ?ns" base] b(2) f(1,4) e sz i
      by (simp add: headersOf_def Let_def)
  qed
  have "readSections base b (base + length b) (base + 64 + 64 * length ?ns) 64 64 [0..<?num] 64 =
      Inr (map (headersOf w) [0..<?num], 64 + sum_list (map (\<lambda>i. shDataSize (headersOf w i) + 64) [0..<?num]))"
  proof (rule readSections_ok)
    show "\<forall>i \<in> set [0..<?num]. base + 64 + i * 64 \<le> base + length b \<and>
        readSectionHeader base b (base + length b) (base + 64 + 64 * length ?ns) (base + (64 + i * 64)) = Inr (headersOf w i)"
      using H by (simp del: upt_Suc)
    show "64 + sum_list (map (\<lambda>i. shDataSize (headersOf w i) + 64) [0..<?num]) < 18446744073709551616"
      unfolding headersOf_sum using e b(2) sz by simp
  qed (rule e)
  then have secs: "readSections base b (base + length b) (base + 64 + 64 * length ?ns) 64 64 [0..<?num] 64 =
      Inr (map (headersOf w) [0..<?num], length b)"
    unfolding headersOf_sum using b(2) sz by simp
  let ?rd = "\<lparr>rd_beginBinary = base, rd_sectionHeaders = map (headersOf w) [0..<?num]\<rparr>"
  have flds: "load base b base 4 = Inr elfMagic" "loadField base b (base + eh_Class) 1 = Inr EH_CLASS_64"
    "loadField base b (base + eh_ElfHeaderSize) 2 = Inr 64" "loadField base b (base + eh_SectionHeaderEntrySize) 2 = Inr 64"
    "loadField base b (base + eh_SectionNameTableIndex) 2 = Inr (?num - 1)" "loadField base b (base + eh_NumSectionHeaderEntries) 2 = Inr ?num"
    "loadField base b (base + eh_SectionHeadersOffset) 8 = Inr 64" "loadField base b (base + eh_Type) 2 = Inr (wr_type w)"
    using b(2,3) sz f(2,3) load_at [of 0 4 b base]
    by (simp_all add: headerAt_def loadField_at elf_layout EH_CLASS_64_def)
  have "validateElfBinary base b = Inr ?rd"
    unfolding validateElfBinary_def using flds b(2) sz nt secs by (simp add: Let_def sizeof_SElf64Header_def)
  moreover have "getElfHeader_Type b ?rd = Inr (wr_type w)" using flds(8) by (simp add: getElfHeader_Type_def)
  moreover have "load base b (getSectionData (shDataOffset (headersOf w i)) ?rd) (sn_dataSize (?ns ! i)) = Inr (nodeData (?ns ! i))"
    "load base b (getSectionData (?st + shName (headersOf w i)) ?rd) (length (sn_name (?ns ! i)) + 1) = Inr (sn_name (?ns ! i) @ [0])"
    if i: "i < length ?ns" for i
    using b(2,4) i sz f(1) e sums_take_nth [OF i]
    by (auto simp: headersOf_def Let_def getSectionData_def sectionAt_def load_def)
  ultimately show ?thesis by (intro that [of w' b ?rd]) (use b(1,2) in simp_all)
qed

definition sectionsFit :: "nat \<Rightarrow> SSectionNode list \<Rightarrow> bool" where
  "sectionsFit type nodes \<longleftrightarrow> nodes_wf nodes \<and> type < 2 ^ 16 \<and> length nodes + 2 < 2 ^ 16 \<and>
     (\<forall>n \<in> set nodes. sn_type n < 2 ^ 32 \<and> sn_flag n < 2 ^ 64) \<and>
     64 + 64 * (length nodes + 2) + dataSum nodes + (1 + nameSum nodes) < 2 ^ 32"

lemma sectionsFit_butlast: "sectionsFit type (nodes @ [n]) \<Longrightarrow> sectionsFit type nodes"
  by (auto simp: sectionsFit_def nodes_wf_def)

lemma written_sections:
  assumes "sectionsFit type nodes"
  shows "writerFits (fold addSection nodes (CElfWriter_ctor type machine flag)) \<and>
    wr_nodeQueue (fold addSection nodes (CElfWriter_ctor type machine flag)) = SSectionNode_default # nodes \<and>
    wr_type (fold addSection nodes (CElfWriter_ctor type machine flag)) = type"
  using assms
proof (induction nodes rule: rev_induct)
  case Nil
  then show ?case
    by (simp add: CElfWriter_ctor_def addSection_def SSectionNode_default_def writerFits_def nodes_wf_def sectionsFit_def
        SH_TYPE_NULL_def SH_FLAG_NONE_def)
next
  case (snoc n nodes)
  let ?w = "fold addSection nodes (CElfWriter_ctor type machine flag)"
  have w: "wr_nodeQueue ?w = SSectionNode_default # nodes" "wr_type ?w = type" "writerFits ?w"
    using snoc.IH sectionsFit_butlast [OF snoc.prems] by simp_all
  have u: "wr_dataSize ?w = dataSum nodes" "wr_numSections ?w = length nodes + 1" "wr_stringTableSize ?w = 1 + nameSum nodes"
    using w(3) unfolding writerFits_def w(1) by (simp_all add: SSectionNode_default_def)
  have q: "wr_nodeQueue (addSection n ?w) = SSectionNode_default # nodes @ [n]" "wr_type (addSection n ?w) = type"
    using w(1,2) by (simp_all add: addSection_def)
  have v: "wr_dataSize (addSection n ?w) = dataSum (nodes @ [n])" "wr_numSections (addSection n ?w) = length nodes + 2"
    "wr_stringTableSize (addSection n ?w) = 1 + nameSum (nodes @ [n])"
    using u snoc.prems unfolding sectionsFit_def by (simp_all add: addSection_def)
  have "nodes_wf (SSectionNode_default # nodes @ [n])" "\<forall>m \<in> set (SSectionNode_default # nodes @ [n]). sn_type m < 2 ^ 32 \<and> sn_flag m < 2 ^ 64"
    using snoc.prems by (simp_all add: sectionsFit_def nodes_wf_def SSectionNode_default_def SH_TYPE_NULL_def SH_FLAG_NONE_def)
  moreover have "64 + 64 * (length (SSectionNode_default # nodes @ [n]) + 1) + dataSum (SSectionNode_default # nodes @ [n]) + nameSum (SSectionNode_default # nodes @ [n]) < 2 ^ 32"
    "type < 2 ^ 16" "length (SSectionNode_default # nodes @ [n]) + 1 < 2 ^ 16"
    using snoc.prems by (simp_all add: sectionsFit_def SSectionNode_default_def)
  ultimately have "writerFits (addSection n ?w)"
    unfolding writerFits_def q v by (simp add: SSectionNode_default_def)
  then show ?case using q by simp
qed

text \<open>Claim C34: a writer to which sections have been added that fit the format (16-bit counts, a total below
  4 GB, data no longer than its string) resolves into any buffer that is not too large, and the reader accepts the
  result at any address: it finds the type of the file, one header per section after the null section and before
  the string table, and through each header the type, the flags, the bytes of the data and the name that
  were added.\<close>

theorem elf_roundtrip:
  assumes "sectionsFit type nodes" and w: "w = fold addSection nodes (CElfWriter_ctor type machine flag)"
    and "length bin \<le> getTotalBinarySize w" "base + getTotalBinarySize w < 18446744073709551616"
  shows "\<exists>w' bin' rd. resolveBinary w bin = Inr (w', bin') \<and> validateElfBinary base bin' = Inr rd \<and>
    getElfHeader_Type bin' rd = Inr type \<and> length (rd_sectionHeaders rd) = length nodes + 2 \<and>
    (\<forall>i < length nodes. let h = rd_sectionHeaders rd ! (i + 1); names = shDataOffset (last (rd_sectionHeaders rd)) in
       shType h = sn_type (nodes ! i) \<and> shFlags h = sn_flag (nodes ! i) \<and>
       load base bin' (getSectionData (shDataOffset h) rd) (shDataSize h) = Inr (nodeData (nodes ! i)) \<and>
       load base bin' (getSectionData (names + shName h) rd) (length (sn_name (nodes ! i)) + 1) = Inr (sn_name (nodes ! i) @ [0]))"
proof -
  have f: "writerFits w" "wr_nodeQueue w = SSectionNode_default # nodes" "wr_type w = type"
    using written_sections [OF assms(1)] w by auto
  obtain w' b rd where b: "resolveBinary w bin = Inr (w', b)" "validateElfBinary base b = Inr rd" "getElfHeader_Type b rd = Inr (wr_type w)"
    "rd_sectionHeaders rd = map (headersOf w) [0..<length (wr_nodeQueue w) + 1]"
    "\<forall>i < length (wr_nodeQueue w). load base b (getSectionData (shDataOffset (headersOf w i)) rd) (sn_dataSize (wr_nodeQueue w ! i)) = Inr (nodeData (wr_nodeQueue w ! i))"
    "\<forall>i < length (wr_nodeQueue w). load base b (getSectionData (dataStart w + wr_dataSize w + shName (headersOf w i)) rd)
       (length (sn_name (wr_nodeQueue w ! i)) + 1) = Inr (sn_name (wr_nodeQueue w ! i) @ [0])"
    by (rule elf_read_back [OF f(1) assms(3,4)])
  have h: "rd_sectionHeaders rd ! (i + 1) = headersOf w (i + 1)" if "i < length nodes" for i
    using that f(2) b(4) by (simp del: upt_Suc)
  have l: "shDataOffset (last (rd_sectionHeaders rd)) = dataStart w + wr_dataSize w" "length (rd_sectionHeaders rd) = length nodes + 2"
    using b(4) f(2) by (simp_all add: headersOf_def)
  have "shType (headersOf w (i + 1)) = sn_type (nodes ! i)" "shFlags (headersOf w (i + 1)) = sn_flag (nodes ! i)"
    "shDataSize (headersOf w (i + 1)) = sn_dataSize (nodes ! i)" if "i < length nodes" for i
    using that f(2) by (simp_all add: headersOf_def)
  then have "\<forall>i < length nodes. let h = rd_sectionHeaders rd ! (i + 1); names = shDataOffset (last (rd_sectionHeaders rd)) in
       shType h = sn_type (nodes ! i) \<and> shFlags h = sn_flag (nodes ! i) \<and>
       load base b (getSectionData (shDataOffset h) rd) (shDataSize h) = Inr (nodeData (nodes ! i)) \<and>
       load base b (getSectionData (names + shName h) rd) (length (sn_name (nodes ! i)) + 1) = Inr (sn_name (nodes ! i) @ [0])"
    using spec [OF b(5), of "i + 1" for i] spec [OF b(6), of "i + 1" for i] f(2) by (simp add: Let_def h l del: One_nat_def)
  then show ?thesis using b(1-3) f(3) l(2) by blast
qed

theorem elf_roundtrip_witness:
  "\<exists>w' bin rd. resolveBinary (fold addSection
       [\<lparr>sn_type = SH_TYPE_SPIRV, sn_flag = 0, sn_name = [65], sn_data = [1, 2, 3], sn_dataSize = 3\<rparr>] (CElfWriter_ctor 0xff02 0 0)) [] = Inr (w', bin) \<and>
     validateElfBinary 4096 bin = Inr rd \<and> load 4096 bin (getSectionData (shDataOffset (rd_sectionHeaders rd ! 1)) rd) (shDataSize (rd_sectionHeaders rd ! 1)) = Inr [1, 2, 3]"
proof -
  let ?n = "\<lparr>sn_type = SH_TYPE_SPIRV, sn_flag = 0, sn_name = [65], sn_data = [1, 2, 3], sn_dataSize = 3\<rparr>"
  have "sectionsFit 0xff02 [?n]" by (simp add: sectionsFit_def nodes_wf_def SH_TYPE_SPIRV_def)
  moreover have "getTotalBinarySize (fold addSection [?n] (CElfWriter_ctor 0xff02 0 0)) = 262"
    by (simp add: getTotalBinarySize_def dataStart_def addSection_def CElfWriter_ctor_def SSectionNode_default_def elf_layout)
  ultimately show ?thesis
    using elf_roundtrip [of "0xff02" "[?n]" _ 0 0 "[]" 4096, OF _ refl] by (auto simp: Let_def nodeData_def)
qed

text \<open>A file of one header that promises a section header behind its end.\<close>

definition truncatedElf :: bytes where
  "truncatedElf = elfMagic @ [2, 1] @ replicate 10 0 @ [4, 0xff] @ replicate 22 0 @ [64] @ replicate 11 0 @ [64, 0] @
     replicate 4 0 @ [64, 0, 1, 0, 0, 0]"

text \<open>The check of a section header compares its first byte with the end of the binary only, so
  for a binary of 64 bytes that announces one section header at offset 64 the reader reads past the end.\<close>

theorem reader_reads_past_end:
  "length truncatedElf = 64 \<and> validateElfBinary 4096 truncatedElf = Inl OutOfBounds"
proof
  note ev = bytesAt_def truncatedElf_def elfMagic_def elf_layout
  show l: "length truncatedElf = 64" by (simp add: truncatedElf_def elfMagic_def)
  have "bytesAt 0 4 truncatedElf = elfMagic" "bytesAt eh_Class 1 truncatedElf = [2]" "bytesAt eh_ElfHeaderSize 2 truncatedElf = [64, 0]"
    "bytesAt eh_SectionHeaderEntrySize 2 truncatedElf = [64, 0]" "bytesAt eh_SectionNameTableIndex 2 truncatedElf = [0, 0]"
    "bytesAt eh_NumSectionHeaderEntries 2 truncatedElf = [1, 0]" "bytesAt eh_SectionHeadersOffset 8 truncatedElf = [64, 0, 0, 0, 0, 0, 0, 0]"
    by (simp_all add: ev numeral_eq_Suc)
  then show "validateElfBinary 4096 truncatedElf = Inl OutOfBounds"
    using load_at [of 0 4 truncatedElf 4096] l
    by (simp add: validateElfBinary_def loadField_def load_at readSectionHeader_def Let_def EH_CLASS_64_def sizeof_SElf64Header_def
        load_def eh_Class_def eh_ElfHeaderSize_def eh_SectionHeaderEntrySize_def eh_SectionNameTableIndex_def
        eh_NumSectionHeaderEntries_def eh_SectionHeadersOffset_def sh_DataOffset_def)
qed

end
