(* ===== verification/Program_Binary.thy ===== *)
theory Program_Binary
  imports Elf_Container
begin

text \<open>
  How a program is saved as a binary and loaded again: \<^verbatim>\<open>Program::resolveProgramBinary\<close> and
  \<^verbatim>\<open>Program::processElfBinary\<close> (\<^verbatim>\<open>program/process_elf_binary.cpp\<close>) over the container of
  \<open>Elf_Container\<close>, with the stores of \<^verbatim>\<open>program.cpp\<close> and the recognition of LLVM and SPIR-V input.
  A binary the program owns is a pointer, null or to bytes, and a size. The layout of the
  device binary's header, its magic number and version and the table of enabled families come from
  outside the repository's sources and are a parameter.
\<close>

definition CL_SUCCESS :: int where "CL_SUCCESS = 0"
definition CL_OUT_OF_HOST_MEMORY :: int where "CL_OUT_OF_HOST_MEMORY = - 6"
definition CL_INVALID_BINARY :: int where "CL_INVALID_BINARY = - 42"
definition CL_PROGRAM_BINARY_TYPE_COMPILED_OBJECT :: nat where "CL_PROGRAM_BINARY_TYPE_COMPILED_OBJECT = 1"
definition CL_PROGRAM_BINARY_TYPE_LIBRARY :: nat where "CL_PROGRAM_BINARY_TYPE_LIBRARY = 2"
definition CL_PROGRAM_BINARY_TYPE_EXECUTABLE :: nat where "CL_PROGRAM_BINARY_TYPE_EXECUTABLE = 4"
definition CL_PROGRAM_BINARY_TYPE_INTERMEDIATE :: nat where "CL_PROGRAM_BINARY_TYPE_INTERMEDIATE = 0x40E1"

definition CL_BUILD_NONE :: int where "CL_BUILD_NONE = - 1"

record GenBinaryFormat =
  gf_magicOffset :: nat
  gf_versionOffset :: nat
  gf_deviceOffset :: nat
  MAGIC_CL :: nat
  CURRENT_ICBE_VERSION :: nat
  familyEnabled :: "nat \<Rightarrow> bool"

record Program =
  programBinaryType :: nat
  isSpirV :: bool
  elfBinary :: bytes
  elfBinarySize :: nat
  genBinary :: "bytes option"
  genBinarySize :: nat
  irBinary :: "bytes option"
  irBinarySize :: nat
  debugData :: "bytes option"
  debugDataSize :: nat
  isCreatedFromBinary :: bool
  isProgramBinaryResolved :: bool
  options :: bytes
  sourceCode :: bytes
  buildLog :: "nat \<Rightarrow> bytes option"
  buildStatus :: int

section \<open>Stores\<close>

text \<open>The copy is refused when the size does not fit 32 bits; then the new array keeps what it held.\<close>

definition storeBinary :: "(nat \<Rightarrow> bytes) \<Rightarrow> bytes \<Rightarrow> bytes option \<times> nat" where
  "storeBinary uninitialised src =
     (let dstSize = wrap32 (length src)
      in (Some (if dstSize < length src then uninitialised (length src) else src), dstSize))"

definition storeGenBinary :: "(nat \<Rightarrow> bytes) \<Rightarrow> bytes \<Rightarrow> Program \<Rightarrow> Program" where
  "storeGenBinary u src p = (case storeBinary u src of (b, n) \<Rightarrow> p\<lparr>genBinary := b, genBinarySize := n\<rparr>)"

definition storeIrBinary :: "(nat \<Rightarrow> bytes) \<Rightarrow> bytes \<Rightarrow> bool \<Rightarrow> Program \<Rightarrow> Program" where
  "storeIrBinary u src spirv p =
     (case storeBinary u src of (b, n) \<Rightarrow> p\<lparr>irBinary := b, irBinarySize := n, isSpirV := spirv\<rparr>)"

definition storeDebugData :: "(nat \<Rightarrow> bytes) \<Rightarrow> bytes \<Rightarrow> Program \<Rightarrow> Program" where
  "storeDebugData u src p = (case storeBinary u src of (b, n) \<Rightarrow> p\<lparr>debugData := b, debugDataSize := n\<rparr>)"

definition updateBuildLog :: "nat \<Rightarrow> bytes \<Rightarrow> Program \<Rightarrow> Program" where
  "updateBuildLog device s p =
     (if s = [] \<or> hd s = 0 then p
      else let s = (if last s = 0 then butlast s else s)
           in case buildLog p device of
                None \<Rightarrow> p\<lparr>buildLog := (buildLog p)(device := Some s)\<rparr>
              | Some old \<Rightarrow> p\<lparr>buildLog := (buildLog p)(device := Some (old @ [10] @ s))\<rparr>)"

section \<open>Recognition of the input\<close>

text \<open>\<^verbatim>\<open>strstr\<close> on memory that ends where the binary ends: without a match and a null byte it runs past it.\<close>

fun strstr :: "bytes \<Rightarrow> bytes \<Rightarrow> bool rt_result" where
  "strstr needle [] = Inl OutOfBounds"
| "strstr needle (b # bs) =
     (if take (length needle) (b # bs) = needle then Inr True else if b = 0 then Inr False else strstr needle bs)"

definition isValidLlvmBinary :: "bytes \<Rightarrow> bool rt_result" where
  "isValidLlvmBinary bin =
     (let pLlvmMagic = [0x42, 0x43, 0xc0, 0xde]
      in if length bin > length pLlvmMagic + 1 then strstr pLlvmMagic bin else Inr False)"

definition isValidSpirvBinary :: "bytes \<Rightarrow> bool" where
  "isValidSpirvBinary bin \<longleftrightarrow> length bin > 4 \<and> (take 4 bin = le_bytes 4 0x03022307 \<or> take 4 bin = le_bytes 4 0x07230203)"

definition processSpirBinary :: "bytes \<Rightarrow> bool \<Rightarrow> Program \<Rightarrow> int \<times> Program" where
  "processSpirBinary bin spirv p =
     (CL_SUCCESS, p\<lparr>programBinaryType := CL_PROGRAM_BINARY_TYPE_INTERMEDIATE, sourceCode := bin,
       buildStatus := CL_BUILD_NONE, isSpirV := spirv\<rparr>)"

section \<open>Loading\<close>

definition validateGenBinaryHeader :: "GenBinaryFormat \<Rightarrow> nat \<Rightarrow> bytes \<Rightarrow> nat \<Rightarrow> bool rt_result" where
  "validateGenBinaryHeader f base bin p =
     rt_bind (loadField base bin (p + gf_magicOffset f) 4) (\<lambda>magic.
     if magic \<noteq> MAGIC_CL f then Inr False
     else rt_bind (loadField base bin (p + gf_versionOffset f) 4) (\<lambda>version.
     if version \<noteq> CURRENT_ICBE_VERSION f then Inr False
     else rt_bind (loadField base bin (p + gf_deviceOffset f) 4) (\<lambda>device. Inr (familyEnabled f device))))"

definition getProgramCompilerVersion :: "GenBinaryFormat \<Rightarrow> nat \<Rightarrow> bytes \<Rightarrow> nat \<Rightarrow> nat \<Rightarrow> nat rt_result" where
  "getProgramCompilerVersion f base bin p binaryVersion =
     (if p \<noteq> 0 then loadField base bin (p + gf_versionOffset f) 4 else Inr binaryVersion)"

text \<open>One section; a value is the early return.\<close>

definition processSection ::
  "GenBinaryFormat \<Rightarrow> (nat \<Rightarrow> bytes) \<Rightarrow> nat \<Rightarrow> bytes \<Rightarrow> CElfReader \<Rightarrow> SElf64SectionHeader \<Rightarrow> nat \<Rightarrow> Program
   \<Rightarrow> (int option \<times> nat \<times> Program) rt_result" where
  "processSection f u base bin rd h version p =
     (let ptr = getSectionData (shDataOffset h) rd; sz = shDataSize h; ty = shType h in
      if ty = SH_TYPE_SPIRV \<or> ty = SH_TYPE_OPENCL_LLVM_BINARY then
        let p = (if ty = SH_TYPE_SPIRV then p\<lparr>isSpirV := True\<rparr> else p)
        in if sz > 0 then rt_bind (load base bin ptr sz) (\<lambda>d. Inr (None, version, storeIrBinary u d (isSpirV p) p))
           else Inr (None, version, p)
      else if ty = SH_TYPE_OPENCL_DEV_BINARY then
        rt_bind (if sz > 0 then validateGenBinaryHeader f base bin ptr else Inr False) (\<lambda>ok.
        if ok then rt_bind (load base bin ptr sz) (\<lambda>d. Inr (None, version, (storeGenBinary u d p)\<lparr>isCreatedFromBinary := True\<rparr>))
        else rt_bind (getProgramCompilerVersion f base bin ptr version) (\<lambda>version. Inr (Some CL_INVALID_BINARY, version, p)))
      else if ty = SH_TYPE_OPENCL_OPTIONS then
        if sz > 0 then rt_bind (load base bin ptr sz) (\<lambda>d. Inr (None, version, p\<lparr>options := d\<rparr>)) else Inr (None, version, p)
      else if ty = SH_TYPE_STR_TBL then Inr (None, version, p)
      else Inr (Some CL_INVALID_BINARY, version, p))"

fun processSections ::
  "GenBinaryFormat \<Rightarrow> (nat \<Rightarrow> bytes) \<Rightarrow> nat \<Rightarrow> bytes \<Rightarrow> CElfReader \<Rightarrow> SElf64SectionHeader list \<Rightarrow> nat \<Rightarrow> Program
   \<Rightarrow> (int option \<times> nat \<times> Program) rt_result" where
  "processSections f u base bin rd [] version p = Inr (None, version, p)"
| "processSections f u base bin rd (h # hs) version p =
     rt_bind (processSection f u base bin rd h version p) (\<lambda>(ret, version, p).
       case ret of Some r \<Rightarrow> Inr (Some r, version, p)
       | None \<Rightarrow> processSections f u base bin rd hs version p)"

definition binaryTypeOf :: "nat \<Rightarrow> nat option" where
  "binaryTypeOf type =
     (if type = EH_TYPE_OPENCL_EXECUTABLE then Some CL_PROGRAM_BINARY_TYPE_EXECUTABLE
      else if type = EH_TYPE_OPENCL_LIBRARY then Some CL_PROGRAM_BINARY_TYPE_LIBRARY
      else if type = EH_TYPE_OPENCL_OBJECTS then Some CL_PROGRAM_BINARY_TYPE_COMPILED_OBJECT
      else None)"

definition processElfBinary ::
  "GenBinaryFormat \<Rightarrow> (nat \<Rightarrow> bytes) \<Rightarrow> nat \<Rightarrow> nat \<Rightarrow> bytes \<Rightarrow> Program \<Rightarrow> (int \<times> nat \<times> Program) rt_result" where
  "processElfBinary f u device base bin p =
     (let version = CURRENT_ICBE_VERSION f; p = p\<lparr>elfBinarySize := length bin, elfBinary := bin\<rparr> in
      case validateElfBinary base bin of
        Inl Thrown \<Rightarrow> Inr (CL_INVALID_BINARY, version, p)
      | Inl x \<Rightarrow> Inl x
      | Inr rd \<Rightarrow>
          rt_bind (getElfHeader_Type bin rd) (\<lambda>type.
          case binaryTypeOf type of
            None \<Rightarrow> Inr (CL_INVALID_BINARY, version, p)
          | Some t \<Rightarrow>
              rt_bind (processSections f u base bin rd (drop 1 (rd_sectionHeaders rd)) version (p\<lparr>programBinaryType := t\<rparr>))
                (\<lambda>(ret, version, p).
                   case ret of Some r \<Rightarrow> Inr (r, version, p)
                   | None \<Rightarrow> Inr (CL_SUCCESS, version, updateBuildLog device [0] (p\<lparr>isProgramBinaryResolved := True\<rparr>)))))"

section \<open>Saving\<close>

definition str :: "string \<Rightarrow> bytes" where "str s = map (\<lambda>c. of_nat (of_char c)) s"

definition headerTypeOf :: "Program \<Rightarrow> nat option" where
  "headerTypeOf p =
     (if programBinaryType p = CL_PROGRAM_BINARY_TYPE_EXECUTABLE
      then if genBinary p = None \<or> genBinarySize p = 0 then None else Some EH_TYPE_OPENCL_EXECUTABLE
      else if programBinaryType p = CL_PROGRAM_BINARY_TYPE_LIBRARY
      then if irBinary p = None \<or> irBinarySize p = 0 then None else Some EH_TYPE_OPENCL_LIBRARY
      else if programBinaryType p = CL_PROGRAM_BINARY_TYPE_COMPILED_OBJECT
      then if irBinary p = None \<or> irBinarySize p = 0 then None else Some EH_TYPE_OPENCL_OBJECTS
      else None)"

definition ownedBytes :: "bytes option \<Rightarrow> nat \<Rightarrow> bytes" where
  "ownedBytes b n = (case b of None \<Rightarrow> [] | Some bs \<Rightarrow> take n bs)"

definition optionsNode :: "Program \<Rightarrow> SSectionNode" where
  "optionsNode p = \<lparr>sn_type = SH_TYPE_OPENCL_OPTIONS, sn_flag = SH_FLAG_NONE, sn_name = str ''BuildOptions'',
     sn_data = options p, sn_dataSize = wrap32 (length (takeWhile (\<lambda>c. c \<noteq> 0) (options p)) + 1)\<rparr>"

definition irNode :: "nat \<Rightarrow> Program \<Rightarrow> SSectionNode" where
  "irNode headerType p = \<lparr>sn_type = (if isSpirV p then SH_TYPE_SPIRV else SH_TYPE_OPENCL_LLVM_BINARY), sn_flag = SH_FLAG_NONE,
     sn_name = (if headerType = EH_TYPE_OPENCL_LIBRARY then str ''Intel(R) OpenCL LLVM Archive'' else str ''Intel(R) OpenCL LLVM Object''),
     sn_data = ownedBytes (irBinary p) (irBinarySize p), sn_dataSize = wrap32 (irBinarySize p)\<rparr>"

definition genNode :: "Program \<Rightarrow> SSectionNode" where
  "genNode p = \<lparr>sn_type = SH_TYPE_OPENCL_DEV_BINARY, sn_flag = SH_FLAG_NONE, sn_name = str ''Intel(R) OpenCL Device Binary'',
     sn_data = ownedBytes (genBinary p) (genBinarySize p), sn_dataSize = wrap32 (genBinarySize p)\<rparr>"

definition debugNode :: "Program \<Rightarrow> SSectionNode" where
  "debugNode p = \<lparr>sn_type = SH_TYPE_OPENCL_DEV_DEBUG, sn_flag = SH_FLAG_NONE, sn_name = str ''Intel(R) OpenCL Device Debug'',
     sn_data = ownedBytes (debugData p) (debugDataSize p), sn_dataSize = wrap32 (debugDataSize p)\<rparr>"

definition resolveProgramBinary :: "Program \<Rightarrow> (int \<times> Program) rt_result" where
  "resolveProgramBinary p =
     (if isProgramBinaryResolved p then Inr (CL_OUT_OF_HOST_MEMORY, p)
      else let p = p\<lparr>elfBinary := [], elfBinarySize := 0\<rparr> in
        case headerTypeOf p of
          None \<Rightarrow> Inr (CL_INVALID_BINARY, p)
        | Some headerType \<Rightarrow>
            let w = CElfWriter_ctor headerType EH_MACHINE_NONE 0;
                w = addSection (optionsNode p) w;
                w = addSection (irNode headerType p) w;
                w = (if genBinary p \<noteq> None then addSection (genNode p) w else w);
                w = (if debugData p \<noteq> None then addSection (debugNode p) w else w);
                total = getTotalBinarySize w
            in rt_bind (resolveBinary w (replicate total 0)) (\<lambda>(w, bin).
                 Inr (CL_SUCCESS, p\<lparr>elfBinarySize := total, elfBinary := bin, isProgramBinaryResolved := True\<rparr>)))"

section \<open>The sections of a saved program\<close>

definition carries :: "nat \<Rightarrow> bytes \<Rightarrow> CElfReader \<Rightarrow> SElf64SectionHeader \<Rightarrow> SSectionNode \<Rightarrow> bool" where
  "carries base bin rd h n \<longleftrightarrow> shType h = sn_type n \<and> shDataSize h = sn_dataSize n \<and>
     load base bin (getSectionData (shDataOffset h) rd) (sn_dataSize n) = Inr (nodeData n)"

lemma saved_sections:
  assumes "sectionsFit type nodes" "w = fold addSection nodes (CElfWriter_ctor type machine flag)"
    "base + getTotalBinarySize w < 18446744073709551616"
  obtains w' b rd hs sh where "resolveBinary w (replicate (getTotalBinarySize w) 0) = Inr (w', b)" "validateElfBinary base b = Inr rd"
    "getElfHeader_Type b rd = Inr type" "drop 1 (rd_sectionHeaders rd) = hs @ [sh]" "shType sh = SH_TYPE_STR_TBL"
    "list_all2 (carries base b rd) hs nodes"
proof -
  have f: "writerFits w" "wr_nodeQueue w = SSectionNode_default # nodes" "wr_type w = type"
    using written_sections [OF assms(1)] assms(2) by auto
  have l: "length (replicate (getTotalBinarySize w) 0) \<le> getTotalBinarySize w" by simp
  obtain w' b rd where b: "resolveBinary w (replicate (getTotalBinarySize w) 0) = Inr (w', b)" "validateElfBinary base b = Inr rd"
    "getElfHeader_Type b rd = Inr (wr_type w)" "rd_sectionHeaders rd = map (headersOf w) [0..<length (wr_nodeQueue w) + 1]"
    "\<forall>i < length (wr_nodeQueue w). load base b (getSectionData (shDataOffset (headersOf w i)) rd) (sn_dataSize (wr_nodeQueue w ! i)) = Inr (nodeData (wr_nodeQueue w ! i))"
    by (rule elf_read_back [OF f(1) l assms(3)])
  let ?hs = "map (headersOf w) [1..<length nodes + 1]" and ?sh = "headersOf w (length nodes + 1)"
  have "drop 1 (rd_sectionHeaders rd) = ?hs @ [?sh]"
    using b(4) f(2) by (simp add: drop_map) (simp add: not_le)
  moreover have "shType ?sh = SH_TYPE_STR_TBL" using f(2) by (simp add: headersOf_def)
  moreover have "list_all2 (carries base b rd) ?hs nodes"
    unfolding list_all2_conv_all_nth
  proof (intro conjI allI impI)
    fix i assume "i < length ?hs"
    then have i: "i < length nodes" by (simp del: upt_Suc)
    have "shType (headersOf w (i + 1)) = sn_type (nodes ! i)" "shDataSize (headersOf w (i + 1)) = sn_dataSize (nodes ! i)"
      using i f(2) by (simp_all add: headersOf_def)
    then show "carries base b rd (?hs ! i) (nodes ! i)"
      using i f(2) spec [OF b(5), of "i + 1"] by (simp add: carries_def del: upt_Suc)
  qed (simp del: upt_Suc)
  ultimately show ?thesis using b(1-3) f(3) that by blast
qed

lemma load_within:
  assumes "load base bin p n = Inr d" "k + m \<le> n"
  shows "load base bin (p + k) m = Inr (bytesAt k m d)"
  using assms bytesAt_within [of k m n "p - base" bin] by (auto simp: load_def split: if_splits)

lemma type_distinct:
  "SH_TYPE_SPIRV \<noteq> SH_TYPE_OPENCL_LLVM_BINARY" "SH_TYPE_OPENCL_DEV_BINARY \<noteq> SH_TYPE_SPIRV"
  "SH_TYPE_OPENCL_DEV_BINARY \<noteq> SH_TYPE_OPENCL_LLVM_BINARY" "SH_TYPE_OPENCL_OPTIONS \<noteq> SH_TYPE_SPIRV"
  "SH_TYPE_OPENCL_OPTIONS \<noteq> SH_TYPE_OPENCL_LLVM_BINARY" "SH_TYPE_OPENCL_OPTIONS \<noteq> SH_TYPE_OPENCL_DEV_BINARY"
  "SH_TYPE_STR_TBL \<noteq> SH_TYPE_SPIRV" "SH_TYPE_STR_TBL \<noteq> SH_TYPE_OPENCL_LLVM_BINARY"
  "SH_TYPE_STR_TBL \<noteq> SH_TYPE_OPENCL_DEV_BINARY" "SH_TYPE_STR_TBL \<noteq> SH_TYPE_OPENCL_OPTIONS"
  "SH_TYPE_OPENCL_DEV_DEBUG \<notin> {SH_TYPE_SPIRV, SH_TYPE_OPENCL_LLVM_BINARY, SH_TYPE_OPENCL_DEV_BINARY, SH_TYPE_OPENCL_OPTIONS, SH_TYPE_STR_TBL}"
  by (simp_all add: SH_TYPE_SPIRV_def SH_TYPE_OPENCL_LLVM_BINARY_def SH_TYPE_OPENCL_DEV_BINARY_def SH_TYPE_OPENCL_OPTIONS_def
      SH_TYPE_STR_TBL_def SH_TYPE_OPENCL_DEV_DEBUG_def)

lemma processSection_options:
  "carries base b rd h n \<Longrightarrow> sn_type n = SH_TYPE_OPENCL_OPTIONS \<Longrightarrow> 0 < sn_dataSize n \<Longrightarrow>
   processSection f u base b rd h v p = Inr (None, v, p\<lparr>options := nodeData n\<rparr>)"
  using type_distinct by (simp add: processSection_def carries_def Let_def)

lemma processSection_ir:
  "carries base b rd h n \<Longrightarrow> sn_type n = (if spirv then SH_TYPE_SPIRV else SH_TYPE_OPENCL_LLVM_BINARY) \<Longrightarrow>
   processSection f u base b rd h v p =
     Inr (None, v, if 0 < sn_dataSize n then storeIrBinary u (nodeData n) (spirv \<or> isSpirV p) p else p\<lparr>isSpirV := spirv \<or> isSpirV p\<rparr>)"
  using type_distinct by (simp add: processSection_def carries_def Let_def storeIrBinary_def split: prod.split)

definition genValid :: "GenBinaryFormat \<Rightarrow> bytes \<Rightarrow> bool" where
  "genValid f g \<longleftrightarrow> gf_magicOffset f + 4 \<le> length g \<and> gf_versionOffset f + 4 \<le> length g \<and> gf_deviceOffset f + 4 \<le> length g \<and>
     le_value (bytesAt (gf_magicOffset f) 4 g) = MAGIC_CL f \<and> le_value (bytesAt (gf_versionOffset f) 4 g) = CURRENT_ICBE_VERSION f \<and>
     familyEnabled f (le_value (bytesAt (gf_deviceOffset f) 4 g))"

lemma processSection_gen:
  assumes "carries base b rd h n" "sn_type n = SH_TYPE_OPENCL_DEV_BINARY" "0 < sn_dataSize n" "genValid f (nodeData n)"
    "length (nodeData n) = sn_dataSize n"
  shows "processSection f u base b rd h v p = Inr (None, v, (storeGenBinary u (nodeData n) p)\<lparr>isCreatedFromBinary := True\<rparr>)"
proof -
  have d: "load base b (getSectionData (shDataOffset h) rd) (sn_dataSize n) = Inr (nodeData n)" using assms(1) by (simp add: carries_def)
  have "validateGenBinaryHeader f base b (getSectionData (shDataOffset h) rd) = Inr True"
    using assms(4,5) load_within [OF d] by (simp add: validateGenBinaryHeader_def genValid_def loadField_def)
  then show ?thesis
    using assms(1-3) d type_distinct by (simp add: processSection_def carries_def Let_def)
qed

lemma processSection_strings:
  "shType h = SH_TYPE_STR_TBL \<Longrightarrow> processSection f u base b rd h v p = Inr (None, v, p)"
  using type_distinct by (simp add: processSection_def Let_def)

lemma processSection_debug:
  "shType h = SH_TYPE_OPENCL_DEV_DEBUG \<Longrightarrow> processSection f u base b rd h v p = Inr (Some CL_INVALID_BINARY, v, p)"
  using type_distinct(11) by (simp add: processSection_def Let_def)

section \<open>Saving and loading\<close>

definition owned :: "bytes option \<Rightarrow> nat \<Rightarrow> bool" where
  "owned b n \<longleftrightarrow> (case b of None \<Rightarrow> n = 0 | Some bs \<Rightarrow> length bs = n)"

text \<open>A program whose binaries have the sizes it records, a valid device binary if it has one, options without
  null bytes, all together below 2 GB.\<close>

definition savable :: "GenBinaryFormat \<Rightarrow> Program \<Rightarrow> bool" where
  "savable f p \<longleftrightarrow> \<not> isProgramBinaryResolved p \<and> owned (genBinary p) (genBinarySize p) \<and> owned (irBinary p) (irBinarySize p) \<and>
     owned (debugData p) (debugDataSize p) \<and> 0 \<notin> set (options p) \<and> (\<forall>g. genBinary p = Some g \<longrightarrow> genValid f g) \<and>
     length (options p) + irBinarySize p + genBinarySize p + debugDataSize p < 2 ^ 31"

definition nodesOf :: "nat \<Rightarrow> Program \<Rightarrow> SSectionNode list" where
  "nodesOf type p = [optionsNode p, irNode type p] @ (if genBinary p \<noteq> None then [genNode p] else []) @
     (if debugData p \<noteq> None then [debugNode p] else [])"

lemma headerTypeOf_cases:
  assumes "headerTypeOf p = Some type"
  shows "type < 2 ^ 16" "binaryTypeOf type = Some (programBinaryType p)"
  using assms by (auto simp: headerTypeOf_def binaryTypeOf_def EH_TYPE_OPENCL_EXECUTABLE_def EH_TYPE_OPENCL_LIBRARY_def
      EH_TYPE_OPENCL_OBJECTS_def split: if_splits)

lemma length_ownedBytes: "owned b n \<Longrightarrow> length (ownedBytes b n) = n"
  by (cases b) (auto simp: owned_def ownedBytes_def)

lemma length_options: "0 \<notin> set xs \<Longrightarrow> takeWhile (\<lambda>c. c \<noteq> 0) xs = xs" for xs :: bytes
  by (induction xs) auto

lemma savable_nodes:
  assumes "savable f p"
  shows "sn_data (optionsNode p) = options p" "sn_dataSize (optionsNode p) = length (options p) + 1"
    "length (sn_data (irNode type p)) = irBinarySize p" "sn_dataSize (irNode type p) = irBinarySize p"
    "length (sn_data (genNode p)) = genBinarySize p" "sn_dataSize (genNode p) = genBinarySize p"
    "length (sn_data (debugNode p)) = debugDataSize p" "sn_dataSize (debugNode p) = debugDataSize p"
  using assms by (simp_all add: savable_def optionsNode_def irNode_def genNode_def debugNode_def length_options length_ownedBytes)

lemma nodes_fields:
  "sn_type (optionsNode p) < 2 ^ 32" "sn_type (irNode type p) < 2 ^ 32" "sn_type (genNode p) < 2 ^ 32" "sn_type (debugNode p) < 2 ^ 32"
  "sn_flag (optionsNode p) < 2 ^ 64" "sn_flag (irNode type p) < 2 ^ 64" "sn_flag (genNode p) < 2 ^ 64" "sn_flag (debugNode p) < 2 ^ 64"
  "length (sn_name (optionsNode p)) < 32" "length (sn_name (irNode type p)) < 32" "length (sn_name (genNode p)) < 32" "length (sn_name (debugNode p)) < 32"
  by (simp_all add: optionsNode_def irNode_def genNode_def debugNode_def str_def SH_TYPE_SPIRV_def SH_TYPE_OPENCL_LLVM_BINARY_def
      SH_TYPE_OPENCL_DEV_BINARY_def SH_TYPE_OPENCL_OPTIONS_def SH_TYPE_OPENCL_DEV_DEBUG_def SH_FLAG_NONE_def)

lemma savable_fit:
  assumes "savable f p" "headerTypeOf p = Some type"
  shows "sectionsFit type (nodesOf type p)"
proof -
  have "nodes_wf (nodesOf type p)" using savable_nodes [OF assms(1)] by (auto simp: nodes_wf_def nodesOf_def)
  moreover have "\<forall>n \<in> set (nodesOf type p). sn_type n < 2 ^ 32 \<and> sn_flag n < 2 ^ 64" unfolding nodesOf_def using nodes_fields(1-8) by auto
  moreover have "length (nodesOf type p) \<le> 4" by (simp add: nodesOf_def)
  moreover have "dataSum (nodesOf type p) < 2 ^ 31 + 1"
    using assms(1) savable_nodes [OF assms(1)] by (simp add: nodesOf_def savable_def)
  moreover have "nameSum (nodesOf type p) \<le> 128"
    using nodes_fields(9,11,12) [of p] nodes_fields(10) [of type p] by (simp add: nodesOf_def)
  ultimately show ?thesis using headerTypeOf_cases(1) [OF assms(2)] by (simp add: sectionsFit_def)
qed

lemma headerTypeOf_cleared [simp]: "headerTypeOf (p\<lparr>elfBinary := b, elfBinarySize := n\<rparr>) = headerTypeOf p"
  by (simp add: headerTypeOf_def)

lemma resolve_saves:
  assumes "savable f p" "headerTypeOf p = Some type" "base + 4294967296 < 18446744073709551616"
  obtains p1 rd hs sh where "resolveProgramBinary p = Inr (CL_SUCCESS, p1)" "validateElfBinary base (elfBinary p1) = Inr rd"
    "getElfHeader_Type (elfBinary p1) rd = Inr type" "drop 1 (rd_sectionHeaders rd) = hs @ [sh]" "shType sh = SH_TYPE_STR_TBL"
    "list_all2 (carries base (elfBinary p1) rd) hs (nodesOf type p)"
proof -
  let ?w = "fold addSection (nodesOf type p) (CElfWriter_ctor type EH_MACHINE_NONE 0)"
  note fit = savable_fit [OF assms(1,2)]
  have "writerFits ?w" using written_sections [OF fit] by blast
  then have "getTotalBinarySize ?w < 2 ^ 32"
    using writerFits_sizes [OF \<open>writerFits ?w\<close>] by (simp add: writerFits_def)
  then have "base + getTotalBinarySize ?w < 18446744073709551616" using assms(3) by simp
  from saved_sections [OF fit refl this] obtain w' b rd hs sh where
    b: "resolveBinary ?w (replicate (getTotalBinarySize ?w) 0) = Inr (w', b)" and
    rest: "validateElfBinary base b = Inr rd" "getElfHeader_Type b rd = Inr type" "drop 1 (rd_sectionHeaders rd) = hs @ [sh]"
    "shType sh = SH_TYPE_STR_TBL" "list_all2 (carries base b rd) hs (nodesOf type p)" by blast
  let ?p = "p\<lparr>elfBinary := [], elfBinarySize := 0\<rparr>"
  have same: "headerTypeOf ?p = Some type" "optionsNode ?p = optionsNode p" "irNode type ?p = irNode type p" "genNode ?p = genNode p"
    "debugNode ?p = debugNode p"
    using assms(2) by (simp_all add: optionsNode_def irNode_def genNode_def debugNode_def)
  have "resolveProgramBinary p = Inr (CL_SUCCESS, ?p\<lparr>elfBinarySize := getTotalBinarySize ?w, elfBinary := b, isProgramBinaryResolved := True\<rparr>)"
    using assms(1) b same by (auto simp: resolveProgramBinary_def savable_def nodesOf_def Let_def)
  then show ?thesis using rest that by simp
qed

lemma storeBinary_small: "length d < 4294967296 \<Longrightarrow> storeBinary u d = (Some d, length d)"
  by (simp add: storeBinary_def)

lemma nodeData_owned:
  assumes "savable f p"
  shows "nodeData (optionsNode p) = options p @ [0]"
    "irBinary p = Some i \<Longrightarrow> nodeData (irNode type p) = i" "genBinary p = Some g \<Longrightarrow> nodeData (genNode p) = g"
proof -
  show "nodeData (optionsNode p) = options p @ [0]" using savable_nodes(1,2) [OF assms] by (simp add: nodeData_def)
  show "irBinary p = Some i \<Longrightarrow> nodeData (irNode type p) = i" "genBinary p = Some g \<Longrightarrow> nodeData (genNode p) = g"
    using assms by (simp_all add: nodeData_def irNode_def genNode_def ownedBytes_def savable_def owned_def)
qed

text \<open>Loading the options and the intermediate code, the two sections every saved program starts with.\<close>

definition loadedIr :: "Program \<Rightarrow> Program \<Rightarrow> Program" where
  "loadedIr p q = (if 0 < irBinarySize p
     then q\<lparr>options := options p @ [0], irBinary := irBinary p, irBinarySize := irBinarySize p, isSpirV := isSpirV p\<rparr>
     else q\<lparr>options := options p @ [0], isSpirV := isSpirV p\<rparr>)"

lemma load_common:
  assumes "savable f p" "carries base b rd h1 (optionsNode p)" "carries base b rd h2 (irNode type p)" "\<not> isSpirV q"
  shows "processSections f u base b rd (h1 # h2 # hs) v q = processSections f u base b rd hs v (loadedIr p q)"
proof -
  have o: "processSection f u base b rd h1 v q = Inr (None, v, q\<lparr>options := options p @ [0]\<rparr>)"
    using processSection_options [OF assms(2)] savable_nodes(2) [OF assms(1)] nodeData_owned(1) [OF assms(1)]
    by (simp add: optionsNode_def)
  have ty: "sn_type (irNode type p) = (if isSpirV p then SH_TYPE_SPIRV else SH_TYPE_OPENCL_LLVM_BINARY)" by (simp add: irNode_def)
  have "processSection f u base b rd h2 v (q\<lparr>options := options p @ [0]\<rparr>) = Inr (None, v, loadedIr p q)"
  proof (cases "irBinary p")
    case None
    then have "irBinarySize p = 0" using assms(1) by (simp add: savable_def owned_def)
    then show ?thesis
      using processSection_ir [OF assms(3) ty] savable_nodes(4) [OF assms(1)] assms(4) by (simp add: loadedIr_def)
  next
    case (Some i)
    then have "length i = irBinarySize p" "irBinarySize p < 4294967296" using assms(1) by (simp_all add: savable_def owned_def)
    then show ?thesis
      using processSection_ir [OF assms(3) ty] nodeData_owned(2) [OF assms(1) Some] savable_nodes(4) [OF assms(1)] assms(4) Some
      by (simp add: loadedIr_def storeIrBinary_def storeBinary_small)
  qed
  then show ?thesis using o by simp
qed

lemma genNode_type: "sn_type (genNode p) = SH_TYPE_OPENCL_DEV_BINARY" and debugNode_type: "sn_type (debugNode p) = SH_TYPE_OPENCL_DEV_DEBUG"
  by (simp_all add: genNode_def debugNode_def)

lemma processElf_sections:
  assumes "validateElfBinary base b = Inr rd" "getElfHeader_Type b rd = Inr type" "binaryTypeOf type = Some t"
    "processSections f u base b rd (drop 1 (rd_sectionHeaders rd)) (CURRENT_ICBE_VERSION f)
       (q\<lparr>elfBinarySize := length b, elfBinary := b, programBinaryType := t\<rparr>) = Inr (ret, v, q1)"
  shows "processElfBinary f u device base b q =
    Inr (case ret of Some r \<Rightarrow> (r, v, q1) | None \<Rightarrow> (CL_SUCCESS, v, q1\<lparr>isProgramBinaryResolved := True\<rparr>))"
  using assms by (simp add: processElfBinary_def updateBuildLog_def split: option.split)

text \<open>Claim C30: saving a program that has no debug data as a binary and creating a program from that binary succeeds
  and gives back its kind, its intermediate code and whether that is SPIR-V, its device binary, and its
  options with the terminating null byte.\<close>

theorem program_binary_roundtrip:
  assumes "savable f p" "headerTypeOf p \<noteq> None" "debugData p = None" "\<not> isSpirV q" "base + 4294967296 < 18446744073709551616"
  shows "\<exists>p1 q1. resolveProgramBinary p = Inr (CL_SUCCESS, p1) \<and>
    processElfBinary f u device base (elfBinary p1) q = Inr (CL_SUCCESS, CURRENT_ICBE_VERSION f, q1) \<and>
    programBinaryType q1 = programBinaryType p \<and> options q1 = options p @ [0] \<and> isSpirV q1 = isSpirV p \<and>
    (0 < irBinarySize p \<longrightarrow> irBinary q1 = irBinary p \<and> irBinarySize q1 = irBinarySize p) \<and>
    (genBinary p \<noteq> None \<longrightarrow> genBinary q1 = genBinary p \<and> genBinarySize q1 = genBinarySize p \<and> isCreatedFromBinary q1) \<and>
    elfBinary q1 = elfBinary p1 \<and> isProgramBinaryResolved q1"
proof -
  obtain type where type: "headerTypeOf p = Some type" using assms(2) by blast
  obtain p1 rd hs sh where r: "resolveProgramBinary p = Inr (CL_SUCCESS, p1)" "validateElfBinary base (elfBinary p1) = Inr rd"
    "getElfHeader_Type (elfBinary p1) rd = Inr type" "drop 1 (rd_sectionHeaders rd) = hs @ [sh]" "shType sh = SH_TYPE_STR_TBL"
    "list_all2 (carries base (elfBinary p1) rd) hs (nodesOf type p)"
    by (rule resolve_saves [OF assms(1) type assms(5)])
  let ?b = "elfBinary p1"
  let ?q = "q\<lparr>elfBinarySize := length ?b, elfBinary := ?b, programBinaryType := programBinaryType p\<rparr>"
  obtain h1 h2 gs where hs: "hs = h1 # h2 # gs" "carries base ?b rd h1 (optionsNode p)" "carries base ?b rd h2 (irNode type p)"
    "list_all2 (carries base ?b rd) gs (if genBinary p \<noteq> None then [genNode p] else [])"
    using r(6) assms(3) unfolding nodesOf_def by (auto simp: list_all2_Cons2)
  have c: "processSections f u base ?b rd (hs @ [sh]) v ?q = processSections f u base ?b rd (gs @ [sh]) v (loadedIr p ?q)" for v
    using load_common [OF assms(1) hs(2,3)] assms(4) by (simp only: hs(1) append_Cons) simp
  note elf = processElf_sections [OF r(2,3) headerTypeOf_cases(2) [OF type], where q = q and f = f and u = u and device = device, unfolded r(4) c]
  show ?thesis
  proof (cases "genBinary p")
    case None
    then have "processSections f u base ?b rd (gs @ [sh]) v q' = Inr (None, v, q')" for v q'
      using hs(4) processSection_strings [OF r(5)] by simp
    from elf [OF this] have "processElfBinary f u device base ?b q =
        Inr (CL_SUCCESS, CURRENT_ICBE_VERSION f, (loadedIr p ?q)\<lparr>isProgramBinaryResolved := True\<rparr>)" by simp
    then show ?thesis using r(1) None by (auto simp: loadedIr_def)
  next
    case (Some g)
    then obtain hg where hg: "gs = [hg]" "carries base ?b rd hg (genNode p)" using hs(4) by (auto simp: list_all2_Cons2)
    have v: "genValid f g" "length g = genBinarySize p" "genBinarySize p < 4294967296"
      using assms(1) Some by (simp_all add: savable_def owned_def)
    then have "0 < genBinarySize p" by (auto simp: genValid_def)
    then have "processSection f u base ?b rd hg v q' = Inr (None, v, q'\<lparr>genBinary := Some g, genBinarySize := genBinarySize p, isCreatedFromBinary := True\<rparr>)" for v q'
      using processSection_gen [OF hg(2)] nodeData_owned(3) [OF assms(1) Some] savable_nodes(6) [OF assms(1)] v
      by (simp add: storeGenBinary_def storeBinary_small genNode_type)
    then have "processSections f u base ?b rd (gs @ [sh]) v q' = Inr (None, v, q'\<lparr>genBinary := Some g, genBinarySize := genBinarySize p, isCreatedFromBinary := True\<rparr>)" for v q'
      using hg(1) processSection_strings [OF r(5)] by simp
    from elf [OF this] have "processElfBinary f u device base ?b q = Inr (CL_SUCCESS, CURRENT_ICBE_VERSION f,
        (loadedIr p ?q)\<lparr>genBinary := Some g, genBinarySize := genBinarySize p, isCreatedFromBinary := True, isProgramBinaryResolved := True\<rparr>)" by simp
    then show ?thesis using r(1) Some by (auto simp: loadedIr_def)
  qed
qed

text \<open>A program with a device binary of twelve bytes, for a format with its three fields in a row.\<close>

definition demo_format :: GenBinaryFormat where
  "demo_format = \<lparr>gf_magicOffset = 0, gf_versionOffset = 4, gf_deviceOffset = 8, MAGIC_CL = 1, CURRENT_ICBE_VERSION = 2,
     familyEnabled = (\<lambda>d. d = 3)\<rparr>"

definition demo_program :: "bytes option \<Rightarrow> Program" where
  "demo_program debug = \<lparr>programBinaryType = CL_PROGRAM_BINARY_TYPE_EXECUTABLE, isSpirV = True, elfBinary = [], elfBinarySize = 0,
     genBinary = Some [1, 0, 0, 0, 2, 0, 0, 0, 3, 0, 0, 0], genBinarySize = 12, irBinary = Some [7, 8], irBinarySize = 2,
     debugData = debug, debugDataSize = (case debug of None \<Rightarrow> 0 | Some d \<Rightarrow> length d), isCreatedFromBinary = False,
     isProgramBinaryResolved = False, options = [65], sourceCode = [], buildLog = (\<lambda>_. None), buildStatus = 0\<rparr>"

lemma demo_savable: "length (case debug of None \<Rightarrow> [] | Some d \<Rightarrow> d) < 100 \<Longrightarrow> savable demo_format (demo_program debug)"
  "headerTypeOf (demo_program debug) \<noteq> None"
  by (auto simp: savable_def demo_program_def demo_format_def owned_def genValid_def bytesAt_def headerTypeOf_def split: option.split)

theorem program_binary_roundtrip_witness:
  "\<exists>p1 q1. resolveProgramBinary (demo_program None) = Inr (CL_SUCCESS, p1) \<and>
     processElfBinary demo_format (\<lambda>_. []) 0 4096 (elfBinary p1) ((demo_program None)\<lparr>isSpirV := False, irBinary := None\<rparr>) = Inr (CL_SUCCESS, 2, q1) \<and>
     irBinary q1 = Some [7, 8] \<and> isSpirV q1"
  using program_binary_roundtrip [OF demo_savable, of None "(demo_program None)\<lparr>isSpirV := False, irBinary := None\<rparr>" 4096 "\<lambda>_. []" 0]
  by (auto simp: demo_program_def demo_format_def)

text \<open>A program with debug data is saved with a section for it, and the loader, which has no case
  for that type of section, refuses the binary the runtime itself has written.\<close>

theorem debug_data_not_reloadable:
  assumes "savable f p" "headerTypeOf p \<noteq> None" "debugData p \<noteq> None" "\<not> isSpirV q" "base + 4294967296 < 18446744073709551616"
  shows "\<exists>p1 version q1. resolveProgramBinary p = Inr (CL_SUCCESS, p1) \<and>
    processElfBinary f u device base (elfBinary p1) q = Inr (CL_INVALID_BINARY, version, q1)"
proof -
  obtain type where type: "headerTypeOf p = Some type" using assms(2) by blast
  obtain p1 rd hs sh where r: "resolveProgramBinary p = Inr (CL_SUCCESS, p1)" "validateElfBinary base (elfBinary p1) = Inr rd"
    "getElfHeader_Type (elfBinary p1) rd = Inr type" "drop 1 (rd_sectionHeaders rd) = hs @ [sh]" "shType sh = SH_TYPE_STR_TBL"
    "list_all2 (carries base (elfBinary p1) rd) hs (nodesOf type p)"
    by (rule resolve_saves [OF assms(1) type assms(5)])
  let ?b = "elfBinary p1"
  let ?q = "q\<lparr>elfBinarySize := length ?b, elfBinary := ?b, programBinaryType := programBinaryType p\<rparr>"
  obtain h1 h2 gs hd where hs: "hs = h1 # h2 # gs @ [hd]" "carries base ?b rd h1 (optionsNode p)" "carries base ?b rd h2 (irNode type p)"
    "list_all2 (carries base ?b rd) gs (if genBinary p \<noteq> None then [genNode p] else [])" "carries base ?b rd hd (debugNode p)"
    using r(6) assms(3) unfolding nodesOf_def by (auto simp: list_all2_Cons2 list_all2_append2)
  have c: "processSections f u base ?b rd (hs @ [sh]) v ?q = processSections f u base ?b rd (gs @ [hd, sh]) v (loadedIr p ?q)" for v
    using load_common [OF assms(1) hs(2,3)] assms(4) by (simp only: hs(1) append_Cons append_assoc append_Nil) simp
  have d: "processSections f u base ?b rd [hd, sh] v q' = Inr (Some CL_INVALID_BINARY, v, q')" for v q'
    using processSection_debug [of hd] hs(5) by (simp add: carries_def debugNode_type)
  note elf = processElf_sections [OF r(2,3) headerTypeOf_cases(2) [OF type], where q = q and f = f and u = u and device = device, unfolded r(4) c]
  show ?thesis
  proof (cases "genBinary p")
    case None
    then have "processSections f u base ?b rd (gs @ [hd, sh]) v q' = Inr (Some CL_INVALID_BINARY, v, q')" for v q'
      using hs(4) d by simp
    from elf [OF this] show ?thesis using r(1) by simp
  next
    case (Some g)
    then obtain hg where hg: "gs = [hg]" "carries base ?b rd hg (genNode p)" using hs(4) by (auto simp: list_all2_Cons2)
    have v: "genValid f g" "length g = genBinarySize p" using assms(1) Some by (simp_all add: savable_def owned_def)
    then have "0 < genBinarySize p" by (auto simp: genValid_def)
    then obtain q2 where "processSection f u base ?b rd hg (CURRENT_ICBE_VERSION f) (loadedIr p ?q) = Inr (None, CURRENT_ICBE_VERSION f, q2)"
      using processSection_gen [OF hg(2) genNode_type] nodeData_owned(3) [OF assms(1) Some] savable_nodes(6) [OF assms(1)] v by auto
    then have "processSections f u base ?b rd (hg # [hd, sh]) (CURRENT_ICBE_VERSION f) (loadedIr p ?q) =
        Inr (Some CL_INVALID_BINARY, CURRENT_ICBE_VERSION f, q2)"
      unfolding processSections.simps(2) [of f u base ?b rd hg "[hd, sh]"] by (simp only: rt_bind_simps prod.case option.case d)
    then show ?thesis using elf [of "Some CL_INVALID_BINARY"] hg(1) r(1) by simp
  qed
qed

theorem debug_data_not_reloadable_witness:
  "\<exists>p1 version q1. resolveProgramBinary (demo_program (Some [9])) = Inr (CL_SUCCESS, p1) \<and>
     processElfBinary demo_format (\<lambda>_. []) 0 4096 (elfBinary p1) ((demo_program None)\<lparr>isSpirV := False\<rparr>) = Inr (CL_INVALID_BINARY, version, q1)"
  using debug_data_not_reloadable [OF demo_savable, of "Some [9]" "(demo_program None)\<lparr>isSpirV := False\<rparr>" 4096 "\<lambda>_. []" 0]
  by (auto simp: demo_program_def)

end
