(* ===== verification/Residency.thy ===== *)
theory Residency
  imports Aligned_Memory Machine_Refinement
begin

text \<open>
  The residency controller of the Windows driver interface
  (\<^verbatim>\<open>os_interface/windows/wddm_residency_controller.cpp\<close>, with \<^verbatim>\<open>wddm_allocation.h\<close> and
  \<^verbatim>\<open>memory_manager/residency.cpp\<close>). Allocations that are no longer needed stand in a list of trim
  candidates; a removed entry leaves a hole, holes at the end are cut off and
  the list is compacted when at least half of it is holes; each allocation knows its position in the list.
  Allocations and the residency data of host memory fragments, which allocations share,
  are cells of a store. The kernel interface is a parameter: its answers are a list, calls for
  eviction are recorded, a wait ends when the fence has its value. Context identifiers index arrays of fixed
  length, here functions; only the controller's own is used. Each operation runs under the controller's lock and is one step.
\<close>

definition trimListUnusedPosition :: nat where "trimListUnusedPosition = 18446744073709551615"

record ResidencyData =
  resident :: "nat \<Rightarrow> bool"
  lastFenceValues :: "nat \<Rightarrow> nat"

definition updateCompletionData :: "nat \<Rightarrow> nat \<Rightarrow> ResidencyData \<Rightarrow> ResidencyData" where
  "updateCompletionData newFenceValue contextId r = r\<lparr>lastFenceValues := (lastFenceValues r)(contextId := newFenceValue)\<rparr>"

definition getFenceValueForContextId :: "nat \<Rightarrow> ResidencyData \<Rightarrow> nat" where
  "getFenceValueForContextId contextId r = lastFenceValues r contextId"

definition setResident :: "nat \<Rightarrow> bool \<Rightarrow> ResidencyData \<Rightarrow> ResidencyData" where
  "setResident contextId b r = r\<lparr>resident := (resident r)(contextId := b)\<rparr>"

record WddmFragment =
  wf_handle :: nat
  wf_residency :: nat
  wf_fragmentSize :: nat

record WddmAllocation =
  wa_cpuPtr :: u64
  wa_size :: u64
  wa_handles :: "nat list"
  wa_fragments :: "WddmFragment list"
  wa_residency :: ResidencyData
  wa_trimCandidateListPositions :: "nat \<Rightarrow> nat"

definition getAlignedSize :: "WddmAllocation \<Rightarrow> nat" where
  "getAlignedSize a = unat (alignSizeWholePage (wa_cpuPtr a) (wa_size a))"

record MonitoredFence =
  mf_fenceHandle :: nat
  mf_gpuAddress :: nat
  mf_cpuValue :: nat
  mf_currentFenceValue :: nat
  mf_lastSubmittedFence :: nat

record WddmResidencyController =
  rc_osContextId :: nat
  rc_monitoredFence :: MonitoredFence
  rc_memoryBudgetExhausted :: bool
  rc_lastTrimFenceValue :: nat
  rc_trimCandidateList :: "nat option list"
  rc_trimCandidatesCount :: nat
  rc_allocations :: "nat \<Rightarrow> WddmAllocation"
  rc_fragmentData :: "nat \<Rightarrow> ResidencyData"
  rc_evictions :: "nat list list"

definition upd_alloc :: "nat \<Rightarrow> (WddmAllocation \<Rightarrow> WddmAllocation) \<Rightarrow> WddmResidencyController \<Rightarrow> WddmResidencyController" where
  "upd_alloc a f c = c\<lparr>rc_allocations := (rc_allocations c)(a := f (rc_allocations c a))\<rparr>"

definition upd_fragment :: "nat \<Rightarrow> (ResidencyData \<Rightarrow> ResidencyData) \<Rightarrow> WddmResidencyController \<Rightarrow> WddmResidencyController" where
  "upd_fragment r f c = c\<lparr>rc_fragmentData := (rc_fragmentData c)(r := f (rc_fragmentData c r))\<rparr>"

definition getTrimCandidateListPosition :: "nat \<Rightarrow> WddmResidencyController \<Rightarrow> nat" where
  "getTrimCandidateListPosition a c = wa_trimCandidateListPositions (rc_allocations c a) (rc_osContextId c)"

definition setTrimCandidateListPosition :: "nat \<Rightarrow> nat \<Rightarrow> WddmResidencyController \<Rightarrow> WddmResidencyController" where
  "setTrimCandidateListPosition a position c =
     upd_alloc a (\<lambda>w. w\<lparr>wa_trimCandidateListPositions :=
       (wa_trimCandidateListPositions w)(rc_osContextId c := position)\<rparr>) c"

definition fenceOf :: "WddmResidencyController \<Rightarrow> nat \<Rightarrow> nat" where
  "fenceOf c a = getFenceValueForContextId (rc_osContextId c) (wa_residency (rc_allocations c a))"

definition fragmentFence :: "WddmResidencyController \<Rightarrow> WddmFragment \<Rightarrow> nat" where
  "fragmentFence c f = getFenceValueForContextId (rc_osContextId c) (rc_fragmentData c (wf_residency f))"

section \<open>The list of candidates\<close>

text \<open>The loop reads an entry before it compares the index with the size.\<close>

fun skipNull :: "nat option list \<Rightarrow> nat option rt_result" where
  "skipNull [] = Inl OutOfBounds"
| "skipNull (None # l) = skipNull l"
| "skipNull (Some a # l) = Inr (Some a)"

definition getTrimCandidateHead :: "WddmResidencyController \<Rightarrow> nat option rt_result" where
  "getTrimCandidateHead c = (if rc_trimCandidateList c = [] then Inr None else skipNull (rc_trimCandidateList c))"

definition addToTrimCandidateList :: "nat \<Rightarrow> WddmResidencyController \<Rightarrow> WddmResidencyController" where
  "addToTrimCandidateList a c =
     (let position = length (rc_trimCandidateList c) in
      if getTrimCandidateListPosition a c = trimListUnusedPosition
      then setTrimCandidateListPosition a position
             (c\<lparr>rc_trimCandidatesCount := wrap32 (rc_trimCandidatesCount c + 1),
                rc_trimCandidateList := rc_trimCandidateList c @ [Some a]\<rparr>)
      else c)"

fun erasePosition :: "nat option list \<Rightarrow> nat \<Rightarrow> nat" where
  "erasePosition l 0 = 0"
| "erasePosition l (Suc p) = (if l ! Suc p = None then erasePosition l p else Suc p)"

definition cutTail :: "nat \<Rightarrow> nat option list \<Rightarrow> nat option list" where
  "cutTail position l =
     (if position = 0 then []
      else let e = erasePosition l position;
               sizeRemaining = (if e = 0 \<and> l ! e = None then 0 else e + 1)
           in take sizeRemaining l)"

definition checkTrimCandidateListCompaction :: "WddmResidencyController \<Rightarrow> bool" where
  "checkTrimCandidateListCompaction c \<longleftrightarrow> wrap32 (2 * rc_trimCandidatesCount c) \<le> length (rc_trimCandidateList c)"

fun firstFree :: "nat \<Rightarrow> nat option list \<Rightarrow> nat rt_result" where
  "firstFree 0 l = Inr 0"
| "firstFree (Suc n) [] = Inl OutOfBounds"
| "firstFree (Suc n) (None # l) = Inr 0"
| "firstFree (Suc n) (Some a # l) = rt_bind (firstFree n l) (\<lambda>k. Inr (Suc k))"

text \<open>One turn of the compaction loop at an index; the first component is the next free position.\<close>

definition compactStep :: "nat \<Rightarrow> nat \<Rightarrow> nat \<times> WddmResidencyController \<Rightarrow> nat \<times> WddmResidencyController" where
  "compactStep sz i = (\<lambda>(freePosition, c).
     case rc_trimCandidateList c ! i of
       None \<Rightarrow> (freePosition, c)
     | Some a \<Rightarrow>
         if freePosition < i
         then let c = c\<lparr>rc_trimCandidateList := (rc_trimCandidateList c)[freePosition := Some a, i := None]\<rparr>;
                  c = setTrimCandidateListPosition a freePosition c;
                  freePosition = freePosition + 1
              in (freePosition, if i = sz - 1 then c\<lparr>rc_trimCandidateList := take freePosition (rc_trimCandidateList c)\<rparr> else c)
         else (freePosition, c))"

definition compactTrimCandidateList :: "WddmResidencyController \<Rightarrow> WddmResidencyController rt_result" where
  "compactTrimCandidateList c =
     (let sz = length (rc_trimCandidateList c) in
      if sz = 0 \<or> sz = rc_trimCandidatesCount c then Inr c
      else rt_bind (firstFree (rc_trimCandidatesCount c) (rc_trimCandidateList c)) (\<lambda>freePosition.
           Inr (snd (fold (compactStep sz) [1..<sz] (freePosition, c)))))"

definition compactIfSparse :: "WddmResidencyController \<Rightarrow> WddmResidencyController rt_result" where
  "compactIfSparse c = (if checkTrimCandidateListCompaction c then compactTrimCandidateList c else Inr c)"

definition removeFromTrimCandidateList :: "nat \<Rightarrow> bool \<Rightarrow> WddmResidencyController \<Rightarrow> WddmResidencyController rt_result" where
  "removeFromTrimCandidateList a compactList c =
     (let position = getTrimCandidateListPosition a c in
      if position \<ge> length (rc_trimCandidateList c) then Inl OutOfBounds
      else let l = (rc_trimCandidateList c)[position := None];
               l = (if position = length l - 1 then cutTail position l else l);
               c = c\<lparr>rc_trimCandidatesCount := wrap32 (rc_trimCandidatesCount c + 4294967295), rc_trimCandidateList := l\<rparr>;
               c = setTrimCandidateListPosition a trimListUnusedPosition c
           in if compactList then compactIfSparse c else Inr c)"

text \<open>The parameter of the next operation is not used by the code either.\<close>

definition removeFromTrimCandidateListIfUsed :: "nat \<Rightarrow> bool \<Rightarrow> WddmResidencyController \<Rightarrow> WddmResidencyController rt_result" where
  "removeFromTrimCandidateListIfUsed a compactList c =
     (if getTrimCandidateListPosition a c \<noteq> trimListUnusedPosition then removeFromTrimCandidateList a True c else Inr c)"

section \<open>Trimming\<close>

definition wasAllocationUsedSinceLastTrim :: "WddmResidencyController \<Rightarrow> nat \<Rightarrow> bool" where
  "wasAllocationUsedSinceLastTrim c fenceValue \<longleftrightarrow> fenceValue > rc_lastTrimFenceValue c"

definition evict :: "nat list \<Rightarrow> WddmResidencyController \<Rightarrow> WddmResidencyController" where
  "evict handles c = c\<lparr>rc_evictions := rc_evictions c @ [handles]\<rparr>"

definition clearResident :: "nat \<Rightarrow> WddmResidencyController \<Rightarrow> WddmResidencyController" where
  "clearResident a c = upd_alloc a (\<lambda>w. w\<lparr>wa_residency := setResident (rc_osContextId c) False (wa_residency w)\<rparr>) c"

definition clearFragment :: "WddmFragment \<Rightarrow> WddmResidencyController \<Rightarrow> WddmResidencyController" where
  "clearFragment f c = upd_fragment (wf_residency f) (setResident (rc_osContextId c) False) c"

definition maxFragments :: nat where "maxFragments = 3"

definition maxHandleCount :: nat where "maxHandleCount = 1"

definition periodicEvict :: "nat \<Rightarrow> WddmResidencyController \<Rightarrow> WddmResidencyController rt_result" where
  "periodicEvict a c =
     (let w = rc_allocations c a;
          c = (if wa_fragments w = [] then evict (wa_handles w) c else c);
          old = filter (\<lambda>f. \<not> wasAllocationUsedSinceLastTrim c (fragmentFence c f)) (wa_fragments w);
          c = fold clearFragment old c
      in if length old > maxFragments then Inl OutOfBounds
         else let c = (if old \<noteq> [] then evict (map wf_handle old) c else c) in Inr (clearResident a c))"

fun periodicTrim :: "nat \<Rightarrow> WddmResidencyController \<Rightarrow> WddmResidencyController rt_result" where
  "periodicTrim 0 c = Inl FuelExhausted"
| "periodicTrim (Suc fuel) c =
     rt_bind (getTrimCandidateHead c) (\<lambda>h. case h of
       None \<Rightarrow> Inr c
     | Some a \<Rightarrow>
         if wasAllocationUsedSinceLastTrim c (fenceOf c a) then Inr c
         else rt_bind (periodicEvict a c) (\<lambda>c.
              rt_bind (removeFromTrimCandidateList a False c) (periodicTrim fuel)))"

definition waitFromCpu :: "nat \<Rightarrow> WddmResidencyController \<Rightarrow> WddmResidencyController" where
  "waitFromCpu fence c = c\<lparr>rc_monitoredFence := (rc_monitoredFence c)\<lparr>mf_cpuValue := max fence (mf_cpuValue (rc_monitoredFence c))\<rparr>\<rparr>"

text \<open>The eviction of one candidate for the budget, with the number of bytes it gives.\<close>

definition budgetEvict :: "nat \<Rightarrow> WddmResidencyController \<Rightarrow> (nat \<times> WddmResidencyController) rt_result" where
  "budgetEvict a c =
     (let w = rc_allocations c a;
          c = (if fenceOf c a > mf_cpuValue (rc_monitoredFence c) then waitFromCpu (fenceOf c a) c else c)
      in if wa_fragments w = [] then Inr (getAlignedSize w, clearResident a (evict (wa_handles w) c))
         else let old = filter (\<lambda>f. fragmentFence c f \<le> mf_lastSubmittedFence (rc_monitoredFence c)) (wa_fragments w)
              in if length old > maxFragments then Inl OutOfBounds
                 else let c = (if old \<noteq> [] then fold clearFragment old (evict (map wf_handle old) c) else c)
                      in Inr (wrap64 (sum_list (map wf_fragmentSize old)), clearResident a c))"

fun budgetTrim :: "nat \<Rightarrow> nat \<Rightarrow> WddmResidencyController \<Rightarrow> (nat \<times> WddmResidencyController) rt_result" where
  "budgetTrim 0 bytes c = Inl FuelExhausted"
| "budgetTrim (Suc fuel) bytes c =
     (if bytes = 0 then Inr (0, c)
      else rt_bind (getTrimCandidateHead c) (\<lambda>h. case h of
        None \<Rightarrow> Inr (bytes, c)
      | Some a \<Rightarrow>
          if fenceOf c a > mf_lastSubmittedFence (rc_monitoredFence c) then Inr (bytes, c)
          else rt_bind (budgetEvict a c) (\<lambda>(sizeEvicted, c).
               rt_bind (removeFromTrimCandidateList a False c)
                 (budgetTrim fuel (if sizeEvicted \<ge> bytes then 0 else bytes - sizeEvicted)))))"

definition trimFuel :: "WddmResidencyController \<Rightarrow> nat" where
  "trimFuel c = length (rc_trimCandidateList c) + 1"

definition trimResidencyToBudget :: "nat \<Rightarrow> WddmResidencyController \<Rightarrow> (bool \<times> WddmResidencyController) rt_result" where
  "trimResidencyToBudget bytes c =
     rt_bind (budgetTrim (trimFuel c) bytes c) (\<lambda>(left, c).
     rt_bind (if bytes > left then compactIfSparse c else Inr c) (\<lambda>c. Inr (left = 0, c)))"

definition updateLastTrimFenceValue :: "WddmResidencyController \<Rightarrow> WddmResidencyController" where
  "updateLastTrimFenceValue c = c\<lparr>rc_lastTrimFenceValue := mf_cpuValue (rc_monitoredFence c)\<rparr>"

record TrimFlags =
  PeriodicTrim :: bool
  RestartPeriodicTrim :: bool
  TrimToBudget :: bool

definition trimResidency :: "TrimFlags \<Rightarrow> nat \<Rightarrow> WddmResidencyController \<Rightarrow> WddmResidencyController rt_result" where
  "trimResidency flags bytes c =
     rt_bind (if PeriodicTrim flags then rt_bind (periodicTrim (trimFuel c) c) compactIfSparse else Inr c) (\<lambda>c.
     rt_bind (if TrimToBudget flags then rt_bind (trimResidencyToBudget bytes c) (\<lambda>(b, c). Inr c) else Inr c) (\<lambda>c.
     Inr (if PeriodicTrim flags \<or> RestartPeriodicTrim flags then updateLastTrimFenceValue c else c)))"

section \<open>Making allocations resident\<close>

datatype EvictionStatus = EVICT_SUCCESS | EVICT_FAILED | EVICT_NOT_APPLIED | EVICT_UNKNOWN

definition residencyHandles :: "nat \<Rightarrow> WddmResidencyController \<Rightarrow> (nat list \<times> WddmResidencyController) rt_result" where
  "residencyHandles a c =
     (let w = rc_allocations c a; used = (getTrimCandidateListPosition a c \<noteq> trimListUnusedPosition);
          isResident = (\<lambda>f. \<not> used \<and> resident (rc_fragmentData c (wf_residency f)) (rc_osContextId c))
      in rt_bind (if used then removeFromTrimCandidateList a False c else Inr c) (\<lambda>c.
         Inr (if wa_fragments w \<noteq> [] then map wf_handle (filter (\<lambda>f. \<not> isResident f) (wa_fragments w))
              else if \<not> resident (wa_residency w) (rc_osContextId c) then wa_handles w else [], c)))"

fun collectHandles :: "nat list \<Rightarrow> WddmResidencyController \<Rightarrow> (nat list \<times> WddmResidencyController) rt_result" where
  "collectHandles [] c = Inr ([], c)"
| "collectHandles (a # as) c =
     rt_bind (residencyHandles a c) (\<lambda>(hs, c). rt_bind (collectHandles as c) (\<lambda>(hs', c). Inr (hs @ hs', c)))"

text \<open>The answers of the kernel to the calls of the loop, in order: the result and the bytes to trim, and what
  evicting the temporary resources gave; no answer left stands for a call that has not returned.\<close>

fun residentLoop ::
  "(bool \<times> nat \<times> EvictionStatus \<times> bool) list \<Rightarrow> WddmResidencyController \<Rightarrow> (bool \<times> WddmResidencyController) rt_result" where
  "residentLoop [] c = Inl FuelExhausted"
| "residentLoop ((ok, bytesToTrim, status, forced) # answers) c =
     (if ok then Inr (True, c)
      else rt_bind (trimResidencyToBudget bytesToTrim (c\<lparr>rc_memoryBudgetExhausted := True\<rparr>)) (\<lambda>(trimmingDone, c).
           if trimmingDone then residentLoop answers c
           else if status = EVICT_SUCCESS then residentLoop answers c
           else Inr (forced, c)))"

definition completeFragment :: "WddmFragment \<Rightarrow> WddmResidencyController \<Rightarrow> WddmResidencyController" where
  "completeFragment f c = upd_fragment (wf_residency f)
     (\<lambda>r. setResident (rc_osContextId c) True
        (updateCompletionData (mf_currentFenceValue (rc_monitoredFence c)) (rc_osContextId c) r)) c"

definition completeAllocation :: "nat \<Rightarrow> WddmResidencyController \<Rightarrow> WddmResidencyController" where
  "completeAllocation a c =
     (let c = upd_alloc a (\<lambda>w. w\<lparr>wa_residency := setResident (rc_osContextId c) True
                (updateCompletionData (mf_currentFenceValue (rc_monitoredFence c)) (rc_osContextId c) (wa_residency w))\<rparr>) c
      in fold completeFragment (wa_fragments (rc_allocations c a)) c)"

definition makeResidentResidencyAllocations ::
  "(bool \<times> nat \<times> EvictionStatus \<times> bool) list \<Rightarrow> nat list \<Rightarrow> WddmResidencyController \<Rightarrow> (bool \<times> WddmResidencyController) rt_result" where
  "makeResidentResidencyAllocations answers as c =
     rt_bind (collectHandles as c) (\<lambda>(handles, c).
     if length handles > length as * maxFragments then Inl OutOfBounds
     else rt_bind (if handles \<noteq> [] then residentLoop answers c else Inr (True, c)) (\<lambda>(result, c).
          Inr (result, if result then fold completeAllocation as c else c)))"

definition makeNonResidentEvictionAllocations :: "nat list \<Rightarrow> WddmResidencyController \<Rightarrow> WddmResidencyController" where
  "makeNonResidentEvictionAllocations as c = fold addToTrimCandidateList as c"

definition resetMonitoredFenceParams :: "nat \<Rightarrow> nat \<Rightarrow> nat \<Rightarrow> WddmResidencyController \<Rightarrow> WddmResidencyController" where
  "resetMonitoredFenceParams handle cpuValue gpuAddress c =
     c\<lparr>rc_monitoredFence := \<lparr>mf_fenceHandle = handle, mf_gpuAddress = gpuAddress, mf_cpuValue = cpuValue, mf_currentFenceValue = 1,
        mf_lastSubmittedFence = 0\<rparr>\<rparr>"

text \<open>A submission: whether the paging fence is reached, whether the wait for it and the submission itself succeed are answers of the kernel.\<close>

definition submit :: "bool \<Rightarrow> bool \<Rightarrow> bool \<Rightarrow> WddmResidencyController \<Rightarrow> (bool \<times> WddmResidencyController) rt_result" where
  "submit pagingReached waited status c =
     (if \<not> pagingReached \<and> \<not> waited then Inr (False, c)
      else if \<not> status then Inl Unrecoverable
      else let f = rc_monitoredFence c
           in Inr (True, c\<lparr>rc_monitoredFence := f\<lparr>mf_lastSubmittedFence := mf_currentFenceValue f,
                              mf_currentFenceValue := wrap64 (mf_currentFenceValue f + 1)\<rparr>\<rparr>))"

definition trimCallback :: "TrimFlags \<Rightarrow> nat \<Rightarrow> WddmResidencyController \<Rightarrow> WddmResidencyController rt_result" where
  "trimCallback flags numBytesToTrim c = trimResidency flags numBytesToTrim c"

definition residencyData_create :: ResidencyData where
  "residencyData_create = \<lparr>resident = (\<lambda>_. False), lastFenceValues = (\<lambda>_. 0)\<rparr>"

definition wddmAllocation_create :: "u64 \<Rightarrow> u64 \<Rightarrow> nat list \<Rightarrow> WddmFragment list \<Rightarrow> WddmAllocation" where
  "wddmAllocation_create cpuPtr sz handles fragments =
     \<lparr>wa_cpuPtr = cpuPtr, wa_size = sz, wa_handles = handles, wa_fragments = fragments, wa_residency = residencyData_create,
      wa_trimCandidateListPositions = (\<lambda>_. trimListUnusedPosition)\<rparr>"

definition residencyController_create :: "nat \<Rightarrow> (nat \<Rightarrow> WddmAllocation) \<Rightarrow> WddmResidencyController" where
  "residencyController_create osContextId allocations =
     \<lparr>rc_osContextId = osContextId,
      rc_monitoredFence = \<lparr>mf_fenceHandle = 0, mf_gpuAddress = 0, mf_cpuValue = 0, mf_currentFenceValue = 0, mf_lastSubmittedFence = 0\<rparr>,
      rc_memoryBudgetExhausted = False, rc_lastTrimFenceValue = 0, rc_trimCandidateList = [], rc_trimCandidatesCount = 0,
      rc_allocations = allocations, rc_fragmentData = (\<lambda>_. residencyData_create), rc_evictions = []\<rparr>"

section \<open>The candidates behind the list\<close>

fun present :: "nat option list \<Rightarrow> nat list" where
  "present [] = []"
| "present (None # l) = present l"
| "present (Some a # l) = a # present l"

lemma present_append [simp]: "present (l @ m) = present l @ present m"
  by (induction l rule: present.induct) auto

lemma present_map_Some [simp]: "present (map Some xs) = xs"
  by (induction xs) auto

lemma present_replicate [simp]: "present (replicate n None) = []"
  by (induction n) auto

lemma set_present: "a \<in> set (present l) \<longleftrightarrow> Some a \<in> set l"
  by (induction l rule: present.induct) auto

lemma length_present_le: "length (present l) \<le> length l"
  by (induction l rule: present.induct) auto

lemma present_full: "length (present l) = length l \<Longrightarrow> l = map Some (present l)"
proof (induction l rule: present.induct)
  case (2 l)
  then show ?case using length_present_le [of l] by simp
qed auto

lemma present_none: "\<forall>x \<in> set l. x = None \<Longrightarrow> present l = []"
  by (induction l rule: present.induct) auto

lemma present_take:
  assumes "\<forall>j. n \<le> j \<and> j < length l \<longrightarrow> l ! j = None"
  shows "present (take n l) = present l"
proof -
  have "present (drop n l) = []" using assms by (intro present_none) (auto simp: in_set_conv_nth)
  then show ?thesis using present_append [of "take n l" "drop n l"] by simp
qed

lemma skipNull_hd: "l \<noteq> [] \<Longrightarrow> last l \<noteq> None \<Longrightarrow> skipNull l = Inr (Some (hd (present l))) \<and> present l \<noteq> []"
  by (induction l rule: present.induct) (auto split: if_splits)

definition posOf :: "WddmResidencyController \<Rightarrow> nat \<Rightarrow> nat" where
  "posOf c a = getTrimCandidateListPosition a c"

definition candidates :: "WddmResidencyController \<Rightarrow> nat list" where
  "candidates c = present (rc_trimCandidateList c)"

definition positions_ok :: "nat option list \<Rightarrow> (nat \<Rightarrow> nat) \<Rightarrow> bool" where
  "positions_ok l pos \<longleftrightarrow> (\<forall>k a. k < length l \<longrightarrow> (l ! k = Some a \<longleftrightarrow> pos a = k)) \<and>
     (\<forall>a. pos a < length l \<or> pos a = trimListUnusedPosition) \<and> length l \<le> trimListUnusedPosition"

lemma positions_okD:
  assumes "positions_ok l pos"
  shows "k < length l \<Longrightarrow> l ! k = Some a \<longleftrightarrow> pos a = k" "pos a < length l \<or> pos a = trimListUnusedPosition"
    "length l \<le> trimListUnusedPosition" "pos a = pos b \<Longrightarrow> pos a < length l \<Longrightarrow> a = b"
proof -
  show at: "k < length l \<Longrightarrow> l ! k = Some a \<longleftrightarrow> pos a = k" "pos a < length l \<or> pos a = trimListUnusedPosition"
    "length l \<le> trimListUnusedPosition" for k a
    using assms by (simp_all add: positions_ok_def)
  show "a = b" if "pos a = pos b" "pos a < length l" using at(1) [of "pos a" a] at(1) [of "pos a" b] that by simp
qed

definition trim_inv :: "WddmResidencyController \<Rightarrow> bool" where
  "trim_inv c \<longleftrightarrow> rc_trimCandidatesCount c = length (candidates c) \<and>
     (rc_trimCandidateList c \<noteq> [] \<longrightarrow> last (rc_trimCandidateList c) \<noteq> None) \<and>
     positions_ok (rc_trimCandidateList c) (posOf c) \<and> length (rc_trimCandidateList c) < 2 ^ 31 \<and>
     (\<forall>a. length (wa_fragments (rc_allocations c a)) \<le> maxFragments \<and> length (wa_handles (rc_allocations c a)) \<le> maxHandleCount)"

lemma positions_distinct:
  assumes "positions_ok l pos"
  shows "distinct (present l)"
proof -
  have "present (take n l) = [] \<or> distinct (present (take n l)) \<and> (\<forall>a \<in> set (present (take n l)). pos a < n)" if "n \<le> length l" for n
    using that
  proof (induction n)
    case (Suc n)
    then have n: "n < length l" by simp
    then have t: "present (take (Suc n) l) = present (take n l) @ (case l ! n of None \<Rightarrow> [] | Some a \<Rightarrow> [a])"
      by (simp add: take_Suc_conv_app_nth split: option.split)
    have "pos a = n" if "l ! n = Some a" for a using assms n that by (auto simp: positions_ok_def)
    then show ?case using Suc.IH n unfolding t by (cases "l ! n") fastforce+
  qed simp
  from this [of "length l"] show ?thesis by auto
qed

lemma positions_member:
  assumes "positions_ok l pos" "length l < 2 ^ 31"
  shows "a \<in> set (present l) \<longleftrightarrow> pos a \<noteq> trimListUnusedPosition"
    "a \<in> set (present l) \<Longrightarrow> pos a < length l \<and> l ! pos a = Some a"
proof -
  show at: "pos a < length l \<and> l ! pos a = Some a" if m: "a \<in> set (present l)"
  proof -
    obtain k where "k < length l" "l ! k = Some a" using m [unfolded set_present] by (auto simp: in_set_conv_nth)
    moreover from this have "pos a = k" using assms(1) by (simp add: positions_ok_def)
    ultimately show ?thesis by simp
  qed
  show "a \<in> set (present l) \<longleftrightarrow> pos a \<noteq> trimListUnusedPosition"
  proof
    assume "a \<in> set (present l)"
    then show "pos a \<noteq> trimListUnusedPosition" using at assms(2) by (auto simp: trimListUnusedPosition_def)
  next
    assume "pos a \<noteq> trimListUnusedPosition"
    then have "pos a < length l" using assms(1) unfolding positions_ok_def by blast
    moreover from this have "l ! pos a = Some a" using assms(1) unfolding positions_ok_def by blast
    ultimately show "a \<in> set (present l)" unfolding set_present by (metis nth_mem)
  qed
qed

lemma trim_invD:
  assumes "trim_inv c"
  shows "distinct (candidates c)" "a \<in> set (candidates c) \<longleftrightarrow> posOf c a \<noteq> trimListUnusedPosition"
    "a \<in> set (candidates c) \<Longrightarrow> posOf c a < length (rc_trimCandidateList c) \<and> rc_trimCandidateList c ! posOf c a = Some a"
  using assms positions_distinct positions_member unfolding trim_inv_def candidates_def by blast+

lemma head_of_candidates:
  assumes "trim_inv c"
  shows "getTrimCandidateHead c = Inr (case candidates c of [] \<Rightarrow> None | a # as \<Rightarrow> Some a)"
  using assms skipNull_hd [of "rc_trimCandidateList c"]
  by (cases "rc_trimCandidateList c = []"; cases "present (rc_trimCandidateList c)")
    (auto simp: getTrimCandidateHead_def candidates_def trim_inv_def)

section \<open>Frames\<close>

text \<open>What the operations on the list leave alone.\<close>

definition list_frame :: "WddmResidencyController \<Rightarrow> WddmResidencyController \<Rightarrow> bool" where
  "list_frame c c' \<longleftrightarrow> rc_osContextId c' = rc_osContextId c \<and> rc_monitoredFence c' = rc_monitoredFence c \<and>
     rc_lastTrimFenceValue c' = rc_lastTrimFenceValue c \<and> rc_fragmentData c' = rc_fragmentData c \<and> rc_evictions c' = rc_evictions c \<and>
     rc_memoryBudgetExhausted c' = rc_memoryBudgetExhausted c \<and>
     (\<forall>a. wa_residency (rc_allocations c' a) = wa_residency (rc_allocations c a) \<and>
          wa_fragments (rc_allocations c' a) = wa_fragments (rc_allocations c a) \<and>
          wa_handles (rc_allocations c' a) = wa_handles (rc_allocations c a) \<and>
          wa_cpuPtr (rc_allocations c' a) = wa_cpuPtr (rc_allocations c a) \<and> wa_size (rc_allocations c' a) = wa_size (rc_allocations c a))"

lemma list_frame_refl [simp]: "list_frame c c"
  by (simp add: list_frame_def)

lemma list_frame_trans: "list_frame c1 c2 \<Longrightarrow> list_frame c2 c3 \<Longrightarrow> list_frame c1 c3"
  by (simp add: list_frame_def)

lemma setPosition_simps [simp]:
  "posOf (setTrimCandidateListPosition a p c) = (posOf c)(a := p)"
  "rc_trimCandidateList (setTrimCandidateListPosition a p c) = rc_trimCandidateList c"
  "rc_trimCandidatesCount (setTrimCandidateListPosition a p c) = rc_trimCandidatesCount c"
  "candidates (setTrimCandidateListPosition a p c) = candidates c"
  "list_frame c (setTrimCandidateListPosition a p c)"
  by (auto simp: posOf_def getTrimCandidateListPosition_def setTrimCandidateListPosition_def upd_alloc_def list_frame_def candidates_def)

lemma posOf_list_update [simp]:
  "posOf (c\<lparr>rc_trimCandidatesCount := n, rc_trimCandidateList := l\<rparr>) = posOf c" "posOf (c\<lparr>rc_trimCandidateList := l\<rparr>) = posOf c"
  "posOf (c\<lparr>rc_trimCandidatesCount := n\<rparr>) = posOf c"
  "list_frame c (c\<lparr>rc_trimCandidatesCount := n, rc_trimCandidateList := l\<rparr>)" "list_frame c (c\<lparr>rc_trimCandidateList := l\<rparr>)"
  by (auto simp: posOf_def getTrimCandidateListPosition_def list_frame_def)

section \<open>Adding and removing\<close>

lemma add_ok:
  assumes "trim_inv c" "length (rc_trimCandidateList c) + 1 < 2 ^ 31"
  shows "trim_inv (addToTrimCandidateList a c)" "list_frame c (addToTrimCandidateList a c)"
    "candidates (addToTrimCandidateList a c) = (if a \<in> set (candidates c) then candidates c else candidates c @ [a])"
proof -
  let ?l = "rc_trimCandidateList c"
  have m: "a \<in> set (candidates c) \<longleftrightarrow> posOf c a \<noteq> trimListUnusedPosition" by (rule trim_invD(2) [OF assms(1)])
  have un: "length ?l + 1 < trimListUnusedPosition" using assms(2) by (simp add: trimListUnusedPosition_def)
  have p: "positions_ok ?l (posOf c)" using assms(1) by (simp add: trim_inv_def)
  show "candidates (addToTrimCandidateList a c) = (if a \<in> set (candidates c) then candidates c else candidates c @ [a])"
    using m by (simp add: addToTrimCandidateList_def posOf_def [symmetric]) (simp add: candidates_def)
  show "list_frame c (addToTrimCandidateList a c)"
    by (auto simp: addToTrimCandidateList_def intro: list_frame_trans [OF posOf_list_update(4) setPosition_simps(5)])
  note pd = positions_okD [OF p]
  have ok: "positions_ok (?l @ [Some a]) ((posOf c)(a := length ?l))" if u: "posOf c a = trimListUnusedPosition"
    unfolding positions_ok_def
  proof (intro conjI allI impI)
    fix k b assume "k < length (?l @ [Some a])"
    then consider "k < length ?l" | "k = length ?l" by fastforce
    then show "(?l @ [Some a]) ! k = Some b \<longleftrightarrow> ((posOf c)(a := length ?l)) b = k"
    proof cases
      case 1
      then show ?thesis using pd(1) [OF 1] u un by (auto simp: nth_append)
    next
      case 2
      then show ?thesis using pd(2) [of b] un by (auto simp: nth_append)
    qed
  next
    fix b show "((posOf c)(a := length ?l)) b < length (?l @ [Some a]) \<or> ((posOf c)(a := length ?l)) b = trimListUnusedPosition"
      using pd(2) [of b] by auto
  qed (use un in simp)
  have cnt: "length (candidates c) + 1 < 4294967296"
    using length_present_le [of ?l] assms(2) by (simp add: candidates_def)
  show "trim_inv (addToTrimCandidateList a c)"
  proof (cases "posOf c a = trimListUnusedPosition")
    case True
    then have e: "addToTrimCandidateList a c = setTrimCandidateListPosition a (length ?l)
        (c\<lparr>rc_trimCandidatesCount := wrap32 (rc_trimCandidatesCount c + 1), rc_trimCandidateList := ?l @ [Some a]\<rparr>)"
      by (simp add: addToTrimCandidateList_def posOf_def)
    have "\<forall>b. length (wa_fragments (rc_allocations (addToTrimCandidateList a c) b)) \<le> maxFragments \<and>
        length (wa_handles (rc_allocations (addToTrimCandidateList a c) b)) \<le> maxHandleCount"
      using \<open>list_frame c (addToTrimCandidateList a c)\<close> assms(1) by (simp add: list_frame_def trim_inv_def)
    then show ?thesis
      using assms ok [OF True] cnt unfolding e by (simp add: trim_inv_def) (simp add: candidates_def)
  next
    case False
    then show ?thesis using assms(1) by (simp add: addToTrimCandidateList_def posOf_def)
  qed
qed

lemma erasePosition_spec:
  "p < length l \<Longrightarrow> erasePosition l p \<le> p \<and> (\<forall>j. erasePosition l p < j \<and> j \<le> p \<longrightarrow> l ! j = None) \<and>
   (erasePosition l p = 0 \<or> l ! erasePosition l p \<noteq> None)"
  by (induction l p rule: erasePosition.induct) (auto simp: le_Suc_eq)

lemma cutTail_spec:
  assumes "p < length l" "p = length l - 1" "l ! p = None"
  obtains n where "cutTail p l = take n l" "n \<le> length l" "\<forall>j. n \<le> j \<and> j < length l \<longrightarrow> l ! j = None" "n = 0 \<or> l ! (n - 1) \<noteq> None"
proof (cases "p = 0")
  case True
  then have "length l = 1" using assms(1,2) by (cases l) auto
  then show ?thesis using True assms(3) by (intro that [of 0]) (simp_all add: cutTail_def)
next
  case False
  let ?e = "erasePosition l p"
  note e = erasePosition_spec [OF assms(1)]
  show ?thesis
  proof (cases "?e = 0 \<and> l ! ?e = None")
    case True
    then have "l ! j = None" if "j < length l" for j
      using e that assms(2) by (cases "j = 0") auto
    then show ?thesis using False True by (intro that [of 0]) (auto simp: cutTail_def)
  next
    case f: False
    then have "l ! ?e \<noteq> None" using e by auto
    moreover have "\<forall>j. ?e + 1 \<le> j \<and> j < length l \<longrightarrow> l ! j = None" using e assms(2) by auto
    ultimately show ?thesis using False f e assms(1) by (intro that [of "?e + 1"]) (auto simp: cutTail_def)
  qed
qed

lemma present_update_None:
  assumes "k < length l" "l ! k = Some a" "distinct (present l)"
  shows "present (l[k := None]) = remove1 a (present l)"
proof -
  have l: "l = take k l @ Some a # drop (Suc k) l" using id_take_nth_drop [OF assms(1)] assms(2) by simp
  have "l[k := None] = take k l @ None # drop (Suc k) l" using assms(1) by (simp add: upd_conv_take_nth_drop)
  moreover have "present l = present (take k l) @ a # present (drop (Suc k) l)" by (subst l) simp
  moreover have "a \<notin> set (present (take k l))" using assms(3) calculation(2) by simp
  ultimately show ?thesis by (simp add: remove1_append)
qed

lemma positions_take:
  assumes "positions_ok l pos" "\<forall>j. n \<le> j \<and> j < length l \<longrightarrow> l ! j = None" "n \<le> length l"
  shows "positions_ok (take n l) pos"
proof -
  have "pos a < n \<or> pos a = trimListUnusedPosition" for a
  proof (rule ccontr)
    assume "\<not> ?thesis"
    then have "n \<le> pos a" "pos a < length l" using assms(1) unfolding positions_ok_def by (metis not_less)+
    moreover from this have "l ! pos a = Some a" using assms(1) by (simp add: positions_ok_def)
    ultimately show False using assms(2) by simp
  qed
  then show ?thesis using assms(1,3) by (simp add: positions_ok_def min_def)
qed

lemma positions_update_None:
  assumes "positions_ok l pos" "k < length l" "l ! k = Some a"
  shows "positions_ok (l[k := None]) (pos(a := trimListUnusedPosition))"
proof -
  note pd = positions_okD [OF assms(1)]
  have k: "pos a = k" using pd(1) [OF assms(2), of a] assms(3) by simp
  show ?thesis
    unfolding positions_ok_def
  proof (intro conjI allI impI)
    fix j b assume "j < length (l[k := None])"
    then have j: "j < length l" by simp
    show "l[k := None] ! j = Some b \<longleftrightarrow> (pos(a := trimListUnusedPosition)) b = j"
    proof (cases "b = a")
      case True
      then show ?thesis using pd(1) [OF j, of a] pd(3) j k by (cases "j = k") auto
    next
      case False
      then have "pos b \<noteq> k" using pd(1) [OF assms(2), of b] assms(3) by simp
      then show ?thesis using pd(1) [OF j, of b] False j by (cases "j = k") auto
    qed
  next
    fix b show "(pos(a := trimListUnusedPosition)) b < length (l[k := None]) \<or> (pos(a := trimListUnusedPosition)) b = trimListUnusedPosition"
      using pd(2) by simp
  qed (use pd(3) in simp)
qed

text \<open>The invariant after an operation that leaves the frame: only the list, the count and the positions matter.\<close>

lemma trim_invI:
  assumes "trim_inv c" "list_frame c c'" "rc_trimCandidatesCount c' = length (candidates c')"
    "rc_trimCandidateList c' \<noteq> [] \<longrightarrow> last (rc_trimCandidateList c') \<noteq> None" "positions_ok (rc_trimCandidateList c') (posOf c')"
    "length (rc_trimCandidateList c') \<le> length (rc_trimCandidateList c)"
  shows "trim_inv c'"
  using assms by (simp add: trim_inv_def list_frame_def)

lemma removed_list:
  assumes "positions_ok l pos" "k < length l" "l ! k = Some a" "last l \<noteq> None"
  defines "l' \<equiv> (if k = length (l[k := None]) - 1 then cutTail k (l[k := None]) else l[k := None])"
  shows "positions_ok l' (pos(a := trimListUnusedPosition))" "present l' = remove1 a (present l)" "l' \<noteq> [] \<longrightarrow> last l' \<noteq> None"
    "length l' \<le> length l"
proof -
  let ?m = "l[k := None]"
  note p = positions_update_None [OF assms(1-3)]
  have r: "present ?m = remove1 a (present l)" by (rule present_update_None [OF assms(2,3) positions_distinct [OF assms(1)]])
  show "positions_ok l' (pos(a := trimListUnusedPosition))" "present l' = remove1 a (present l)" "l' \<noteq> [] \<longrightarrow> last l' \<noteq> None"
    "length l' \<le> length l"
  proof (atomize (full), cases "k = length ?m - 1")
    case True
    have "k < length ?m" "?m ! k = None" using assms(2) by simp_all
    then obtain n where n: "cutTail k ?m = take n ?m" "n \<le> length ?m" "\<forall>j. n \<le> j \<and> j < length ?m \<longrightarrow> ?m ! j = None" "n = 0 \<or> ?m ! (n - 1) \<noteq> None"
      using True by (elim cutTail_spec) auto
    have "last (take n ?m) \<noteq> None" if "take n ?m \<noteq> []" using n(2,4) that by (auto simp: last_conv_nth min_def)
    then show "(positions_ok l' (pos(a := trimListUnusedPosition)) \<and> present l' = remove1 a (present l)) \<and> (l' \<noteq> [] \<longrightarrow> last l' \<noteq> None) \<and> length l' \<le> length l"
      using True n positions_take [OF p n(3,2)] present_take [OF n(3)] r unfolding l'_def by simp
  next
    case False
    then have "last ?m = last l" using assms(2) by (cases l rule: rev_cases) (auto simp: list_update_append)
    then show "(positions_ok l' (pos(a := trimListUnusedPosition)) \<and> present l' = remove1 a (present l)) \<and> (l' \<noteq> [] \<longrightarrow> last l' \<noteq> None) \<and> length l' \<le> length l"
      using False assms(4) p r unfolding l'_def by auto
  qed
qed

lemma remove_ok:
  assumes "trim_inv c" "a \<in> set (candidates c)"
  obtains c' where "removeFromTrimCandidateList a False c = Inr c'" "removeFromTrimCandidateList a True c = compactIfSparse c'"
    "trim_inv c'" "list_frame c c'" "candidates c' = remove1 a (candidates c)"
proof -
  let ?l = "rc_trimCandidateList c" and ?k = "posOf c a"
  have k: "?k < length ?l" "?l ! ?k = Some a" using trim_invD(3) [OF assms] by auto
  have i: "positions_ok ?l (posOf c)" "last ?l \<noteq> None" "rc_trimCandidatesCount c = length (candidates c)" "length ?l < 2 ^ 31"
    using assms(1) k(1) by (auto simp: trim_inv_def)
  let ?m = "if ?k = length (?l[?k := None]) - 1 then cutTail ?k (?l[?k := None]) else ?l[?k := None]"
  note rl = removed_list [OF i(1) k i(2)]
  let ?c = "setTrimCandidateListPosition a trimListUnusedPosition
    (c\<lparr>rc_trimCandidatesCount := wrap32 (rc_trimCandidatesCount c + 4294967295), rc_trimCandidateList := ?m\<rparr>)"
  have e: "removeFromTrimCandidateList a b c = (if b then compactIfSparse ?c else Inr ?c)" for b
    unfolding removeFromTrimCandidateList_def Let_def posOf_def [symmetric] by (rule if_not_P) (use k(1) in simp)
  have len: "length (present ?l) < 4294967296" "0 < length (present ?l)"
    using length_present_le [of ?l] i(4) assms(2) by (auto simp: candidates_def)
  have cands: "candidates ?c = remove1 a (candidates c)" using rl(2) by (simp add: candidates_def)
  have fr: "list_frame c ?c" by (rule list_frame_trans [OF posOf_list_update(4) setPosition_simps(5)])
  have "wrap32 (length (present ?l) + 4294967295) = length (present ?l) - 1" using len by (cases "length (present ?l)") auto
  then have "rc_trimCandidatesCount ?c = length (candidates ?c)"
    using i(3) assms(2) cands by (simp add: candidates_def length_remove1)
  then have "trim_inv ?c" using rl by (intro trim_invI [OF assms(1) fr]) simp_all
  then show ?thesis using that [of ?c] e [of False] e [of True] fr cands by simp
qed

section \<open>Compaction\<close>

lemma firstFree_spec:
  assumes "length (present l) \<le> n" "n \<le> length l" "length (present l) < length l" "last l \<noteq> None"
  obtains f where "firstFree n l = Inr f" "f < length l" "l ! f = None" "\<forall>j < f. l ! j \<noteq> None"
  using assms
proof (induction n l arbitrary: thesis rule: firstFree.induct)
  case (1 l)
  then have "present l = []" "l \<noteq> []" by auto
  then show ?case using skipNull_hd [of l] 1 by auto
next
  case (4 n a l)
  then have "l \<noteq> []" by (auto split: if_splits)
  then obtain f where "firstFree n l = Inr f" "f < length l" "l ! f = None" "\<forall>j < f. l ! j \<noteq> None"
    using "4.IH" "4.prems"(2-) by auto
  then show ?case by (intro "4.prems"(1) [of "Suc f"]) (auto simp: less_Suc_eq_0_disj)
qed auto

text \<open>The list while the loop stands before an index: the candidates met so far, holes, and the rest.\<close>

definition compacted :: "nat option list \<Rightarrow> nat \<Rightarrow> nat option list" where
  "compacted l i = map Some (present (take i l)) @ replicate (i - length (present (take i l))) None @ drop i l"

lemma compact_skip:
  assumes "\<forall>j < f. rc_trimCandidateList c ! j \<noteq> None" "rc_trimCandidateList c ! f = None"
  shows "fold (compactStep sz) [1..<Suc f] (f, c) = (f, c)"
proof -
  have "compactStep sz i (f, c) = (f, c)" if "i \<le> f" for i
    using that assms by (auto simp: compactStep_def split: option.split)
  then have "\<forall>i \<in> set is. i \<le> f \<Longrightarrow> fold (compactStep sz) is (f, c) = (f, c)" for "is"
    by (induction "is") auto
  then show ?thesis by (simp del: upt_Suc)
qed

lemma compacted_step_Some:
  assumes "i < length l" "l ! i = Some a" "length (present (take i l)) < i"
  shows "compacted l i ! i = Some a"
    "(compacted l i)[length (present (take i l)) := Some a, i := None] = compacted l (Suc i)"
    "present (take (Suc i) l) = present (take i l) @ [a]"
proof -
  let ?P = "present (take i l)"
  have d: "drop i l = Some a # drop (Suc i) l" using assms(1,2) by (metis Cons_nth_drop_Suc)
  obtain r where r: "i - length ?P = Suc r" using assms(3) by (cases "i - length ?P") auto
  show n: "present (take (Suc i) l) = ?P @ [a]" using assms(1,2) by (simp add: take_Suc_conv_app_nth)
  have c: "compacted l i = map Some ?P @ None # replicate r None @ Some a # drop (Suc i) l"
    unfolding compacted_def d r by simp
  have i: "i = length ?P + Suc r" using r by simp
  show "compacted l i ! i = Some a" unfolding c by (subst (3) i) (simp add: nth_append)
  have "compacted l (Suc i) = map Some ?P @ Some a # replicate (Suc r) None @ drop (Suc i) l"
    unfolding compacted_def n using r by simp
  moreover have "(compacted l i)[length ?P := Some a, i := None] = map Some ?P @ Some a # replicate r None @ None # drop (Suc i) l"
    unfolding c using i r by (simp add: list_update_append)
  ultimately show "(compacted l i)[length ?P := Some a, i := None] = compacted l (Suc i)" by (simp add: replicate_append_same)
qed

lemma compacted_step_None:
  assumes "i < length l" "l ! i = None"
  shows "compacted l i ! i = None" "compacted l (Suc i) = compacted l i" "present (take (Suc i) l) = present (take i l)"
proof -
  let ?P = "present (take i l)"
  have le: "length ?P \<le> i" using length_present_le [of "take i l"] by simp
  have d: "drop i l = None # drop (Suc i) l" using assms(1,2) by (metis Cons_nth_drop_Suc)
  show n: "present (take (Suc i) l) = ?P" using assms by (simp add: take_Suc_conv_app_nth)
  show "compacted l (Suc i) = compacted l i"
    unfolding compacted_def n d using le by (simp add: Suc_diff_le replicate_append_same [symmetric])
  show "compacted l i ! i = None" unfolding compacted_def d using le by (simp add: nth_append)
qed

lemma present_leading:
  assumes "\<forall>j < f. l ! j \<noteq> None" "f < length l" "l ! f = None"
  shows "compacted l (Suc f) = l" "length (present (take (Suc f) l)) = f" "k < f \<Longrightarrow> l ! k = Some (present (take (Suc f) l) ! k)"
proof -
  have t: "take f l = map Some (map the (take f l))"
    using assms(1,2) by (intro nth_equalityI) auto
  have p: "present (take (Suc f) l) = map the (take f l)"
    unfolding take_Suc_conv_app_nth [OF assms(2)] assms(3) by (subst t) (simp del: map_map)
  show "length (present (take (Suc f) l)) = f" unfolding p using assms(2) by simp
  show "k < f \<Longrightarrow> l ! k = Some (present (take (Suc f) l) ! k)" unfolding p using assms(1,2) by auto
  have "compacted l (Suc f) = take f l @ None # drop (Suc f) l"
    unfolding compacted_def p using assms(2) t by simp
  then show "compacted l (Suc f) = l" using id_take_nth_drop [OF assms(2)] assms(3) by simp
qed

lemma present_hole:
  assumes "f < i" "i \<le> length l" "l ! f = None"
  shows "length (present (take i l)) < i"
proof -
  have "take i l = take f l @ None # drop (Suc f) (take i l)"
    using id_take_nth_drop [of f "take i l"] assms by (simp add: min_def)
  then have "present (take i l) = present (take f l) @ present (drop (Suc f) (take i l))" by (metis present_append present.simps(2))
  then show ?thesis
    using length_present_le [of "take f l"] length_present_le [of "drop (Suc f) (take i l)"] assms by simp
qed

definition moved :: "WddmResidencyController \<Rightarrow> nat list \<Rightarrow> WddmResidencyController \<Rightarrow> bool" where
  "moved c P c' \<longleftrightarrow> rc_trimCandidatesCount c' = rc_trimCandidatesCount c \<and> list_frame c c' \<and>
     (\<forall>k < length P. posOf c' (P ! k) = k) \<and> (\<forall>b. b \<notin> set P \<longrightarrow> posOf c' b = posOf c b)"

lemma moved_append:
  assumes "moved c P c'" "a \<notin> set P" "rc_trimCandidatesCount c2 = rc_trimCandidatesCount c'" "list_frame c' c2"
    "posOf c2 = (posOf c')(a := length P)"
  shows "moved c (P @ [a]) c2"
  using assms unfolding moved_def
  by (auto simp: nth_append less_Suc_eq intro: list_frame_trans dest: nth_mem)

lemma compactStep_Some:
  assumes "rc_trimCandidateList c ! i = Some a" "f < i"
  obtains c2 where "compactStep sz i (f, c) = (f + 1, c2)" "rc_trimCandidatesCount c2 = rc_trimCandidatesCount c" "list_frame c c2"
    "posOf c2 = (posOf c)(a := f)"
    "rc_trimCandidateList c2 = (let l = (rc_trimCandidateList c)[f := Some a, i := None] in if i = sz - 1 then take (f + 1) l else l)"
proof -
  let ?c1 = "setTrimCandidateListPosition a f (c\<lparr>rc_trimCandidateList := (rc_trimCandidateList c)[f := Some a, i := None]\<rparr>)"
  let ?c2 = "if i = sz - 1 then ?c1\<lparr>rc_trimCandidateList := take (f + 1) (rc_trimCandidateList ?c1)\<rparr> else ?c1"
  have fr: "list_frame c ?c1" by (rule list_frame_trans [OF posOf_list_update(5) setPosition_simps(5)])
  have "compactStep sz i (f, c) = (f + 1, ?c2)" using assms by (simp add: compactStep_def Let_def)
  moreover have "list_frame c ?c2" using fr list_frame_trans [OF fr posOf_list_update(5)] by (simp only: if_split) blast
  ultimately show ?thesis by (intro that [of ?c2]) (simp_all add: Let_def)
qed

lemma compact_loop:
  assumes "positions_ok (rc_trimCandidateList c) (posOf c)" "l = rc_trimCandidateList c"
    "f < length l" "l ! f = None" "\<forall>j < f. l ! j \<noteq> None"
  shows "Suc f \<le> m \<Longrightarrow> m < length l \<Longrightarrow> \<exists>c'. fold (compactStep (length l)) [Suc f..<m] (f, c) = (length (present (take m l)), c') \<and>
     rc_trimCandidateList c' = compacted l m \<and> moved c (present (take m l)) c'"
proof (induction m rule: nat_induct_at_least)
  case base
  note p = present_leading [OF assms(5,3,4)]
  have f: "length (present (take (Suc f) l)) = f" by (rule p(2))
  have "posOf c (present (take (Suc f) l) ! k) = k" if "k < f" for k
    using p(3) [OF that] positions_okD(1) [OF assms(1), of k "present (take (Suc f) l) ! k"] that assms(2,3) by simp
  then have "moved c (present (take (Suc f) l)) c" unfolding moved_def f by simp
  then show ?case using p(1) f assms(2) by simp
next
  case (Suc m)
  then obtain c' where c': "fold (compactStep (length l)) [Suc f..<m] (f, c) = (length (present (take m l)), c')"
    "rc_trimCandidateList c' = compacted l m" "moved c (present (take m l)) c'" by auto
  have u: "fold (compactStep (length l)) [Suc f..<Suc m] (f, c) = compactStep (length l) m (length (present (take m l)), c')"
    using Suc.hyps c'(1) by simp
  have ml: "m < length l" "m \<noteq> length l - 1" using Suc.prems by simp_all
  show ?case
  proof (cases "l ! m")
    case None
    note n = compacted_step_None [OF ml(1) None]
    have "compactStep (length l) m (length (present (take m l)), c') = (length (present (take m l)), c')"
      using c'(2) n(1) by (simp add: compactStep_def)
    then show ?thesis unfolding u using c'(2,3) n(2,3) by auto
  next
    case (Some a)
    have lt: "length (present (take m l)) < m" using present_hole [of f m l] Suc.hyps ml(1) assms(4) by simp
    note s = compacted_step_Some [OF ml(1) Some lt]
    obtain c2 where c2: "compactStep (length l) m (length (present (take m l)), c') = (length (present (take m l)) + 1, c2)"
      "rc_trimCandidatesCount c2 = rc_trimCandidatesCount c'" "list_frame c' c2" "posOf c2 = (posOf c')(a := length (present (take m l)))"
      "rc_trimCandidateList c2 = (let l1 = (rc_trimCandidateList c')[length (present (take m l)) := Some a, m := None]
         in if m = length l - 1 then take (length (present (take m l)) + 1) l1 else l1)"
      using s(1) c'(2) lt by (elim compactStep_Some [of c' m a, rotated 2]) simp_all
    have "distinct (present (take (Suc m) l))"
      using positions_distinct [OF assms(1)] assms(2) present_append [of "take (Suc m) l" "drop (Suc m) l"] by simp
    then have "a \<notin> set (present (take m l))" unfolding s(3) by simp
    from moved_append [OF c'(3) this c2(2-4)] have "moved c (present (take (Suc m) l)) c2" unfolding s(3) .
    moreover have "rc_trimCandidateList c2 = compacted l (Suc m)" using c2(5) ml(2) c'(2) s(2) by (simp add: Let_def)
    ultimately show ?thesis unfolding u c2(1) s(3) by simp
  qed
qed

lemma upt_split: "i \<le> j \<Longrightarrow> j \<le> k \<Longrightarrow> [i..<k] = [i..<j] @ [j..<k]"
  using upt_add_eq_append [of i j "k - j"] by simp

lemma positions_moved:
  assumes "trim_inv c" "moved c (candidates c) c'"
  shows "positions_ok (map Some (candidates c)) (posOf c')"
proof -
  let ?P = "candidates c"
  have un: "length ?P < trimListUnusedPosition"
    using length_present_le [of "rc_trimCandidateList c"] assms(1) by (simp add: trim_inv_def candidates_def trimListUnusedPosition_def)
  have out: "posOf c' b = trimListUnusedPosition" if "b \<notin> set ?P" for b
    using that assms(2) trim_invD(2) [OF assms(1), of b] by (simp add: moved_def)
  have at: "posOf c' (?P ! k) = k" if "k < length ?P" for k using that assms(2) by (simp add: moved_def)
  have "map Some ?P ! k = Some a \<longleftrightarrow> posOf c' a = k" if k: "k < length ?P" for k a
  proof (cases "a \<in> set ?P")
    case True
    then obtain j where "j < length ?P" "a = ?P ! j" by (auto simp: in_set_conv_nth)
    then show ?thesis using at k nth_eq_iff_index_eq [OF trim_invD(1) [OF assms(1)]] by auto
  next
    case False
    then show ?thesis using out k un by (auto dest: nth_mem)
  qed
  moreover have "posOf c' a < length ?P \<or> posOf c' a = trimListUnusedPosition" for a
    using at out by (metis in_set_conv_nth)
  ultimately show ?thesis using un by (simp add: positions_ok_def)
qed

lemma compact_ok:
  assumes "trim_inv c"
  obtains c' where "compactTrimCandidateList c = Inr c'" "rc_trimCandidateList c' = map Some (candidates c)" "trim_inv c'" "list_frame c c'"
    "candidates c' = candidates c"
proof -
  let ?l = "rc_trimCandidateList c"
  have i: "rc_trimCandidatesCount c = length (present ?l)" "?l \<noteq> [] \<longrightarrow> last ?l \<noteq> None" "positions_ok ?l (posOf c)"
    using assms by (simp_all add: trim_inv_def candidates_def)
  show ?thesis
  proof (cases "length ?l = 0 \<or> length ?l = rc_trimCandidatesCount c")
    case True
    then have "?l = map Some (present ?l)" using i(1) present_full [of ?l] by auto
    then show ?thesis using True assms by (intro that [of c]) (simp_all add: compactTrimCandidateList_def candidates_def)
  next
    case False
    then have ne: "?l \<noteq> []" "length (present ?l) < length ?l" using i(1) length_present_le [of ?l] by auto
    have lst: "last ?l \<noteq> None" using i(2) ne(1) by simp
    obtain f where f: "firstFree (rc_trimCandidatesCount c) ?l = Inr f" "f < length ?l" "?l ! f = None" "\<forall>j < f. ?l ! j \<noteq> None"
      using firstFree_spec [of ?l "rc_trimCandidatesCount c"] i(1) ne(2) lst by auto
    let ?m = "length ?l - 1"
    have nl: "?l ! ?m \<noteq> None" using lst ne(1) by (simp add: last_conv_nth)
    then have "f \<noteq> ?m" using f(3) by metis
    then have fm: "Suc f \<le> ?m" "?m < length ?l" using f(2) by linarith+
    obtain a where a: "?l ! ?m = Some a" using nl by auto
    obtain c1 where c1: "fold (compactStep (length ?l)) [Suc f..<?m] (f, c) = (length (present (take ?m ?l)), c1)"
      "rc_trimCandidateList c1 = compacted ?l ?m" "moved c (present (take ?m ?l)) c1"
      using compact_loop [OF i(3) refl f(2-4) fm] by blast
    have lt: "length (present (take ?m ?l)) < ?m" using present_hole [of f ?m ?l] fm f(3) by simp
    note s = compacted_step_Some [OF fm(2) a lt]
    have full: "present ?l = present (take ?m ?l) @ [a]" using s(3) fm(2) by simp
    obtain c2 where c2: "compactStep (length ?l) ?m (length (present (take ?m ?l)), c1) = (length (present (take ?m ?l)) + 1, c2)"
      "rc_trimCandidatesCount c2 = rc_trimCandidatesCount c1" "list_frame c1 c2" "posOf c2 = (posOf c1)(a := length (present (take ?m ?l)))"
      "rc_trimCandidateList c2 = (let l1 = (rc_trimCandidateList c1)[length (present (take ?m ?l)) := Some a, ?m := None]
         in if ?m = length ?l - 1 then take (length (present (take ?m ?l)) + 1) l1 else l1)"
      using s(1) c1(2) lt by (elim compactStep_Some [of c1 ?m a, rotated 2]) simp_all
    have "[1..<length ?l] = [1..<Suc f] @ [Suc f..<?m] @ [?m]"
      using upt_split [of 1 "Suc f" "length ?l"] upt_split [of "Suc f" ?m "length ?l"] fm by (simp add: upt_conv_Cons del: upt_Suc)
    then have "fold (compactStep (length ?l)) [1..<length ?l] (f, c) = (length (present (take ?m ?l)) + 1, c2)"
      using compact_skip [OF f(4,3)] c1(1) c2(1) by (simp del: upt_Suc)
    then have res: "compactTrimCandidateList c = Inr c2"
      using False f(1) by (simp add: compactTrimCandidateList_def Let_def)
    have "a \<notin> set (present (take ?m ?l))" using positions_distinct [OF i(3)] full by simp
    from moved_append [OF c1(3) this c2(2-4)] have mv: "moved c (candidates c) c2" using full by (simp add: candidates_def)
    have l2: "rc_trimCandidateList c2 = map Some (candidates c)"
      using c2(5) c1(2) s(2) fm(2) full by (simp add: Let_def compacted_def candidates_def)
    then have "candidates c2 = candidates c" by (simp add: candidates_def)
    moreover have "trim_inv c2"
      using mv positions_moved [OF assms mv] i(1) ne(2) l2
      by (intro trim_invI [OF assms, of c2]) (auto simp: moved_def candidates_def last_map)
    ultimately show ?thesis using res l2 mv by (intro that [of c2]) (simp_all add: moved_def)
  qed
qed

lemma compactIfSparse_ok:
  assumes "trim_inv c"
  obtains c' where "compactIfSparse c = Inr c'" "trim_inv c'" "list_frame c c'" "candidates c' = candidates c"
  using assms compact_ok [OF assms] by (cases "checkTrimCandidateListCompaction c") (auto simp: compactIfSparse_def)

section \<open>Eviction\<close>

definition residentIn :: "WddmResidencyController \<Rightarrow> nat \<Rightarrow> bool" where
  "residentIn c a \<longleftrightarrow> resident (wa_residency (rc_allocations c a)) (rc_osContextId c)"

text \<open>What trimming leaves alone: fences, sizes and handles; residency is only taken away.\<close>

definition data_frame :: "WddmResidencyController \<Rightarrow> WddmResidencyController \<Rightarrow> bool" where
  "data_frame c c' \<longleftrightarrow> rc_osContextId c' = rc_osContextId c \<and> rc_lastTrimFenceValue c' = rc_lastTrimFenceValue c \<and>
     mf_lastSubmittedFence (rc_monitoredFence c') = mf_lastSubmittedFence (rc_monitoredFence c) \<and>
     mf_currentFenceValue (rc_monitoredFence c') = mf_currentFenceValue (rc_monitoredFence c) \<and>
     fenceOf c' = fenceOf c \<and> fragmentFence c' = fragmentFence c \<and>
     (\<forall>a. wa_fragments (rc_allocations c' a) = wa_fragments (rc_allocations c a) \<and> wa_handles (rc_allocations c' a) = wa_handles (rc_allocations c a) \<and>
          getAlignedSize (rc_allocations c' a) = getAlignedSize (rc_allocations c a) \<and> (residentIn c' a \<longrightarrow> residentIn c a))"

definition keeps_list :: "WddmResidencyController \<Rightarrow> WddmResidencyController \<Rightarrow> bool" where
  "keeps_list c c' \<longleftrightarrow> rc_trimCandidateList c' = rc_trimCandidateList c \<and> rc_trimCandidatesCount c' = rc_trimCandidatesCount c \<and> posOf c' = posOf c"

lemma data_frame_refl [simp]: "data_frame c c" "keeps_list c c"
  by (simp_all add: data_frame_def keeps_list_def)

lemma data_frame_trans: "data_frame c1 c2 \<Longrightarrow> data_frame c2 c3 \<Longrightarrow> data_frame c1 c3"
  by (simp add: data_frame_def)

lemma keeps_list_trans: "keeps_list c1 c2 \<Longrightarrow> keeps_list c2 c3 \<Longrightarrow> keeps_list c1 c3"
  by (simp add: keeps_list_def)

lemma list_frame_data: "list_frame c c' \<Longrightarrow> data_frame c c'"
  by (simp add: list_frame_def data_frame_def fenceOf_def fragmentFence_def residentIn_def getAlignedSize_def fun_eq_iff)

lemma keeps_list_inv: "trim_inv c \<Longrightarrow> keeps_list c c' \<Longrightarrow> data_frame c c' \<Longrightarrow> trim_inv c' \<and> candidates c' = candidates c"
  by (simp add: trim_inv_def keeps_list_def data_frame_def candidates_def)

text \<open>A stretch of trimming with the calls for eviction it makes; stretches compose.\<close>

definition evicts :: "WddmResidencyController \<Rightarrow> nat list list \<Rightarrow> WddmResidencyController \<Rightarrow> bool" where
  "evicts c hss c' \<longleftrightarrow> data_frame c c' \<and> keeps_list c c' \<and> rc_evictions c' = rc_evictions c @ hss"

lemma evicts_refl [simp]: "evicts c [] c"
  by (simp add: evicts_def)

lemma evicts_trans: "evicts c1 h1 c2 \<Longrightarrow> evicts c2 h2 c3 \<Longrightarrow> evicts c1 (h1 @ h2) c3"
  unfolding evicts_def using data_frame_trans keeps_list_trans by fastforce

lemma evict_evicts: "evicts c [hs] (evict hs c)"
  by (auto simp: evict_def evicts_def data_frame_def keeps_list_def fenceOf_def fragmentFence_def residentIn_def posOf_def
      getTrimCandidateListPosition_def fun_eq_iff)

lemma clearResident_evicts: "evicts c [] (clearResident a c)" "\<not> residentIn (clearResident a c) a"
  by (auto simp: clearResident_def evicts_def upd_alloc_def setResident_def data_frame_def keeps_list_def fenceOf_def fragmentFence_def
      getFenceValueForContextId_def getAlignedSize_def residentIn_def posOf_def getTrimCandidateListPosition_def fun_eq_iff)

lemma clearFragment_evicts: "evicts c [] (clearFragment f c)"
  by (auto simp: clearFragment_def evicts_def upd_fragment_def setResident_def data_frame_def keeps_list_def fenceOf_def fragmentFence_def
      getFenceValueForContextId_def residentIn_def posOf_def getTrimCandidateListPosition_def fun_eq_iff)

lemma clearFragments_evicts: "evicts c [] (fold clearFragment fs c)"
proof (induction fs arbitrary: c)
  case (Cons f fs)
  then show ?case using evicts_trans [OF clearFragment_evicts [of c f] Cons.IH] by simp
qed simp

lemma waitFromCpu_evicts: "evicts c [] (waitFromCpu v c)"
  by (auto simp: waitFromCpu_def evicts_def data_frame_def keeps_list_def fenceOf_def fragmentFence_def residentIn_def posOf_def
      getTrimCandidateListPosition_def fun_eq_iff)

lemma evicts_if: "(b \<Longrightarrow> evicts c h1 c1) \<Longrightarrow> (\<not> b \<Longrightarrow> evicts c h2 c2) \<Longrightarrow> evicts c (if b then h1 else h2) (if b then c1 else c2)"
  by simp

text \<open>The fragments one candidate gives up at a fence value, the calls this causes and the bytes it frees, as functions
  of the state before.\<close>

definition idle :: "WddmResidencyController \<Rightarrow> nat \<Rightarrow> bool" where
  "idle c a \<longleftrightarrow> fenceOf c a \<le> rc_lastTrimFenceValue c"

definition oldFragments :: "WddmResidencyController \<Rightarrow> nat \<Rightarrow> nat \<Rightarrow> WddmFragment list" where
  "oldFragments c bound a = filter (\<lambda>f. fragmentFence c f \<le> bound) (wa_fragments (rc_allocations c a))"

definition evictions :: "WddmResidencyController \<Rightarrow> nat \<Rightarrow> nat \<Rightarrow> nat list list" where
  "evictions c bound a =
     (if wa_fragments (rc_allocations c a) = [] then [wa_handles (rc_allocations c a)]
      else if oldFragments c bound a = [] then [] else [map wf_handle (oldFragments c bound a)])"

definition bytesFreed :: "WddmResidencyController \<Rightarrow> nat \<Rightarrow> nat \<Rightarrow> nat" where
  "bytesFreed c bound a =
     (if wa_fragments (rc_allocations c a) = [] then getAlignedSize (rc_allocations c a)
      else wrap64 (sum_list (map wf_fragmentSize (oldFragments c bound a))))"

lemma data_frame_reads:
  assumes "data_frame c c'"
  shows "oldFragments c' = oldFragments c" "evictions c' = evictions c" "bytesFreed c' = bytesFreed c" "idle c' = idle c"
    "fenceOf c' = fenceOf c" "rc_lastTrimFenceValue c' = rc_lastTrimFenceValue c"
    "mf_lastSubmittedFence (rc_monitoredFence c') = mf_lastSubmittedFence (rc_monitoredFence c)"
  using assms by (simp_all add: evictions_def oldFragments_def bytesFreed_def idle_def data_frame_def fun_eq_iff)

lemma periodicEvict_ok:
  assumes "length (wa_fragments (rc_allocations c a)) \<le> maxFragments"
  obtains c' where "periodicEvict a c = Inr c'" "evicts c (evictions c (rc_lastTrimFenceValue c) a) c'" "\<not> residentIn c' a"
proof -
  let ?w = "rc_allocations c a"
  define c1 where "c1 = (if wa_fragments ?w = [] then evict (wa_handles ?w) c else c)"
  have e1: "evicts c (if wa_fragments ?w = [] then [wa_handles ?w] else []) c1"
    unfolding c1_def by (rule evicts_if) (simp_all add: evict_evicts)
  define old where "old = oldFragments c (rc_lastTrimFenceValue c) a"
  have old: "filter (\<lambda>f. \<not> wasAllocationUsedSinceLastTrim c1 (fragmentFence c1 f)) (wa_fragments ?w) = old"
    using e1 by (simp add: old_def oldFragments_def wasAllocationUsedSinceLastTrim_def evicts_def data_frame_def not_less)
  define c2 where "c2 = fold clearFragment old c1"
  define c3 where "c3 = (if old \<noteq> [] then evict (map wf_handle old) c2 else c2)"
  have e3: "evicts c2 (if old \<noteq> [] then [map wf_handle old] else []) c3"
    unfolding c3_def by (rule evicts_if) (simp_all add: evict_evicts)
  have "evicts c ((if wa_fragments ?w = [] then [wa_handles ?w] else []) @ [] @ (if old \<noteq> [] then [map wf_handle old] else []) @ []) (clearResident a c3)"
    unfolding c2_def
    by (intro evicts_trans [OF e1 evicts_trans [OF clearFragments_evicts evicts_trans [OF e3 [unfolded c2_def] clearResident_evicts(1)]]])
  then have "evicts c (evictions c (rc_lastTrimFenceValue c) a) (clearResident a c3)"
    by (auto simp: evictions_def old_def oldFragments_def split: if_splits)
  moreover have "length old \<le> maxFragments"
    using assms length_filter_le [of _ "wa_fragments ?w"] le_trans unfolding old_def oldFragments_def by blast
  then have "periodicEvict a c = Inr (clearResident a c3)"
    unfolding periodicEvict_def Let_def c1_def [symmetric] old c2_def [symmetric] c3_def [symmetric] by simp
  ultimately show ?thesis using clearResident_evicts(2) by (intro that)
qed

lemma budgetEvict_ok:
  assumes "length (wa_fragments (rc_allocations c a)) \<le> maxFragments"
  defines "bound \<equiv> mf_lastSubmittedFence (rc_monitoredFence c)"
  obtains c' where "budgetEvict a c = Inr (bytesFreed c bound a, c')" "evicts c (evictions c bound a) c'" "\<not> residentIn c' a"
proof -
  let ?w = "rc_allocations c a"
  define c1 where "c1 = (if fenceOf c a > mf_cpuValue (rc_monitoredFence c) then waitFromCpu (fenceOf c a) c else c)"
  have e1: "evicts c [] c1" unfolding c1_def using waitFromCpu_evicts by simp
  define old where "old = oldFragments c bound a"
  have old: "filter (\<lambda>f. fragmentFence c1 f \<le> mf_lastSubmittedFence (rc_monitoredFence c1)) (wa_fragments ?w) = old"
    using e1 by (simp add: old_def oldFragments_def bound_def evicts_def data_frame_def)
  have len: "length old \<le> maxFragments"
    using assms(1) length_filter_le [of _ "wa_fragments ?w"] le_trans unfolding old_def oldFragments_def by blast
  show ?thesis
  proof (cases "wa_fragments ?w = []")
    case True
    then have "budgetEvict a c = Inr (bytesFreed c bound a, clearResident a (evict (wa_handles ?w) c1))"
      unfolding budgetEvict_def Let_def c1_def [symmetric] by (simp add: bytesFreed_def)
    moreover have "evicts c (evictions c bound a) (clearResident a (evict (wa_handles ?w) c1))"
      using evicts_trans [OF e1 evicts_trans [OF evict_evicts clearResident_evicts(1)]] True by (simp add: evictions_def)
    ultimately show ?thesis using clearResident_evicts(2) by (intro that)
  next
    case False
    define c2 where "c2 = (if old \<noteq> [] then fold clearFragment old (evict (map wf_handle old) c1) else c1)"
    have "evicts c1 (if old \<noteq> [] then [map wf_handle old] else []) c2"
      unfolding c2_def using evicts_trans [OF evict_evicts clearFragments_evicts] by (intro evicts_if) simp_all
    from evicts_trans [OF e1 evicts_trans [OF this clearResident_evicts(1)]]
    have "evicts c (evictions c bound a) (clearResident a c2)"
      using False unfolding evictions_def old_def [symmetric] by (cases "old = []") simp_all
    moreover have "budgetEvict a c = Inr (bytesFreed c bound a, clearResident a c2)"
      unfolding budgetEvict_def Let_def c1_def [symmetric] old c2_def [symmetric] using False len by (simp add: bytesFreed_def old_def)
    ultimately show ?thesis using clearResident_evicts(2) by (intro that)
  qed
qed


section \<open>The two trims\<close>

text \<open>One candidate leaves the list: eviction, then removal from the head.\<close>

lemma take_head:
  assumes "trim_inv c" "candidates c = a # as" "evicts c hss c1" "\<not> residentIn c1 a"
  obtains c2 where "removeFromTrimCandidateList a False c1 = Inr c2" "trim_inv c2" "data_frame c c2" "candidates c2 = as"
    "rc_evictions c2 = rc_evictions c @ hss" "\<not> residentIn c2 a"
proof -
  have f: "data_frame c c1" "keeps_list c c1" "rc_evictions c1 = rc_evictions c @ hss" using assms(3) by (simp_all add: evicts_def)
  have i: "trim_inv c1" "candidates c1 = a # as" using keeps_list_inv [OF assms(1) f(2,1)] assms(2) by simp_all
  then obtain c2 where c2: "removeFromTrimCandidateList a False c1 = Inr c2" "trim_inv c2" "list_frame c1 c2" "candidates c2 = remove1 a (candidates c1)"
    using remove_ok [OF i(1), of a] by auto
  have "\<not> residentIn c2 a" using c2(3) assms(4) by (simp add: list_frame_def residentIn_def)
  then show ?thesis
    using c2 i(2) f data_frame_trans [OF f(1) list_frame_data [OF c2(3)]] by (intro that [of c2]) (simp_all add: list_frame_def)
qed

lemma data_frame_notResident: "data_frame c c' \<Longrightarrow> \<not> residentIn c a \<Longrightarrow> \<not> residentIn c' a"
  by (auto simp: data_frame_def)

lemma trim_inv_fragments: "trim_inv c \<Longrightarrow> length (wa_fragments (rc_allocations c a)) \<le> maxFragments"
  by (simp add: trim_inv_def)

definition trimmed :: "WddmResidencyController \<Rightarrow> nat \<Rightarrow> nat list \<Rightarrow> WddmResidencyController \<Rightarrow> bool" where
  "trimmed c bound taken c' \<longleftrightarrow> trim_inv c' \<and> data_frame c c' \<and> candidates c = taken @ candidates c' \<and>
     rc_evictions c' = rc_evictions c @ concat (map (evictions c bound) taken) \<and> (\<forall>a \<in> set taken. \<not> residentIn c' a)"

lemma trimmed_refl: "trim_inv c \<Longrightarrow> trimmed c bound [] c"
  by (simp add: trimmed_def)

lemma trimmed_Cons:
  assumes "candidates c = a # as" "data_frame c c2" "candidates c2 = as" "rc_evictions c2 = rc_evictions c @ evictions c bound a"
    "\<not> residentIn c2 a" "trimmed c2 bound taken c'"
  shows "trimmed c bound (a # taken) c'"
  using assms data_frame_trans [OF assms(2), of c'] data_frame_reads(2) [OF assms(2)] data_frame_notResident [of c2 c' a]
  by (simp add: trimmed_def)

lemma periodicTrim_ok:
  assumes "trim_inv c" "length (candidates c) < fuel"
  obtains c' where "periodicTrim fuel c = Inr c'" "trimmed c (rc_lastTrimFenceValue c) (takeWhile (idle c) (candidates c)) c'"
  using assms
proof (induction fuel arbitrary: c thesis)
  case (Suc fuel)
  note h = head_of_candidates [OF Suc.prems(2)]
  show ?case
  proof (cases "candidates c")
    case Nil
    then show ?thesis using h trimmed_refl [OF Suc.prems(2)] by (intro Suc.prems(1) [of c]) simp_all
  next
    case (Cons a as)
    show ?thesis
    proof (cases "idle c a")
      case False
      then show ?thesis using h Cons trimmed_refl [OF Suc.prems(2)]
        by (intro Suc.prems(1) [of c]) (simp_all add: wasAllocationUsedSinceLastTrim_def idle_def)
    next
      case True
      obtain c1 where c1: "periodicEvict a c = Inr c1" "evicts c (evictions c (rc_lastTrimFenceValue c) a) c1" "\<not> residentIn c1 a"
        by (rule periodicEvict_ok [OF trim_inv_fragments [OF Suc.prems(2)]])
      obtain c2 where c2: "removeFromTrimCandidateList a False c1 = Inr c2" "trim_inv c2" "data_frame c c2" "candidates c2 = as"
        "rc_evictions c2 = rc_evictions c @ evictions c (rc_lastTrimFenceValue c) a" "\<not> residentIn c2 a"
        by (rule take_head [OF Suc.prems(2) Cons c1(2,3)])
      note r = data_frame_reads [OF c2(3)]
      have "length (candidates c2) < fuel" using Suc.prems(3) Cons c2(4) by simp
      then obtain c' where c': "periodicTrim fuel c2 = Inr c'" "trimmed c2 (rc_lastTrimFenceValue c2) (takeWhile (idle c2) (candidates c2)) c'"
        using Suc.IH c2(2) by blast
      then have "periodicTrim (Suc fuel) c = Inr c'"
        using h Cons True c1(1) c2(1) by (simp add: wasAllocationUsedSinceLastTrim_def idle_def)
      moreover have "trimmed c (rc_lastTrimFenceValue c) (takeWhile (idle c) (candidates c)) c'"
        using trimmed_Cons [OF Cons c2(3-6) c'(2) [unfolded r]] True Cons c2(4) by simp
      ultimately show ?thesis by (rule Suc.prems(1))
    qed
  qed
qed simp

text \<open>Candidates the budget asks for: as long as bytes are missing and the head is not in use by work submitted later.\<close>

fun budgetTaken :: "(nat \<Rightarrow> nat) \<Rightarrow> (nat \<Rightarrow> bool) \<Rightarrow> nat \<Rightarrow> nat list \<Rightarrow> nat list" where
  "budgetTaken freed usable bytes [] = []"
| "budgetTaken freed usable bytes (a # as) =
     (if bytes = 0 \<or> \<not> usable a then [] else a # budgetTaken freed usable (bytes - freed a) as)"

definition alreadySubmitted :: "WddmResidencyController \<Rightarrow> nat \<Rightarrow> bool" where
  "alreadySubmitted c a \<longleftrightarrow> fenceOf c a \<le> mf_lastSubmittedFence (rc_monitoredFence c)"

definition budgetOf :: "WddmResidencyController \<Rightarrow> nat \<Rightarrow> nat list" where
  "budgetOf c bytes = budgetTaken (bytesFreed c (mf_lastSubmittedFence (rc_monitoredFence c))) (alreadySubmitted c) bytes (candidates c)"

lemma budgetTrim_ok:
  assumes "trim_inv c" "length (candidates c) < fuel"
  defines "bound \<equiv> mf_lastSubmittedFence (rc_monitoredFence c)"
  obtains c' where "budgetTrim fuel bytes c = Inr (bytes - sum_list (map (bytesFreed c bound) (budgetOf c bytes)), c')"
    "trimmed c bound (budgetOf c bytes) c'"
  using assms(1,2) unfolding bound_def
proof (induction fuel arbitrary: c bytes thesis)
  case (Suc fuel)
  note h = head_of_candidates [OF Suc.prems(2)]
  let ?bound = "mf_lastSubmittedFence (rc_monitoredFence c)"
  show ?case
  proof (cases "bytes = 0 \<or> candidates c = [] \<or> \<not> alreadySubmitted c (hd (candidates c))")
    case True
    then have "budgetOf c bytes = []" by (cases "candidates c") (auto simp: budgetOf_def)
    moreover from True have "budgetTrim (Suc fuel) bytes c = Inr (bytes, c)"
      using h by (cases "candidates c") (auto simp: alreadySubmitted_def)
    ultimately show ?thesis using trimmed_refl [OF Suc.prems(2)] by (intro Suc.prems(1) [of c]) simp_all
  next
    case False
    then obtain a as where as: "candidates c = a # as" and a: "bytes \<noteq> 0" "alreadySubmitted c a" by (cases "candidates c") auto
    obtain c1 where c1: "budgetEvict a c = Inr (bytesFreed c ?bound a, c1)" "evicts c (evictions c ?bound a) c1" "\<not> residentIn c1 a"
      by (rule budgetEvict_ok [OF trim_inv_fragments [OF Suc.prems(2)]])
    obtain c2 where c2: "removeFromTrimCandidateList a False c1 = Inr c2" "trim_inv c2" "data_frame c c2" "candidates c2 = as"
      "rc_evictions c2 = rc_evictions c @ evictions c ?bound a" "\<not> residentIn c2 a"
      by (rule take_head [OF Suc.prems(2) as c1(2,3)])
    note r = data_frame_reads [OF c2(3)]
    have sub: "alreadySubmitted c2 = alreadySubmitted c" using r by (simp add: alreadySubmitted_def fun_eq_iff)
    let ?left = "bytes - bytesFreed c ?bound a"
    have "length (candidates c2) < fuel" using Suc.prems(3) as c2(4) by simp
    then obtain c' where c': "budgetTrim fuel ?left c2 = Inr (?left - sum_list (map (bytesFreed c ?bound) (budgetOf c2 ?left)), c')"
      "trimmed c2 ?bound (budgetOf c2 ?left) c'"
      using Suc.IH [OF _ c2(2), of ?left] r by metis
    have b: "budgetOf c bytes = a # budgetOf c2 ?left" using as a c2(4) r sub by (simp add: budgetOf_def)
    have "(if bytesFreed c ?bound a \<ge> bytes then 0 else ?left) = ?left" by simp
    then have "budgetTrim (Suc fuel) bytes c = budgetTrim fuel ?left c2"
      using h as a c1(1) c2(1) by (simp add: alreadySubmitted_def not_less)
    then show ?thesis
      using c' b trimmed_Cons [OF as c2(3-6) c'(2)] by (intro Suc.prems(1) [of c']) simp_all
  qed
qed simp


lemma trimmed_append:
  assumes "trimmed c bound t1 c1" "trimmed c1 bound t2 c2"
  shows "trimmed c bound (t1 @ t2) c2"
  using assms data_frame_trans [of c c1 c2] data_frame_reads(2) [of c c1] data_frame_notResident [of c1 c2]
  by (auto simp: trimmed_def)

lemma trimmed_compact:
  assumes "trimmed c bound taken c1"
  obtains c2 where "compactIfSparse c1 = Inr c2" "trimmed c bound taken c2"
proof -
  obtain c2 where c2: "compactIfSparse c1 = Inr c2" "trim_inv c2" "list_frame c1 c2" "candidates c2 = candidates c1"
    using compactIfSparse_ok assms by (auto simp: trimmed_def)
  have "trimmed c1 bound [] c2" using c2 list_frame_data by (simp add: trimmed_def list_frame_def)
  from trimmed_append [OF assms this] show ?thesis using c2(1) by (intro that) simp_all
qed

lemma candidates_fuel: "length (candidates c) < trimFuel c"
  using length_present_le [of "rc_trimCandidateList c"] by (simp add: candidates_def trimFuel_def)

lemma trimResidencyToBudget_ok:
  assumes "trim_inv c"
  defines "bound \<equiv> mf_lastSubmittedFence (rc_monitoredFence c)"
  obtains c' where "trimResidencyToBudget bytes c = Inr (bytes \<le> sum_list (map (bytesFreed c bound) (budgetOf c bytes)), c')"
    "trimmed c bound (budgetOf c bytes) c'"
proof -
  let ?left = "bytes - sum_list (map (bytesFreed c bound) (budgetOf c bytes))"
  obtain c1 where c1: "budgetTrim (trimFuel c) bytes c = Inr (?left, c1)" "trimmed c bound (budgetOf c bytes) c1"
    unfolding bound_def by (rule budgetTrim_ok [OF assms(1) candidates_fuel])
  obtain c2 where "compactIfSparse c1 = Inr c2" "trimmed c bound (budgetOf c bytes) c2" by (rule trimmed_compact [OF c1(2)])
  then show ?thesis using c1 by (cases "bytes > ?left") (auto simp: trimResidencyToBudget_def intro: that)
qed

lemma periodicTrim_compact_ok:
  assumes "trim_inv c"
  obtains c' where "rt_bind (periodicTrim (trimFuel c) c) compactIfSparse = Inr c'"
    "trimmed c (rc_lastTrimFenceValue c) (takeWhile (idle c) (candidates c)) c'"
proof -
  obtain c1 where c1: "periodicTrim (trimFuel c) c = Inr c1" "trimmed c (rc_lastTrimFenceValue c) (takeWhile (idle c) (candidates c)) c1"
    by (rule periodicTrim_ok [OF assms candidates_fuel])
  obtain c2 where "compactIfSparse c1 = Inr c2" "trimmed c (rc_lastTrimFenceValue c) (takeWhile (idle c) (candidates c)) c2"
    by (rule trimmed_compact [OF c1(2)])
  then show ?thesis using c1(1) by (intro that [of c2]) simp_all
qed

text \<open>Changes that keep the list, the positions and the shape of the allocations.\<close>

definition shape_frame :: "WddmResidencyController \<Rightarrow> WddmResidencyController \<Rightarrow> bool" where
  "shape_frame c c' \<longleftrightarrow> keeps_list c c' \<and> rc_osContextId c' = rc_osContextId c \<and>
     (\<forall>a. wa_fragments (rc_allocations c' a) = wa_fragments (rc_allocations c a) \<and> wa_handles (rc_allocations c' a) = wa_handles (rc_allocations c a))"

lemma shape_frame_refl [simp]: "shape_frame c c"
  by (simp add: shape_frame_def)

lemma shape_frame_trans: "shape_frame c1 c2 \<Longrightarrow> shape_frame c2 c3 \<Longrightarrow> shape_frame c1 c3"
  using keeps_list_trans by (auto simp: shape_frame_def)

lemma shape_frame_inv: "trim_inv c \<Longrightarrow> shape_frame c c' \<Longrightarrow> trim_inv c' \<and> candidates c' = candidates c"
  by (simp add: trim_inv_def keeps_list_def shape_frame_def candidates_def)

lemma shape_frame_updates:
  "shape_frame c (updateLastTrimFenceValue c)" "shape_frame c (resetMonitoredFenceParams h v g c)"
  "shape_frame c (c\<lparr>rc_memoryBudgetExhausted := b\<rparr>)"
  by (simp_all add: updateLastTrimFenceValue_def resetMonitoredFenceParams_def shape_frame_def keeps_list_def posOf_def
      getTrimCandidateListPosition_def fun_eq_iff)

lemma trimResidency_ok:
  assumes "trim_inv c"
  obtains c' where "trimResidency flags bytes c = Inr c'" "trim_inv c'"
proof -
  have "\<exists>c1. (if PeriodicTrim flags then rt_bind (periodicTrim (trimFuel c) c) compactIfSparse else Inr c) = Inr c1 \<and> trim_inv c1"
    by (rule periodicTrim_compact_ok [OF assms]) (use assms in \<open>auto simp: trimmed_def\<close>)
  then obtain c1 where c1: "(if PeriodicTrim flags then rt_bind (periodicTrim (trimFuel c) c) compactIfSparse else Inr c) = Inr c1" "trim_inv c1"
    by blast
  have "\<exists>c2. (if TrimToBudget flags then rt_bind (trimResidencyToBudget bytes c1) (\<lambda>(b, c). Inr c) else Inr c1) = Inr c2 \<and> trim_inv c2"
    by (rule trimResidencyToBudget_ok [OF c1(2), of bytes]) (use c1(2) in \<open>auto simp: trimmed_def\<close>)
  then obtain c2 where c2: "(if TrimToBudget flags then rt_bind (trimResidencyToBudget bytes c1) (\<lambda>(b, c). Inr c) else Inr c1) = Inr c2" "trim_inv c2"
    by blast
  show ?thesis
    by (rule that [of "if PeriodicTrim flags \<or> RestartPeriodicTrim flags then updateLastTrimFenceValue c2 else c2"])
      (use c1(1) c2 shape_frame_inv [OF c2(2) shape_frame_updates(1)] in \<open>simp_all add: trimResidency_def\<close>)
qed


section \<open>Making resident\<close>

lemma residencyHandles_ok:
  assumes "trim_inv c"
  obtains hs c' where "residencyHandles a c = Inr (hs, c')" "length hs \<le> maxFragments" "trim_inv c'" "list_frame c c'"
    "candidates c' = filter (\<lambda>b. b \<noteq> a) (candidates c)"
proof -
  have "\<exists>c'. (if getTrimCandidateListPosition a c \<noteq> trimListUnusedPosition then removeFromTrimCandidateList a False c else Inr c) = Inr c' \<and>
      trim_inv c' \<and> list_frame c c' \<and> candidates c' = filter (\<lambda>b. b \<noteq> a) (candidates c)"
  proof (cases "a \<in> set (candidates c)")
    case True
    then have p: "getTrimCandidateListPosition a c \<noteq> trimListUnusedPosition" using trim_invD(2) [OF assms, of a] by (simp add: posOf_def)
    obtain c' where "removeFromTrimCandidateList a False c = Inr c'" "trim_inv c'" "list_frame c c'" "candidates c' = remove1 a (candidates c)"
      by (rule remove_ok [OF assms True])
    moreover have "remove1 a (candidates c) = filter (\<lambda>b. b \<noteq> a) (candidates c)"
      using trim_invD(1) [OF assms] by (simp add: distinct_remove1_removeAll removeAll_filter_not_eq eq_commute)
    ultimately show ?thesis using p by simp
  next
    case False
    then have "filter (\<lambda>b. b \<noteq> a) (candidates c) = candidates c" by (intro filter_True) auto
    moreover have "getTrimCandidateListPosition a c = trimListUnusedPosition" using False trim_invD(2) [OF assms, of a] by (simp add: posOf_def)
    ultimately show ?thesis using assms by simp
  qed
  then obtain c' where c': "(if getTrimCandidateListPosition a c \<noteq> trimListUnusedPosition then removeFromTrimCandidateList a False c else Inr c) = Inr c'"
    "trim_inv c'" "list_frame c c'" "candidates c' = filter (\<lambda>b. b \<noteq> a) (candidates c)" by blast
  have "length (wa_fragments (rc_allocations c a)) \<le> maxFragments" "length (wa_handles (rc_allocations c a)) \<le> maxFragments"
    using assms by (auto simp: trim_inv_def maxFragments_def maxHandleCount_def dest: spec [of _ a])
  then have "length hs \<le> maxFragments" if "residencyHandles a c = Inr (hs, c')" for hs
    using that c'(1) le_trans [OF length_filter_le] by (auto simp: residencyHandles_def Let_def split: if_splits)
  moreover have "\<exists>hs. residencyHandles a c = Inr (hs, c')" using c'(1) by (simp add: residencyHandles_def Let_def)
  ultimately show ?thesis using c'(2-4) that by blast
qed

lemma collectHandles_ok:
  assumes "trim_inv c"
  obtains hs c' where "collectHandles as c = Inr (hs, c')" "length hs \<le> length as * maxFragments" "trim_inv c'" "list_frame c c'"
    "candidates c' = filter (\<lambda>b. b \<notin> set as) (candidates c)"
  using assms
proof (induction as arbitrary: c thesis)
  case Nil
  then show ?case by (intro Nil(1) [of "[]" c]) simp_all
next
  case (Cons a as)
  obtain hs c1 where c1: "residencyHandles a c = Inr (hs, c1)" "length hs \<le> maxFragments" "trim_inv c1" "list_frame c c1"
    "candidates c1 = filter (\<lambda>b. b \<noteq> a) (candidates c)" by (rule residencyHandles_ok [OF Cons.prems(2)])
  obtain hs' c2 where c2: "collectHandles as c1 = Inr (hs', c2)" "length hs' \<le> length as * maxFragments" "trim_inv c2" "list_frame c1 c2"
    "candidates c2 = filter (\<lambda>b. b \<notin> set as) (candidates c1)" using Cons.IH c1(3) by blast
  show ?case
    using c1(1,2) c2 list_frame_trans [OF c1(4) c2(4)] c1(5) by (intro Cons.prems(1) [of "hs @ hs'" c2]) (auto intro: filter_cong)
qed

lemma residentLoop_ok:
  assumes "trim_inv c"
  shows "residentLoop answers c = Inl FuelExhausted \<and> (\<forall>x \<in> set answers. \<not> fst x) \<or>
    (\<exists>r c' taken. residentLoop answers c = Inr (r, c') \<and> trimmed c (mf_lastSubmittedFence (rc_monitoredFence c)) taken c')"
  using assms
proof (induction answers arbitrary: c)
  case (Cons x answers)
  obtain ok bytes status forced where x: "x = (ok, bytes, status, forced)" by (cases x) auto
  let ?b = "mf_lastSubmittedFence (rc_monitoredFence c)" and ?c = "c\<lparr>rc_memoryBudgetExhausted := True\<rparr>"
  have e: "trim_inv ?c" using shape_frame_inv [OF Cons.prems shape_frame_updates(3)] by simp
  have t0: "trimmed c ?b [] ?c" using Cons.prems e by (simp add: trimmed_def data_frame_def candidates_def fenceOf_def fragmentFence_def residentIn_def fun_eq_iff)
  obtain fin c1 taken where c1: "trimResidencyToBudget bytes ?c = Inr (fin, c1)" "trimmed ?c ?b taken c1"
    by (rule trimResidencyToBudget_ok [OF e, of bytes]) simp
  note t1 = trimmed_append [OF t0 c1(2)]
  have i1: "trim_inv c1" "mf_lastSubmittedFence (rc_monitoredFence c1) = ?b" using t1 by (simp_all add: trimmed_def data_frame_def)
  consider "ok" | "\<not> ok" "fin \<or> status = EVICT_SUCCESS" | "\<not> ok" "\<not> fin" "status \<noteq> EVICT_SUCCESS" by blast
  then show ?case
  proof cases
    case 1
    then show ?thesis using x trimmed_refl [OF Cons.prems] by auto
  next
    case 2
    then have l: "residentLoop (x # answers) c = residentLoop answers c1" using x c1(1) by auto
    have f: "\<not> fst x" using 2(1) x by simp
    show ?thesis unfolding l using Cons.IH [OF i1(1), unfolded i1(2)]
    proof (elim disjE exE conjE)
      fix r c' t assume "residentLoop answers c1 = Inr (r, c')" "trimmed c1 ?b t c'"
      then show "residentLoop answers c1 = Inl FuelExhausted \<and> (\<forall>x\<in>set (x # answers). \<not> fst x) \<or>
          (\<exists>r c' taken. residentLoop answers c1 = Inr (r, c') \<and> trimmed c ?b taken c')"
        using trimmed_append [OF t1] by blast
    qed (use f in simp)
  next
    case 3
    then show ?thesis using x c1(1) t1 by auto
  qed
qed simp


text \<open>Completion marks an allocation and its fragments with the current fence value.\<close>

definition marks :: "WddmResidencyController \<Rightarrow> WddmResidencyController \<Rightarrow> bool" where
  "marks c c' \<longleftrightarrow> shape_frame c c' \<and> rc_monitoredFence c' = rc_monitoredFence c \<and> rc_evictions c' = rc_evictions c \<and>
     (\<forall>a. residentIn c a \<and> fenceOf c a = mf_currentFenceValue (rc_monitoredFence c) \<longrightarrow>
          residentIn c' a \<and> fenceOf c' a = mf_currentFenceValue (rc_monitoredFence c))"

lemma marks_refl [simp]: "marks c c"
  by (simp add: marks_def)

lemma marks_trans: "marks c1 c2 \<Longrightarrow> marks c2 c3 \<Longrightarrow> marks c1 c3"
  using shape_frame_trans unfolding marks_def by metis

lemma completeFragment_marks: "marks c (completeFragment f c)"
  by (simp add: completeFragment_def upd_fragment_def marks_def shape_frame_def keeps_list_def posOf_def getTrimCandidateListPosition_def
      residentIn_def fenceOf_def fun_eq_iff)

lemma completeFragments_marks: "marks c (fold completeFragment fs c)"
proof (induction fs arbitrary: c)
  case (Cons f fs)
  then show ?case using marks_trans [OF completeFragment_marks Cons.IH] by simp
qed simp

lemma completeAllocation_marks:
  "marks c (completeAllocation a c)" "residentIn (completeAllocation a c) a"
  "fenceOf (completeAllocation a c) a = mf_currentFenceValue (rc_monitoredFence c)"
proof -
  let ?f = "mf_currentFenceValue (rc_monitoredFence c)"
  define c1 where "c1 = upd_alloc a (\<lambda>w. w\<lparr>wa_residency := setResident (rc_osContextId c) True (updateCompletionData ?f (rc_osContextId c) (wa_residency w))\<rparr>) c"
  have m1: "marks c c1" "residentIn c1 a" "fenceOf c1 a = ?f"
    by (auto simp: c1_def upd_alloc_def marks_def shape_frame_def keeps_list_def posOf_def getTrimCandidateListPosition_def setResident_def
        updateCompletionData_def residentIn_def fenceOf_def getFenceValueForContextId_def fun_eq_iff)
  have e: "completeAllocation a c = fold completeFragment (wa_fragments (rc_allocations c1 a)) c1"
    by (simp add: completeAllocation_def c1_def Let_def)
  note m2 = completeFragments_marks [of c1 "wa_fragments (rc_allocations c1 a)"]
  show "marks c (completeAllocation a c)" unfolding e by (rule marks_trans [OF m1(1) m2])
  show "residentIn (completeAllocation a c) a" "fenceOf (completeAllocation a c) a = ?f"
    using m1 m2 unfolding e marks_def by simp_all
qed

lemma completeAllocations_marks:
  "marks c (fold completeAllocation as c) \<and> (\<forall>a \<in> set as. residentIn (fold completeAllocation as c) a \<and>
     fenceOf (fold completeAllocation as c) a = mf_currentFenceValue (rc_monitoredFence c))"
proof (induction as arbitrary: c)
  case (Cons a as)
  let ?c = "completeAllocation a c"
  note m = completeAllocation_marks [where a = a and c = c]
  have f: "rc_monitoredFence ?c = rc_monitoredFence c" using m(1) by (simp add: marks_def)
  have "residentIn (fold completeAllocation as ?c) a \<and> fenceOf (fold completeAllocation as ?c) a = mf_currentFenceValue (rc_monitoredFence c)"
    using Cons.IH [of ?c] m f unfolding marks_def by simp
  then show ?case using Cons.IH [of ?c] marks_trans [OF m(1)] f by simp
qed simp

lemma makeResident_ok:
  assumes "trim_inv c"
  defines "bound \<equiv> mf_lastSubmittedFence (rc_monitoredFence c)"
  shows "makeResidentResidencyAllocations answers as c = Inl FuelExhausted \<and> (\<forall>x \<in> set answers. \<not> fst x) \<or>
    (\<exists>r c' taken. makeResidentResidencyAllocations answers as c = Inr (r, c') \<and> trim_inv c' \<and>
       filter (\<lambda>b. b \<notin> set as) (candidates c) = taken @ candidates c' \<and>
       rc_evictions c' = rc_evictions c @ concat (map (evictions c bound) taken) \<and>
       (r \<longrightarrow> (\<forall>a \<in> set as. residentIn c' a \<and> fenceOf c' a = mf_currentFenceValue (rc_monitoredFence c))))"
proof -
  obtain hs c1 where c1: "collectHandles as c = Inr (hs, c1)" "length hs \<le> length as * maxFragments" "trim_inv c1" "list_frame c c1"
    "candidates c1 = filter (\<lambda>b. b \<notin> set as) (candidates c)" by (rule collectHandles_ok [OF assms(1)])
  define loop where "loop = (if hs \<noteq> [] then residentLoop answers c1 else Inr (True, c1))"
  have m: "makeResidentResidencyAllocations answers as c = rt_bind loop (\<lambda>(r, c2). Inr (r, if r then fold completeAllocation as c2 else c2))"
    using c1(1,2) by (simp add: makeResidentResidencyAllocations_def loop_def)
  have fr: "rc_evictions c1 = rc_evictions c" "rc_monitoredFence c1 = rc_monitoredFence c" "evictions c1 = evictions c"
    using c1(4) data_frame_reads(2) [OF list_frame_data] by (auto simp: list_frame_def)
  have "loop = Inl FuelExhausted \<and> (\<forall>x \<in> set answers. \<not> fst x) \<or> (\<exists>r c2 taken. loop = Inr (r, c2) \<and> trimmed c1 bound taken c2)"
    using residentLoop_ok [OF c1(3), of answers] trimmed_refl [OF c1(3)] unfolding loop_def bound_def fr(2) by auto
  then show ?thesis
  proof (elim disjE exE conjE)
    fix r c2 taken assume l: "loop = Inr (r, c2)" and t: "trimmed c1 bound taken c2"
    let ?c = "if r then fold completeAllocation as c2 else c2"
    have k: "marks c2 ?c" using completeAllocations_marks by simp
    have "trim_inv ?c" "candidates ?c = candidates c2" "rc_evictions ?c = rc_evictions c2"
      using t k shape_frame_inv [of c2 ?c] by (simp_all add: trimmed_def marks_def)
    moreover have "mf_currentFenceValue (rc_monitoredFence c2) = mf_currentFenceValue (rc_monitoredFence c)"
      using t fr(2) by (simp add: trimmed_def data_frame_def)
    then have "r \<longrightarrow> (\<forall>a \<in> set as. residentIn ?c a \<and> fenceOf ?c a = mf_currentFenceValue (rc_monitoredFence c))"
      using completeAllocations_marks [of c2 as] by simp
    moreover have "makeResidentResidencyAllocations answers as c = Inr (r, ?c)" unfolding m l by simp
    ultimately show ?thesis using t c1(5) fr by (simp add: trimmed_def)
  qed (simp add: m)
qed


section \<open>Runs of the controller\<close>

inductive rc_step :: "WddmResidencyController \<Rightarrow> WddmResidencyController \<Rightarrow> bool" where
  step_add: "length (rc_trimCandidateList c) + 1 < 2 ^ 31 \<Longrightarrow> rc_step c (addToTrimCandidateList a c)"
| step_remove: "removeFromTrimCandidateListIfUsed a compactList c = Inr c' \<Longrightarrow> rc_step c c'"
| step_trim: "trimCallback flags bytes c = Inr c' \<Longrightarrow> rc_step c c'"
| step_resident: "makeResidentResidencyAllocations answers as c = Inr (r, c') \<Longrightarrow> rc_step c c'"
| step_submit: "submit reached waited status c = Inr (r, c') \<Longrightarrow> rc_step c c'"
| step_reset: "rc_step c (resetMonitoredFenceParams handle cpuValue gpuAddress c)"

lemma removeIfUsed_ok:
  assumes "trim_inv c"
  obtains c' where "removeFromTrimCandidateListIfUsed a compactList c = Inr c'" "trim_inv c'" "a \<notin> set (candidates c')"
proof (cases "a \<in> set (candidates c)")
  case True
  then have p: "getTrimCandidateListPosition a c \<noteq> trimListUnusedPosition" using trim_invD(2) [OF assms, of a] by (simp add: posOf_def)
  obtain c1 where c1: "removeFromTrimCandidateList a True c = compactIfSparse c1" "trim_inv c1" "candidates c1 = remove1 a (candidates c)"
    by (rule remove_ok [OF assms True])
  obtain c2 where "compactIfSparse c1 = Inr c2" "trim_inv c2" "candidates c2 = candidates c1" by (rule compactIfSparse_ok [OF c1(2)])
  then show ?thesis using c1 p trim_invD(1) [OF assms] by (intro that [of c2]) (simp_all add: removeFromTrimCandidateListIfUsed_def)
next
  case False
  then have "getTrimCandidateListPosition a c = trimListUnusedPosition" using trim_invD(2) [OF assms, of a] by (simp add: posOf_def)
  then show ?thesis using False assms by (intro that [of c]) (simp_all add: removeFromTrimCandidateListIfUsed_def)
qed

lemma submit_frame: "submit reached waited status c = Inr (r, c') \<Longrightarrow> shape_frame c c'"
  by (auto simp: submit_def shape_frame_def keeps_list_def posOf_def getTrimCandidateListPosition_def fun_eq_iff Let_def split: if_splits)

lemma rc_step_inv: "rc_step c c' \<Longrightarrow> trim_inv c \<Longrightarrow> trim_inv c'"
proof (induction rule: rc_step.induct)
  case (step_add c a)
  then show ?case by (intro add_ok(1))
next
  case (step_remove a compactList c c')
  then show ?case using removeIfUsed_ok [of c a compactList] by auto
next
  case (step_trim flags bytes c c')
  then show ?case using trimResidency_ok [of c flags bytes] by (auto simp: trimCallback_def)
next
  case (step_resident answers as c r c')
  then show ?case using makeResident_ok [of c answers as] by auto
next
  case (step_submit reached waited status c r c')
  then show ?case using shape_frame_inv submit_frame by blast
next
  case (step_reset c handle cpuValue gpuAddress)
  then show ?case using shape_frame_inv shape_frame_updates(2) by blast
qed

interpretation trimming: step_invariant rc_step trim_inv
  by unfold_locales (rule rc_step_inv)

lemma created_inv:
  assumes "\<And>a. wa_trimCandidateListPositions (allocs a) ctx = trimListUnusedPosition"
    "\<And>a. length (wa_fragments (allocs a)) \<le> maxFragments \<and> length (wa_handles (allocs a)) \<le> maxHandleCount"
  shows "trim_inv (residencyController_create ctx allocs)"
  using assms by (simp add: trim_inv_def residencyController_create_def candidates_def positions_ok_def posOf_def getTrimCandidateListPosition_def)


section \<open>Properties\<close>

text \<open>The candidates of an example: two allocations, each with a handle of its own.\<close>

definition sampleAllocations :: "nat \<Rightarrow> WddmAllocation" where
  "sampleAllocations a = wddmAllocation_create 4096 4096 [a + 10] []"

definition sampleController :: WddmResidencyController where
  "sampleController = makeNonResidentEvictionAllocations [0, 1] (residencyController_create 0 sampleAllocations)"

lemma sampleCreated: "trim_inv (residencyController_create 0 sampleAllocations)"
  by (rule created_inv) (simp_all add: sampleAllocations_def wddmAllocation_create_def maxHandleCount_def)

lemma sampleController_run: "rc_step\<^sup>*\<^sup>* (residencyController_create 0 sampleAllocations) sampleController"
proof -
  let ?c = "residencyController_create 0 sampleAllocations"
  have "rc_step ?c (addToTrimCandidateList 0 ?c)" by (rule step_add) (simp add: residencyController_create_def)
  moreover have "length (rc_trimCandidateList (addToTrimCandidateList 0 ?c)) \<le> 1"
    by (simp add: addToTrimCandidateList_def Let_def residencyController_create_def)
  then have "rc_step (addToTrimCandidateList 0 ?c) (addToTrimCandidateList 1 (addToTrimCandidateList 0 ?c))" by (intro step_add) simp
  ultimately show ?thesis by (simp add: sampleController_def makeNonResidentEvictionAllocations_def)
qed

lemma sampleController_inv: "trim_inv sampleController"
  using trimming.run_inv [OF sampleController_run sampleCreated] .

lemma sampleController_candidates: "candidates sampleController = [0, 1]"
  by (simp add: sampleController_def makeNonResidentEvictionAllocations_def addToTrimCandidateList_def candidates_def
      residencyController_create_def getTrimCandidateListPosition_def setTrimCandidateListPosition_def upd_alloc_def sampleAllocations_def
      wddmAllocation_create_def)

text \<open>Claim C27. In every state a controller reaches from its creation by adding, removing, trimming, making resident, submitting and
  resetting its fence, the count is the number of candidates in the list, no allocation stands in it twice, each allocation knows exactly the entry it
  stands in, the head is the first candidate, and no operation reads or writes outside the list: removal takes the allocation out, a trim
  returns, and making resident returns once the kernel grants a request.\<close>

theorem trim_list_exact:
  assumes "\<And>a. wa_trimCandidateListPositions (allocs a) ctx = trimListUnusedPosition"
    "\<And>a. length (wa_fragments (allocs a)) \<le> maxFragments \<and> length (wa_handles (allocs a)) \<le> maxHandleCount"
    "rc_step\<^sup>*\<^sup>* (residencyController_create ctx allocs) c"
  shows "rc_trimCandidatesCount c = length (present (rc_trimCandidateList c)) \<and> distinct (present (rc_trimCandidateList c)) \<and>
    (\<forall>k a. k < length (rc_trimCandidateList c) \<longrightarrow> (rc_trimCandidateList c ! k = Some a \<longleftrightarrow> getTrimCandidateListPosition a c = k)) \<and>
    getTrimCandidateHead c = Inr (case present (rc_trimCandidateList c) of [] \<Rightarrow> None | a # as \<Rightarrow> Some a) \<and>
    (\<exists>c'. removeFromTrimCandidateListIfUsed a compactList c = Inr c' \<and> Some a \<notin> set (rc_trimCandidateList c')) \<and>
    (\<exists>c'. trimCallback flags bytes c = Inr c') \<and>
    ((\<exists>x \<in> set answers. fst x) \<longrightarrow> (\<exists>r c'. makeResidentResidencyAllocations answers as c = Inr (r, c')))"
proof -
  have i: "trim_inv c" by (rule trimming.run_inv [OF assms(3) created_inv]) (use assms(1,2) in auto)
  have "\<exists>c'. removeFromTrimCandidateListIfUsed a compactList c = Inr c' \<and> Some a \<notin> set (rc_trimCandidateList c')"
    by (rule removeIfUsed_ok [OF i]) (auto simp: candidates_def set_present)
  moreover have "\<exists>c'. trimCallback flags bytes c = Inr c'" by (rule trimResidency_ok [OF i]) (auto simp: trimCallback_def)
  moreover have "(\<exists>x \<in> set answers. fst x) \<longrightarrow> (\<exists>r c'. makeResidentResidencyAllocations answers as c = Inr (r, c'))"
    using makeResident_ok [OF i, of answers as] by blast
  moreover have "\<forall>k a. k < length (rc_trimCandidateList c) \<longrightarrow> (rc_trimCandidateList c ! k = Some a \<longleftrightarrow> getTrimCandidateListPosition a c = k)"
    using i positions_okD(1) [of "rc_trimCandidateList c" "posOf c"] by (simp add: trim_inv_def posOf_def)
  ultimately show ?thesis using i trim_invD(1) [OF i] head_of_candidates [OF i] by (simp add: trim_inv_def candidates_def)
qed

theorem trim_list_exact_witness:
  "rc_trimCandidatesCount sampleController = length (present (rc_trimCandidateList sampleController)) \<and>
   (\<exists>c'. trimCallback \<lparr>PeriodicTrim = True, RestartPeriodicTrim = False, TrimToBudget = True\<rparr> 8192 sampleController = Inr c')"
  using trim_list_exact [of sampleAllocations 0 sampleController, OF _ _ sampleController_run]
  by (simp add: sampleAllocations_def wddmAllocation_create_def maxHandleCount_def)

text \<open>Compaction is the filter that drops the holes: it returns, the list afterwards holds the candidates in the same order
  without a hole, the positions are the new ones, and nothing else of the state changes.\<close>

theorem compaction_is_filter:
  assumes "trim_inv c"
  shows "\<exists>c'. compactTrimCandidateList c = Inr c' \<and> rc_trimCandidateList c' = filter (\<lambda>x. x \<noteq> None) (rc_trimCandidateList c) \<and>
    (\<forall>k < length (rc_trimCandidateList c'). getTrimCandidateListPosition (the (rc_trimCandidateList c' ! k)) c' = k) \<and>
    rc_trimCandidatesCount c' = length (rc_trimCandidateList c') \<and> list_frame c c'"
proof -
  obtain c' where c': "compactTrimCandidateList c = Inr c'" "rc_trimCandidateList c' = map Some (candidates c)" "trim_inv c'" "list_frame c c'"
    "candidates c' = candidates c" by (rule compact_ok [OF assms])
  have "filter (\<lambda>x. x \<noteq> None) l = map Some (present l)" for l by (induction l rule: present.induct) auto
  moreover have "getTrimCandidateListPosition (the (rc_trimCandidateList c' ! k)) c' = k" if "k < length (rc_trimCandidateList c')" for k
    using positions_okD(1) [of "rc_trimCandidateList c'" "posOf c'" k "candidates c ! k"] c'(2,3) that by (simp add: trim_inv_def posOf_def)
  ultimately show ?thesis using c' by (simp add: candidates_def trim_inv_def)
qed

theorem compaction_is_filter_witness:
  "\<exists>c c'. removeFromTrimCandidateList 0 False sampleController = Inr c \<and> compactTrimCandidateList c = Inr c' \<and>
     rc_trimCandidateList c' = filter (\<lambda>x. x \<noteq> None) (rc_trimCandidateList c)"
proof -
  have "0 \<in> set (candidates sampleController)" by (simp add: sampleController_candidates)
  then obtain c where c: "removeFromTrimCandidateList 0 False sampleController = Inr c" "trim_inv c"
    using remove_ok [OF sampleController_inv, of 0] by metis
  then show ?thesis using compaction_is_filter [OF c(2)] by blast
qed

text \<open>What the budget takes is no more than it needs and no less than it can.\<close>

lemma budgetTaken_usable: "a \<in> set (budgetTaken freed usable bytes as) \<Longrightarrow> usable a"
  by (induction as arbitrary: bytes) (auto split: if_splits)

lemma budgetTaken_stops:
  "as = budgetTaken freed usable bytes as @ rest \<Longrightarrow> sum_list (map freed (budgetTaken freed usable bytes as)) < bytes \<Longrightarrow>
   rest = [] \<or> \<not> usable (hd rest)"
  by (induction as arbitrary: bytes) (auto split: if_splits)

lemma budgetTaken_minimal:
  "budgetTaken freed usable bytes as \<noteq> [] \<Longrightarrow> sum_list (map freed (butlast (budgetTaken freed usable bytes as))) < bytes"
proof (induction as arbitrary: bytes)
  case (Cons a as)
  then show ?case
    using Cons.IH [of "bytes - freed a"] by (cases "budgetTaken freed usable (bytes - freed a) as = []") (auto simp: less_diff_conv add.commute split: if_splits)
qed simp

text \<open>Claim C28. Trimming to a budget returns; it takes candidates from the head only, only those whose last use has been submitted, takes residency from each
  and asks the kernel to evict exactly their handles in that order; it reports success exactly when they give the bytes asked for, stops
  early only at the end of the candidates or at one that waits for a later submission, and takes none once the bytes are there.\<close>

theorem trim_to_budget:
  assumes "trim_inv c"
  shows "\<exists>c' taken. trimResidencyToBudget bytes c =
        Inr (bytes \<le> sum_list (map (bytesFreed c (mf_lastSubmittedFence (rc_monitoredFence c))) taken), c') \<and>
     candidates c = taken @ candidates c' \<and>
     (\<forall>a \<in> set taken. fenceOf c a \<le> mf_lastSubmittedFence (rc_monitoredFence c) \<and> \<not> residentIn c' a) \<and>
     rc_evictions c' = rc_evictions c @ concat (map (evictions c (mf_lastSubmittedFence (rc_monitoredFence c))) taken) \<and>
     (sum_list (map (bytesFreed c (mf_lastSubmittedFence (rc_monitoredFence c))) taken) < bytes \<longrightarrow>
        candidates c' = [] \<or> fenceOf c (hd (candidates c')) > mf_lastSubmittedFence (rc_monitoredFence c)) \<and>
     (taken \<noteq> [] \<longrightarrow> sum_list (map (bytesFreed c (mf_lastSubmittedFence (rc_monitoredFence c))) (butlast taken)) < bytes)"
proof -
  let ?b = "mf_lastSubmittedFence (rc_monitoredFence c)" and ?t = "budgetOf c bytes"
  obtain c' where c': "trimResidencyToBudget bytes c = Inr (bytes \<le> sum_list (map (bytesFreed c ?b) ?t), c')" "trimmed c ?b ?t c'"
    by (rule trimResidencyToBudget_ok [OF assms])
  have t: "candidates c = ?t @ candidates c'" using c'(2) by (simp add: trimmed_def)
  have "\<forall>a \<in> set ?t. fenceOf c a \<le> ?b" using budgetTaken_usable unfolding budgetOf_def alreadySubmitted_def by fastforce
  moreover have "sum_list (map (bytesFreed c ?b) ?t) < bytes \<longrightarrow> candidates c' = [] \<or> fenceOf c (hd (candidates c')) > ?b"
    using budgetTaken_stops [OF t [unfolded budgetOf_def]] by (auto simp: budgetOf_def alreadySubmitted_def)
  moreover have "?t \<noteq> [] \<longrightarrow> sum_list (map (bytesFreed c ?b) (butlast ?t)) < bytes"
    unfolding budgetOf_def using budgetTaken_minimal by blast
  ultimately show ?thesis using c' t by (intro exI [of _ c'] exI [of _ ?t]) (simp add: trimmed_def)
qed

theorem trim_to_budget_witness:
  "\<exists>c' taken. trimResidencyToBudget 4096 sampleController = Inr (4096 \<le> sum_list (map (bytesFreed sampleController
        (mf_lastSubmittedFence (rc_monitoredFence sampleController))) taken), c') \<and> candidates sampleController = taken @ candidates c'"
  using trim_to_budget [OF sampleController_inv, of 4096] by blast

text \<open>A periodic trim takes from the head exactly the candidates not used since the last trim: they leave the list in one run,
  lose their residency and are evicted in order, the first one used since then ends the run, and the fence value of this trim is recorded.\<close>

theorem periodic_trim_takes_idle:
  assumes "trim_inv c" "PeriodicTrim flags" "\<not> TrimToBudget flags"
  shows "\<exists>c'. trimCallback flags bytes c = Inr c' \<and>
    candidates c' = dropWhile (\<lambda>a. fenceOf c a \<le> rc_lastTrimFenceValue c) (candidates c) \<and>
    rc_evictions c' = rc_evictions c @
      concat (map (evictions c (rc_lastTrimFenceValue c)) (takeWhile (\<lambda>a. fenceOf c a \<le> rc_lastTrimFenceValue c) (candidates c))) \<and>
    (\<forall>a \<in> set (takeWhile (\<lambda>a. fenceOf c a \<le> rc_lastTrimFenceValue c) (candidates c)). \<not> residentIn c' a) \<and>
    rc_lastTrimFenceValue c' = mf_cpuValue (rc_monitoredFence c')"
proof -
  have idle: "idle c = (\<lambda>a. fenceOf c a \<le> rc_lastTrimFenceValue c)" by (simp add: idle_def fun_eq_iff)
  obtain c1 where c1: "rt_bind (periodicTrim (trimFuel c) c) compactIfSparse = Inr c1"
    "trimmed c (rc_lastTrimFenceValue c) (takeWhile (idle c) (candidates c)) c1" by (rule periodicTrim_compact_ok [OF assms(1)])
  have "candidates c1 = dropWhile (idle c) (candidates c)"
    using c1(2) takeWhile_dropWhile_id [of "idle c" "candidates c"] unfolding trimmed_def by (metis same_append_eq)
  moreover have "trimCallback flags bytes c = Inr (updateLastTrimFenceValue c1)"
    using c1(1) assms(2,3) by (auto simp: trimCallback_def trimResidency_def)
  ultimately show ?thesis
    using c1(2) unfolding idle
    by (intro exI [of _ "updateLastTrimFenceValue c1"])
      (simp add: updateLastTrimFenceValue_def trimmed_def candidates_def residentIn_def)
qed

theorem periodic_trim_takes_idle_witness:
  "\<exists>c'. trimCallback \<lparr>PeriodicTrim = True, RestartPeriodicTrim = False, TrimToBudget = False\<rparr> 0 sampleController = Inr c' \<and>
     candidates c' = dropWhile (\<lambda>a. fenceOf sampleController a \<le> rc_lastTrimFenceValue sampleController) [0, 1]"
  using periodic_trim_takes_idle [OF sampleController_inv, of "\<lparr>PeriodicTrim = True, RestartPeriodicTrim = False, TrimToBudget = False\<rparr>" 0]
    sampleController_candidates by auto

text \<open>Claim C29. Making allocations resident returns once the kernel grants a request; the call takes them out of the candidates
  first, so what it trims on the way are other candidates, and on success each of them is resident and carries the fence value of the next submission.\<close>

theorem make_resident_protects:
  assumes "trim_inv c" "\<exists>x \<in> set answers. fst x"
  shows "\<exists>r c' taken. makeResidentResidencyAllocations answers as c = Inr (r, c') \<and>
    set as \<inter> set taken = {} \<and> set as \<inter> set (candidates c') = {} \<and> set taken \<subseteq> set (candidates c) \<and>
    rc_evictions c' = rc_evictions c @ concat (map (evictions c (mf_lastSubmittedFence (rc_monitoredFence c))) taken) \<and>
    (r \<longrightarrow> (\<forall>a \<in> set as. residentIn c' a \<and> fenceOf c' a = mf_currentFenceValue (rc_monitoredFence c)))"
proof -
  let ?b = "mf_lastSubmittedFence (rc_monitoredFence c)"
  obtain r c' taken where c': "makeResidentResidencyAllocations answers as c = Inr (r, c')"
    "filter (\<lambda>b. b \<notin> set as) (candidates c) = taken @ candidates c'" "rc_evictions c' = rc_evictions c @ concat (map (evictions c ?b) taken)"
    "r \<longrightarrow> (\<forall>a \<in> set as. residentIn c' a \<and> fenceOf c' a = mf_currentFenceValue (rc_monitoredFence c))"
    using makeResident_ok [OF assms(1), of answers as] assms(2) by blast
  have "set taken \<union> set (candidates c') = set (candidates c) - set as" using arg_cong [OF c'(2), of set] by auto
  then show ?thesis using c'(1,3,4) by (intro exI [of _ r] exI [of _ c'] exI [of _ taken]) auto
qed

theorem make_resident_protects_witness:
  "\<exists>r c'. makeResidentResidencyAllocations [(False, 4096, EVICT_NOT_APPLIED, False), (True, 0, EVICT_NOT_APPLIED, False)] [1] sampleController = Inr (r, c') \<and>
     1 \<notin> set (candidates c')"
proof -
  have "\<exists>x \<in> set [(False, 4096, EVICT_NOT_APPLIED, False), (True, 0, EVICT_NOT_APPLIED, False)]. fst x" by simp
  from make_resident_protects [OF sampleController_inv this, of "[1]"] show ?thesis by auto
qed

text \<open>Two allocations share a host memory fragment; the first is a candidate, the second is made resident.\<close>

definition sharedAllocations :: "nat \<Rightarrow> WddmAllocation" where
  "sharedAllocations a = wddmAllocation_create 4096 4096 [a]
     (let f = \<lparr>wf_handle = 50, wf_residency = 7, wf_fragmentSize = 4096\<rparr>; g = \<lparr>wf_handle = 51, wf_residency = 8, wf_fragmentSize = 4096\<rparr>
      in if a = 0 then [f] else [f, g])"

definition sharedController :: "WddmResidencyController rt_result" where
  "sharedController =
     rt_bind (makeResidentResidencyAllocations [(True, 0, EVICT_NOT_APPLIED, False)] [0]
       (resetMonitoredFenceParams 1 0 0 (residencyController_create 0 sharedAllocations))) (\<lambda>(_, c).
     rt_bind (submit True True True c) (\<lambda>(_, c). Inr (makeNonResidentEvictionAllocations [0] c)))"

lemmas residency_eval = sharedController_def sharedAllocations_def residencyController_create_def wddmAllocation_create_def residencyData_create_def
  resetMonitoredFenceParams_def submit_def makeNonResidentEvictionAllocations_def addToTrimCandidateList_def getTrimCandidateListPosition_def
  setTrimCandidateListPosition_def upd_alloc_def upd_fragment_def makeResidentResidencyAllocations_def residencyHandles_def completeAllocation_def
  completeFragment_def updateCompletionData_def setResident_def getFenceValueForContextId_def fenceOf_def fragmentFence_def
  trimResidencyToBudget_def trimFuel_def getTrimCandidateHead_def budgetEvict_def waitFromCpu_def evict_def clearResident_def clearFragment_def
  removeFromTrimCandidateList_def cutTail_def compactIfSparse_def checkTrimCandidateListCompaction_def compactTrimCandidateList_def
  trimListUnusedPosition_def maxFragments_def Let_def

text \<open>A fragment shared with a candidate can end up marked resident though the kernel was asked to evict it last: the handles are
  collected first, a resident fragment is left out of them, a trim inside the call evicts it with the candidate,
  and after the next, granted request, which does not name its handle, the call marks it as resident.\<close>

theorem shared_fragment_marked_after_eviction:
  "case sharedController of Inl _ \<Rightarrow> False
   | Inr c \<Rightarrow> (case collectHandles [1] c of Inl _ \<Rightarrow> False | Inr (handles, _) \<Rightarrow> handles = [51]) \<and>
       (case makeResidentResidencyAllocations [(False, 4096, EVICT_NOT_APPLIED, False), (True, 0, EVICT_NOT_APPLIED, False)] [1] c of
          Inl _ \<Rightarrow> False
        | Inr (r, c') \<Rightarrow> r \<and> rc_evictions c' = [[50]] \<and> resident (rc_fragmentData c' 7) 0)"
  by (simp add: residency_eval)

end
