(* ===== verification/Deferred_Deletion.thy ===== *)
theory Deferred_Deletion
  imports Internal_Allocation_Storage Machine_Refinement
begin

text \<open>
  Deferred deletion (\<^verbatim>\<open>memory_manager/deferred_deleter.cpp\<close>, \<^verbatim>\<open>deferrable_allocation_deletion.cpp\<close>). Allocations still in use by the GPU are queued; a
  worker thread, a thread that drains the queue and the thread that stops the worker try them again until they
  are free. The threads interleave: each has a program counter, and a step is what it does
  between two points where another thread can run. The queue's own lock makes its operations atomic; the lock
  of the condition variable is part of the state. Deletions are indices of a store of allocations.
\<close>

section \<open>One deletion\<close>

definition applyEngine :: "CsrView \<Rightarrow> GraphicsAllocation \<times> nat list \<Rightarrow> GraphicsAllocation \<times> nat list" where
  "applyEngine engine = (\<lambda>(a, flushed).
     if isUsedByOsContext a (csr_contextId engine)
     then if getTaskCount a (csr_contextId engine) \<le> csr_tag engine
          then (releaseUsageInOsContext (csr_contextId engine) a, flushed)
          else (a, flushed @ [csr_contextId engine])
     else (a, flushed))"

text \<open>The result says whether the memory was freed; the engines whose batched submissions were flushed come last.\<close>

definition deletion_apply :: "CsrView list \<Rightarrow> GraphicsAllocation \<Rightarrow> bool \<times> GraphicsAllocation \<times> nat list" where
  "deletion_apply engines a =
     (if isUsed a
      then let (a, flushed) = fold applyEngine engines (a, []) in (\<not> isUsed a, a, flushed)
      else (True, a, []))"

section \<open>The threads\<close>

datatype actor = Worker | Control | Drainer

datatype thread_pc = Idle | Started | LoopTop | Waiting | Woken | Take | Holding nat | Test | Relock | Exited
  | StopLock | StopTest | StopNotify | Join | Spin

record DeferredDeleter =
  dd_doWorkInBackground :: bool
  dd_elementsToRelease :: int
  dd_worker :: bool
  dd_numClients :: int
  dd_queue :: "nat list"
  dd_queueMutex :: "actor option"
  dd_pc :: "actor \<Rightarrow> thread_pc"
  dd_blocking :: bool
  dd_notifies :: nat
  dd_engines :: "CsrView list"
  dd_allocations :: "nat \<Rightarrow> GraphicsAllocation"
  dd_freed :: "nat list"

definition goto :: "actor \<Rightarrow> thread_pc \<Rightarrow> DeferredDeleter \<Rightarrow> DeferredDeleter" where
  "goto t p s = s\<lparr>dd_pc := (dd_pc s)(t := p)\<rparr>"

definition deferredDeleter_create :: "CsrView list \<Rightarrow> (nat \<Rightarrow> GraphicsAllocation) \<Rightarrow> DeferredDeleter" where
  "deferredDeleter_create engines allocations =
     \<lparr>dd_doWorkInBackground = False, dd_elementsToRelease = 0, dd_worker = False, dd_numClients = 0, dd_queue = [],
      dd_queueMutex = None, dd_pc = (\<lambda>_. Idle), dd_blocking = False, dd_notifies = 0, dd_engines = engines,
      dd_allocations = allocations, dd_freed = []\<rparr>"

text \<open>The loop of \<^verbatim>\<open>clearQueue\<close>, run by any of the threads; the last argument is where it continues afterwards.\<close>

definition removeFront :: "actor \<Rightarrow> DeferredDeleter \<Rightarrow> DeferredDeleter" where
  "removeFront t s =
     (case dd_queue s of [] \<Rightarrow> goto t Test s | d # q \<Rightarrow> goto t (Holding d) (s\<lparr>dd_queue := q\<rparr>))"

definition applyHeld :: "actor \<Rightarrow> nat \<Rightarrow> DeferredDeleter \<Rightarrow> DeferredDeleter" where
  "applyHeld t d s =
     (let (ok, a, flushed) = deletion_apply (dd_engines s) (dd_allocations s d);
          s = goto t Test (s\<lparr>dd_allocations := (dd_allocations s)(d := a)\<rparr>)
      in if ok then s\<lparr>dd_elementsToRelease := dd_elementsToRelease s - 1, dd_freed := dd_freed s @ [d]\<rparr>
         else s\<lparr>dd_queue := dd_queue s @ [d]\<rparr>)"

fun clear_step :: "actor \<Rightarrow> thread_pc \<Rightarrow> DeferredDeleter \<Rightarrow> DeferredDeleter option" where
  "clear_step t after s =
     (case dd_pc s t of
        Take \<Rightarrow> Some (removeFront t s)
      | Holding d \<Rightarrow> Some (applyHeld t d s)
      | Test \<Rightarrow> Some (if dd_queue s \<noteq> [] then goto t Take s else goto t after s)
      | _ \<Rightarrow> None)"

text \<open>The worker: \<^verbatim>\<open>run\<close>. A wait gives the lock back and ends only by a notification or a spurious wake-up.\<close>

definition worker_step :: "DeferredDeleter \<Rightarrow> DeferredDeleter option" where
  "worker_step s =
     (case dd_pc s Worker of
        Started \<Rightarrow> if dd_queueMutex s = None
                   then Some (goto Worker LoopTop (s\<lparr>dd_queueMutex := Some Worker, dd_doWorkInBackground := True\<rparr>)) else None
      | LoopTop \<Rightarrow> Some (goto Worker (if dd_queue s = [] then Waiting else Take) (s\<lparr>dd_queueMutex := None\<rparr>))
      | Woken \<Rightarrow> if dd_queueMutex s = None then Some (goto Worker Take s) else None
      | Relock \<Rightarrow> if dd_queueMutex s = None
                  then Some (if dd_doWorkInBackground s then goto Worker LoopTop (s\<lparr>dd_queueMutex := Some Worker\<rparr>)
                             else goto Worker Exited s)
                  else None
      | _ \<Rightarrow> clear_step Worker Relock s)"

text \<open>The thread that holds the thread mutex: \<^verbatim>\<open>stop\<close>, up to the join and the drain at its end.\<close>

definition wake :: "DeferredDeleter \<Rightarrow> DeferredDeleter" where
  "wake s = (if dd_pc s Worker = Waiting then goto Worker Woken s else s)"

definition control_step :: "DeferredDeleter \<Rightarrow> DeferredDeleter option" where
  "control_step s =
     (case dd_pc s Control of
        StopLock \<Rightarrow> if dd_queueMutex s = None then Some (goto Control StopTest (s\<lparr>dd_queueMutex := Some Control\<rparr>)) else None
      | StopTest \<Rightarrow> Some (if \<not> dd_doWorkInBackground s then goto Control StopLock (s\<lparr>dd_queueMutex := None\<rparr>)
                          else goto Control StopNotify (s\<lparr>dd_doWorkInBackground := False, dd_queueMutex := None\<rparr>))
      | StopNotify \<Rightarrow> Some (goto Control Join (wake s))
      | Join \<Rightarrow> if dd_pc s Worker = Exited then Some (goto Control Take (goto Worker Idle (s\<lparr>dd_worker := False\<rparr>))) else None
      | _ \<Rightarrow> clear_step Control Idle s)"

definition stop :: "DeferredDeleter \<Rightarrow> DeferredDeleter" where
  "stop s = goto Control (if dd_worker s then StopLock else Take) s"

definition ensureThread :: "DeferredDeleter \<Rightarrow> DeferredDeleter" where
  "ensureThread s = (if dd_worker s then s else goto Worker Started (s\<lparr>dd_worker := True\<rparr>))"

definition addClient :: "DeferredDeleter \<Rightarrow> DeferredDeleter" where
  "addClient s = ensureThread (s\<lparr>dd_numClients := dd_numClients s + 1\<rparr>)"

definition removeClient :: "DeferredDeleter \<Rightarrow> DeferredDeleter" where
  "removeClient s =
     (let s = s\<lparr>dd_numClients := dd_numClients s - 1\<rparr> in if dd_numClients s = 0 then stop s else s)"

text \<open>A thread that calls \<^verbatim>\<open>drain\<close>; a blocking one spins until nothing is left.\<close>

definition areElementsReleased :: "DeferredDeleter \<Rightarrow> bool" where
  "areElementsReleased s \<longleftrightarrow> dd_elementsToRelease s = 0"

definition drain :: "bool \<Rightarrow> DeferredDeleter \<Rightarrow> DeferredDeleter" where
  "drain blocking s = goto Drainer Take (s\<lparr>dd_blocking := blocking\<rparr>)"

definition drainer_step :: "DeferredDeleter \<Rightarrow> DeferredDeleter option" where
  "drainer_step s =
     (case dd_pc s Drainer of
        Spin \<Rightarrow> Some (if areElementsReleased s then goto Drainer Idle s else s)
      | _ \<Rightarrow> clear_step Drainer (if dd_blocking s then Spin else Idle) s)"

definition deferDeletion :: "nat \<Rightarrow> DeferredDeleter \<Rightarrow> DeferredDeleter" where
  "deferDeletion d s =
     s\<lparr>dd_elementsToRelease := dd_elementsToRelease s + 1, dd_queue := dd_queue s @ [d], dd_notifies := dd_notifies s + 1\<rparr>"

definition heldBy :: "DeferredDeleter \<Rightarrow> actor \<Rightarrow> nat list" where
  "heldBy s t = (case dd_pc s t of Holding d \<Rightarrow> [d] | _ \<Rightarrow> [])"

definition pending :: "DeferredDeleter \<Rightarrow> nat list" where
  "pending s = dd_queue s @ heldBy s Worker @ heldBy s Control @ heldBy s Drainer"

text \<open>A notification of \<^verbatim>\<open>deferDeletion\<close> arrives, behind the end of its critical section.\<close>

definition notify_step :: "DeferredDeleter \<Rightarrow> DeferredDeleter option" where
  "notify_step s = (if dd_notifies s > 0 then Some (wake (s\<lparr>dd_notifies := dd_notifies s - 1\<rparr>)) else None)"

text \<open>The GPU goes on: the tag of an engine grows.\<close>

definition progress :: "nat \<Rightarrow> u32 \<Rightarrow> DeferredDeleter \<Rightarrow> DeferredDeleter" where
  "progress i tag s = s\<lparr>dd_engines := (dd_engines s)[i := (dd_engines s ! i)\<lparr>csr_tag := tag\<rparr>]\<rparr>"

text \<open>A step of the system, labelled with the deletion that a call of \<^verbatim>\<open>deferDeletion\<close> hands over.\<close>

inductive dd_event :: "DeferredDeleter \<Rightarrow> nat list \<Rightarrow> DeferredDeleter \<Rightarrow> bool" where
  run_worker: "worker_step s = Some s' \<Longrightarrow> dd_event s [] s'"
| run_control: "control_step s = Some s' \<Longrightarrow> dd_event s [] s'"
| run_drainer: "drainer_step s = Some s' \<Longrightarrow> dd_event s [] s'"
| call_defer: "dd_queueMutex s = None \<Longrightarrow> d \<notin> set (pending s) \<Longrightarrow> d \<notin> set (dd_freed s) \<Longrightarrow> dd_event s [d] (deferDeletion d s)"
| notify: "notify_step s = Some s' \<Longrightarrow> dd_event s [] s'"
| spurious: "dd_event s [] (wake s)"
| call_addClient: "dd_pc s Control = Idle \<Longrightarrow> dd_event s [] (addClient s)"
| call_removeClient: "dd_pc s Control = Idle \<Longrightarrow> dd_event s [] (removeClient s)"
| call_safeStop: "dd_pc s Control = Idle \<Longrightarrow> dd_event s [] (stop s)"
| call_drain: "dd_pc s Drainer = Idle \<Longrightarrow> dd_event s [] (drain blocking s)"
| gpu: "i < length (dd_engines s) \<Longrightarrow> csr_tag (dd_engines s ! i) \<le> tag \<Longrightarrow> dd_event s [] (progress i tag s)"

definition dd_step :: "DeferredDeleter \<Rightarrow> DeferredDeleter \<Rightarrow> bool" where
  "dd_step s s' \<longleftrightarrow> (\<exists>ds. dd_event s ds s')"

text \<open>A run, with all deletions handed over on the way, in their order.\<close>

inductive dd_run :: "DeferredDeleter \<Rightarrow> nat list \<Rightarrow> DeferredDeleter \<Rightarrow> bool" for s0 where
  run_start: "dd_run s0 [] s0"
| run_event: "dd_run s0 ds s \<Longrightarrow> dd_event s es s' \<Longrightarrow> dd_run s0 (ds @ es) s'"

section \<open>Applying a deletion\<close>

lemma isUsed_users: "usage_inv a \<Longrightarrow> isUsed a \<longleftrightarrow> users a \<noteq> {}"
  using finite_subset [OF _ finite_lessThan, of "users a" maxOsContextCount]
  by (auto simp: usage_inv_def isUsed_def word_less_nat_alt card_gt_0_iff)

lemma isUsedByOsContext_users: "isUsedByOsContext a c \<longleftrightarrow> c \<in> users a"
  by (auto simp: isUsedByOsContext_def users_def getTaskCount_def)

definition engine_done :: "GraphicsAllocation \<Rightarrow> CsrView \<Rightarrow> bool" where
  "engine_done a engine \<longleftrightarrow> getTaskCount a (csr_contextId engine) \<le> csr_tag engine"

lemma applyEngine_eq:
  "applyEngine e (a, fl) = (if csr_contextId e \<in> users a
     then if engine_done a e then (releaseUsageInOsContext (csr_contextId e) a, fl) else (a, fl @ [csr_contextId e]) else (a, fl))"
  by (simp add: applyEngine_def isUsedByOsContext_users engine_done_def)

lemma applyEngines:
  assumes "usage_inv a" "\<forall>e \<in> set engines. csr_contextId e < maxOsContextCount" "distinct (map csr_contextId engines)"
    "fold applyEngine engines (a, fl) = (a', fl')"
  shows "usage_inv a' \<and> users a' = users a - csr_contextId ` {e \<in> set engines. engine_done a e} \<and>
    fl' = fl @ map csr_contextId (filter (\<lambda>e. csr_contextId e \<in> users a \<and> \<not> engine_done a e) engines)"
  using assms
proof (induction engines arbitrary: a fl)
  case (Cons e engines)
  let ?c = "csr_contextId e" and ?r = "releaseUsageInOsContext (csr_contextId e) a"
  have u: "users ?r = users a - {?c}" "usage_inv ?r"
    using Cons.prems by (simp_all add: releaseUsageInOsContext_def users_updateTaskCount updateTaskCount_inv)
  have ne: "csr_contextId x \<noteq> ?c" if "x \<in> set engines" for x using imageI [OF that, of csr_contextId] Cons.prems(3) by auto
  then have same: "engine_done ?r x = engine_done a x" if "x \<in> set engines" for x
    using that by (simp add: engine_done_def releaseUsageInOsContext_def)
  have f: "filter (\<lambda>x. csr_contextId x \<in> users ?r \<and> \<not> engine_done ?r x) engines =
      filter (\<lambda>x. csr_contextId x \<in> users a \<and> \<not> engine_done a x) engines"
    using same ne u(1) by (intro filter_cong) auto
  have i: "{x \<in> set engines. engine_done ?r x} = {x \<in> set engines. engine_done a x}" using same by auto
  have p: "\<forall>x \<in> set engines. csr_contextId x < maxOsContextCount" "distinct (map csr_contextId engines)" using Cons.prems(2,3) by simp_all
  have step: "fold applyEngine engines (if ?c \<in> users a then if engine_done a e then (?r, fl) else (a, fl @ [?c]) else (a, fl)) = (a', fl')"
    using Cons.prems(4) unfolding fold_simps(2) applyEngine_eq .
  consider "?c \<in> users a" "engine_done a e" | "?c \<in> users a" "\<not> engine_done a e" | "?c \<notin> users a" by blast
  then show ?case
  proof cases
    case 1
    then show ?thesis using Cons.IH [OF u(2) p, of fl] step u(1) f i by auto
  next
    case 2
    then show ?thesis using Cons.IH [OF Cons.prems(1) p, of "fl @ [?c]"] step by auto
  next
    case 3
    then show ?thesis using Cons.IH [OF Cons.prems(1) p, of fl] step by auto
  qed
qed simp

section \<open>The protocol of the threads\<close>

fun clearing :: "thread_pc \<Rightarrow> bool" where
  "clearing Take = True"
| "clearing (Holding d) = True"
| "clearing Test = True"
| "clearing p = False"

lemma clear_step_frame:
  assumes "clear_step t after s = Some s'"
  shows "clearing (dd_pc s t)" "clearing (dd_pc s' t) \<or> dd_pc s' t = after" "u \<noteq> t \<Longrightarrow> dd_pc s' u = dd_pc s u"
    "dd_queueMutex s' = dd_queueMutex s" "dd_worker s' = dd_worker s" "dd_doWorkInBackground s' = dd_doWorkInBackground s"
    "dd_numClients s' = dd_numClients s" "dd_engines s' = dd_engines s"
  using assms
  by (auto simp: removeFront_def applyHeld_def goto_def Let_def split: thread_pc.splits if_splits list.splits prod.splits)

text \<open>Where the thread that stops the worker stands, and what the worker's position then says of its flags.\<close>

fun signalled :: "thread_pc \<Rightarrow> bool" where
  "signalled StopNotify = True"
| "signalled Join = True"
| "signalled p = False"

fun controlPc :: "thread_pc \<Rightarrow> bool" where
  "controlPc p = (clearing p \<or> signalled p \<or> p = Idle \<or> p = StopLock \<or> p = StopTest)"

fun workerPhase :: "thread_pc \<Rightarrow> thread_pc \<Rightarrow> bool \<Rightarrow> bool \<Rightarrow> bool" where
  "workerPhase Idle pC w f = (\<not> w \<and> \<not> f \<and> \<not> signalled pC \<and> pC \<noteq> StopLock \<and> pC \<noteq> StopTest)"
| "workerPhase Started pC w f = (w \<and> \<not> f \<and> \<not> signalled pC)"
| "workerPhase LoopTop pC w f = (w \<and> f \<and> \<not> signalled pC)"
| "workerPhase Waiting pC w f = (w \<and> (f \<longleftrightarrow> \<not> signalled pC) \<and> pC \<noteq> Join)"
| "workerPhase Exited pC w f = (w \<and> \<not> f \<and> signalled pC)"
| "workerPhase p pC w f = ((clearing p \<or> p = Woken \<or> p = Relock) \<and> w \<and> (f \<longleftrightarrow> \<not> signalled pC))"

definition protocol :: "DeferredDeleter \<Rightarrow> bool" where
  "protocol s \<longleftrightarrow>
     (dd_queueMutex s = Some Worker \<longleftrightarrow> dd_pc s Worker = LoopTop) \<and> (dd_queueMutex s = Some Control \<longleftrightarrow> dd_pc s Control = StopTest) \<and>
     dd_queueMutex s \<noteq> Some Drainer \<and> controlPc (dd_pc s Control) \<and> (clearing (dd_pc s Drainer) \<or> dd_pc s Drainer \<in> {Idle, Spin}) \<and>
     workerPhase (dd_pc s Worker) (dd_pc s Control) (dd_worker s) (dd_doWorkInBackground s)"

lemma wake_simps [simp]:
  "dd_queue (wake s) = dd_queue s" "dd_elementsToRelease (wake s) = dd_elementsToRelease s" "dd_freed (wake s) = dd_freed s"
  "dd_queueMutex (wake s) = dd_queueMutex s" "dd_worker (wake s) = dd_worker s" "dd_doWorkInBackground (wake s) = dd_doWorkInBackground s"
  "dd_pc (wake s) Control = dd_pc s Control" "dd_pc (wake s) Drainer = dd_pc s Drainer"
  "dd_pc (wake s) Worker = (if dd_pc s Worker = Waiting then Woken else dd_pc s Worker)"
  by (simp_all add: wake_def goto_def)

lemma protocol_wake: "protocol s \<Longrightarrow> protocol (wake s)"
  by (cases "dd_pc s Worker") (auto simp: protocol_def simp del: controlPc.simps)

lemma clearing_cases:
  assumes "clearing p"
  obtains "p = Take" | d where "p = Holding d" | "p = Test"
  using assms by (cases p) auto

lemma protocol_clear:
  assumes "clear_step t after s = Some s'" "protocol s"
    "t = Worker \<Longrightarrow> after = Relock" "t = Control \<Longrightarrow> after = Idle" "t = Drainer \<Longrightarrow> after \<in> {Idle, Spin}"
  shows "protocol s'"
proof -
  note f = clear_step_frame [OF assms(1)]
  show ?thesis
  proof (cases t)
    case Worker
    then have "workerPhase (dd_pc s' Worker) pC w b = workerPhase (dd_pc s Worker) pC w b" "dd_pc s' Worker \<noteq> LoopTop" for pC w b
      using f(1,2) assms(3) by (auto elim!: clearing_cases)
    then show ?thesis using f assms(2) Worker unfolding protocol_def by (auto elim: clearing_cases)
  next
    case Control
    then have "workerPhase pW (dd_pc s' Control) w b = workerPhase pW (dd_pc s Control) w b" "controlPc (dd_pc s' Control)" "dd_pc s' Control \<noteq> StopTest" for pW w b
      using f(1,2) assms(4) by (cases pW; auto elim!: clearing_cases)+
    then show ?thesis using f assms(2) Control unfolding protocol_def by (auto elim: clearing_cases)
  next
    case Drainer
    then show ?thesis using f assms(2,5) unfolding protocol_def by auto
  qed
qed

lemma protocol_worker: "worker_step s = Some s' \<Longrightarrow> protocol s \<Longrightarrow> protocol s'"
proof (cases "clearing (dd_pc s Worker)")
  case True
  moreover assume "worker_step s = Some s'" "protocol s"
  ultimately show ?thesis by (cases "dd_pc s Worker"; intro protocol_clear [of Worker Relock s s']) (simp_all add: worker_step_def)
next
  case False
  moreover assume "worker_step s = Some s'" "protocol s"
  ultimately show ?thesis
    by (cases "dd_pc s Worker") (auto simp: worker_step_def protocol_def goto_def split: if_splits)
qed

lemma protocol_control: "control_step s = Some s' \<Longrightarrow> protocol s \<Longrightarrow> protocol s'"
proof (cases "clearing (dd_pc s Control)")
  case True
  moreover assume "control_step s = Some s'" "protocol s"
  ultimately show ?thesis by (cases "dd_pc s Control"; intro protocol_clear [of Control Idle s s']) (simp_all add: control_step_def)
next
  case False
  moreover assume "control_step s = Some s'" "protocol s"
  ultimately show ?thesis
    by (cases "dd_pc s Control"; cases "dd_pc s Worker") (auto simp: control_step_def protocol_def goto_def wake_def split: if_splits)
qed

lemma protocol_drainer: "drainer_step s = Some s' \<Longrightarrow> protocol s \<Longrightarrow> protocol s'"
proof (cases "clearing (dd_pc s Drainer)")
  case True
  moreover assume "drainer_step s = Some s'" "protocol s"
  ultimately show ?thesis
    by (cases "dd_pc s Drainer"; intro protocol_clear [of Drainer "if dd_blocking s then Spin else Idle" s s']) (simp_all add: drainer_step_def)
next
  case False
  moreover assume "drainer_step s = Some s'" "protocol s"
  ultimately show ?thesis
    by (cases "dd_pc s Drainer") (auto simp: drainer_step_def protocol_def goto_def split: if_splits)
qed

lemma protocol_stop: "protocol s \<Longrightarrow> dd_pc s Control = Idle \<Longrightarrow> protocol (stop s)"
  by (cases "dd_pc s Worker") (auto simp: protocol_def stop_def goto_def)

lemma protocol_ensureThread: "protocol s \<Longrightarrow> dd_pc s Control = Idle \<Longrightarrow> protocol (ensureThread s)"
  by (cases "dd_pc s Worker") (auto simp: protocol_def ensureThread_def goto_def)

lemma protocol_step: "dd_event s ds s' \<Longrightarrow> protocol s \<Longrightarrow> protocol s'"
proof (induction rule: dd_event.induct)
  case (call_removeClient s)
  let ?s = "s\<lparr>dd_numClients := dd_numClients s - 1\<rparr>"
  have "protocol ?s" using call_removeClient by (simp add: protocol_def)
  then show ?case using protocol_stop [of ?s] call_removeClient(1) by (auto simp: removeClient_def Let_def)
next
  case (notify s s')
  then have "protocol (s\<lparr>dd_notifies := dd_notifies s - 1\<rparr>)" by (simp add: protocol_def)
  then show ?case using notify(1) protocol_wake by (auto simp: notify_step_def split: if_splits)
next
  case (call_addClient s)
  then show ?case using protocol_ensureThread [of "s\<lparr>dd_numClients := dd_numClients s + 1\<rparr>"] by (simp add: addClient_def protocol_def)
next
  case (call_drain s blocking)
  then show ?case by (simp add: protocol_def drain_def goto_def del: controlPc.simps)
next
  case (call_defer s d)
  then show ?case by (simp add: protocol_def deferDeletion_def del: controlPc.simps)
next
  case (gpu i s tag)
  then show ?case by (simp add: protocol_def progress_def)
qed (auto intro: protocol_worker protocol_control protocol_drainer protocol_wake protocol_stop)

section \<open>The ledger of deletions\<close>

definition ledger :: "DeferredDeleter \<Rightarrow> nat multiset" where
  "ledger s = mset (pending s) + mset (dd_freed s)"

definition ledger_ok :: "DeferredDeleter \<Rightarrow> bool" where
  "ledger_ok s \<longleftrightarrow> dd_elementsToRelease s = int (length (pending s)) \<and> distinct (pending s @ dd_freed s)"

lemma ledger_okI:
  assumes "ledger_ok s" "ledger s' = ledger s" "dd_elementsToRelease s' - int (length (pending s')) = dd_elementsToRelease s - int (length (pending s))"
  shows "ledger_ok s'"
  using assms mset_eq_imp_distinct_iff [of "pending s' @ dd_freed s'" "pending s @ dd_freed s"] by (simp add: ledger_ok_def ledger_def)

lemma ledger_clear:
  assumes "clear_step t after s = Some s'" "after \<in> {Relock, Idle, Spin}"
  shows "ledger s' = ledger s \<and> dd_elementsToRelease s' - int (length (pending s')) = dd_elementsToRelease s - int (length (pending s))"
proof -
  consider "dd_pc s t = Take" | d where "dd_pc s t = Holding d" | "dd_pc s t = Test"
    using clear_step_frame(1) [OF assms(1)] by (cases "dd_pc s t") auto
  then show ?thesis
  proof cases
    case 1
    then have s': "s' = removeFront t s" using assms(1) by simp
    show ?thesis
      using 1 unfolding s' removeFront_def
      by (cases t; cases "dd_queue s") (simp_all add: ledger_def pending_def heldBy_def goto_def)
  next
    case 2
    then have s': "s' = applyHeld t d s" using assms(1) by simp
    obtain ok a fl where ap: "deletion_apply (dd_engines s) (dd_allocations s d) = (ok, a, fl)" by (metis prod_cases3)
    show ?thesis
      using 2 unfolding s' applyHeld_def ap
      by (cases t; cases ok) (simp_all add: ledger_def pending_def heldBy_def goto_def)
  next
    case 3
    then have s': "s' = (if dd_queue s \<noteq> [] then goto t Take s else goto t after s)" using assms(1) by simp
    show ?thesis
      using 3 assms(2) unfolding s' by (cases t) (auto simp: ledger_def pending_def heldBy_def goto_def)
  qed
qed


text \<open>A step of a thread is a turn of the loop that clears the queue, or it leaves the deletions alone.\<close>

definition moves :: "DeferredDeleter \<Rightarrow> DeferredDeleter \<Rightarrow> bool" where
  "moves s s' \<longleftrightarrow> dd_queue s' = dd_queue s \<and> (\<forall>t. heldBy s' t = heldBy s t) \<and> dd_freed s' = dd_freed s \<and>
     dd_elementsToRelease s' = dd_elementsToRelease s \<and> dd_allocations s' = dd_allocations s"

lemma worker_cases:
  assumes "worker_step s = Some s'"
  shows "clear_step Worker Relock s = Some s' \<or> moves s s' \<and> dd_engines s' = dd_engines s"
  using assms by (cases "dd_pc s Worker") (auto simp: worker_step_def moves_def heldBy_def goto_def split: if_splits)

lemma control_cases:
  assumes "control_step s = Some s'"
  shows "clear_step Control Idle s = Some s' \<or> moves s s'"
  using assms by (cases "dd_pc s Control") (auto simp: control_step_def moves_def heldBy_def goto_def wake_def split: if_splits)

lemma drainer_cases:
  assumes "drainer_step s = Some s'"
  shows "clear_step Drainer (if dd_blocking s then Spin else Idle) s = Some s' \<or> moves s s' \<and> dd_engines s' = dd_engines s"
  using assms by (cases "dd_pc s Drainer") (auto simp: drainer_step_def moves_def heldBy_def goto_def split: if_splits)

lemma moves_wake: "moves s (wake (s\<lparr>dd_notifies := n\<rparr>))" "moves s (wake s)"
  by (auto simp: moves_def wake_def heldBy_def goto_def)

lemma protocol_noworker: "protocol s \<Longrightarrow> \<not> dd_worker s \<Longrightarrow> dd_pc s Worker = Idle"
  by (cases "dd_pc s Worker") (simp_all add: protocol_def)

lemma moves_calls:
  "protocol s \<Longrightarrow> moves s (addClient s)" "dd_pc s Control = Idle \<Longrightarrow> moves s (removeClient s)" "dd_pc s Control = Idle \<Longrightarrow> moves s (stop s)"
  "dd_pc s Drainer = Idle \<Longrightarrow> moves s (drain b s)" "moves s (progress i tag s)"
  using protocol_noworker [of s]
  by (auto simp: moves_def addClient_def ensureThread_def removeClient_def stop_def drain_def progress_def heldBy_def goto_def Let_def)

lemma dd_event_cases:
  assumes "dd_event s ds s'" "protocol s"
  obtains t after where "ds = []" "clear_step t after s = Some s'" "after \<in> {Relock, Idle, Spin}" | "ds = []" "moves s s'"
  | d where "ds = [d]" "s' = deferDeletion d s" "d \<notin> set (pending s)" "d \<notin> set (dd_freed s)"
  using assms
proof (induction rule: dd_event.induct)
  case (run_worker s s')
  then show ?case using worker_cases by blast
next
  case (run_control s s')
  then show ?case using control_cases by blast
next
  case (run_drainer s s')
  then show ?case using drainer_cases [OF run_drainer(1)] by (cases "dd_blocking s") auto
next
  case (notify s s')
  then show ?case using moves_wake by (auto simp: notify_step_def split: if_splits)
next
  case (call_addClient s)
  then show ?case using moves_calls(1) by blast
next
  case (call_removeClient s)
  then show ?case using moves_calls(2) by blast
next
  case (call_safeStop s)
  then show ?case using moves_calls(3) by blast
next
  case (call_drain s blocking)
  then show ?case using moves_calls(4) by blast
qed (use moves_wake moves_calls(5) in blast)+

lemma ledger_moves: "moves s s' \<Longrightarrow> ledger_ok s \<Longrightarrow> ledger_ok s'"
  by (simp add: ledger_ok_def pending_def moves_def)

lemma ledger_deferDeletion: "ledger_ok s \<Longrightarrow> d \<notin> set (pending s) \<Longrightarrow> d \<notin> set (dd_freed s) \<Longrightarrow> ledger_ok (deferDeletion d s)"
  by (auto simp: ledger_ok_def deferDeletion_def pending_def heldBy_def)

lemma ledger_step: "dd_event s ds s' \<Longrightarrow> protocol s \<Longrightarrow> ledger_ok s \<Longrightarrow> ledger_ok s'"
  by (erule (1) dd_event_cases)
    (auto intro: ledger_moves ledger_okI dest: ledger_clear simp: ledger_deferDeletion simp del: clear_step.simps)

text \<open>Memory is freed only when no context uses it, and nothing uses it again.\<close>

definition freed_ok :: "DeferredDeleter \<Rightarrow> bool" where
  "freed_ok s \<longleftrightarrow> (\<forall>d \<in> set (dd_freed s). \<not> isUsed (dd_allocations s d))"

lemma deletion_apply_unused: "deletion_apply engines a = (True, a', fl) \<Longrightarrow> \<not> isUsed a'"
  by (auto simp: deletion_apply_def split: if_splits prod.splits)

lemma freed_clear:
  assumes "clear_step t after s = Some s'" "freed_ok s" "ledger_ok s"
  shows "freed_ok s'"
  using clear_step_frame(1) [OF assms(1)]
proof (cases rule: clearing_cases)
  case 1
  then show ?thesis using assms(1,2) by (auto simp: freed_ok_def removeFront_def goto_def split: list.splits)
next
  case (2 d)
  then have s': "s' = applyHeld t d s" using assms(1) by simp
  obtain ok a fl where ap: "deletion_apply (dd_engines s) (dd_allocations s d) = (ok, a, fl)" by (metis prod_cases3)
  have "d \<in> set (pending s)" using 2 by (cases t) (simp_all add: pending_def heldBy_def)
  then have "d \<notin> set (dd_freed s)" using assms(3) by (auto simp: ledger_ok_def)
  then show ?thesis
    using assms(2) deletion_apply_unused [of "dd_engines s" "dd_allocations s d" a fl] ap unfolding s' applyHeld_def ap
    by (cases ok) (auto simp: freed_ok_def goto_def)
next
  case 3
  then show ?thesis using assms(1,2) by (auto simp: freed_ok_def goto_def split: if_splits)
qed

text \<open>What is queued, held or freed grows by what is handed over and by nothing else.\<close>

lemma ledger_event: "dd_event s ds s' \<Longrightarrow> protocol s \<Longrightarrow> ledger s' = ledger s + mset ds"
  by (erule (1) dd_event_cases)
    (auto dest: ledger_clear simp: ledger_def moves_def pending_def deferDeletion_def heldBy_def simp del: clear_step.simps)

lemma freed_step: "dd_event s ds s' \<Longrightarrow> protocol s \<Longrightarrow> ledger_ok s \<Longrightarrow> freed_ok s \<Longrightarrow> freed_ok s'"
  by (erule (1) dd_event_cases) (blast intro: freed_clear, simp_all add: freed_ok_def moves_def deferDeletion_def)

definition dd_inv :: "DeferredDeleter \<Rightarrow> bool" where
  "dd_inv s \<longleftrightarrow> protocol s \<and> ledger_ok s \<and> freed_ok s"

lemma dd_event_inv: "dd_event s ds s' \<Longrightarrow> dd_inv s \<Longrightarrow> dd_inv s'"
  using protocol_step ledger_step freed_step by (auto simp: dd_inv_def)

lemma dd_step_inv: "dd_step s s' \<Longrightarrow> dd_inv s \<Longrightarrow> dd_inv s'"
  using dd_event_inv by (auto simp: dd_step_def)

interpretation deleter: step_invariant dd_step dd_inv
  by unfold_locales (rule dd_step_inv)

lemma dd_created_inv: "dd_inv (deferredDeleter_create engines allocations)"
  by (simp add: dd_inv_def protocol_def ledger_ok_def freed_ok_def pending_def heldBy_def deferredDeleter_create_def)

lemma dd_run_steps: "dd_run s0 ds s \<Longrightarrow> dd_step\<^sup>*\<^sup>* s0 s"
  by (induction rule: dd_run.induct) (auto simp: dd_step_def intro: rtranclp.rtrancl_into_rtrancl)

lemma dd_run_ledger:
  assumes "dd_run s0 ds s" "dd_inv s0"
  shows "dd_inv s \<and> ledger s = ledger s0 + mset ds"
  using assms
proof (induction rule: dd_run.induct)
  case (run_event ds s es s')
  then show ?case using dd_event_inv ledger_event by (auto simp: dd_inv_def)
qed simp

section \<open>Stopping ends\<close>

definition granted :: "DeferredDeleter \<Rightarrow> bool" where
  "granted s \<longleftrightarrow> (\<forall>d \<in> set (pending s). fst (deletion_apply (dd_engines s) (dd_allocations s d)))"

lemma clear_granted:
  assumes "clear_step t after s = Some s'" "granted s" "ledger_ok s" "after \<in> {Relock, Idle, Spin}"
  shows "granted s' \<and> length (dd_queue s') \<le> length (dd_queue s)"
  using clear_step_frame(1) [OF assms(1)]
proof (cases rule: clearing_cases)
  case 1
  then have s': "s' = removeFront t s" using assms(1) by simp
  show ?thesis using assms(2) 1 unfolding s' removeFront_def
    by (cases t; cases "dd_queue s") (auto simp: granted_def pending_def heldBy_def goto_def)
next
  case (2 d)
  then have s': "s' = applyHeld t d s" using assms(1) by simp
  have d: "d \<in> set (heldBy s t)" using 2 by (simp add: heldBy_def)
  then have "fst (deletion_apply (dd_engines s) (dd_allocations s d))" using assms(2) by (cases t) (auto simp: granted_def pending_def)
  then obtain a fl where ap: "deletion_apply (dd_engines s) (dd_allocations s d) = (True, a, fl)" by (metis prod.collapse)
  have "distinct (pending s)" using assms(3) by (simp add: ledger_ok_def)
  then show ?thesis using assms(2) 2 unfolding s' applyHeld_def ap
    by (cases t) (auto simp: granted_def pending_def heldBy_def goto_def)
next
  case 3
  then show ?thesis using assms(1,2,4) by (cases t) (auto simp: granted_def pending_def heldBy_def goto_def split: if_splits)
qed

text \<open>The turns that remain: of the worker before and after it is told to stop, and of the thread that stops it.\<close>

fun workingTurns :: "thread_pc \<Rightarrow> nat \<Rightarrow> nat" where
  "workingTurns Started q = 3 * q + 9"
| "workingTurns LoopTop q = (if q = 0 then 5 else 3 * q + 7)"
| "workingTurns Waiting q = 3 * q + 4"
| "workingTurns Woken q = 3 * q + 9"
| "workingTurns Take q = (if q = 0 then 8 else 3 * q + 6)"
| "workingTurns (Holding d) q = 3 * q + 8"
| "workingTurns Test q = 3 * q + 7"
| "workingTurns Relock q = (if q = 0 then 6 else 3 * q + 8)"
| "workingTurns p q = 0"

fun endingTurns :: "thread_pc \<Rightarrow> nat \<Rightarrow> nat" where
  "endingTurns Waiting q = 3 * q + 4"
| "endingTurns Woken q = 3 * q + 4"
| "endingTurns Take q = (if q = 0 then 3 else 3 * q + 1)"
| "endingTurns (Holding d) q = 3 * q + 3"
| "endingTurns Test q = 3 * q + 2"
| "endingTurns Relock q = 1"
| "endingTurns p q = 0"

fun controlTurns :: "thread_pc \<Rightarrow> nat \<Rightarrow> nat" where
  "controlTurns StopLock q = 3 * q + 8"
| "controlTurns StopTest q = 3 * q + 7"
| "controlTurns StopNotify q = 3 * q + 6"
| "controlTurns Join q = 3 * q + 5"
| "controlTurns p q = endingTurns p q"

lemma turns_mono:
  "q \<le> q' \<Longrightarrow> workingTurns p q \<le> workingTurns p q'" "q \<le> q' \<Longrightarrow> endingTurns p q \<le> endingTurns p q'"
  "q \<le> q' \<Longrightarrow> controlTurns p q \<le> controlTurns p q'"
  by (cases p; auto)+

lemma turns_le: "workingTurns p q \<le> 3 * q + 9" "endingTurns p q \<le> 3 * q + 9" "controlTurns p q \<le> 3 * q + 8" "endingTurns p q \<le> workingTurns p q"
  by (cases p; auto)+

text \<open>The thread that stops the worker spins while the worker has not started.\<close>

definition waitsForStart :: "DeferredDeleter \<Rightarrow> bool" where
  "waitsForStart s \<longleftrightarrow> dd_pc s Worker = Started \<and> dd_pc s Control \<in> {StopLock, StopTest}"

definition workerRank :: "DeferredDeleter \<Rightarrow> nat" where
  "workerRank s = (if dd_doWorkInBackground s \<or> dd_pc s Worker = Started then workingTurns else endingTurns) (dd_pc s Worker) (length (dd_queue s))"

definition controlRank :: "DeferredDeleter \<Rightarrow> nat" where
  "controlRank s = (if waitsForStart s then 3 * length (dd_queue s) + 8 else controlTurns (dd_pc s Control) (length (dd_queue s)))"

definition stopRank :: "DeferredDeleter \<Rightarrow> nat" where
  "stopRank s = workerRank s + controlRank s + 6 * dd_notifies s"

lemma stopRank_le: "stopRank s \<le> 6 * length (dd_queue s) + 17 + 6 * dd_notifies s"
  using turns_le(1,2) [of "dd_pc s Worker" "length (dd_queue s)"] turns_le(3) [of "dd_pc s Control" "length (dd_queue s)"]
  by (auto simp: stopRank_def workerRank_def controlRank_def)

lemma clear_shape:
  assumes "clear_step t after s = Some s'" "granted s"
  shows "dd_notifies s' = dd_notifies s \<and> length (dd_queue s') \<le> length (dd_queue s) \<and>
    (dd_pc s t = Take \<and> dd_queue s = [] \<and> dd_pc s' t = Test \<or>
     (\<exists>d. dd_pc s t = Take \<and> length (dd_queue s) = Suc (length (dd_queue s')) \<and> dd_pc s' t = Holding d) \<or>
     (\<exists>d. dd_pc s t = Holding d \<and> dd_pc s' t = Test) \<or>
     dd_pc s t = Test \<and> dd_queue s \<noteq> [] \<and> dd_pc s' t = Take \<or>
     dd_pc s t = Test \<and> dd_queue s = [] \<and> dd_pc s' t = after)"
  using clear_step_frame(1) [OF assms(1)]
proof (cases rule: clearing_cases)
  case 1
  then show ?thesis using assms(1) by (cases "dd_queue s") (auto simp: removeFront_def goto_def)
next
  case (2 d)
  have "d \<in> set (pending s)" using 2 by (cases t) (simp_all add: pending_def heldBy_def)
  then have "fst (deletion_apply (dd_engines s) (dd_allocations s d))" using assms(2) by (simp add: granted_def)
  then show ?thesis using assms(1) 2 by (auto simp: applyHeld_def goto_def split: prod.splits)
next
  case 3
  then show ?thesis using assms(1) by (auto simp: goto_def)
qed

lemma clear_turns:
  assumes "clear_step t after s = Some s'" "granted s"
  shows "after = Relock \<Longrightarrow> workingTurns (dd_pc s' t) (length (dd_queue s')) < workingTurns (dd_pc s t) (length (dd_queue s))"
    and "after = Relock \<or> after = Idle \<Longrightarrow> endingTurns (dd_pc s' t) (length (dd_queue s')) < endingTurns (dd_pc s t) (length (dd_queue s))"
  using clear_shape [OF assms] by (auto simp: neq_Nil_conv)

lemma controlTurns_clearing: "clearing p \<or> p = Idle \<Longrightarrow> controlTurns p q = endingTurns p q"
  by (cases p) auto

lemma moves_granted: "moves s s' \<Longrightarrow> dd_engines s' = dd_engines s \<Longrightarrow> granted s \<Longrightarrow> granted s' \<and> length (dd_queue s') \<le> length (dd_queue s)"
  by (simp add: moves_def granted_def pending_def)

lemma drainer_granted:
  assumes "drainer_step s = Some s'" "granted s" "ledger_ok s"
  shows "granted s' \<and> length (dd_queue s') \<le> length (dd_queue s) \<and> dd_pc s' Worker = dd_pc s Worker \<and> dd_pc s' Control = dd_pc s Control"
proof -
  have "granted s' \<and> length (dd_queue s') \<le> length (dd_queue s)"
    using drainer_cases [OF assms(1)]
  proof
    assume "clear_step Drainer (if dd_blocking s then Spin else Idle) s = Some s'"
    from clear_granted [OF this assms(2,3)] show ?thesis by simp
  qed (use moves_granted assms(2) in blast)
  moreover have "dd_pc s' Worker = dd_pc s Worker \<and> dd_pc s' Control = dd_pc s Control"
    using assms(1) clear_step_frame(3) [of Drainer "if dd_blocking s then Spin else Idle" s s']
    by (cases "dd_pc s Drainer") (auto simp: drainer_step_def goto_def split: if_splits)
  ultimately show ?thesis by blast
qed

lemma granted_event:
  assumes "worker_step s = Some s' \<or> control_step s = Some s' \<or> notify_step s = Some s'" "granted s" "ledger_ok s"
  shows "granted s' \<and> length (dd_queue s') \<le> length (dd_queue s)"
  using assms(1)
proof (elim disjE)
  assume "worker_step s = Some s'"
  from worker_cases [OF this] show ?thesis using clear_granted [OF _ assms(2,3)] moves_granted assms(2) by blast
next
  assume c: "control_step s = Some s'"
  have "dd_engines s' = dd_engines s"
    using c clear_step_frame(8) [of Control Idle s s'] by (cases "dd_pc s Control") (auto simp: control_step_def goto_def wake_def split: if_splits)
  then show ?thesis using control_cases [OF c] clear_granted [OF _ assms(2,3)] moves_granted assms(2) by blast
next
  assume "notify_step s = Some s'"
  then have "s' = wake (s\<lparr>dd_notifies := dd_notifies s - 1\<rparr>)" by (simp add: notify_step_def split: if_splits)
  then show ?thesis using moves_granted [OF moves_wake(1)] assms(2) by (simp add: wake_def goto_def)
qed

lemma worker_rank:
  assumes "worker_step s = Some s'" "granted s" "protocol s"
  shows "stopRank s' < stopRank s"
proof (cases "clear_step Worker Relock s = Some s'")
  case True
  note f = clear_step_frame [OF True] and c = clear_turns [OF True assms(2)] and sh = clear_shape [OF True assms(2)]
  have "dd_pc s Worker \<noteq> Started" "dd_pc s' Worker \<noteq> Started" using f(1,2) by auto
  moreover have "dd_pc s' Control = dd_pc s Control" using f(3) [of Control] by simp
  ultimately show ?thesis
    using c f(6) sh turns_mono(3) [of "length (dd_queue s')" "length (dd_queue s)" "dd_pc s Control"]
    by (simp add: stopRank_def workerRank_def controlRank_def waitsForStart_def add_less_le_mono)
next
  case False
  have "dd_queue s' = dd_queue s" "dd_notifies s' = dd_notifies s" "dd_pc s' Control = dd_pc s Control"
    using assms(1) False by (cases "dd_pc s Worker"; auto simp: worker_step_def goto_def split: if_splits)+
  moreover have "dd_pc s Worker = Started \<and> dd_pc s' Worker = LoopTop \<and> dd_doWorkInBackground s' \<and> dd_pc s Control \<noteq> StopTest \<or>
      dd_pc s Worker \<noteq> Started \<and> dd_pc s' Worker \<noteq> Started \<and> dd_doWorkInBackground s' = dd_doWorkInBackground s \<and>
      (if dd_doWorkInBackground s then workingTurns (dd_pc s' Worker) (length (dd_queue s)) < workingTurns (dd_pc s Worker) (length (dd_queue s))
       else endingTurns (dd_pc s' Worker) (length (dd_queue s)) < endingTurns (dd_pc s Worker) (length (dd_queue s)))"
    using assms(1,3) False
    by (cases "dd_pc s Worker") (auto simp: worker_step_def protocol_def goto_def split: if_splits)
  ultimately show ?thesis
    by (auto simp: stopRank_def workerRank_def controlRank_def waitsForStart_def split: if_splits)
qed

lemma control_rank:
  assumes "control_step s = Some s'" "granted s" "protocol s"
  shows "waitsForStart s \<Longrightarrow> stopRank s' = stopRank s" "\<not> waitsForStart s \<Longrightarrow> stopRank s' < stopRank s"
proof -
  show "stopRank s' = stopRank s" if "waitsForStart s"
    using that assms(1,3)
    by (auto simp: waitsForStart_def control_step_def goto_def protocol_def stopRank_def workerRank_def controlRank_def split: if_splits)
  show "stopRank s' < stopRank s" if nw: "\<not> waitsForStart s"
  proof (cases "clear_step Control Idle s = Some s'")
    case True
    note f = clear_step_frame [OF True] and c = clear_turns(2) [OF True assms(2)] and sh = clear_shape [OF True assms(2)]
    have w: "dd_pc s' Worker = dd_pc s Worker" using f(3) [of Worker] by simp
    have "controlTurns (dd_pc s' Control) (length (dd_queue s')) < controlTurns (dd_pc s Control) (length (dd_queue s))"
      using c f(1,2) controlTurns_clearing by simp
    moreover have "\<not> waitsForStart s'" using f(2) by (auto simp: waitsForStart_def)
    moreover have "workerRank s' \<le> workerRank s"
      using w f(6) sh turns_mono(1,2) by (simp add: workerRank_def)
    ultimately show ?thesis using sh nw by (simp add: stopRank_def controlRank_def)
  next
    case False
    have q: "dd_queue s' = dd_queue s" "dd_notifies s' = dd_notifies s"
      using assms(1) False by (cases "dd_pc s Control"; auto simp: control_step_def goto_def wake_def split: if_splits)+
    show ?thesis
    proof (cases "dd_pc s Control = StopTest")
      case True
      then have st: "dd_doWorkInBackground s" "dd_pc s Worker \<noteq> Started"
        using nw assms(3) by (cases "dd_pc s Worker"; auto simp: protocol_def waitsForStart_def)+
      then have "s' = goto Control StopNotify (s\<lparr>dd_doWorkInBackground := False, dd_queueMutex := None\<rparr>)"
        using assms(1) True by (simp add: control_step_def)
      then show ?thesis
        using st True turns_le(4) [of "dd_pc s Worker" "length (dd_queue s)"]
        by (auto simp: stopRank_def workerRank_def controlRank_def waitsForStart_def goto_def)
    next
      case nt: False
      then show ?thesis
        using assms(1,3) False nw q
        by (cases "dd_pc s Control"; cases "dd_pc s Worker")
          (auto simp: control_step_def protocol_def stopRank_def workerRank_def controlRank_def waitsForStart_def goto_def wake_def split: if_splits)
    qed
  qed
qed

lemma wake_notifies [simp]: "dd_notifies (wake s) = dd_notifies s"
  by (simp add: wake_def goto_def)

lemma notify_rank: "notify_step s = Some s' \<Longrightarrow> stopRank s' < stopRank s"
  by (auto simp: notify_step_def stopRank_def workerRank_def controlRank_def waitsForStart_def split: if_splits)

text \<open>The turns that bring the stop forward: every turn of the worker, a notification that arrives, and every turn of the
  stopping thread but those of its spin.\<close>

inductive useful :: "DeferredDeleter \<Rightarrow> DeferredDeleter \<Rightarrow> bool" where
  useful_worker: "worker_step s = Some s' \<Longrightarrow> useful s s'"
| useful_control: "control_step s = Some s' \<Longrightarrow> \<not> waitsForStart s \<Longrightarrow> useful s s'"
| useful_notify: "notify_step s = Some s' \<Longrightarrow> useful s s'"

text \<open>Runs of all threads while nothing new is deferred; the number counts the useful turns.\<close>

inductive stopRun :: "nat \<Rightarrow> DeferredDeleter \<Rightarrow> DeferredDeleter \<Rightarrow> bool" where
  stop_here: "stopRun 0 s s"
| stop_useful: "useful s s' \<Longrightarrow> stopRun n s' t \<Longrightarrow> stopRun (Suc n) s t"
| stop_spin: "waitsForStart s \<Longrightarrow> control_step s = Some s' \<Longrightarrow> stopRun n s' t \<Longrightarrow> stopRun n s t"
| stop_drainer: "drainer_step s = Some s' \<Longrightarrow> stopRun n s' t \<Longrightarrow> stopRun n s t"

lemma useful_rank:
  assumes "useful s s'" "dd_inv s" "granted s"
  shows "stopRank s' < stopRank s \<and> dd_inv s' \<and> granted s'"
proof -
  have i: "protocol s" "ledger_ok s" using assms(2) by (simp_all add: dd_inv_def)
  show ?thesis
    using assms(1)
  proof cases
    case useful_worker
    then show ?thesis using worker_rank assms(3) i dd_event_inv [OF run_worker] assms(2) granted_event by blast
  next
    case useful_control
    then show ?thesis using control_rank(2) assms(3) i dd_event_inv [OF run_control] assms(2) granted_event by blast
  next
    case useful_notify
    then show ?thesis using notify_rank assms(3) i dd_event_inv [OF notify] assms(2) granted_event by blast
  qed
qed

lemma drainer_rank:
  assumes "drainer_step s = Some s'" "dd_inv s" "granted s"
  shows "stopRank s' \<le> stopRank s \<and> dd_inv s' \<and> granted s'"
proof -
  have i: "protocol s" "ledger_ok s" using assms(2) by (simp_all add: dd_inv_def)
  note g = drainer_granted [OF assms(1,3) i(2)]
  have "dd_notifies s' = dd_notifies s \<and> dd_doWorkInBackground s' = dd_doWorkInBackground s"
    using assms(1) clear_step_frame(6) [of Drainer "if dd_blocking s then Spin else Idle" s s']
      clear_shape [of Drainer "if dd_blocking s then Spin else Idle" s s'] assms(3)
    by (cases "dd_pc s Drainer") (auto simp: drainer_step_def goto_def split: if_splits)
  then have "stopRank s' \<le> stopRank s"
    using g turns_mono [of "length (dd_queue s')" "length (dd_queue s)"]
    by (auto simp: stopRank_def workerRank_def controlRank_def waitsForStart_def intro: add_mono)
  then show ?thesis using g dd_event_inv [OF run_drainer [OF assms(1)] assms(2)] by blast
qed

lemma stopRun_rank:
  assumes "stopRun n s t" "dd_inv s" "granted s"
  shows "n + stopRank t \<le> stopRank s \<and> dd_inv t \<and> granted t"
  using assms
proof (induction rule: stopRun.induct)
  case (stop_useful s s' n t)
  then show ?case using useful_rank [OF stop_useful.hyps(1)] by fastforce
next
  case (stop_spin s s' n t)
  have i: "protocol s" "ledger_ok s" using stop_spin.prems(1) by (simp_all add: dd_inv_def)
  have "dd_inv s'" "granted s'" "stopRank s' = stopRank s"
    using dd_event_inv [OF run_control] granted_event control_rank(1) stop_spin.hyps(1,2) stop_spin.prems i by blast+
  then show ?case using stop_spin.IH by simp
next
  case (stop_drainer s s' n t)
  then show ?case using drainer_rank [OF stop_drainer.hyps(1)] by fastforce
qed simp

lemma worker_enabled:
  assumes "protocol s" "dd_pc s Control = Join" "dd_pc s Worker \<noteq> Exited"
  shows "\<exists>s'. worker_step s = Some s'"
proof -
  have "dd_queueMutex s = None" using assms by (cases "dd_queueMutex s"; cases "the (dd_queueMutex s)"; cases "dd_pc s Worker") (auto simp: protocol_def)
  then show ?thesis using assms by (cases "dd_pc s Worker") (auto simp: worker_step_def protocol_def)
qed

text \<open>While the stop has not returned a useful turn is possible, at the latest when the spin has given the lock back.\<close>

lemma stop_progress:
  assumes "protocol s" "dd_pc s Control \<noteq> Idle"
  shows "(\<exists>s'. useful s s') \<or> (\<exists>s1 s2. waitsForStart s \<and> control_step s = Some s1 \<and> useful s1 s2)"
proof (cases "waitsForStart s")
  case True
  then have w: "dd_pc s Worker = Started" and c: "dd_pc s Control = StopLock \<or> dd_pc s Control = StopTest" by (auto simp: waitsForStart_def)
  have m: "dd_queueMutex s = Some Control \<longleftrightarrow> dd_pc s Control = StopTest" "dd_queueMutex s \<noteq> Some Worker" "dd_queueMutex s \<noteq> Some Drainer"
    using assms(1) w by (auto simp: protocol_def)
  show ?thesis
  proof (cases "dd_pc s Control = StopTest")
    case True
    have f: "\<not> dd_doWorkInBackground s" using assms(1) w by (simp add: protocol_def)
    let ?s = "goto Control StopLock (s\<lparr>dd_queueMutex := None\<rparr>)"
    have "control_step s = Some ?s" using True f by (simp add: control_step_def)
    moreover have "worker_step ?s = Some (goto Worker LoopTop (?s\<lparr>dd_queueMutex := Some Worker, dd_doWorkInBackground := True\<rparr>))"
      using w by (simp add: worker_step_def goto_def)
    ultimately show ?thesis using \<open>waitsForStart s\<close> useful_worker by blast
  next
    case False
    then have "dd_queueMutex s = None" using m by (cases "dd_queueMutex s"; cases "the (dd_queueMutex s)") auto
    then have "\<exists>s'. worker_step s = Some s'" using w by (simp add: worker_step_def)
    then show ?thesis using useful_worker by blast
  qed
next
  case False
  have p: "controlPc (dd_pc s Control)" "dd_queueMutex s \<noteq> Some Drainer" "dd_queueMutex s = Some Control \<longleftrightarrow> dd_pc s Control = StopTest"
    "dd_queueMutex s = Some Worker \<longleftrightarrow> dd_pc s Worker = LoopTop"
    using assms(1) by (simp_all add: protocol_def)
  consider "dd_pc s Control = StopLock" | "dd_pc s Control = Join" | "dd_pc s Control \<noteq> StopLock" "dd_pc s Control \<noteq> Join" by blast
  then have "(\<exists>s'. control_step s = Some s') \<or> (\<exists>s'. worker_step s = Some s')"
  proof cases
    case 1
    show ?thesis
    proof (cases "dd_queueMutex s")
      case None
      then show ?thesis using 1 by (simp add: control_step_def)
    next
      case (Some t)
      then have "dd_pc s Worker = LoopTop" using p 1 by (cases t) auto
      then show ?thesis by (simp add: worker_step_def)
    qed
  next
    case 2
    then show ?thesis using worker_enabled [OF assms(1) 2] by (cases "dd_pc s Worker = Exited") (auto simp: control_step_def)
  next
    case 3
    then show ?thesis using p(1) assms(2) by (cases "dd_pc s Control") (auto simp: control_step_def)
  qed
  then show ?thesis using False useful_control useful_worker by blast
qed

section \<open>Properties\<close>

text \<open>Claim C24. In every state the threads reach, each deletion that was deferred is queued, in the hands of a thread, or freed, once, and nothing
  else is: none is lost and none is applied twice. The counter of elements to release is the number of those that are not freed,
  and freed memory is in use by no context; so a blocking drain that ends has seen every deletion released. A deletion is not
  deferred again while it is pending or after it was freed.\<close>

theorem deferred_deletions_exact:
  assumes "dd_run (deferredDeleter_create engines allocations) ds s"
  shows "mset ds = mset (pending s) + mset (dd_freed s) \<and> distinct (pending s @ dd_freed s) \<and>
    dd_elementsToRelease s = int (length (pending s)) \<and>
    (\<forall>d \<in> set (dd_freed s). \<not> isUsed (dd_allocations s d)) \<and>
    (dd_pc s Drainer = Spin \<longrightarrow> (drainer_step s = Some (goto Drainer Idle s) \<longleftrightarrow> pending s = []))"
proof -
  have i: "dd_inv s" and l: "ledger s = ledger (deferredDeleter_create engines allocations) + mset ds"
    using dd_run_ledger [OF assms dd_created_inv] by blast+
  have "mset ds = mset (pending s) + mset (dd_freed s)"
    using l by (simp add: ledger_def pending_def heldBy_def deferredDeleter_create_def)
  moreover have "goto Drainer Idle s \<noteq> s" if "dd_pc s Drainer = Spin"
  proof
    assume "goto Drainer Idle s = s"
    then have "dd_pc (goto Drainer Idle s) Drainer = dd_pc s Drainer" by simp
    then show False using that by (simp add: goto_def)
  qed
  then have "dd_pc s Drainer = Spin \<longrightarrow> (drainer_step s = Some (goto Drainer Idle s) \<longleftrightarrow> areElementsReleased s)"
    by (auto simp: drainer_step_def)
  ultimately show ?thesis using i by (auto simp: dd_inv_def ledger_ok_def freed_ok_def areElementsReleased_def)
qed

definition sampleDeleter :: DeferredDeleter where
  "sampleDeleter = deferredDeleter_create [\<lparr>csr_contextId = 0, csr_taskCount = 5, csr_tag = 5\<rparr>]
     (\<lambda>_. updateTaskCount 3 0 (GraphicsAllocation_ctor AT_BUFFER 0x1000 0x1000 0 4096 False))"

theorem deferred_deletions_exact_witness:
  "{#7#} = mset (pending (drain True (deferDeletion 7 sampleDeleter))) + mset (dd_freed (drain True (deferDeletion 7 sampleDeleter)))"
proof -
  have e: "dd_event sampleDeleter [7] (deferDeletion 7 sampleDeleter)"
    by (rule call_defer) (simp_all add: sampleDeleter_def deferredDeleter_create_def pending_def heldBy_def)
  have f: "dd_event (deferDeletion 7 sampleDeleter) [] (drain True (deferDeletion 7 sampleDeleter))"
    by (rule call_drain) (simp add: sampleDeleter_def deferredDeleter_create_def deferDeletion_def)
  have "dd_run sampleDeleter (([] @ [7]) @ []) (drain True (deferDeletion 7 sampleDeleter))"
    by (rule run_event [OF run_event [OF run_start e] f])
  from deferred_deletions_exact [OF this [unfolded sampleDeleter_def]] show ?thesis unfolding sampleDeleter_def by simp
qed

text \<open>Claim C23. Stopping the worker returns, provided the GPU has finished with what is pending and nothing new is deferred: however the worker, the stopping
  thread, a draining thread and the notifications still under way interleave, at most six turns for each queued deletion and each such notification and seventeen
  more bring the stop forward, from its first lock over the join to the end of its drain. As long as the stop has not returned such a turn is possible, by no
  lock and no missed notification prevented; only while the worker has not yet started does the stopping thread spin, and
  giving the lock back lets the worker start.\<close>

theorem stop_returns:
  assumes "dd_step\<^sup>*\<^sup>* (deferredDeleter_create engines allocations) s" "granted s" "stopRun n s t"
  shows "n \<le> 6 * length (dd_queue s) + 6 * dd_notifies s + 17 \<and>
    (dd_pc t Control = Idle \<or> (\<exists>t'. useful t t') \<or> (\<exists>t1 t2. waitsForStart t \<and> control_step t = Some t1 \<and> useful t1 t2))"
proof -
  have "dd_inv s" by (rule deleter.run_inv [OF assms(1) dd_created_inv])
  note r = stopRun_rank [OF assms(3) this assms(2)]
  then have "n \<le> 6 * length (dd_queue s) + 6 * dd_notifies s + 17" using stopRank_le [of s] by linarith
  moreover have "protocol t" using r by (simp add: dd_inv_def)
  ultimately show ?thesis using stop_progress by blast
qed

definition sampleStop :: DeferredDeleter where
  "sampleStop = stop (deferDeletion 7 (addClient sampleDeleter))"

lemmas deleter_eval = sampleStop_def sampleDeleter_def deferredDeleter_create_def addClient_def ensureThread_def worker_step_def goto_def
  deferDeletion_def removeClient_def stop_def control_step_def wake_def Let_def pending_def heldBy_def

lemma sampleStop_reached: "dd_step\<^sup>*\<^sup>* sampleDeleter sampleStop"
proof -
  have "dd_event sampleDeleter [] (addClient sampleDeleter)" by (rule call_addClient) (simp add: deleter_eval)
  moreover have "dd_event (addClient sampleDeleter) [7] (deferDeletion 7 (addClient sampleDeleter))"
    by (rule call_defer) (simp_all add: deleter_eval)
  moreover have "dd_event (deferDeletion 7 (addClient sampleDeleter)) [] sampleStop"
    unfolding sampleStop_def by (rule call_safeStop) (simp add: deleter_eval)
  ultimately have "dd_step sampleDeleter (addClient sampleDeleter)" "dd_step (addClient sampleDeleter) (deferDeletion 7 (addClient sampleDeleter))"
    "dd_step (deferDeletion 7 (addClient sampleDeleter)) sampleStop" by (auto simp: dd_step_def)
  then show ?thesis by (meson converse_rtranclp_into_rtranclp rtranclp.rtrancl_refl)
qed

theorem stop_returns_witness:
  "(\<exists>t'. useful sampleStop t') \<or> (\<exists>t1 t2. waitsForStart sampleStop \<and> control_step sampleStop = Some t1 \<and> useful t1 t2)"
proof -
  have "granted sampleStop"
    by (simp add: granted_def deleter_eval deletion_apply_def isUsed_def updateTaskCount_def GraphicsAllocation_ctor_def UsageInfo_init_def
        objectNotUsed_def applyEngine_def isUsedByOsContext_def getTaskCount_def releaseUsageInOsContext_def)
  moreover have "dd_pc sampleStop Control \<noteq> Idle" by (simp add: deleter_eval)
  ultimately show ?thesis
    using stop_returns [OF sampleStop_reached [unfolded sampleDeleter_def] _ stop_here] by blast
qed

text \<open>A deletion is carried out exactly when every context that uses the allocation has passed its last task; each context that has
  passed it stops counting as a user, each other one keeps the allocation and has its batched submissions flushed, in the order of the engines.\<close>

theorem deletion_apply_correct:
  assumes "usage_inv a" "\<forall>e \<in> set engines. csr_contextId e < maxOsContextCount" "distinct (map csr_contextId engines)"
    "\<forall>c. isUsedByOsContext a c \<longrightarrow> c \<in> csr_contextId ` set engines"
  shows "\<exists>a'. deletion_apply engines a =
      (\<forall>e \<in> set engines. isUsedByOsContext a (csr_contextId e) \<longrightarrow> getTaskCount a (csr_contextId e) \<le> csr_tag e, a',
       map csr_contextId (filter (\<lambda>e. isUsedByOsContext a (csr_contextId e) \<and> csr_tag e < getTaskCount a (csr_contextId e)) engines)) \<and>
    (\<forall>e \<in> set engines. isUsedByOsContext a' (csr_contextId e) \<longleftrightarrow>
       isUsedByOsContext a (csr_contextId e) \<and> csr_tag e < getTaskCount a (csr_contextId e))"
proof -
  obtain a' fl where f: "fold applyEngine engines (a, []) = (a', fl)" by (metis prod.collapse)
  note r = applyEngines [OF assms(1-3) f]
  have nd: "csr_tag e < getTaskCount a (csr_contextId e) \<longleftrightarrow> \<not> engine_done a e" for e by (simp add: engine_done_def not_le)
  have inj: "e = e'" if "e \<in> set engines" "e' \<in> set engines" "csr_contextId e = csr_contextId e'" for e e'
    using that assms(3) by (auto simp: distinct_map inj_on_def)
  have after: "csr_contextId e \<in> users a' \<longleftrightarrow> csr_contextId e \<in> users a \<and> \<not> engine_done a e" if "e \<in> set engines" for e
    using r inj [OF that] that by auto
  have ok: "\<not> isUsed a' \<longleftrightarrow> (\<forall>e \<in> set engines. csr_contextId e \<in> users a \<longrightarrow> engine_done a e)"
  proof -
    have "users a' \<subseteq> csr_contextId ` set engines" using r assms(4) by (auto simp: isUsedByOsContext_users)
    then have "users a' = {} \<longleftrightarrow> (\<forall>e \<in> set engines. csr_contextId e \<notin> users a')" by auto
    then show ?thesis using after isUsed_users [of a'] r by auto
  qed
  show ?thesis
  proof (cases "isUsed a")
    case True
    then have "deletion_apply engines a = (\<not> isUsed a', a', fl)" by (simp add: deletion_apply_def f)
    then show ?thesis using r after ok by (auto simp: isUsedByOsContext_users nd engine_done_def [symmetric])
  next
    case False
    then have "users a = {}" "deletion_apply engines a = (True, a, [])" using isUsed_users [OF assms(1)] by (simp_all add: deletion_apply_def)
    then show ?thesis by (simp add: isUsedByOsContext_users)
  qed
qed

theorem deletion_apply_correct_witness:
  "\<exists>a'. deletion_apply [\<lparr>csr_contextId = 0, csr_taskCount = 5, csr_tag = 2\<rparr>]
      (updateTaskCount 3 0 (GraphicsAllocation_ctor AT_BUFFER 0x1000 0x1000 0 4096 False)) = (False, a', [0])"
proof -
  let ?a = "updateTaskCount 3 0 (GraphicsAllocation_ctor AT_BUFFER 0x1000 0x1000 0 4096 False)"
  have u: "usage_inv ?a" by (intro updateTaskCount_inv usage_inv_ctor) (simp add: maxOsContextCount_def)
  have t: "getTaskCount ?a c = (if c = 0 then 3 else objectNotUsed)" for c
    by (simp add: getTaskCount_def updateTaskCount_def GraphicsAllocation_ctor_def UsageInfo_init_def Let_def)
  let ?e = "[\<lparr>csr_contextId = 0, csr_taskCount = 5, csr_tag = 2\<rparr>]"
  have c: "\<forall>c. isUsedByOsContext ?a c \<longrightarrow> c \<in> csr_contextId ` set ?e" by (simp add: isUsedByOsContext_def t del: getTaskCount_update)
  have h: "\<forall>e \<in> set ?e. csr_contextId e < maxOsContextCount" "distinct (map csr_contextId ?e)" by (simp_all add: maxOsContextCount_def)
  have v: "isUsedByOsContext ?a 0" "getTaskCount ?a 0 = 3" by (simp_all add: isUsedByOsContext_def t objectNotUsed_def)
  show ?thesis
    using deletion_apply_correct [OF u h c] by (simp add: v del: getTaskCount_update) blast
qed

end
