(* ===== verification/Mapped_Memory.thy ===== *)
theory Mapped_Memory
  imports Aligned_Memory Machine_Refinement "HOL-Library.Multiset"
begin

text \<open>
  Bookkeeping of memory the application sees: the manager of shared virtual memory
  (\<^verbatim>\<open>memory_manager/svm_memory_manager.cpp\<close>), the handler of mapped pointers of a memory object
  (\<^verbatim>\<open>mem_obj/map_operations_handler.cpp\<close>) and the mapper of pages into the global address space of the simulated GPU
  (\<^verbatim>\<open>memory_manager/address_mapper.cpp\<close>). Addresses are natural numbers below 2 to the 64. The
  memory manager the first one calls is a parameter: the allocation it returns is an argument.
\<close>

section \<open>Shared virtual memory\<close>

record SvmAllocation =
  sa_buffer :: nat
  sa_bufferSize :: nat
  sa_writable :: bool
  sa_coherent :: bool

record SVMAllocsManager =
  svm_allocs :: "(nat \<times> nat) list"
  svm_allocations :: "nat \<Rightarrow> SvmAllocation"
  svm_freed :: "nat list"

text \<open>The map from addresses to allocations, sorted by key; an iterator is a position, the length is the end.\<close>

definition keyPosition :: "nat \<Rightarrow> (nat \<times> nat) list \<Rightarrow> nat" where
  "keyPosition ptr m = length (takeWhile (\<lambda>e. fst e < ptr) m)"

definition tracker_insert :: "nat \<Rightarrow> nat \<Rightarrow> (nat \<times> nat) list \<Rightarrow> (nat \<times> nat) list" where
  "tracker_insert ptr ga m =
     (let i = keyPosition ptr m
      in if i < length m \<and> fst (m ! i) = ptr then m else take i m @ (ptr, ga) # drop i m)"

text \<open>Erasing at the end is undefined in the source.\<close>

definition tracker_remove :: "nat \<Rightarrow> (nat \<times> nat) list \<Rightarrow> (nat \<times> nat) list rt_result" where
  "tracker_remove ptr m =
     (let i = keyPosition ptr m
      in if i < length m \<and> fst (m ! i) = ptr then Inr (take i m @ drop (Suc i) m) else Inl OutOfBounds)"

definition tracker_get :: "nat \<Rightarrow> SVMAllocsManager \<Rightarrow> nat option" where
  "tracker_get ptr s =
     (let m = svm_allocs s; lb = keyPosition ptr m;
          i = (if lb \<noteq> length m \<and> fst (m ! lb) \<noteq> ptr \<or> lb = length m then if lb = 0 then length m else lb - 1 else lb)
      in if ptr = 0 then None
         else if i \<noteq> length m
         then let ga = snd (m ! i)
              in if ptr < wrap64 (sa_buffer (svm_allocations s ga) + sa_bufferSize (svm_allocations s ga)) then Some ga else None
         else None)"

text \<open>The allocation the memory manager returns: an object with its buffer and size, or none.\<close>

definition createSVMAlloc :: "nat \<Rightarrow> bool \<Rightarrow> bool \<Rightarrow> (nat \<times> nat \<times> nat) option \<Rightarrow> SVMAllocsManager \<Rightarrow> nat \<times> SVMAllocsManager" where
  "createSVMAlloc sz coherent readOnly answer s =
     (if sz = 0 then (0, s)
      else case answer of
        None \<Rightarrow> (0, s)
      | Some (ga, buffer, bufferSize) \<Rightarrow>
          (buffer, s\<lparr>svm_allocations := (svm_allocations s)(ga := \<lparr>sa_buffer = buffer, sa_bufferSize = bufferSize,
                       sa_writable = \<not> readOnly, sa_coherent = coherent\<rparr>),
                     svm_allocs := tracker_insert buffer ga (svm_allocs s)\<rparr>))"

definition getSVMAlloc :: "nat \<Rightarrow> SVMAllocsManager \<Rightarrow> nat option" where
  "getSVMAlloc ptr s = tracker_get ptr s"

text \<open>The second half of a release, for the allocation the first half found. The lock is free in between.\<close>

definition releaseSVMAlloc :: "nat \<Rightarrow> SVMAllocsManager \<Rightarrow> SVMAllocsManager rt_result" where
  "releaseSVMAlloc ga s =
     rt_bind (tracker_remove (sa_buffer (svm_allocations s ga)) (svm_allocs s)) (\<lambda>m.
     Inr (s\<lparr>svm_allocs := m, svm_freed := svm_freed s @ [ga]\<rparr>))"

definition freeSVMAlloc :: "nat \<Rightarrow> SVMAllocsManager \<Rightarrow> SVMAllocsManager rt_result" where
  "freeSVMAlloc ptr s = (case getSVMAlloc ptr s of None \<Rightarrow> Inr s | Some ga \<Rightarrow> releaseSVMAlloc ga s)"

definition getNumAllocs :: "SVMAllocsManager \<Rightarrow> nat" where
  "getNumAllocs s = length (svm_allocs s)"

definition memFlagIsReadOnly :: "u64 \<Rightarrow> bool" where
  "memFlagIsReadOnly flags \<longleftrightarrow> and flags (or 4 (or 256 512)) \<noteq> 0"

definition svm_create :: "(nat \<Rightarrow> SvmAllocation) \<Rightarrow> SVMAllocsManager" where
  "svm_create allocations = \<lparr>svm_allocs = [], svm_allocations = allocations, svm_freed = []\<rparr>"

section \<open>Mapped pointers\<close>

record MapInfo =
  mi_ptr :: nat
  mi_ptrLength :: nat
  mi_size :: "nat list"
  mi_offset :: "nat list"
  mi_readOnly :: bool
  mi_mipLevel :: nat

definition CL_MAP_READ :: nat where "CL_MAP_READ = 1"

definition isOverlapping :: "MapInfo \<Rightarrow> MapInfo list \<Rightarrow> bool" where
  "isOverlapping inputMapInfo mappedPointers \<longleftrightarrow>
     \<not> mi_readOnly inputMapInfo \<and>
     list_ex (\<lambda>m. mi_ptr inputMapInfo < wrap64 (mi_ptr m + mi_ptrLength m) \<and>
                  mi_ptr m \<le> wrap64 (mi_ptr inputMapInfo + mi_ptrLength inputMapInfo)) mappedPointers"

definition map_add :: "nat \<Rightarrow> nat \<Rightarrow> nat \<Rightarrow> nat list \<Rightarrow> nat list \<Rightarrow> nat \<Rightarrow> MapInfo list \<Rightarrow> bool \<times> MapInfo list" where
  "map_add ptr ptrLength mapFlags sz offset mipLevel mappedPointers =
     (let mapInfo = \<lparr>mi_ptr = ptr, mi_ptrLength = ptrLength, mi_size = sz, mi_offset = offset,
                     mi_readOnly = (mapFlags = CL_MAP_READ), mi_mipLevel = mipLevel\<rparr>
      in if isOverlapping mapInfo mappedPointers then (False, mappedPointers) else (True, mappedPointers @ [mapInfo]))"

fun map_find :: "nat \<Rightarrow> MapInfo list \<Rightarrow> MapInfo option" where
  "map_find mappedPtr [] = None"
| "map_find mappedPtr (m # ms) = (if mi_ptr m = mappedPtr then Some m else map_find mappedPtr ms)"

text \<open>The match changes places with the last entry, which is then dropped.\<close>

definition map_remove :: "nat \<Rightarrow> MapInfo list \<Rightarrow> MapInfo list" where
  "map_remove mappedPtr ms =
     (let i = length (takeWhile (\<lambda>m. mi_ptr m \<noteq> mappedPtr) ms)
      in if i < length ms then butlast (ms[i := last ms, length ms - 1 := ms ! i]) else ms)"

section \<open>Pages in the global address space\<close>

record PageMapping =
  pm_vm :: u64
  pm_size :: u64
  pm_ggtt :: nat

record AddressMapper =
  am_mapping :: "PageMapping list"
  am_nextPage :: nat

definition addressMapper_create :: AddressMapper where
  "addressMapper_create = \<lparr>am_mapping = [], am_nextPage = 1\<rparr>"

definition mapper_map :: "u64 \<Rightarrow> u64 \<Rightarrow> AddressMapper \<Rightarrow> nat \<times> AddressMapper" where
  "mapper_map vm sz s =
     (let aligned = alignDown vm pageSize; alignedSize = alignSizeWholePage vm sz;
          i = length (takeWhile (\<lambda>m. pm_vm m \<noteq> aligned) (am_mapping s))
      in if i < length (am_mapping s) \<and> pm_size (am_mapping s ! i) = alignedSize then (pm_ggtt (am_mapping s ! i), s)
         else let mapping = (if i < length (am_mapping s) then take i (am_mapping s) @ drop (Suc i) (am_mapping s) else am_mapping s);
                  numPages = wrap32 (unat alignedSize div 4096);
                  tmp = am_nextPage s;
                  m = \<lparr>pm_vm = aligned, pm_size = alignedSize, pm_ggtt = wrap32 (tmp * 4096)\<rparr>
              in (pm_ggtt m, s\<lparr>am_nextPage := wrap32 (tmp + numPages), am_mapping := mapping @ [m]\<rparr>))"

definition mapper_unmap :: "u64 \<Rightarrow> AddressMapper \<Rightarrow> AddressMapper" where
  "mapper_unmap vm s =
     (let aligned = alignDown vm pageSize;
          i = length (takeWhile (\<lambda>m. pm_vm m \<noteq> aligned) (am_mapping s))
      in if i < length (am_mapping s) then s\<lparr>am_mapping := take i (am_mapping s) @ drop (Suc i) (am_mapping s)\<rparr> else s)"


section \<open>The tracker is a map from ranges\<close>

definition covers :: "SVMAllocsManager \<Rightarrow> nat \<Rightarrow> nat \<Rightarrow> bool" where
  "covers s ga p \<longleftrightarrow> sa_buffer (svm_allocations s ga) \<le> p \<and> p < sa_buffer (svm_allocations s ga) + sa_bufferSize (svm_allocations s ga)"

definition svm_live :: "SVMAllocsManager \<Rightarrow> nat set" where
  "svm_live s = snd ` set (svm_allocs s)"

definition svm_inv :: "SVMAllocsManager \<Rightarrow> bool" where
  "svm_inv s \<longleftrightarrow> sorted_wrt (\<lambda>x y. fst x < fst y) (svm_allocs s) \<and>
     (\<forall>x \<in> set (svm_allocs s). sa_buffer (svm_allocations s (snd x)) = fst x \<and> 0 < fst x \<and> 0 < sa_bufferSize (svm_allocations s (snd x)) \<and>
        fst x + sa_bufferSize (svm_allocations s (snd x)) < 18446744073709551616) \<and>
     (\<forall>ga \<in> svm_live s. \<forall>ga' \<in> svm_live s. \<forall>p. covers s ga p \<and> covers s ga' p \<longrightarrow> ga = ga')"

lemma key_split:
  assumes "sorted_wrt (\<lambda>x y. fst x < fst y) m"
  obtains A B where "m = A @ B" "keyPosition p m = length A" "\<forall>x \<in> set A. fst x < p" "\<forall>x \<in> set B. p \<le> fst x"
    "\<forall>x \<in> set B. x = hd B \<or> p < fst x"
proof -
  let ?A = "takeWhile (\<lambda>e. fst e < p) m" and ?B = "dropWhile (\<lambda>e. fst e < p) m"
  have m: "m = ?A @ ?B" by simp
  have sB: "sorted_wrt (\<lambda>x y. fst x < fst y) ?B" using assms m sorted_wrt_append by metis
  have "p \<le> fst x \<and> (x = hd ?B \<or> p < fst x)" if "x \<in> set ?B" for x
  proof (cases ?B)
    case (Cons b B)
    then have "p \<le> fst b" using hd_dropWhile [of "\<lambda>e. fst e < p" m] by auto
    then show ?thesis using that sB Cons by auto
  next
    case Nil
    then show ?thesis using that by (metis empty_iff list.set(1))
  qed
  then show ?thesis by (intro that [OF m]) (auto simp: keyPosition_def dest: set_takeWhileD)
qed

lemma tracker_get_some:
  assumes "svm_inv s" "p < 18446744073709551616"
  shows "tracker_get p s = Some ga \<longleftrightarrow> ga \<in> svm_live s \<and> covers s ga p"
proof -
  let ?m = "svm_allocs s"
  have srt: "sorted_wrt (\<lambda>x y. fst x < fst y) ?m" using assms(1) by (simp add: svm_inv_def)
  obtain A B where AB: "?m = A @ B" "keyPosition p ?m = length A" "\<forall>x \<in> set A. fst x < p" "\<forall>x \<in> set B. p \<le> fst x"
    "\<forall>x \<in> set B. x = hd B \<or> p < fst x" by (rule key_split [OF srt])
  have e: "sa_buffer (svm_allocations s (snd x)) = fst x \<and> 0 < fst x \<and> 0 < sa_bufferSize (svm_allocations s (snd x)) \<and>
      fst x + sa_bufferSize (svm_allocations s (snd x)) < 18446744073709551616" if "x \<in> set ?m" for x
    using assms(1) that unfolding svm_inv_def by blast
  have uniq: "x = y" if "x \<in> set ?m" "y \<in> set ?m" "covers s (snd x) q" "covers s (snd y) q" for x y q
  proof -
    have "snd x = snd y" using assms(1) that unfolding svm_inv_def svm_live_def by blast
    then show ?thesis using e [OF that(1)] e [OF that(2)] by (simp add: prod_eq_iff)
  qed
  have cov: "covers s (snd x) p \<longleftrightarrow> fst x \<le> p \<and> p < wrap64 (sa_buffer (svm_allocations s (snd x)) + sa_bufferSize (svm_allocations s (snd x)))"
    if "x \<in> set ?m" for x using e [OF that] by (simp add: covers_def)
  show ?thesis
  proof (cases "B \<noteq> [] \<and> fst (hd B) = p")
    case True
    then have b: "hd B \<in> set ?m" "?m ! length A = hd B" "length A < length ?m" using AB(1) by (auto simp: nth_append hd_conv_nth)
    then have c: "covers s (snd (hd B)) p" using True e [OF b(1)] by (simp add: covers_def)
    have "0 < p" using True e [OF b(1)] by simp
    then have "tracker_get p s = Some (snd (hd B))" using b c cov [OF b(1)] AB(2) True by (simp add: tracker_get_def Let_def)
    moreover have "ga = snd (hd B)" if "ga \<in> svm_live s" "covers s ga p" using that uniq [OF b(1) _ c] by (auto simp: svm_live_def)
    moreover have "snd (hd B) \<in> svm_live s" using b(1) by (simp add: svm_live_def)
    ultimately show ?thesis using c by auto
  next
    case False
    then have big: "\<forall>x \<in> set B. p < fst x" using AB(4,5) by (metis list.set_sel(1) le_neq_implies_less length_pos_if_in_set length_greater_0_conv)
    then have notB: "\<not> covers s (snd x) p" if "x \<in> set B" for x using that cov [of x] AB(1) by auto
    have step: "(length A \<noteq> length ?m \<and> fst (?m ! length A) \<noteq> p \<or> length A = length ?m)"
      using False AB(1) by (cases B) (auto simp: nth_append)
    show ?thesis
    proof (cases "A = []")
      case True
      then have "tracker_get p s = None" using step AB(2) by (simp add: tracker_get_def Let_def)
      then show ?thesis using notB AB(1) True by (auto simp: svm_live_def)
    next
      case ne: False
      then have "0 < length A" by simp
      then have l: "length A - 1 < length ?m" unfolding AB(1) length_append by linarith
      have l: "?m ! (length A - 1) = last A" "length A - 1 < length ?m" "last A \<in> set ?m"
        using AB(1) ne l \<open>0 < length A\<close> by (simp_all add: nth_append last_conv_nth)
      have "0 < p" using AB(3) ne last_in_set by fastforce
      then have g: "tracker_get p s = (if covers s (snd (last A)) p then Some (snd (last A)) else None)"
        using step AB(2) l ne cov [OF l(3)] bspec [OF AB(3) last_in_set [OF ne]] by (auto simp: tracker_get_def Let_def)
      have only: "x = last A" if "x \<in> set A" "covers s (snd x) p" for x
      proof (rule ccontr)
        assume n: "x \<noteq> last A"
        have "sorted_wrt (\<lambda>x y. fst x < fst y) (butlast A @ [last A])" using srt AB(1) ne by (simp add: sorted_wrt_append)
        moreover have "x \<in> set (butlast A)" using n that(1) ne by (metis append_butlast_last_id in_set_conv_decomp rotate1.simps(2) set_ConsD set_rotate1)
        ultimately have "fst x < fst (last A)" by (simp add: sorted_wrt_append)
        then have "covers s (snd x) (fst (last A))" using that e [of x] AB(1,3) last_in_set [OF ne] by (auto simp: covers_def)
        moreover have "covers s (snd (last A)) (fst (last A))" using e [OF l(3)] by (simp add: covers_def)
        ultimately show False using uniq [of x "last A"] that(1) n l(3) AB(1) by auto
      qed
      have "ga = snd (last A)" if live: "ga \<in> svm_live s" and c: "covers s ga p"
      proof -
        obtain x where x: "x \<in> set ?m" "ga = snd x" using live by (auto simp: svm_live_def)
        then have "x \<in> set A" using notB [of x] c x AB(1) by auto
        then show ?thesis using only x(2) c by simp
      qed
      moreover have "snd (last A) \<in> svm_live s" using l(3) by (simp add: svm_live_def)
      ultimately show ?thesis unfolding g by (cases "covers s (snd (last A)) p") auto
    qed
  qed
qed


lemma tracker_insert_ok:
  assumes "sorted_wrt (\<lambda>x y. fst x < fst y) m" "\<forall>x \<in> set m. fst x \<noteq> p"
  shows "sorted_wrt (\<lambda>x y. fst x < fst y) (tracker_insert p ga m)" "set (tracker_insert p ga m) = insert (p, ga) (set m)"
    "length (tracker_insert p ga m) = length m + 1"
proof -
  obtain A B where AB: "m = A @ B" "keyPosition p m = length A" "\<forall>x \<in> set A. fst x < p" "\<forall>x \<in> set B. p \<le> fst x" by (rule key_split [OF assms(1)])
  have i: "tracker_insert p ga m = A @ (p, ga) # B" using AB(1,2) assms(2) by (cases B) (auto simp: tracker_insert_def Let_def nth_append)
  have "\<forall>x \<in> set B. p < fst x" using AB(1,4) assms(2) by (force simp: le_less)
  then show "sorted_wrt (\<lambda>x y. fst x < fst y) (tracker_insert p ga m)" "set (tracker_insert p ga m) = insert (p, ga) (set m)"
    "length (tracker_insert p ga m) = length m + 1"
    unfolding i using assms(1) AB(1,3) by (auto simp: sorted_wrt_append)
qed

lemma tracker_remove_ok:
  assumes "sorted_wrt (\<lambda>x y. fst x < fst y) m" "(p, ga) \<in> set m"
  obtains m' where "tracker_remove p m = Inr m'" "sorted_wrt (\<lambda>x y. fst x < fst y) m'" "set m' = set m - {(p, ga)}" "length m' + 1 = length m"
proof -
  obtain A B where AB: "m = A @ B" "keyPosition p m = length A" "\<forall>x \<in> set A. fst x < p" "\<forall>x \<in> set B. p \<le> fst x" "\<forall>x \<in> set B. x = hd B \<or> p < fst x"
    by (rule key_split [OF assms(1)])
  have "(p, ga) \<in> set B" using assms(2) AB(1,3) by fastforce
  then obtain B' where B: "B = (p, ga) # B'" using AB(5) by (cases B) fastforce+
  have "tracker_remove p m = Inr (A @ B')" using AB(1,2) B by (simp add: tracker_remove_def Let_def)
  moreover have "sorted_wrt (\<lambda>x y. fst x < fst y) (A @ B')" using assms(1) AB(1) B by (simp add: sorted_wrt_append)
  moreover have "set (A @ B') = set m - {(p, ga)}" using assms(1) AB(1,3) B by (auto simp: sorted_wrt_append)
  moreover have "length (A @ B') + 1 = length m" using AB(1) B by simp
  ultimately show ?thesis by (rule that)
qed

lemma live_key: "svm_inv s \<Longrightarrow> ga \<in> svm_live s \<Longrightarrow> (sa_buffer (svm_allocations s ga), ga) \<in> set (svm_allocs s)"
  unfolding svm_inv_def svm_live_def by fastforce

lemma image_snd_remove: "(\<And>x. x \<in> S \<Longrightarrow> snd x = g \<Longrightarrow> x = (k, g)) \<Longrightarrow> snd ` (S - {(k, g)}) = snd ` S - {g}"
  by force

lemma release_ok:
  assumes "svm_inv s" "ga \<in> svm_live s"
  obtains s' where "releaseSVMAlloc ga s = Inr s'" "svm_inv s'" "svm_live s' = svm_live s - {ga}" "svm_allocations s' = svm_allocations s"
    "svm_freed s' = svm_freed s @ [ga]" "getNumAllocs s' + 1 = getNumAllocs s"
proof -
  let ?k = "sa_buffer (svm_allocations s ga)"
  have srt: "sorted_wrt (\<lambda>x y. fst x < fst y) (svm_allocs s)" using assms(1) by (simp add: svm_inv_def)
  obtain m' where m': "tracker_remove ?k (svm_allocs s) = Inr m'" "sorted_wrt (\<lambda>x y. fst x < fst y) m'" "set m' = set (svm_allocs s) - {(?k, ga)}"
    "length m' + 1 = length (svm_allocs s)" by (rule tracker_remove_ok [OF srt live_key [OF assms]])
  let ?s = "s\<lparr>svm_allocs := m', svm_freed := svm_freed s @ [ga]\<rparr>"
  have "fst x = ?k" if "x \<in> set (svm_allocs s)" "snd x = ga" for x using assms(1) that unfolding svm_inv_def by auto
  then have "x = (?k, ga)" if "x \<in> set (svm_allocs s)" "snd x = ga" for x using that by (simp add: prod_eq_iff)
  from image_snd_remove [of "set (svm_allocs s)", OF this] have live: "svm_live ?s = svm_live s - {ga}" by (simp add: svm_live_def m'(3))
  have "covers ?s = covers s" by (simp add: covers_def fun_eq_iff)
  moreover have "svm_allocs ?s = m'" "svm_allocations ?s = svm_allocations s" "\<forall>x \<in> set m'. x \<in> set (svm_allocs s)" using m'(3) by auto
  ultimately have "svm_inv ?s" using assms(1) m'(2) live unfolding svm_inv_def by (metis Diff_iff)
  then show ?thesis using m'(1,4) live by (intro that [of ?s]) (simp_all add: releaseSVMAlloc_def getNumAllocs_def)
qed

text \<open>What the memory manager promises of an allocation it returns: memory of its own.\<close>

definition fresh_block :: "SVMAllocsManager \<Rightarrow> nat \<Rightarrow> nat \<Rightarrow> nat \<Rightarrow> bool" where
  "fresh_block s ga buffer bufferSize \<longleftrightarrow> ga \<notin> svm_live s \<and> 0 < buffer \<and> 0 < bufferSize \<and> buffer + bufferSize < 18446744073709551616 \<and>
     (\<forall>ga' \<in> svm_live s. buffer + bufferSize \<le> sa_buffer (svm_allocations s ga') \<or>
        sa_buffer (svm_allocations s ga') + sa_bufferSize (svm_allocations s ga') \<le> buffer)"

lemma create_ok:
  fixes coherent readOnly :: bool
  assumes "svm_inv s" "fresh_block s ga buffer bufferSize" "sz \<noteq> 0"
  defines "r \<equiv> createSVMAlloc sz coherent readOnly (Some (ga, buffer, bufferSize)) s"
  shows "svm_inv (snd r)" "fst r = buffer" "svm_live (snd r) = insert ga (svm_live s)" "getNumAllocs (snd r) = getNumAllocs s + 1"
proof -
  let ?s = "snd r" and ?m = "svm_allocs s"
  have r: "r = (buffer, s\<lparr>svm_allocations := (svm_allocations s)(ga := \<lparr>sa_buffer = buffer, sa_bufferSize = bufferSize, sa_writable = \<not> readOnly,
      sa_coherent = coherent\<rparr>), svm_allocs := tracker_insert buffer ga ?m\<rparr>)" using assms(3) by (simp add: r_def createSVMAlloc_def)
  have e: "sa_buffer (svm_allocations s (snd x)) = fst x \<and> 0 < sa_bufferSize (svm_allocations s (snd x))" if "x \<in> set ?m" for x
    using assms(1) that unfolding svm_inv_def by blast
  have out: "snd x \<noteq> ga" "fst x \<noteq> buffer" if "x \<in> set ?m" for x
    using assms(2) e [OF that] that by (fastforce simp: fresh_block_def svm_live_def)+
  have srt: "sorted_wrt (\<lambda>x y. fst x < fst y) ?m" using assms(1) by (simp add: svm_inv_def)
  note ins = tracker_insert_ok [OF srt, of buffer ga]
  show "fst r = buffer" "svm_live ?s = insert ga (svm_live s)" "getNumAllocs ?s = getNumAllocs s + 1"
    using ins(2,3) out(2) by (simp_all add: r svm_live_def getNumAllocs_def)
  have same: "covers ?s g = covers s g" if "g \<noteq> ga" for g using that by (simp add: r covers_def fun_eq_iff)
  have new: "covers ?s ga p \<longleftrightarrow> buffer \<le> p \<and> p < buffer + bufferSize" for p by (simp add: r covers_def)
  have sep: "\<not> (covers ?s ga p \<and> covers s g p)" if "g \<in> svm_live s" for g p
  proof -
    have "buffer + bufferSize \<le> sa_buffer (svm_allocations s g) \<or> sa_buffer (svm_allocations s g) + sa_bufferSize (svm_allocations s g) \<le> buffer"
      using assms(2) that by (simp add: fresh_block_def)
    then show ?thesis unfolding new by (auto simp: covers_def)
  qed
  have "ga \<notin> svm_live s" using assms(2) by (simp add: fresh_block_def)
  then have "g = g'" if "g \<in> svm_live ?s" "g' \<in> svm_live ?s" "covers ?s g p" "covers ?s g' p" for g g' p
    using that sep same \<open>svm_live ?s = insert ga (svm_live s)\<close> assms(1) unfolding svm_inv_def by (metis insertE)
  moreover have "\<forall>x \<in> set (svm_allocs ?s). sa_buffer (svm_allocations ?s (snd x)) = fst x \<and> 0 < fst x \<and>
      0 < sa_bufferSize (svm_allocations ?s (snd x)) \<and> fst x + sa_bufferSize (svm_allocations ?s (snd x)) < 18446744073709551616"
    using ins(2) out assms(1,2) unfolding svm_inv_def fresh_block_def by (auto simp: r)
  moreover have "sorted_wrt (\<lambda>x y. fst x < fst y) (svm_allocs ?s)" using ins(1) out(2) by (simp add: r)
  ultimately show "svm_inv ?s" unfolding svm_inv_def by blast
qed


inductive svm_step :: "SVMAllocsManager \<Rightarrow> SVMAllocsManager \<Rightarrow> bool" where
  svm_created: "fresh_block s ga buffer bufferSize \<Longrightarrow>
    svm_step s (snd (createSVMAlloc sz coherent readOnly (Some (ga, buffer, bufferSize)) s))"
| svm_failed: "svm_step s (snd (createSVMAlloc sz coherent readOnly None s))"
| svm_freed: "freeSVMAlloc ptr s = Inr s' \<Longrightarrow> ptr < 18446744073709551616 \<Longrightarrow> svm_step s s'"

lemma free_ok:
  assumes "svm_inv s" "ptr < 18446744073709551616"
  obtains s' where "freeSVMAlloc ptr s = Inr s'" "svm_inv s'" "svm_live s' = {ga \<in> svm_live s. \<not> covers s ga ptr}"
    "svm_allocations s' = svm_allocations s"
proof (cases "getSVMAlloc ptr s")
  case None
  then have "{ga \<in> svm_live s. \<not> covers s ga ptr} = svm_live s"
    using tracker_get_some [OF assms] by (auto simp: getSVMAlloc_def)
  then show ?thesis using None assms(1) by (intro that [of s]) (simp_all add: freeSVMAlloc_def)
next
  case (Some ga)
  then have ga: "ga \<in> svm_live s" "covers s ga ptr" using tracker_get_some [OF assms] by (simp_all add: getSVMAlloc_def)
  obtain s' where s': "releaseSVMAlloc ga s = Inr s'" "svm_inv s'" "svm_live s' = svm_live s - {ga}" "svm_allocations s' = svm_allocations s"
    by (rule release_ok [OF assms(1) ga(1)])
  have "{g \<in> svm_live s. \<not> covers s g ptr} = svm_live s - {ga}" using ga assms(1) unfolding svm_inv_def by blast
  then show ?thesis using Some s' by (intro that [of s']) (simp_all add: freeSVMAlloc_def)
qed

lemma svm_step_inv: "svm_step s s' \<Longrightarrow> svm_inv s \<Longrightarrow> svm_inv s'"
proof (induction rule: svm_step.induct)
  case (svm_created s ga buffer bufferSize sz coherent readOnly)
  then show ?case using create_ok(1) [of s ga buffer bufferSize sz coherent readOnly] by (cases "sz = 0") (simp_all add: createSVMAlloc_def)
next
  case (svm_failed s sz coherent readOnly)
  then show ?case by (simp add: createSVMAlloc_def)
next
  case (svm_freed ptr s s')
  then show ?case using free_ok [of s ptr] by auto
qed

interpretation svm: step_invariant svm_step svm_inv
  by unfold_locales (rule svm_step_inv)

lemma svm_inv_created: "svm_inv (svm_create allocations)"
  by (simp add: svm_inv_def svm_create_def svm_live_def)

text \<open>Claim C31. In every state reached by creating and releasing shared virtual memory, with a memory manager that hands out memory of its own, the lookup of an
  address finds exactly the live allocation whose range holds it, and a release of any address returns and takes out exactly
  the allocation that holds it.\<close>

theorem svm_lookup_exact:
  assumes "svm_step\<^sup>*\<^sup>* (svm_create allocations) s" "ptr < 18446744073709551616"
  shows "(getSVMAlloc ptr s = Some ga \<longleftrightarrow> ga \<in> svm_live s \<and> sa_buffer (svm_allocations s ga) \<le> ptr \<and>
       ptr < sa_buffer (svm_allocations s ga) + sa_bufferSize (svm_allocations s ga)) \<and>
    (\<exists>s'. freeSVMAlloc ptr s = Inr s' \<and> svm_live s' = svm_live s - set_option (getSVMAlloc ptr s) \<and> getSVMAlloc ptr s' = None)"
proof -
  have i: "svm_inv s" by (rule svm.run_inv [OF assms(1) svm_inv_created])
  note g = tracker_get_some [OF i assms(2), folded getSVMAlloc_def]
  obtain s' where s': "freeSVMAlloc ptr s = Inr s'" "svm_inv s'" "svm_live s' = {ga \<in> svm_live s. \<not> covers s ga ptr}" "svm_allocations s' = svm_allocations s"
    by (rule free_ok [OF i assms(2)])
  have "getSVMAlloc ptr s' \<noteq> Some g'" for g'
    using tracker_get_some [OF s'(2) assms(2), of g'] s'(3,4) by (auto simp: getSVMAlloc_def covers_def)
  then have "getSVMAlloc ptr s' = None" by (cases "getSVMAlloc ptr s'") auto
  moreover have "x \<in> set_option (getSVMAlloc ptr s) \<longleftrightarrow> x \<in> svm_live s \<and> covers s x ptr" for x using g [of x] by (simp add: elem_set)
  then have "{g \<in> svm_live s. \<not> covers s g ptr} = svm_live s - set_option (getSVMAlloc ptr s)" by blast
  ultimately show ?thesis using g s' by (auto simp: covers_def)
qed

definition sampleSvm :: SVMAllocsManager where
  "sampleSvm = snd (createSVMAlloc 100 False False (Some (7, 4096, 4096)) (svm_create (\<lambda>_. \<lparr>sa_buffer = 0, sa_bufferSize = 0, sa_writable = False, sa_coherent = False\<rparr>)))"

lemma sampleSvm_step: "svm_step (svm_create (\<lambda>_. \<lparr>sa_buffer = 0, sa_bufferSize = 0, sa_writable = False, sa_coherent = False\<rparr>)) sampleSvm"
  unfolding sampleSvm_def by (rule svm_created) (simp add: fresh_block_def svm_live_def svm_create_def)

theorem svm_lookup_exact_witness:
  "getSVMAlloc 5000 sampleSvm = Some 7"
  using svm_lookup_exact [OF r_into_rtranclp [of svm_step, OF sampleSvm_step], of 5000 7]
  by (simp add: sampleSvm_def svm_live_def createSVMAlloc_def svm_create_def tracker_insert_def keyPosition_def)

text \<open>Two threads that release the same address at the same time can both find the allocation before either takes the lock again; the
  second then erases at the end of the map and the memory would be freed twice, while two releases one after the other are harmless.\<close>

theorem concurrent_release_erases_end:
  "getSVMAlloc 4096 sampleSvm = Some 7 \<and>
   (\<exists>s1. releaseSVMAlloc 7 sampleSvm = Inr s1 \<and> releaseSVMAlloc 7 s1 = Inl OutOfBounds \<and> freeSVMAlloc 4096 s1 = Inr s1)"
  by (simp add: sampleSvm_def createSVMAlloc_def svm_create_def tracker_insert_def keyPosition_def getSVMAlloc_def tracker_get_def releaseSVMAlloc_def
      tracker_remove_def freeSVMAlloc_def Let_def)


section \<open>Mapped pointers do not overlap\<close>

definition mapsCompatible :: "MapInfo \<Rightarrow> MapInfo \<Rightarrow> bool" where
  "mapsCompatible m m' \<longleftrightarrow> mi_readOnly m \<or> mi_readOnly m' \<or> mi_ptr m + mi_ptrLength m \<le> mi_ptr m' \<or> mi_ptr m' + mi_ptrLength m' \<le> mi_ptr m"

definition map_inv :: "MapInfo list \<Rightarrow> bool" where
  "map_inv ms \<longleftrightarrow> (\<forall>x \<in># mset ms. \<forall>y \<in># mset ms - {#x#}. mapsCompatible x y) \<and> (\<forall>x \<in> set ms. mi_ptr x + mi_ptrLength x < 18446744073709551616)"

datatype map_op = AddMap nat nat nat "nat list" "nat list" nat | RemoveMap nat

fun map_step :: "map_op \<Rightarrow> MapInfo list \<Rightarrow> MapInfo list" where
  "map_step (AddMap ptr len flags sz off mip) ms = snd (map_add ptr len flags sz off mip ms)"
| "map_step (RemoveMap ptr) ms = map_remove ptr ms"

fun in_range :: "map_op \<Rightarrow> bool" where
  "in_range (AddMap ptr len flags sz off mip) = (ptr + len < 18446744073709551616)"
| "in_range (RemoveMap ptr) = True"

lemma isOverlapping_spec:
  assumes "mi_ptr m + mi_ptrLength m < 18446744073709551616" "\<forall>x \<in> set ms. mi_ptr x + mi_ptrLength x < 18446744073709551616"
  shows "isOverlapping m ms \<longleftrightarrow> \<not> mi_readOnly m \<and>
    (\<exists>x \<in> set ms. mi_ptr m < mi_ptr x + mi_ptrLength x \<and> mi_ptr x \<le> mi_ptr m + mi_ptrLength m)"
  using assms by (auto simp: isOverlapping_def list_ex_iff)

lemma map_inv_add:
  assumes "map_inv ms" "ptr + len < 18446744073709551616"
  shows "map_inv (snd (map_add ptr len flags sz off mip ms))"
proof -
  define m where "m = \<lparr>mi_ptr = ptr, mi_ptrLength = len, mi_size = sz, mi_offset = off, mi_readOnly = (flags = CL_MAP_READ), mi_mipLevel = mip\<rparr>"
  have a: "map_add ptr len flags sz off mip ms = (if isOverlapping m ms then (False, ms) else (True, ms @ [m]))"
    by (simp add: map_add_def m_def Let_def)
  have r: "\<forall>x \<in> set ms. mi_ptr x + mi_ptrLength x < 18446744073709551616" using assms(1) by (simp add: map_inv_def)
  have rm: "mi_ptr m + mi_ptrLength m < 18446744073709551616" using assms(2) by (simp add: m_def)
  show ?thesis
  proof (cases "isOverlapping m ms")
    case False
    then have c: "mapsCompatible m x \<and> mapsCompatible x m" if "x \<in> set ms" for x
      using isOverlapping_spec [OF rm r] that by (fastforce simp: mapsCompatible_def)
    have "mapsCompatible x y" if "x \<in># mset ms + {#m#}" "y \<in># mset ms + {#m#} - {#x#}" for x y
    proof (cases "x = m")
      case True
      then show ?thesis using that c by simp
    next
      case n: False
      then have "x \<in># mset ms" using that(1) by simp
      then have "mset ms + {#m#} - {#x#} = (mset ms - {#x#}) + {#m#}" by simp
      then have "y = m \<or> y \<in># mset ms - {#x#}" using that(2) by auto
      then show ?thesis using \<open>x \<in># mset ms\<close> c assms(1) by (auto simp: map_inv_def)
    qed
    then show ?thesis using False r rm by (simp add: a map_inv_def)
  qed (use assms(1) a in simp)
qed

lemma map_remove_mset:
  "mset (map_remove p ms) = (case map_find p ms of None \<Rightarrow> mset ms | Some m \<Rightarrow> mset ms - {#m#})"
proof -
  let ?A = "takeWhile (\<lambda>m. mi_ptr m \<noteq> p) ms" and ?B = "dropWhile (\<lambda>m. mi_ptr m \<noteq> p) ms"
  have f: "map_find p ms = (case ?B of [] \<Rightarrow> None | x # xs \<Rightarrow> Some x)" by (induction ms) auto
  show ?thesis
  proof (cases ?B)
    case Nil
    then have "?A = ms" using takeWhile_dropWhile_id [of _ ms] by (metis append_Nil2)
    from arg_cong [OF this, of length] have l: "length ?A = length ms" .
    show ?thesis unfolding f Nil map_remove_def Let_def l by simp
  next
    case (Cons x B)
    then have ms: "ms = ?A @ x # B" by (metis takeWhile_dropWhile_id)
    define A where "A = ?A"
    have e: "ms = A @ x # B" "length (takeWhile (\<lambda>m. mi_ptr m \<noteq> p) ms) = length A" using ms by (simp_all add: A_def)
    have "map_remove p ms = butlast (ms[length A := last ms, length ms - 1 := ms ! length A])" using e by (simp add: map_remove_def)
    moreover have "mset (butlast (ms[length A := last ms, length ms - 1 := ms ! length A])) = mset ms - {#x#}"
    proof (cases B rule: rev_cases)
      case (snoc C l)
      have "ms[length A := last ms, length ms - 1 := ms ! length A] = A @ (l # C) @ [x]"
        using e(1) snoc by (simp add: list_update_append nth_append)
      then show ?thesis using e(1) snoc by (simp add: butlast_append)
    qed (use e(1) in \<open>simp add: list_update_append nth_append butlast_append\<close>)
    ultimately show ?thesis unfolding f Cons by simp
  qed
qed

lemma map_inv_subset:
  assumes "map_inv ms" "mset ms' \<subseteq># mset ms"
  shows "map_inv ms'"
proof -
  have "mapsCompatible x y" if "x \<in># mset ms'" "y \<in># mset ms' - {#x#}" for x y
  proof -
    have "count (mset ms') y \<le> count (mset ms) y" using assms(2) by (rule mset_subset_eq_count)
    then have "y \<in># mset ms - {#x#}" using that(2) unfolding in_diff_count by linarith
    moreover have "x \<in># mset ms" using mset_subset_eqD [OF assms(2) that(1)] .
    ultimately have "x \<in># mset ms" "y \<in># mset ms - {#x#}" by blast+
    then show ?thesis using assms(1) by (simp add: map_inv_def)
  qed
  moreover have "set ms' \<subseteq> set ms" using set_mset_mono [OF assms(2)] by simp
  ultimately show ?thesis using assms(1) unfolding map_inv_def by blast
qed


lemma map_step_inv: "map_inv ms \<Longrightarrow> in_range s \<Longrightarrow> map_inv (map_step s ms)"
proof (cases s)
  case (RemoveMap p)
  assume "map_inv ms"
  moreover have "mset (map_remove p ms) \<subseteq># mset ms" unfolding map_remove_mset by (cases "map_find p ms") simp_all
  ultimately show ?thesis using RemoveMap map_inv_subset by simp
qed (simp add: map_inv_add)

lemma map_find_some: "map_find p ms = Some m \<Longrightarrow> m \<in> set ms \<and> mi_ptr m = p"
  by (induction ms) (auto split: if_splits)

lemma map_find_none: "map_find p ms = None \<longleftrightarrow> (\<forall>m \<in> set ms. mi_ptr m \<noteq> p)"
  by (induction ms) auto

text \<open>Claim C32. Whatever sequence of mappings and unmappings a memory object sees, no two writable mappings overlap; a lookup finds a
  mapping of the pointer whenever there is one, and removal takes out exactly the mapping the lookup finds.\<close>

theorem writable_mappings_disjoint:
  assumes "\<forall>s \<in> set steps. in_range s"
  shows "let ms = fold map_step steps [] in
    (\<forall>x \<in># mset ms. \<forall>y \<in># mset ms - {#x#}. \<not> mi_readOnly x \<and> \<not> mi_readOnly y \<longrightarrow>
       mi_ptr x + mi_ptrLength x \<le> mi_ptr y \<or> mi_ptr y + mi_ptrLength y \<le> mi_ptr x) \<and>
    (map_find p ms = None \<longleftrightarrow> (\<forall>m \<in> set ms. mi_ptr m \<noteq> p)) \<and>
    mset (map_remove p ms) = mset ms - mset_set (set_option (map_find p ms))"
proof -
  have "map_inv ms \<Longrightarrow> map_inv (fold map_step steps ms)" for ms using assms by (induction steps arbitrary: ms) (auto intro: map_step_inv)
  moreover have "map_inv []" by (simp add: map_inv_def)
  ultimately have i: "map_inv (fold map_step steps [])" by blast
  let ?ms = "fold map_step steps []"
  have "mapsCompatible x y" if "x \<in># mset ?ms" "y \<in># mset ?ms - {#x#}" for x y using i that unfolding map_inv_def by blast
  then have "\<forall>x \<in># mset ?ms. \<forall>y \<in># mset ?ms - {#x#}. \<not> mi_readOnly x \<and> \<not> mi_readOnly y \<longrightarrow>
       mi_ptr x + mi_ptrLength x \<le> mi_ptr y \<or> mi_ptr y + mi_ptrLength y \<le> mi_ptr x" unfolding mapsCompatible_def by blast
  moreover have "mset (map_remove p ?ms) = mset ?ms - mset_set (set_option (map_find p ?ms))"
    by (cases "map_find p ?ms") (simp_all add: map_remove_mset)
  ultimately show ?thesis unfolding Let_def using map_find_none [of p ?ms] by blast
qed

theorem writable_mappings_disjoint_witness:
  "let ms = fold map_step [AddMap 4096 64 2 [] [] 0, AddMap 4160 64 2 [] [] 0, RemoveMap 4096] [] in
    (\<forall>x \<in># mset ms. \<forall>y \<in># mset ms - {#x#}. \<not> mi_readOnly x \<and> \<not> mi_readOnly y \<longrightarrow>
       mi_ptr x + mi_ptrLength x \<le> mi_ptr y \<or> mi_ptr y + mi_ptrLength y \<le> mi_ptr x) \<and>
    (map_find 4160 ms = None \<longleftrightarrow> (\<forall>m \<in> set ms. mi_ptr m \<noteq> 4160)) \<and>
    mset (map_remove 4160 ms) = mset ms - mset_set (set_option (map_find 4160 ms))"
  by (rule writable_mappings_disjoint) simp

text \<open>The overlap test counts a range that ends exactly where a mapped one starts as overlapping, so of two adjacent
  ranges the upper one can be mapped after the lower but not the lower after the upper.\<close>

theorem adjacent_mapping_refused:
  assumes "mi_ptr m + mi_ptrLength m < 18446744073709551616" "\<not> mi_readOnly m" "\<forall>x \<in> set ms. mi_ptr x + mi_ptrLength x < 18446744073709551616"
  shows "isOverlapping m ms \<longleftrightarrow>
      (\<exists>x \<in> set ms. mi_ptr m < mi_ptr x + mi_ptrLength x \<and> mi_ptr x < mi_ptr m + mi_ptrLength m) \<or>
      (\<exists>x \<in> set ms. mi_ptr m + mi_ptrLength m = mi_ptr x \<and> (0 < mi_ptrLength m \<or> 0 < mi_ptrLength x))"
proof -
  have "mi_ptr m < mi_ptr x + mi_ptrLength x \<and> mi_ptr x \<le> mi_ptr m + mi_ptrLength m \<longleftrightarrow>
      (mi_ptr m < mi_ptr x + mi_ptrLength x \<and> mi_ptr x < mi_ptr m + mi_ptrLength m) \<or>
      (mi_ptr m + mi_ptrLength m = mi_ptr x \<and> (0 < mi_ptrLength m \<or> 0 < mi_ptrLength x))" for x by auto
  then show ?thesis using assms(2) unfolding isOverlapping_spec [OF assms(1,3)] by blast
qed

theorem adjacent_mapping_refused_witness:
  "isOverlapping \<lparr>mi_ptr = 4096, mi_ptrLength = 64, mi_size = [], mi_offset = [], mi_readOnly = False, mi_mipLevel = 0\<rparr>
     [\<lparr>mi_ptr = 4160, mi_ptrLength = 64, mi_size = [], mi_offset = [], mi_readOnly = False, mi_mipLevel = 0\<rparr>]"
  using adjacent_mapping_refused [of "\<lparr>mi_ptr = 4096, mi_ptrLength = 64, mi_size = [], mi_offset = [], mi_readOnly = False, mi_mipLevel = 0\<rparr>"
     "[\<lparr>mi_ptr = 4160, mi_ptrLength = 64, mi_size = [], mi_offset = [], mi_readOnly = False, mi_mipLevel = 0\<rparr>]"] by simp

section \<open>Pages are given out once\<close>

definition pages :: "u64 \<Rightarrow> u64 \<Rightarrow> nat" where
  "pages vm sz = (unat vm mod 4096 + unat sz + 4095) div 4096"

definition mapper_inv :: "AddressMapper \<Rightarrow> bool" where
  "mapper_inv s \<longleftrightarrow> distinct (map pm_vm (am_mapping s)) \<and>
     sorted_wrt (\<lambda>a b. pm_ggtt a + unat (pm_size a) \<le> pm_ggtt b) (am_mapping s) \<and>
     (\<forall>a \<in> set (am_mapping s). 4096 \<le> pm_ggtt a \<and> pm_ggtt a + unat (pm_size a) \<le> am_nextPage s * 4096) \<and> 1 \<le> am_nextPage s"

text \<open>The calls of a run: the address space of 4 gigabytes has room for the pages asked for.\<close>

inductive mapper_step :: "AddressMapper \<Rightarrow> AddressMapper \<Rightarrow> bool" where
  mapped: "unat vm mod 4096 + unat sz + 4096 \<le> 2 ^ 64 \<Longrightarrow> am_nextPage s + pages vm sz \<le> 1048575 \<Longrightarrow> mapper_step s (snd (mapper_map vm sz s))"
| unmapped: "mapper_step s (mapper_unmap vm s)"

lemma drop_mapping:
  fixes v :: u64
  assumes "distinct (map pm_vm ms)"
  defines "i \<equiv> length (takeWhile (\<lambda>m. pm_vm m \<noteq> v) ms)"
  shows "(if i < length ms then take i ms @ drop (Suc i) ms else ms) = filter (\<lambda>m. pm_vm m \<noteq> v) ms"
    "i < length ms \<Longrightarrow> pm_vm (ms ! i) = v"
proof -
  show "pm_vm (ms ! i) = v" if "i < length ms" using nth_length_takeWhile [of "\<lambda>m. pm_vm m \<noteq> v" ms] that by (simp add: i_def)
  show "(if i < length ms then take i ms @ drop (Suc i) ms else ms) = filter (\<lambda>m. pm_vm m \<noteq> v) ms"
    using assms(1) unfolding i_def
  proof (induction ms)
    case (Cons a ms)
    show ?case
    proof (cases "pm_vm a = v")
      case True
      then have "v \<notin> pm_vm ` set ms" using Cons.prems by simp
      then have "filter (\<lambda>m. pm_vm m \<noteq> v) ms = ms" by (intro filter_True) blast
      then show ?thesis using True by simp
    next
      case False
      then show ?thesis using Cons by (simp split: if_splits)
    qed
  qed simp
qed

lemma mapper_unmap_eq:
  assumes "distinct (map pm_vm (am_mapping s))"
  shows "mapper_unmap vm s = s\<lparr>am_mapping := filter (\<lambda>m. pm_vm m \<noteq> alignDown vm pageSize) (am_mapping s)\<rparr>"
  using drop_mapping(1) [OF assms, of "alignDown vm pageSize"] by (auto simp: mapper_unmap_def Let_def split: if_splits)

lemma mapper_map_eq:
  assumes "mapper_inv s" "unat vm mod 4096 + unat sz + 4096 \<le> 2 ^ 64" "am_nextPage s + pages vm sz \<le> 1048575"
  shows "(\<exists>m \<in> set (am_mapping s). pm_vm m = alignDown vm pageSize \<and> pm_size m = alignSizeWholePage vm sz \<and> mapper_map vm sz s = (pm_ggtt m, s)) \<or>
    mapper_map vm sz s = (am_nextPage s * 4096, s\<lparr>am_nextPage := am_nextPage s + pages vm sz,
      am_mapping := filter (\<lambda>m. pm_vm m \<noteq> alignDown vm pageSize) (am_mapping s) @
        [\<lparr>pm_vm = alignDown vm pageSize, pm_size = alignSizeWholePage vm sz, pm_ggtt = am_nextPage s * 4096\<rparr>]\<rparr>)"
proof -
  let ?ms = "am_mapping s" and ?v = "alignDown vm pageSize"
  let ?i = "length (takeWhile (\<lambda>m. pm_vm m \<noteq> ?v) ?ms)"
  have d: "distinct (map pm_vm ?ms)" using assms(1) by (simp add: mapper_inv_def)
  note dm = drop_mapping [OF d, of ?v]
  have "unat (alignSizeWholePage vm sz) div 4096 = pages vm sz" using alignSizeWholePage_eq [OF assms(2)] by (simp add: pages_def)
  then have n: "wrap32 (unat (alignSizeWholePage vm sz) div 4096) = pages vm sz" using assms(3) by simp
  show ?thesis
  proof (cases "?i < length ?ms \<and> pm_size (?ms ! ?i) = alignSizeWholePage vm sz")
    case True
    then have "mapper_map vm sz s = (pm_ggtt (?ms ! ?i), s)" by (simp add: mapper_map_def Let_def)
    then show ?thesis using True dm(2) nth_mem by blast
  next
    case False
    have "wrap32 (am_nextPage s * 4096) = am_nextPage s * 4096" "wrap32 (am_nextPage s + pages vm sz) = am_nextPage s + pages vm sz"
      using assms(3) by simp_all
    then show ?thesis unfolding mapper_map_def Let_def if_not_P [OF False] n dm(1) by simp
  qed
qed

lemma mapper_step_inv:
  assumes "mapper_step s s'" "mapper_inv s"
  shows "mapper_inv s'"
  using assms
proof (induction rule: mapper_step.induct)
  case (unmapped s vm)
  then have "distinct (map pm_vm (am_mapping s))" by (simp add: mapper_inv_def)
  from mapper_unmap_eq [OF this, of vm] show ?case
    using unmapped by (auto simp: mapper_inv_def distinct_map_filter intro: sorted_wrt_filter)
next
  case (mapped vm sz s)
  let ?e = "\<lparr>pm_vm = alignDown vm pageSize, pm_size = alignSizeWholePage vm sz, pm_ggtt = am_nextPage s * 4096\<rparr>"
  have e: "unat (alignSizeWholePage vm sz) = pages vm sz * 4096" using alignSizeWholePage_eq [OF mapped.hyps(1)] by (simp add: pages_def)
  have i: "distinct (map pm_vm (am_mapping s))" "sorted_wrt (\<lambda>a b. pm_ggtt a + unat (pm_size a) \<le> pm_ggtt b) (am_mapping s)"
    "\<forall>a \<in> set (am_mapping s). 4096 \<le> pm_ggtt a \<and> pm_ggtt a + unat (pm_size a) \<le> am_nextPage s * 4096" "1 \<le> am_nextPage s"
    using mapped.prems by (simp_all add: mapper_inv_def)
  show ?case
    using mapper_map_eq [OF mapped.prems mapped.hyps]
  proof
    assume "\<exists>m \<in> set (am_mapping s). pm_vm m = alignDown vm pageSize \<and> pm_size m = alignSizeWholePage vm sz \<and> mapper_map vm sz s = (pm_ggtt m, s)"
    then show ?thesis using mapped.prems by auto
  next
    assume r: "mapper_map vm sz s = (am_nextPage s * 4096, s\<lparr>am_nextPage := am_nextPage s + pages vm sz,
      am_mapping := filter (\<lambda>m. pm_vm m \<noteq> alignDown vm pageSize) (am_mapping s) @ [?e]\<rparr>)"
    have "sorted_wrt (\<lambda>a b. pm_ggtt a + unat (pm_size a) \<le> pm_ggtt b) (filter (\<lambda>m. pm_vm m \<noteq> alignDown vm pageSize) (am_mapping s) @ [?e])"
      using i(2,3) by (auto simp: sorted_wrt_append intro: sorted_wrt_filter)
    moreover have "distinct (map pm_vm (filter (\<lambda>m. pm_vm m \<noteq> alignDown vm pageSize) (am_mapping s) @ [?e]))"
      using i(1) by (auto simp: distinct_map_filter)
    ultimately show ?thesis using i(3,4) e unfolding r mapper_inv_def by (fastforce simp: add_mult_distrib)
  qed
qed


interpretation mapper: step_invariant mapper_step mapper_inv
  by unfold_locales (rule mapper_step_inv)

lemma mapper_inv_created: "mapper_inv addressMapper_create"
  by (simp add: mapper_inv_def addressMapper_create_def)

text \<open>Claim C33. As long as fewer than 2 to the 20 pages have been given out, the mapper holds one range for each start page, ranges in the global
  address space never overlap and leave out page zero, and mapping a range puts it into the table at the
  address returned; mapping it again returns the same address and changes nothing.\<close>

theorem mapper_ranges_disjoint:
  assumes "mapper_step\<^sup>*\<^sup>* addressMapper_create s" "unat vm mod 4096 + unat sz + 4096 \<le> 2 ^ 64" "am_nextPage s + pages vm sz \<le> 1048575"
    "mapper_map vm sz s = (ggtt, s')"
  shows "distinct (map pm_vm (am_mapping s')) \<and>
    (\<forall>a \<in> set (am_mapping s'). \<forall>b \<in> set (am_mapping s'). a \<noteq> b \<longrightarrow>
       pm_ggtt a + unat (pm_size a) \<le> pm_ggtt b \<or> pm_ggtt b + unat (pm_size b) \<le> pm_ggtt a) \<and>
    (\<forall>a \<in> set (am_mapping s'). 4096 \<le> pm_ggtt a) \<and>
    \<lparr>pm_vm = alignDown vm pageSize, pm_size = alignSizeWholePage vm sz, pm_ggtt = ggtt\<rparr> \<in> set (am_mapping s') \<and>
    mapper_map vm sz s' = (ggtt, s')"
proof -
  have i: "mapper_inv s" by (rule mapper.run_inv [OF assms(1) mapper_inv_created])
  have i': "mapper_inv s'" using mapper_step_inv [OF mapped [OF assms(2,3)] i] assms(4) by simp
  let ?e = "\<lparr>pm_vm = alignDown vm pageSize, pm_size = alignSizeWholePage vm sz, pm_ggtt = ggtt\<rparr>"
  have e: "?e \<in> set (am_mapping s')"
    using mapper_map_eq [OF i assms(2,3)]
  proof
    assume "\<exists>m \<in> set (am_mapping s). pm_vm m = alignDown vm pageSize \<and> pm_size m = alignSizeWholePage vm sz \<and> mapper_map vm sz s = (pm_ggtt m, s)"
    then obtain m where m: "m \<in> set (am_mapping s)" "pm_vm m = alignDown vm pageSize" "pm_size m = alignSizeWholePage vm sz" "s' = s" "pm_ggtt m = ggtt"
      using assms(4) by auto
    then have e: "m = ?e" by simp
    show ?thesis using m(1) unfolding e m(4) .
  qed (use assms(4) in auto)
  have srt: "sorted_wrt (\<lambda>a b. pm_ggtt a + unat (pm_size a) \<le> pm_ggtt b) (am_mapping s')" using i' by (simp add: mapper_inv_def)
  have dis: "pm_ggtt a + unat (pm_size a) \<le> pm_ggtt b \<or> pm_ggtt b + unat (pm_size b) \<le> pm_ggtt a"
    if h: "a \<in> set (am_mapping s')" "b \<in> set (am_mapping s')" "a \<noteq> b" for a b
  proof -
    obtain k l where kl: "k < length (am_mapping s')" "a = am_mapping s' ! k" "l < length (am_mapping s')" "b = am_mapping s' ! l"
      using h(1,2) by (auto simp: in_set_conv_nth)
    have "k < l \<or> l < k" using h(3) kl by (metis linorder_neqE_nat)
    then show ?thesis using sorted_wrt_nth_less [OF srt, of k l] sorted_wrt_nth_less [OF srt, of l k] kl by auto
  qed
  have again: "mapper_map vm sz s' = (ggtt, s')"
  proof -
    let ?i = "length (takeWhile (\<lambda>m. pm_vm m \<noteq> alignDown vm pageSize) (am_mapping s'))"
    have lt: "?i < length (am_mapping s')" 
    proof (rule ccontr)
      assume "\<not> ?thesis"
      then have "takeWhile (\<lambda>m. pm_vm m \<noteq> alignDown vm pageSize) (am_mapping s') = am_mapping s'" by (metis not_less take_all takeWhile_eq_take)
      then have "\<forall>m \<in> set (am_mapping s'). pm_vm m \<noteq> alignDown vm pageSize" by (simp add: takeWhile_eq_all_conv)
      from bspec [OF this e] show False by simp
    qed
    have "pm_vm (am_mapping s' ! ?i) = alignDown vm pageSize" using nth_length_takeWhile [OF lt] by simp
    moreover have "inj_on pm_vm (set (am_mapping s'))" using i' by (simp add: mapper_inv_def distinct_map)
    ultimately have "am_mapping s' ! ?i = ?e" using inj_onD [OF _ _ nth_mem [OF lt] e, of pm_vm] by simp
    then show ?thesis using lt by (simp add: mapper_map_def Let_def)
  qed
  show ?thesis using i' dis e again unfolding mapper_inv_def by blast
qed

theorem mapper_ranges_disjoint_witness:
  "distinct (map pm_vm (am_mapping (snd (mapper_map 0x5000 8192 addressMapper_create)))) \<and>
   mapper_map 0x5000 8192 (snd (mapper_map 0x5000 8192 addressMapper_create)) = mapper_map 0x5000 8192 addressMapper_create"
  using mapper_ranges_disjoint [of addressMapper_create "0x5000" 8192 "fst (mapper_map 0x5000 8192 addressMapper_create)"
      "snd (mapper_map 0x5000 8192 addressMapper_create)"]
  by (simp add: addressMapper_create_def pages_def)

end
