(* ===== verification/Wait_Policy.thy ===== *)
theory Wait_Policy
  imports Runtime_Prelude
begin

text \<open>
  Waiting for the GPU: how long to poll before the operating system is asked to wait
  (\<^verbatim>\<open>helpers/kmd_notify_properties.cpp\<close> and its two system specific halves) and the wait itself
  (\<^verbatim>\<open>command_stream/command_stream_receiver.cpp\<close>, \<^verbatim>\<open>command_stream_receiver_hw.inl\<close>). What the thread observes is a parameter: the value of the tag
  the GPU writes and the clock, as functions of the instant; each reading takes one instant. Task counts are
  natural numbers below 2 to the 32, times are in microseconds.
\<close>

section \<open>The policy\<close>

record KmdNotifyProperties =
  kp_delayKmdNotifyMicroseconds :: int
  kp_delayQuickKmdSleepMicroseconds :: int
  kp_delayQuickKmdSleepForSporadicWaitsMicroseconds :: int
  kp_enableKmdNotify :: bool
  kp_enableQuickKmdSleep :: bool
  kp_enableQuickKmdSleepForSporadicWaits :: bool

record KmdNotifyHelper =
  kh_properties :: KmdNotifyProperties
  kh_lastWaitForCompletionTimestampUs :: int
  kh_acLineConnected :: bool
  kh_maxPowerSavingMode :: bool

definition timeoutInMicrosecondsForDisconnectedAcLine :: int where "timeoutInMicrosecondsForDisconnectedAcLine = 10000"
definition minimumTaskCountDiffToCheckAcLine :: int where "minimumTaskCountDiffToCheckAcLine = 10"

definition kmdNotifyHelper_create :: "KmdNotifyProperties \<Rightarrow> KmdNotifyHelper" where
  "kmdNotifyHelper_create p =
     \<lparr>kh_properties = p, kh_lastWaitForCompletionTimestampUs = 0, kh_acLineConnected = True, kh_maxPowerSavingMode = False\<rparr>"

definition initMaxPowerSavingMode :: "KmdNotifyHelper \<Rightarrow> KmdNotifyHelper" where
  "initMaxPowerSavingMode h = h\<lparr>kh_maxPowerSavingMode := True\<rparr>"

datatype os_system = Linux | Windows

text \<open>What Windows answers about the power line: the value returned and the status; Linux is not asked.\<close>

definition updateAcLineStatus :: "os_system \<Rightarrow> int \<times> int \<Rightarrow> KmdNotifyHelper \<Rightarrow> KmdNotifyHelper" where
  "updateAcLineStatus os powerStatus h =
     (case os of Linux \<Rightarrow> h
      | Windows \<Rightarrow> if fst powerStatus = 1 then h\<lparr>kh_acLineConnected := (snd powerStatus = 1)\<rparr> else h)"

definition getBaseTimeout :: "os_system \<Rightarrow> int \<Rightarrow> KmdNotifyHelper \<Rightarrow> int" where
  "getBaseTimeout os multiplier h =
     (case os of Linux \<Rightarrow> kp_delayKmdNotifyMicroseconds (kh_properties h) * multiplier
      | Windows \<Rightarrow> kp_delayKmdNotifyMicroseconds (kh_properties h))"

definition applyQuickKmdSleepForSporadicWait :: "int \<Rightarrow> KmdNotifyHelper \<Rightarrow> bool" where
  "applyQuickKmdSleepForSporadicWait now h \<longleftrightarrow>
     kp_enableQuickKmdSleepForSporadicWaits (kh_properties h) \<and>
     now - kh_lastWaitForCompletionTimestampUs h > kp_delayQuickKmdSleepForSporadicWaitsMicroseconds (kh_properties h)"

definition updateLastWaitForCompletionTimestamp :: "int \<Rightarrow> KmdNotifyHelper \<Rightarrow> KmdNotifyHelper" where
  "updateLastWaitForCompletionTimestamp now h = h\<lparr>kh_lastWaitForCompletionTimestampUs := now\<rparr>"

definition overrideFromDebugVariable_int :: "int \<Rightarrow> int \<Rightarrow> int" where
  "overrideFromDebugVariable_int debugVariableValue destination = (if debugVariableValue \<ge> 0 then debugVariableValue else destination)"

definition overrideFromDebugVariable_bool :: "int \<Rightarrow> bool \<Rightarrow> bool" where
  "overrideFromDebugVariable_bool debugVariableValue destination = (if debugVariableValue \<ge> 0 then debugVariableValue \<noteq> 0 else destination)"

record WaitRequest =
  wr_quickKmdSleepRequest :: bool
  wr_currentHwTag :: nat
  wr_taskCountToWait :: nat
  wr_flushStampToWait :: nat
  wr_powerSavingMode :: bool

text \<open>The result: whether the timeout is used, and the timeout as far as it is set.\<close>

definition obtainTimeoutParams ::
  "os_system \<Rightarrow> int \<times> int \<Rightarrow> int \<Rightarrow> WaitRequest \<Rightarrow> int \<Rightarrow> KmdNotifyHelper \<Rightarrow> bool \<times> int \<times> KmdNotifyHelper" where
  "obtainTimeoutParams os powerStatus now r timeout h =
     (if wr_flushStampToWait r = 0 then (False, timeout, h)
      else if wr_powerSavingMode r then (True, 1, h)
      else let p = kh_properties h;
               multiplier = (if wr_currentHwTag r < wr_taskCountToWait r then int (wr_taskCountToWait r - wr_currentHwTag r) else 1);
               h = (if \<not> kp_enableKmdNotify p \<and> multiplier > minimumTaskCountDiffToCheckAcLine then updateAcLineStatus os powerStatus h else h);
               quick = (wr_quickKmdSleepRequest r \<or> applyQuickKmdSleepForSporadicWait now h);
               timeout = (if kh_maxPowerSavingMode h then 1
                          else if \<not> kp_enableKmdNotify p \<and> \<not> kh_acLineConnected h then timeoutInMicrosecondsForDisconnectedAcLine
                          else if quick \<and> kp_enableQuickKmdSleep p then kp_delayQuickKmdSleepMicroseconds p
                          else getBaseTimeout os multiplier h)
           in (kp_enableKmdNotify p \<or> \<not> kh_acLineConnected h, timeout, h))"

section \<open>The wait\<close>

record WaitEnv =
  we_tag :: "nat \<Rightarrow> nat"
  we_clock :: "nat \<Rightarrow> int"

text \<open>The polling loop from an instant on, with fuel; it returns the instant after the last reading of the condition.\<close>

fun pollLoop :: "WaitEnv \<Rightarrow> bool \<Rightarrow> int \<Rightarrow> nat \<Rightarrow> int \<Rightarrow> nat \<Rightarrow> int \<Rightarrow> nat \<Rightarrow> nat rt_result" where
  "pollLoop env enableTimeout timeoutMicroseconds taskCountToWait time1 0 timeDiff t = Inl FuelExhausted"
| "pollLoop env enableTimeout timeoutMicroseconds taskCountToWait time1 (Suc fuel) timeDiff t =
     (if we_tag env t < taskCountToWait \<and> timeDiff \<le> timeoutMicroseconds
      then pollLoop env enableTimeout timeoutMicroseconds taskCountToWait time1 fuel
             (if enableTimeout then we_clock env (t + 1) - time1 else timeDiff) (t + 1)
      else Inr (t + 1))"

definition waitForCompletionWithTimeout ::
  "nat \<Rightarrow> WaitEnv \<Rightarrow> bool \<Rightarrow> int \<Rightarrow> nat \<Rightarrow> nat \<Rightarrow> nat \<Rightarrow> (bool \<times> bool \<times> nat) rt_result" where
  "waitForCompletionWithTimeout fuel env enableTimeout timeoutMicroseconds taskCountToWait latestFlushedTaskCount t =
     rt_bind (pollLoop env enableTimeout timeoutMicroseconds taskCountToWait (we_clock env t) fuel 0 t) (\<lambda>t'.
     Inr (we_tag env t' \<ge> taskCountToWait, latestFlushedTaskCount < taskCountToWait, t' + 1))"

text \<open>The whole wait: polling, then the wait of the operating system, which ends at an instant the parameter gives, then blocking polling.\<close>

definition waitForTaskCountWithKmdNotifyFallback ::
  "nat \<Rightarrow> (nat \<Rightarrow> nat) \<Rightarrow> WaitEnv \<Rightarrow> os_system \<Rightarrow> int \<times> int \<Rightarrow> WaitRequest \<Rightarrow> nat \<Rightarrow> KmdNotifyHelper \<Rightarrow> nat \<Rightarrow> (nat \<times> KmdNotifyHelper) rt_result" where
  "waitForTaskCountWithKmdNotifyFallback fuel waitForFlushStamp env os powerStatus r latestFlushedTaskCount h t =
     (let (enableTimeout, waitTimeout, h) =
            obtainTimeoutParams os powerStatus (we_clock env t) (r\<lparr>wr_currentHwTag := we_tag env t\<rparr>) 0 h
      in rt_bind (waitForCompletionWithTimeout fuel env enableTimeout waitTimeout (wr_taskCountToWait r) latestFlushedTaskCount (t + 1)) (\<lambda>(status, _, t).
         rt_bind (if status then Inr t
                  else rt_bind (waitForCompletionWithTimeout fuel env False 0 (wr_taskCountToWait r) latestFlushedTaskCount (waitForFlushStamp t)) (\<lambda>(_, _, t). Inr t)) (\<lambda>t.
         if we_tag env t < wr_taskCountToWait r then Inl Unrecoverable
         else Inr (t + 1, if kp_enableQuickKmdSleepForSporadicWaits (kh_properties h)
                          then updateLastWaitForCompletionTimestamp (we_clock env (t + 1)) h else h))))"


section \<open>What a wait returns\<close>

lemma pollLoop_reached:
  assumes "t \<le> T" "target \<le> we_tag env T" "T - t < fuel"
  obtains t' where "pollLoop env e timeout target time1 fuel d t = Inr t'" "t < t'" "t' \<le> T + 1"
  using assms
proof (induction fuel arbitrary: d t thesis)
  case (Suc fuel)
  show ?case
  proof (cases "we_tag env t < target \<and> d \<le> timeout")
    case True
    then have lt: "t < T" using Suc.prems(2,3) by (cases "t = T") auto
    define d' where "d' = (if e then we_clock env (t + 1) - time1 else d)"
    have "t + 1 \<le> T" "T - (t + 1) < fuel" using lt Suc.prems(4) by simp_all
    then obtain t' where "pollLoop env e timeout target time1 fuel d' (t + 1) = Inr t'" "t + 1 < t'" "t' \<le> T + 1"
      using Suc.IH [of d' "t + 1"] Suc.prems(3) by blast
    then show ?thesis using True by (intro Suc.prems(1) [of t']) (auto simp: d'_def)
  next
    case False
    then show ?thesis using Suc.prems(2) by (intro Suc.prems(1) [of "t + 1"]) auto
  qed
qed simp

lemma pollLoop_expired:
  assumes "t < T" "timeout < we_clock env T - time1" "T - t < fuel"
  obtains t' where "pollLoop env True timeout target time1 fuel d t = Inr t'" "t < t'" "t' \<le> T + 1"
  using assms
proof (induction fuel arbitrary: d t thesis)
  case (Suc fuel)
  let ?d = "we_clock env (t + 1) - time1"
  show ?case
  proof (cases "we_tag env t < target \<and> d \<le> timeout")
    case True
    show ?thesis
    proof (cases "t + 1 = T")
      case e: True
      obtain fuel' where "fuel = Suc fuel'" using Suc.prems(2,4) by (cases fuel) auto
      then show ?thesis using True e Suc.prems(3) by (intro Suc.prems(1) [of "T + 1"]) auto
    next
      case False
      then have "t + 1 < T" "T - (t + 1) < fuel" using Suc.prems(2,4) by simp_all
      then obtain t' where "pollLoop env True timeout target time1 fuel ?d (t + 1) = Inr t'" "t + 1 < t'" "t' \<le> T + 1"
        using Suc.IH [of ?d "t + 1"] Suc.prems(3) by auto
      then show ?thesis using True by (intro Suc.prems(1) [of t']) auto
    qed
  next
    case False
    then show ?thesis using Suc.prems(2) by (intro Suc.prems(1) [of "t + 1"]) auto
  qed
qed simp

lemma pollLoop_blocking:
  "pollLoop env False timeout target time1 fuel d t = Inr t' \<Longrightarrow> d \<le> timeout \<Longrightarrow> target \<le> we_tag env (t' - 1)"
  by (induction fuel arbitrary: t) (auto split: if_splits)

lemma wait_reached:
  assumes "mono (we_tag env)" "target \<le> we_tag env T" "T < fuel"
  obtains status t' where "waitForCompletionWithTimeout fuel env e timeout target flushed t = Inr (status, flushed < target, t')"
    "status \<longrightarrow> target \<le> we_tag env t'" "\<not> e \<and> 0 \<le> timeout \<longrightarrow> target \<le> we_tag env t'"
proof -
  have "target \<le> we_tag env (max t T)" using assms(1,2) by (meson le_trans max.cobounded2 monoD)
  moreover have "max t T - t < fuel" using assms(3) by (cases "t \<le> T") (simp_all add: max_def)
  ultimately obtain t' where t': "pollLoop env e timeout target (we_clock env t) fuel 0 t = Inr t'"
    using pollLoop_reached [of t "max t T" target env fuel] by (metis max.cobounded1)
  have up: "we_tag env n \<le> we_tag env m" if "n \<le> m" for n m using assms(1) that by (rule monoD)
  have "target \<le> we_tag env (t' + 1)" if "target \<le> we_tag env t'" using that up [of t' "t' + 1"] by simp
  moreover have "target \<le> we_tag env (t' + 1)" if "\<not> e" "0 \<le> timeout"
    using pollLoop_blocking [of env timeout target "we_clock env t" fuel 0 t t'] t' that le_trans [OF _ up [of "t' - 1" "t' + 1"]] by auto
  ultimately show ?thesis using t' by (intro that [of "target \<le> we_tag env t'" "t' + 1"]) (auto simp: waitForCompletionWithTimeout_def)
qed

text \<open>Claim C25. A wait for a task count returns, whatever the policy chooses: when the tag only grows and the GPU reaches the count
  at some instant, the wait ends with the count reached and the check behind it never fails; polling for a timeout also ends when the GPU does not
  reach the count, as soon as the clock has passed the timeout.\<close>

theorem wait_returns:
  assumes "mono (we_tag env)" "wr_taskCountToWait r \<le> we_tag env T" "T < fuel"
  shows "(\<exists>t' h'. waitForTaskCountWithKmdNotifyFallback fuel waitForFlushStamp env os powerStatus r flushed h t = Inr (t', h') \<and>
      wr_taskCountToWait r \<le> we_tag env t') \<and>
    (\<forall>env' target E. t < E \<and> timeout < we_clock env' E - we_clock env' t \<and> E - t < fuel \<longrightarrow>
      (\<exists>x. waitForCompletionWithTimeout fuel env' True timeout target flushed t = Inr x))"
proof -
  let ?goal = "wr_taskCountToWait r"
  obtain e timeout h' where o: "obtainTimeoutParams os powerStatus (we_clock env t) (r\<lparr>wr_currentHwTag := we_tag env t\<rparr>) 0 h = (e, timeout, h')"
    by (metis prod_cases3)
  obtain status t1 where t1: "waitForCompletionWithTimeout fuel env e timeout ?goal flushed (t + 1) = Inr (status, flushed < ?goal, t1)"
    "status \<longrightarrow> ?goal \<le> we_tag env t1" by (rule wait_reached [OF assms])
  obtain status2 t2 where t2: "waitForCompletionWithTimeout fuel env False 0 ?goal flushed (waitForFlushStamp t1) = Inr (status2, flushed < ?goal, t2)"
    "?goal \<le> we_tag env t2" using wait_reached [OF assms, where e = False and timeout = 0] by (metis order_refl)
  have up: "we_tag env n \<le> we_tag env (n + 1)" for n using assms(1) by (simp add: monoD)
  have "\<exists>t' h'. waitForTaskCountWithKmdNotifyFallback fuel waitForFlushStamp env os powerStatus r flushed h t = Inr (t', h') \<and> ?goal \<le> we_tag env t'"
  proof (cases status)
    case True
    then show ?thesis using t1 o le_trans [OF _ up, of ?goal t1] by (auto simp: waitForTaskCountWithKmdNotifyFallback_def)
  next
    case False
    then show ?thesis using t1(1) t2 o le_trans [OF _ up, of ?goal t2] by (auto simp: waitForTaskCountWithKmdNotifyFallback_def)
  qed
  moreover have "\<exists>x. waitForCompletionWithTimeout fuel env' True timeout target flushed t = Inr x"
    if h: "t < E" "timeout < we_clock env' E - we_clock env' t" "E - t < fuel" for env' target E timeout
    by (rule pollLoop_expired [OF h, of target 0]) (simp add: waitForCompletionWithTimeout_def)
  ultimately show ?thesis by blast
qed

theorem wait_returns_witness:
  "\<exists>t' h'. waitForTaskCountWithKmdNotifyFallback 10 (\<lambda>t. t + 3) \<lparr>we_tag = (\<lambda>t. t), we_clock = int\<rparr> Linux (0, 0)
     \<lparr>wr_quickKmdSleepRequest = False, wr_currentHwTag = 0, wr_taskCountToWait = 5, wr_flushStampToWait = 1, wr_powerSavingMode = True\<rparr> 4
     (kmdNotifyHelper_create \<lparr>kp_delayKmdNotifyMicroseconds = 10, kp_delayQuickKmdSleepMicroseconds = 5, kp_delayQuickKmdSleepForSporadicWaitsMicroseconds = 5,
       kp_enableKmdNotify = True, kp_enableQuickKmdSleep = True, kp_enableQuickKmdSleepForSporadicWaits = True\<rparr>) 0 = Inr (t', h') \<and> 5 \<le> t'"
proof -
  have "mono (we_tag \<lparr>we_tag = (\<lambda>t. t), we_clock = int\<rparr>)" by (simp add: mono_def)
  from wait_returns [OF this, of "\<lparr>wr_quickKmdSleepRequest = False, wr_currentHwTag = 0, wr_taskCountToWait = 5, wr_flushStampToWait = 1, wr_powerSavingMode = True\<rparr>" 5 10]
  show ?thesis by simp
qed

end
