(* ===== verification/Reference_Counting.thy ===== *)
theory Reference_Counting
  imports Machine_Refinement
begin

text \<open>
  Reference counted objects (\<^verbatim>\<open>utilities/reference_tracked_object.h\<close>), the base of every OpenCL object. Each has an internal counter, on
  which its deletion depends, and a counter of the references the application holds, which are counted internally too. The
  counters are atomic: an operation on both is two steps, between which other threads run. The
  model adds which references each thread holds; a thread works only on an object it holds a reference to,
  and may hand references to another.
\<close>

section \<open>The counters\<close>

type_synonym RefCounter = int

definition refCounter_inc :: "RefCounter \<Rightarrow> RefCounter" where
  "refCounter_inc val = (if val = 2147483647 then - 2147483648 else val + 1)"

definition refCounter_dec :: "RefCounter \<Rightarrow> RefCounter" where
  "refCounter_dec val = (if val = - 2147483648 then 2147483647 else val - 1)"

datatype ref_pc = Outside | InIncRefApi | InDecRefApi

record ReferenceTrackedObject =
  ro_refInternal :: RefCounter
  ro_refApi :: RefCounter
  ro_deletions :: nat
  ro_held :: "nat \<Rightarrow> nat"
  ro_heldApi :: "nat \<Rightarrow> nat"
  ro_pc :: "nat \<Rightarrow> ref_pc"

definition peekHasZeroRefcounts :: "ReferenceTrackedObject \<Rightarrow> bool" where
  "peekHasZeroRefcounts r \<longleftrightarrow> ro_refInternal r = 0"

definition incRefInternal :: "nat \<Rightarrow> ReferenceTrackedObject \<Rightarrow> ReferenceTrackedObject" where
  "incRefInternal i r =
     r\<lparr>ro_refInternal := refCounter_inc (ro_refInternal r), ro_held := (ro_held r)(i := ro_held r i + 1)\<rparr>"

text \<open>The pointer returned deletes the object when this was the last reference.\<close>

definition decRefInternal :: "nat \<Rightarrow> ReferenceTrackedObject \<Rightarrow> ReferenceTrackedObject rt_result" where
  "decRefInternal i r =
     (let current = refCounter_dec (ro_refInternal r); unused = (current = 0)
      in if current < 0 then Inl Unrecoverable
         else Inr (r\<lparr>ro_refInternal := current, ro_held := (ro_held r)(i := ro_held r i - 1),
                     ro_deletions := ro_deletions r + (if unused then 1 else 0)\<rparr>))"

definition incRefApi_first :: "nat \<Rightarrow> ReferenceTrackedObject \<Rightarrow> ReferenceTrackedObject" where
  "incRefApi_first i r = r\<lparr>ro_refApi := refCounter_inc (ro_refApi r), ro_pc := (ro_pc r)(i := InIncRefApi)\<rparr>"

definition incRefApi_second :: "nat \<Rightarrow> ReferenceTrackedObject \<Rightarrow> ReferenceTrackedObject" where
  "incRefApi_second i r =
     (incRefInternal i r)\<lparr>ro_heldApi := (ro_heldApi r)(i := ro_heldApi r i + 1), ro_pc := (ro_pc r)(i := Outside)\<rparr>"

definition decRefApi_first :: "nat \<Rightarrow> ReferenceTrackedObject \<Rightarrow> ReferenceTrackedObject" where
  "decRefApi_first i r =
     r\<lparr>ro_refApi := refCounter_dec (ro_refApi r), ro_heldApi := (ro_heldApi r)(i := ro_heldApi r i - 1), ro_pc := (ro_pc r)(i := InDecRefApi)\<rparr>"

definition decRefApi_second :: "nat \<Rightarrow> ReferenceTrackedObject \<Rightarrow> ReferenceTrackedObject rt_result" where
  "decRefApi_second i r = decRefInternal i (r\<lparr>ro_pc := (ro_pc r)(i := Outside)\<rparr>)"

text \<open>The constructors of the objects take the first reference of the application.\<close>

definition object_create :: ReferenceTrackedObject where
  "object_create = incRefApi_second 0 (incRefApi_first 0
     \<lparr>ro_refInternal = 0, ro_refApi = 0, ro_deletions = 0, ro_held = (\<lambda>_. 0), ro_heldApi = (\<lambda>_. 0), ro_pc = (\<lambda>_. Outside)\<rparr>)"

section \<open>Threads\<close>

text \<open>The steps of the threads below a number; a thread that is outside may use a reference it holds, one inside an operation
  finishes it. Counters stay below their bound.\<close>

inductive ref_step :: "nat \<Rightarrow> ReferenceTrackedObject \<Rightarrow> ReferenceTrackedObject \<Rightarrow> bool" for n where
  step_incInternal: "i < n \<Longrightarrow> ro_pc r i = Outside \<Longrightarrow> ro_held r i > 0 \<Longrightarrow> ro_refInternal r < 2147483647 \<Longrightarrow> ref_step n r (incRefInternal i r)"
| step_decInternal: "i < n \<Longrightarrow> ro_pc r i = Outside \<Longrightarrow> ro_held r i > ro_heldApi r i \<Longrightarrow> decRefInternal i r = Inr r' \<Longrightarrow> ref_step n r r'"
| step_incApi1: "i < n \<Longrightarrow> ro_pc r i = Outside \<Longrightarrow> ro_held r i > 0 \<Longrightarrow> ro_refApi r < 2147483647 \<Longrightarrow> ref_step n r (incRefApi_first i r)"
| step_incApi2: "i < n \<Longrightarrow> ro_pc r i = InIncRefApi \<Longrightarrow> ro_refInternal r < 2147483647 \<Longrightarrow> ref_step n r (incRefApi_second i r)"
| step_decApi1: "i < n \<Longrightarrow> ro_pc r i = Outside \<Longrightarrow> ro_heldApi r i > 0 \<Longrightarrow> ref_step n r (decRefApi_first i r)"
| step_decApi2: "i < n \<Longrightarrow> ro_pc r i = InDecRefApi \<Longrightarrow> decRefApi_second i r = Inr r' \<Longrightarrow> ref_step n r r'"
| step_handOver: "i < n \<Longrightarrow> j < n \<Longrightarrow> i \<noteq> j \<Longrightarrow> ro_pc r i = Outside \<Longrightarrow> ro_held r i > ro_heldApi r i \<Longrightarrow>
    ref_step n r (r\<lparr>ro_held := (ro_held r)(i := ro_held r i - 1, j := ro_held r j + 1)\<rparr>)"
| step_handOverApi: "i < n \<Longrightarrow> j < n \<Longrightarrow> i \<noteq> j \<Longrightarrow> ro_pc r i = Outside \<Longrightarrow> ro_heldApi r i > 0 \<Longrightarrow>
    ref_step n r (r\<lparr>ro_held := (ro_held r)(i := ro_held r i - 1, j := ro_held r j + 1),
                    ro_heldApi := (ro_heldApi r)(i := ro_heldApi r i - 1, j := ro_heldApi r j + 1)\<rparr>)"

definition heldTotal :: "nat \<Rightarrow> (nat \<Rightarrow> nat) \<Rightarrow> nat" where
  "heldTotal n f = sum f {..<n}"

definition entering :: "(nat \<Rightarrow> ref_pc) \<Rightarrow> nat \<Rightarrow> nat" where
  "entering pc i = (if pc i = InIncRefApi then 1 else 0)"

text \<open>The references a thread needs where it stands, when it holds some number of the application's.\<close>

fun needed :: "ref_pc \<Rightarrow> nat \<Rightarrow> nat" where
  "needed Outside a = a"
| "needed InIncRefApi a = max 1 a"
| "needed InDecRefApi a = a + 1"

definition ref_inv :: "nat \<Rightarrow> ReferenceTrackedObject \<Rightarrow> bool" where
  "ref_inv n r \<longleftrightarrow> ro_refInternal r = int (heldTotal n (ro_held r)) \<and> ro_refInternal r \<le> 2147483647 \<and>
     ro_refApi r = int (heldTotal n (ro_heldApi r) + heldTotal n (entering (ro_pc r))) \<and> ro_refApi r \<le> 2147483647 \<and>
     ro_deletions r = (if ro_refInternal r = 0 then 1 else 0) \<and>
     (\<forall>i < n. needed (ro_pc r i) (ro_heldApi r i) \<le> ro_held r i)"

lemma ref_invI:
  assumes "ro_refInternal r = int (heldTotal n (ro_held r))" "ro_refInternal r \<le> 2147483647"
    "ro_refApi r = int (heldTotal n (ro_heldApi r)) + int (heldTotal n (entering (ro_pc r)))" "ro_refApi r \<le> 2147483647"
    "ro_deletions r = (if ro_refInternal r = 0 then 1 else 0)" "\<And>k. k < n \<Longrightarrow> needed (ro_pc r k) (ro_heldApi r k) \<le> ro_held r k"
  shows "ref_inv n r"
  using assms by (simp add: ref_inv_def)

lemma ref_invE:
  assumes "ref_inv n r"
  shows "ro_refInternal r = int (heldTotal n (ro_held r))" "ro_refInternal r \<le> 2147483647"
    "ro_refApi r = int (heldTotal n (ro_heldApi r)) + int (heldTotal n (entering (ro_pc r)))" "ro_refApi r \<le> 2147483647"
    "ro_deletions r = (if ro_refInternal r = 0 then 1 else 0)" "k < n \<Longrightarrow> needed (ro_pc r k) (ro_heldApi r k) \<le> ro_held r k"
  using assms by (simp_all add: ref_inv_def)

lemma entering_upd [simp]: "entering (pc(i := p)) = (entering pc)(i := if p = InIncRefApi then 1 else 0)"
  by (auto simp: entering_def fun_eq_iff)

lemma total_upd: "i < n \<Longrightarrow> heldTotal n (f(i := v)) + f i = heldTotal n f + v"
  by (simp add: heldTotal_def sum.remove [of "{..<n}" i])

lemma total_ge: "i < n \<Longrightarrow> f i \<le> heldTotal n f"
  by (simp add: heldTotal_def member_le_sum)

lemma total_move:
  assumes "i < n" "j < n" "i \<noteq> j" "0 < f i"
  shows "heldTotal n (f(i := f i - 1, j := f j + 1)) = heldTotal n f"
  using total_upd [OF assms(2), of "f(i := f i - 1)" "f j + 1"] total_upd [OF assms(1), of f "f i - 1"] total_ge [OF assms(1), of f] assms(3,4) by simp

lemma total_int:
  assumes "i < n"
  shows "int (heldTotal n (f(i := f i + 1))) = int (heldTotal n f) + 1" "0 < f i \<Longrightarrow> int (heldTotal n (f(i := f i - 1))) = int (heldTotal n f) - 1"
    "int (f i) \<le> int (heldTotal n f)"
  using total_upd [OF assms, of f "f i + 1"] total_upd [OF assms, of f "f i - 1"] total_ge [OF assms, of f] by auto

lemma inc_dec: "0 \<le> c \<Longrightarrow> c < 2147483647 \<Longrightarrow> refCounter_inc c = c + 1" "0 < c \<Longrightarrow> refCounter_dec c = c - 1"
  by (simp_all add: refCounter_inc_def refCounter_dec_def)

lemma held_positive:
  assumes "ref_inv n r" "i < n" "0 < ro_held r i"
  shows "0 < ro_refInternal r" "ro_deletions r = 0"
proof -
  show p: "0 < ro_refInternal r" using ref_invE(1) [OF assms(1)] total_int(3) [OF assms(2), of "ro_held r"] assms(3) by linarith
  show "ro_deletions r = 0" using ref_invE(5) [OF assms(1)] p by simp
qed

lemma decRefInternal_ok:
  assumes "ref_inv n r" "i < n" "0 < ro_held r i"
  shows "decRefInternal i r = Inr (r\<lparr>ro_refInternal := ro_refInternal r - 1, ro_held := (ro_held r)(i := ro_held r i - 1),
    ro_deletions := (if ro_refInternal r = 1 then 1 else 0)\<rparr>)"
  using held_positive [OF assms] by (simp add: decRefInternal_def inc_dec Let_def)

lemma incRefInternal_inv:
  assumes "ref_inv n r" "i < n" "0 < ro_held r i" "ro_refInternal r < 2147483647"
  shows "ref_inv n (incRefInternal i r)"
proof -
  note e = ref_invE [OF assms(1)] and p = held_positive [OF assms(1-3)]
  have "needed (ro_pc r k) (ro_heldApi r k) \<le> ((ro_held r)(i := ro_held r i + 1)) k" if "k < n" for k using e(6) [OF that] by auto
  then show ?thesis
    using e(1,3,4) p assms(4) total_int(1) [OF assms(2), of "ro_held r"]
    by (intro ref_invI) (simp_all add: incRefInternal_def inc_dec)
qed

lemma decRefInternal_inv:
  assumes "ref_inv n r" "i < n" "needed (ro_pc r i) (ro_heldApi r i) < ro_held r i" "decRefInternal i r = Inr r'"
  shows "ref_inv n r'"
proof -
  note e = ref_invE [OF assms(1)]
  have h: "0 < ro_held r i" using assms(3) by simp
  have r': "r' = r\<lparr>ro_refInternal := ro_refInternal r - 1, ro_held := (ro_held r)(i := ro_held r i - 1),
      ro_deletions := (if ro_refInternal r = 1 then 1 else 0)\<rparr>" using assms(4) decRefInternal_ok [OF assms(1,2) h] by simp
  have "needed (ro_pc r k) (ro_heldApi r k) \<le> ((ro_held r)(i := ro_held r i - 1)) k" if "k < n" for k using e(6) [OF that] assms(3) by auto
  then show ?thesis
    using e(1-4) total_int(2) [OF assms(2), of "ro_held r"] h unfolding r' by (intro ref_invI) simp_all
qed

lemma decRefApi_second_eq:
  assumes "ref_inv n r" "i < n" "ro_pc r i = InDecRefApi"
  shows "ref_inv n (r\<lparr>ro_pc := (ro_pc r)(i := Outside)\<rparr>)" "ro_heldApi r i < ro_held r i"
proof -
  note e = ref_invE [OF assms(1)]
  show "ro_heldApi r i < ro_held r i" using e(6) [OF assms(2)] assms(3) by simp
  then have "needed (((ro_pc r)(i := Outside)) k) (ro_heldApi r k) \<le> ro_held r k" if "k < n" for k using e(6) [OF that] by simp
  moreover have "(entering (ro_pc r))(i := 0) = entering (ro_pc r)" using assms(3) by (auto simp: entering_def fun_eq_iff)
  ultimately show "ref_inv n (r\<lparr>ro_pc := (ro_pc r)(i := Outside)\<rparr>)" using e(1-5) by (intro ref_invI) simp_all
qed

lemma incRefApi_inv:
  assumes "ref_inv n r" "i < n"
  shows "ro_pc r i = Outside \<Longrightarrow> 0 < ro_held r i \<Longrightarrow> ro_refApi r < 2147483647 \<Longrightarrow> ref_inv n (incRefApi_first i r)"
    "ro_pc r i = InIncRefApi \<Longrightarrow> ro_refInternal r < 2147483647 \<Longrightarrow> ref_inv n (incRefApi_second i r)"
proof -
  note e = ref_invE [OF assms(1)]
  show "ref_inv n (incRefApi_first i r)" if h: "ro_pc r i = Outside" "0 < ro_held r i" "ro_refApi r < 2147483647"
  proof -
    have "needed (((ro_pc r)(i := InIncRefApi)) k) (ro_heldApi r k) \<le> ro_held r k" if "k < n" for k using e(6) [OF that] h(1,2) by auto
    moreover have "entering (ro_pc r) i = 0" using h(1) by (simp add: entering_def)
    ultimately show ?thesis
      using e(1-5) h(3) total_int(1) [OF assms(2), of "entering (ro_pc r)"] by (intro ref_invI) (simp_all add: incRefApi_first_def inc_dec)
  qed
  show "ref_inv n (incRefApi_second i r)" if h: "ro_pc r i = InIncRefApi" "ro_refInternal r < 2147483647"
  proof -
    have one: "entering (ro_pc r) i = 1" using h(1) by (simp add: entering_def)
    have held: "0 < ro_held r i" using e(6) [OF assms(2)] h(1) by simp
    have "needed (((ro_pc r)(i := Outside)) k) (((ro_heldApi r)(i := ro_heldApi r i + 1)) k) \<le> ((ro_held r)(i := ro_held r i + 1)) k" if "k < n" for k
      using e(6) [OF that] h(1) by auto
    then show ?thesis
      using e(1-4) h(2) one held_positive [OF assms held] total_int(1) [OF assms(2), of "ro_held r"] total_int(1) [OF assms(2), of "ro_heldApi r"]
        total_int(2) [OF assms(2), of "entering (ro_pc r)"]
      by (intro ref_invI) (simp_all add: incRefApi_second_def incRefInternal_def inc_dec)
  qed
qed

lemma decRefApi_first_inv:
  assumes "ref_inv n r" "i < n" "ro_pc r i = Outside" "0 < ro_heldApi r i"
  shows "ref_inv n (decRefApi_first i r)"
proof -
  note e = ref_invE [OF assms(1)]
  have "needed (((ro_pc r)(i := InDecRefApi)) k) (((ro_heldApi r)(i := ro_heldApi r i - 1)) k) \<le> ro_held r k" if "k < n" for k
    using e(6) [OF that] assms(3,4) by auto
  moreover have "(entering (ro_pc r))(i := 0) = entering (ro_pc r)" using assms(3) by (auto simp: entering_def fun_eq_iff)
  moreover have "0 < ro_refApi r" using e(3) total_int(3) [OF assms(2), of "ro_heldApi r"] assms(4) by linarith
  ultimately show ?thesis
    using e(1-5) total_int(2) [OF assms(2), of "ro_heldApi r"] assms(4) by (intro ref_invI) (simp_all add: decRefApi_first_def inc_dec)
qed

lemma handOver_inv:
  assumes "ref_inv n r" "i < n" "j < n" "i \<noteq> j" "ro_pc r i = Outside"
  shows "ro_heldApi r i < ro_held r i \<Longrightarrow> ref_inv n (r\<lparr>ro_held := (ro_held r)(i := ro_held r i - 1, j := ro_held r j + 1)\<rparr>)"
    "0 < ro_heldApi r i \<Longrightarrow> ref_inv n (r\<lparr>ro_held := (ro_held r)(i := ro_held r i - 1, j := ro_held r j + 1),
       ro_heldApi := (ro_heldApi r)(i := ro_heldApi r i - 1, j := ro_heldApi r j + 1)\<rparr>)"
proof -
  note e = ref_invE [OF assms(1)]
  show "ref_inv n (r\<lparr>ro_held := (ro_held r)(i := ro_held r i - 1, j := ro_held r j + 1)\<rparr>)" if h: "ro_heldApi r i < ro_held r i"
  proof -
    have "needed (ro_pc r k) (ro_heldApi r k) \<le> ((ro_held r)(i := ro_held r i - 1, j := ro_held r j + 1)) k" if "k < n" for k
      using e(6) [OF that] assms(4,5) h by auto
    then show ?thesis using e(1-5) total_move [OF assms(2-4), of "ro_held r"] h by (intro ref_invI) simp_all
  qed
  show "ref_inv n (r\<lparr>ro_held := (ro_held r)(i := ro_held r i - 1, j := ro_held r j + 1),
       ro_heldApi := (ro_heldApi r)(i := ro_heldApi r i - 1, j := ro_heldApi r j + 1)\<rparr>)" if h: "0 < ro_heldApi r i"
  proof -
    have le: "ro_heldApi r i \<le> ro_held r i" using e(6) [OF assms(2)] assms(5) by simp
    have "needed (ro_pc r j) (ro_heldApi r j + 1) \<le> ro_held r j + 1" using e(6) [OF assms(3)] by (cases "ro_pc r j") auto
    then have "needed (ro_pc r k) (((ro_heldApi r)(i := ro_heldApi r i - 1, j := ro_heldApi r j + 1)) k) \<le>
        ((ro_held r)(i := ro_held r i - 1, j := ro_held r j + 1)) k" if "k < n" for k
      using e(6) [OF that] assms(4,5) le by auto
    then show ?thesis
      using e(1-5) total_move [OF assms(2-4), of "ro_held r"] total_move [OF assms(2-4), of "ro_heldApi r"] h le by (intro ref_invI) simp_all
  qed
qed

lemma ref_step_inv:
  assumes "ref_step n r r'" "ref_inv n r"
  shows "ref_inv n r'"
  using assms
proof (induction rule: ref_step.induct)
  case (step_decInternal i r r')
  have "needed (ro_pc r i) (ro_heldApi r i) < ro_held r i" using step_decInternal(2,3) by simp
  then show ?case using decRefInternal_inv [OF step_decInternal(5,1)] step_decInternal(4) by blast
next
  case (step_decApi2 i r r')
  note d = decRefApi_second_eq [OF step_decApi2(4,1,2)]
  show ?case by (rule decRefInternal_inv [OF d(1) step_decApi2(1) _ step_decApi2(3) [unfolded decRefApi_second_def]]) (use d(2) in simp)
qed (blast intro: incRefInternal_inv incRefApi_inv decRefApi_first_inv handOver_inv)+

interpretation references: step_invariant "ref_step n" "ref_inv n" for n
  by unfold_locales (rule ref_step_inv)


lemma entering_none [simp]: "entering (\<lambda>_. Outside) i = 0"
  by (simp add: entering_def)

lemma object_create_inv: "0 < n \<Longrightarrow> ref_inv n object_create"
  by (rule ref_invI)
    (simp_all add: object_create_def incRefApi_second_def incRefApi_first_def incRefInternal_def inc_dec heldTotal_def sum.delta cong: if_cong)

section \<open>Properties\<close>

text \<open>Claim C26. However threads interleave that use an object only while they hold a reference to it, the internal counter is the number of references held, so
  the object is deleted exactly once, by the thread that gives the last one back, and never while a thread holds one; the check for a
  negative counter never fails, and whenever no thread is inside an operation the application reads the number of its own references.\<close>

theorem references_exact:
  assumes "(ref_step n)\<^sup>*\<^sup>* object_create r" "0 < n"
  shows "ro_refInternal r = int (\<Sum>i<n. ro_held r i) \<and> ro_deletions r = (if (\<Sum>i<n. ro_held r i) = 0 then 1 else 0) \<and>
    ((\<forall>i<n. ro_pc r i = Outside) \<longrightarrow> ro_refApi r = int (\<Sum>i<n. ro_heldApi r i)) \<and>
    (\<forall>i<n. ro_held r i > 0 \<longrightarrow> (\<exists>r'. decRefInternal i r = Inr r' \<and> (ro_deletions r' = 1 \<longleftrightarrow> (\<Sum>i<n. ro_held r i) = 1)))"
proof -
  have i: "ref_inv n r" by (rule references.run_inv [OF assms(1) object_create_inv [OF assms(2)]])
  note e = ref_invE [OF i, unfolded heldTotal_def]
  have "(\<Sum>i<n. entering (ro_pc r) i) = 0" if "\<forall>i<n. ro_pc r i = Outside" using that by (simp add: entering_def)
  moreover have "\<exists>r'. decRefInternal k r = Inr r' \<and> (ro_deletions r' = 1 \<longleftrightarrow> (\<Sum>i<n. ro_held r i) = 1)" if "k < n" "0 < ro_held r k" for k
    using decRefInternal_ok [OF i that] e(1) by (simp del: of_nat_sum)
  ultimately show ?thesis using e(1,3,5) by (simp del: of_nat_sum)
qed

theorem references_exact_witness:
  "ro_refInternal (incRefInternal 0 object_create) = int (\<Sum>i<2. ro_held (incRefInternal 0 object_create) i)"
proof -
  have "ref_step 2 object_create (incRefInternal 0 object_create)"
    by (rule step_incInternal) (simp_all add: object_create_def incRefApi_second_def incRefApi_first_def incRefInternal_def inc_dec)
  from references_exact [OF r_into_rtranclp [of "ref_step 2", OF this]] show ?thesis by simp
qed

end
