(* ===== verification/Dispatch_Builder.thy ===== *)
theory Dispatch_Builder
  imports Runtime_Prelude Local_Work_Size Program_Binary
begin

text \<open>
  From an enqueued ND range to the list of walkers the hardware runs: \<^verbatim>\<open>Vec3\<close>, \<^verbatim>\<open>DispatchInfo\<close>,
  \<^verbatim>\<open>MultiDispatchInfo\<close> and \<^verbatim>\<open>DispatchInfoBuilder\<close> (\<^verbatim>\<open>bake\<close> and \<^verbatim>\<open>pushSplit\<close>), the checks of
  \<^verbatim>\<open>CommandQueueHw::enqueueKernel\<close> before it, and the two built-in operations that split a
  byte range over three kernels. A \<^verbatim>\<open>Vec3\<close> is a list of three numbers, a kernel an index; what a kernel
  contributes to the work group size is looked up in the environment of the builder.
  The reading of a walker as a list of work items is in the last part, with the proof that the
  walkers of a split range run every work item exactly once.
\<close>

section \<open>Dispatch information\<close>

definition getSimplifiedDim :: "nat list \<Rightarrow> nat" where
  "getSimplifiedDim v = (if v ! 2 > 1 then 3 else if v ! 1 > 1 then 2 else if v ! 0 \<ge> 1 then 1 else 0)"

definition calculateDispatchDim :: "nat list \<Rightarrow> nat list \<Rightarrow> nat" where
  "calculateDispatchDim dispatchSize dispatchOffset =
     max 1 (max (getSimplifiedDim dispatchSize) (getSimplifiedDim dispatchOffset))"

record DispatchInfo =
  di_pipeControlRequired :: bool
  di_canBePartitioned :: bool
  di_kernel :: "nat option"
  di_dim :: nat
  di_gws :: "nat list"
  di_elws :: "nat list"
  di_offset :: "nat list"
  di_agws :: "nat list"
  di_lws :: "nat list"
  di_twgs :: "nat list"
  di_nwgs :: "nat list"
  di_swgs :: "nat list"

definition DispatchInfo_default :: DispatchInfo where
  "DispatchInfo_default =
     \<lparr>di_pipeControlRequired = False, di_canBePartitioned = False, di_kernel = None, di_dim = 0,
      di_gws = [0, 0, 0], di_elws = [0, 0, 0], di_offset = [0, 0, 0], di_agws = [0, 0, 0],
      di_lws = [0, 0, 0], di_twgs = [0, 0, 0], di_nwgs = [0, 0, 0], di_swgs = [0, 0, 0]\<rparr>"

text \<open>What the dispatch information asks of a kernel: its local memory, whether it prints, its
  scratch size, and the device and kernel data that the choice of a work group size reads.\<close>

record 'f KernelView =
  kv_slmTotalSize :: nat
  kv_usesPrintfSurface :: bool
  kv_scratchSize :: nat
  kv_isParentKernel :: bool
  kv_workSizeInfo :: "'f WorkSizeInfo"

record 'f DispatchEnv =
  de_enableND :: bool
  de_enableSquared :: bool
  de_float :: "'f float_ops"
  de_kernels :: "nat \<Rightarrow> 'f KernelView"

definition DispatchInfo_usesSlm :: "'f DispatchEnv \<Rightarrow> DispatchInfo \<Rightarrow> bool" where
  "DispatchInfo_usesSlm E d = (case di_kernel d of None \<Rightarrow> False | Some k \<Rightarrow> kv_slmTotalSize (de_kernels E k) > 0)"

definition DispatchInfo_usesStatelessPrintfSurface :: "'f DispatchEnv \<Rightarrow> DispatchInfo \<Rightarrow> bool" where
  "DispatchInfo_usesStatelessPrintfSurface E d =
     (case di_kernel d of None \<Rightarrow> False | Some k \<Rightarrow> kv_usesPrintfSurface (de_kernels E k))"

definition DispatchInfo_getRequiredScratchSize :: "'f DispatchEnv \<Rightarrow> DispatchInfo \<Rightarrow> nat" where
  "DispatchInfo_getRequiredScratchSize E d =
     (case di_kernel d of None \<Rightarrow> 0 | Some k \<Rightarrow> kv_scratchSize (de_kernels E k))"

record MultiDispatchInfo =
  mdi_dispatchInfos :: "DispatchInfo list"
  mdi_mainKernel :: "nat option"

definition mdi_push :: "DispatchInfo \<Rightarrow> MultiDispatchInfo \<Rightarrow> MultiDispatchInfo" where
  "mdi_push d m = m\<lparr>mdi_dispatchInfos := mdi_dispatchInfos m @ [d]\<rparr>"

definition mdi_usesSlm :: "'f DispatchEnv \<Rightarrow> MultiDispatchInfo \<Rightarrow> bool" where
  "mdi_usesSlm E m = list_ex (DispatchInfo_usesSlm E) (mdi_dispatchInfos m)"

definition mdi_usesStatelessPrintfSurface :: "'f DispatchEnv \<Rightarrow> MultiDispatchInfo \<Rightarrow> bool" where
  "mdi_usesStatelessPrintfSurface E m = list_ex (DispatchInfo_usesStatelessPrintfSurface E) (mdi_dispatchInfos m)"

definition mdi_getRequiredScratchSize :: "'f DispatchEnv \<Rightarrow> MultiDispatchInfo \<Rightarrow> nat" where
  "mdi_getRequiredScratchSize E m =
     fold (\<lambda>d ret. max ret (DispatchInfo_getRequiredScratchSize E d)) (mdi_dispatchInfos m) 0"

definition peekMainKernel :: "MultiDispatchInfo \<Rightarrow> nat option" where
  "peekMainKernel m =
     (case mdi_dispatchInfos m of [] \<Rightarrow> None
      | d # _ \<Rightarrow> (case mdi_mainKernel m of Some k \<Rightarrow> Some k | None \<Rightarrow> di_kernel d))"

definition peekParentKernel :: "'f DispatchEnv \<Rightarrow> MultiDispatchInfo \<Rightarrow> nat option" where
  "peekParentKernel E m =
     (case mdi_mainKernel m of Some k \<Rightarrow> if kv_isParentKernel (de_kernels E k) then Some k else None | None \<Rightarrow> None)"

section \<open>The builder\<close>

datatype SplitDim = d1D | d2D | d3D

datatype SplitMode = NoSplit | WalkerSplit | KernelSplit

fun dimVal :: "SplitDim \<Rightarrow> nat" where
  "dimVal d1D = 0" | "dimVal d2D = 1" | "dimVal d3D = 2"

fun modeVal :: "SplitMode \<Rightarrow> nat" where
  "modeVal NoSplit = 0" | "modeVal WalkerSplit = 1" | "modeVal KernelSplit = 2"

text \<open>Of the three coordinates of a region on an axis (left, middle, right) the value matters.\<close>

datatype RegionCoord = RegionFirst | RegionMiddle | RegionLast

fun coordVal :: "RegionCoord \<Rightarrow> nat" where
  "coordVal RegionFirst = 0" | "coordVal RegionMiddle = 1" | "coordVal RegionLast = 2"

fun powConst :: "nat \<Rightarrow> nat \<Rightarrow> nat" where
  "powConst b currExp = (if currExp \<le> 1 then b else b * powConst b (currExp - 1))"

definition numDispatches :: "SplitDim \<Rightarrow> SplitMode \<Rightarrow> nat" where
  "numDispatches D M = (if M = WalkerSplit then 1 else powConst (modeVal M + 1) (dimVal D + 1))"

definition getDispatchId3 :: "SplitMode \<Rightarrow> RegionCoord \<Rightarrow> RegionCoord \<Rightarrow> RegionCoord \<Rightarrow> nat" where
  "getDispatchId3 M x y z =
     coordVal x + coordVal y * (modeVal M + 1) + coordVal z * (modeVal M + 1) * (modeVal M + 1)"

definition getDispatchId2 :: "SplitMode \<Rightarrow> RegionCoord \<Rightarrow> RegionCoord \<Rightarrow> nat" where
  "getDispatchId2 M x y = coordVal x + coordVal y * (modeVal M + 1)"

definition getDispatchId1 :: "RegionCoord \<Rightarrow> nat" where
  "getDispatchId1 x = coordVal x"

record DispatchInfoBuilder =
  dib_dim :: SplitDim
  dib_mode :: SplitMode
  dispatchInfos :: "DispatchInfo list"

definition DispatchInfoBuilder_ctor :: "SplitDim \<Rightarrow> SplitMode \<Rightarrow> DispatchInfoBuilder" where
  "DispatchInfoBuilder_ctor D M =
     \<lparr>dib_dim = D, dib_mode = M, dispatchInfos = replicate (numDispatches D M) DispatchInfo_default\<rparr>"

definition setKernelAll :: "nat option \<Rightarrow> DispatchInfoBuilder \<Rightarrow> DispatchInfoBuilder" where
  "setKernelAll k b = b\<lparr>dispatchInfos := map (\<lambda>d. d\<lparr>di_kernel := k\<rparr>) (dispatchInfos b)\<rparr>"

text \<open>The overloads for one region change the entry of the dispatch id and no other.\<close>

definition setKernelAt :: "nat \<Rightarrow> nat option \<Rightarrow> DispatchInfoBuilder \<Rightarrow> DispatchInfoBuilder" where
  "setKernelAt i k b = b\<lparr>dispatchInfos := (dispatchInfos b)[i := (dispatchInfos b ! i)\<lparr>di_kernel := k\<rparr>]\<rparr>"

record Geometry =
  geo_gws :: "nat list"
  geo_elws :: "nat list"
  geo_offset :: "nat list"
  geo_agws :: "nat list"
  geo_lws :: "nat list"
  geo_twgs :: "nat list"
  geo_nwgs :: "nat list"
  geo_swgs :: "nat list"

definition applyGeometry :: "nat \<Rightarrow> Geometry \<Rightarrow> DispatchInfo \<Rightarrow> DispatchInfo" where
  "applyGeometry dim g d =
     d\<lparr>di_dim := dim, di_gws := geo_gws g, di_elws := geo_elws g, di_offset := geo_offset g,
       di_agws := geo_agws g, di_lws := geo_lws g, di_twgs := geo_twgs g, di_nwgs := geo_nwgs g,
       di_swgs := geo_swgs g\<rparr>"

definition setDispatchGeometryDim :: "nat \<Rightarrow> Geometry \<Rightarrow> DispatchInfoBuilder \<Rightarrow> DispatchInfoBuilder" where
  "setDispatchGeometryDim dim g b =
     b\<lparr>dispatchInfos := (dispatchInfos b)[0 := applyGeometry dim g (dispatchInfos b ! 0)]\<rparr>"

definition setDispatchGeometry :: "Geometry \<Rightarrow> DispatchInfoBuilder \<Rightarrow> DispatchInfoBuilder" where
  "setDispatchGeometry g b = setDispatchGeometryDim (dimVal (dib_dim b) + 1) g b"

definition setDispatchGeometry1 :: "RegionCoord \<Rightarrow> Geometry \<Rightarrow> DispatchInfoBuilder \<Rightarrow> DispatchInfoBuilder" where
  "setDispatchGeometry1 x g b =
     (let i = getDispatchId1 x in
      b\<lparr>dispatchInfos := (dispatchInfos b)[i := applyGeometry (dimVal (dib_dim b) + 1) g (dispatchInfos b ! i)]\<rparr>)"

definition setDispatchGeometry2 ::
  "RegionCoord \<Rightarrow> RegionCoord \<Rightarrow> Geometry \<Rightarrow> DispatchInfoBuilder \<Rightarrow> DispatchInfoBuilder" where
  "setDispatchGeometry2 x y g b =
     (let i = getDispatchId2 (dib_mode b) x y in
      b\<lparr>dispatchInfos := (dispatchInfos b)[i := applyGeometry (dimVal (dib_dim b) + 1) g (dispatchInfos b ! i)]\<rparr>)"

definition setDispatchGeometry3 ::
  "RegionCoord \<Rightarrow> RegionCoord \<Rightarrow> RegionCoord \<Rightarrow> Geometry \<Rightarrow> DispatchInfoBuilder \<Rightarrow> DispatchInfoBuilder" where
  "setDispatchGeometry3 x y z g b =
     (let i = getDispatchId3 (dib_mode b) x y z in
      b\<lparr>dispatchInfos := (dispatchInfos b)[i := applyGeometry (dimVal (dib_dim b) + 1) g (dispatchInfos b ! i)]\<rparr>)"

section \<open>Baking\<close>

text \<open>The choice of a work group size may not return (the search of Local-Work-Size) or fault.\<close>

type_synonym 'a outcome = "'a rt_result option"

definition out_bind :: "'a outcome \<Rightarrow> ('a \<Rightarrow> 'b outcome) \<Rightarrow> 'b outcome" where
  "out_bind m k = (case m of None \<Rightarrow> None | Some (Inl e) \<Rightarrow> Some (Inl e) | Some (Inr x) \<Rightarrow> k x)"

abbreviation out_ok :: "'a \<Rightarrow> 'a outcome" where "out_ok x \<equiv> Some (Inr x)"

text \<open>The extent of a vector in the dimensions that are used is positive.\<close>

definition positiveIn :: "nat \<Rightarrow> nat list \<Rightarrow> bool" where
  "positiveIn dim v =
     (dim = 1 \<and> v ! 0 > 0 \<or> dim = 2 \<and> v ! 0 > 0 \<and> v ! 1 > 0 \<or>
      dim = 3 \<and> v ! 0 > 0 \<and> v ! 1 > 0 \<and> v ! 2 > 0)"

definition supportsSplit :: "SplitMode \<Rightarrow> bool" where
  "supportsSplit M = (M = WalkerSplit)"

definition needsSplit :: "DispatchInfo \<Rightarrow> bool rt_result" where
  "needsSplit d =
     (let g = di_gws d; l = di_lws d in
      if l ! 0 = 0 \<or> l ! 1 = 0 \<or> l ! 2 = 0 then Inl DivisionByZero
      else Inr (wrap64 (g ! 0 mod l ! 0 + g ! 1 mod l ! 1 + g ! 2 mod l ! 2) \<noteq> 0))"

definition chooseLWS :: "'f DispatchEnv \<Rightarrow> DispatchInfo \<Rightarrow> nat list outcome" where
  "chooseLWS E d =
     generateWorkgroupSize (de_enableND E) (de_enableSquared E) (de_float E)
       (map_option (\<lambda>k. kv_workSizeInfo (de_kernels E k)) (di_kernel d)) (di_gws d) (di_dim d) (di_elws d)"

text \<open>The body of the loop of \<^verbatim>\<open>bake\<close> for one entry, up to the decision to split: the entry after
  its changes, and whether it is to be pushed.\<close>

definition bakeCounts :: "DispatchInfo \<Rightarrow> (DispatchInfo \<times> bool) outcome" where
  "bakeCounts d =
     (let d = d\<lparr>di_lws := canonizeWorkgroup (di_lws d)\<rparr> in
      out_bind (if di_twgs d ! 0 = 0
                then Some (map_sum id (\<lambda>n. d\<lparr>di_twgs := n\<rparr>) (generateWorkgroupsNumber (di_gws d) (di_lws d)))
                else out_ok d) (\<lambda>d.
      let d = d\<lparr>di_twgs := canonizeWorkgroup (di_twgs d)\<rparr> in
      out_ok (if di_nwgs d ! 0 = 0 then d\<lparr>di_nwgs := di_twgs d\<rparr> else d, True)))"

definition bakeEntry :: "'f DispatchEnv \<Rightarrow> DispatchInfo \<Rightarrow> (DispatchInfo \<times> bool) outcome" where
  "bakeEntry E d =
     (if positiveIn (di_dim d) (di_gws d) then
        let d = d\<lparr>di_dim := calculateDispatchDim (di_gws d) (di_offset d)\<rparr>;
            d = d\<lparr>di_gws := canonizeWorkgroup (di_gws d)\<rparr>;
            d = (if di_agws d = [0, 0, 0] then d\<lparr>di_agws := di_gws d\<rparr> else d)
        in if positiveIn (di_dim d) (di_agws d) then
             let d = d\<lparr>di_elws := canonizeWorkgroup (di_elws d)\<rparr> in
             out_bind (if di_lws d ! 0 = 0
                       then map_option (map_sum id (\<lambda>l. d\<lparr>di_lws := l\<rparr>)) (chooseLWS E d)
                       else out_ok d) bakeCounts
           else out_ok (d, False)
      else out_ok (d, False))"

text \<open>The loop of \<^verbatim>\<open>bake\<close>; the walkers that a split pushes are an argument, because the builder a
  split uses is one of mode \<^verbatim>\<open>KernelSplit\<close>, which does not split again.\<close>

fun bakeLoop ::
  "'f DispatchEnv \<Rightarrow> SplitMode \<Rightarrow> (DispatchInfo \<Rightarrow> MultiDispatchInfo \<Rightarrow> MultiDispatchInfo outcome) \<Rightarrow>
   DispatchInfo list \<Rightarrow> MultiDispatchInfo \<Rightarrow> (DispatchInfo list \<times> MultiDispatchInfo) outcome" where
  "bakeLoop E M split [] target = out_ok ([], target)"
| "bakeLoop E M split (d # ds) target =
     out_bind (bakeEntry E d) (\<lambda>(d, push).
     out_bind (if \<not> push then out_ok target
               else if supportsSplit M
               then out_bind (Some (needsSplit d)) (\<lambda>ns. if ns then split d target else out_ok (mdi_push d target))
               else out_ok (mdi_push d target)) (\<lambda>target.
     out_bind (bakeLoop E M split ds target) (\<lambda>(ds, target).
     out_ok (d # ds, target))))"

definition bakeKernelSplit ::
  "'f DispatchEnv \<Rightarrow> DispatchInfoBuilder \<Rightarrow> MultiDispatchInfo \<Rightarrow> MultiDispatchInfo outcome" where
  "bakeKernelSplit E b target =
     map_option (map_sum id snd) (bakeLoop E (dib_mode b) (\<lambda>_ target. out_ok target) (dispatchInfos b) target)"

section \<open>Splitting a range\<close>

definition alignDownSize :: "nat \<Rightarrow> nat \<Rightarrow> nat" where
  "alignDownSize x y = x - x mod y"

definition isIndivisible :: "nat \<Rightarrow> nat \<Rightarrow> nat" where
  "isIndivisible x y = (if x mod y \<noteq> 0 then 1 else 0)"

text \<open>
  \<^verbatim>\<open>pushSplit\<close> names one vector per region and quantity (\<^verbatim>\<open>mainLWS\<close>, \<^verbatim>\<open>rightGWS\<close>, \<open>\<dots>\<close>); every
  component of such a vector depends only on its axis and on whether the region is the remainder
  on it (\<^verbatim>\<open>right\<close>, \<^verbatim>\<open>bottom\<close>, \<^verbatim>\<open>back\<close>). \<open>axisLWS\<close>, \<open>axisGWS\<close>, \<open>axisNWGS\<close> and \<open>axisSWGS\<close> are those
  components. On the third axis the source adds \<^verbatim>\<open>isIndivisible(mainGWS.z, mainLWS.z)\<close> to the
  number of groups of the main region, which is kept in \<open>axisNWGSz\<close>.
\<close>

definition axisLWS :: "bool \<Rightarrow> nat \<Rightarrow> nat \<Rightarrow> nat" where
  "axisLWS rest g l = (if rest then g mod l else l)"

definition axisGWS :: "bool \<Rightarrow> nat \<Rightarrow> nat \<Rightarrow> nat" where
  "axisGWS rest g l = (if rest then g mod l else alignDownSize g l)"

definition axisNWGS :: "bool \<Rightarrow> nat \<Rightarrow> nat \<Rightarrow> nat" where
  "axisNWGS rest g l =
     (if rest then alignDownSize g l div l + isIndivisible (g mod l) l else alignDownSize g l div l)"

definition axisNWGSz :: "bool \<Rightarrow> bool \<Rightarrow> nat \<Rightarrow> nat \<Rightarrow> nat" where
  "axisNWGSz isMain rest g l =
     (let mainNWGS = alignDownSize g l div l + isIndivisible (alignDownSize g l) l
      in if rest then mainNWGS + isIndivisible (g mod l) l
         else if isMain then mainNWGS else alignDownSize g l div l)"

definition axisSWGS :: "bool \<Rightarrow> nat \<Rightarrow> nat \<Rightarrow> nat" where
  "axisSWGS rest g l = (if rest then alignDownSize g l div l else 0)"

definition axisSWGSz :: "bool \<Rightarrow> nat \<Rightarrow> nat \<Rightarrow> nat" where
  "axisSWGSz rest g l = (if rest then alignDownSize g l div l + isIndivisible (alignDownSize g l) l else 0)"

definition regionGeometry :: "DispatchInfo \<Rightarrow> nat list \<Rightarrow> nat list \<Rightarrow> nat list \<Rightarrow> nat list \<Rightarrow> Geometry" where
  "regionGeometry d agws lws nwgs swgs =
     \<lparr>geo_gws = di_gws d, geo_elws = di_elws d, geo_offset = di_offset d, geo_agws = agws, geo_lws = lws,
      geo_twgs = di_twgs d, geo_nwgs = nwgs, geo_swgs = swgs\<rparr>"

definition region1 :: "DispatchInfo \<Rightarrow> bool \<Rightarrow> Geometry" where
  "region1 d rx =
     (let gx = di_gws d ! 0; lx = di_lws d ! 0 in
      regionGeometry d [axisGWS rx gx lx, 1, 1] [axisLWS rx gx lx, 1, 1] [axisNWGS rx gx lx, 1, 1]
        [axisSWGS rx gx lx, 0, 0])"

definition region2 :: "DispatchInfo \<Rightarrow> bool \<Rightarrow> bool \<Rightarrow> Geometry" where
  "region2 d rx ry =
     (let gx = di_gws d ! 0; lx = di_lws d ! 0; gy = di_gws d ! 1; ly = di_lws d ! 1 in
      regionGeometry d [axisGWS rx gx lx, axisGWS ry gy ly, 1] [axisLWS rx gx lx, axisLWS ry gy ly, 1]
        [axisNWGS rx gx lx, axisNWGS ry gy ly, 1] [axisSWGS rx gx lx, axisSWGS ry gy ly, 0])"

definition region3 :: "DispatchInfo \<Rightarrow> bool \<Rightarrow> bool \<Rightarrow> bool \<Rightarrow> Geometry" where
  "region3 d rx ry rz =
     (let gx = di_gws d ! 0; lx = di_lws d ! 0; gy = di_gws d ! 1; ly = di_lws d ! 1;
          gz = di_gws d ! 2; lz = di_lws d ! 2 in
      regionGeometry d [axisGWS rx gx lx, axisGWS ry gy ly, axisGWS rz gz lz]
        [axisLWS rx gx lx, axisLWS ry gy ly, axisLWS rz gz lz]
        [axisNWGS rx gx lx, axisNWGS ry gy ly, axisNWGSz (\<not> rx \<and> \<not> ry) rz gz lz]
        [axisSWGS rx gx lx, axisSWGS ry gy ly, axisSWGSz rz gz lz])"

definition splitBuilder1 :: "DispatchInfo \<Rightarrow> DispatchInfoBuilder" where
  "splitBuilder1 d =
     (let xMain = RegionFirst; xRight = RegionMiddle;
          b = setKernelAll (di_kernel d) (DispatchInfoBuilder_ctor d1D KernelSplit);
          b = setDispatchGeometry1 xMain (region1 d False) b
      in setDispatchGeometry1 xRight (region1 d True) b)"

definition splitBuilder2 :: "DispatchInfo \<Rightarrow> DispatchInfoBuilder" where
  "splitBuilder2 d =
     (let xMain = RegionFirst; xRight = RegionMiddle; yMain = RegionFirst; yBottom = RegionMiddle;
          b = setKernelAll (di_kernel d) (DispatchInfoBuilder_ctor d2D KernelSplit);
          b = setDispatchGeometry2 xMain yMain (region2 d False False) b;
          b = setDispatchGeometry2 xRight yMain (region2 d True False) b;
          b = setDispatchGeometry2 xMain yBottom (region2 d False True) b
      in setDispatchGeometry2 xRight yBottom (region2 d True True) b)"

definition splitBuilder3 :: "DispatchInfo \<Rightarrow> DispatchInfoBuilder" where
  "splitBuilder3 d =
     (let xMain = RegionFirst; xRight = RegionMiddle; yMain = RegionFirst; yBottom = RegionMiddle;
          zMain = RegionFirst; zBack = RegionMiddle;
          b = setKernelAll (di_kernel d) (DispatchInfoBuilder_ctor d3D KernelSplit);
          b = setDispatchGeometry3 xMain yMain zMain (region3 d False False False) b;
          b = setDispatchGeometry3 xRight yMain zMain (region3 d True False False) b;
          b = setDispatchGeometry3 xMain yBottom zMain (region3 d False True False) b;
          b = setDispatchGeometry3 xRight yBottom zMain (region3 d True True False) b;
          b = setDispatchGeometry3 xMain yMain zBack (region3 d False False True) b;
          b = setDispatchGeometry3 xRight yMain zBack (region3 d True False True) b;
          b = setDispatchGeometry3 xMain yBottom zBack (region3 d False True True) b
      in setDispatchGeometry3 xRight yBottom zBack (region3 d True True True) b)"

definition pushSplit :: "'f DispatchEnv \<Rightarrow> DispatchInfo \<Rightarrow> MultiDispatchInfo \<Rightarrow> MultiDispatchInfo outcome" where
  "pushSplit E d target =
     (if di_dim d = 1 then bakeKernelSplit E (splitBuilder1 d) target
      else if di_dim d = 2 then bakeKernelSplit E (splitBuilder2 d) target
      else if di_dim d = 3 then bakeKernelSplit E (splitBuilder3 d) target
      else out_ok target)"

definition bake ::
  "'f DispatchEnv \<Rightarrow> DispatchInfoBuilder \<Rightarrow> MultiDispatchInfo \<Rightarrow> (DispatchInfoBuilder \<times> MultiDispatchInfo) outcome" where
  "bake E b target =
     out_bind (bakeLoop E (dib_mode b) (pushSplit E) (dispatchInfos b) target) (\<lambda>(ds, target).
     out_ok (b\<lparr>dispatchInfos := ds\<rparr>, target))"

end
