(* ===== verification/Walker_Split.thy ===== *)
theory Walker_Split
  imports Dispatch_Builder
begin

text \<open>
  The work items a list of walkers runs, and the proof that the walkers \<^verbatim>\<open>bake\<close> pushes for a range
  run every work item of the range exactly once. A walker runs the work groups from
  \<^verbatim>\<open>startOfWorkgroups\<close> up to \<^verbatim>\<open>numberOfWorkgroups\<close> on each axis, and the item \<open>i\<close> of group \<open>k\<close> has
  the identifier \<open>k * elws + i\<close> on that axis (before the global offset is added), where \<open>elws\<close> is the
  enqueued local size that \<^verbatim>\<open>HardwareInterface::dispatchWalker\<close> hands to the kernel.
\<close>

section \<open>Work items\<close>

definition axis_ids :: "nat \<Rightarrow> nat \<Rightarrow> nat \<Rightarrow> nat \<Rightarrow> nat list" where
  "axis_ids e s n l = concat (map (\<lambda>k. map (\<lambda>i. k * e + i) [0..<l]) [s..<n])"

definition walkerElws :: "DispatchInfo \<Rightarrow> nat list" where
  "walkerElws d = (if di_elws d ! 0 > 0 then di_elws d else di_lws d)"

definition walkerNwgs :: "DispatchInfo \<Rightarrow> nat list" where
  "walkerNwgs d = (if di_nwgs d ! 0 > 0 then di_nwgs d else di_twgs d)"

definition items_of :: "nat list \<Rightarrow> nat list \<Rightarrow> nat list \<Rightarrow> nat list \<Rightarrow> (nat \<times> nat \<times> nat) list" where
  "items_of e s n l =
     List.product (axis_ids (e ! 0) (s ! 0) (n ! 0) (l ! 0))
       (List.product (axis_ids (e ! 1) (s ! 1) (n ! 1) (l ! 1)) (axis_ids (e ! 2) (s ! 2) (n ! 2) (l ! 2)))"

definition walker_items :: "DispatchInfo \<Rightarrow> (nat \<times> nat \<times> nat) list" where
  "walker_items d = items_of (walkerElws d) (di_swgs d) (walkerNwgs d) (di_lws d)"

definition total_items :: "MultiDispatchInfo \<Rightarrow> (nat \<times> nat \<times> nat) multiset" where
  "total_items m = mset (concat (map walker_items (mdi_dispatchInfos m)))"

definition grid :: "nat list \<Rightarrow> (nat \<times> nat \<times> nat) list" where
  "grid g = List.product [0..<g ! 0] (List.product [0..<g ! 1] [0..<g ! 2])"

lemma distinct_grid: "distinct (grid g)"
  by (simp add: grid_def distinct_product)

lemma set_grid: "set (grid g) = {0..<g ! 0} \<times> {0..<g ! 1} \<times> {0..<g ! 2}"
  by (simp add: grid_def)

lemma total_items_push [simp]:
  "total_items (mdi_push d m) = total_items m + mset (walker_items d)"
  by (simp add: total_items_def mdi_push_def)

section \<open>One axis\<close>

lemma axis_ids_empty [simp]: "n \<le> s \<Longrightarrow> axis_ids e s n l = []" "axis_ids e s n 0 = []"
  by (simp_all add: axis_ids_def concat_eq_Nil_conv)

lemma axis_ids_one [simp]: "axis_ids e s (Suc s) l = [s * e..<s * e + l]"
  by (simp add: axis_ids_def map_add_upt add.commute)

lemma axis_ids_stride: "axis_ids l 0 n l = [0..<n * l]"
proof (induction n)
  case (Suc n)
  have "axis_ids l 0 (Suc n) l = axis_ids l 0 n l @ [n * l..<n * l + l]"
    by (simp add: axis_ids_def map_add_upt add.commute)
  also have "\<dots> = [0..<n * l] @ [n * l..<n * l + l]" by (simp only: Suc.IH)
  also have "\<dots> = [0..<Suc n * l]"
    using upt_add_eq_append [of 0 "n * l" l] by (simp add: add.commute)
  finally show ?case .
qed simp

text \<open>The enqueued size is the local size, or the local size has been cut to the whole axis.\<close>

definition stride_ok :: "nat \<Rightarrow> nat \<Rightarrow> nat \<Rightarrow> bool" where
  "stride_ok e g l = (e = l \<or> g = l)"

lemma alignDownSize_div: "alignDownSize g l div l = g div l"
  by (simp add: alignDownSize_def minus_mod_eq_mult_div)

lemma alignDownSize_dvd: "isIndivisible (alignDownSize g l) l = 0"
  by (simp add: isIndivisible_def alignDownSize_def minus_mod_eq_mult_div)

lemma isIndivisible_mod: "isIndivisible (g mod l) l = (if g mod l = 0 then 0 else 1)"
  by (simp add: isIndivisible_def)

lemmas axis_defs = axisLWS_def axisGWS_def axisNWGS_def axisNWGSz_def axisSWGS_def axisSWGSz_def
  alignDownSize_div alignDownSize_dvd isIndivisible_mod

definition axis_part :: "bool \<Rightarrow> nat \<Rightarrow> nat \<Rightarrow> nat \<Rightarrow> nat list" where
  "axis_part rest e g l = axis_ids e (axisSWGS rest g l) (axisNWGS rest g l) (axisLWS rest g l)"

lemma axis_z: "axisNWGSz m rest g l = axisNWGS rest g l" "axisSWGSz rest g l = axisSWGS rest g l"
  by (simp_all add: axis_defs Let_def)

lemma axis_part_main:
  assumes "0 < l" "stride_ok e g l"
  shows "axis_part False e g l = [0..<g div l * l]"
  using assms axis_ids_stride [of l "g div l"] by (auto simp: axis_part_def stride_ok_def axis_defs)

lemma axis_part_rest:
  assumes "0 < l" "stride_ok e g l"
  shows "axis_part True e g l = [g div l * l..<g]"
proof (cases "g mod l = 0")
  case True
  then have "g div l * l = g" by auto
  then show ?thesis using True by (simp add: axis_part_def axis_defs)
next
  case False
  then have "e = l" using assms by (auto simp: stride_ok_def)
  have "g div l * l + g mod l = g" by simp
  with False \<open>e = l\<close> show ?thesis by (simp add: axis_part_def axis_defs)
qed

lemma axis_parts:
  assumes "0 < l" "stride_ok e g l"
  shows "axis_part False e g l @ axis_part True e g l = [0..<g]"
  using upt_add_eq_append [of 0 "g div l * l" "g mod l"]
  by (simp add: axis_part_main [OF assms] axis_part_rest [OF assms])

lemma axis_part_empty:
  assumes "0 < l" "axisGWS rest g l = 0" "stride_ok e g l"
  shows "axis_part rest e g l = []"
proof (cases rest)
  case True
  then have "g div l * l = g" using assms(2) by (auto simp: axisGWS_def)
  then show ?thesis using True by (simp add: axis_part_rest [OF assms(1,3)])
next
  case False
  then have "g - g mod l = 0" using assms(2) by (simp add: axisGWS_def alignDownSize_def)
  then have "g div l * l = 0" by (simp only: minus_mod_eq_div_mult)
  then show ?thesis using False by (simp add: axis_part_main [OF assms(1,3)])
qed

section \<open>Products\<close>

lemma mset_product_append_left:
  "mset (List.product (xs @ ys) zs) = mset (List.product xs zs) + mset (List.product ys zs)"
  by (induction xs) auto

lemma mset_product_append_right:
  "mset (List.product xs (ys @ zs)) = mset (List.product xs ys) + mset (List.product xs zs)"
  by (induction xs) (auto simp: ac_simps)

lemma product_empty: "A = [] \<or> B = [] \<Longrightarrow> List.product A B = []"
  by (auto simp: List.product_concat_map)

lemma product_parts2:
  "mset (List.product (A False) (B False)) + mset (List.product (A True) (B False)) +
   mset (List.product (A False) (B True)) + mset (List.product (A True) (B True)) =
   mset (List.product (A False @ A True) (B False @ B True))"
  by (simp add: mset_product_append_left mset_product_append_right ac_simps)

section \<open>Baking a list of regions\<close>

definition canonical :: "nat list \<Rightarrow> bool" where
  "canonical v = (length v = 3 \<and> 0 < v ! 0 \<and> 0 < v ! 1 \<and> 0 < v ! 2)"

lemma canonical_cases:
  assumes "canonical v"
  obtains x y z where "v = [x, y, z]" "0 < x" "0 < y" "0 < z"
proof -
  have "v = [v ! 0, v ! 1, v ! 2]"
    using assms by (auto simp: canonical_def numeral_3_eq_3 length_Suc_conv)
  with assms that show thesis by (metis canonical_def)
qed

lemma canonical_Cons [simp]: "canonical [x, y, z] \<longleftrightarrow> 0 < x \<and> 0 < y \<and> 0 < z"
  by (simp add: canonical_def)

lemma canonize_canonical [simp]: "canonical v \<Longrightarrow> canonizeWorkgroup v = v"
  by (erule canonical_cases) (simp add: canonizeWorkgroup_def)

lemma canonical_canonize: "0 < v ! 0 \<Longrightarrow> canonical (canonizeWorkgroup v)"
  by (simp add: canonizeWorkgroup_def less_max_iff_disj)

lemma calculateDispatchDim_range: "calculateDispatchDim g o' \<in> {1, 2, 3}"
  by (simp add: calculateDispatchDim_def getSimplifiedDim_def)

lemma positiveIn_canonical: "canonical g \<Longrightarrow> dim \<in> {1, 2, 3} \<Longrightarrow> positiveIn dim g"
  by (auto simp: positiveIn_def canonical_def)

lemma out_bind_simps [simp]:
  "out_bind None k = None" "out_bind (Some (Inl e)) k = Some (Inl e)" "out_bind (out_ok x) k = k x"
  by (simp_all add: out_bind_def)

definition raw_items :: "DispatchInfo \<Rightarrow> (nat \<times> nat \<times> nat) list" where
  "raw_items d = items_of (di_elws d) (di_swgs d) (di_nwgs d) (di_lws d)"

lemma walker_items_raw:
  "canonical (di_elws d) \<Longrightarrow> 0 < di_nwgs d ! 0 \<Longrightarrow> walker_items d = raw_items d"
  by (simp add: walker_items_def raw_items_def walkerElws_def walkerNwgs_def canonical_def)

definition good_region :: "nat \<Rightarrow> DispatchInfo \<Rightarrow> bool" where
  "good_region dim d \<longleftrightarrow>
     di_dim d = dim \<and> calculateDispatchDim (di_gws d) (di_offset d) = dim \<and> canonical (di_gws d) \<and>
     canonical (di_elws d) \<and> di_agws d \<noteq> [0, 0, 0] \<and>
     (if positiveIn dim (di_agws d)
      then canonical (di_lws d) \<and> canonical (di_twgs d) \<and> 0 < di_nwgs d ! 0
      else raw_items d = [])"

lemma bakeCounts_canonical:
  assumes "canonical (di_lws d)" "canonical (di_twgs d)" "0 < di_nwgs d ! 0"
  shows "bakeCounts d = out_ok (d, True)"
  using assms by (simp add: bakeCounts_def Let_def canonical_def [of "di_twgs d"])

lemma bakeEntry_good:
  assumes "good_region dim d"
  shows "bakeEntry E d = (if positiveIn dim (di_agws d) then out_ok (d, True) else out_ok (d, False))"
proof -
  note g = assms [unfolded good_region_def]
  have dim: "dim \<in> {1, 2, 3}" using g calculateDispatchDim_range by metis
  have "positiveIn (di_dim d) (di_gws d)" using g dim positiveIn_canonical by simp
  moreover have "di_lws d ! 0 \<noteq> 0" if "positiveIn dim (di_agws d)"
    using g that by (simp add: canonical_def)
  ultimately show ?thesis
    using g by (cases "positiveIn dim (di_agws d)") (simp_all add: bakeEntry_def Let_def bakeCounts_canonical)
qed

lemma bakeEntry_unset: "di_dim d = 0 \<Longrightarrow> bakeEntry E d = out_ok (d, False)"
  by (simp add: bakeEntry_def positiveIn_def)

definition region_items :: "DispatchInfo \<Rightarrow> (nat \<times> nat \<times> nat) multiset" where
  "region_items d = (if di_dim d = 0 then {#} else mset (raw_items d))"

lemma bakeLoop_regions:
  assumes "\<forall>d \<in> set ds. di_dim d = 0 \<or> good_region dim d"
  shows "\<exists>target'. bakeLoop E KernelSplit f ds target = out_ok (ds, target') \<and>
           total_items target' = total_items target + \<Sum>\<^sub># (mset (map region_items ds))"
  using assms
proof (induction ds arbitrary: target)
  case (Cons d ds)
  consider (unset) "di_dim d = 0" | (skip) "good_region dim d" "\<not> positiveIn dim (di_agws d)" "0 < di_dim d"
    | (push) "good_region dim d" "positiveIn dim (di_agws d)" "0 < di_dim d"
    using Cons.prems by auto
  then show ?case
  proof cases
    case unset
    with Cons.IH [of target] Cons.prems show ?thesis
      by (auto simp: bakeEntry_unset region_items_def)
  next
    case skip
    then have "raw_items d = []" by (simp add: good_region_def)
    with skip Cons.IH [of target] Cons.prems show ?thesis
      by (auto simp: bakeEntry_good region_items_def)
  next
    case push
    obtain t where "bakeLoop E KernelSplit f ds (mdi_push d target) = out_ok (ds, t)"
      "total_items t = total_items (mdi_push d target) + \<Sum>\<^sub># (mset (map region_items ds))"
      using Cons.IH [of "mdi_push d target"] Cons.prems by auto
    moreover have "region_items d = mset (walker_items d)"
      using push by (simp add: region_items_def good_region_def walker_items_raw)
    ultimately show ?thesis
      using push by (auto simp: bakeEntry_good supportsSplit_def ac_simps)
  qed
qed simp

section \<open>The regions of a split\<close>

text \<open>What \<^verbatim>\<open>bake\<close> has established of an entry when it calls \<^verbatim>\<open>pushSplit\<close>, and the condition that no
  region has an extent of zero on all three axes, which \<^verbatim>\<open>bake\<close> would take for one without an extent.\<close>

definition split_ready :: "DispatchInfo \<Rightarrow> bool" where
  "split_ready d \<longleftrightarrow>
     canonical (di_gws d) \<and> canonical (di_lws d) \<and> canonical (di_elws d) \<and> canonical (di_twgs d) \<and>
     di_dim d = calculateDispatchDim (di_gws d) (di_offset d) \<and>
     (\<forall>i < 3. stride_ok (di_elws d ! i) (di_gws d ! i) (di_lws d ! i))"

definition no_empty_region :: "DispatchInfo \<Rightarrow> bool" where
  "no_empty_region d \<longleftrightarrow>
     (di_dim d = 3 \<longrightarrow> (\<exists>i < 3. di_lws d ! i \<le> di_gws d ! i \<and> di_gws d ! i mod di_lws d ! i \<noteq> 0))"

lemma axisGWS_pos:
  assumes "0 < l" "l \<le> g" "g mod l \<noteq> 0"
  shows "0 < axisGWS rest g l"
proof -
  have "g mod l < l" using assms by simp
  then have "g mod l < g" using assms(2) by linarith
  then show ?thesis using assms by (simp add: axisGWS_def alignDownSize_def)
qed

lemma axis_positive:
  assumes "0 < axisGWS rest g l" "0 < l"
  shows "0 < axisLWS rest g l \<and> 0 < axisNWGS rest g l"
proof (cases rest)
  case False
  then have "g - g mod l > 0" using assms by (simp add: axisGWS_def alignDownSize_def)
  then have "0 < g div l" using assms(2) by (metis gr0I minus_mod_eq_div_mult mult_0)
  then show ?thesis using False assms(2) by (simp add: axis_defs)
qed (use assms in \<open>simp add: axis_defs\<close>)

lemma three: "(\<forall>i < 3. P i) \<longleftrightarrow> P 0 \<and> P 1 \<and> P (2 :: nat)" "(\<exists>i < 3. P i) \<longleftrightarrow> P 0 \<or> P 1 \<or> P (2 :: nat)"
  by (auto simp: numeral_3_eq_3 numeral_2_eq_2 less_Suc_eq)

lemma dim_le_gws:
  assumes "canonical g" "calculateDispatchDim g o' = dim"
  shows "(dim < 3 \<longrightarrow> g ! 2 = 1) \<and> (dim < 2 \<longrightarrow> g ! 1 = 1)"
  using assms by (auto simp: calculateDispatchDim_def getSimplifiedDim_def canonical_def split: if_splits)

text \<open>The dispatch information the split makes of a region.\<close>

abbreviation region_info :: "nat \<Rightarrow> DispatchInfo \<Rightarrow> Geometry \<Rightarrow> DispatchInfo" where
  "region_info dim d g \<equiv> applyGeometry dim g (DispatchInfo_default\<lparr>di_kernel := di_kernel d\<rparr>)"

lemmas region_defs = applyGeometry_def regionGeometry_def region1_def region2_def region3_def Let_def

lemma region_raw_items:
  "raw_items (region_info dim d (regionGeometry d a l n s)) = items_of (di_elws d) s n l"
  by (simp add: raw_items_def region_defs)

lemma positiveIn_simps [simp]:
  "positiveIn 3 [x, y, z] \<longleftrightarrow> 0 < x \<and> 0 < y \<and> 0 < z"
  "positiveIn 2 [x, y, z] \<longleftrightarrow> 0 < x \<and> 0 < y"
  "positiveIn (Suc 0) [x, y, z] \<longleftrightarrow> 0 < x"
  by (simp_all add: positiveIn_def)

lemma split_ready_axes:
  assumes "split_ready d"
  shows "\<And>i. i < 3 \<Longrightarrow> 0 < di_lws d ! i" "\<And>i. i < 3 \<Longrightarrow> 0 < di_gws d ! i"
    "\<And>i. i < 3 \<Longrightarrow> stride_ok (di_elws d ! i) (di_gws d ! i) (di_lws d ! i)"
  using assms by (auto simp: split_ready_def canonical_def three numeral_3_eq_3 numeral_2_eq_2 less_Suc_eq)

definition part :: "DispatchInfo \<Rightarrow> nat \<Rightarrow> bool \<Rightarrow> nat list" where
  "part d i rest = axis_part rest (di_elws d ! i) (di_gws d ! i) (di_lws d ! i)"

lemma parts_axis:
  assumes "split_ready d" "i < 3"
  shows "part d i False @ part d i True = [0..<di_gws d ! i]"
  using axis_parts split_ready_axes [OF assms(1) assms(2)] by (simp add: part_def)

lemma part_empty:
  assumes "split_ready d" "i < 3" "axisGWS rest (di_gws d ! i) (di_lws d ! i) = 0"
  shows "part d i rest = []"
  using axis_part_empty split_ready_axes [OF assms(1) assms(2)] assms(3) by (simp add: part_def)

lemma raw_region3:
  "raw_items (region_info dim d (region3 d rx ry rz)) =
     List.product (part d 0 rx) (List.product (part d 1 ry) (part d 2 rz))"
  by (simp add: region3_def Let_def region_raw_items items_of_def part_def axis_part_def axis_z)

lemma raw_region2:
  "raw_items (region_info dim d (region2 d rx ry)) = List.product (part d 0 rx) (List.product (part d 1 ry) [0..<1])"
  by (simp add: region2_def Let_def region_raw_items items_of_def part_def axis_part_def)

lemma raw_region1:
  "raw_items (region_info dim d (region1 d rx)) = List.product (part d 0 rx) (List.product [0..<1] [0..<1])"
  by (simp add: region1_def Let_def region_raw_items items_of_def part_def axis_part_def)

lemma region_good:
  assumes ready: "split_ready d" and "di_dim d = dim"
    and agws: "a \<noteq> [0, 0, 0]"
    and pos: "positiveIn dim a \<Longrightarrow> canonical l \<and> 0 < n ! 0"
    and skipped: "\<not> positiveIn dim a \<Longrightarrow> raw_items (region_info dim d (regionGeometry d a l n s)) = []"
  shows "good_region dim (region_info dim d (regionGeometry d a l n s))"
  using assms by (simp add: good_region_def split_ready_def applyGeometry_def regionGeometry_def)

lemma region3_good_if:
  assumes "split_ready d" "di_dim d = 3"
    and agws: "0 < axisGWS rx (di_gws d ! 0) (di_lws d ! 0) \<or> 0 < axisGWS ry (di_gws d ! 1) (di_lws d ! 1) \<or>
      0 < axisGWS rz (di_gws d ! 2) (di_lws d ! 2)"
  shows "good_region 3 (region_info 3 d (region3 d rx ry rz))"
proof -
  let ?G = "\<lambda>r i. axisGWS r (di_gws d ! i) (di_lws d ! i)"
  have l: "0 < di_lws d ! 0" "0 < di_lws d ! 1" "0 < di_lws d ! 2"
    using split_ready_axes(1) [OF assms(1)] by simp_all
  have empty: "raw_items (region_info 3 d (region3 d rx ry rz)) = []"
    if "\<not> positiveIn 3 [?G rx 0, ?G ry 1, ?G rz 2]"
    using that part_empty [OF assms(1), of 0 rx] part_empty [OF assms(1), of 1 ry] part_empty [OF assms(1), of 2 rz]
    unfolding raw_region3 by (auto intro!: product_empty)
  show ?thesis
    using agws empty axis_positive [OF _ l(1), of rx] axis_positive [OF _ l(2), of ry] axis_positive [OF _ l(3), of rz]
    unfolding region3_def Let_def by (intro region_good [OF assms(1,2)]) auto
qed

lemma region3_good:
  assumes "split_ready d" "no_empty_region d" "di_dim d = 3"
  shows "good_region 3 (region_info 3 d (region3 d rx ry rz))"
proof (rule region3_good_if [OF assms(1,3)])
  have l: "0 < di_lws d ! 0" "0 < di_lws d ! 1" "0 < di_lws d ! 2"
    using split_ready_axes(1) [OF assms(1)] by simp_all
  show "0 < axisGWS rx (di_gws d ! 0) (di_lws d ! 0) \<or> 0 < axisGWS ry (di_gws d ! 1) (di_lws d ! 1) \<or>
      0 < axisGWS rz (di_gws d ! 2) (di_lws d ! 2)"
    using assms(2,3) axisGWS_pos [OF l(1), of "di_gws d ! 0" rx]
      axisGWS_pos [OF l(2), of "di_gws d ! 1" ry] axisGWS_pos [OF l(3), of "di_gws d ! 2" rz]
    by (auto simp: no_empty_region_def three)
qed

lemma region2_good:
  assumes "split_ready d" "di_dim d = 2"
  shows "good_region 2 (region_info 2 d (region2 d rx ry))"
proof -
  note ax = split_ready_axes [OF assms(1)]
  let ?G = "\<lambda>r i. axisGWS r (di_gws d ! i) (di_lws d ! i)"
  have empty: "raw_items (region_info 2 d (region2 d rx ry)) = []"
    if "\<not> positiveIn 2 [?G rx 0, ?G ry 1, 1]"
    using that part_empty [OF assms(1), of 0 rx] part_empty [OF assms(1), of 1 ry]
    unfolding raw_region2 by (auto intro!: product_empty)
  show ?thesis
    using empty axis_positive [OF _ ax(1) [of 0], of rx] axis_positive [OF _ ax(1) [of 1], of ry]
    unfolding region2_def Let_def by (intro region_good [OF assms]) auto
qed

lemma region1_good:
  assumes "split_ready d" "di_dim d = 1"
  shows "good_region 1 (region_info 1 d (region1 d rx))"
proof -
  note ax = split_ready_axes [OF assms(1)]
  have empty: "raw_items (region_info 1 d (region1 d rx)) = []"
    if "\<not> positiveIn 1 [axisGWS rx (di_gws d ! 0) (di_lws d ! 0), 1, 1]"
    using that part_empty [OF assms(1), of 0 rx] unfolding raw_region1 by (auto intro!: product_empty)
  show ?thesis
    using empty axis_positive [OF _ ax(1) [of 0], of rx]
    unfolding region1_def Let_def by (intro region_good [OF assms]) auto
qed

section \<open>Splitting covers the range\<close>

lemmas builder_eval = DispatchInfoBuilder_ctor_def numDispatches_def setKernelAll_def
  setDispatchGeometry1_def setDispatchGeometry2_def setDispatchGeometry3_def
  getDispatchId1_def getDispatchId2_def getDispatchId3_def

abbreviation unset_info :: "DispatchInfo \<Rightarrow> DispatchInfo" where
  "unset_info d \<equiv> DispatchInfo_default\<lparr>di_kernel := di_kernel d\<rparr>"

lemma splitBuilder1_infos:
  "dib_mode (splitBuilder1 d) = KernelSplit"
  "dispatchInfos (splitBuilder1 d) =
     [region_info 1 d (region1 d False), region_info 1 d (region1 d True), unset_info d]"
  by (simp_all add: splitBuilder1_def Let_def builder_eval eval_nat_numeral)

lemma splitBuilder2_infos:
  "dib_mode (splitBuilder2 d) = KernelSplit"
  "dispatchInfos (splitBuilder2 d) =
     [region_info 2 d (region2 d False False), region_info 2 d (region2 d True False), unset_info d,
      region_info 2 d (region2 d False True), region_info 2 d (region2 d True True), unset_info d,
      unset_info d, unset_info d, unset_info d]"
  by (simp_all add: splitBuilder2_def Let_def builder_eval eval_nat_numeral)

lemma splitBuilder3_infos:
  "dib_mode (splitBuilder3 d) = KernelSplit"
  "dispatchInfos (splitBuilder3 d) =
     [region_info 3 d (region3 d False False False), region_info 3 d (region3 d True False False), unset_info d,
      region_info 3 d (region3 d False True False), region_info 3 d (region3 d True True False), unset_info d,
      unset_info d, unset_info d, unset_info d,
      region_info 3 d (region3 d False False True), region_info 3 d (region3 d True False True), unset_info d,
      region_info 3 d (region3 d False True True), region_info 3 d (region3 d True True True), unset_info d,
      unset_info d, unset_info d, unset_info d] @ replicate 9 (unset_info d)"
  by (simp_all add: splitBuilder3_def Let_def builder_eval eval_nat_numeral)

lemma region_items_simps [simp]:
  "region_items (unset_info d) = {#}"
  "0 < dim \<Longrightarrow> region_items (region_info dim d g) = mset (raw_items (region_info dim d g))"
  by (simp_all add: region_items_def DispatchInfo_default_def applyGeometry_def)

lemma bakeKernelSplit_regions:
  assumes "dib_mode b = KernelSplit" "\<forall>d \<in> set (dispatchInfos b). di_dim d = 0 \<or> good_region dim d"
  shows "\<exists>target'. bakeKernelSplit E b target = out_ok target' \<and>
           total_items target' = total_items target + \<Sum>\<^sub># (mset (map region_items (dispatchInfos b)))"
  using bakeLoop_regions [OF assms(2), of E "\<lambda>_ target. out_ok target" target] assms(1)
  by (auto simp: bakeKernelSplit_def)

lemma product_parts3:
  "mset (List.product (A False) (List.product (B False) (C False))) + mset (List.product (A True) (List.product (B False) (C False))) +
   (mset (List.product (A False) (List.product (B True) (C False))) + mset (List.product (A True) (List.product (B True) (C False)))) +
   (mset (List.product (A False) (List.product (B False) (C True))) + mset (List.product (A True) (List.product (B False) (C True))) +
    (mset (List.product (A False) (List.product (B True) (C True))) + mset (List.product (A True) (List.product (B True) (C True))))) =
   mset (List.product (A False @ A True) (List.product (B False @ B True) (C False @ C True)))"
proof -
  have split: "mset (List.product xs (List.product (B False @ B True) (C False @ C True))) =
    mset (List.product xs (List.product (B False) (C False))) + mset (List.product xs (List.product (B True) (C False))) +
    (mset (List.product xs (List.product (B False) (C True))) + mset (List.product xs (List.product (B True) (C True))))" for xs
    by (induction xs) (auto simp: mset_product_append_left mset_product_append_right ac_simps)
  show ?thesis
    by (simp only: mset_product_append_left split ac_simps)
qed

lemma unset_dim [simp]: "di_dim (unset_info d) = 0"
  by (simp add: DispatchInfo_default_def)

lemma pushSplit_covers:
  assumes ready: "split_ready d" and "no_empty_region d"
  shows "\<exists>target'. pushSplit E d target = out_ok target' \<and>
           total_items target' = total_items target + mset (grid (di_gws d))"
proof -
  note axes = parts_axis [OF ready, symmetric]
  have small: "(di_dim d < 3 \<longrightarrow> di_gws d ! 2 = 1) \<and> (di_dim d < 2 \<longrightarrow> di_gws d ! 1 = 1)"
    using dim_le_gws ready by (simp add: split_ready_def)
  consider (one) "di_dim d = 1" | (two) "di_dim d = 2" | (three) "di_dim d = 3"
    using ready calculateDispatchDim_range [of "di_gws d" "di_offset d"] by (auto simp: split_ready_def)
  then show ?thesis
  proof cases
    case one
    have good: "\<forall>e \<in> set (dispatchInfos (splitBuilder1 d)). di_dim e = 0 \<or> good_region 1 e"
      using region1_good [OF ready one] by (auto simp: splitBuilder1_infos)
    have "\<Sum>\<^sub># (mset (map region_items (dispatchInfos (splitBuilder1 d)))) = mset (grid (di_gws d))"
      using one small by (simp add: splitBuilder1_infos raw_region1 grid_def axes [of 0] mset_product_append_left)
    with bakeKernelSplit_regions [OF splitBuilder1_infos(1) good, of E target] one show ?thesis
      by (simp add: pushSplit_def)
  next
    case two
    have good: "\<forall>e \<in> set (dispatchInfos (splitBuilder2 d)). di_dim e = 0 \<or> good_region 2 e"
      using region2_good [OF ready two] by (auto simp: splitBuilder2_infos)
    have "\<Sum>\<^sub># (mset (map region_items (dispatchInfos (splitBuilder2 d)))) = mset (grid (di_gws d))"
      using two small product_parts3 [of "part d 0" "part d 1" "\<lambda>r. if r then [] else [0]"]
      by (simp add: splitBuilder2_infos raw_region2 grid_def axes [of 0] axes [of "Suc 0"] product_empty ac_simps)
    with bakeKernelSplit_regions [OF splitBuilder2_infos(1) good, of E target] two show ?thesis
      by (simp add: pushSplit_def)
  next
    case three
    have good: "\<forall>e \<in> set (dispatchInfos (splitBuilder3 d)). di_dim e = 0 \<or> good_region 3 e"
      using region3_good [OF ready assms(2) three] by (auto simp: splitBuilder3_infos)
    have "\<Sum>\<^sub># (mset (map region_items (dispatchInfos (splitBuilder3 d)))) = mset (grid (di_gws d))"
      using product_parts3 [of "part d 0" "part d 1" "part d 2"]
      by (simp add: splitBuilder3_infos raw_region3 grid_def axes [of 0] axes [of "Suc 0"] axes [of 2] ac_simps)
    with bakeKernelSplit_regions [OF splitBuilder3_infos(1) good, of E target] three show ?thesis
      by (simp add: pushSplit_def)
  qed
qed

section \<open>A whole range\<close>

lemma computeWorkgroupsNumber_canonical:
  assumes "canonical g" "canonical l"
  shows "generateWorkgroupsNumber g l =
    Inr [g ! 0 div l ! 0 + isIndivisible (g ! 0) (l ! 0), g ! 1 div l ! 1 + isIndivisible (g ! 1) (l ! 1),
         g ! 2 div l ! 2 + isIndivisible (g ! 2) (l ! 2)]"
  using assms by (elim canonical_cases)
    (simp add: generateWorkgroupsNumber_def computeWorkgroupsNumber_def isIndivisible_def)

lemma groups_positive: "0 < (g :: nat) \<Longrightarrow> 0 < l \<Longrightarrow> 0 < g div l + isIndivisible g l"
  by (cases "g < l") (auto simp: isIndivisible_def div_greater_zero_iff not_less)

lemma unsplit_axis:
  assumes "0 < l" "stride_ok e g l" "g mod l = 0"
  shows "axis_ids e 0 (g div l + isIndivisible g l) l = [0..<g]"
proof -
  have "g div l * l = g" using assms(3) by auto
  then show ?thesis
    using axis_part_main [OF assms(1,2)] assms(3) by (simp add: axis_part_def axis_defs isIndivisible_def)
qed

text \<open>The entry of a builder before \<^verbatim>\<open>bake\<close>: a geometry with an explicit local size, no counts.\<close>

definition fresh_range :: "DispatchInfo \<Rightarrow> bool" where
  "fresh_range d \<longleftrightarrow>
     positiveIn (di_dim d) (di_gws d) \<and> di_agws d = [0, 0, 0] \<and> di_twgs d = [0, 0, 0] \<and>
     di_nwgs d = [0, 0, 0] \<and> di_swgs d = [0, 0, 0] \<and> canonical (di_gws d) \<and> canonical (di_lws d) \<and>
     0 < di_elws d ! 0 \<and>
     (\<forall>i < 3. stride_ok (canonizeWorkgroup (di_elws d) ! i) (di_gws d ! i) (di_lws d ! i))"

definition counted :: "DispatchInfo \<Rightarrow> nat list" where
  "counted d = [di_gws d ! 0 div di_lws d ! 0 + isIndivisible (di_gws d ! 0) (di_lws d ! 0),
     di_gws d ! 1 div di_lws d ! 1 + isIndivisible (di_gws d ! 1) (di_lws d ! 1),
     di_gws d ! 2 div di_lws d ! 2 + isIndivisible (di_gws d ! 2) (di_lws d ! 2)]"

definition baked :: "DispatchInfo \<Rightarrow> DispatchInfo" where
  "baked d = d\<lparr>di_dim := calculateDispatchDim (di_gws d) (di_offset d), di_agws := di_gws d,
     di_elws := canonizeWorkgroup (di_elws d), di_twgs := counted d, di_nwgs := counted d\<rparr>"

lemma counted_canonical:
  assumes "canonical (di_gws d)" "canonical (di_lws d)"
  shows "canonical (counted d)"
  using assms groups_positive by (simp add: counted_def canonical_def)

lemma bakeEntry_fresh:
  assumes "fresh_range d"
  shows "bakeEntry E d = out_ok (baked d, True)"
proof -
  note f = assms [unfolded fresh_range_def]
  have c: "canonical (counted d)" using f counted_canonical by blast
  then have "counted d ! 0 \<noteq> 0" by (simp add: canonical_def)
  have lws: "di_lws d ! 0 \<noteq> 0" using f by (simp add: canonical_def)
  have pos: "positiveIn (calculateDispatchDim (di_gws d) (di_offset d)) (di_gws d)"
    using f positiveIn_canonical calculateDispatchDim_range by blast
  have "generateWorkgroupsNumber (di_gws d) (di_lws d) = Inr (counted d)"
    using f by (simp add: computeWorkgroupsNumber_canonical counted_def)
  then show ?thesis
    using f pos lws c by (simp add: bakeEntry_def bakeCounts_def Let_def baked_def)
qed

lemma baked_gws: "di_gws (baked d) = di_gws d"
  by (simp add: baked_def)

lemma baked_ready: "fresh_range d \<Longrightarrow> split_ready (baked d)"
  by (simp add: fresh_range_def split_ready_def baked_def counted_canonical canonical_canonize)

lemma bakeLoop_covers:
  assumes fresh: "fresh_range d"
    and extent: "\<exists>i < 3. di_gws d ! i mod di_lws d ! i \<noteq> 0 \<Longrightarrow> no_empty_region (baked d)"
    and small: "\<forall>i < 3. di_lws d ! i < 2 ^ 61"
  shows "\<exists>target'. bakeLoop E WalkerSplit (pushSplit E) [d] target = out_ok ([baked d], target') \<and>
           total_items target' = total_items target + mset (grid (di_gws d))"
proof -
  let ?g = "\<lambda>i. di_gws d ! i" and ?l = "\<lambda>i. di_lws d ! i"
  note ready = baked_ready [OF fresh]
  have l: "0 < ?l i" if "i < 3" for i
    using split_ready_axes(1) [OF ready that] by (simp add: baked_def)
  have m: "?g i mod ?l i < 2 ^ 61" if "i < 3" for i
    using l [OF that] small that by (meson less_trans mod_less_divisor)
  have "?g 0 mod ?l 0 + ?g 1 mod ?l 1 + ?g 2 mod ?l 2 < 18446744073709551616"
    using m [of 0] m [of 1] m [of 2] by simp
  then have needs: "needsSplit (baked d) = Inr (\<exists>i < 3. ?g i mod ?l i \<noteq> 0)"
    using l [of 0] l [of 1] l [of 2] by (auto simp: needsSplit_def baked_def Let_def three)
  show ?thesis
  proof (cases "\<exists>i < 3. ?g i mod ?l i \<noteq> 0")
    case True
    with pushSplit_covers [OF ready extent [OF True], of E target] show ?thesis
      by (auto simp: bakeEntry_fresh [OF fresh] supportsSplit_def needs baked_gws)
  next
    case False
    have ax: "axis_ids (canonizeWorkgroup (di_elws d) ! i) 0 (?g i div ?l i + isIndivisible (?g i) (?l i)) (?l i) = [0..<?g i]"
      if "i < 3" for i
      using that False fresh l by (intro unsplit_axis) (auto simp: fresh_range_def)
    have "canonical (counted d)" "canonical (canonizeWorkgroup (di_elws d))"
      using fresh counted_canonical canonical_canonize by (auto simp: fresh_range_def)
    then have "walker_items (baked d) = grid (di_gws d)"
      using ax [of 0] ax [of 1] ax [of 2] fresh
      by (simp add: walker_items_def walkerElws_def walkerNwgs_def baked_def items_of_def grid_def
          canonical_def counted_def fresh_range_def)
    with False show ?thesis
      by (auto simp: bakeEntry_fresh [OF fresh] supportsSplit_def needs)
  qed
qed

text \<open>A range without an enqueued local size, when the group is given or chosen and divides the range: one walker.\<close>

lemma bakeLoop_unsplit:
  assumes g: "positiveIn (di_dim d) (di_gws d)" "canonical (di_gws d)"
    and zero: "di_agws d = [0, 0, 0]" "di_twgs d = [0, 0, 0]" "di_nwgs d = [0, 0, 0]" "di_swgs d = [0, 0, 0]" "di_elws d = [0, 0, 0]"
    and l: "canonical lw" "\<forall>i < 3. lw ! i dvd di_gws d ! i"
    and chosen: "di_lws d = lw \<or> di_lws d = [0, 0, 0] \<and>
      generateWorkgroupSize (de_enableND E) (de_enableSquared E) (de_float E)
        (map_option (\<lambda>k. kv_workSizeInfo (de_kernels E k)) (di_kernel d)) (di_gws d)
        (calculateDispatchDim (di_gws d) (di_offset d)) [0, 0, 0] = out_ok lw"
  shows "\<exists>d' target'. bakeLoop E WalkerSplit (pushSplit E) [d] target = out_ok ([d'], target') \<and>
           total_items target' = total_items target + mset (grid (di_gws d))"
proof -
  let ?n = "map (\<lambda>i. di_gws d ! i div lw ! i) [0, 1, 2]"
  define d1 where "d1 = d\<lparr>di_dim := calculateDispatchDim (di_gws d) (di_offset d), di_agws := di_gws d, di_lws := lw, di_twgs := ?n, di_nwgs := ?n\<rparr>"
  have "\<forall>i < 3. 0 < lw ! i \<and> 0 < di_gws d ! i" using l(1) g(2) by (simp add: canonical_def three)
  then have lpos: "0 < lw ! i" "0 < di_gws d ! i" if "i < 3" for i using that by simp_all
  have m: "di_gws d ! i mod lw ! i = 0" if "i < 3" for i using l(2) that by (simp add: dvd_eq_mod_eq_0)
  have pos: "positiveIn (calculateDispatchDim (di_gws d) (di_offset d)) (di_gws d)"
    using g positiveIn_canonical calculateDispatchDim_range by blast
  have npos: "0 < di_gws d ! i div lw ! i" if "i < 3" for i
    using lpos [OF that] l(2) that by (simp add: div_greater_zero_iff dvd_imp_le)
  then have n: "canonical ?n" by (simp add: canonical_def three)
  have "generateWorkgroupsNumber (di_gws d) lw = Inr ?n"
    using g(2) l(1) m [of 0] m [of 1] m [of 2] by (simp add: computeWorkgroupsNumber_canonical isIndivisible_def)
  then have entry: "bakeEntry E d = out_ok (d1, True)"
    using g pos zero n l(1) chosen lpos [of 0] npos [of 0]
    by (auto simp: bakeEntry_def bakeCounts_def chooseLWS_def Let_def canonizeWorkgroup_def [of "[0, 0, 0]"] canonical_def d1_def)
  have needs: "needsSplit d1 = Inr False"
    using lpos(1) [of 0] lpos(1) [of 1] lpos(1) [of 2] m [of 0] m [of 1] m [of 2] by (simp add: needsSplit_def Let_def d1_def)
  have ax: "axis_ids (lw ! i) 0 (di_gws d ! i div lw ! i) (lw ! i) = [0..<di_gws d ! i]" if "i < 3" for i
    using axis_ids_stride [of "lw ! i" "di_gws d ! i div lw ! i"] l(2) that by simp
  have "walker_items d1 = grid (di_gws d)"
    using ax [of 0] ax [of 1] ax [of 2] zero npos [of 0]
    by (simp add: walker_items_def walkerElws_def walkerNwgs_def items_of_def grid_def d1_def)
  then show ?thesis by (simp add: entry supportsSplit_def needs)
qed

lemma bakeLoop_split:
  assumes "bakeEntry E d = out_ok (d', True)" "needsSplit d' = Inr True" "pushSplit E d' t = out_ok m"
  shows "bakeLoop E WalkerSplit (pushSplit E) [d] t = out_ok ([d'], m)"
  using assms by (simp add: supportsSplit_def)

section \<open>A group larger than the range\<close>

text \<open>When the group is larger than the range on all three axes the main region has the extent
  zero on every axis. \<^verbatim>\<open>bake\<close> then takes the extent for unset, and the main region is pushed with
  one whole group.\<close>

definition oversized :: "DispatchInfo \<Rightarrow> bool" where
  "oversized d \<longleftrightarrow> split_ready d \<and> di_dim d = 3 \<and> di_elws d = di_lws d \<and> di_twgs d = [1, 1, 1] \<and>
     (\<forall>i < 3. di_gws d ! i < di_lws d ! i)"

lemma oversized_axis:
  assumes "oversized d" "i < 3"
  shows "axisGWS False (di_gws d ! i) (di_lws d ! i) = 0" "0 < axisGWS True (di_gws d ! i) (di_lws d ! i)"
    "part d i False = []" "part d i True = [0..<di_gws d ! i]"
proof -
  have ready: "split_ready d" and less: "di_gws d ! i < di_lws d ! i" using assms by (auto simp: oversized_def)
  show zero: "axisGWS False (di_gws d ! i) (di_lws d ! i) = 0"
    using less by (simp add: axisGWS_def alignDownSize_def)
  show "0 < axisGWS True (di_gws d ! i) (di_lws d ! i)"
    using less split_ready_axes(2) [OF ready assms(2)] by (simp add: axisGWS_def)
  show none: "part d i False = []" by (rule part_empty [OF ready assms(2) zero])
  then show "part d i True = [0..<di_gws d ! i]" using parts_axis [OF ready assms(2)] by simp
qed

lemma oversized_main:
  assumes "oversized d"
  shows "\<exists>main. bakeEntry E (region_info 3 d (region3 d False False False)) = out_ok (main, True) \<and>
           walker_items main = grid (di_lws d)"
proof -
  have ready: "split_ready d" and dim: "di_dim d = 3" and e: "di_elws d = di_lws d" and t: "di_twgs d = [1, 1, 1]"
    and less: "\<And>i. i < 3 \<Longrightarrow> di_gws d ! i < di_lws d ! i"
    using assms by (auto simp: oversized_def)
  have canon: "canonical (di_gws d)" "canonical (di_lws d)" and calc: "calculateDispatchDim (di_gws d) (di_offset d) = 3"
    using ready dim by (auto simp: split_ready_def)
  have lws: "[di_lws d ! 0, di_lws d ! Suc 0, di_lws d ! 2] = di_lws d"
    using canon(2) by (auto elim: canonical_cases)
  have zero: "di_gws d ! i div di_lws d ! i = 0" if "i < 3" for i using less [OF that] by simp
  let ?r = "region_info 3 d (region3 d False False False)"
  let ?main = "?r\<lparr>di_agws := di_gws d, di_nwgs := [1, 1, 1]\<rparr>"
  have agws: "di_agws ?r = [0, 0, 0]"
    using oversized_axis(1) [OF assms] by (simp add: region_defs)
  have nwgs: "di_nwgs ?r = [0, 0, 0]"
    using zero [of 0] zero [of 1] zero [of 2] by (simp add: region_defs axis_defs)
  have pos: "positiveIn 3 (di_gws d)" using positiveIn_canonical canon(1) by simp
  have "bakeEntry E ?r = out_ok (?main, True)"
    using agws nwgs pos calc canon e t lws
    by (simp add: bakeEntry_def bakeCounts_def Let_def region_defs axisLWS_def canonical_def [of "di_lws d"]
        canonizeWorkgroup_def [of "[Suc 0, Suc 0, Suc 0]"])
  moreover have "walker_items ?main = grid (di_lws d)"
    using canon(2) e
    by (simp add: walker_items_def walkerElws_def walkerNwgs_def items_of_def grid_def region_defs axisLWS_def
        axisSWGS_def axisSWGSz_def canonical_def)
  ultimately show ?thesis by blast
qed

lemma pushSplit_oversized:
  assumes "oversized d"
  shows "\<exists>target'. pushSplit E d target = out_ok target' \<and>
           total_items target' = total_items target + mset (grid (di_lws d)) + mset (grid (di_gws d))"
proof -
  have ready: "split_ready d" and dim: "di_dim d = 3" using assms by (auto simp: oversized_def)
  note ax = oversized_axis [OF assms]
  obtain main where main: "bakeEntry E (region_info 3 d (region3 d False False False)) = out_ok (main, True)"
    "walker_items main = grid (di_lws d)"
    using oversized_main [OF assms] by blast
  let ?rest = "tl (dispatchInfos (splitBuilder3 d))"
  have infos: "dispatchInfos (splitBuilder3 d) = region_info 3 d (region3 d False False False) # ?rest"
    by (simp add: splitBuilder3_infos)
  have good: "good_region 3 (region_info 3 d (region3 d rx ry rz))" if "rx \<or> ry \<or> rz" for rx ry rz
    using that ax(2) [of 0] ax(2) [of 1] ax(2) [of 2] by (intro region3_good_if [OF ready dim]) auto
  then have "\<forall>e \<in> set ?rest. di_dim e = 0 \<or> good_region 3 e"
    by (simp add: splitBuilder3_infos)
  from bakeLoop_regions [OF this] obtain t where
    t: "bakeLoop E KernelSplit (\<lambda>_ target. out_ok target) ?rest (mdi_push main target) = out_ok (?rest, t)"
    "total_items t = total_items (mdi_push main target) + \<Sum>\<^sub># (mset (map region_items ?rest))"
    by blast
  have "\<Sum>\<^sub># (mset (map region_items ?rest)) = mset (grid (di_gws d))"
    using ax(3,4) [of 0] ax(3,4) [of "Suc 0"] ax(3,4) [of 2]
    by (simp add: splitBuilder3_infos raw_region3 grid_def product_empty)
  with t main have "total_items t = total_items target + mset (grid (di_lws d)) + mset (grid (di_gws d))"
    by simp
  moreover have "bakeKernelSplit E (splitBuilder3 d) target = out_ok t"
    unfolding bakeKernelSplit_def splitBuilder3_infos(1)
    by (subst infos) (simp add: main(1) t(1) supportsSplit_def)
  ultimately show ?thesis using dim by (simp add: pushSplit_def)
qed

end
