(* ===== verification/Enqueue_Kernel.thy ===== *)
theory Enqueue_Kernel
  imports Walker_Split
begin

text \<open>
  \<^verbatim>\<open>CommandQueueHw::enqueueKernel\<close>: the checks of the work sizes an application passes, and the
  geometry it hands to the builder of the walkers in \<^verbatim>\<open>enqueueHandler\<close>; then the built-in copy and
  fill of a buffer, which split a byte range into a left, a middle and a right part.
  The events, the performance hints and the submission that follow are those of other theories.
\<close>

section \<open>The checks of an enqueue\<close>

definition CL_INVALID_KERNEL_ARGS :: int where "CL_INVALID_KERNEL_ARGS = - 52"

definition CL_INVALID_WORK_GROUP_SIZE :: int where "CL_INVALID_WORK_GROUP_SIZE = - 54"

text \<open>\<^verbatim>\<open>WorkloadInfo::undefinedOffset\<close>, the value that marks a kernel without a required work group size.\<close>

definition undefinedOffset :: nat where "undefinedOffset = 4294967295"

record EnqueueKernelView =
  ek_kernel :: nat
  ek_isPatched :: bool
  ek_allowNonUniform :: bool
  ek_reqdWorkGroupSize :: "nat list"
  ek_validateDispatch :: "(nat \<Rightarrow> nat list \<Rightarrow> nat list \<Rightarrow> nat list \<Rightarrow> int) option"
  ek_maxWorkGroupSize :: nat

record WorkSizes =
  ws_region :: "nat list"
  ws_globalWorkOffset :: "nat list"
  ws_workGroupSize :: "nat list"
  ws_enqueuedLocalWorkSize :: "nat list"
  ws_remainder :: nat
  ws_totalWorkItems :: nat

definition WorkSizes_init :: WorkSizes where
  "WorkSizes_init =
     \<lparr>ws_region = [1, 1, 1], ws_globalWorkOffset = [0, 0, 0], ws_workGroupSize = [1, 1, 1],
      ws_enqueuedLocalWorkSize = [0, 0, 0], ws_remainder = 0, ws_totalWorkItems = 1\<rparr>"

datatype 'a checked = Returns int | Faults rt_fault | Goes 'a

text \<open>
  One turn of the loop over the dimensions. The arrays of the function have three entries, and
  nothing bounds \<^verbatim>\<open>workDim\<close>; the arrays of the application hold at least \<^verbatim>\<open>workDim\<close> entries.
  A null array is \<open>None\<close>, which \<^verbatim>\<open>std::min\<close> reads without a check.
\<close>

definition haveRequiredWorkGroupSize :: "EnqueueKernelView \<Rightarrow> bool" where
  "haveRequiredWorkGroupSize k = (ek_reqdWorkGroupSize k ! 0 \<noteq> undefinedOffset)"

definition enqueueLocal :: "EnqueueKernelView \<Rightarrow> nat list option \<Rightarrow> nat list \<Rightarrow> nat \<Rightarrow> WorkSizes \<Rightarrow> WorkSizes checked" where
  "enqueueLocal k globalWorkSizeIn localIn i w =
     (if haveRequiredWorkGroupSize k \<and> ek_reqdWorkGroupSize k ! i \<noteq> localIn ! i then Returns CL_INVALID_WORK_GROUP_SIZE
      else if localIn ! i = 0 then Returns CL_INVALID_WORK_GROUP_SIZE
      else
        let rest = (\<lambda>wgs. Goes (w\<lparr>ws_workGroupSize := (ws_workGroupSize w)[i := wgs],
                     ws_enqueuedLocalWorkSize := (ws_enqueuedLocalWorkSize w)[i := localIn ! i],
                     ws_totalWorkItems := wrap64 (ws_totalWorkItems w * localIn ! i)\<rparr>))
        in if ek_allowNonUniform k then
             case globalWorkSizeIn of None \<Rightarrow> Faults NullDereference
             | Some g \<Rightarrow> rest (min (localIn ! i) (g ! i))
           else rest (localIn ! i))"

definition enqueueDimension ::
  "EnqueueKernelView \<Rightarrow> nat list option \<Rightarrow> nat list option \<Rightarrow> nat list option \<Rightarrow> nat \<Rightarrow> WorkSizes \<Rightarrow> WorkSizes checked" where
  "enqueueDimension k offsetIn globalIn localIn i w =
     (if i \<ge> 3 then Faults OutOfBounds
      else
        let w = w\<lparr>ws_region := (ws_region w)[i := (case globalIn of Some g \<Rightarrow> g ! i | None \<Rightarrow> 0)],
                  ws_globalWorkOffset := (ws_globalWorkOffset w)[i := (case offsetIn of Some o' \<Rightarrow> o' ! i | None \<Rightarrow> 0)]\<rparr>
        in case (case localIn of None \<Rightarrow> Goes w | Some l \<Rightarrow> enqueueLocal k globalIn l i w) of
             Goes w \<Rightarrow>
               if ws_workGroupSize w ! i = 0 then Faults DivisionByZero
               else Goes (w\<lparr>ws_remainder := wrap64 (ws_remainder w + ws_region w ! i mod ws_workGroupSize w ! i)\<rparr>)
           | Returns e \<Rightarrow> Returns e
           | Faults f \<Rightarrow> Faults f)"

fun enqueueDimensions ::
  "EnqueueKernelView \<Rightarrow> nat list option \<Rightarrow> nat list option \<Rightarrow> nat list option \<Rightarrow> nat list \<Rightarrow> WorkSizes \<Rightarrow> WorkSizes checked" where
  "enqueueDimensions k offsetIn globalIn localIn [] w = Goes w"
| "enqueueDimensions k offsetIn globalIn localIn (i # is) w =
     (case enqueueDimension k offsetIn globalIn localIn i w of
        Goes w \<Rightarrow> enqueueDimensions k offsetIn globalIn localIn is w
      | Returns e \<Rightarrow> Returns e
      | Faults f \<Rightarrow> Faults f)"

text \<open>The sizes that reach \<^verbatim>\<open>enqueueHandler\<close>; its \<^verbatim>\<open>localWorkSizesIn\<close> is the required size of the
  kernel when it has one.\<close>

record HandlerSizes =
  hs_workDim :: nat
  hs_globalOffsets :: "nat list"
  hs_workItems :: "nat list"
  hs_localWorkSizesIn :: "nat list option"
  hs_enqueuedWorkSizes :: "nat list"

definition enqueueKernelChecks ::
  "EnqueueKernelView \<Rightarrow> nat \<Rightarrow> nat list option \<Rightarrow> nat list option \<Rightarrow> nat list option \<Rightarrow> HandlerSizes checked" where
  "enqueueKernelChecks k workDim offsetIn globalIn localIn =
     (if \<not> ek_isPatched k then Returns CL_INVALID_KERNEL_ARGS
      else case enqueueDimensions k offsetIn globalIn localIn [0..<workDim] WorkSizes_init of
        Returns e \<Rightarrow> Returns e
      | Faults f \<Rightarrow> Faults f
      | Goes w \<Rightarrow>
          if ws_remainder w \<noteq> 0 \<and> \<not> ek_allowNonUniform k then Returns CL_INVALID_WORK_GROUP_SIZE
          else
            let localWkgSizeToPass =
                  (if haveRequiredWorkGroupSize k then Some (ek_reqdWorkGroupSize k)
                   else map_option (\<lambda>_. ws_workGroupSize w) localIn);
                err = (case ek_validateDispatch k of None \<Rightarrow> CL_SUCCESS
                       | Some f \<Rightarrow> f workDim (ws_region w) (ws_workGroupSize w) (ws_globalWorkOffset w))
            in if err \<noteq> CL_SUCCESS then Returns err
               else if ws_totalWorkItems w > ek_maxWorkGroupSize k then Returns CL_INVALID_WORK_GROUP_SIZE
               else Goes \<lparr>hs_workDim = workDim, hs_globalOffsets = ws_globalWorkOffset w, hs_workItems = ws_region w,
                          hs_localWorkSizesIn = localWkgSizeToPass, hs_enqueuedWorkSizes = ws_enqueuedLocalWorkSize w\<rparr>)"

text \<open>The walkers \<^verbatim>\<open>enqueueHandler\<close> builds for a kernel that has no builder of its own.\<close>

definition handlerBuilder :: "nat \<Rightarrow> HandlerSizes \<Rightarrow> DispatchInfoBuilder" where
  "handlerBuilder krn h =
     (let b = DispatchInfoBuilder_ctor d3D WalkerSplit;
          b = setDispatchGeometryDim (hs_workDim h)
                \<lparr>geo_gws = hs_workItems h, geo_elws = hs_enqueuedWorkSizes h, geo_offset = hs_globalOffsets h,
                 geo_agws = [0, 0, 0],
                 geo_lws = (case hs_localWorkSizesIn h of None \<Rightarrow> [0, 0, 0] | Some l \<Rightarrow> l),
                 geo_twgs = [0, 0, 0], geo_nwgs = [0, 0, 0], geo_swgs = [0, 0, 0]\<rparr> b
      in setKernelAll (Some krn) b)"

definition handlerDispatch :: "'f DispatchEnv \<Rightarrow> nat \<Rightarrow> HandlerSizes \<Rightarrow> MultiDispatchInfo outcome" where
  "handlerDispatch E krn h =
     map_option (map_sum id snd)
       (bake E (handlerBuilder krn h) \<lparr>mdi_dispatchInfos = [], mdi_mainKernel = Some krn\<rparr>)"

section \<open>What the checks establish\<close>

definition passedSize :: "EnqueueKernelView \<Rightarrow> nat list \<Rightarrow> nat list \<Rightarrow> nat \<Rightarrow> nat" where
  "passedSize k g l i = (if ek_allowNonUniform k then min (l ! i) (g ! i) else l ! i)"

lemma enqueueDimension_goes:
  assumes "enqueueDimension k offsetIn (Some g) (Some l) i w = Goes w'"
    and "length (ws_workGroupSize w) = 3" "length (ws_region w) = 3"
  shows "i < 3 \<and> 0 < l ! i \<and> (haveRequiredWorkGroupSize k \<longrightarrow> ek_reqdWorkGroupSize k ! i = l ! i) \<and>
    0 < passedSize k g l i \<and> ws_region w' = (ws_region w)[i := g ! i] \<and>
    ws_workGroupSize w' = (ws_workGroupSize w)[i := passedSize k g l i] \<and>
    ws_enqueuedLocalWorkSize w' = (ws_enqueuedLocalWorkSize w)[i := l ! i] \<and>
    ws_remainder w' = wrap64 (ws_remainder w + g ! i mod passedSize k g l i)"
  using assms
  by (simp add: enqueueDimension_def enqueueLocal_def passedSize_def Let_def split: if_splits) auto

lemma enqueueDimensions_Cons_goes:
  "enqueueDimensions k offsetIn globalIn localIn (i # is) w = Goes w' \<longleftrightarrow>
     (\<exists>w1. enqueueDimension k offsetIn globalIn localIn i w = Goes w1 \<and>
           enqueueDimensions k offsetIn globalIn localIn is w1 = Goes w')"
  by (simp split: checked.split)

text \<open>A list of sizes filled up with \<open>c\<close> to three entries.\<close>

definition pad :: "nat \<Rightarrow> nat \<Rightarrow> nat list \<Rightarrow> nat list" where
  "pad n c v = map (\<lambda>i. if i < n then v ! i else c) [0, 1, 2]"

lemma pad_nth: "i < 3 \<Longrightarrow> pad n c v ! i = (if i < n then v ! i else c)"
  by (auto simp: pad_def numeral_3_eq_3 less_Suc_eq numeral_2_eq_2)

lemma pad_simps:
  "pad (Suc 0) c v = [v ! 0, c, c]" "pad 2 c v = [v ! 0, v ! 1, c]" "pad 3 c v = [v ! 0, v ! 1, v ! 2]"
  by (simp_all add: pad_def)

lemma enqueueDimensions_goes:
  assumes "enqueueDimensions k offsetIn (Some g) (Some l) [0..<n] WorkSizes_init = Goes w" "n \<in> {1, 2, 3}"
  shows "ws_region w = pad n 1 g \<and> ws_enqueuedLocalWorkSize w = pad n 0 l \<and>
    ws_workGroupSize w = pad n 1 (map (passedSize k g l) [0..<n]) \<and>
    (\<forall>i < n. 0 < l ! i \<and> 0 < passedSize k g l i \<and>
       (haveRequiredWorkGroupSize k \<longrightarrow> ek_reqdWorkGroupSize k ! i = l ! i)) \<and>
    ws_remainder w = fold (\<lambda>i r. wrap64 (r + g ! i mod passedSize k g l i)) [0..<n] 0"
proof -
  have lens: "length (ws_workGroupSize WorkSizes_init) = 3" "length (ws_region WorkSizes_init) = 3"
    by (simp_all add: WorkSizes_init_def)
  have upts: "[0..<1] = [0]" "[0..<2] = [0, 1 :: nat]" "[0..<3] = [0, 1, 2 :: nat]"
    by (simp_all add: eval_nat_numeral)
  from assms(2) consider "n = 1" | "n = 2" | "n = 3" by blast
  then show ?thesis
  proof cases
    case 1
    then obtain w1 where "enqueueDimension k offsetIn (Some g) (Some l) 0 WorkSizes_init = Goes w1" "w1 = w"
      using assms(1) by (auto simp: enqueueDimensions_Cons_goes upts simp del: enqueueDimensions.simps(2))
    with enqueueDimension_goes [OF this(1) lens] 1 show ?thesis
      by (simp add: pad_simps WorkSizes_init_def)
  next
    case 2
    then obtain w1 w2 where w: "enqueueDimension k offsetIn (Some g) (Some l) 0 WorkSizes_init = Goes w1"
      "enqueueDimension k offsetIn (Some g) (Some l) 1 w1 = Goes w2" "w2 = w"
      using assms(1) by (auto simp: enqueueDimensions_Cons_goes upts simp del: enqueueDimensions.simps(2))
    note d1 = enqueueDimension_goes [OF w(1) lens]
    have lens1: "length (ws_workGroupSize w1) = 3" "length (ws_region w1) = 3" using d1 lens by simp_all
    note d2 = enqueueDimension_goes [OF w(2) lens1]
    from d1 d2 w(3) 2 show ?thesis
      by (simp add: pad_simps WorkSizes_init_def upts less_2_cases_iff)
  next
    case 3
    then obtain w1 w2 w3 where w: "enqueueDimension k offsetIn (Some g) (Some l) 0 WorkSizes_init = Goes w1"
      "enqueueDimension k offsetIn (Some g) (Some l) 1 w1 = Goes w2"
      "enqueueDimension k offsetIn (Some g) (Some l) 2 w2 = Goes w3" "w3 = w"
      using assms(1) by (auto simp: enqueueDimensions_Cons_goes upts simp del: enqueueDimensions.simps(2))
    note d1 = enqueueDimension_goes [OF w(1) lens]
    have lens1: "length (ws_workGroupSize w1) = 3" "length (ws_region w1) = 3" using d1 lens by simp_all
    note d2 = enqueueDimension_goes [OF w(2) lens1]
    have lens2: "length (ws_workGroupSize w2) = 3" "length (ws_region w2) = 3" using d2 lens1 by simp_all
    note d3 = enqueueDimension_goes [OF w(3) lens2]
    from d1 d2 d3 w(4) 3 show ?thesis
      by (simp add: pad_simps WorkSizes_init_def upts three)
  qed
qed

lemma two: "(\<forall>i < 2. P i) \<longleftrightarrow> P 0 \<and> P (1 :: nat)"
  by (auto simp: numeral_2_eq_2 less_Suc_eq)

lemma remainder_zero:
  assumes "fold (\<lambda>i r. wrap64 (r + f i)) [0..<n] 0 = (0 :: nat)" "n \<in> {1, 2, 3}" "\<forall>i < n. f i < 2 ^ 61"
  shows "\<forall>i < n. f i = 0"
proof -
  have upts: "[0..<1] = [0]" "[0..<2] = [0, 1 :: nat]" "[0..<3] = [0, 1, 2 :: nat]"
    by (simp_all add: eval_nat_numeral)
  from assms(2) consider "n = 1" | "n = 2" | "n = 3" by blast
  then show ?thesis
    by cases (use assms(1,3) in \<open>simp_all add: upts three two\<close>)
qed

lemma handlerBuilder_infos:
  "dispatchInfos (handlerBuilder krn h) =
     [DispatchInfo_default\<lparr>di_kernel := Some krn, di_dim := hs_workDim h, di_gws := hs_workItems h,
        di_elws := hs_enqueuedWorkSizes h, di_offset := hs_globalOffsets h,
        di_lws := (case hs_localWorkSizesIn h of None \<Rightarrow> [0, 0, 0] | Some l \<Rightarrow> l)\<rparr>]"
  "dib_mode (handlerBuilder krn h) = WalkerSplit"
  by (simp_all add: handlerBuilder_def Let_def DispatchInfoBuilder_ctor_def numDispatches_def
      setDispatchGeometryDim_def setKernelAll_def applyGeometry_def DispatchInfo_default_def)

lemma handlerDispatch_loop:
  assumes "bakeLoop E WalkerSplit (pushSplit E) (dispatchInfos (handlerBuilder krn h))
             \<lparr>mdi_dispatchInfos = [], mdi_mainKernel = Some krn\<rparr> = out_ok (ds, m)"
  shows "handlerDispatch E krn h = out_ok m"
  using assms by (simp add: handlerDispatch_def bake_def handlerBuilder_infos(2))

lemma total_items_empty [simp]: "total_items \<lparr>mdi_dispatchInfos = [], mdi_mainKernel = k\<rparr> = {#}"
  by (simp add: total_items_def)

lemma canonical_pad: "n \<in> {1, 2, 3} \<Longrightarrow> \<forall>i < n. 0 < v ! i \<Longrightarrow> canonical (pad n 1 v)"
  by (auto simp: canonical_def pad_def)

lemma canonize_pad: "n \<in> {1, 2, 3} \<Longrightarrow> \<forall>i < n. 0 < v ! i \<Longrightarrow> canonizeWorkgroup (pad n 0 v) = pad n 1 v"
  by (auto simp: canonizeWorkgroup_def pad_def three two max_def)

lemma handler_fresh:
  assumes n: "n \<in> {1, 2, 3}" and g: "\<forall>i < n. 0 < g ! i" and l: "\<forall>i < n. 0 < l ! i"
    and p: "canonical p" and stride: "\<forall>i < 3. stride_ok (pad n 1 l ! i) (pad n 1 g ! i) (p ! i)"
  shows "fresh_range (DispatchInfo_default\<lparr>di_kernel := Some krn, di_dim := n, di_gws := pad n 1 g,
           di_elws := pad n 0 l, di_offset := off, di_lws := p\<rparr>)"
proof -
  have "positiveIn n (pad n 1 g)" using n canonical_pad [OF n g] positiveIn_canonical by blast
  moreover have "0 < pad n 0 l ! 0" using n l by (auto simp: pad_nth)
  ultimately show ?thesis
    using assms canonical_pad [OF n g] by (simp add: fresh_range_def DispatchInfo_default_def canonize_pad)
qed

section \<open>An accepted enqueue\<close>

lemma checks_goes:
  assumes "enqueueKernelChecks k n offsetIn (Some g) (Some l) = Goes h" "n \<in> {1, 2, 3}"
  shows "hs_workDim h = n \<and> hs_workItems h = pad n 1 g \<and> hs_enqueuedWorkSizes h = pad n 0 l \<and>
    hs_localWorkSizesIn h =
      Some (if haveRequiredWorkGroupSize k then ek_reqdWorkGroupSize k
            else pad n 1 (map (passedSize k g l) [0..<n])) \<and>
    (\<forall>i < n. 0 < l ! i \<and> 0 < passedSize k g l i \<and> (haveRequiredWorkGroupSize k \<longrightarrow> ek_reqdWorkGroupSize k ! i = l ! i)) \<and>
    (\<not> ek_allowNonUniform k \<longrightarrow>
       fold (\<lambda>i r. wrap64 (r + g ! i mod passedSize k g l i)) [0..<n] 0 = (0 :: nat))"
proof -
  obtain w where w: "enqueueDimensions k offsetIn (Some g) (Some l) [0..<n] WorkSizes_init = Goes w"
    using assms(1) by (auto simp: enqueueKernelChecks_def split: if_splits checked.splits)
  show ?thesis
    using assms(1) enqueueDimensions_goes [OF w assms(2)]
    by (auto simp: enqueueKernelChecks_def w Let_def split: if_splits)
qed

text \<open>What the checks let through when no local size is passed.\<close>

lemma enqueueDimensions_null:
  assumes "n \<in> {1, 2, 3}"
  shows "\<exists>w. enqueueDimensions k offsetIn (Some g) None [0..<n] WorkSizes_init = Goes w \<and> ws_region w = pad n 1 g \<and>
    ws_enqueuedLocalWorkSize w = [0, 0, 0]"
proof -
  have upts: "[0..<1] = [0]" "[0..<2] = [0, 1 :: nat]" "[0..<3] = [0, 1, 2 :: nat]"
    by (simp_all add: eval_nat_numeral)
  from assms consider "n = 1" | "n = 2" | "n = 3" by blast
  then show ?thesis
    by cases (simp_all add: upts enqueueDimension_def WorkSizes_init_def Let_def pad_simps)
qed

lemma checks_null:
  assumes "enqueueKernelChecks k n offsetIn (Some g) None = Goes h" "n \<in> {1, 2, 3}"
  shows "hs_workDim h = n \<and> hs_workItems h = pad n 1 g \<and> hs_enqueuedWorkSizes h = [0, 0, 0] \<and>
    hs_localWorkSizesIn h = (if haveRequiredWorkGroupSize k then Some (ek_reqdWorkGroupSize k) else None)"
proof -
  obtain w where "enqueueDimensions k offsetIn (Some g) None [0..<n] WorkSizes_init = Goes w" "ws_region w = pad n 1 g"
    "ws_enqueuedLocalWorkSize w = [0, 0, 0]"
    using enqueueDimensions_null [OF assms(2)] by blast
  then show ?thesis using assms(1) by (auto simp: enqueueKernelChecks_def Let_def split: if_splits)
qed

text \<open>The device settings under which a group is chosen: the limit of a group is a power of two that is not below the
  SIMD width, and the search for any number of dimensions is on, as it is by default.\<close>

definition chooses_size :: "'f DispatchEnv \<Rightarrow> nat \<Rightarrow> bool" where
  "chooses_size E krn \<longleftrightarrow> de_enableND E \<and>
     (let w = kv_workSizeInfo (de_kernels E krn) in
      \<exists>m s. wsi_maxWorkGroupSize w = 2 ^ m \<and> m \<le> 10 \<and> wsi_simdSize w = 2 ^ s \<and> 3 \<le> s \<and> s \<le> 5 \<and> s \<le> m)"

lemma calculateDispatchDim_unused:
  "0 < a \<Longrightarrow> 0 < b \<Longrightarrow> 0 < c \<Longrightarrow> unused_dims_one (calculateDispatchDim [a, b, c] off) b c"
  by (auto simp: unused_dims_one_def calculateDispatchDim_def getSimplifiedDim_def max_def)

lemma chosen_divides:
  assumes "chooses_size E krn" "canonical g" "g ! 0 * g ! 1 * g ! 2 < 18446744073709551616"
  shows "\<exists>lw. generateWorkgroupSize (de_enableND E) (de_enableSquared E) (de_float E)
      (map_option (\<lambda>k. kv_workSizeInfo (de_kernels E k)) (Some krn)) g (calculateDispatchDim g off) [0, 0, 0] = out_ok lw \<and>
    canonical lw \<and> (\<forall>i < 3. lw ! i dvd g ! i)"
proof -
  obtain m s where E: "de_enableND E" "wsi_maxWorkGroupSize (kv_workSizeInfo (de_kernels E krn)) = 2 ^ m" "m \<le> 10"
    "wsi_simdSize (kv_workSizeInfo (de_kernels E krn)) = 2 ^ s" "3 \<le> s" "s \<le> 5" "s \<le> m"
    using assms(1) by (auto simp: chooses_size_def Let_def)
  obtain a b c where g: "g = [a, b, c]" "0 < a" "0 < b" "0 < c" using assms(2) by (auto elim: canonical_cases)
  have "a * b * c < 18446744073709551616" using assms(3) g by simp
  from chosen_size_valid [OF E(2-7) _ _ _ this calculateDispatchDim_unused [OF g(2-4)], of "de_enableSquared E" "de_float E"] g
  obtain lw where "computeWorkgroupSizeND (de_enableSquared E) (de_float E) (kv_workSizeInfo (de_kernels E krn)) [a, b, c]
      (calculateDispatchDim [a, b, c] off) = Some (Inr lw)" "lws_valid [a, b, c] (2 ^ m) lw"
    by (auto simp: Suc_le_eq)
  then show ?thesis
    using E(1) by (auto simp: generateWorkgroupSize_def computeWorkgroupSize_def g lws_valid_def canonical_def Suc_le_eq three)
qed

lemma enqueue_null_covers:
  assumes "enqueueKernelChecks k n offsetIn (Some g) None = Goes h" and n: "n \<in> {1, 2, 3}" and pos: "\<forall>i < n. 0 < g ! i"
    and req: "haveRequiredWorkGroupSize k \<Longrightarrow>
      canonical (ek_reqdWorkGroupSize k) \<and> (\<forall>i < 3. ek_reqdWorkGroupSize k ! i dvd pad n 1 g ! i)"
    and null: "\<not> haveRequiredWorkGroupSize k \<Longrightarrow>
      chooses_size E krn \<and> pad n 1 g ! 0 * pad n 1 g ! 1 * pad n 1 g ! 2 < 18446744073709551616"
  shows "\<exists>m. handlerDispatch E krn h = out_ok m \<and> total_items m = mset (grid (pad n 1 g))"
proof -
  note c = checks_null [OF assms(1) n]
  let ?l = "if haveRequiredWorkGroupSize k then ek_reqdWorkGroupSize k else [0, 0, 0]"
  define d where "d = DispatchInfo_default\<lparr>di_kernel := Some krn, di_dim := n, di_gws := pad n 1 g,
           di_elws := [0, 0, 0], di_offset := hs_globalOffsets h, di_lws := ?l\<rparr>"
  have f: "di_kernel d = Some krn" "di_dim d = n" "di_gws d = pad n 1 g" "di_elws d = [0, 0, 0]" "di_offset d = hs_globalOffsets h"
    "di_lws d = ?l" "di_agws d = [0, 0, 0]" "di_twgs d = [0, 0, 0]" "di_nwgs d = [0, 0, 0]" "di_swgs d = [0, 0, 0]"
    by (simp_all add: d_def DispatchInfo_default_def)
  have infos: "dispatchInfos (handlerBuilder krn h) = [d]" using c by (simp add: handlerBuilder_infos d_def)
  have canon: "canonical (pad n 1 g)" by (rule canonical_pad [OF n pos])
  then have "positiveIn n (pad n 1 g)" using n positiveIn_canonical by blast
  moreover obtain lw where lw: "canonical lw" "\<forall>i < 3. lw ! i dvd pad n 1 g ! i"
    "?l = lw \<or> ?l = [0, 0, 0] \<and> generateWorkgroupSize (de_enableND E) (de_enableSquared E) (de_float E)
        (map_option (\<lambda>k. kv_workSizeInfo (de_kernels E k)) (Some krn)) (pad n 1 g)
        (calculateDispatchDim (pad n 1 g) (hs_globalOffsets h)) [0, 0, 0] = out_ok lw"
    using req null chosen_divides [OF _ canon, of E krn "hs_globalOffsets h"] by (cases "haveRequiredWorkGroupSize k") auto
  ultimately obtain d' m where "bakeLoop E WalkerSplit (pushSplit E) [d] \<lparr>mdi_dispatchInfos = [], mdi_mainKernel = Some krn\<rparr> =
      out_ok ([d'], m)" and items: "total_items m = mset (grid (pad n 1 g))"
    using bakeLoop_unsplit [of d lw E "\<lparr>mdi_dispatchInfos = [], mdi_mainKernel = Some krn\<rparr>"] canon
    by (auto simp: f simp del: bakeLoop.simps)
  then have "handlerDispatch E krn h = out_ok m"
    using handlerDispatch_loop [of E krn h "[d']" m] infos by simp
  with items show ?thesis by blast
qed

lemma enqueue_local_covers:
  assumes "enqueueKernelChecks k n offsetIn (Some g) (Some l) = Goes h" and n: "n \<in> {1, 2, 3}"
    and bound: "\<forall>i < n. 0 < g ! i \<and> l ! i < 2 ^ 61"
    and req: "haveRequiredWorkGroupSize k \<Longrightarrow>
      canonical (ek_reqdWorkGroupSize k) \<and> (\<forall>i < 3. ek_reqdWorkGroupSize k ! i \<le> pad n 1 g ! i)"
  shows "\<exists>m. handlerDispatch E krn h = out_ok m \<and> total_items m = mset (grid (pad n 1 g))"
proof -
  note c = checks_goes [OF assms(1) n]
  let ?p = "if haveRequiredWorkGroupSize k then ek_reqdWorkGroupSize k else pad n 1 (map (passedSize k g l) [0..<n])"
  have le: "passedSize k g l i \<le> g ! i" if i: "i < n" for i
  proof (cases "ek_allowNonUniform k")
    case False
    have "g ! j mod passedSize k g l j < 2 ^ 61" if j: "j < n" for j
    proof -
      have "0 < passedSize k g l j" "passedSize k g l j < 2 ^ 61"
        using j bound c False by (simp_all add: passedSize_def)
      then show ?thesis by (meson less_trans mod_less_divisor)
    qed
    moreover have "fold (\<lambda>i r. wrap64 (r + g ! i mod passedSize k g l i)) [0..<n] 0 = (0 :: nat)"
      using c False by simp
    ultimately have "\<forall>i < n. g ! i mod passedSize k g l i = 0"
      using n by (intro remainder_zero [where f = "\<lambda>i. g ! i mod passedSize k g l i"]) auto
    then have "passedSize k g l i dvd g ! i" using i by (simp add: mod_eq_0_iff_dvd)
    then show ?thesis using i bound by (simp add: dvd_imp_le)
  qed (simp add: passedSize_def)
  have p: "0 < ?p ! i \<and> ?p ! i \<le> pad n 1 g ! i \<and> ?p ! i < 2 ^ 61 \<and> stride_ok (pad n 1 l ! i) (pad n 1 g ! i) (?p ! i)" if i: "i < 3" for i
  proof (cases "haveRequiredWorkGroupSize k")
    case True
    have "\<forall>i < 3. 0 < ek_reqdWorkGroupSize k ! i" using req [OF True] by (simp add: canonical_def three)
    then have "0 < ek_reqdWorkGroupSize k ! i" "ek_reqdWorkGroupSize k ! i \<le> pad n 1 g ! i" using req [OF True] i by auto
    moreover have "i < n \<Longrightarrow> ek_reqdWorkGroupSize k ! i = l ! i" using c True by blast
    ultimately show ?thesis using True i bound by (cases "i < n") (auto simp: pad_nth stride_ok_def)
  next
    case False
    have "passedSize k g l i < 2 ^ 61" if "i < n" using bound that by (auto simp: passedSize_def min_less_iff_disj)
    then show ?thesis using False i le [of i] c by (cases "i < n") (auto simp: pad_nth stride_ok_def passedSize_def min_def split: if_splits)
  qed
  have "length ?p = 3" using req by (auto simp: canonical_def pad_def)
  then have "canonical ?p" using p [of 0] p [of 1] p [of 2] by (simp add: canonical_def)
  let ?d = "DispatchInfo_default\<lparr>di_kernel := Some krn, di_dim := n, di_gws := pad n 1 g,
           di_elws := pad n 0 l, di_offset := hs_globalOffsets h, di_lws := ?p\<rparr>"
  have fresh: "fresh_range ?d"
    using n bound c p \<open>canonical ?p\<close> by (intro handler_fresh) auto
  have small: "\<forall>i < 3. di_lws ?d ! i < 2 ^ 61" using p by simp
  have extent: "no_empty_region (baked ?d)" if "\<exists>i < 3. di_gws ?d ! i mod di_lws ?d ! i \<noteq> 0"
    using p that by (auto simp: no_empty_region_def baked_def)
  obtain m where "bakeLoop E WalkerSplit (pushSplit E) [?d] \<lparr>mdi_dispatchInfos = [], mdi_mainKernel = Some krn\<rparr> =
      out_ok ([baked ?d], m)" and items: "total_items m = mset (grid (pad n 1 g))"
    using bakeLoop_covers [OF fresh extent small, of E "\<lparr>mdi_dispatchInfos = [], mdi_mainKernel = Some krn\<rparr>"] by auto
  then have "handlerDispatch E krn h = out_ok m"
    using c by (intro handlerDispatch_loop [of _ _ _ "[baked ?d]"]) (simp add: handlerBuilder_infos)
  with items show ?thesis by blast
qed

text \<open>Claim C4. An enqueue that the checks accept runs every work item of the global range exactly once and no other: the
  walkers that the builder makes of it, split where the range is not a multiple of the group size, cover the grid as a multiset. The
  global sizes are positive. The local size may be passed, below \<open>2 ^ 61\<close> so that the sum of three remainders does not wrap,
  or be null; then the driver chooses it, for a device and a kernel as in \<open>chooses_size\<close> and a total that fits 64 bits.
  A work group size the kernel requires has to fit in the range on every axis, and to divide it when no local size is passed.\<close>

theorem enqueue_runs_each_item_once:
  assumes "enqueueKernelChecks k n offsetIn (Some g) localIn = Goes h" and "n \<in> {1, 2, 3}" and "\<forall>i < n. 0 < g ! i"
    and "\<And>l. localIn = Some l \<Longrightarrow> \<forall>i < n. l ! i < 2 ^ 61"
    and "haveRequiredWorkGroupSize k \<Longrightarrow>
      canonical (ek_reqdWorkGroupSize k) \<and> (\<forall>i < 3. ek_reqdWorkGroupSize k ! i \<le> pad n 1 g ! i)"
    and "haveRequiredWorkGroupSize k \<Longrightarrow> localIn = None \<Longrightarrow> \<forall>i < 3. ek_reqdWorkGroupSize k ! i dvd pad n 1 g ! i"
    and "\<not> haveRequiredWorkGroupSize k \<Longrightarrow> localIn = None \<Longrightarrow>
      chooses_size E krn \<and> pad n 1 g ! 0 * pad n 1 g ! 1 * pad n 1 g ! 2 < 18446744073709551616"
  shows "\<exists>m. handlerDispatch E krn h = out_ok m \<and> total_items m = mset (grid (pad n 1 g)) \<and>
           distinct (grid (pad n 1 g))"
proof (cases localIn)
  case None
  then have "\<exists>m. handlerDispatch E krn h = out_ok m \<and> total_items m = mset (grid (pad n 1 g))"
    using assms by (intro enqueue_null_covers) auto
  then show ?thesis using distinct_grid by blast
next
  case (Some l)
  then have "\<exists>m. handlerDispatch E krn h = out_ok m \<and> total_items m = mset (grid (pad n 1 g))"
    using assms by (intro enqueue_local_covers [of k n offsetIn g l]) auto
  then show ?thesis using distinct_grid by blast
qed

definition exampleKernel :: "bool \<Rightarrow> nat list \<Rightarrow> EnqueueKernelView" where
  "exampleKernel nonUniform reqd =
     \<lparr>ek_kernel = 0, ek_isPatched = True, ek_allowNonUniform = nonUniform, ek_reqdWorkGroupSize = reqd,
      ek_validateDispatch = None, ek_maxWorkGroupSize = 256\<rparr>"

lemma upt_three: "[0..<3] = [0, Suc 0, 2 :: nat]"
  by (simp add: eval_nat_numeral)

lemmas enqueue_eval = enqueueKernelChecks_def enqueueDimension_def enqueueLocal_def haveRequiredWorkGroupSize_def
  WorkSizes_init_def exampleKernel_def undefinedOffset_def upt_three CL_SUCCESS_def

definition exampleEnv :: "nat DispatchEnv" where
  "exampleEnv =
     \<lparr>de_enableND = True, de_enableSquared = False,
      de_float = \<lparr>f_log = (\<lambda>n. n), f_sub = (-), f_fabs = (\<lambda>n. n), f_less = (<), f_of_uint = (\<lambda>n. n), f_YTilingRatioValue = 1\<rparr>,
      de_kernels = (\<lambda>_. \<lparr>kv_slmTotalSize = 0, kv_usesPrintfSurface = False, kv_scratchSize = 0, kv_isParentKernel = False,
        kv_workSizeInfo = \<lparr>wsi_maxWorkGroupSize = 2 ^ 8, wsi_minWorkGroupSize = 0, wsi_hasBarriers = False, wsi_simdSize = 2 ^ 4,
          wsi_slmTotalSize = 64, wsi_gen9OrLater = True, wsi_numThreadsPerSubSlice = 56, wsi_localMemSize = 65536,
          wsi_imgUsed = True, wsi_yTiledSurfaces = False, wsi_useRatio = False, wsi_useStrictRatio = False,
          wsi_targetRatio = 0\<rparr>\<rparr>)\<rparr>"

theorem enqueue_runs_each_item_once_witness:
  "(\<exists>h m. enqueueKernelChecks (exampleKernel True [undefinedOffset, 0, 0]) 3 None (Some [5, 3, 2]) (Some [2, 2, 4]) = Goes h \<and>
     handlerDispatch exampleEnv 0 h = out_ok m \<and> total_items m = mset (grid [5, 3, 2])) \<and>
   (\<exists>h m. enqueueKernelChecks (exampleKernel True [undefinedOffset, 0, 0]) 3 None (Some [5, 3, 2]) None = Goes h \<and>
     handlerDispatch exampleEnv 0 h = out_ok m \<and> total_items m = mset (grid [5, 3, 2])) \<and>
   (\<exists>h m. enqueueKernelChecks (exampleKernel True [2, 2, 2]) 3 None (Some [5, 3, 2]) (Some [2, 2, 2]) = Goes h \<and>
     handlerDispatch exampleEnv 0 h = out_ok m \<and> total_items m = mset (grid [5, 3, 2]))"
proof -
  let ?k = "exampleKernel True [undefinedOffset, 0, 0]" and ?r = "exampleKernel True [2, 2, 2]"
  have b: "\<forall>i < 3. 0 < [5, 3, 2 :: nat] ! i" "\<And>l. Some [2, 2, 4 :: nat] = Some l \<Longrightarrow> \<forall>i < 3. l ! i < 2 ^ 61"
    "\<And>l. Some [2, 2, 2 :: nat] = Some l \<Longrightarrow> \<forall>i < 3. l ! i < 2 ^ 61" by (auto simp: three)
  have nr: "\<not> haveRequiredWorkGroupSize ?k" by (simp add: haveRequiredWorkGroupSize_def exampleKernel_def)
  have c: "chooses_size exampleEnv 0"
    unfolding chooses_size_def Let_def by (intro conjI exI [of _ 8] exI [of _ 4]) (simp_all add: exampleEnv_def)
  obtain h1 h2 h3 where h: "enqueueKernelChecks ?k 3 None (Some [5, 3, 2]) (Some [2, 2, 4]) = Goes h1"
    "enqueueKernelChecks ?k 3 None (Some [5, 3, 2]) None = Goes h2"
    "enqueueKernelChecks ?r 3 None (Some [5, 3, 2]) (Some [2, 2, 2]) = Goes h3"
    by (simp add: enqueue_eval)
  have "\<exists>m. handlerDispatch exampleEnv 0 h1 = out_ok m \<and> total_items m = mset (grid [5, 3, 2])"
    using enqueue_runs_each_item_once [OF h(1) _ b(1,2), of exampleEnv 0] nr by (auto simp: pad_def)
  moreover have "\<exists>m. handlerDispatch exampleEnv 0 h2 = out_ok m \<and> total_items m = mset (grid [5, 3, 2])"
    using enqueue_runs_each_item_once [OF h(2) _ b(1), of exampleEnv 0] nr c by (auto simp: pad_def)
  moreover have "\<exists>m. handlerDispatch exampleEnv 0 h3 = out_ok m \<and> total_items m = mset (grid [5, 3, 2])"
    using enqueue_runs_each_item_once [OF h(3) _ b(1,3), of exampleEnv 0] by (auto simp: pad_def exampleKernel_def canonical_def three)
  ultimately show ?thesis using h by blast
qed

section \<open>A required group that is larger than the range\<close>



section \<open>Sizes that are not checked\<close>

lemma enqueueDimensions_append:
  "enqueueDimensions k offsetIn globalIn localIn (is @ js) w =
     (case enqueueDimensions k offsetIn globalIn localIn is w of
        Goes w \<Rightarrow> enqueueDimensions k offsetIn globalIn localIn js w | Returns e \<Rightarrow> Returns e | Faults f \<Rightarrow> Faults f)"
  by (induction "is" arbitrary: w) (simp_all split: checked.split)

lemma enqueueDimensions_no_local:
  assumes "\<forall>i \<in> set is. i < 3" "ws_workGroupSize w = [1, 1, 1]"
  shows "\<exists>w'. enqueueDimensions k offsetIn globalIn None is w = Goes w' \<and> ws_workGroupSize w' = [1, 1, 1]"
  using assms
proof (induction "is" arbitrary: w)
  case (Cons i "is")
  then have "i = 0 \<or> i = 1 \<or> i = 2" by auto
  then obtain w1 where "enqueueDimension k offsetIn globalIn None i w = Goes w1" "ws_workGroupSize w1 = [1, 1, 1]"
    using Cons.prems(2) by (auto simp: enqueueDimension_def Let_def)
  with Cons.IH [of w1] Cons.prems(1) show ?case by simp
qed simp

text \<open>Two sizes that the checks let through. A kernel that may have groups of different sizes,
  enqueued with an extent of zero in its first dimension, divides by zero when a local size is passed, although the same
  range without a local size is accepted and builds no walker. And a number of dimensions above three
  is not rejected: the loop writes behind the three entries of its arrays.\<close>

theorem unchecked_work_sizes:
  assumes "ek_isPatched k" "ek_validateDispatch k = None" "\<not> haveRequiredWorkGroupSize k" "1 \<le> ek_maxWorkGroupSize k"
  shows "(ek_allowNonUniform k \<and> 0 < l ! 0 \<and> g ! 0 = 0 \<and> 1 \<le> n \<longrightarrow>
            enqueueKernelChecks k n offsetIn (Some g) (Some l) = Faults DivisionByZero) \<and>
         (g ! 0 = 0 \<longrightarrow> (\<exists>h. enqueueKernelChecks k 1 offsetIn (Some g) None = Goes h \<and>
            handlerDispatch E krn h = out_ok \<lparr>mdi_dispatchInfos = [], mdi_mainKernel = Some krn\<rparr>)) \<and>
         (4 \<le> n \<longrightarrow> enqueueKernelChecks k n offsetIn globalIn None = Faults OutOfBounds)"
proof (intro conjI impI)
  assume h: "ek_allowNonUniform k \<and> 0 < l ! 0 \<and> g ! 0 = 0 \<and> 1 \<le> n"
  then have "[0..<n] = 0 # [1..<n]" by (simp add: upt_conv_Cons)
  moreover have "enqueueDimension k offsetIn (Some g) (Some l) 0 WorkSizes_init = Faults DivisionByZero"
    using h assms(3) by (simp add: enqueueDimension_def enqueueLocal_def Let_def WorkSizes_init_def)
  ultimately show "enqueueKernelChecks k n offsetIn (Some g) (Some l) = Faults DivisionByZero"
    using assms(1) by (simp add: enqueueKernelChecks_def)
next
  assume "g ! 0 = 0"
  with assms show "\<exists>h. enqueueKernelChecks k 1 offsetIn (Some g) None = Goes h \<and>
           handlerDispatch E krn h = out_ok \<lparr>mdi_dispatchInfos = [], mdi_mainKernel = Some krn\<rparr>"
    by (simp add: enqueueKernelChecks_def enqueueDimension_def WorkSizes_init_def CL_SUCCESS_def handlerDispatch_def
        bake_def handlerBuilder_infos bakeEntry_def positiveIn_def)
next
  assume "4 \<le> n"
  then have split: "[0..<n] = [0, 1, 2] @ 3 # [4..<n]"
    using upt_add_eq_append [of 0 3 "n - 3"] by (simp add: upt_conv_Cons upt_three)
  have "\<forall>i \<in> set [0, 1, 2 :: nat]. i < 3" "ws_workGroupSize WorkSizes_init = [1, 1, 1]"
    by (simp_all add: WorkSizes_init_def)
  from enqueueDimensions_no_local [OF this, of k offsetIn globalIn]
  obtain w where "enqueueDimensions k offsetIn globalIn None [0, 1, 2] WorkSizes_init = Goes w" by blast
  then have "enqueueDimensions k offsetIn globalIn None [0..<n] WorkSizes_init = Faults OutOfBounds"
    by (simp only: split enqueueDimensions_append checked.case) (simp add: enqueueDimension_def)
  then show "enqueueKernelChecks k n offsetIn globalIn None = Faults OutOfBounds"
    using assms(1) by (simp add: enqueueKernelChecks_def)
qed

theorem unchecked_work_sizes_witness:
  "enqueueKernelChecks (exampleKernel True [undefinedOffset, 0, 0]) 1 None (Some [0]) (Some [4]) = Faults DivisionByZero \<and>
   enqueueKernelChecks (exampleKernel True [undefinedOffset, 0, 0]) 4 None (Some [1, 1, 1, 1]) None = Faults OutOfBounds"
proof -
  let ?k = "exampleKernel True [undefinedOffset, 0, 0]"
  have "ek_isPatched ?k" "ek_validateDispatch ?k = None" "\<not> haveRequiredWorkGroupSize ?k" "1 \<le> ek_maxWorkGroupSize ?k"
    by (simp_all add: exampleKernel_def haveRequiredWorkGroupSize_def)
  from unchecked_work_sizes [OF this, of "[4]" "[0]" 1 None]
    unchecked_work_sizes [OF this, of "[4]" "[0]" 4 None _ _ "Some [1, 1, 1, 1]"]
  show ?thesis by (auto simp: exampleKernel_def)
qed

section \<open>Built-in copy and fill of a buffer\<close>

text \<open>
  The built-ins split the bytes of the destination at the borders of cache lines. Sizes and pointers are unsigned
  64-bit numbers; the offsets passed to the kernels are cut to 32 bits. A region is the kernel that
  runs, the number of its work items, and the offsets of the source and the destination it is given.
\<close>

datatype BuiltinKernel =
    CopyBufferToBufferLeftLeftover | CopyBufferToBufferMiddle | CopyBufferToBufferRightLeftover
  | FillBufferLeftLeftover | FillBufferMiddle | FillBufferRightLeftover

record BufferRegion =
  br_kernel :: BuiltinKernel
  br_workItems :: nat
  br_srcOffset :: nat
  br_dstOffset :: nat

definition middleAlignment :: nat where "middleAlignment = 64"

definition leftLeftover :: "nat \<Rightarrow> nat \<Rightarrow> nat" where
  "leftLeftover start len =
     (let leftSize = start mod middleAlignment;
          leftSize = (if leftSize > 0 then middleAlignment - leftSize else 0)
      in min leftSize len)"

definition rightLeftover :: "nat \<Rightarrow> nat \<Rightarrow> nat \<Rightarrow> nat" where
  "rightLeftover start len leftSize = min (wrap64 (start + len) mod middleAlignment) (len - leftSize)"

definition copyBufferToBuffer :: "nat \<Rightarrow> nat \<Rightarrow> nat \<Rightarrow> nat \<Rightarrow> nat \<Rightarrow> BufferRegion list" where
  "copyBufferToBuffer srcPtr srcOffset dstPtr dstOffset len =
     (let start = wrap64 (dstPtr + dstOffset);
          middleElSize = 16;
          leftSize = leftLeftover start len;
          rightSize = rightLeftover start len leftSize;
          middleSizeBytes = len - leftSize - rightSize;
          srcAligned = (wrap64 (srcPtr + srcOffset + leftSize) mod 4 = 0);
          (leftSize, middleSizeBytes) = (if srcAligned then (leftSize, middleSizeBytes)
                                         else (leftSize + middleSizeBytes, 0));
          middleSizeEls = middleSizeBytes div middleElSize
      in [\<lparr>br_kernel = CopyBufferToBufferLeftLeftover, br_workItems = leftSize,
           br_srcOffset = wrap32 srcOffset, br_dstOffset = wrap32 dstOffset\<rparr>,
          \<lparr>br_kernel = CopyBufferToBufferMiddle, br_workItems = middleSizeEls,
           br_srcOffset = wrap32 (srcOffset + leftSize), br_dstOffset = wrap32 (dstOffset + leftSize)\<rparr>,
          \<lparr>br_kernel = CopyBufferToBufferRightLeftover, br_workItems = rightSize,
           br_srcOffset = wrap32 (srcOffset + leftSize + middleSizeBytes),
           br_dstOffset = wrap32 (dstOffset + leftSize + middleSizeBytes)\<rparr>])"

definition fillBuffer :: "nat \<Rightarrow> nat \<Rightarrow> nat \<Rightarrow> BufferRegion list" where
  "fillBuffer dstPtr dstOffset len =
     (let start = wrap64 (dstPtr + dstOffset);
          middleElSize = 4;
          leftSize = leftLeftover start len;
          rightSize = rightLeftover start len leftSize;
          middleSizeBytes = len - leftSize - rightSize;
          middleSizeEls = middleSizeBytes div middleElSize
      in [\<lparr>br_kernel = FillBufferLeftLeftover, br_workItems = leftSize, br_srcOffset = 0, br_dstOffset = wrap32 dstOffset\<rparr>,
          \<lparr>br_kernel = FillBufferMiddle, br_workItems = middleSizeEls, br_srcOffset = 0,
           br_dstOffset = wrap32 (dstOffset + leftSize)\<rparr>,
          \<lparr>br_kernel = FillBufferRightLeftover, br_workItems = rightSize, br_srcOffset = 0,
           br_dstOffset = wrap32 (dstOffset + leftSize + middleSizeBytes)\<rparr>])"

text \<open>What one work item of a kernel does (\<^verbatim>\<open>built_ins/kernels/copy_buffer_to_buffer.igdrcl_built_in\<close> and
  \<^verbatim>\<open>fill_buffer.igdrcl_built_in\<close>): the bytes it copies, as pairs of a source and a destination offset. The kernels of the left and
  the right part index bytes by a 32-bit sum; the middle kernel of the copy works on double words, so it shifts the low two bits
  of its offsets out. The source of a fill is the pattern, which is left out.\<close>

fun workItemBytes :: "BuiltinKernel \<Rightarrow> nat \<Rightarrow> nat \<Rightarrow> nat \<Rightarrow> (nat \<times> nat) list" where
  "workItemBytes CopyBufferToBufferLeftLeftover srcOffset dstOffset gid = [(wrap32 (gid + srcOffset), wrap32 (gid + dstOffset))]"
| "workItemBytes CopyBufferToBufferMiddle srcOffset dstOffset gid =
     map (\<lambda>j. (4 * (srcOffset div 4) + (16 * gid + j), 4 * (dstOffset div 4) + (16 * gid + j))) [0..<16]"
| "workItemBytes CopyBufferToBufferRightLeftover srcOffset dstOffset gid = [(wrap32 (gid + srcOffset), wrap32 (gid + dstOffset))]"
| "workItemBytes FillBufferLeftLeftover srcOffset dstOffset gid = [(0, wrap32 (gid + dstOffset))]"
| "workItemBytes FillBufferMiddle srcOffset dstOffset gid = map (\<lambda>j. (0, dstOffset + (4 * gid + j))) [0..<4]"
| "workItemBytes FillBufferRightLeftover srcOffset dstOffset gid = [(0, wrap32 (gid + dstOffset))]"

definition region_bytes :: "BufferRegion \<Rightarrow> (nat \<times> nat) list" where
  "region_bytes r = concat (map (workItemBytes (br_kernel r) (br_srcOffset r) (br_dstOffset r)) [0..<br_workItems r])"

text \<open>The callers of the copy. A read or a write passes the host pointer aligned down to a double word with the rest as the
  offset, a memory object as the null pointer; a copy of shared virtual memory passes its pointers as they are.\<close>

definition enqueueReadBuffer_regions :: "nat \<Rightarrow> nat \<Rightarrow> nat \<Rightarrow> BufferRegion list" where
  "enqueueReadBuffer_regions offset dstPtr len =
     (let alignedDstPtr = dstPtr - dstPtr mod 4 in copyBufferToBuffer 0 offset alignedDstPtr (dstPtr - alignedDstPtr) len)"

definition enqueueWriteBuffer_regions :: "nat \<Rightarrow> nat \<Rightarrow> nat \<Rightarrow> BufferRegion list" where
  "enqueueWriteBuffer_regions offset srcPtr len =
     (let alignedSrcPtr = srcPtr - srcPtr mod 4 in copyBufferToBuffer alignedSrcPtr (srcPtr - alignedSrcPtr) 0 offset len)"

definition enqueueCopyBuffer_regions :: "nat \<Rightarrow> nat \<Rightarrow> nat \<Rightarrow> BufferRegion list" where
  "enqueueCopyBuffer_regions srcOffset dstOffset len = copyBufferToBuffer 0 srcOffset 0 dstOffset len"

definition enqueueSVMMemcpy_regions :: "nat \<Rightarrow> nat \<Rightarrow> nat \<Rightarrow> BufferRegion list" where
  "enqueueSVMMemcpy_regions dstPtr srcPtr len = copyBufferToBuffer srcPtr 0 dstPtr 0 len"

lemma concat_blocks:
  "concat (map (\<lambda>g. map (\<lambda>j. f (c * g + j)) [0..<c]) [0..<n]) = map f [0..<n * c]"
proof (induction n)
  case (Suc n)
  have "[0..<Suc n * c] = [0..<n * c] @ map (\<lambda>j. c * n + j) [0..<c]"
    using upt_add_eq_append [of 0 "n * c" c] by (simp add: map_add_upt add.commute mult.commute)
  with Suc show ?case by simp
qed simp

lemma single_bytes:
  assumes "s + n \<le> 4294967296" "d + n \<le> 4294967296"
  shows "concat (map (workItemBytes CopyBufferToBufferLeftLeftover s d) [0..<n]) = map (\<lambda>i. (s + i, d + i)) [0..<n]"
    and "concat (map (workItemBytes CopyBufferToBufferRightLeftover s d) [0..<n]) = map (\<lambda>i. (s + i, d + i)) [0..<n]"
proof -
  have "concat (map (\<lambda>g. [(wrap32 (g + s), wrap32 (g + d))]) [0..<n]) = map (\<lambda>i. (s + i, d + i)) [0..<n]"
    using assms by (auto simp: add.commute concat_map_singleton)
  moreover have "workItemBytes CopyBufferToBufferLeftLeftover s d = (\<lambda>g. [(wrap32 (g + s), wrap32 (g + d))])"
    "workItemBytes CopyBufferToBufferRightLeftover s d = (\<lambda>g. [(wrap32 (g + s), wrap32 (g + d))])" by (simp_all add: fun_eq_iff)
  ultimately show "concat (map (workItemBytes CopyBufferToBufferLeftLeftover s d) [0..<n]) = map (\<lambda>i. (s + i, d + i)) [0..<n]"
    "concat (map (workItemBytes CopyBufferToBufferRightLeftover s d) [0..<n]) = map (\<lambda>i. (s + i, d + i)) [0..<n]" by simp_all
qed

lemma middle_bytes:
  assumes "4 dvd s" "4 dvd d"
  shows "concat (map (workItemBytes CopyBufferToBufferMiddle s d) [0..<n]) = map (\<lambda>i. (s + i, d + i)) [0..<n * 16]"
proof -
  have "4 * (s div 4) = s" "4 * (d div 4) = d" using assms by simp_all
  then have "workItemBytes CopyBufferToBufferMiddle s d = (\<lambda>g. map (\<lambda>j. (s + (16 * g + j), d + (16 * g + j))) [0..<16])"
    by (intro ext) (simp only: workItemBytes.simps)
  then show ?thesis using concat_blocks [of "\<lambda>i. (s + i, d + i)" 16 n] by (simp only:)
qed

lemma align64: "64 dvd s + (if s mod 64 > 0 then 64 - s mod 64 else (0 :: nat))"
proof (cases "s mod 64 > 0")
  case True
  have "s mod 64 \<le> s" "s mod 64 < 64" by simp_all
  then have "s + (64 - s mod 64) = (s - s mod 64) + 64" by linarith
  moreover have "64 dvd (s - s mod 64) + 64" by (rule dvd_add [OF dvd_minus_mod dvd_refl])
  ultimately show ?thesis using True by simp
qed auto

lemma middle_multiple:
  assumes "start + len < 18446744073709551616"
  shows "64 dvd len - leftLeftover start len - rightLeftover start len (leftLeftover start len)"
    and "leftLeftover start len + rightLeftover start len (leftLeftover start len) \<le> len"
    and "leftLeftover start len < len \<Longrightarrow> 64 dvd start + leftLeftover start len"
proof -
  let ?l = "leftLeftover start len" and ?r = "rightLeftover start len (leftLeftover start len)"
  have le: "?l \<le> len" by (simp add: leftLeftover_def Let_def)
  show "?l + ?r \<le> len" using le by (simp add: rightLeftover_def)
  have align: "64 dvd start + ?l" if "?l < len"
  proof -
    have "?l = (if start mod 64 > 0 then 64 - start mod 64 else 0)"
      using that by (auto simp: leftLeftover_def Let_def middleAlignment_def min_def split: if_splits)
    then show ?thesis using align64 by simp
  qed
  then show "?l < len \<Longrightarrow> 64 dvd start + ?l" .
  show "64 dvd len - ?l - ?r"
  proof (cases "?l < len")
    case True
    have "(start + len) mod 64 = (start + ?l + (len - ?l)) mod 64" using le by simp
    also have "\<dots> = (len - ?l) mod 64"
      using align [OF True] by (metis add_0 mod_add_left_eq dvd_imp_mod_0)
    finally have "?r = (len - ?l) mod 64"
      using assms by (simp add: rightLeftover_def middleAlignment_def min_def)
    then show ?thesis by (simp only: dvd_minus_mod)
  qed (use le in simp)
qed

lemma consecutive_bytes:
  "map (\<lambda>i. (s + i, d + i)) [0..<(a :: nat)] @ map (\<lambda>i. (s + a + i, d + a + i)) [0..<b] =
   map (\<lambda>i. (s + i, d + i)) [0..<a + b]" for s d :: nat
proof -
  have "[0..<a + b] = [0..<a] @ map (\<lambda>i. a + i) [0..<b]"
    using upt_add_eq_append [of 0 a b] by (simp add: map_add_upt add.commute)
  then show ?thesis by (simp add: add.assoc)
qed

text \<open>The regions of a copy, by the alignment of the source behind the left part.\<close>

lemma copy_parts:
  fixes srcPtr srcOffset dstPtr dstOffset len :: nat
  defines "start \<equiv> dstPtr + dstOffset"
  defines "l \<equiv> leftLeftover start len"
  defines "r \<equiv> rightLeftover start len l"
  defines "m \<equiv> len - l - r"
  assumes "dstPtr + dstOffset + len < 18446744073709551616" "srcPtr + srcOffset + len < 18446744073709551616"
    and "srcOffset + len < 4294967296" "dstOffset + len < 4294967296"
  shows "l + m + r = len" "64 dvd m" "l < len \<Longrightarrow> 64 dvd start + l"
    and "(srcPtr + srcOffset + l) mod 4 = 0 \<Longrightarrow> copyBufferToBuffer srcPtr srcOffset dstPtr dstOffset len =
      [\<lparr>br_kernel = CopyBufferToBufferLeftLeftover, br_workItems = l, br_srcOffset = srcOffset, br_dstOffset = dstOffset\<rparr>,
       \<lparr>br_kernel = CopyBufferToBufferMiddle, br_workItems = m div 16, br_srcOffset = srcOffset + l, br_dstOffset = dstOffset + l\<rparr>,
       \<lparr>br_kernel = CopyBufferToBufferRightLeftover, br_workItems = r, br_srcOffset = srcOffset + l + m, br_dstOffset = dstOffset + l + m\<rparr>]"
    and "(srcPtr + srcOffset + l) mod 4 \<noteq> 0 \<Longrightarrow> copyBufferToBuffer srcPtr srcOffset dstPtr dstOffset len =
      [\<lparr>br_kernel = CopyBufferToBufferLeftLeftover, br_workItems = l + m, br_srcOffset = srcOffset, br_dstOffset = dstOffset\<rparr>,
       \<lparr>br_kernel = CopyBufferToBufferMiddle, br_workItems = 0, br_srcOffset = srcOffset + (l + m), br_dstOffset = dstOffset + (l + m)\<rparr>,
       \<lparr>br_kernel = CopyBufferToBufferRightLeftover, br_workItems = r, br_srcOffset = srcOffset + (l + m), br_dstOffset = dstOffset + (l + m)\<rparr>]"
proof -
  have start: "wrap64 (dstPtr + dstOffset) = start" using assms(5) by (simp add: start_def)
  note mm = middle_multiple [of start len, folded l_def, folded r_def]
  have lr: "l + r \<le> len" and "64 dvd m" using mm(1,2) assms(5) by (simp_all add: start_def m_def)
  then show sum: "l + m + r = len" and "64 dvd m" by (simp_all add: m_def)
  show "l < len \<Longrightarrow> 64 dvd start + l" using mm(3) assms(5) by (simp add: start_def)
  have src: "wrap64 (srcPtr + srcOffset + l) = srcPtr + srcOffset + l" using assms(6) lr by simp
  have w: "wrap32 srcOffset = srcOffset" "wrap32 dstOffset = dstOffset"
    "wrap32 (srcOffset + l) = srcOffset + l" "wrap32 (dstOffset + l) = dstOffset + l"
    "wrap32 (srcOffset + l + m) = srcOffset + l + m" "wrap32 (dstOffset + l + m) = dstOffset + l + m"
    "wrap32 (srcOffset + (l + m)) = srcOffset + (l + m)" "wrap32 (dstOffset + (l + m)) = dstOffset + (l + m)"
    using assms(7,8) sum by simp_all
  note defs = copyBufferToBuffer_def start Let_def l_def [symmetric] r_def [symmetric] m_def [symmetric] src
  show "copyBufferToBuffer srcPtr srcOffset dstPtr dstOffset len =
      [\<lparr>br_kernel = CopyBufferToBufferLeftLeftover, br_workItems = l, br_srcOffset = srcOffset, br_dstOffset = dstOffset\<rparr>,
       \<lparr>br_kernel = CopyBufferToBufferMiddle, br_workItems = m div 16, br_srcOffset = srcOffset + l, br_dstOffset = dstOffset + l\<rparr>,
       \<lparr>br_kernel = CopyBufferToBufferRightLeftover, br_workItems = r, br_srcOffset = srcOffset + l + m, br_dstOffset = dstOffset + l + m\<rparr>]"
    if "(srcPtr + srcOffset + l) mod 4 = 0"
    using that by (simp only: defs) (simp add: w)
  show "copyBufferToBuffer srcPtr srcOffset dstPtr dstOffset len =
      [\<lparr>br_kernel = CopyBufferToBufferLeftLeftover, br_workItems = l + m, br_srcOffset = srcOffset, br_dstOffset = dstOffset\<rparr>,
       \<lparr>br_kernel = CopyBufferToBufferMiddle, br_workItems = 0, br_srcOffset = srcOffset + (l + m), br_dstOffset = dstOffset + (l + m)\<rparr>,
       \<lparr>br_kernel = CopyBufferToBufferRightLeftover, br_workItems = r, br_srcOffset = srcOffset + (l + m), br_dstOffset = dstOffset + (l + m)\<rparr>]"
    if "(srcPtr + srcOffset + l) mod 4 \<noteq> 0"
    using that by (simp only: defs) (simp add: w(1,2,7,8))
qed

lemma copy_covered:
  assumes "4 dvd srcPtr" "4 dvd dstPtr"
    and "dstPtr + dstOffset + len < 18446744073709551616" "srcPtr + srcOffset + len < 18446744073709551616"
    and "srcOffset + len < 4294967296" "dstOffset + len < 4294967296"
  shows "concat (map region_bytes (copyBufferToBuffer srcPtr srcOffset dstPtr dstOffset len)) =
           map (\<lambda>i. (srcOffset + i, dstOffset + i)) [0..<len] \<and>
         (let m = copyBufferToBuffer srcPtr srcOffset dstPtr dstOffset len ! 1 in
          br_workItems m > 0 \<longrightarrow> 64 dvd dstPtr + br_dstOffset m \<and> 4 dvd srcPtr + br_srcOffset m)"
proof -
  define start where "start = dstPtr + dstOffset"
  define l where "l = leftLeftover start len"
  define r where "r = rightLeftover start len l"
  define m where "m = len - l - r"
  note parts = copy_parts [OF assms(3-6), folded start_def, folded l_def, folded r_def, folded m_def]
  have sum: "l + m + r = len" and m16: "m div 16 * 16 = m" using parts(1,2) by auto
  have bytes: "map (\<lambda>i. (srcOffset + i, dstOffset + i)) [0..<l] @
      map (\<lambda>i. (srcOffset + l + i, dstOffset + l + i)) [0..<m] @
      map (\<lambda>i. (srcOffset + l + m + i, dstOffset + l + m + i)) [0..<r] =
      map (\<lambda>i. (srcOffset + i, dstOffset + i)) [0..<len]"
    using consecutive_bytes [of srcOffset dstOffset l m] consecutive_bytes [of srcOffset dstOffset "l + m" r] sum
    by (simp add: append_assoc [symmetric] add.assoc [symmetric] del: append_assoc add.assoc)
  show ?thesis
  proof (cases "(srcPtr + srcOffset + l) mod 4 = 0")
    case True
    have d: "64 dvd dstPtr + (dstOffset + l)" if "0 < m"
      using parts(3) that sum by (simp add: start_def add.assoc)
    have s: "4 dvd srcPtr + (srcOffset + l)" using True by (simp add: dvd_eq_mod_eq_0 add.assoc)
    have "concat (map (workItemBytes CopyBufferToBufferMiddle (srcOffset + l) (dstOffset + l)) [0..<m div 16]) =
        map (\<lambda>i. (srcOffset + l + i, dstOffset + l + i)) [0..<m]"
    proof (cases "m = 0")
      case False
      then have "(4 :: nat) dvd dstPtr + (dstOffset + l)" using d dvd_trans [of "4 :: nat" 64 "dstPtr + (dstOffset + l)"] by simp
      then have "4 dvd srcOffset + l" "4 dvd dstOffset + l" using s assms(1,2) dvd_add_right_iff by blast+
      from middle_bytes [OF this] show ?thesis by (simp only: m16)
    qed simp
    then show ?thesis
      using bytes d s single_bytes [of srcOffset l dstOffset] single_bytes [of "srcOffset + l + m" r "dstOffset + l + m"] assms(5,6) sum
      by (simp add: parts(4) [OF True] region_bytes_def Let_def del: workItemBytes.simps(2))
  next
    case False
    from consecutive_bytes [of srcOffset dstOffset "l + m" r] show ?thesis
      using single_bytes [of srcOffset "l + m" dstOffset] single_bytes [of "srcOffset + (l + m)" r "dstOffset + (l + m)"] assms(5,6) sum
      by (simp add: parts(5) [OF False] region_bytes_def Let_def)
  qed
qed

text \<open>Claim C8. When the two pointers are aligned to double words, which holds for a memory object and for the host pointer of a read
  or a write, the three kernels of the built-in buffer copy handle every byte of the request exactly
  once and in place: byte \<open>i\<close> goes from source offset \<open>srcOffset + i\<close> to \<open>dstOffset + i\<close>, whatever the
  offsets are; if the middle kernel has work items, its destination starts on a cache line
  and its source on a double word. Pointers and sizes stay within 64 bits, and the offsets within
  the 32 bits that the kernels receive.\<close>

theorem buffer_copy_covers:
  assumes "4 dvd srcPtr" "4 dvd dstPtr"
    and "dstPtr + dstOffset + len < 18446744073709551616" "srcPtr + srcOffset + len < 18446744073709551616"
    and "srcOffset + len < 4294967296" "dstOffset + len < 4294967296"
  shows "concat (map region_bytes (copyBufferToBuffer srcPtr srcOffset dstPtr dstOffset len)) =
           map (\<lambda>i. (srcOffset + i, dstOffset + i)) [0..<len] \<and>
         (let m = copyBufferToBuffer srcPtr srcOffset dstPtr dstOffset len ! 1 in
          br_workItems m > 0 \<longrightarrow> 64 dvd dstPtr + br_dstOffset m \<and> 4 dvd srcPtr + br_srcOffset m)"
  using assms by (rule copy_covered)

theorem buffer_copy_covers_witness:
  "concat (map region_bytes (copyBufferToBuffer 4096 4 8192 3 200)) = map (\<lambda>i. (4 + i, 3 + i)) [0..<200] \<and>
   concat (map region_bytes (copyBufferToBuffer 4096 1 8192 0 200)) = map (\<lambda>i. (1 + i, 0 + i)) [0..<200]"
  using buffer_copy_covers [of 4096 8192 3 200 4] buffer_copy_covers [of 4096 8192 0 200 1] by simp

lemma read_write_covered:
  assumes "hostPtr + len < 18446744073709551616" "offset + len < 4294967292" "offset + len < 18446744073709551616"
  shows "concat (map region_bytes (enqueueReadBuffer_regions offset hostPtr len)) =
           map (\<lambda>i. (offset + i, hostPtr mod 4 + i)) [0..<len]"
    and "concat (map region_bytes (enqueueWriteBuffer_regions offset hostPtr len)) =
           map (\<lambda>i. (hostPtr mod 4 + i, offset + i)) [0..<len]"
    and "offset' + len < 4294967292 \<Longrightarrow> concat (map region_bytes (enqueueCopyBuffer_regions offset offset' len)) =
           map (\<lambda>i. (offset + i, offset' + i)) [0..<len]"
proof -
  have p: "4 dvd hostPtr - hostPtr mod 4" "hostPtr - (hostPtr - hostPtr mod 4) = hostPtr mod 4"
    by (simp_all add: dvd_minus_mod)
  have q: "hostPtr mod 4 + len < 4294967296" using assms(2) mod_less_divisor [of 4 hostPtr] by linarith
  show "concat (map region_bytes (enqueueReadBuffer_regions offset hostPtr len)) =
           map (\<lambda>i. (offset + i, hostPtr mod 4 + i)) [0..<len]"
    unfolding enqueueReadBuffer_regions_def Let_def p(2)
    using copy_covered [of 0 "hostPtr - hostPtr mod 4" "hostPtr mod 4" len offset] p(1) q assms by simp
  show "concat (map region_bytes (enqueueWriteBuffer_regions offset hostPtr len)) =
           map (\<lambda>i. (hostPtr mod 4 + i, offset + i)) [0..<len]"
    unfolding enqueueWriteBuffer_regions_def Let_def p(2)
    using copy_covered [of "hostPtr - hostPtr mod 4" 0 offset len "hostPtr mod 4"] p(1) q assms by simp
  show "offset' + len < 4294967292 \<Longrightarrow> concat (map region_bytes (enqueueCopyBuffer_regions offset offset' len)) =
           map (\<lambda>i. (offset + i, offset' + i)) [0..<len]"
    unfolding enqueueCopyBuffer_regions_def using copy_covered [of 0 0 offset' len offset] assms by simp
qed

text \<open>Claim C36. A copy of shared virtual memory between pointers that are not aligned to double words, but with the same misalignment, is split in the same way,
  and the middle kernel drops the low bits of its offsets: it writes in front of its place, and bytes of the destination behind it stay unwritten.\<close>

theorem svm_memcpy_misses_bytes:
  assumes "dstPtr mod 4 \<noteq> 0" "srcPtr mod 4 = dstPtr mod 4" "128 \<le> len" "len < 4294967296"
    and "dstPtr + len < 18446744073709551616" "srcPtr + len < 18446744073709551616"
  shows "\<exists>i < len. i \<notin> snd ` set (concat (map region_bytes (enqueueSVMMemcpy_regions dstPtr srcPtr len)))"
proof -
  define l where "l = leftLeftover dstPtr len"
  define r where "r = rightLeftover dstPtr len l"
  define m where "m = len - l - r"
  have parts: "l + m + r = len" "64 dvd m" "l < len \<Longrightarrow> 64 dvd dstPtr + l"
    "(srcPtr + l) mod 4 = 0 \<Longrightarrow> copyBufferToBuffer srcPtr 0 dstPtr 0 len =
      [\<lparr>br_kernel = CopyBufferToBufferLeftLeftover, br_workItems = l, br_srcOffset = 0, br_dstOffset = 0\<rparr>,
       \<lparr>br_kernel = CopyBufferToBufferMiddle, br_workItems = m div 16, br_srcOffset = l, br_dstOffset = l\<rparr>,
       \<lparr>br_kernel = CopyBufferToBufferRightLeftover, br_workItems = r, br_srcOffset = l + m, br_dstOffset = l + m\<rparr>]"
    using copy_parts [of dstPtr 0 len srcPtr 0] assms(4-6) by (simp_all add: l_def r_def m_def)
  have lt: "l < 64" "r < 64"
    by (auto simp: l_def r_def leftLeftover_def rightLeftover_def middleAlignment_def Let_def min_less_iff_disj)
  then have m: "64 \<le> m" using parts(1,2) assms(3) by (intro dvd_imp_le) linarith+
  have "64 dvd dstPtr + l" using parts(3) lt assms(3) by simp
  then have z: "(dstPtr + l) mod 4 = 0" using dvd_trans [of "4 :: nat" 64 "dstPtr + l"] by (simp add: dvd_eq_mod_eq_0)
  have src: "(srcPtr + l) mod 4 = 0" using z assms(2) by (metis mod_add_left_eq)
  have "l mod 4 \<noteq> 0" using z assms(1) by (metis add.right_neutral mod_add_right_eq)
  then have "4 * (l div 4) < l" using mult_div_mod_eq [of 4 l] by linarith
  moreover have "m div 16 * 16 \<le> m" by simp
  ultimately have mid: "l + m - 1 \<noteq> 4 * (l div 4) + (16 * g + j)" if "g < m div 16" "j < 16" for g j
  proof -
    have "16 * g + j < m div 16 * 16" using that by linarith
    then show ?thesis using \<open>4 * (l div 4) < l\<close> \<open>m div 16 * 16 \<le> m\<close> by linarith
  qed
  have b: "l + m + r \<le> 4294967296" using parts(1) assms(4) by simp
  have "l + m - 1 \<notin> snd ` set (concat (map region_bytes (enqueueSVMMemcpy_regions dstPtr srcPtr len)))"
  proof
    assume "l + m - 1 \<in> snd ` set (concat (map region_bytes (enqueueSVMMemcpy_regions dstPtr srcPtr len)))"
    then consider g where "g < l" "l + m - 1 = wrap32 g"
      | g j where "g < m div 16" "j < 16" "l + m - 1 = 4 * (l div 4) + (16 * g + j)"
      | g where "g < r" "l + m - 1 = wrap32 (g + (l + m))"
      unfolding enqueueSVMMemcpy_regions_def parts(4) [OF src] region_bytes_def
      by (auto simp del: upt_Suc upt_rec_numeral)
    then show False by cases (use mid m b in auto)
  qed
  moreover have "l + m - 1 < len" using parts(1) m by linarith
  ultimately show ?thesis by blast
qed

theorem svm_memcpy_misses_bytes_witness:
  "\<exists>i < 256. i \<notin> snd ` set (concat (map region_bytes (enqueueSVMMemcpy_regions 8193 4097 256)))"
  using svm_memcpy_misses_bytes [of 8193 4097 256] by simp

text \<open>The fill writes every byte of the destination range once; the middle kernel starts on a cache line.\<close>

lemma fill_bytes:
  assumes "d + n \<le> 4294967296"
  shows "map snd (concat (map (workItemBytes FillBufferLeftLeftover s d) [0..<n])) = map (\<lambda>i. d + i) [0..<n]"
    and "map snd (concat (map (workItemBytes FillBufferRightLeftover s d) [0..<n])) = map (\<lambda>i. d + i) [0..<n]"
    and "map snd (concat (map (workItemBytes FillBufferMiddle s d) [0..<k])) = map (\<lambda>i. d + i) [0..<k * 4]"
proof -
  have "concat (map (\<lambda>g. [(0, wrap32 (g + d))]) [0..<n]) = map (\<lambda>i. (0, d + i)) [0..<n]"
    using assms by (auto simp: add.commute concat_map_singleton)
  moreover have "workItemBytes FillBufferLeftLeftover s d = (\<lambda>g. [(0, wrap32 (g + d))])"
    "workItemBytes FillBufferRightLeftover s d = (\<lambda>g. [(0, wrap32 (g + d))])" by (simp_all add: fun_eq_iff)
  ultimately show "map snd (concat (map (workItemBytes FillBufferLeftLeftover s d) [0..<n])) = map (\<lambda>i. d + i) [0..<n]"
    "map snd (concat (map (workItemBytes FillBufferRightLeftover s d) [0..<n])) = map (\<lambda>i. d + i) [0..<n]" by (simp_all add: comp_def)
  have "workItemBytes FillBufferMiddle s d = (\<lambda>g. map (\<lambda>j. (0, d + (4 * g + j))) [0..<4])"
    by (intro ext) (simp only: workItemBytes.simps)
  then have "map snd (concat (map (workItemBytes FillBufferMiddle s d) [0..<k])) = map snd (map (\<lambda>i. (0 :: nat, d + i)) [0..<k * 4])"
    using concat_blocks [of "\<lambda>i. (0 :: nat, d + i)" 4 k] by (simp only:)
  then show "map snd (concat (map (workItemBytes FillBufferMiddle s d) [0..<k])) = map (\<lambda>i. d + i) [0..<k * 4]"
    by (simp add: comp_def)
qed

lemma fillBuffer_covers:
  assumes "dstPtr + dstOffset + len < 18446744073709551616" "dstOffset + len < 4294967296"
  shows "map snd (concat (map region_bytes (fillBuffer dstPtr dstOffset len))) = map (\<lambda>i. dstOffset + i) [0..<len]"
proof -
  define start where "start = dstPtr + dstOffset"
  define l where "l = leftLeftover start len"
  define r where "r = rightLeftover start len l"
  define m where "m = len - l - r"
  have start: "wrap64 (dstPtr + dstOffset) = start" using assms(1) by (simp add: start_def)
  note mm = middle_multiple [of start len, folded l_def, folded r_def]
  have "l + r \<le> len" "64 dvd m" using mm(1,2) assms(1) by (simp_all add: start_def m_def)
  then have sum: "l + m + r = len" and m4: "m div 4 * 4 = m" by (auto simp: m_def)
  have w: "wrap32 dstOffset = dstOffset" "wrap32 (dstOffset + l) = dstOffset + l"
    "wrap32 (dstOffset + l + m) = dstOffset + l + m"
    using assms(2) sum by simp_all
  have "fillBuffer dstPtr dstOffset len =
      [\<lparr>br_kernel = FillBufferLeftLeftover, br_workItems = l, br_srcOffset = 0, br_dstOffset = dstOffset\<rparr>,
       \<lparr>br_kernel = FillBufferMiddle, br_workItems = m div 4, br_srcOffset = 0, br_dstOffset = dstOffset + l\<rparr>,
       \<lparr>br_kernel = FillBufferRightLeftover, br_workItems = r, br_srcOffset = 0, br_dstOffset = dstOffset + l + m\<rparr>]"
    by (simp only: fillBuffer_def start Let_def l_def [symmetric] r_def [symmetric] m_def [symmetric] w)
  then have "map snd (concat (map region_bytes (fillBuffer dstPtr dstOffset len))) =
      map (\<lambda>i. dstOffset + i) [0..<l] @ map (\<lambda>i. dstOffset + l + i) [0..<m] @ map (\<lambda>i. dstOffset + l + m + i) [0..<r]"
    using fill_bytes(1) [of dstOffset l 0] fill_bytes(2) [of "dstOffset + l + m" r 0] fill_bytes(3) [of "dstOffset + l" 0 0 "m div 4"] assms(2) sum
    by (simp add: region_bytes_def m4 del: workItemBytes.simps)
  also have "\<dots> = map snd (map (\<lambda>i. (0 + i, dstOffset + i)) [0..<l] @ map (\<lambda>i. (0 + l + i, dstOffset + l + i)) [0..<m] @
      map (\<lambda>i. (0 + (l + m) + i, dstOffset + (l + m) + i)) [0..<r])"
    by (simp add: comp_def add.assoc)
  also have "\<dots> = map snd (map (\<lambda>i. (0 + i, dstOffset + i)) [0..<len])"
    using consecutive_bytes [of 0 dstOffset l m] consecutive_bytes [of 0 dstOffset "l + m" r] sum
    by (simp add: append_assoc [symmetric] del: append_assoc map_append)
  finally show ?thesis by (simp add: comp_def)
qed

end
