(* ===== verification/Kernel_Info.thy ===== *)
theory Kernel_Info
  imports Runtime_Prelude Program_Binary
begin

text \<open>
  \<^verbatim>\<open>KernelInfo\<close>: what the runtime keeps of a kernel of a device binary. The theory has the records of
  the argument and workload information, the operations that store the content of a patch token
  (\<^verbatim>\<open>storeArgInfo\<close>, \<^verbatim>\<open>storeKernelArgument\<close>, \<^verbatim>\<open>storePatchToken\<close>), the resolution of the qualifiers and the
  queries. A pointer into the patch list is the content of the token it points to. Offsets and sizes
  are unsigned 32-bit values kept as natural numbers; an access behind a vector or a fixed array is a fault.
  The invariant is that \<^verbatim>\<open>argumentsToPatchNum\<close> counts the registered arguments.
\<close>

section \<open>Arguments and workload\<close>

record KernelArgPatchInfo =
  kap_crossthreadOffset :: nat
  kap_size :: nat
  kap_sourceOffset :: nat

definition undefinedOffset32 :: nat where "undefinedOffset32 = 4294967295"

record KernelArgInfo =
  ka_name :: string
  ka_typeStr :: string
  ka_accessQualifierStr :: string
  ka_addressQualifierStr :: string
  ka_typeQualifierStr :: string
  ka_offsetHeap :: nat
  ka_kernelArgPatchInfoVector :: "KernelArgPatchInfo list"
  ka_slmAlignment :: nat
  ka_isImage :: bool
  ka_isMediaImage :: bool
  ka_isMediaBlockImage :: bool
  ka_isSampler :: bool
  ka_isAccelerator :: bool
  ka_isDeviceQueue :: bool
  ka_isBuffer :: bool
  ka_pureStatefulBufferAccess :: bool
  ka_samplerArgumentType :: nat
  ka_offsetImgWidth :: nat
  ka_offsetImgHeight :: nat
  ka_offsetImgDepth :: nat
  ka_offsetChannelDataType :: nat
  ka_offsetChannelOrder :: nat
  ka_offsetArraySize :: nat
  ka_offsetNumSamples :: nat
  ka_offsetSamplerSnapWa :: nat
  ka_offsetSamplerAddressingMode :: nat
  ka_offsetSamplerNormalizedCoords :: nat
  ka_offsetVmeMbBlockType :: nat
  ka_offsetVmeSubpixelMode :: nat
  ka_offsetVmeSadAdjustMode :: nat
  ka_offsetVmeSearchPathType :: nat
  ka_offsetObjectId :: nat
  ka_offsetBufferOffset :: nat
  ka_offsetNumMipLevels :: nat
  ka_needPatch :: bool
  ka_isTransformable :: bool
  ka_accessQualifier :: nat
  ka_addressQualifier :: nat
  ka_typeQualifier :: u64

definition CL_KERNEL_ARG_ACCESS_READ_ONLY :: nat where "CL_KERNEL_ARG_ACCESS_READ_ONLY = 4512"

definition CL_KERNEL_ARG_ACCESS_WRITE_ONLY :: nat where "CL_KERNEL_ARG_ACCESS_WRITE_ONLY = 4513"

definition CL_KERNEL_ARG_ACCESS_READ_WRITE :: nat where "CL_KERNEL_ARG_ACCESS_READ_WRITE = 4514"

definition CL_KERNEL_ARG_ACCESS_NONE :: nat where "CL_KERNEL_ARG_ACCESS_NONE = 4515"

definition CL_KERNEL_ARG_ADDRESS_GLOBAL :: nat where "CL_KERNEL_ARG_ADDRESS_GLOBAL = 4507"

definition CL_KERNEL_ARG_ADDRESS_LOCAL :: nat where "CL_KERNEL_ARG_ADDRESS_LOCAL = 4508"

definition CL_KERNEL_ARG_ADDRESS_CONSTANT :: nat where "CL_KERNEL_ARG_ADDRESS_CONSTANT = 4509"

definition CL_KERNEL_ARG_ADDRESS_PRIVATE :: nat where "CL_KERNEL_ARG_ADDRESS_PRIVATE = 4510"

definition KernelArgInfo_default :: KernelArgInfo where
  "KernelArgInfo_default =
     \<lparr>ka_name = [], ka_typeStr = [], ka_accessQualifierStr = [], ka_addressQualifierStr = [],
      ka_typeQualifierStr = [], ka_offsetHeap = 0, ka_kernelArgPatchInfoVector = [], ka_slmAlignment = 0,
      ka_isImage = False, ka_isMediaImage = False, ka_isMediaBlockImage = False, ka_isSampler = False,
      ka_isAccelerator = False, ka_isDeviceQueue = False, ka_isBuffer = False, ka_pureStatefulBufferAccess = False,
      ka_samplerArgumentType = 0, ka_offsetImgWidth = undefinedOffset32, ka_offsetImgHeight = undefinedOffset32,
      ka_offsetImgDepth = undefinedOffset32, ka_offsetChannelDataType = undefinedOffset32,
      ka_offsetChannelOrder = undefinedOffset32, ka_offsetArraySize = undefinedOffset32,
      ka_offsetNumSamples = undefinedOffset32, ka_offsetSamplerSnapWa = undefinedOffset32,
      ka_offsetSamplerAddressingMode = undefinedOffset32, ka_offsetSamplerNormalizedCoords = undefinedOffset32,
      ka_offsetVmeMbBlockType = undefinedOffset32, ka_offsetVmeSubpixelMode = undefinedOffset32,
      ka_offsetVmeSadAdjustMode = undefinedOffset32, ka_offsetVmeSearchPathType = undefinedOffset32,
      ka_offsetObjectId = undefinedOffset32, ka_offsetBufferOffset = undefinedOffset32,
      ka_offsetNumMipLevels = undefinedOffset32, ka_needPatch = False, ka_isTransformable = False,
      ka_accessQualifier = CL_KERNEL_ARG_ACCESS_NONE, ka_addressQualifier = CL_KERNEL_ARG_ADDRESS_GLOBAL,
      ka_typeQualifier = 0\<rparr>"

record WorkloadInfo =
  wl_globalWorkOffsetOffsets :: "nat list"
  wl_globalWorkSizeOffsets :: "nat list"
  wl_localWorkSizeOffsets :: "nat list"
  wl_localWorkSizeOffsets2 :: "nat list"
  wl_enqueuedLocalWorkSizeOffsets :: "nat list"
  wl_numWorkGroupsOffset :: "nat list"
  wl_maxWorkGroupSizeOffset :: nat
  wl_workDimOffset :: nat
  wl_slmStaticSize :: nat
  wl_simdSizeOffset :: nat
  wl_parentEventOffset :: nat
  wl_prefferedWkgMultipleOffset :: nat

definition WorkloadInfo_ctor :: WorkloadInfo where
  "WorkloadInfo_ctor =
     (let u = undefinedOffset32; uuu = [u, u, u] in
      \<lparr>wl_globalWorkOffsetOffsets = uuu, wl_globalWorkSizeOffsets = uuu, wl_localWorkSizeOffsets = uuu,
       wl_localWorkSizeOffsets2 = uuu, wl_enqueuedLocalWorkSizeOffsets = uuu, wl_numWorkGroupsOffset = uuu,
       wl_maxWorkGroupSizeOffset = u, wl_workDimOffset = u, wl_slmStaticSize = 0, wl_simdSizeOffset = u,
       wl_parentEventOffset = u, wl_prefferedWkgMultipleOffset = u\<rparr>)"

section \<open>The content of patch tokens\<close>

text \<open>The fields the runtime reads of a token. The layout of the tokens is that of the compiler
  and not part of the sources.\<close>

record SamplerStateArray = ssa_Offset :: nat  ssa_Count :: nat  ssa_BorderColorOffset :: nat

record BindingTableState = bts_Offset :: nat  bts_Count :: nat  bts_SurfaceStateOffset :: nat

record ExecutionEnvironmentToken =
  ee_RequiredWorkGroupSizeX :: nat
  ee_RequiredWorkGroupSizeY :: nat
  ee_RequiredWorkGroupSizeZ :: nat
  ee_CompiledForGreaterThan4GBBuffers :: bool
  ee_CompiledSIMD16 :: bool
  ee_CompiledSIMD32 :: bool
  ee_HasDeviceEnqueue :: bool
  ee_SubgroupIndependentForwardProgressRequired :: bool

record StatelessArgument =
  sa_ArgumentNumber :: nat
  sa_SurfaceStateHeapOffset :: nat
  sa_DataParamOffset :: nat
  sa_DataParamSize :: nat

record ImageArgument =
  ia_ArgumentNumber :: nat
  ia_Offset :: nat
  ia_isMedia :: bool
  ia_isMediaBlock :: bool
  ia_Writeable :: bool
  ia_Transformable :: bool

record SamplerArgument =
  sk_ArgumentNumber :: nat
  sk_Offset :: nat
  sk_Type :: nat
  sk_isTexture :: bool

record HeapObjectArgument = ho_ArgumentNumber :: nat  ho_Offset :: nat

record SurfaceToken =
  st_SurfaceStateHeapOffset :: nat
  st_DataParamOffset :: nat
  st_DataParamSize :: nat
  st_PerThreadSize :: nat

record StringToken = ps_Index :: nat  ps_StringSize :: nat  ps_data :: string

record ArgumentInfoToken =
  ai_ArgumentNumber :: nat
  ai_AddressQualifierSize :: nat
  ai_AccessQualifierSize :: nat
  ai_ArgumentNameSize :: nat
  ai_TypeNameSize :: nat
  ai_data :: string

datatype DataParamType =
    KERNEL_ARGUMENT | LOCAL_WORK_SIZE | GLOBAL_WORK_OFFSET | ENQUEUED_LOCAL_WORK_SIZE | GLOBAL_WORK_SIZE
  | NUM_WORK_GROUPS | MAX_WORKGROUP_SIZE | WORK_DIMENSIONS | SUM_OF_LOCAL_MEMORY_OBJECT_ARGUMENT_SIZES
  | IMAGE_WIDTH | IMAGE_HEIGHT | IMAGE_DEPTH | SAMPLER_COORDINATE_SNAP_WA_REQUIRED | SAMPLER_ADDRESS_MODE
  | SAMPLER_NORMALIZED_COORDS | IMAGE_CHANNEL_DATA_TYPE | IMAGE_CHANNEL_ORDER | IMAGE_ARRAY_SIZE | OBJECT_ID
  | SIMD_SIZE | PARENT_EVENT | CHILD_BLOCK_SIMD_SIZE | PRIVATE_MEMORY_STATELESS_SIZE
  | LOCAL_MEMORY_STATELESS_WINDOW_SIZE | LOCAL_MEMORY_STATELESS_WINDOW_START_ADDRESS
  | PREFERRED_WORKGROUP_MULTIPLE | BUFFER_OFFSET | NUM_HARDWARE_THREADS | PRINTF_SURFACE_SIZE
  | VME_MB_BLOCK_TYPE | VME_SUBPIXEL_MODE | VME_SAD_ADJUST_MODE | VME_SEARCH_PATH_TYPE
  | IMAGE_NUM_SAMPLES | IMAGE_NUM_MIP_LEVELS | BUFFER_STATEFUL | IMAGE_SRGB_CHANNEL_ORDER
  | STAGE_IN_GRID_ORIGIN | STAGE_IN_GRID_SIZE | LOCAL_ID | EXECUTION_MASK | VME_IMAGE_TYPE
  | VME_MB_SKIP_BLOCK_TYPE | UNKNOWN_PARAMETER nat

record DataParameterBuffer =
  dp_Type :: DataParamType
  dp_ArgumentNumber :: nat
  dp_Offset :: nat
  dp_DataSize :: nat
  dp_SourceOffset :: nat

section \<open>The kernel information\<close>

record PrintfStringInfo = psi_SizeInBytes :: nat  psi_stringData :: string

record PatchInfo =
  pi_interfaceDescriptorDataLoad :: "nat option"
  pi_localsurface :: "nat option"
  pi_mediavfestate :: "(nat \<times> nat) option"
  pi_interfaceDescriptorData :: "nat option"
  pi_samplerStateArray :: "SamplerStateArray option"
  pi_bindingTableState :: "BindingTableState option"
  pi_dataParameterBuffers :: "DataParameterBuffer list"
  pi_statelessGlobalMemObjKernelArgs :: "StatelessArgument list"
  pi_imageMemObjKernelArgs :: "ImageArgument list"
  pi_globalMemObjKernelArgs :: "HeapObjectArgument list"
  pi_dataParameterStream :: "nat option"
  pi_threadPayload :: "nat option"
  pi_executionEnvironment :: "ExecutionEnvironmentToken option"
  pi_pKernelAttributesInfo :: "string option"
  pi_pAllocateStatelessPrivateSurface :: "SurfaceToken option"
  pi_pAllocateStatelessConstantMemorySurface :: "SurfaceToken option"
  pi_pAllocateStatelessGlobalMemorySurface :: "SurfaceToken option"
  pi_pAllocateStatelessPrintfSurface :: "SurfaceToken option"
  pi_pAllocateStatelessEventPoolSurface :: "SurfaceToken option"
  pi_pAllocateStatelessDefaultDeviceQueueSurface :: "SurfaceToken option"
  pi_pAllocateSystemThreadSurface :: "SurfaceToken option"
  pi_stringDataMap :: "nat \<rightharpoonup> PrintfStringInfo"
  pi_kernelArgumentInfo :: "ArgumentInfoToken list"

definition PatchInfo_ctor :: PatchInfo where
  "PatchInfo_ctor =
     \<lparr>pi_interfaceDescriptorDataLoad = None, pi_localsurface = None, pi_mediavfestate = None,
      pi_interfaceDescriptorData = None, pi_samplerStateArray = None, pi_bindingTableState = None,
      pi_dataParameterBuffers = [], pi_statelessGlobalMemObjKernelArgs = [], pi_imageMemObjKernelArgs = [],
      pi_globalMemObjKernelArgs = [], pi_dataParameterStream = None, pi_threadPayload = None,
      pi_executionEnvironment = None, pi_pKernelAttributesInfo = None, pi_pAllocateStatelessPrivateSurface = None,
      pi_pAllocateStatelessConstantMemorySurface = None, pi_pAllocateStatelessGlobalMemorySurface = None,
      pi_pAllocateStatelessPrintfSurface = None, pi_pAllocateStatelessEventPoolSurface = None,
      pi_pAllocateStatelessDefaultDeviceQueueSurface = None, pi_pAllocateSystemThreadSurface = None,
      pi_stringDataMap = Map.empty, pi_kernelArgumentInfo = []\<rparr>"

record KernelInfo =
  ki_name :: string
  ki_attributes :: string
  ki_patchInfo :: PatchInfo
  ki_kernelArgInfo :: "KernelArgInfo list"
  ki_workloadInfo :: WorkloadInfo
  ki_childrenKernelsIdOffset :: "(nat \<times> nat) list"
  ki_usesSsh :: bool
  ki_requiresSshForBuffers :: bool
  ki_isValid :: bool
  ki_isVmeWorkload :: bool
  ki_crossThreadData :: "u8 list option"
  ki_reqdWorkGroupSize :: "nat list"
  ki_requiredSubGroupSize :: nat
  ki_workgroupWalkOrder :: "nat list"
  ki_workgroupDimensionsOrder :: "nat list"
  ki_gpuPointerSize :: nat
  ki_argumentsToPatchNum :: nat
  ki_systemKernelOffset :: nat
  ki_kernelAllocation :: bool
  ki_igcInfoForGtpin :: "nat option"
  ki_blobSize :: nat

definition KernelInfo_ctor :: KernelInfo where
  "KernelInfo_ctor =
     \<lparr>ki_name = [], ki_attributes = [], ki_patchInfo = PatchInfo_ctor, ki_kernelArgInfo = [],
      ki_workloadInfo = WorkloadInfo_ctor, ki_childrenKernelsIdOffset = [], ki_usesSsh = False,
      ki_requiresSshForBuffers = False, ki_isValid = False, ki_isVmeWorkload = False, ki_crossThreadData = None,
      ki_reqdWorkGroupSize = [undefinedOffset32, undefinedOffset32, undefinedOffset32],
      ki_requiredSubGroupSize = 0, ki_workgroupWalkOrder = [0, 1, 2], ki_workgroupDimensionsOrder = [0, 1, 2],
      ki_gpuPointerSize = 0, ki_argumentsToPatchNum = 0, ki_systemKernelOffset = 0, ki_kernelAllocation = False,
      ki_igcInfoForGtpin = None, ki_blobSize = 0\<rparr>"

section \<open>Storing tokens\<close>

text \<open>\<^verbatim>\<open>kernelArgInfo.resize(argCount + 1)\<close>, with the addition in 32 bits.\<close>

definition resizeArgs :: "nat \<Rightarrow> KernelArgInfo list \<Rightarrow> KernelArgInfo list" where
  "resizeArgs n xs = (if n \<le> length xs then take n xs else xs @ replicate (n - length xs) KernelArgInfo_default)"

definition resizeKernelArgInfoAndRegisterParameter :: "nat \<Rightarrow> KernelInfo \<Rightarrow> KernelInfo rt_result" where
  "resizeKernelArgInfoAndRegisterParameter argCount k =
     (let args = (if length (ki_kernelArgInfo k) \<le> argCount then resizeArgs (wrap32 (argCount + 1)) (ki_kernelArgInfo k)
                  else ki_kernelArgInfo k)
      in if argCount \<ge> length args then Inl OutOfBounds
         else if \<not> ka_needPatch (args ! argCount)
         then Inr (k\<lparr>ki_kernelArgInfo := args[argCount := (args ! argCount)\<lparr>ka_needPatch := True\<rparr>],
                     ki_argumentsToPatchNum := wrap32 (ki_argumentsToPatchNum k + 1)\<rparr>)
         else Inr (k\<lparr>ki_kernelArgInfo := args\<rparr>))"

text \<open>An assignment to fields of one argument.\<close>

definition updateArg :: "nat \<Rightarrow> (KernelArgInfo \<Rightarrow> KernelArgInfo) \<Rightarrow> KernelInfo \<Rightarrow> KernelInfo" where
  "updateArg i f k = k\<lparr>ki_kernelArgInfo := (ki_kernelArgInfo k)[i := f (ki_kernelArgInfo k ! i)]\<rparr>"

definition registerAndUpdate :: "nat \<Rightarrow> (KernelArgInfo \<Rightarrow> KernelArgInfo) \<Rightarrow> KernelInfo \<Rightarrow> KernelInfo rt_result" where
  "registerAndUpdate argNum f k =
     rt_bind (resizeKernelArgInfoAndRegisterParameter argNum k) (\<lambda>k. Inr (updateArg argNum f k))"

definition updatePatchInfo :: "(PatchInfo \<Rightarrow> PatchInfo) \<Rightarrow> KernelInfo \<Rightarrow> KernelInfo" where
  "updatePatchInfo f k = k\<lparr>ki_patchInfo := f (ki_patchInfo k)\<rparr>"

definition storeKernelArgPatchInfo :: "nat \<Rightarrow> nat \<Rightarrow> nat \<Rightarrow> nat \<Rightarrow> nat \<Rightarrow> KernelInfo \<Rightarrow> KernelInfo rt_result" where
  "storeKernelArgPatchInfo argNum dataSize dataOffset sourceOffset offsetSSH =
     registerAndUpdate argNum (\<lambda>a. a\<lparr>
       ka_kernelArgPatchInfoVector := ka_kernelArgPatchInfoVector a @
         [\<lparr>kap_crossthreadOffset = dataOffset, kap_size = dataSize, kap_sourceOffset = sourceOffset\<rparr>],
       ka_offsetHeap := offsetSSH\<rparr>)"

text \<open>The C string that starts at an offset of the inline data of a token.\<close>

definition cstringAt :: "nat \<Rightarrow> string \<Rightarrow> string" where
  "cstringAt off data = takeWhile (\<lambda>c. c \<noteq> CHR 0x00) (drop off data)"

definition storeArgInfo :: "ArgumentInfoToken \<Rightarrow> KernelInfo \<Rightarrow> KernelInfo rt_result" where
  "storeArgInfo t k =
     (let argNum = ai_ArgumentNumber t;
          access = ai_AddressQualifierSize t;
          name = access + ai_AccessQualifierSize t;
          type = name + ai_ArgumentNameSize t;
          qualifier = type + ai_TypeNameSize t
      in rt_bind (resizeKernelArgInfoAndRegisterParameter argNum k) (\<lambda>k.
         if CHR '';'' \<notin> set (cstringAt type (ai_data t)) then Inl NullDereference
         else Inr (updatePatchInfo (\<lambda>p. p\<lparr>pi_kernelArgumentInfo := pi_kernelArgumentInfo p @ [t]\<rparr>)
           (updateArg argNum (\<lambda>a. a\<lparr>
              ka_addressQualifierStr := cstringAt 0 (ai_data t),
              ka_accessQualifierStr := cstringAt access (ai_data t),
              ka_name := cstringAt name (ai_data t),
              ka_typeStr := takeWhile (\<lambda>c. c \<noteq> CHR '';'') (cstringAt type (ai_data t)),
              ka_typeQualifierStr := cstringAt qualifier (ai_data t)\<rparr>) k))))"

definition storeDataParameterArgument :: "DataParameterBuffer \<Rightarrow> KernelInfo \<Rightarrow> KernelInfo rt_result" where
  "storeDataParameterArgument t =
     storeKernelArgPatchInfo (dp_ArgumentNumber t) (dp_DataSize t) (dp_Offset t) (dp_SourceOffset t) 0"

definition storeStatelessGlobalArgument :: "StatelessArgument \<Rightarrow> KernelInfo \<Rightarrow> KernelInfo rt_result" where
  "storeStatelessGlobalArgument t k =
     rt_bind (storeKernelArgPatchInfo (sa_ArgumentNumber t) (sa_DataParamSize t) (sa_DataParamOffset t) 0
                (sa_SurfaceStateHeapOffset t) (k\<lparr>ki_usesSsh := True\<rparr>)) (\<lambda>k.
     Inr (updatePatchInfo (\<lambda>p. p\<lparr>pi_statelessGlobalMemObjKernelArgs := pi_statelessGlobalMemObjKernelArgs p @ [t]\<rparr>)
       (updateArg (sa_ArgumentNumber t) (\<lambda>a. a\<lparr>ka_isBuffer := True\<rparr>) k)))"

definition storeImageArgument :: "ImageArgument \<Rightarrow> KernelInfo \<Rightarrow> KernelInfo rt_result" where
  "storeImageArgument t k =
     rt_bind (storeKernelArgPatchInfo (ia_ArgumentNumber t) 0 0 0 (ia_Offset t) (k\<lparr>ki_usesSsh := True\<rparr>)) (\<lambda>k.
     Inr (updatePatchInfo (\<lambda>p. p\<lparr>pi_imageMemObjKernelArgs := pi_imageMemObjKernelArgs p @ [t]\<rparr>)
       (updateArg (ia_ArgumentNumber t) (\<lambda>a. a\<lparr>
          ka_isImage := True,
          ka_isMediaImage := ka_isMediaImage a \<or> ia_isMedia t,
          ka_isMediaBlockImage := ka_isMediaBlockImage a \<or> ia_isMediaBlock t,
          ka_accessQualifier := (if ia_Writeable t then CL_KERNEL_ARG_ACCESS_READ_WRITE
                                 else CL_KERNEL_ARG_ACCESS_READ_ONLY),
          ka_isTransformable := ia_Transformable t\<rparr>) k)))"

definition storeGlobalArgument :: "HeapObjectArgument \<Rightarrow> KernelInfo \<Rightarrow> KernelInfo rt_result" where
  "storeGlobalArgument t k =
     rt_bind (storeKernelArgPatchInfo (ho_ArgumentNumber t) 0 0 0 (ho_Offset t) (k\<lparr>ki_usesSsh := True\<rparr>)) (\<lambda>k.
     Inr (updatePatchInfo (\<lambda>p. p\<lparr>pi_globalMemObjKernelArgs := pi_globalMemObjKernelArgs p @ [t]\<rparr>)
       (updateArg (ho_ArgumentNumber t) (\<lambda>a. a\<lparr>ka_isBuffer := True\<rparr>) k)))"

definition storeSamplerArgument :: "SamplerArgument \<Rightarrow> KernelInfo \<Rightarrow> KernelInfo rt_result" where
  "storeSamplerArgument t k =
     rt_bind (storeKernelArgPatchInfo (sk_ArgumentNumber t) 0 0 0 (sk_Offset t) k) (\<lambda>k.
     let k = updateArg (sk_ArgumentNumber t) (\<lambda>a. a\<lparr>ka_samplerArgumentType := sk_Type t\<rparr>) k
     in Inr (if \<not> sk_isTexture t
             then (updateArg (sk_ArgumentNumber t) (\<lambda>a. a\<lparr>ka_isAccelerator := True\<rparr>) k)\<lparr>ki_isVmeWorkload := True\<rparr>
             else updateArg (sk_ArgumentNumber t) (\<lambda>a. a\<lparr>ka_isSampler := True\<rparr>) k))"

text \<open>The constant argument is pushed to the vector of the global ones, by a cast of its pointer.\<close>

definition storeStatelessConstantArgument :: "StatelessArgument \<Rightarrow> KernelInfo \<Rightarrow> KernelInfo rt_result" where
  "storeStatelessConstantArgument t k =
     rt_bind (storeKernelArgPatchInfo (sa_ArgumentNumber t) (sa_DataParamSize t) (sa_DataParamOffset t) 0
                (sa_SurfaceStateHeapOffset t) (k\<lparr>ki_usesSsh := True\<rparr>)) (\<lambda>k.
     Inr (updatePatchInfo (\<lambda>p. p\<lparr>pi_statelessGlobalMemObjKernelArgs := pi_statelessGlobalMemObjKernelArgs p @ [t]\<rparr>)
       (updateArg (sa_ArgumentNumber t) (\<lambda>a. a\<lparr>ka_isBuffer := True\<rparr>) k)))"

definition storeDeviceQueueArgument :: "StatelessArgument \<Rightarrow> KernelInfo \<Rightarrow> KernelInfo rt_result" where
  "storeDeviceQueueArgument t k =
     rt_bind (registerAndUpdate (sa_ArgumentNumber t) (\<lambda>a. a\<lparr>ka_isDeviceQueue := True\<rparr>) k)
       (storeKernelArgPatchInfo (sa_ArgumentNumber t) (sa_DataParamSize t) (sa_DataParamOffset t) 0
          (sa_SurfaceStateHeapOffset t))"

text \<open>\<^verbatim>\<open>std::map::insert\<close> keeps the entry of an index that is present already.\<close>

definition storeString :: "StringToken \<Rightarrow> KernelInfo \<Rightarrow> KernelInfo" where
  "storeString t k =
     (if ps_StringSize t \<noteq> 0 then
        updatePatchInfo (\<lambda>p. p\<lparr>pi_stringDataMap :=
          (case pi_stringDataMap p (ps_Index t) of
             Some _ \<Rightarrow> pi_stringDataMap p
           | None \<Rightarrow> (pi_stringDataMap p)(ps_Index t \<mapsto>
               \<lparr>psi_SizeInBytes = ps_StringSize t, psi_stringData = take (ps_StringSize t) (ps_data t)\<rparr>))\<rparr>) k
      else k)"

text \<open>\<^verbatim>\<open>std::string::find\<close> and the extraction of an unsigned number from a stream.\<close>

fun findString :: "string \<Rightarrow> string \<Rightarrow> nat option" where
  "findString p s =
     (if take (length p) s = p then Some 0
      else case s of [] \<Rightarrow> None | _ # cs \<Rightarrow> map_option Suc (findString p cs))"

definition isDigit :: "char \<Rightarrow> bool" where
  "isDigit c = (48 \<le> (of_char c :: nat) \<and> of_char c \<le> (57 :: nat))"

definition digitsValue :: "string \<Rightarrow> nat" where
  "digitsValue ds = foldl (\<lambda>n c. 10 * n + (of_char c - 48)) 0 (takeWhile isDigit ds)"

definition isBlank :: "char \<Rightarrow> bool" where
  "isBlank c = (of_char c = (32 :: nat) \<or> 9 \<le> (of_char c :: nat) \<and> of_char c \<le> (13 :: nat))"

definition extractSize :: "string \<Rightarrow> nat" where
  "extractSize s =
     (let s = dropWhile isBlank s;
          negative = (s \<noteq> [] \<and> hd s = CHR ''-'');
          v = digitsValue (if s \<noteq> [] \<and> hd s \<in> {CHR ''+'', CHR ''-''} then tl s else s)
      in if v > 18446744073709551615 then 18446744073709551615
         else if negative then wrap64 (18446744073709551616 - v) else v)"

definition subGroupAttribute :: string where
  "subGroupAttribute = ''intel_reqd_sub_group_size(''"

definition storeAttributes :: "string \<Rightarrow> KernelInfo \<Rightarrow> KernelInfo" where
  "storeAttributes data k =
     (let attributes = cstringAt 0 data; k = k\<lparr>ki_attributes := attributes\<rparr>
      in case findString subGroupAttribute attributes of
           None \<Rightarrow> k
         | Some start \<Rightarrow>
             let rest = drop (start + length subGroupAttribute) attributes
             in k\<lparr>ki_requiredSubGroupSize := extractSize (takeWhile (\<lambda>c. c \<noteq> CHR '')'') rest)\<rparr>)"

definition storeSurface :: "(PatchInfo \<Rightarrow> PatchInfo) \<Rightarrow> KernelInfo \<Rightarrow> KernelInfo" where
  "storeSurface f k = updatePatchInfo f (k\<lparr>ki_usesSsh := True\<rparr>)"

section \<open>Resolution and queries\<close>

definition accessQualifierMap :: "string \<rightharpoonup> nat" where
  "accessQualifierMap = map_of
     [([], CL_KERNEL_ARG_ACCESS_NONE), (''NONE'', CL_KERNEL_ARG_ACCESS_NONE),
      (''read_only'', CL_KERNEL_ARG_ACCESS_READ_ONLY), (''__read_only'', CL_KERNEL_ARG_ACCESS_READ_ONLY),
      (''write_only'', CL_KERNEL_ARG_ACCESS_WRITE_ONLY), (''__write_only'', CL_KERNEL_ARG_ACCESS_WRITE_ONLY),
      (''read_write'', CL_KERNEL_ARG_ACCESS_READ_WRITE), (''__read_write'', CL_KERNEL_ARG_ACCESS_READ_WRITE)]"

definition addressQualifierMap :: "string \<rightharpoonup> nat" where
  "addressQualifierMap = map_of
     [([], CL_KERNEL_ARG_ADDRESS_GLOBAL), (''__global'', CL_KERNEL_ARG_ADDRESS_GLOBAL),
      (''__local'', CL_KERNEL_ARG_ADDRESS_LOCAL), (''__private'', CL_KERNEL_ARG_ADDRESS_PRIVATE),
      (''__constant'', CL_KERNEL_ARG_ADDRESS_CONSTANT), (''not_specified'', CL_KERNEL_ARG_ADDRESS_PRIVATE)]"

definition typeQualifiers :: "(string \<times> u64) list" where
  "typeQualifiers = [(''const'', 1), (''volatile'', 4), (''restrict'', 2), (''pipe'', 8)]"

definition resolveTypeQualifier :: "string \<Rightarrow> u64 \<Rightarrow> u64" where
  "resolveTypeQualifier s q =
     fold (\<lambda>(name, v) q. if findString name s \<noteq> None then q OR v else q) typeQualifiers q"

definition resolveArg :: "KernelArgInfo \<Rightarrow> KernelArgInfo \<times> bool" where
  "resolveArg a =
     (case accessQualifierMap (ka_accessQualifierStr a) of
        None \<Rightarrow> (a, False)
      | Some q \<Rightarrow>
          let a = a\<lparr>ka_accessQualifier := q\<rparr> in
          case addressQualifierMap (ka_addressQualifierStr a) of
            None \<Rightarrow> (a, False)
          | Some q \<Rightarrow> (a\<lparr>ka_addressQualifier := q,
                          ka_typeQualifier := resolveTypeQualifier (ka_typeQualifierStr a) (ka_typeQualifier a)\<rparr>, True))"

fun resolveArgs :: "KernelArgInfo list \<Rightarrow> KernelArgInfo list \<times> int" where
  "resolveArgs [] = ([], CL_SUCCESS)"
| "resolveArgs (a # as) =
     (case resolveArg a of
        (a, False) \<Rightarrow> (a # as, CL_INVALID_BINARY)
      | (a, True) \<Rightarrow> (case resolveArgs as of (as, r) \<Rightarrow> (a # as, r)))"

definition resolveKernelInfo :: "KernelInfo \<Rightarrow> int \<times> KernelInfo" where
  "resolveKernelInfo k =
     (case resolveArgs (ki_kernelArgInfo k) of (as, r) \<Rightarrow> (r, k\<lparr>ki_kernelArgInfo := as\<rparr>))"

definition queryPrintfString :: "KernelInfo \<Rightarrow> nat \<Rightarrow> string option" where
  "queryPrintfString k i = map_option psi_stringData (pi_stringDataMap (ki_patchInfo k) i)"

definition getSamplerStateArrayCount :: "KernelInfo \<Rightarrow> nat" where
  "getSamplerStateArrayCount k = (case pi_samplerStateArray (ki_patchInfo k) of Some s \<Rightarrow> ssa_Count s | None \<Rightarrow> 0)"

text \<open>The difference is that of two 32-bit values.\<close>

text \<open>The size of one sampler state is that of the hardware generation.\<close>

definition getSamplerStateArraySize :: "nat \<Rightarrow> KernelInfo \<Rightarrow> nat" where
  "getSamplerStateArraySize samplerStateSize k = wrap64 (getSamplerStateArrayCount k * samplerStateSize)"

definition getBorderColorStateSize :: "KernelInfo \<Rightarrow> nat" where
  "getBorderColorStateSize k =
     (case pi_samplerStateArray (ki_patchInfo k) of
        Some s \<Rightarrow> wrap32 (ssa_Offset s + 4294967296 - ssa_BorderColorOffset s) | None \<Rightarrow> 0)"

definition getBorderColorOffset :: "KernelInfo \<Rightarrow> nat" where
  "getBorderColorOffset k =
     (case pi_samplerStateArray (ki_patchInfo k) of Some s \<Rightarrow> ssa_BorderColorOffset s | None \<Rightarrow> 0)"

definition getConstantBufferSize :: "KernelInfo \<Rightarrow> nat" where
  "getConstantBufferSize k = (case pi_dataParameterStream (ki_patchInfo k) of Some n \<Rightarrow> n | None \<Rightarrow> 0)"

definition getMaxSimdSize :: "KernelInfo \<Rightarrow> nat" where
  "getMaxSimdSize k =
     (case pi_executionEnvironment (ki_patchInfo k) of
        None \<Rightarrow> 1
      | Some e \<Rightarrow> if ee_CompiledSIMD32 e then 32 else if ee_CompiledSIMD16 e then 16 else 8)"

definition hasDeviceEnqueue :: "KernelInfo \<Rightarrow> bool" where
  "hasDeviceEnqueue k =
     (case pi_executionEnvironment (ki_patchInfo k) of Some e \<Rightarrow> ee_HasDeviceEnqueue e | None \<Rightarrow> False)"

definition requiresSubgroupIndependentForwardProgress :: "KernelInfo \<Rightarrow> bool" where
  "requiresSubgroupIndependentForwardProgress k =
     (case pi_executionEnvironment (ki_patchInfo k) of
        Some e \<Rightarrow> ee_SubgroupIndependentForwardProgressRequired e | None \<Rightarrow> False)"

definition getMaxRequiredWorkGroupSize :: "nat \<Rightarrow> KernelInfo \<Rightarrow> nat rt_result" where
  "getMaxRequiredWorkGroupSize maxWorkGroupSize k =
     (case pi_executionEnvironment (ki_patchInfo k) of
        None \<Rightarrow> Inl NullDereference
      | Some e \<Rightarrow>
          let r = wrap32 (wrap32 (ee_RequiredWorkGroupSizeX e * ee_RequiredWorkGroupSizeY e) * ee_RequiredWorkGroupSizeZ e)
          in Inr (if r = 0 \<or> r > maxWorkGroupSize then maxWorkGroupSize else r))"

fun argNumLoop :: "string \<Rightarrow> KernelArgInfo list \<Rightarrow> int \<Rightarrow> int" where
  "argNumLoop name [] n = - 1"
| "argNumLoop name (a # as) n = (if ka_name a = name then n else argNumLoop name as (n + 1))"

definition getArgNumByName :: "string \<Rightarrow> KernelInfo \<Rightarrow> int" where
  "getArgNumByName name k = argNumLoop name (ki_kernelArgInfo k) 0"

end
