(* ===== verification/Jenkins_Hash.thy ===== *)
theory Jenkins_Hash
  imports Runtime_Prelude
begin

text \<open>
  \<^verbatim>\<open>Hash\<close>: the mixing function of Jenkins over the 32-bit words of a buffer, used for the check sum
  of a kernel. \<^verbatim>\<open>update\<close> has two loops, one that assembles every word from bytes and one, for an
  aligned buffer, that loads it; the machine is little endian.
\<close>

section \<open>The hash\<close>

record HashState =
  hs_a :: u32
  hs_hi :: u32
  hs_lo :: u32

definition HASH_JENKINS_MIX :: "u32 \<Rightarrow> u32 \<Rightarrow> u32 \<Rightarrow> u32 \<times> u32 \<times> u32" where
  "HASH_JENKINS_MIX a b c =
     (let a = a - b; a = a - c; a = a XOR drop_bit 13 c;
          b = b - c; b = b - a; b = b XOR push_bit 8 a;
          c = c - a; c = c - b; c = c XOR drop_bit 13 b;
          a = a - b; a = a - c; a = a XOR drop_bit 12 c;
          b = b - c; b = b - a; b = b XOR push_bit 16 a;
          c = c - a; c = c - b; c = c XOR drop_bit 5 b;
          a = a - b; a = a - c; a = a XOR drop_bit 3 c;
          b = b - c; b = b - a; b = b XOR push_bit 10 a;
          c = c - a; c = c - b; c = c XOR drop_bit 15 b
      in (a, b, c))"

definition hashWord :: "u32 \<Rightarrow> HashState \<Rightarrow> HashState" where
  "hashWord w h =
     (case HASH_JENKINS_MIX (hs_a h XOR w) (hs_hi h) (hs_lo h) of
        (a, hi, lo) \<Rightarrow> \<lparr>hs_a = a, hs_hi = hi, hs_lo = lo\<rparr>)"

text \<open>The one to three bytes at the end; the cases of the switch fall through.\<close>

fun getValue :: "u8 list \<Rightarrow> u32" where
  "getValue [b0, b1, b2] = push_bit 8 (push_bit 8 (push_bit 8 (ucast b0) OR ucast b1) OR ucast b2)"
| "getValue [b1, b2] = push_bit 8 (push_bit 8 (ucast b1) OR ucast b2)"
| "getValue [b2] = push_bit 8 (ucast b2)"
| "getValue _ = 0"

definition assembleWord :: "u8 \<Rightarrow> u8 \<Rightarrow> u8 \<Rightarrow> u8 \<Rightarrow> u32" where
  "assembleWord b0 b1 b2 b3 =
     ucast b0 + push_bit 8 (ucast b1) + push_bit 16 (ucast b2) + push_bit 24 (ucast b3)"

text \<open>The load of an aligned word, byte 0 the least significant.\<close>

definition loadWord :: "u8 \<Rightarrow> u8 \<Rightarrow> u8 \<Rightarrow> u8 \<Rightarrow> u32" where
  "loadWord b0 b1 b2 b3 = word_rcat [b3, b2, b1, b0]"

fun updateUnaligned :: "u8 list \<Rightarrow> HashState \<Rightarrow> HashState" where
  "updateUnaligned (b0 # b1 # b2 # b3 # bs) h = updateUnaligned bs (hashWord (assembleWord b0 b1 b2 b3) h)"
| "updateUnaligned bs h = (if bs \<noteq> [] then hashWord (getValue bs) h else h)"

fun updateAligned :: "u8 list \<Rightarrow> HashState \<Rightarrow> HashState" where
  "updateAligned (b0 # b1 # b2 # b3 # bs) h = updateAligned bs (hashWord (loadWord b0 b1 b2 b3) h)"
| "updateAligned bs h = (if bs \<noteq> [] then hashWord (getValue bs) h else h)"

definition hash_update :: "nat \<Rightarrow> u8 list \<Rightarrow> HashState \<Rightarrow> HashState" where
  "hash_update address bytes h =
     (if address = 0 then h
      else if address mod 4 \<noteq> 0 then updateUnaligned bytes h else updateAligned bytes h)"

definition hash_reset :: HashState where
  "hash_reset = \<lparr>hs_a = 0x428a2f98, hs_hi = 0x71374491, hs_lo = 0xb5c0fbcf\<rparr>"

definition hash_finish :: "HashState \<Rightarrow> u64" where
  "hash_finish h = push_bit 32 (ucast (hs_hi h)) OR ucast (hs_lo h)"

definition Hash_hash :: "nat \<Rightarrow> u8 list \<Rightarrow> u64" where
  "Hash_hash address bytes = hash_finish (hash_update address bytes hash_reset)"

section \<open>The two loops agree\<close>

lemma load_assemble: "loadWord b0 b1 b2 b3 = assembleWord b0 b1 b2 b3"
proof -
  have "loadWord b0 b1 b2 b3 =
    word_of_int (uint b0 + 256 * (uint b1 + 256 * (uint b2 + 256 * uint b3)))"
    by (simp add: loadWord_def word_rcat_def)
  also have "\<dots> = assembleWord b0 b1 b2 b3"
    by (simp add: assembleWord_def push_bit_eq_mult algebra_simps)
  finally show ?thesis .
qed

theorem hash_alignment_independent:
  assumes "p \<noteq> 0" "q \<noteq> 0"
  shows "Hash_hash p bytes = Hash_hash q bytes"
proof -
  have "updateAligned bs h = updateUnaligned bs h" for bs h
    by (induction bs h rule: updateAligned.induct) (simp_all add: load_assemble)
  with assms show ?thesis by (simp add: Hash_hash_def hash_update_def)
qed

section \<open>The hash of a pointer\<close>

text \<open>On 64-bit systems \<^verbatim>\<open>m\<close> is 1: the two halves of the address are mixed by exclusive or.\<close>

definition hashPtrToU32 :: "u64 \<Rightarrow> u32" where
  "hashPtrToU32 src =
     (let m = (8 div 8 :: nat);
          asInt = src XOR drop_bit (m * 32) (src AND NOT (word_of_nat (m - 1)))
      in ucast asInt)"

lemma hashPtrToU32_halves:
  "hashPtrToU32 src = ucast src XOR ucast (drop_bit 32 src)"
  by (rule bit_word_eqI) (auto simp: hashPtrToU32_def bit_simps)

end
