(* ===== verification/Patch_Tokens.thy ===== *)
theory Patch_Tokens
  imports Kernel_Info Jenkins_Hash
begin

text \<open>
  The reader of a device binary in \<^verbatim>\<open>process_gen_binary.cpp\<close>: the loop over the patch list of a kernel, the kernel
  itself, the program scope patch list and the whole binary, and the separation of block kernels that follows a
  build. The layout of headers and tokens comes from the compiler and is a parameter: a
  \<open>BinaryView\<close> says what header or token starts at an address. The loops follow the sizes the
  binary announces, which nothing checks, so that they carry fuel: \<open>None\<close> is a loop that has
  not come to its end.
\<close>

section \<open>Patch items\<close>

datatype PatchToken =
    SAMPLER_STATE_ARRAY SamplerStateArray
  | BINDING_TABLE_STATE BindingTableState
  | ALLOCATE_LOCAL_SURFACE nat
  | MEDIA_VFE_STATE nat nat
  | DATA_PARAMETER_BUFFER DataParameterBuffer
  | MEDIA_INTERFACE_DESCRIPTOR_LOAD nat
  | INTERFACE_DESCRIPTOR_DATA nat
  | THREAD_PAYLOAD nat
  | EXECUTION_ENVIRONMENT ExecutionEnvironmentToken
  | DATA_PARAMETER_STREAM nat
  | KERNEL_ARGUMENT_INFO ArgumentInfoToken
  | KERNEL_ATTRIBUTES_INFO string
  | SAMPLER_KERNEL_ARGUMENT SamplerArgument
  | IMAGE_MEMORY_OBJECT_KERNEL_ARGUMENT ImageArgument
  | GLOBAL_MEMORY_OBJECT_KERNEL_ARGUMENT HeapObjectArgument
  | STATELESS_GLOBAL_MEMORY_OBJECT_KERNEL_ARGUMENT StatelessArgument
  | STATELESS_CONSTANT_MEMORY_OBJECT_KERNEL_ARGUMENT StatelessArgument
  | STATELESS_DEVICE_QUEUE_KERNEL_ARGUMENT StatelessArgument
  | ALLOCATE_STATELESS_PRIVATE_MEMORY SurfaceToken
  | ALLOCATE_STATELESS_CONSTANT_MEMORY_SURFACE SurfaceToken
  | ALLOCATE_STATELESS_GLOBAL_MEMORY_SURFACE SurfaceToken
  | ALLOCATE_STATELESS_PRINTF_SURFACE SurfaceToken
  | ALLOCATE_STATELESS_EVENT_POOL_SURFACE SurfaceToken
  | ALLOCATE_STATELESS_DEFAULT_DEVICE_QUEUE_SURFACE SurfaceToken
  | STRING StringToken
  | INLINE_VME_SAMPLER_INFO
  | GTPIN_FREE_GRF_INFO nat
  | STATE_SIP nat
  | ALLOCATE_SIP_SURFACE SurfaceToken
  | GTPIN_INFO nat
  | UNKNOWN_TOKEN nat

record PatchItem =
  it_token :: PatchToken
  it_Size :: nat

record ParseState =
  ps_kernelInfo :: KernelInfo
  ps_PrivateMemoryStatelessSizeOffset :: nat
  ps_LocalMemoryStatelessWindowSizeOffset :: nat
  ps_LocalMemoryStatelessWindowStartAddressOffset :: nat
  ps_slmWindowPrepared :: bool

definition CL_INVALID_KERNEL :: int where "CL_INVALID_KERNEL = - 48"

definition isSafeToSkipUnhandledToken :: "nat \<Rightarrow> bool" where
  "isSafeToSkipUnhandledToken token = False"

text \<open>A write to one of the arrays of three offsets, at the index the token gives.\<close>

definition setOffset3 :: "nat \<Rightarrow> nat \<Rightarrow> nat list \<Rightarrow> nat list rt_result" where
  "setOffset3 i v xs = (if i < 3 then Inr (xs[i := v]) else Inl OutOfBounds)"

definition setWorkload :: "(WorkloadInfo \<Rightarrow> WorkloadInfo rt_result) \<Rightarrow> KernelInfo \<Rightarrow> KernelInfo rt_result" where
  "setWorkload f k = rt_bind (f (ki_workloadInfo k)) (\<lambda>w. Inr (k\<lparr>ki_workloadInfo := w\<rparr>))"

text \<open>The parameters that only set an offset of an argument.\<close>

fun argumentOffset :: "DataParamType \<Rightarrow> (nat \<Rightarrow> KernelArgInfo \<Rightarrow> KernelArgInfo) option" where
  "argumentOffset IMAGE_WIDTH = Some (\<lambda>o' a. a\<lparr>ka_offsetImgWidth := o'\<rparr>)"
| "argumentOffset IMAGE_HEIGHT = Some (\<lambda>o' a. a\<lparr>ka_offsetImgHeight := o'\<rparr>)"
| "argumentOffset IMAGE_DEPTH = Some (\<lambda>o' a. a\<lparr>ka_offsetImgDepth := o'\<rparr>)"
| "argumentOffset SAMPLER_COORDINATE_SNAP_WA_REQUIRED = Some (\<lambda>o' a. a\<lparr>ka_offsetSamplerSnapWa := o'\<rparr>)"
| "argumentOffset SAMPLER_ADDRESS_MODE = Some (\<lambda>o' a. a\<lparr>ka_offsetSamplerAddressingMode := o'\<rparr>)"
| "argumentOffset SAMPLER_NORMALIZED_COORDS = Some (\<lambda>o' a. a\<lparr>ka_offsetSamplerNormalizedCoords := o'\<rparr>)"
| "argumentOffset IMAGE_CHANNEL_DATA_TYPE = Some (\<lambda>o' a. a\<lparr>ka_offsetChannelDataType := o'\<rparr>)"
| "argumentOffset IMAGE_CHANNEL_ORDER = Some (\<lambda>o' a. a\<lparr>ka_offsetChannelOrder := o'\<rparr>)"
| "argumentOffset IMAGE_ARRAY_SIZE = Some (\<lambda>o' a. a\<lparr>ka_offsetArraySize := o'\<rparr>)"
| "argumentOffset OBJECT_ID = Some (\<lambda>o' a. a\<lparr>ka_offsetObjectId := o'\<rparr>)"
| "argumentOffset BUFFER_OFFSET = Some (\<lambda>o' a. a\<lparr>ka_offsetBufferOffset := o'\<rparr>)"
| "argumentOffset VME_MB_BLOCK_TYPE = Some (\<lambda>o' a. a\<lparr>ka_offsetVmeMbBlockType := o'\<rparr>)"
| "argumentOffset VME_SUBPIXEL_MODE = Some (\<lambda>o' a. a\<lparr>ka_offsetVmeSubpixelMode := o'\<rparr>)"
| "argumentOffset VME_SAD_ADJUST_MODE = Some (\<lambda>o' a. a\<lparr>ka_offsetVmeSadAdjustMode := o'\<rparr>)"
| "argumentOffset VME_SEARCH_PATH_TYPE = Some (\<lambda>o' a. a\<lparr>ka_offsetVmeSearchPathType := o'\<rparr>)"
| "argumentOffset IMAGE_NUM_SAMPLES = Some (\<lambda>o' a. a\<lparr>ka_offsetNumSamples := o'\<rparr>)"
| "argumentOffset IMAGE_NUM_MIP_LEVELS = Some (\<lambda>o' a. a\<lparr>ka_offsetNumMipLevels := o'\<rparr>)"
| "argumentOffset BUFFER_STATEFUL = Some (\<lambda>_ a. a\<lparr>ka_pureStatefulBufferAccess := True\<rparr>)"
| "argumentOffset SUM_OF_LOCAL_MEMORY_OBJECT_ARGUMENT_SIZES = None"
| "argumentOffset _ = None"

text \<open>The parameters that change the workload information of the kernel.\<close>

definition workloadParameter :: "DataParameterBuffer \<Rightarrow> WorkloadInfo \<Rightarrow> WorkloadInfo rt_result" where
  "workloadParameter t w =
     (let index = dp_SourceOffset t div 4; off = dp_Offset t in
      case dp_Type t of
        LOCAL_WORK_SIZE \<Rightarrow>
          if wl_localWorkSizeOffsets w ! 2 = undefinedOffset32
          then rt_bind (setOffset3 index off (wl_localWorkSizeOffsets w)) (\<lambda>xs. Inr (w\<lparr>wl_localWorkSizeOffsets := xs\<rparr>))
          else rt_bind (setOffset3 index off (wl_localWorkSizeOffsets2 w)) (\<lambda>xs. Inr (w\<lparr>wl_localWorkSizeOffsets2 := xs\<rparr>))
      | GLOBAL_WORK_OFFSET \<Rightarrow>
          rt_bind (setOffset3 index off (wl_globalWorkOffsetOffsets w)) (\<lambda>xs. Inr (w\<lparr>wl_globalWorkOffsetOffsets := xs\<rparr>))
      | ENQUEUED_LOCAL_WORK_SIZE \<Rightarrow>
          rt_bind (setOffset3 index off (wl_enqueuedLocalWorkSizeOffsets w))
            (\<lambda>xs. Inr (w\<lparr>wl_enqueuedLocalWorkSizeOffsets := xs\<rparr>))
      | GLOBAL_WORK_SIZE \<Rightarrow>
          rt_bind (setOffset3 index off (wl_globalWorkSizeOffsets w)) (\<lambda>xs. Inr (w\<lparr>wl_globalWorkSizeOffsets := xs\<rparr>))
      | NUM_WORK_GROUPS \<Rightarrow>
          rt_bind (setOffset3 index off (wl_numWorkGroupsOffset w)) (\<lambda>xs. Inr (w\<lparr>wl_numWorkGroupsOffset := xs\<rparr>))
      | MAX_WORKGROUP_SIZE \<Rightarrow> Inr (w\<lparr>wl_maxWorkGroupSizeOffset := off\<rparr>)
      | WORK_DIMENSIONS \<Rightarrow> Inr (w\<lparr>wl_workDimOffset := off\<rparr>)
      | SIMD_SIZE \<Rightarrow> Inr (w\<lparr>wl_simdSizeOffset := off\<rparr>)
      | PARENT_EVENT \<Rightarrow> Inr (w\<lparr>wl_parentEventOffset := off\<rparr>)
      | PREFERRED_WORKGROUP_MULTIPLE \<Rightarrow> Inr (w\<lparr>wl_prefferedWkgMultipleOffset := off\<rparr>)
      | _ \<Rightarrow> Inr w)"

definition onKernelInfo :: "(KernelInfo \<Rightarrow> KernelInfo rt_result) \<Rightarrow> ParseState \<Rightarrow> ParseState rt_result" where
  "onKernelInfo f st = rt_bind (f (ps_kernelInfo st)) (\<lambda>k. Inr (st\<lparr>ps_kernelInfo := k\<rparr>))"

text \<open>The inner switch, after the token has been pushed; an unknown type takes it out again.\<close>

definition dataParameter :: "DataParameterBuffer \<Rightarrow> ParseState \<Rightarrow> ParseState rt_result" where
  "dataParameter t st =
     (let st = st\<lparr>ps_kernelInfo := updatePatchInfo
             (\<lambda>p. p\<lparr>pi_dataParameterBuffers := pi_dataParameterBuffers p @ [t]\<rparr>) (ps_kernelInfo st)\<rparr>;
          argNum = dp_ArgumentNumber t
      in case argumentOffset (dp_Type t) of
           Some f \<Rightarrow> onKernelInfo (registerAndUpdate argNum (f (dp_Offset t))) st
         | None \<Rightarrow> (case dp_Type t of
             KERNEL_ARGUMENT \<Rightarrow> onKernelInfo (storeDataParameterArgument t) st
           | SUM_OF_LOCAL_MEMORY_OBJECT_ARGUMENT_SIZES \<Rightarrow>
               onKernelInfo (registerAndUpdate argNum (\<lambda>a. a\<lparr>ka_slmAlignment := dp_SourceOffset t,
                 ka_kernelArgPatchInfoVector := ka_kernelArgPatchInfoVector a @
                   [\<lparr>kap_crossthreadOffset = dp_Offset t, kap_size = dp_DataSize t, kap_sourceOffset = 0\<rparr>]\<rparr>)) st
           | CHILD_BLOCK_SIMD_SIZE \<Rightarrow>
               onKernelInfo (\<lambda>k. Inr (k\<lparr>ki_childrenKernelsIdOffset := ki_childrenKernelsIdOffset k @ [(argNum, dp_Offset t)]\<rparr>)) st
           | PRIVATE_MEMORY_STATELESS_SIZE \<Rightarrow> Inr (st\<lparr>ps_PrivateMemoryStatelessSizeOffset := dp_Offset t\<rparr>)
           | LOCAL_MEMORY_STATELESS_WINDOW_SIZE \<Rightarrow> Inr (st\<lparr>ps_LocalMemoryStatelessWindowSizeOffset := dp_Offset t\<rparr>)
           | LOCAL_MEMORY_STATELESS_WINDOW_START_ADDRESS \<Rightarrow>
               Inr (st\<lparr>ps_LocalMemoryStatelessWindowStartAddressOffset := dp_Offset t, ps_slmWindowPrepared := True\<rparr>)
           | UNKNOWN_PARAMETER _ \<Rightarrow>
               onKernelInfo (\<lambda>k. Inr (updatePatchInfo
                 (\<lambda>p. p\<lparr>pi_dataParameterBuffers := butlast (pi_dataParameterBuffers p)\<rparr>) k)) st
           | _ \<Rightarrow> onKernelInfo (setWorkload (workloadParameter t)) st))"

definition executionEnvironment :: "ExecutionEnvironmentToken \<Rightarrow> KernelInfo \<Rightarrow> KernelInfo" where
  "executionEnvironment e k =
     (let k = updatePatchInfo (\<lambda>p. p\<lparr>pi_executionEnvironment := Some e\<rparr>) k;
          k = (if ee_RequiredWorkGroupSizeX e \<noteq> 0
               then k\<lparr>ki_reqdWorkGroupSize := [ee_RequiredWorkGroupSizeX e, ee_RequiredWorkGroupSizeY e, ee_RequiredWorkGroupSizeZ e]\<rparr>
               else k);
          k = k\<lparr>ki_workgroupWalkOrder := [0, 1, 2]\<rparr>;
          k = k\<lparr>ki_workgroupDimensionsOrder :=
                fold (\<lambda>i xs. xs[ki_workgroupWalkOrder k ! i := i]) [0, 1, 2] (ki_workgroupDimensionsOrder k)\<rparr>
      in if ee_CompiledForGreaterThan4GBBuffers e = False then k\<lparr>ki_requiresSshForBuffers := True\<rparr> else k)"

text \<open>The switch over the tokens of a kernel, in the groups in which the source lists them. \<open>tokenOk\<close> is
  a case that does not change the return value.\<close>

definition tokenOk :: "(KernelInfo \<Rightarrow> KernelInfo rt_result) \<Rightarrow> ParseState \<Rightarrow> (int \<times> ParseState) rt_result" where
  "tokenOk f st = rt_bind (onKernelInfo f st) (\<lambda>st. Inr (CL_SUCCESS, st))"

abbreviation tokenSet :: "(PatchInfo \<Rightarrow> PatchInfo) \<Rightarrow> ParseState \<Rightarrow> (int \<times> ParseState) rt_result" where
  "tokenSet f \<equiv> tokenOk (\<lambda>k. Inr (updatePatchInfo f k))"

abbreviation tokenSurface :: "(PatchInfo \<Rightarrow> PatchInfo) \<Rightarrow> ParseState \<Rightarrow> (int \<times> ParseState) rt_result" where
  "tokenSurface f \<equiv> tokenOk (\<lambda>k. Inr (storeSurface f k))"

definition handleStateToken :: "PatchToken \<Rightarrow> ParseState \<Rightarrow> (int \<times> ParseState) rt_result" where
  "handleStateToken t st =
     (case t of
        SAMPLER_STATE_ARRAY s \<Rightarrow> tokenSet (\<lambda>p. p\<lparr>pi_samplerStateArray := Some s\<rparr>) st
      | BINDING_TABLE_STATE b \<Rightarrow>
          tokenOk (\<lambda>k. Inr ((updatePatchInfo (\<lambda>p. p\<lparr>pi_bindingTableState := Some b\<rparr>) k)\<lparr>ki_usesSsh := bts_Count b > 0\<rparr>)) st
      | ALLOCATE_LOCAL_SURFACE n \<Rightarrow>
          tokenOk (\<lambda>k. Inr ((updatePatchInfo (\<lambda>p. p\<lparr>pi_localsurface := Some n\<rparr>) k)
                \<lparr>ki_workloadInfo := (ki_workloadInfo k)\<lparr>wl_slmStaticSize := n\<rparr>\<rparr>)) st
      | MEDIA_VFE_STATE scratch perThread \<Rightarrow> tokenSet (\<lambda>p. p\<lparr>pi_mediavfestate := Some (scratch, perThread)\<rparr>) st
      | _ \<Rightarrow> Inr (CL_SUCCESS, st))"

definition handleDescriptorToken :: "PatchToken \<Rightarrow> ParseState \<Rightarrow> (int \<times> ParseState) rt_result" where
  "handleDescriptorToken t st =
     (case t of
        MEDIA_INTERFACE_DESCRIPTOR_LOAD n \<Rightarrow> tokenSet (\<lambda>p. p\<lparr>pi_interfaceDescriptorDataLoad := Some n\<rparr>) st
      | INTERFACE_DESCRIPTOR_DATA n \<Rightarrow> tokenSet (\<lambda>p. p\<lparr>pi_interfaceDescriptorData := Some n\<rparr>) st
      | THREAD_PAYLOAD n \<Rightarrow> tokenSet (\<lambda>p. p\<lparr>pi_threadPayload := Some n\<rparr>) st
      | EXECUTION_ENVIRONMENT e \<Rightarrow> tokenOk (\<lambda>k. Inr (executionEnvironment e k)) st
      | DATA_PARAMETER_STREAM n \<Rightarrow> tokenSet (\<lambda>p. p\<lparr>pi_dataParameterStream := Some n\<rparr>) st
      | _ \<Rightarrow> Inr (CL_SUCCESS, st))"

definition handleArgumentToken :: "PatchToken \<Rightarrow> ParseState \<Rightarrow> (int \<times> ParseState) rt_result" where
  "handleArgumentToken t st =
     (case t of
        KERNEL_ARGUMENT_INFO a \<Rightarrow> tokenOk (storeArgInfo a) st
      | KERNEL_ATTRIBUTES_INFO s \<Rightarrow>
          tokenOk (\<lambda>k. Inr (storeAttributes s (updatePatchInfo (\<lambda>p. p\<lparr>pi_pKernelAttributesInfo := Some s\<rparr>) k))) st
      | SAMPLER_KERNEL_ARGUMENT a \<Rightarrow> tokenOk (storeSamplerArgument a) st
      | IMAGE_MEMORY_OBJECT_KERNEL_ARGUMENT a \<Rightarrow> tokenOk (storeImageArgument a) st
      | GLOBAL_MEMORY_OBJECT_KERNEL_ARGUMENT a \<Rightarrow> tokenOk (storeGlobalArgument a) st
      | STATELESS_GLOBAL_MEMORY_OBJECT_KERNEL_ARGUMENT a \<Rightarrow> tokenOk (storeStatelessGlobalArgument a) st
      | STATELESS_CONSTANT_MEMORY_OBJECT_KERNEL_ARGUMENT a \<Rightarrow> tokenOk (storeStatelessConstantArgument a) st
      | STATELESS_DEVICE_QUEUE_KERNEL_ARGUMENT a \<Rightarrow> tokenOk (storeDeviceQueueArgument a) st
      | _ \<Rightarrow> Inr (CL_SUCCESS, st))"

definition handleSurfaceToken :: "PatchToken \<Rightarrow> ParseState \<Rightarrow> (int \<times> ParseState) rt_result" where
  "handleSurfaceToken t st =
     (case t of
        ALLOCATE_STATELESS_PRIVATE_MEMORY s \<Rightarrow> tokenSurface (\<lambda>p. p\<lparr>pi_pAllocateStatelessPrivateSurface := Some s\<rparr>) st
      | ALLOCATE_STATELESS_CONSTANT_MEMORY_SURFACE s \<Rightarrow>
          tokenSurface (\<lambda>p. p\<lparr>pi_pAllocateStatelessConstantMemorySurface := Some s\<rparr>) st
      | ALLOCATE_STATELESS_GLOBAL_MEMORY_SURFACE s \<Rightarrow>
          tokenSurface (\<lambda>p. p\<lparr>pi_pAllocateStatelessGlobalMemorySurface := Some s\<rparr>) st
      | ALLOCATE_STATELESS_PRINTF_SURFACE s \<Rightarrow> tokenSurface (\<lambda>p. p\<lparr>pi_pAllocateStatelessPrintfSurface := Some s\<rparr>) st
      | ALLOCATE_STATELESS_EVENT_POOL_SURFACE s \<Rightarrow> tokenSurface (\<lambda>p. p\<lparr>pi_pAllocateStatelessEventPoolSurface := Some s\<rparr>) st
      | ALLOCATE_STATELESS_DEFAULT_DEVICE_QUEUE_SURFACE s \<Rightarrow>
          tokenSurface (\<lambda>p. p\<lparr>pi_pAllocateStatelessDefaultDeviceQueueSurface := Some s\<rparr>) st
      | _ \<Rightarrow> Inr (CL_SUCCESS, st))"

definition handleToken :: "PatchToken \<Rightarrow> ParseState \<Rightarrow> (int \<times> ParseState) rt_result" where
  "handleToken t st =
     (case t of
        DATA_PARAMETER_BUFFER d \<Rightarrow> rt_bind (dataParameter d st) (\<lambda>st. Inr (CL_SUCCESS, st))
      | SAMPLER_STATE_ARRAY _ \<Rightarrow> handleStateToken t st
      | BINDING_TABLE_STATE _ \<Rightarrow> handleStateToken t st
      | ALLOCATE_LOCAL_SURFACE _ \<Rightarrow> handleStateToken t st
      | MEDIA_VFE_STATE _ _ \<Rightarrow> handleStateToken t st
      | MEDIA_INTERFACE_DESCRIPTOR_LOAD _ \<Rightarrow> handleDescriptorToken t st
      | INTERFACE_DESCRIPTOR_DATA _ \<Rightarrow> handleDescriptorToken t st
      | THREAD_PAYLOAD _ \<Rightarrow> handleDescriptorToken t st
      | EXECUTION_ENVIRONMENT _ \<Rightarrow> handleDescriptorToken t st
      | DATA_PARAMETER_STREAM _ \<Rightarrow> handleDescriptorToken t st
      | STRING s \<Rightarrow> tokenOk (\<lambda>k. Inr (storeString s k)) st
      | INLINE_VME_SAMPLER_INFO \<Rightarrow> tokenOk (\<lambda>k. Inr (k\<lparr>ki_isVmeWorkload := True\<rparr>)) st
      | GTPIN_FREE_GRF_INFO _ \<Rightarrow> Inr (CL_SUCCESS, st)
      | STATE_SIP n \<Rightarrow> tokenOk (\<lambda>k. Inr (k\<lparr>ki_systemKernelOffset := n\<rparr>)) st
      | ALLOCATE_SIP_SURFACE s \<Rightarrow> tokenSurface (\<lambda>p. p\<lparr>pi_pAllocateSystemThreadSurface := Some s\<rparr>) st
      | GTPIN_INFO n \<Rightarrow> tokenOk (\<lambda>k. Inr (k\<lparr>ki_igcInfoForGtpin := Some n\<rparr>)) st
      | UNKNOWN_TOKEN n \<Rightarrow> Inr (if isSafeToSkipUnhandledToken n then CL_SUCCESS else CL_INVALID_KERNEL, st)
      | ALLOCATE_STATELESS_PRIVATE_MEMORY _ \<Rightarrow> handleSurfaceToken t st
      | ALLOCATE_STATELESS_CONSTANT_MEMORY_SURFACE _ \<Rightarrow> handleSurfaceToken t st
      | ALLOCATE_STATELESS_GLOBAL_MEMORY_SURFACE _ \<Rightarrow> handleSurfaceToken t st
      | ALLOCATE_STATELESS_PRINTF_SURFACE _ \<Rightarrow> handleSurfaceToken t st
      | ALLOCATE_STATELESS_EVENT_POOL_SURFACE _ \<Rightarrow> handleSurfaceToken t st
      | ALLOCATE_STATELESS_DEFAULT_DEVICE_QUEUE_SURFACE _ \<Rightarrow> handleSurfaceToken t st
      | _ \<Rightarrow> handleArgumentToken t st)"

lemmas handleToken_defs = handleToken_def handleStateToken_def handleDescriptorToken_def handleArgumentToken_def
  handleSurfaceToken_def tokenOk_def

fun patchLoop :: "nat \<Rightarrow> (nat \<Rightarrow> PatchItem) \<Rightarrow> nat \<Rightarrow> nat \<Rightarrow> ParseState \<Rightarrow> (int \<times> ParseState) rt_result option" where
  "patchLoop 0 at listSize off st = None"
| "patchLoop (Suc fuel) at listSize off st =
     (if off \<ge> listSize then Some (Inr (CL_SUCCESS, st))
      else case handleToken (it_token (at off)) st of
             Inl f \<Rightarrow> Some (Inl f)
           | Inr (r, st) \<Rightarrow>
               if r \<noteq> CL_SUCCESS then Some (Inr (r, st))
               else patchLoop fuel at listSize (off + it_Size (at off)) st)"

section \<open>The patch list of a kernel\<close>

text \<open>What the parser uses of the device and of the memory manager: the values it patches into the
  cross thread data, and whether the allocation of the kernel and the copy of its code succeed.\<close>

record DeviceView =
  dv_slmWindowStartAddress :: nat
  dv_localMemSize :: nat
  dv_computeUnitsUsedForScratch :: nat
  dv_maxWorkGroupSize :: nat
  dv_allocates :: "nat \<Rightarrow> bool"
  dv_copies :: bool

record KernelHeader =
  kh_KernelNameSize :: nat
  kh_KernelHeapSize :: nat
  kh_GeneralStateHeapSize :: nat
  kh_DynamicStateHeapSize :: nat
  kh_SurfaceStateHeapSize :: nat
  kh_PatchListSize :: nat
  kh_CheckSum :: u32

definition createKernelAllocation :: "DeviceView \<Rightarrow> nat \<Rightarrow> KernelInfo \<Rightarrow> (bool \<times> KernelInfo) rt_result" where
  "createKernelAllocation d heapSize k =
     unrecoverable_if (ki_kernelAllocation k)
       (if \<not> dv_allocates d heapSize then Inr (False, k)
        else Inr (dv_copies d, k\<lparr>ki_kernelAllocation := True\<rparr>))"

text \<open>A value written into the cross thread data, where its offset is defined.\<close>

definition patchField :: "nat \<Rightarrow> nat \<Rightarrow> nat \<Rightarrow> bytes \<Rightarrow> bytes rt_result" where
  "patchField n off v data = (if off \<noteq> undefinedOffset32 then store off (le_bytes n v) data else Inr data)"

definition buildCrossThreadData :: "DeviceView option \<Rightarrow> nat \<Rightarrow> ParseState \<Rightarrow> bytes rt_result" where
  "buildCrossThreadData dev crossThreadDataSize st =
     (let k = ps_kernelInfo st;
          needsDevice = ps_LocalMemoryStatelessWindowStartAddressOffset st \<noteq> undefinedOffset32 \<or>
            ps_LocalMemoryStatelessWindowSizeOffset st \<noteq> undefinedOffset32 \<or>
            pi_pAllocateStatelessPrivateSurface (ki_patchInfo k) \<noteq> None \<and>
              ps_PrivateMemoryStatelessSizeOffset st \<noteq> undefinedOffset32 \<or>
            wl_maxWorkGroupSizeOffset (ki_workloadInfo k) \<noteq> undefinedOffset32;
          data = replicate crossThreadDataSize 0
      in case dev of
           None \<Rightarrow> if needsDevice then Inl NullDereference else Inr data
         | Some d \<Rightarrow>
             rt_bind (patchField 8 (ps_LocalMemoryStatelessWindowStartAddressOffset st) (dv_slmWindowStartAddress d) data) (\<lambda>data.
             rt_bind (patchField 4 (ps_LocalMemoryStatelessWindowSizeOffset st) (wrap32 (dv_localMemSize d)) data) (\<lambda>data.
             rt_bind (case pi_pAllocateStatelessPrivateSurface (ki_patchInfo k) of
                        None \<Rightarrow> Inr data
                      | Some s \<Rightarrow> patchField 4 (ps_PrivateMemoryStatelessSizeOffset st)
                          (wrap32 (wrap32 (st_PerThreadSize s * dv_computeUnitsUsedForScratch d) * getMaxSimdSize k)) data) (\<lambda>data.
             patchField 4 (wl_maxWorkGroupSizeOffset (ki_workloadInfo k)) (wrap32 (dv_maxWorkGroupSize d)) data))))"

definition ParseState_init :: "KernelInfo \<Rightarrow> ParseState" where
  "ParseState_init k =
     \<lparr>ps_kernelInfo = k, ps_PrivateMemoryStatelessSizeOffset = undefinedOffset32,
      ps_LocalMemoryStatelessWindowSizeOffset = undefinedOffset32,
      ps_LocalMemoryStatelessWindowStartAddressOffset = undefinedOffset32, ps_slmWindowPrepared = False\<rparr>"

text \<open>What \<^verbatim>\<open>parsePatchList\<close> does once the loop has ended with \<open>retVal\<close>.\<close>

definition finishPatchList :: "DeviceView option \<Rightarrow> nat \<Rightarrow> int \<times> ParseState \<Rightarrow> (int \<times> KernelInfo) rt_result" where
  "finishPatchList dev heapSize =
     (\<lambda>(retVal, st).
        let (retVal, st) = (if retVal = CL_SUCCESS
                            then case resolveKernelInfo (ps_kernelInfo st) of (r, k) \<Rightarrow> (r, st\<lparr>ps_kernelInfo := k\<rparr>)
                            else (retVal, st));
            k = ps_kernelInfo st;
            size = (case pi_dataParameterStream (ki_patchInfo k) of Some n \<Rightarrow> n | None \<Rightarrow> 0)
        in rt_bind (if size \<noteq> 0 then rt_bind (buildCrossThreadData dev size st) (\<lambda>data. Inr (k\<lparr>ki_crossThreadData := Some data\<rparr>))
                    else Inr k) (\<lambda>k.
           case dev of
             Some d \<Rightarrow>
               if heapSize \<noteq> 0
               then rt_bind (createKernelAllocation d heapSize k) (\<lambda>(ok, k).
                      Inr (if ok then CL_SUCCESS else CL_OUT_OF_HOST_MEMORY, k))
               else Inr (retVal, k)
           | None \<Rightarrow> Inr (retVal, k)))"

definition parsePatchList ::
  "nat \<Rightarrow> DeviceView option \<Rightarrow> (nat \<Rightarrow> PatchItem) \<Rightarrow> KernelHeader \<Rightarrow> KernelInfo \<Rightarrow> (int \<times> KernelInfo) rt_result option" where
  "parsePatchList fuel dev at h k =
     map_option (\<lambda>r. rt_bind r (finishPatchList dev (kh_KernelHeapSize h)))
       (patchLoop fuel at (kh_PatchListSize h) 0 (ParseState_init k))"

section \<open>A kernel of the binary\<close>

record BinaryView =
  bv_byte :: "nat \<Rightarrow> u8"
  bv_kernelHeader :: "nat \<Rightarrow> KernelHeader"
  bv_patchItem :: "nat \<Rightarrow> PatchItem"
  bv_sizeofKernelHeader :: nat
  bv_gpuPointerSize :: nat

text \<open>The surfaces of program scope: their memory, and how addresses are patched into it.\<close>

record ProgramSurface =
  su_data :: bytes
  su_is32Bit :: bool
  su_gpuAddressToPatch :: nat
  su_cpuAddress :: nat

text \<open>The kernels are objects of the heap; the three vectors hold pointers to them.\<close>

record GenProgram =
  gp_heap :: "nat \<rightharpoonup> KernelInfo"
  gp_next :: nat
  gp_kernelInfoArray :: "nat list"
  gp_parentKernelInfoArray :: "nat list"
  gp_subgroupKernelInfoArray :: "nat list"
  gp_blockKernels :: "nat list"
  gp_constantSurface :: "ProgramSurface option"
  gp_globalSurface :: "ProgramSurface option"
  gp_globalVarTotalSize :: nat

definition bytesOf :: "BinaryView \<Rightarrow> nat \<Rightarrow> nat \<Rightarrow> bytes" where
  "bytesOf B a n = map (bv_byte B) [a..<a + n]"

definition kernelSize :: "KernelHeader \<Rightarrow> nat" where
  "kernelSize h =
     wrap32 (kh_DynamicStateHeapSize h + kh_GeneralStateHeapSize h + kh_KernelHeapSize h + kh_KernelNameSize h +
             kh_PatchListSize h + kh_SurfaceStateHeapSize h)"

definition patchListStart :: "BinaryView \<Rightarrow> nat \<Rightarrow> nat" where
  "patchListStart B blob =
     (let h = bv_kernelHeader B blob in
      blob + bv_sizeofKernelHeader B + kh_KernelNameSize h + kh_KernelHeapSize h + kh_GeneralStateHeapSize h +
      kh_DynamicStateHeapSize h + kh_SurfaceStateHeapSize h)"

definition readKernelName :: "BinaryView \<Rightarrow> nat \<Rightarrow> string" where
  "readKernelName B blob =
     takeWhile (\<lambda>c. c \<noteq> CHR 0x00)
       (map (\<lambda>b. char_of (unat b)) (bytesOf B (blob + bv_sizeofKernelHeader B) (kh_KernelNameSize (bv_kernelHeader B blob))))"

definition processKernel ::
  "nat \<Rightarrow> DeviceView option \<Rightarrow> BinaryView \<Rightarrow> nat \<Rightarrow> GenProgram \<Rightarrow> (nat \<times> int \<times> GenProgram) rt_result option" where
  "processKernel fuel dev B blob g =
     (let h = bv_kernelHeader B blob;
          start = patchListStart B blob;
          k = KernelInfo_ctor\<lparr>ki_name := readKernelName B blob\<rparr>
      in case parsePatchList fuel dev (\<lambda>off. bv_patchItem B (start + off)) h k of
           None \<Rightarrow> None
         | Some (Inl f) \<Rightarrow> Some (Inl f)
         | Some (Inr (retVal, k)) \<Rightarrow>
             Some (Inr (
               if retVal \<noteq> CL_SUCCESS then (start - blob, retVal, g)
               else
                 let calcCheckSum = ucast (Hash_hash (blob + bv_sizeofKernelHeader B)
                       (bytesOf B (blob + bv_sizeofKernelHeader B) (kernelSize h))) :: u32;
                     k = k\<lparr>ki_gpuPointerSize := bv_gpuPointerSize B, ki_blobSize := kernelSize h + bv_sizeofKernelHeader B,
                           ki_isValid := (calcCheckSum = kh_CheckSum h)\<rparr>;
                     p = gp_next g
                 in (bv_sizeofKernelHeader B + kernelSize h, CL_SUCCESS,
                     g\<lparr>gp_heap := (gp_heap g)(p \<mapsto> k), gp_next := p + 1,
                       gp_kernelInfoArray := gp_kernelInfoArray g @ [p],
                       gp_parentKernelInfoArray := gp_parentKernelInfoArray g @ (if hasDeviceEnqueue k then [p] else []),
                       gp_subgroupKernelInfoArray := gp_subgroupKernelInfoArray g @
                         (if requiresSubgroupIndependentForwardProgress k then [p] else [])\<rparr>))))"

section \<open>The program scope patch list\<close>

datatype ProgramToken =
    ALLOCATE_CONSTANT_SURFACE nat bytes
  | ALLOCATE_GLOBAL_SURFACE nat bytes
  | GLOBAL_POINTER nat nat nat bool
  | CONSTANT_POINTER nat nat nat bool
  | UNKNOWN_PROGRAM_TOKEN nat

record ProgramItem =
  pit_token :: ProgramToken
  pit_Size :: nat

text \<open>The surface the memory manager returns for a size; a null pointer is dereferenced by the copy.\<close>

type_synonym surface_allocator = "nat \<Rightarrow> ProgramSurface option"

definition freshSurface :: "surface_allocator \<Rightarrow> nat \<Rightarrow> bytes \<Rightarrow> ProgramSurface rt_result" where
  "freshSurface alloc n inline =
     (case alloc n of None \<Rightarrow> Inl NullDereference | Some s \<Rightarrow> Inr (s\<lparr>su_data := take n inline\<rparr>))"

text \<open>A pointer in the surface is increased by the address of the surface.\<close>

definition relocate :: "nat \<Rightarrow> ProgramSurface \<Rightarrow> ProgramSurface rt_result" where
  "relocate off s =
     (if su_is32Bit s
      then rt_bind (loadField 0 (su_data s) off 4) (\<lambda>v.
           rt_bind (store off (le_bytes 4 (wrap32 (v + wrap32 (su_gpuAddressToPatch s)))) (su_data s)) (\<lambda>d. Inr (s\<lparr>su_data := d\<rparr>)))
      else rt_bind (loadField 0 (su_data s) off 8) (\<lambda>v.
           rt_bind (store off (le_bytes 8 (wrap64 (v + su_cpuAddress s))) (su_data s)) (\<lambda>d. Inr (s\<lparr>su_data := d\<rparr>))))"

text \<open>The switch over a token of program scope: the return value, the bytes skipped beside the size of
  the token, and the program.\<close>

definition handleProgramToken ::
  "surface_allocator \<Rightarrow> ProgramToken \<Rightarrow> GenProgram \<Rightarrow> (int \<times> nat \<times> GenProgram) rt_result" where
  "handleProgramToken alloc t g =
     (case t of
        ALLOCATE_CONSTANT_SURFACE n inline \<Rightarrow>
          rt_bind (freshSurface alloc n inline) (\<lambda>s. Inr (CL_SUCCESS, n, g\<lparr>gp_constantSurface := Some s\<rparr>))
      | ALLOCATE_GLOBAL_SURFACE n inline \<Rightarrow>
          rt_bind (freshSurface alloc n inline) (\<lambda>s.
          Inr (CL_SUCCESS, n, g\<lparr>gp_globalVarTotalSize := wrap64 (gp_globalVarTotalSize g + n),
                                gp_globalSurface := Some s\<rparr>))
      | GLOBAL_POINTER surfaceIndex bufferIndex off isGlobal \<Rightarrow>
          (case gp_globalSurface g of
             None \<Rightarrow> Inr (CL_SUCCESS, 0, g)
           | Some s \<Rightarrow>
               if surfaceIndex = 0 \<and> bufferIndex = 0 \<and> isGlobal
               then rt_bind (relocate off s) (\<lambda>s. Inr (CL_SUCCESS, 0, g\<lparr>gp_globalSurface := Some s\<rparr>))
               else Inr (CL_SUCCESS, 0, g))
      | CONSTANT_POINTER surfaceIndex bufferIndex off isConstant \<Rightarrow>
          (case gp_constantSurface g of
             None \<Rightarrow> Inr (CL_SUCCESS, 0, g)
           | Some s \<Rightarrow>
               if surfaceIndex = 0 \<and> bufferIndex = 0 \<and> isConstant
               then rt_bind (relocate off s) (\<lambda>s. Inr (CL_SUCCESS, 0, g\<lparr>gp_constantSurface := Some s\<rparr>))
               else Inr (CL_SUCCESS, 0, g))
      | UNKNOWN_PROGRAM_TOKEN n \<Rightarrow>
          Inr (if isSafeToSkipUnhandledToken n then CL_SUCCESS else CL_INVALID_BINARY, 0, g))"

fun parseProgramScopePatchList ::
  "nat \<Rightarrow> surface_allocator \<Rightarrow> (nat \<Rightarrow> ProgramItem) \<Rightarrow> nat \<Rightarrow> nat \<Rightarrow> GenProgram \<Rightarrow> (int \<times> GenProgram) rt_result option" where
  "parseProgramScopePatchList 0 alloc at listSize off g = None"
| "parseProgramScopePatchList (Suc fuel) alloc at listSize off g =
     (if off \<ge> listSize then Some (Inr (CL_SUCCESS, g))
      else case handleProgramToken alloc (pit_token (at off)) g of
             Inl f \<Rightarrow> Some (Inl f)
           | Inr (r, skipped, g) \<Rightarrow>
               if r \<noteq> CL_SUCCESS then Some (Inr (r, g))
               else parseProgramScopePatchList fuel alloc at listSize (off + skipped + pit_Size (at off)) g)"

section \<open>The whole binary\<close>

text \<open>The kernels are destroyed; the vectors of parents and of subgroup kernels keep what they hold.\<close>

definition cleanCurrentKernelInfo :: "GenProgram \<Rightarrow> GenProgram" where
  "cleanCurrentKernelInfo g =
     g\<lparr>gp_heap := gp_heap g |` (- set (gp_kernelInfoArray g)), gp_kernelInfoArray := []\<rparr>"

record ProgramHeader =
  ph_valid :: bool
  ph_PatchListSize :: nat
  ph_NumberOfKernels :: nat
  ph_sizeof :: nat

fun processKernels ::
  "nat \<Rightarrow> DeviceView option \<Rightarrow> BinaryView \<Rightarrow> nat \<Rightarrow> nat \<Rightarrow> GenProgram \<Rightarrow> (int \<times> GenProgram) rt_result option" where
  "processKernels fuel dev B 0 pos g = Some (Inr (CL_SUCCESS, g))"
| "processKernels fuel dev B (Suc n) pos g =
     (case processKernel fuel dev B pos g of
        None \<Rightarrow> None
      | Some (Inl f) \<Rightarrow> Some (Inl f)
      | Some (Inr (done_, r, g)) \<Rightarrow>
          if r = CL_SUCCESS then processKernels fuel dev B n (pos + done_) g else Some (Inr (r, g)))"

definition processGenBinary ::
  "nat \<Rightarrow> surface_allocator \<Rightarrow> DeviceView option \<Rightarrow> ProgramHeader \<Rightarrow> (nat \<Rightarrow> ProgramItem) \<Rightarrow> BinaryView \<Rightarrow> nat option \<Rightarrow>
   GenProgram \<Rightarrow> (int \<times> GenProgram) rt_result option" where
  "processGenBinary fuel alloc dev h at B binary g =
     (let g = cleanCurrentKernelInfo g in
      case binary of
        None \<Rightarrow> Some (Inr (CL_INVALID_BINARY, g))
      | Some base \<Rightarrow>
          if \<not> ph_valid h then Some (Inr (CL_INVALID_BINARY, g))
          else
            let list = base + ph_sizeof h in
            case (if ph_PatchListSize h \<noteq> 0
                  then parseProgramScopePatchList fuel alloc (\<lambda>off. at (list + off)) (ph_PatchListSize h) 0 g
                  else Some (Inr (CL_SUCCESS, g))) of
              None \<Rightarrow> None
            | Some (Inl f) \<Rightarrow> Some (Inl f)
            | Some (Inr (r, g)) \<Rightarrow>
                if r = CL_SUCCESS then processKernels fuel dev B (ph_NumberOfKernels h) (list + ph_PatchListSize h) g
                else Some (Inr (r, g)))"

section \<open>Block kernels\<close>

text \<open>The last occurrence of a string, \<^verbatim>\<open>std::string::rfind\<close>.\<close>

definition rfindString :: "string \<Rightarrow> string \<Rightarrow> nat option" where
  "rfindString p s =
     fold (\<lambda>i r. if take (length p) (drop i s) = p then Some i else r) [0..<length s + 1] None"

definition derefName :: "GenProgram \<Rightarrow> nat \<Rightarrow> string rt_result" where
  "derefName g p = (case gp_heap g p of None \<Rightarrow> Inl UseAfterFree | Some k \<Rightarrow> Inr (ki_name k))"

fun anyNamed :: "GenProgram \<Rightarrow> string \<Rightarrow> nat list \<Rightarrow> bool rt_result" where
  "anyNamed g name [] = Inr False"
| "anyNamed g name (p # ps) =
     rt_bind (derefName g p) (\<lambda>n. if n = name then Inr True else anyNamed g name ps)"

fun separateLoop :: "nat list \<Rightarrow> GenProgram \<Rightarrow> GenProgram rt_result" where
  "separateLoop [] g = Inr g"
| "separateLoop (i # is) g =
     rt_bind (derefName g i) (\<lambda>name.
     case rfindString ''_dispatch_'' name of
       None \<Rightarrow> separateLoop is (g\<lparr>gp_kernelInfoArray := gp_kernelInfoArray g @ [i]\<rparr>)
     | Some e \<Rightarrow>
         rt_bind (anyNamed g (take e name) (gp_parentKernelInfoArray g)) (\<lambda>found.
         rt_bind (if found then Inr True else anyNamed g (take e name) (gp_subgroupKernelInfoArray g)) (\<lambda>found.
         separateLoop is (if found then g\<lparr>gp_blockKernels := gp_blockKernels g @ [i]\<rparr>
                          else g\<lparr>gp_kernelInfoArray := gp_kernelInfoArray g @ [i]\<rparr>))))"

definition separateBlockKernels :: "GenProgram \<Rightarrow> GenProgram rt_result" where
  "separateBlockKernels g =
     (if gp_parentKernelInfoArray g = [] \<and> gp_subgroupKernelInfoArray g = [] then Inr g
      else separateLoop (gp_kernelInfoArray g) (g\<lparr>gp_kernelInfoArray := []\<rparr>))"

definition getKernelInfo :: "string \<Rightarrow> GenProgram \<Rightarrow> nat option" where
  "getKernelInfo name g =
     find (\<lambda>p. map_option ki_name (gp_heap g p) = Some name) (gp_kernelInfoArray g)"

end
