(* ===== verification/Patch_Properties.thy ===== *)
theory Patch_Properties
  imports Patch_Tokens
begin

text \<open>
  Properties of the reader of device binaries: the well-formedness of the kernel information it builds, the order and
  the termination of its loop, the errors that are lost, and the pointers a second build leaves
  behind.
\<close>

section \<open>Well-formed kernel information\<close>

definition arg_wf :: "KernelArgInfo \<Rightarrow> bool" where
  "arg_wf a \<longleftrightarrow>
     (ka_isImage a \<or> ka_isBuffer a \<or> ka_isSampler a \<or> ka_isAccelerator a \<or> ka_isDeviceQueue a \<or>
      ka_kernelArgPatchInfoVector a \<noteq> [] \<longrightarrow> ka_needPatch a)"

definition workload_wf :: "WorkloadInfo \<Rightarrow> bool" where
  "workload_wf w \<longleftrightarrow>
     length (wl_globalWorkOffsetOffsets w) = 3 \<and> length (wl_globalWorkSizeOffsets w) = 3 \<and>
     length (wl_localWorkSizeOffsets w) = 3 \<and> length (wl_localWorkSizeOffsets2 w) = 3 \<and>
     length (wl_enqueuedLocalWorkSizeOffsets w) = 3 \<and> length (wl_numWorkGroupsOffset w) = 3"

definition args_wf :: "nat \<Rightarrow> KernelArgInfo list \<Rightarrow> bool" where
  "args_wf n as \<longleftrightarrow> n = wrap32 (length (filter ka_needPatch as)) \<and> (\<forall>a \<in> set as. arg_wf a)"

definition kernel_wf :: "KernelInfo \<Rightarrow> bool" where
  "kernel_wf k \<longleftrightarrow>
     args_wf (ki_argumentsToPatchNum k) (ki_kernelArgInfo k) \<and> workload_wf (ki_workloadInfo k) \<and>
     length (ki_reqdWorkGroupSize k) = 3 \<and> length (ki_workgroupDimensionsOrder k) = 3"

definition registered :: "nat \<Rightarrow> KernelInfo \<Rightarrow> bool" where
  "registered i k \<longleftrightarrow> i < length (ki_kernelArgInfo k) \<and> ka_needPatch (ki_kernelArgInfo k ! i)"

lemma kernel_wf_ctor: "kernel_wf (KernelInfo_ctor\<lparr>ki_name := n\<rparr>)"
  by (simp add: kernel_wf_def KernelInfo_ctor_def args_wf_def workload_wf_def WorkloadInfo_ctor_def Let_def)

lemma filter_update_same:
  "i < length xs \<Longrightarrow> P x = P (xs ! i) \<Longrightarrow> length (filter P (xs[i := x])) = length (filter P xs)"
  by (induction xs arbitrary: i) (auto split: nat.split)

lemma filter_update_new:
  "i < length xs \<Longrightarrow> P x \<Longrightarrow> \<not> P (xs ! i) \<Longrightarrow> length (filter P (xs[i := x])) = Suc (length (filter P xs))"
  by (induction xs arbitrary: i) (auto split: nat.split)

lemma default_needPatch [simp]: "\<not> ka_needPatch KernelArgInfo_default" "arg_wf KernelArgInfo_default"
  by (simp_all add: KernelArgInfo_default_def arg_wf_def)

lemma args_wf_replicate: "args_wf n as \<Longrightarrow> args_wf n (as @ replicate m KernelArgInfo_default)"
  by (auto simp: args_wf_def)

lemma args_wf_update:
  assumes "args_wf n as" "i < length as" "ka_needPatch a = ka_needPatch (as ! i)" "arg_wf a"
  shows "args_wf n (as[i := a])"
proof -
  have "length (filter ka_needPatch (as[i := a])) = length (filter ka_needPatch as)"
    using assms by (intro filter_update_same) auto
  moreover have "\<forall>x \<in> set (as[i := a]). arg_wf x"
    using assms set_update_subset_insert by (fastforce simp: args_wf_def)
  ultimately show ?thesis using assms(1) by (simp add: args_wf_def)
qed

lemma register_wf:
  assumes "resizeKernelArgInfoAndRegisterParameter i k = Inr k'" "kernel_wf k"
  shows "kernel_wf k' \<and> registered i k'"
proof -
  let ?args = "if length (ki_kernelArgInfo k) \<le> i then resizeArgs (wrap32 (i + 1)) (ki_kernelArgInfo k) else ki_kernelArgInfo k"
  have len: "i < length ?args"
    using assms(1) by (auto simp: resizeKernelArgInfoAndRegisterParameter_def Let_def split: if_splits)
  have wf: "args_wf (ki_argumentsToPatchNum k) ?args"
  proof (cases "length (ki_kernelArgInfo k) \<le> i")
    case True
    with len have "length (ki_kernelArgInfo k) < wrap32 (i + 1)"
      by (auto simp: resizeArgs_def split: if_splits)
    with True assms(2) show ?thesis by (simp add: resizeArgs_def args_wf_replicate kernel_wf_def)
  qed (use assms(2) in \<open>simp add: kernel_wf_def\<close>)
  show ?thesis
  proof (cases "ka_needPatch (?args ! i)")
    case True
    then have "k' = k\<lparr>ki_kernelArgInfo := ?args\<rparr>"
      using assms(1) len by (simp add: resizeKernelArgInfoAndRegisterParameter_def Let_def)
    with wf True len assms(2) show ?thesis by (simp add: kernel_wf_def registered_def)
  next
    case False
    let ?a = "(?args ! i)\<lparr>ka_needPatch := True\<rparr>"
    have "length (filter ka_needPatch (?args[i := ?a])) = Suc (length (filter ka_needPatch ?args))"
      using len False by (intro filter_update_new) auto
    moreover have "\<forall>x \<in> set (?args[i := ?a]). arg_wf x"
      using wf set_update_subset_insert [of ?args i ?a] by (auto simp: args_wf_def arg_wf_def)
    ultimately have "args_wf (wrap32 (ki_argumentsToPatchNum k + 1)) (?args[i := ?a])"
      using wf by (simp add: args_wf_def mod_Suc_eq)
    moreover have "k' = k\<lparr>ki_kernelArgInfo := ?args[i := ?a], ki_argumentsToPatchNum := wrap32 (ki_argumentsToPatchNum k + 1)\<rparr>"
      using assms(1) len False by (simp add: resizeKernelArgInfoAndRegisterParameter_def Let_def)
    ultimately show ?thesis using len assms(2) by (simp add: kernel_wf_def registered_def)
  qed
qed

definition keeps_registration :: "(KernelArgInfo \<Rightarrow> KernelArgInfo) \<Rightarrow> bool" where
  "keeps_registration f \<longleftrightarrow> (\<forall>a. ka_needPatch (f a) = ka_needPatch a)"

lemma update_wf:
  assumes "kernel_wf k" "registered i k" "keeps_registration f"
  shows "kernel_wf (updateArg i f k) \<and> registered i (updateArg i f k)"
proof -
  have i: "i < length (ki_kernelArgInfo k)" and "ka_needPatch (f (ki_kernelArgInfo k ! i))"
    using assms by (auto simp: registered_def keeps_registration_def)
  then have "arg_wf (f (ki_kernelArgInfo k ! i))" by (simp add: arg_wf_def)
  then have "args_wf (ki_argumentsToPatchNum k) ((ki_kernelArgInfo k)[i := f (ki_kernelArgInfo k ! i)])"
    using assms i by (intro args_wf_update) (auto simp: kernel_wf_def keeps_registration_def)
  then show ?thesis
    using assms i by (simp add: kernel_wf_def updateArg_def registered_def keeps_registration_def)
qed

lemma registerAndUpdate_wf:
  assumes "registerAndUpdate i f k = Inr k'" "kernel_wf k" "keeps_registration f"
  shows "kernel_wf k' \<and> registered i k'"
  using assms register_wf update_wf by (fastforce simp: registerAndUpdate_def)

lemma storeKernelArgPatchInfo_wf:
  assumes "storeKernelArgPatchInfo i a b c d k = Inr k'" "kernel_wf k"
  shows "kernel_wf k' \<and> registered i k'"
  using assms unfolding storeKernelArgPatchInfo_def
  by (rule registerAndUpdate_wf) (simp add: keeps_registration_def)

lemma wf_frame [simp]:
  "kernel_wf (updatePatchInfo f k) = kernel_wf k" "registered i (updatePatchInfo f k) = registered i k"
  "kernel_wf (k\<lparr>ki_usesSsh := b\<rparr>) = kernel_wf k" "registered i (k\<lparr>ki_usesSsh := b\<rparr>) = registered i k"
  "kernel_wf (k\<lparr>ki_isVmeWorkload := b\<rparr>) = kernel_wf k"
  "kernel_wf (k\<lparr>ki_systemKernelOffset := n\<rparr>) = kernel_wf k"
  "kernel_wf (k\<lparr>ki_igcInfoForGtpin := q\<rparr>) = kernel_wf k"
  "kernel_wf (k\<lparr>ki_attributes := s\<rparr>) = kernel_wf k"
  "kernel_wf (k\<lparr>ki_requiredSubGroupSize := n\<rparr>) = kernel_wf k"
  "kernel_wf (k\<lparr>ki_childrenKernelsIdOffset := c\<rparr>) = kernel_wf k"
  "kernel_wf (k\<lparr>ki_crossThreadData := d\<rparr>) = kernel_wf k"
  "kernel_wf (k\<lparr>ki_kernelAllocation := b\<rparr>) = kernel_wf k"
  by (simp_all add: kernel_wf_def registered_def updatePatchInfo_def)

lemma keeps_registration_updates [simp]:
  "keeps_registration (\<lambda>a. a\<lparr>ka_isBuffer := True\<rparr>)" "keeps_registration (\<lambda>a. a\<lparr>ka_isDeviceQueue := True\<rparr>)"
  "keeps_registration (\<lambda>a. a\<lparr>ka_isAccelerator := True\<rparr>)" "keeps_registration (\<lambda>a. a\<lparr>ka_isSampler := True\<rparr>)"
  "keeps_registration (\<lambda>a. a\<lparr>ka_samplerArgumentType := n\<rparr>)"
  by (simp_all add: keeps_registration_def)

lemma argumentOffset_keeps: "argumentOffset t = Some f \<Longrightarrow> keeps_registration (f n)"
  by (cases t) (auto simp: keeps_registration_def)

section \<open>Every token keeps the kernel well-formed\<close>

lemma store_arguments_wf:
  assumes "kernel_wf k"
  shows "storeStatelessGlobalArgument s k = Inr k' \<Longrightarrow> kernel_wf k'"
    and "storeStatelessConstantArgument s k = Inr k' \<Longrightarrow> kernel_wf k'"
    and "storeDeviceQueueArgument s k = Inr k' \<Longrightarrow> kernel_wf k'"
    and "storeGlobalArgument g k = Inr k' \<Longrightarrow> kernel_wf k'"
    and "storeImageArgument i k = Inr k' \<Longrightarrow> kernel_wf k'"
    and "storeSamplerArgument a k = Inr k' \<Longrightarrow> kernel_wf k'"
    and "storeDataParameterArgument d k = Inr k' \<Longrightarrow> kernel_wf k'"
    and "storeArgInfo t k = Inr k' \<Longrightarrow> kernel_wf k'"
proof -
  show "storeStatelessGlobalArgument s k = Inr k' \<Longrightarrow> kernel_wf k'"
    using assms storeKernelArgPatchInfo_wf update_wf by (fastforce simp: storeStatelessGlobalArgument_def)
  show "storeStatelessConstantArgument s k = Inr k' \<Longrightarrow> kernel_wf k'"
    using assms storeKernelArgPatchInfo_wf update_wf by (fastforce simp: storeStatelessConstantArgument_def)
  show "storeDeviceQueueArgument s k = Inr k' \<Longrightarrow> kernel_wf k'"
    using assms storeKernelArgPatchInfo_wf registerAndUpdate_wf by (fastforce simp: storeDeviceQueueArgument_def)
  show "storeGlobalArgument g k = Inr k' \<Longrightarrow> kernel_wf k'"
    using assms storeKernelArgPatchInfo_wf update_wf by (fastforce simp: storeGlobalArgument_def)
  show "storeImageArgument i k = Inr k' \<Longrightarrow> kernel_wf k'"
    using assms storeKernelArgPatchInfo_wf update_wf by (fastforce simp: storeImageArgument_def keeps_registration_def)
  show "storeDataParameterArgument d k = Inr k' \<Longrightarrow> kernel_wf k'"
    using assms storeKernelArgPatchInfo_wf by (auto simp: storeDataParameterArgument_def)
next
  assume "storeSamplerArgument a k = Inr k'"
  then obtain k1 where k1: "storeKernelArgPatchInfo (sk_ArgumentNumber a) 0 0 0 (sk_Offset a) k = Inr k1"
    and k': "k' = (let k = updateArg (sk_ArgumentNumber a) (\<lambda>x. x\<lparr>ka_samplerArgumentType := sk_Type a\<rparr>) k1
      in if \<not> sk_isTexture a
         then (updateArg (sk_ArgumentNumber a) (\<lambda>x. x\<lparr>ka_isAccelerator := True\<rparr>) k)\<lparr>ki_isVmeWorkload := True\<rparr>
         else updateArg (sk_ArgumentNumber a) (\<lambda>x. x\<lparr>ka_isSampler := True\<rparr>) k)"
    by (auto simp: storeSamplerArgument_def Let_def)
  from storeKernelArgPatchInfo_wf [OF k1 assms] have "kernel_wf k1" "registered (sk_ArgumentNumber a) k1" by auto
  from update_wf [OF this, of "\<lambda>x. x\<lparr>ka_samplerArgumentType := sk_Type a\<rparr>"]
  show "kernel_wf k'" unfolding k' Let_def using update_wf by simp
next
  assume "storeArgInfo t k = Inr k'"
  moreover from this obtain k1 where k1: "resizeKernelArgInfoAndRegisterParameter (ai_ArgumentNumber t) k = Inr k1"
    by (auto simp: storeArgInfo_def Let_def)
  ultimately show "kernel_wf k'"
    using register_wf [OF k1 assms]
    by (auto simp: storeArgInfo_def Let_def keeps_registration_def intro!: update_wf [THEN conjunct1] split: if_splits)
qed

lemma workloadParameter_wf:
  assumes "workloadParameter t w = Inr w'" "workload_wf w"
  shows "workload_wf w'"
proof -
  have s: "length ys = 3" if "setOffset3 i v xs = Inr ys" "length xs = 3" for i v xs ys
    using that by (auto simp: setOffset3_def split: if_splits)
  show ?thesis
    using assms by (cases "dp_Type t")
      (auto simp: workloadParameter_def Let_def workload_wf_def split: if_splits dest!: s)
qed

lemma setWorkload_wf: "setWorkload (workloadParameter t) k = Inr k' \<Longrightarrow> kernel_wf k \<Longrightarrow> kernel_wf k'"
  using workloadParameter_wf by (auto simp: setWorkload_def kernel_wf_def)

lemma onKernelInfo_wf:
  assumes "onKernelInfo f st = Inr st'" "kernel_wf (ps_kernelInfo st)"
    and "\<And>k'. f (ps_kernelInfo st) = Inr k' \<Longrightarrow> kernel_wf k'"
  shows "kernel_wf (ps_kernelInfo st')"
  using assms by (auto simp: onKernelInfo_def)

lemma dataParameter_wf:
  assumes "dataParameter t st = Inr st'" "kernel_wf (ps_kernelInfo st)"
  shows "kernel_wf (ps_kernelInfo st')"
proof -
  define st0 where "st0 = st\<lparr>ps_kernelInfo := updatePatchInfo
             (\<lambda>p. p\<lparr>pi_dataParameterBuffers := pi_dataParameterBuffers p @ [t]\<rparr>) (ps_kernelInfo st)\<rparr>"
  have wf0: "kernel_wf (ps_kernelInfo st0)" using assms(2) by (simp add: st0_def)
  note d = assms(1) [unfolded dataParameter_def Let_def, folded st0_def]
  show ?thesis
  proof (cases "argumentOffset (dp_Type t)")
    case (Some f)
    with d have "onKernelInfo (registerAndUpdate (dp_ArgumentNumber t) (f (dp_Offset t))) st0 = Inr st'" by simp
    then show ?thesis
      using registerAndUpdate_wf argumentOffset_keeps [OF Some] wf0 by (blast intro: onKernelInfo_wf)
  next
    case None
    consider (arg) "dp_Type t = KERNEL_ARGUMENT" | (slm) "dp_Type t = SUM_OF_LOCAL_MEMORY_OBJECT_ARGUMENT_SIZES"
      | (workload) "onKernelInfo (setWorkload (workloadParameter t)) st0 = Inr st'"
      | (other) "kernel_wf (ps_kernelInfo st')"
      using d None wf0 by (cases "dp_Type t") (auto simp: onKernelInfo_def)
    then show ?thesis
    proof cases
      case arg
      with d have "onKernelInfo (storeDataParameterArgument t) st0 = Inr st'" by simp
      then show ?thesis using store_arguments_wf(7) [OF wf0] wf0 by (blast intro: onKernelInfo_wf)
    next
      case slm
      with d show ?thesis
        using wf0 registerAndUpdate_wf by (fastforce simp: keeps_registration_def elim: onKernelInfo_wf)
    next
      case workload
      then show ?thesis using setWorkload_wf wf0 by (blast intro: onKernelInfo_wf)
    qed
  qed
qed

lemma executionEnvironment_wf: "kernel_wf k \<Longrightarrow> kernel_wf (executionEnvironment e k)"
  by (simp add: executionEnvironment_def Let_def kernel_wf_def updatePatchInfo_def)

lemma storeString_wf [simp]: "kernel_wf (storeString s k) = kernel_wf k"
  by (simp add: storeString_def)

lemma storeAttributes_wf [simp]: "kernel_wf (storeAttributes s k) = kernel_wf k"
  by (simp add: storeAttributes_def Let_def split: option.split)

lemma storeSurface_wf [simp]: "kernel_wf (storeSurface f k) = kernel_wf k"
  by (simp add: storeSurface_def)

lemma slm_wf: "kernel_wf k \<Longrightarrow> kernel_wf (k\<lparr>ki_workloadInfo := (ki_workloadInfo k)\<lparr>wl_slmStaticSize := n\<rparr>\<rparr>)"
  by (simp add: kernel_wf_def workload_wf_def)

lemma slm_patch_wf:
  "kernel_wf k \<Longrightarrow> kernel_wf ((updatePatchInfo f k)\<lparr>ki_workloadInfo := (ki_workloadInfo k)\<lparr>wl_slmStaticSize := n\<rparr>\<rparr>)"
  by (simp add: kernel_wf_def workload_wf_def updatePatchInfo_def)

lemma handleToken_wf:
  assumes "handleToken t st = Inr (r, st')" "kernel_wf (ps_kernelInfo st)"
  shows "kernel_wf (ps_kernelInfo st')"
  using assms store_arguments_wf [OF assms(2)] dataParameter_wf executionEnvironment_wf slm_patch_wf
  by (cases t) (auto simp: handleToken_defs onKernelInfo_def)

lemma patchLoop_wf:
  assumes "patchLoop fuel at listSize off st = Some (Inr (r, st'))" "kernel_wf (ps_kernelInfo st)"
  shows "kernel_wf (ps_kernelInfo st')"
  using assms
proof (induction fuel arbitrary: off st)
  case (Suc fuel)
  then show ?case
    using handleToken_wf by (auto split: if_splits sum.splits)
qed simp

lemma resolveArg_fst: "arg_wf (fst (resolveArg a)) = arg_wf a \<and> ka_needPatch (fst (resolveArg a)) = ka_needPatch a"
  by (simp add: resolveArg_def arg_wf_def Let_def split: option.split)

lemma resolveArg_wf: "resolveArg a = (a', b) \<Longrightarrow> arg_wf a' = arg_wf a \<and> ka_needPatch a' = ka_needPatch a"
  using resolveArg_fst [of a] by simp

lemma resolveArgs_wf:
  "resolveArgs as = (as', r) \<Longrightarrow> (\<forall>a \<in> set as. arg_wf a) \<Longrightarrow>
     (\<forall>a \<in> set as'. arg_wf a) \<and> length (filter ka_needPatch as') = length (filter ka_needPatch as)"
proof (induction as arbitrary: as' r)
  case (Cons a as)
  obtain a1 b where a1: "resolveArg a = (a1, b)" by fastforce
  obtain as1 r1 where as1: "resolveArgs as = (as1, r1)" by fastforce
  from resolveArg_wf [OF a1] Cons.prems Cons.IH [OF as1] show ?case
    by (cases b) (auto simp: a1 as1)
qed simp

lemma resolveKernelInfo_wf:
  assumes "resolveKernelInfo k = (r, k')" "kernel_wf k"
  shows "kernel_wf k'"
proof -
  obtain as where as: "resolveArgs (ki_kernelArgInfo k) = (as, r)" and k': "k' = k\<lparr>ki_kernelArgInfo := as\<rparr>"
    using assms(1) by (auto simp: resolveKernelInfo_def split: prod.splits)
  have "\<forall>a \<in> set (ki_kernelArgInfo k). arg_wf a" using assms(2) by (simp add: kernel_wf_def args_wf_def)
  from resolveArgs_wf [OF as this] assms(2) show ?thesis
    by (simp add: k' kernel_wf_def args_wf_def)
qed

lemma finishPatchList_wf:
  assumes "finishPatchList dev n (r, st) = Inr (r', k')" "kernel_wf (ps_kernelInfo st)"
  shows "kernel_wf k'"
  using assms resolveKernelInfo_wf
  by (auto simp: finishPatchList_def Let_def createKernelAllocation_def split: if_splits prod.splits option.splits)

text \<open>Small binaries for the examples: an argument, an inline sampler, a token without effect and an unknown one.\<close>

definition demoArgument :: PatchItem where
  "demoArgument =
     \<lparr>it_token = DATA_PARAMETER_BUFFER \<lparr>dp_Type = KERNEL_ARGUMENT, dp_ArgumentNumber = 0, dp_Offset = 32, dp_DataSize = 4,
        dp_SourceOffset = 0\<rparr>, it_Size = 28\<rparr>"

definition demoSampler :: PatchItem where
  "demoSampler = \<lparr>it_token = INLINE_VME_SAMPLER_INFO, it_Size = 8\<rparr>"

definition demoUnknown :: PatchItem where
  "demoUnknown = \<lparr>it_token = UNKNOWN_TOKEN 999, it_Size = 8\<rparr>"

definition demoAt :: "PatchItem \<Rightarrow> nat \<Rightarrow> PatchItem" where
  "demoAt second p = (if p = 0 then demoArgument else second)"

definition demoHeader :: "nat \<Rightarrow> KernelHeader" where
  "demoHeader heap =
     \<lparr>kh_KernelNameSize = 4, kh_KernelHeapSize = heap, kh_GeneralStateHeapSize = 0, kh_DynamicStateHeapSize = 0,
      kh_SurfaceStateHeapSize = 0, kh_PatchListSize = 36, kh_CheckSum = 0\<rparr>"

definition demoDevice :: DeviceView where
  "demoDevice =
     \<lparr>dv_slmWindowStartAddress = 0, dv_localMemSize = 65536, dv_computeUnitsUsedForScratch = 1, dv_maxWorkGroupSize = 256,
      dv_allocates = (\<lambda>_. True), dv_copies = True\<rparr>"

lemmas demo_defs = demoArgument_def demoSampler_def demoUnknown_def demoAt_def demoHeader_def demoDevice_def

lemmas token_eval = handleToken_defs dataParameter_def onKernelInfo_def storeDataParameterArgument_def
  storeKernelArgPatchInfo_def registerAndUpdate_def resizeKernelArgInfoAndRegisterParameter_def resizeArgs_def
  updateArg_def updatePatchInfo_def ParseState_init_def KernelInfo_ctor_def PatchInfo_ctor_def
  KernelArgInfo_default_def isSafeToSkipUnhandledToken_def

text \<open>Claim C5. The information the reader builds for a kernel is well formed, whatever tokens the
  binary holds: the number of arguments to patch is the number of registered arguments, an argument
  that is a buffer, image, sampler, accelerator or device queue or has a place to patch is registered, and the offset arrays keep
  their three entries. The only other ends of a read are a fault and a loop that goes on.\<close>

theorem parsed_kernel_well_formed:
  assumes "parsePatchList fuel dev at h (KernelInfo_ctor\<lparr>ki_name := n\<rparr>) = Some (Inr (r, k))"
  shows "kernel_wf k"
proof -
  obtain r1 st where loop: "patchLoop fuel at (kh_PatchListSize h) 0 (ParseState_init (KernelInfo_ctor\<lparr>ki_name := n\<rparr>)) = Some (Inr (r1, st))"
    and fin: "finishPatchList dev (kh_KernelHeapSize h) (r1, st) = Inr (r, k)"
    using assms by (auto simp: parsePatchList_def)
  have "kernel_wf (ps_kernelInfo st)"
    by (rule patchLoop_wf [OF loop]) (simp add: ParseState_init_def kernel_wf_ctor)
  from finishPatchList_wf [OF fin this] show ?thesis .
qed

theorem parsed_kernel_well_formed_witness:
  "\<exists>k. parsePatchList 3 (Some demoDevice) (demoAt demoSampler) (demoHeader 64) (KernelInfo_ctor\<lparr>ki_name := ''copy''\<rparr>) =
          Some (Inr (CL_SUCCESS, k)) \<and> ki_argumentsToPatchNum k = 1 \<and> kernel_wf k"
proof -
  obtain k where k: "parsePatchList 3 (Some demoDevice) (demoAt demoSampler) (demoHeader 64)
      (KernelInfo_ctor\<lparr>ki_name := ''copy''\<rparr>) = Some (Inr (CL_SUCCESS, k))" "ki_argumentsToPatchNum k = 1"
    by (simp add: parsePatchList_def numeral_3_eq_3 demo_defs token_eval Let_def finishPatchList_def
        createKernelAllocation_def resolveKernelInfo_def resolveArg_def accessQualifierMap_def addressQualifierMap_def
        CL_SUCCESS_def)
  from parsed_kernel_well_formed [OF k(1)] k show ?thesis by blast
qed

section \<open>The loop\<close>

text \<open>Items that lie one behind the other from an offset.\<close>

fun laid_out :: "(nat \<Rightarrow> PatchItem) \<Rightarrow> nat \<Rightarrow> PatchItem list \<Rightarrow> bool" where
  "laid_out at off [] = True"
| "laid_out at off (i # is) = (at off = i \<and> 0 < it_Size i \<and> laid_out at (off + it_Size i) is)"

text \<open>The reference: the tokens in their order, up to the first that is refused or faults.\<close>

fun handleTokens :: "PatchItem list \<Rightarrow> ParseState \<Rightarrow> (int \<times> ParseState) rt_result" where
  "handleTokens [] st = Inr (CL_SUCCESS, st)"
| "handleTokens (i # is) st =
     rt_bind (handleToken (it_token i) st) (\<lambda>(r, st). if r \<noteq> CL_SUCCESS then Inr (r, st) else handleTokens is st)"

lemma patchLoop_laid_out:
  assumes "laid_out at off items" "off + sum_list (map it_Size items) = listSize" "length items < fuel"
  shows "patchLoop fuel at listSize off st = Some (handleTokens items st)"
  using assms
proof (induction items arbitrary: off st fuel)
  case Nil
  then obtain f where "fuel = Suc f" by (cases fuel) auto
  with Nil show ?case by simp
next
  case (Cons i "is")
  then obtain f where f: "fuel = Suc f" "length is < f" by (cases fuel) auto
  have off: "off < listSize" "at off = i" using Cons.prems by auto
  have "patchLoop f at listSize (off + it_Size i) st' = Some (handleTokens is st')" for st'
    using Cons.prems f by (intro Cons.IH) auto
  with off f show ?case
    by (auto simp: not_le split: sum.split)
qed

lemma patchLoop_terminates:
  assumes "\<forall>p. 0 < it_Size (at p)" "listSize - off < fuel"
  shows "patchLoop fuel at listSize off st \<noteq> None"
  using assms(2)
proof (induction fuel arbitrary: off st)
  case (Suc fuel)
  have "listSize - (off + it_Size (at off)) < fuel" if "off < listSize"
    using Suc.prems that spec [OF assms(1), of off] by linarith
  with Suc.IH show ?case by (auto split: sum.split)
qed simp

text \<open>Claim C6. Reading a patch list whose items lie one behind the other handles exactly these items in
  their order, each once, and stops at the first that is refused: the loop over the announced sizes
  is the fold of the tokens, and one turn more than there are items is enough.\<close>

theorem patch_loop_is_fold:
  assumes "laid_out at 0 items" "kh_PatchListSize h = sum_list (map it_Size items)" "length items < fuel"
  shows "parsePatchList fuel dev at h k =
           Some (rt_bind (handleTokens items (ParseState_init k)) (finishPatchList dev (kh_KernelHeapSize h)))"
  using patchLoop_laid_out [OF assms(1) _ assms(3), of "kh_PatchListSize h"] assms(2)
  by (simp add: parsePatchList_def)

theorem patch_loop_is_fold_witness:
  "laid_out (demoAt demoSampler) 0 [demoArgument, demoSampler] \<and>
   parsePatchList 3 None (demoAt demoSampler) (demoHeader 0) KernelInfo_ctor =
     Some (rt_bind (handleTokens [demoArgument, demoSampler] (ParseState_init KernelInfo_ctor)) (finishPatchList None 0))"
proof -
  have "laid_out (demoAt demoSampler) 0 [demoArgument, demoSampler]" by (simp add: demo_defs)
  moreover from patch_loop_is_fold [OF this, of "demoHeader 0" 3 None KernelInfo_ctor]
  have "parsePatchList 3 None (demoAt demoSampler) (demoHeader 0) KernelInfo_ctor =
     Some (rt_bind (handleTokens [demoArgument, demoSampler] (ParseState_init KernelInfo_ctor)) (finishPatchList None 0))"
    by (simp add: demoHeader_def demoArgument_def demoSampler_def)
  ultimately show ?thesis by blast
qed

text \<open>An item of size zero behind a prefix that is laid out: the loop handles the prefix once and the item
  again in every further turn.\<close>

definition loopStop :: "(int \<times> ParseState) rt_result \<Rightarrow> (ParseState \<Rightarrow> (int \<times> ParseState) rt_result option) \<Rightarrow>
    (int \<times> ParseState) rt_result option" where
  "loopStop res next =
     (case res of Inl f \<Rightarrow> Some (Inl f) | Inr (r, st) \<Rightarrow> if r = CL_SUCCESS then next st else Some (Inr (r, st)))"

lemma patchLoop_prefix:
  assumes "laid_out at off items" "off + sum_list (map it_Size items) \<le> listSize"
  shows "patchLoop (length items + n) at listSize off st =
           loopStop (handleTokens items st) (patchLoop n at listSize (off + sum_list (map it_Size items)))"
  using assms
proof (induction items arbitrary: off st)
  case (Cons i "is")
  then have off: "off < listSize" "at off = i" by auto
  have "patchLoop (length is + n) at listSize (off + it_Size i) st' =
      loopStop (handleTokens is st') (patchLoop n at listSize (off + it_Size i + sum_list (map it_Size is)))" for st'
    using Cons.prems by (intro Cons.IH) auto
  with off show ?case by (auto simp: not_le loopStop_def add.assoc split: sum.split)
qed (simp add: loopStop_def)

lemma patchLoop_zero:
  assumes "it_Size (at off) = 0" "off < listSize"
  shows "patchLoop n at listSize off st = loopStop (handleTokens (replicate n (at off)) st) (\<lambda>_. None)"
  using assms by (induction n arbitrary: st) (auto simp: not_le loopStop_def split: sum.split)

lemma handleTokens_append:
  "handleTokens (xs @ ys) st = rt_bind (handleTokens xs st) (\<lambda>(r, st). if r \<noteq> CL_SUCCESS then Inr (r, st) else handleTokens ys st)"
  by (induction xs arbitrary: st) (auto split: sum.split simp: rt_bind_def)

lemma patchLoop_mono: "patchLoop n at listSize off st = Some x \<Longrightarrow> n \<le> m \<Longrightarrow> patchLoop m at listSize off st = Some x"
proof (induction n arbitrary: m off st)
  case (Suc n)
  then obtain m' where "m = Suc m'" "n \<le> m'" by (cases m) auto
  with Suc.prems Suc.IH show ?case by (auto split: if_splits sum.splits)
qed simp

lemma patchLoop_prefix_zero:
  assumes "laid_out at 0 items" "off = sum_list (map it_Size items)" "off < listSize" "it_Size (at off) = 0"
  shows "patchLoop (length items + n) at listSize 0 st =
           loopStop (handleTokens (items @ replicate n (at off)) st) (\<lambda>_. None)"
  using patchLoop_prefix [OF assms(1), of listSize n st] patchLoop_zero [of at off listSize n] assms(2-4)
  by (auto simp: handleTokens_append loopStop_def rt_bind_def split: sum.split)

lemma loopStop_none: "loopStop r (\<lambda>_. None) = None \<longleftrightarrow> (\<exists>st. r = Inr (CL_SUCCESS, st))"
  by (cases r) (auto simp: loopStop_def split: prod.splits)

text \<open>Claim C7. The loop ends if no item announces the size zero, within as many turns as the list has
  bytes, and nothing checks the announced size: where an item of size zero lies inside the list behind items that are laid out,
  the reader returns exactly when handling those items and then the same item again and again meets a refused token or a fault
  after some number of turns. An item accepted every time keeps the reader in the loop forever.\<close>

theorem patch_loop_termination:
  "((\<forall>p. 0 < it_Size (at p)) \<longrightarrow> parsePatchList (Suc (kh_PatchListSize h)) dev at h k \<noteq> None) \<and>
   (laid_out at 0 items \<and> off = sum_list (map it_Size items) \<and> off < kh_PatchListSize h \<and> it_Size (at off) = 0 \<longrightarrow>
      (\<forall>fuel. parsePatchList fuel dev at h k = None) =
      (\<forall>n. \<exists>st. handleTokens (items @ replicate n (at off)) (ParseState_init k) = Inr (CL_SUCCESS, st)))"
proof (intro conjI impI)
  assume "\<forall>p. 0 < it_Size (at p)"
  from patchLoop_terminates [OF this, of "kh_PatchListSize h" 0 "Suc (kh_PatchListSize h)" "ParseState_init k"]
  show "parsePatchList (Suc (kh_PatchListSize h)) dev at h k \<noteq> None"
    by (simp add: parsePatchList_def del: patchLoop.simps)
next
  assume z: "laid_out at 0 items \<and> off = sum_list (map it_Size items) \<and> off < kh_PatchListSize h \<and> it_Size (at off) = 0"
  let ?loop = "\<lambda>fuel. patchLoop fuel at (kh_PatchListSize h) 0 (ParseState_init k)"
  have loop: "?loop (length items + n) = loopStop (handleTokens (items @ replicate n (at off)) (ParseState_init k)) (\<lambda>_. None)" for n
    using patchLoop_prefix_zero z by blast
  have "?loop n = None" if "?loop (length items + n) = None" for n
    using patchLoop_mono [of n at "kh_PatchListSize h" 0 "ParseState_init k" _ "length items + n"] that by (cases "?loop n") auto
  then have "(\<forall>fuel. parsePatchList fuel dev at h k = None) = (\<forall>n. ?loop (length items + n) = None)"
    by (auto simp: parsePatchList_def)
  also have "\<dots> = (\<forall>n. \<exists>st. handleTokens (items @ replicate n (at off)) (ParseState_init k) = Inr (CL_SUCCESS, st))"
    using loop by (simp add: loopStop_none)
  finally show "(\<forall>fuel. parsePatchList fuel dev at h k = None) =
      (\<forall>n. \<exists>st. handleTokens (items @ replicate n (at off)) (ParseState_init k) = Inr (CL_SUCCESS, st))" .
qed

definition demoStuck :: PatchItem where
  "demoStuck = \<lparr>it_token = STATE_SIP 5, it_Size = 0\<rparr>"

lemma demoStuck_accepted: "\<exists>st'. handleTokens (replicate n demoStuck) st = Inr (CL_SUCCESS, st')"
  by (induction n arbitrary: st) (auto simp: demoStuck_def handleToken_defs onKernelInfo_def)

theorem patch_loop_termination_witness:
  "parsePatchList 37 None (demoAt demoSampler) (demoHeader 0) KernelInfo_ctor \<noteq> None \<and>
   (\<forall>fuel. parsePatchList fuel None (demoAt demoStuck) (demoHeader 0) KernelInfo_ctor = None)"
proof -
  have "laid_out (demoAt demoStuck) 0 [demoArgument] \<and> 28 = sum_list (map it_Size [demoArgument]) \<and>
      28 < kh_PatchListSize (demoHeader 0) \<and> it_Size (demoAt demoStuck 28) = 0"
    by (simp add: demo_defs demoStuck_def)
  moreover obtain st where "handleTokens [demoArgument] (ParseState_init KernelInfo_ctor) = Inr (CL_SUCCESS, st)"
    by (simp add: demo_defs token_eval)
  then have "\<exists>st. handleTokens ([demoArgument] @ replicate n (demoAt demoStuck 28)) (ParseState_init KernelInfo_ctor) = Inr (CL_SUCCESS, st)" for n
    using demoStuck_accepted [of n st] by (simp only: handleTokens_append) (simp add: demoAt_def)
  ultimately show ?thesis
    using patch_loop_termination [of "demoAt demoSampler" "demoHeader 0" None KernelInfo_ctor]
      patch_loop_termination [of "demoAt demoStuck" "demoHeader 0" None KernelInfo_ctor "[demoArgument]" 28]
    by (simp add: demo_defs del: handleTokens.simps)
qed

section \<open>Errors that are lost\<close>

lemma finishPatchList_heap:
  "finishPatchList (Some d) heapSize rs =
     rt_bind (finishPatchList (Some d) 0 rs) (\<lambda>(r, k).
       if heapSize = 0 then Inr (r, k)
       else rt_bind (createKernelAllocation d heapSize k) (\<lambda>(ok, k). Inr (if ok then CL_SUCCESS else CL_OUT_OF_HOST_MEMORY, k)))"
proof -
  have assoc: "rt_bind (rt_bind x f) g = rt_bind x (\<lambda>a. rt_bind (f a) g)" for x :: "'a rt_result" and f :: "'a \<Rightarrow> 'b rt_result"
    and g :: "'b \<Rightarrow> 'c rt_result"
    by (cases x) simp_all
  show ?thesis
    by (cases rs; cases "heapSize = 0") (simp_all add: finishPatchList_def Let_def split_def assoc)
qed

lemma finishPatchList_code:
  assumes "finishPatchList (Some d) 0 rs = Inr (r, k)" "heapSize \<noteq> 0"
    and "\<not> ki_kernelAllocation k" "dv_allocates d heapSize" "dv_copies d"
  shows "finishPatchList (Some d) heapSize rs = Inr (CL_SUCCESS, k\<lparr>ki_kernelAllocation := True\<rparr>)"
  using assms by (subst finishPatchList_heap) (simp add: createKernelAllocation_def)

lemma finishPatchList_error:
  "finishPatchList dev 0 (r0, st) = Inr (r, k) \<Longrightarrow>
     r = (if r0 = CL_SUCCESS then fst (resolveKernelInfo (ps_kernelInfo st)) else r0)"
  by (auto simp: finishPatchList_def rt_bind_def Let_def split: prod.splits if_splits sum.splits option.splits)

text \<open>Claim C39. The error of a patch list is that of the first token that is refused, or, when every token is accepted,
  that of an argument whose access or address qualifier is not known. It is the result for a kernel without
  code. For a kernel with code it is overwritten by the result of the allocation of the code: where the code is allocated
  and copied, the kernel is accepted as the tokens left it.\<close>

theorem unhandled_token_error_lost:
  assumes "laid_out at 0 items" "kh_PatchListSize h = sum_list (map it_Size items)" "length items < fuel"
    and "handleTokens items (ParseState_init k) = Inr (r0, st)"
    and "r = (if r0 = CL_SUCCESS then fst (resolveKernelInfo (ps_kernelInfo st)) else r0)"
    and "finishPatchList (Some d) 0 (r0, st) = Inr (r', k')" "\<not> ki_kernelAllocation k'"
    and "dv_allocates d (kh_KernelHeapSize h)" "dv_copies d"
  shows "parsePatchList fuel (Some d) at h k =
           Some (Inr (if kh_KernelHeapSize h = 0 then (r, k')
                      else (CL_SUCCESS, k'\<lparr>ki_kernelAllocation := True\<rparr>)))"
  using patchLoop_laid_out [OF assms(1) _ assms(3), of "kh_PatchListSize h" "ParseState_init k"] assms
    finishPatchList_error [OF assms(6)] finishPatchList_code [OF assms(6) _ assms(7-9)]
  by (simp add: parsePatchList_def del: patchLoop.simps)

text \<open>An argument whose access qualifier the runtime does not know.\<close>

definition demoQualifier :: PatchItem where
  "demoQualifier =
     \<lparr>it_token = KERNEL_ARGUMENT_INFO \<lparr>ai_ArgumentNumber = 0, ai_AddressQualifierSize = 1, ai_AccessQualifierSize = 4,
        ai_ArgumentNameSize = 1, ai_TypeNameSize = 2,
        ai_data = CHR 0x00 # ''any'' @ CHR 0x00 # CHR 0x00 # '';'' @ [CHR 0x00, CHR 0x00]\<rparr>, it_Size = 8\<rparr>"

theorem unhandled_token_error_lost_witness:
  "\<exists>k k'. parsePatchList 3 (Some demoDevice) (demoAt demoUnknown) (demoHeader 0) KernelInfo_ctor = Some (Inr (CL_INVALID_KERNEL, k)) \<and>
       parsePatchList 3 (Some demoDevice) (demoAt demoUnknown) (demoHeader 64) KernelInfo_ctor =
         Some (Inr (CL_SUCCESS, k\<lparr>ki_kernelAllocation := True\<rparr>)) \<and>
       parsePatchList 3 (Some demoDevice) (demoAt demoQualifier) (demoHeader 0) KernelInfo_ctor = Some (Inr (CL_INVALID_BINARY, k')) \<and>
       parsePatchList 3 (Some demoDevice) (demoAt demoQualifier) (demoHeader 64) KernelInfo_ctor =
         Some (Inr (CL_SUCCESS, k'\<lparr>ki_kernelAllocation := True\<rparr>))"
proof -
  have sz: "kh_PatchListSize (demoHeader n) = sum_list (map it_Size [demoArgument, i])" if "it_Size i = 8" for n i
    using that by (simp add: demo_defs)
  have lay: "laid_out (demoAt i) 0 [demoArgument, i]" if "it_Size i = 8" for i
    using that by (simp add: demo_defs)
  obtain st k where u: "handleTokens [demoArgument, demoUnknown] (ParseState_init KernelInfo_ctor) = Inr (CL_INVALID_KERNEL, st)"
    "finishPatchList (Some demoDevice) 0 (CL_INVALID_KERNEL, st) = Inr (CL_INVALID_KERNEL, k)" "\<not> ki_kernelAllocation k"
    by (simp add: demo_defs token_eval finishPatchList_def CL_SUCCESS_def CL_INVALID_KERNEL_def)
  obtain st' k' where q: "handleTokens [demoArgument, demoQualifier] (ParseState_init KernelInfo_ctor) = Inr (CL_SUCCESS, st')"
    "finishPatchList (Some demoDevice) 0 (CL_SUCCESS, st') = Inr (CL_INVALID_BINARY, k')" "\<not> ki_kernelAllocation k'"
    "fst (resolveKernelInfo (ps_kernelInfo st')) = CL_INVALID_BINARY"
    by (simp add: demo_defs demoQualifier_def token_eval storeArgInfo_def cstringAt_def finishPatchList_def resolveKernelInfo_def resolveArg_def
        accessQualifierMap_def CL_SUCCESS_def CL_INVALID_BINARY_def)
  have s: "it_Size demoUnknown = 8" "it_Size demoQualifier = 8" by (simp_all add: demoUnknown_def demoQualifier_def)
  note lost = unhandled_token_error_lost [OF lay sz, where fuel = 3 and k = KernelInfo_ctor and d = demoDevice]
  show ?thesis
    using lost [OF s(1) s(1) _ u(1) refl u(2,3), of 0] lost [OF s(1) s(1) _ u(1) refl u(2,3), of 64]
      lost [OF s(2) s(2) _ q(1) refl q(2,3), of 0] lost [OF s(2) s(2) _ q(1) refl q(2,3), of 64] q(4)
    by (simp add: demoDevice_def demoHeader_def CL_INVALID_KERNEL_def CL_SUCCESS_def)
qed

section \<open>A second build\<close>

lemma rt_sum_cases: "(\<exists>f. x = Inl f) \<or> (\<exists>a b c. x = Inr (a, b, c))"
  by (cases x) auto

definition heap_frame :: "GenProgram \<Rightarrow> GenProgram \<Rightarrow> bool" where
  "heap_frame g g' \<longleftrightarrow>
     (\<exists>xs. gp_parentKernelInfoArray g' = gp_parentKernelInfoArray g @ xs) \<and>
     (\<exists>ys. gp_subgroupKernelInfoArray g' = gp_subgroupKernelInfoArray g @ ys) \<and>
     gp_next g \<le> gp_next g' \<and> (\<forall>p < gp_next g. gp_heap g' p = gp_heap g p)"

lemma heap_frame_refl: "heap_frame g g"
  by (simp add: heap_frame_def)

lemma heap_frame_trans: "heap_frame g h \<Longrightarrow> heap_frame h i \<Longrightarrow> heap_frame g i"
  by (fastforce simp: heap_frame_def)

lemma processKernel_frame:
  assumes "processKernel fuel dev B blob g = Some (Inr (n, r, g'))"
  shows "heap_frame g g'"
  using assms by (auto simp: processKernel_def heap_frame_def Let_def split: option.splits sum.splits if_splits)

lemma processKernels_frame:
  "processKernels fuel dev B n pos g = Some (Inr (r, g')) \<Longrightarrow> heap_frame g g'"
proof (induction n arbitrary: pos g)
  case (Suc n)
  then obtain d r1 g1 where g1: "processKernel fuel dev B pos g = Some (Inr (d, r1, g1))"
    by (auto split: option.splits sum.splits)
  with Suc.prems Suc.IH [of "pos + d" g1] processKernel_frame [OF g1] show ?case
    by (auto intro: heap_frame_trans split: if_splits)
qed (simp add: heap_frame_refl)

lemma handleProgramToken_frame:
  assumes "handleProgramToken alloc t g = Inr (r, n, g')"
  shows "heap_frame g g'"
  using assms by (cases t) (auto simp: handleProgramToken_def heap_frame_def split: option.splits if_splits)

lemma programScope_frame:
  "parseProgramScopePatchList fuel alloc at listSize off g = Some (Inr (r, g')) \<Longrightarrow> heap_frame g g'"
proof (induction fuel arbitrary: off g)
  case (Suc fuel)
  then show ?case
    using handleProgramToken_frame by (fastforce intro: heap_frame_trans simp: heap_frame_refl split: if_splits sum.splits)
qed simp

lemma processGenBinary_frame:
  assumes "processGenBinary fuel alloc dev h at B binary g = Some (Inr (r, g'))"
  shows "heap_frame (cleanCurrentKernelInfo g) g'"
  using assms programScope_frame processKernels_frame
  by (fastforce simp: processGenBinary_def Let_def heap_frame_refl intro: heap_frame_trans split: option.splits sum.splits if_splits)

text \<open>Claim C40. A second build of a program destroys its kernels but keeps the vector of parent kernels: the
  pointer to a parent kernel of the first build stays at the front of the vector and points to a
  destroyed object, and when the first kernel of the new binary is a block kernel by its name, the separation of the block
  kernels that follows the build reads through it.\<close>

theorem rebuild_leaves_dangling_parent:
  assumes "processGenBinary fuel alloc dev h at B binary g = Some (Inr (r, g'))"
    and "gp_parentKernelInfoArray g = p # ps" "p \<in> set (gp_kernelInfoArray g)" "p < gp_next g"
  shows "hd (gp_parentKernelInfoArray g') = p \<and> gp_heap g' p = None \<and>
         (gp_kernelInfoArray g' = i # is \<and> gp_heap g' i = Some k \<and> rfindString ''_dispatch_'' (ki_name k) \<noteq> None \<longrightarrow>
            separateBlockKernels g' = Inl UseAfterFree)"
proof -
  have f: "heap_frame (cleanCurrentKernelInfo g) g'" by (rule processGenBinary_frame [OF assms(1)])
  have "gp_heap (cleanCurrentKernelInfo g) p = None" using assms(3) by (simp add: cleanCurrentKernelInfo_def)
  then have dangling: "gp_heap g' p = None" using f assms(4) by (simp add: heap_frame_def cleanCurrentKernelInfo_def)
  obtain xs where parents: "gp_parentKernelInfoArray g' = p # ps @ xs"
    using f assms(2) by (auto simp: heap_frame_def cleanCurrentKernelInfo_def)
  have "separateBlockKernels g' = Inl UseAfterFree"
    if c: "gp_kernelInfoArray g' = i # is" "gp_heap g' i = Some k" "rfindString ''_dispatch_'' (ki_name k) \<noteq> None"
  proof -
    obtain e where "rfindString ''_dispatch_'' (ki_name k) = Some e" using c(3) by auto
    then show ?thesis
      using c dangling parents by (simp add: separateBlockKernels_def derefName_def)
  qed
  with dangling parents show ?thesis by auto
qed

definition demoBinary :: BinaryView where
  "demoBinary =
     \<lparr>bv_byte = (\<lambda>a. str ''_dispatch_'' ! (a - 1)),
      bv_kernelHeader = (\<lambda>_. \<lparr>kh_KernelNameSize = 10, kh_KernelHeapSize = 0, kh_GeneralStateHeapSize = 0,
        kh_DynamicStateHeapSize = 0, kh_SurfaceStateHeapSize = 0, kh_PatchListSize = 0, kh_CheckSum = 0\<rparr>),
      bv_patchItem = (\<lambda>_. demoUnknown), bv_sizeofKernelHeader = 1, bv_gpuPointerSize = 8\<rparr>"

definition demoProgramHeader :: ProgramHeader where
  "demoProgramHeader = \<lparr>ph_valid = True, ph_PatchListSize = 0, ph_NumberOfKernels = 1, ph_sizeof = 0\<rparr>"

definition demoBuilt :: GenProgram where
  "demoBuilt =
     \<lparr>gp_heap = [0 \<mapsto> KernelInfo_ctor], gp_next = 1, gp_kernelInfoArray = [0], gp_parentKernelInfoArray = [0],
      gp_subgroupKernelInfoArray = [], gp_blockKernels = [], gp_constantSurface = None, gp_globalSurface = None,
      gp_globalVarTotalSize = 0\<rparr>"

lemma demoName: "readKernelName demoBinary 0 = ''_dispatch_''" "rfindString ''_dispatch_'' ''_dispatch_'' = Some 0"
  by code_simp+

lemma demoParse:
  "parsePatchList 1 None f (bv_kernelHeader demoBinary 0) (KernelInfo_ctor\<lparr>ki_name := n\<rparr>) =
     Some (Inr (CL_SUCCESS, KernelInfo_ctor\<lparr>ki_name := n\<rparr>))"
  by (simp add: parsePatchList_def demoBinary_def ParseState_init_def finishPatchList_def resolveKernelInfo_def
      KernelInfo_ctor_def PatchInfo_ctor_def)

theorem rebuild_leaves_dangling_parent_witness:
  "\<exists>g'. processGenBinary 1 (\<lambda>_. None) None demoProgramHeader (\<lambda>_. \<lparr>pit_token = UNKNOWN_PROGRAM_TOKEN 0, pit_Size = 8\<rparr>) demoBinary
          (Some 0) demoBuilt = Some (Inr (CL_SUCCESS, g')) \<and>
        hd (gp_parentKernelInfoArray g') = 0 \<and> gp_heap g' 0 = None \<and> separateBlockKernels g' = Inl UseAfterFree"
proof -
  let ?at = "\<lambda>_. \<lparr>pit_token = UNKNOWN_PROGRAM_TOKEN 0, pit_Size = 8\<rparr>"
  have "patchListStart demoBinary 0 = 11" by (simp add: patchListStart_def demoBinary_def)
  then obtain g' k where g': "processGenBinary 1 (\<lambda>_. None) None demoProgramHeader ?at demoBinary (Some 0) demoBuilt = Some (Inr (CL_SUCCESS, g'))"
    and k: "gp_kernelInfoArray g' = [1]" "gp_heap g' 1 = Some k" "ki_name k = ''_dispatch_''"
    by (simp add: processGenBinary_def demoProgramHeader_def processKernel_def demoName(1)
        demoParse [unfolded One_nat_def] Let_def cleanCurrentKernelInfo_def demoBuilt_def)
  have "gp_parentKernelInfoArray demoBuilt = [0]" "0 \<in> set (gp_kernelInfoArray demoBuilt)" "0 < gp_next demoBuilt"
    by (simp_all add: demoBuilt_def)
  from rebuild_leaves_dangling_parent [OF g' this, of 1 "[]" k] g' k demoName(2) show ?thesis by auto
qed

section \<open>Consecutive kernels\<close>

text \<open>The size by which the reader advances over a kernel is a sum of 32 bits: if it does not wrap, the next
  kernel starts where the patch list ends.\<close>

lemma kernels_consecutive:
  assumes "processKernel fuel dev B blob g = Some (Inr (n, CL_SUCCESS, g'))"
    and "kh_DynamicStateHeapSize h + kh_GeneralStateHeapSize h + kh_KernelHeapSize h + kh_KernelNameSize h +
         kh_PatchListSize h + kh_SurfaceStateHeapSize h < 4294967296" "h = bv_kernelHeader B blob"
  shows "blob + n = patchListStart B blob + kh_PatchListSize h"
  using assms by (auto simp: processKernel_def Let_def kernelSize_def patchListStart_def split: option.splits sum.splits if_splits)

end
