(* ===== verification/Kernel_Arguments.thy ===== *)
theory Kernel_Arguments
  imports Patch_Tokens
begin

text \<open>
  Kernel objects (\<^verbatim>\<open>kernel/kernel.cpp\<close>): the arguments an application sets, the cross thread data into which
  they are patched, and the clone of a kernel. A value of an argument is passed by address, so the memory of the
  application is a part of the environment; \<^verbatim>\<open>castToObject\<close> is the lookup of an address among the
  live objects. Surface states and sampler states are laid out by the hardware code, so
  a write to one is recorded with its offset and what it describes.
\<close>

section \<open>Objects and state\<close>

datatype kernelArgType =
    NONE_OBJ | IMAGE_OBJ | BUFFER_OBJ | PIPE_OBJ | SVM_OBJ | SVM_ALLOC_OBJ | SAMPLER_OBJ
  | ACCELERATOR_OBJ | DEVICE_QUEUE_OBJ | SLM_OBJ

text \<open>What a kernel reads of a graphics allocation: whether \<^verbatim>\<open>isFlushL3Required\<close> or writable flags ask for
  a flush, and its addresses.\<close>

record AllocationView =
  av_id :: nat
  av_gpuAddress :: nat
  av_gpuAddressToPatch :: nat
  av_underlyingBuffer :: nat
  av_size :: nat
  av_flushL3Required :: bool
  av_writableFlags :: bool
  av_isCoherent :: bool
  av_compressed :: bool

record MemObjView =
  mo_allocation :: AllocationView
  mo_mcsAllocation :: "AllocationView option"
  mo_context :: nat
  mo_sharingHandler :: bool
  mo_offset :: nat
  mo_cpuAddress :: nat
  mo_size :: nat
  mo_uncacheable :: bool
  mo_writeOnly :: bool
  mo_readOnly :: bool

record ImageView =
  im_width :: nat
  im_height :: nat
  im_depth :: nat
  im_num_samples :: nat
  im_array_size :: nat
  im_num_mip_levels :: nat
  im_channel_data_type :: nat
  im_channel_order :: nat
  im_is3d :: bool
  im_fromImage :: bool

record SamplerView =
  sm_snapWaValue :: nat
  sm_addrModeEnum :: nat
  sm_normCoordsEnum :: nat
  sm_isTransformable :: bool

record AcceleratorView =
  ac_isVme :: bool
  ac_mb_block_type :: nat
  ac_subpixel_mode :: nat
  ac_sad_adjust_mode :: nat
  ac_search_path_type :: nat

datatype KObject =
    BufferObject MemObjView
  | ImageObject MemObjView ImageView
  | PipeObject MemObjView
  | SamplerObject SamplerView
  | AcceleratorObject AcceleratorView
  | DeviceQueueObject AllocationView

record SimpleKernelArgInfo =
  sk_type :: kernelArgType
  sk_object :: "nat option"
  sk_value :: "nat option"
  sk_size :: nat
  sk_pSvmAlloc :: "AllocationView option"
  sk_svmAllocObject :: "AllocationView option"
  sk_svmFlags :: nat
  sk_isPatched :: bool
  sk_isUncacheable :: bool

definition SimpleKernelArgInfo_default :: SimpleKernelArgInfo where
  "SimpleKernelArgInfo_default =
     \<lparr>sk_type = NONE_OBJ, sk_object = None, sk_value = None, sk_size = 0, sk_pSvmAlloc = None,
      sk_svmAllocObject = None, sk_svmFlags = 0, sk_isPatched = False, sk_isUncacheable = False\<rparr>"

datatype KernelArgHandler =
    SetArgLocal | SetArgAccelerator | SetArgPipe | SetArgBuffer | SetArgImage | SetArgSampler
  | SetArgDevQueue | SetArgImmediate

text \<open>What a surface state or a sampler state written at an offset of a heap describes.\<close>

datatype HeapState =
    BufferState nat bool bool
  | AddressState nat nat "nat option" nat
  | NullState
  | ImageState nat bool nat
  | MediaImageState nat
  | ImageTo2dArray nat
  | ImageTo3d nat
  | SamplerState nat

record Kernel =
  k_info :: KernelInfo
  k_crossThreadData :: bytes
  k_arguments :: "SimpleKernelArgInfo list"
  k_handlers :: "KernelArgHandler list"
  k_slmSizes :: "nat list"
  k_cacheFlush :: "AllocationView option list"
  k_patchedArgumentsNum :: nat
  k_uncacheableArgsCount :: nat
  k_slmTotalSize :: nat
  k_isBuiltIn :: bool
  k_usingSharedObjArgs :: bool
  k_usingImagesOnly :: bool
  k_allBufferArgsStateful :: bool
  k_auxTranslationRequired :: bool
  k_disableL3 :: bool
  k_svmGfxAllocations :: "AllocationView list"
  k_svmAllocationsRequireCacheFlush :: bool
  k_privateSurface :: "AllocationView option"
  k_image3dArgs :: "nat list"
  k_transformed :: bool
  k_surfaceStates :: "(nat \<times> HeapState) list"
  k_samplerStates :: "(nat \<times> HeapState) list"
  k_samplerRefs :: "nat \<Rightarrow> int"

text \<open>
  The surroundings of a call: the memory of the application, the live objects, the context of the kernel, the
  hardware generation, the two sampler types the compiler's interface names, and the builder of a built-in kernel, whose \<^verbatim>\<open>setExplicitArg\<close> returns whether
  the kernel itself is to be updated and may change the return value.
\<close>

record KernelEnv =
  ke_memory :: "nat \<Rightarrow> u8"
  ke_objects :: "nat \<rightharpoonup> KObject"
  ke_context :: nat
  ke_canTransformImages :: bool
  ke_samplerObjectVme :: nat
  ke_samplerObjectVe :: nat
  ke_setExplicitArg :: "(nat \<Rightarrow> nat \<Rightarrow> nat option \<Rightarrow> bool \<times> int) option"

type_synonym kernel_result = "(int \<times> Kernel) rt_result"

section \<open>Access to objects\<close>

definition appBytes :: "KernelEnv \<Rightarrow> nat \<Rightarrow> nat \<Rightarrow> bytes" where
  "appBytes E a n = map (ke_memory E) [a..<a + n]"

definition readHandle :: "KernelEnv \<Rightarrow> nat \<Rightarrow> nat" where
  "readHandle E a = le_value (appBytes E a 8)"

definition memObjOf :: "KObject \<Rightarrow> MemObjView option" where
  "memObjOf ob = (case ob of BufferObject m \<Rightarrow> Some m | ImageObject m i \<Rightarrow> Some m | PipeObject m \<Rightarrow> Some m | _ \<Rightarrow> None)"

definition castToMemObj :: "KernelEnv \<Rightarrow> nat \<Rightarrow> MemObjView option" where
  "castToMemObj E p = (if p = 0 then None else Option.bind (ke_objects E p) memObjOf)"

definition castToBuffer :: "KernelEnv \<Rightarrow> nat \<Rightarrow> MemObjView option" where
  "castToBuffer E p =
     (if p = 0 then None else case ke_objects E p of Some (BufferObject m) \<Rightarrow> Some m | _ \<Rightarrow> None)"

definition castToImage :: "KernelEnv \<Rightarrow> nat \<Rightarrow> (MemObjView \<times> ImageView) option" where
  "castToImage E p =
     (if p = 0 then None else case ke_objects E p of Some (ImageObject m i) \<Rightarrow> Some (m, i) | _ \<Rightarrow> None)"

definition castToPipe :: "KernelEnv \<Rightarrow> nat \<Rightarrow> MemObjView option" where
  "castToPipe E p = (if p = 0 then None else case ke_objects E p of Some (PipeObject m) \<Rightarrow> Some m | _ \<Rightarrow> None)"

definition castToSampler :: "KernelEnv \<Rightarrow> nat \<Rightarrow> SamplerView option" where
  "castToSampler E p = (if p = 0 then None else case ke_objects E p of Some (SamplerObject s) \<Rightarrow> Some s | _ \<Rightarrow> None)"

definition castToAccelerator :: "KernelEnv \<Rightarrow> nat \<Rightarrow> AcceleratorView option" where
  "castToAccelerator E p =
     (if p = 0 then None else case ke_objects E p of Some (AcceleratorObject a) \<Rightarrow> Some a | _ \<Rightarrow> None)"

definition castToDeviceQueue :: "KernelEnv \<Rightarrow> nat \<Rightarrow> AllocationView option" where
  "castToDeviceQueue E p =
     (if p = 0 then None else case ke_objects E p of Some (DeviceQueueObject q) \<Rightarrow> Some q | _ \<Rightarrow> None)"

section \<open>Patching\<close>

definition patchAt :: "nat \<Rightarrow> bytes \<Rightarrow> Kernel \<Rightarrow> Kernel rt_result" where
  "patchAt off bs k = rt_bind (store off bs (k_crossThreadData k)) (\<lambda>d. Inr (k\<lparr>k_crossThreadData := d\<rparr>))"

text \<open>\<^verbatim>\<open>patch<uint32_t, T>\<close>: nothing is written at an undefined offset.\<close>

definition patch32 :: "nat \<Rightarrow> nat \<Rightarrow> Kernel \<Rightarrow> Kernel rt_result" where
  "patch32 src off k = (if off = undefinedOffset32 then Inr k else patchAt off (le_bytes 4 (wrap32 src)) k)"

definition patchWithRequiredSize :: "nat \<Rightarrow> nat \<Rightarrow> nat \<Rightarrow> Kernel \<Rightarrow> Kernel rt_result" where
  "patchWithRequiredSize off patchSize v k =
     (if patchSize = 8 then patchAt off (le_bytes 8 (wrap64 v)) k else patchAt off (le_bytes 4 (wrap32 v)) k)"

definition firstPatchInfo :: "KernelArgInfo \<Rightarrow> KernelArgPatchInfo rt_result" where
  "firstPatchInfo a = (case ka_kernelArgPatchInfoVector a of [] \<Rightarrow> Inl OutOfBounds | p # _ \<Rightarrow> Inr p)"

definition patchFirst :: "KernelArgInfo \<Rightarrow> nat \<Rightarrow> Kernel \<Rightarrow> Kernel rt_result" where
  "patchFirst a v k =
     rt_bind (firstPatchInfo a) (\<lambda>p. patchWithRequiredSize (kap_crossthreadOffset p) (kap_size p) v k)"

abbreviation argInfo :: "Kernel \<Rightarrow> nat \<Rightarrow> KernelArgInfo" where
  "argInfo k i \<equiv> ki_kernelArgInfo (k_info k) ! i"

definition surfaceState :: "nat \<Rightarrow> HeapState \<Rightarrow> Kernel \<Rightarrow> Kernel" where
  "surfaceState off st k = k\<lparr>k_surfaceStates := k_surfaceStates k @ [(off, st)]\<rparr>"

definition requiresSshForBuffers :: "Kernel \<Rightarrow> bool" where
  "requiresSshForBuffers k = ki_requiresSshForBuffers (k_info k)"

definition updateArgument :: "nat \<Rightarrow> (SimpleKernelArgInfo \<Rightarrow> SimpleKernelArgInfo) \<Rightarrow> Kernel \<Rightarrow> Kernel" where
  "updateArgument i f k = k\<lparr>k_arguments := (k_arguments k)[i := f (k_arguments k ! i)]\<rparr>"

definition storeKernelArg ::
  "nat \<Rightarrow> kernelArgType \<Rightarrow> nat option \<Rightarrow> nat option \<Rightarrow> nat \<Rightarrow> AllocationView option \<Rightarrow> nat \<Rightarrow> Kernel \<Rightarrow> Kernel" where
  "storeKernelArg i type object value sz svmAlloc flags =
     updateArgument i (\<lambda>a. a\<lparr>sk_type := type, sk_object := object, sk_value := value, sk_size := sz,
                            sk_pSvmAlloc := svmAlloc, sk_svmAllocObject := None, sk_svmFlags := flags\<rparr>)"

definition allocationForCacheFlush :: "AllocationView \<Rightarrow> bool" where
  "allocationForCacheFlush a = (av_flushL3Required a \<or> av_writableFlags a)"

definition addAllocationToCacheFlushVector :: "nat \<Rightarrow> AllocationView option \<Rightarrow> Kernel \<Rightarrow> Kernel" where
  "addAllocationToCacheFlushVector i alloc k =
     k\<lparr>k_cacheFlush := (k_cacheFlush k)[i := (case alloc of None \<Rightarrow> None
        | Some a \<Rightarrow> if allocationForCacheFlush a then Some a else None)]\<rparr>"

definition markPatched :: "nat \<Rightarrow> Kernel \<Rightarrow> Kernel" where
  "markPatched i k =
     (if \<not> sk_isPatched (k_arguments k ! i)
      then updateArgument i (\<lambda>a. a\<lparr>sk_isPatched := True\<rparr>) (k\<lparr>k_patchedArgumentsNum := wrap32 (k_patchedArgumentsNum k + 1)\<rparr>)
      else k)"

text \<open>The offset of a pointer in its allocation, patched for kernels that address buffers by base and offset;
  the pointer that remains to be patched is returned. The null pointer is 0.\<close>

definition patchBufferOffset :: "KernelArgInfo \<Rightarrow> nat \<Rightarrow> AllocationView option \<Rightarrow> Kernel \<Rightarrow> (nat \<times> Kernel) rt_result" where
  "patchBufferOffset a svmPtr svmAlloc k =
     (if ka_offsetBufferOffset a = undefinedOffset32 then Inr (svmPtr, k)
      else
        let ptrToPatch = (case svmAlloc of Some v \<Rightarrow> av_gpuAddressToPatch v | None \<Rightarrow> svmPtr);
            ptrToPatch = ptrToPatch - ptrToPatch mod 4;
            offsetToPatch = wrap32 (wrap64 (svmPtr + (2 ^ 64 - ptrToPatch)))
        in rt_bind (patch32 offsetToPatch (ka_offsetBufferOffset a) k) (\<lambda>k. Inr (ptrToPatch, k)))"

section \<open>The handlers of arguments\<close>

definition CL_INVALID_MEM_OBJECT :: int where "CL_INVALID_MEM_OBJECT = - 38"

definition CL_INVALID_SAMPLER :: int where "CL_INVALID_SAMPLER = - 41"

definition CL_INVALID_ARG_INDEX :: int where "CL_INVALID_ARG_INDEX = - 49"

definition CL_INVALID_ARG_VALUE :: int where "CL_INVALID_ARG_VALUE = - 50"

definition CL_INVALID_ARG_SIZE :: int where "CL_INVALID_ARG_SIZE = - 51"

definition CL_INVALID_DEVICE_QUEUE :: int where "CL_INVALID_DEVICE_QUEUE = - 70"

text \<open>Local arguments carry a size only; every local argument behind the one set is moved.\<close>

definition alignUp32 :: "nat \<Rightarrow> nat \<Rightarrow> nat" where
  "alignUp32 x alignment = unat (((word_of_nat x :: u32) + word_of_nat (alignment - 1)) AND NOT (word_of_nat (alignment - 1)))"

fun slmLoop :: "nat list \<Rightarrow> nat \<Rightarrow> Kernel \<Rightarrow> (nat \<times> Kernel) rt_result" where
  "slmLoop [] slmOffset k = Inr (slmOffset, k)"
| "slmLoop (i # is) slmOffset k =
     (let a = argInfo k i;
          slmAlignment = ka_slmAlignment a
      in if slmAlignment \<noteq> 0
         then let slmOffset = alignUp32 slmOffset slmAlignment
              in rt_bind (firstPatchInfo a) (\<lambda>p.
                 rt_bind (patchAt (kap_crossthreadOffset p) (le_bytes 4 slmOffset) k) (\<lambda>k.
                 slmLoop is (wrap32 (slmOffset + wrap32 (k_slmSizes k ! i))) k))
         else slmLoop is (wrap32 (slmOffset + wrap32 (k_slmSizes k ! i))) k)"

definition setArgLocal :: "nat \<Rightarrow> nat \<Rightarrow> nat option \<Rightarrow> Kernel \<Rightarrow> kernel_result" where
  "setArgLocal i argSize argVal k =
     (let k = storeKernelArg i SLM_OBJ None argVal argSize None 0 k;
          k = k\<lparr>k_slmSizes := (k_slmSizes k)[i := argSize]\<rparr>
      in rt_bind (firstPatchInfo (argInfo k i)) (\<lambda>p.
         rt_bind (loadField 0 (k_crossThreadData k) (kap_crossthreadOffset p) 4) (\<lambda>slmOffset.
         rt_bind (slmLoop [i + 1..<length (k_slmSizes k)] (wrap32 (slmOffset + wrap32 argSize)) k) (\<lambda>(slmOffset, k).
         Inr (CL_SUCCESS, k\<lparr>k_slmTotalSize :=
           wrap32 (wl_slmStaticSize (ki_workloadInfo (k_info k)) + alignUp32 slmOffset 1024)\<rparr>)))))"

definition setArgBuffer :: "KernelEnv \<Rightarrow> nat \<Rightarrow> nat \<Rightarrow> nat option \<Rightarrow> Kernel \<Rightarrow> kernel_result" where
  "setArgBuffer E i argSize argVal k =
     (if argSize \<noteq> 8 then Inr (CL_INVALID_ARG_SIZE, k)
      else
        let a = argInfo k i;
            clMem = (case argVal of None \<Rightarrow> 0 | Some p \<Rightarrow> readHandle E p)
        in rt_bind (patchBufferOffset a 0 None k) (\<lambda>(_, k).
           if clMem \<noteq> 0 then
             let k = storeKernelArg i BUFFER_OBJ (Some clMem) argVal argSize None 0 k
             in case castToBuffer E clMem of
                  None \<Rightarrow> Inr (CL_INVALID_MEM_OBJECT, k)
                | Some buffer \<Rightarrow>
                    let k = (if mo_sharingHandler buffer then k\<lparr>k_usingSharedObjArgs := True\<rparr> else k);
                        alloc = mo_allocation buffer;
                        address = (if \<not> k_isBuiltIn k then av_gpuAddressToPatch alloc else av_gpuAddress alloc) + mo_offset buffer;
                        forceNonAuxMode = av_compressed alloc \<and> \<not> ka_pureStatefulBufferAccess a
                    in rt_bind (patchFirst a address k) (\<lambda>k.
                       let k = (if requiresSshForBuffers k
                                then updateArgument i (\<lambda>x. x\<lparr>sk_isUncacheable := mo_uncacheable buffer\<rparr>)
                                       (surfaceState (ka_offsetHeap a) (BufferState clMem forceNonAuxMode (k_disableL3 k)) k)
                                else k)
                       in Inr (CL_SUCCESS, addAllocationToCacheFlushVector i (Some alloc) k))
           else
             rt_bind (patchFirst a 0 k) (\<lambda>k.
             let k = storeKernelArg i BUFFER_OBJ None argVal argSize None 0 k
             in Inr (CL_SUCCESS, if requiresSshForBuffers k then surfaceState (ka_offsetHeap a) NullState k else k))))"

definition setArgPipe :: "KernelEnv \<Rightarrow> nat \<Rightarrow> nat \<Rightarrow> nat option \<Rightarrow> Kernel \<Rightarrow> kernel_result" where
  "setArgPipe E i argSize argVal k =
     (if argSize \<noteq> 8 then Inr (CL_INVALID_ARG_SIZE, k)
      else
        let a = argInfo k i;
            clMem = (case argVal of None \<Rightarrow> 0 | Some p \<Rightarrow> readHandle E p)
        in if clMem = 0 then Inr (CL_INVALID_MEM_OBJECT, k)
           else
             let k = storeKernelArg i PIPE_OBJ (Some clMem) argVal argSize None 0 k
             in case castToMemObj E clMem of
                  None \<Rightarrow> Inr (CL_INVALID_MEM_OBJECT, k)
                | Some memObj \<Rightarrow>
                   (case castToPipe E clMem of
                      None \<Rightarrow> Inr (CL_INVALID_ARG_VALUE, k)
                    | Some pipe \<Rightarrow>
                        if mo_context memObj \<noteq> ke_context E then Inr (CL_INVALID_MEM_OBJECT, k)
                        else rt_bind (patchFirst a (mo_cpuAddress pipe) k) (\<lambda>k.
                             Inr (CL_SUCCESS,
                               if requiresSshForBuffers k
                               then surfaceState (ka_offsetHeap a)
                                      (AddressState (mo_size pipe) (mo_cpuAddress pipe) (Some (av_id (mo_allocation pipe))) 0) k
                               else k))))"

definition registerImage3d :: "nat \<Rightarrow> Kernel \<Rightarrow> Kernel" where
  "registerImage3d i k = (if i \<in> set (k_image3dArgs k) then k else k\<lparr>k_image3dArgs := k_image3dArgs k @ [i]\<rparr>)"

fun patchAll :: "(nat \<times> nat) list \<Rightarrow> Kernel \<Rightarrow> Kernel rt_result" where
  "patchAll [] k = Inr k"
| "patchAll ((v, off) # ps) k = rt_bind (patch32 v off k) (patchAll ps)"

definition setArgImageWithMipLevel :: "KernelEnv \<Rightarrow> nat \<Rightarrow> nat \<Rightarrow> nat option \<Rightarrow> nat \<Rightarrow> Kernel \<Rightarrow> kernel_result" where
  "setArgImageWithMipLevel E i argSize argVal mipLevel k =
     (let a = argInfo k i in
      rt_bind (patchBufferOffset a 0 None k) (\<lambda>(_, k).
      case argVal of
        None \<Rightarrow> Inl NullDereference
      | Some p \<Rightarrow>
          let clMem = readHandle E p in
          case castToImage E clMem of
            None \<Rightarrow> Inr (CL_INVALID_ARG_VALUE, k)
          | Some (m, im) \<Rightarrow>
              if argSize \<noteq> 8 then Inr (CL_INVALID_ARG_VALUE, k)
              else
                let k = (if mo_sharingHandler m then k\<lparr>k_usingSharedObjArgs := True\<rparr> else k);
                    k = storeKernelArg i IMAGE_OBJ (Some clMem) argVal argSize None 0 k;
                    k = surfaceState (ka_offsetHeap a)
                          (if ka_isMediaImage a then MediaImageState clMem
                           else ImageState clMem (ka_isMediaBlockImage a) mipLevel) k;
                    k = (if im_is3d im then registerImage3d i k else k)
                in rt_bind (patchAll
                     [(im_width im, ka_offsetImgWidth a), (im_height im, ka_offsetImgHeight a),
                      (im_depth im, ka_offsetImgDepth a), (im_num_samples im, ka_offsetNumSamples a),
                      (im_array_size im, ka_offsetArraySize a),
                      (im_channel_data_type im, ka_offsetChannelDataType a),
                      (im_channel_order im, ka_offsetChannelOrder a),
                      (ka_offsetHeap a, ka_offsetObjectId a),
                      (im_num_mip_levels im, ka_offsetNumMipLevels a)] k) (\<lambda>k.
                   Inr (CL_SUCCESS, addAllocationToCacheFlushVector i (Some (mo_allocation m)) k))))"

definition setArgImage :: "KernelEnv \<Rightarrow> nat \<Rightarrow> nat \<Rightarrow> nat option \<Rightarrow> Kernel \<Rightarrow> kernel_result" where
  "setArgImage E i argSize argVal k = setArgImageWithMipLevel E i argSize argVal 0 k"

text \<open>The bytes of the value, from an offset on: those of the application, or those of a pointer held by the
  runtime itself.\<close>

type_synonym byte_source = "nat \<Rightarrow> nat \<Rightarrow> bytes"

fun immediateLoop :: "byte_source \<Rightarrow> nat \<Rightarrow> KernelArgPatchInfo list \<Rightarrow> Kernel \<Rightarrow> Kernel rt_result" where
  "immediateLoop src argSize [] k = Inr k"
| "immediateLoop src argSize (p # ps) k =
     (if kap_sourceOffset p < argSize
      then rt_bind (patchAt (kap_crossthreadOffset p)
                     (src (kap_sourceOffset p) (min (kap_size p) (argSize - kap_sourceOffset p))) k)
             (immediateLoop src argSize ps)
      else immediateLoop src argSize ps k)"

definition storeImmediate :: "byte_source \<Rightarrow> nat \<Rightarrow> nat \<Rightarrow> Kernel \<Rightarrow> kernel_result" where
  "storeImmediate src i argSize k =
     (let k = storeKernelArg i NONE_OBJ None None argSize None 0 k
      in rt_bind (immediateLoop src argSize (ka_kernelArgPatchInfoVector (argInfo k i)) k) (\<lambda>k. Inr (CL_SUCCESS, k)))"

definition setArgImmediate :: "KernelEnv \<Rightarrow> nat \<Rightarrow> nat \<Rightarrow> nat option \<Rightarrow> Kernel \<Rightarrow> kernel_result" where
  "setArgImmediate E i argSize argVal k =
     (case argVal of
        None \<Rightarrow> Inr (CL_INVALID_ARG_VALUE, k)
      | Some p \<Rightarrow> storeImmediate (\<lambda>off. appBytes E (p + off)) i argSize k)"

text \<open>Only the internal references the kernel takes and gives back are counted, per sampler.\<close>

definition SAMPLER_OBJECT_ID_SHIFT :: nat where "SAMPLER_OBJECT_ID_SHIFT = 253 * 64"

definition samplerRef :: "nat \<Rightarrow> int \<Rightarrow> Kernel \<Rightarrow> Kernel" where
  "samplerRef s d k = k\<lparr>k_samplerRefs := (k_samplerRefs k)(s := k_samplerRefs k s + d)\<rparr>"

definition setArgSampler :: "KernelEnv \<Rightarrow> nat \<Rightarrow> nat \<Rightarrow> nat option \<Rightarrow> Kernel \<Rightarrow> kernel_result" where
  "setArgSampler E i argSize argVal k =
     (case argVal of
        None \<Rightarrow> Inr (CL_INVALID_SAMPLER, k)
      | Some p \<Rightarrow>
          let clSampler = readHandle E p;
              pSampler = castToSampler E clSampler;
              k = (if pSampler \<noteq> None then samplerRef clSampler 1 k else k)
          in rt_bind (case sk_object (k_arguments k ! i) of
                        None \<Rightarrow> Inr k
                      | Some old \<Rightarrow> unrecoverable_if (castToSampler E old = None) (Inr (samplerRef old (- 1) k))) (\<lambda>k.
             case pSampler of
               None \<Rightarrow> Inr (CL_INVALID_SAMPLER, k)
             | Some sampler \<Rightarrow>
                 if argSize \<noteq> 8 then Inr (CL_INVALID_SAMPLER, k)
                 else
                   let a = argInfo k i;
                       k = storeKernelArg i SAMPLER_OBJ (Some clSampler) argVal argSize None 0 k;
                       k = k\<lparr>k_samplerStates := k_samplerStates k @ [(ka_offsetHeap a, SamplerState clSampler)]\<rparr>
                   in rt_bind (patchAll
                        [(sm_snapWaValue sampler, ka_offsetSamplerSnapWa a),
                         (sm_addrModeEnum sampler, ka_offsetSamplerAddressingMode a),
                         (sm_normCoordsEnum sampler, ka_offsetSamplerNormalizedCoords a),
                         (SAMPLER_OBJECT_ID_SHIFT + ka_offsetHeap a, ka_offsetObjectId a)] k) (\<lambda>k. Inr (CL_SUCCESS, k))))"

fun patchUnchecked :: "(nat \<times> nat) list \<Rightarrow> Kernel \<Rightarrow> Kernel rt_result" where
  "patchUnchecked [] k = Inr k"
| "patchUnchecked ((v, off) # ps) k = rt_bind (patchAt off (le_bytes 4 (wrap32 v)) k) (patchUnchecked ps)"

definition setArgAccelerator :: "KernelEnv \<Rightarrow> nat \<Rightarrow> nat \<Rightarrow> nat option \<Rightarrow> Kernel \<Rightarrow> kernel_result" where
  "setArgAccelerator E i argSize argVal k =
     (if argSize \<noteq> 8 then Inr (CL_INVALID_ARG_SIZE, k)
      else case argVal of
        None \<Rightarrow> Inr (CL_INVALID_ARG_VALUE, k)
      | Some p \<Rightarrow>
          let clAccelerator = readHandle E p in
          case castToAccelerator E clAccelerator of
            None \<Rightarrow> Inr (CL_INVALID_ARG_VALUE, k)
          | Some acc \<Rightarrow>
              let k = storeKernelArg i ACCELERATOR_OBJ (Some clAccelerator) argVal argSize None 0 k;
                  a = argInfo k i
              in if ka_samplerArgumentType a = ke_samplerObjectVme E
                 then unrecoverable_if (\<not> ac_isVme acc)
                        (rt_bind (patchUnchecked
                           [(ac_mb_block_type acc, ka_offsetVmeMbBlockType a), (ac_subpixel_mode acc, ka_offsetVmeSubpixelMode a),
                            (ac_sad_adjust_mode acc, ka_offsetVmeSadAdjustMode a),
                            (ac_search_path_type acc, ka_offsetVmeSearchPathType a)] k) (\<lambda>k. Inr (CL_SUCCESS, k)))
                 else if ka_samplerArgumentType a = ke_samplerObjectVe E then Inr (CL_SUCCESS, k)
                 else Inr (CL_INVALID_ARG_VALUE, k))"

definition setArgDevQueue :: "KernelEnv \<Rightarrow> nat \<Rightarrow> nat \<Rightarrow> nat option \<Rightarrow> Kernel \<Rightarrow> kernel_result" where
  "setArgDevQueue E i argSize argVal k =
     (case argVal of
        None \<Rightarrow> Inr (CL_INVALID_ARG_VALUE, k)
      | Some p \<Rightarrow>
          if argSize \<noteq> 8 then Inr (CL_INVALID_ARG_SIZE, k)
          else
            let clQueue = readHandle E p in
            case castToDeviceQueue E clQueue of
              None \<Rightarrow> Inr (CL_INVALID_DEVICE_QUEUE, k)
            | Some q \<Rightarrow>
                let k = storeKernelArg i DEVICE_QUEUE_OBJ (Some clQueue) argVal argSize None 0 k
                in rt_bind (patchFirst (argInfo k i) (av_gpuAddressToPatch q) k) (\<lambda>k. Inr (CL_SUCCESS, k)))"

section \<open>Setting an argument\<close>

fun callHandler :: "KernelArgHandler \<Rightarrow> KernelEnv \<Rightarrow> nat \<Rightarrow> nat \<Rightarrow> nat option \<Rightarrow> Kernel \<Rightarrow> kernel_result" where
  "callHandler SetArgLocal E i argSize argVal k = setArgLocal i argSize argVal k"
| "callHandler SetArgAccelerator E i argSize argVal k = setArgAccelerator E i argSize argVal k"
| "callHandler SetArgPipe E i argSize argVal k = setArgPipe E i argSize argVal k"
| "callHandler SetArgBuffer E i argSize argVal k = setArgBuffer E i argSize argVal k"
| "callHandler SetArgImage E i argSize argVal k = setArgImage E i argSize argVal k"
| "callHandler SetArgSampler E i argSize argVal k = setArgSampler E i argSize argVal k"
| "callHandler SetArgDevQueue E i argSize argVal k = setArgDevQueue E i argSize argVal k"
| "callHandler SetArgImmediate E i argSize argVal k = setArgImmediate E i argSize argVal k"

definition isPatched :: "Kernel \<Rightarrow> bool" where
  "isPatched k = (k_patchedArgumentsNum k = ki_argumentsToPatchNum (k_info k))"

text \<open>\<^verbatim>\<open>ImageTransformer\<close>: the surface states of the three-dimensional images are rewritten.\<close>

fun transformLoop :: "KernelEnv \<Rightarrow> (nat \<Rightarrow> HeapState) \<Rightarrow> (KernelArgInfo \<Rightarrow> bool) \<Rightarrow> nat list \<Rightarrow> Kernel \<Rightarrow> Kernel rt_result" where
  "transformLoop E st sel [] k = Inr k"
| "transformLoop E st sel (i # is) k =
     (if sel (argInfo k i)
      then case sk_object (k_arguments k ! i) of
             None \<Rightarrow> Inl Unrecoverable
           | Some p \<Rightarrow> unrecoverable_if (castToImage E p = None)
               (transformLoop E st sel is (surfaceState (ka_offsetHeap (argInfo k i)) (st p) k))
      else transformLoop E st sel is k)"

definition transformImagesTo2dArray :: "KernelEnv \<Rightarrow> Kernel \<Rightarrow> Kernel rt_result" where
  "transformImagesTo2dArray E k =
     rt_bind (transformLoop E ImageTo2dArray ka_isTransformable (k_image3dArgs k) k) (\<lambda>k. Inr (k\<lparr>k_transformed := True\<rparr>))"

definition transformImagesTo3d :: "KernelEnv \<Rightarrow> Kernel \<Rightarrow> Kernel rt_result" where
  "transformImagesTo3d E k =
     rt_bind (transformLoop E ImageTo3d (\<lambda>_. True) (k_image3dArgs k) k) (\<lambda>k. Inr (k\<lparr>k_transformed := False\<rparr>))"

text \<open>The search for a sampler that cannot be transformed, among the first arguments, as many as are patched;
  \<^verbatim>\<open>at\<close> throws behind the end, and a sampler that was not set is a null pointer.\<close>

fun samplersTransformable :: "KernelEnv \<Rightarrow> nat list \<Rightarrow> Kernel \<Rightarrow> bool rt_result" where
  "samplersTransformable E [] k = Inr True"
| "samplersTransformable E (i # is) k =
     (if i \<ge> length (ki_kernelArgInfo (k_info k)) then Inl Thrown
      else if ka_isSampler (argInfo k i) then
        (case Option.bind (sk_object (k_arguments k ! i)) (castToSampler E) of
           None \<Rightarrow> Inl NullDereference
         | Some s \<Rightarrow> if sm_isTransformable s then samplersTransformable E is k else Inr False)
      else samplersTransformable E is k)"

definition resolveKernelArgs :: "KernelEnv \<Rightarrow> Kernel \<Rightarrow> Kernel rt_result" where
  "resolveKernelArgs E k =
     (if \<not> isPatched k \<or> k_image3dArgs k = [] \<or> \<not> ke_canTransformImages E then Inr k
      else rt_bind (samplersTransformable E [0..<k_patchedArgumentsNum k] k) (\<lambda>can.
           if can then transformImagesTo2dArray E k
           else if k_transformed k then transformImagesTo3d E k
           else Inr k))"

definition flagValue :: "bool \<Rightarrow> nat" where
  "flagValue b = (if b then 1 else 0)"

text \<open>What \<^verbatim>\<open>setArg\<close> does with the return value of the handler.\<close>

definition finishSetArg :: "KernelEnv \<Rightarrow> nat \<Rightarrow> bool \<Rightarrow> int \<Rightarrow> Kernel \<Rightarrow> kernel_result" where
  "finishSetArg E i argWasUncacheable retVal k =
     (if retVal \<noteq> CL_SUCCESS then Inr (retVal, k)
      else if i \<ge> length (k_arguments k) then Inl OutOfBounds
      else
        let k = markPatched i k;
            k = k\<lparr>k_uncacheableArgsCount := wrap32 (k_uncacheableArgsCount k +
                  flagValue (sk_isUncacheable (k_arguments k ! i)) + (2 ^ 32 - flagValue argWasUncacheable))\<rparr>
        in rt_bind (resolveKernelArgs E k) (\<lambda>k. Inr (retVal, k)))"

definition setArg :: "KernelEnv \<Rightarrow> nat \<Rightarrow> nat \<Rightarrow> nat option \<Rightarrow> Kernel \<Rightarrow> kernel_result" where
  "setArg E i argSize argVal k =
     (let (updateExposedKernel, retVal) =
            (case ke_setExplicitArg E of None \<Rightarrow> (True, CL_SUCCESS) | Some f \<Rightarrow> f i argSize argVal)
      in if updateExposedKernel then
           if i \<ge> length (k_handlers k) then Inr (CL_INVALID_ARG_INDEX, k)
           else
             let argWasUncacheable = sk_isUncacheable (k_arguments k ! i)
             in rt_bind (callHandler (k_handlers k ! i) E i argSize argVal k) (\<lambda>(retVal, k).
                finishSetArg E i argWasUncacheable retVal k)
         else finishSetArg E i False retVal k)"

definition setArgSvm :: "nat \<Rightarrow> nat \<Rightarrow> nat \<Rightarrow> AllocationView option \<Rightarrow> nat \<Rightarrow> Kernel \<Rightarrow> kernel_result" where
  "setArgSvm i svmAllocSize svmPtr svmAlloc svmFlags k =
     (let a = argInfo k i in
      rt_bind (patchBufferOffset a svmPtr svmAlloc k) (\<lambda>(ptrToPatch, k).
      rt_bind (storeImmediate (\<lambda>off n. take n (drop off (le_bytes 8 svmPtr))) i 8 k) (\<lambda>(_, k).
      let k = storeKernelArg i SVM_OBJ None (Some svmPtr) 8 svmAlloc svmFlags k;
          k = (if requiresSshForBuffers k
               then surfaceState (ka_offsetHeap a)
                      (AddressState (wrap64 (svmAllocSize + wrap64 (svmPtr + (2 ^ 64 - ptrToPatch)))) ptrToPatch
                        (map_option av_id svmAlloc) svmFlags) k
               else k);
          k = markPatched i k
      in Inr (CL_SUCCESS, addAllocationToCacheFlushVector i svmAlloc k))))"

definition setArgSvmAlloc :: "nat \<Rightarrow> nat \<Rightarrow> AllocationView option \<Rightarrow> Kernel \<Rightarrow> kernel_result" where
  "setArgSvmAlloc i svmPtr svmAlloc k =
     (let a = argInfo k i;
          k = storeKernelArg i SVM_ALLOC_OBJ (map_option av_id svmAlloc) (Some svmPtr) 8 None 0 k;
          k = updateArgument i (\<lambda>x. x\<lparr>sk_svmAllocObject := svmAlloc\<rparr>) k
      in rt_bind (patchBufferOffset a svmPtr svmAlloc k) (\<lambda>(ptrToPatch, k).
         rt_bind (patchFirst a svmPtr k) (\<lambda>k.
         let allocSize = (case svmAlloc of None \<Rightarrow> 0
               | Some v \<Rightarrow> wrap64 (av_size v + (2 ^ 64 - wrap64 (ptrToPatch + (2 ^ 64 - av_gpuAddressToPatch v)))));
             k = (if requiresSshForBuffers k then surfaceState (ka_offsetHeap a) (AddressState allocSize ptrToPatch None 0) k else k);
             k = markPatched i k
         in Inr (CL_SUCCESS, addAllocationToCacheFlushVector i svmAlloc k))))"

definition unsetArg :: "nat \<Rightarrow> Kernel \<Rightarrow> Kernel" where
  "unsetArg i k =
     (if sk_isPatched (k_arguments k ! i) then
        let k = updateArgument i (\<lambda>a. a\<lparr>sk_isPatched := False\<rparr>)
                  (k\<lparr>k_patchedArgumentsNum := wrap32 (k_patchedArgumentsNum k + (2 ^ 32 - 1))\<rparr>)
        in if sk_isUncacheable (k_arguments k ! i)
           then updateArgument i (\<lambda>a. a\<lparr>sk_isUncacheable := False\<rparr>)
                  (k\<lparr>k_uncacheableArgsCount := wrap32 (k_uncacheableArgsCount k + (2 ^ 32 - 1))\<rparr>)
           else k
      else k)"

definition checkCorrectImageAccessQualifier :: "KernelEnv \<Rightarrow> nat \<Rightarrow> nat option \<Rightarrow> Kernel \<Rightarrow> int rt_result" where
  "checkCorrectImageAccessQualifier E i argVal k =
     (if ka_isImage (argInfo k i) then
        (case argVal of
           None \<Rightarrow> Inl NullDereference
         | Some p \<Rightarrow>
             (case castToMemObj E (readHandle E p) of
                None \<Rightarrow> Inr CL_INVALID_ARG_VALUE
              | Some m \<Rightarrow>
                  Inr (if ka_accessQualifier (argInfo k i) = CL_KERNEL_ARG_ACCESS_READ_ONLY \<and> mo_writeOnly m \<or>
                          ka_accessQualifier (argInfo k i) = CL_KERNEL_ARG_ACCESS_WRITE_ONLY \<and> mo_readOnly m
                       then CL_INVALID_ARG_VALUE else CL_SUCCESS)))
      else Inr CL_SUCCESS)"

definition clSetKernelArg :: "KernelEnv \<Rightarrow> nat \<Rightarrow> nat \<Rightarrow> nat option \<Rightarrow> Kernel option \<Rightarrow> (int \<times> Kernel option) rt_result" where
  "clSetKernelArg E i argSize argValue pKernel =
     (case pKernel of
        None \<Rightarrow> Inr (CL_INVALID_KERNEL, None)
      | Some k \<Rightarrow>
          if length (ki_kernelArgInfo (k_info k)) \<le> i then Inr (CL_INVALID_ARG_INDEX, Some k)
          else rt_bind (checkCorrectImageAccessQualifier E i argValue k) (\<lambda>retVal.
               if retVal \<noteq> CL_SUCCESS then Inr (retVal, Some (unsetArg i k))
               else rt_bind (setArg E i argSize argValue k) (\<lambda>(retVal, k). Inr (retVal, Some k))))"

text \<open>The arguments of shared objects are set again; the handle is passed by the address of a local variable of
  the loop, given here by its address.\<close>

definition withHandle :: "nat \<Rightarrow> nat \<Rightarrow> KernelEnv \<Rightarrow> KernelEnv" where
  "withHandle slot h E = E\<lparr>ke_memory := (\<lambda>a. if slot \<le> a \<and> a < slot + 8 then le_bytes 8 h ! (a - slot) else ke_memory E a)\<rparr>"

fun resetSharedLoop :: "KernelEnv \<Rightarrow> nat \<Rightarrow> nat list \<Rightarrow> Kernel \<Rightarrow> Kernel rt_result" where
  "resetSharedLoop E slot [] k = Inr k"
| "resetSharedLoop E slot (i # is) k =
     (case sk_object (k_arguments k ! i) of
        Some p \<Rightarrow>
          (case castToMemObj E p of
             Some m \<Rightarrow>
               if mo_sharingHandler m
               then rt_bind (setArg (withHandle slot p E) i 8 (Some slot) k) (\<lambda>(_, k). resetSharedLoop E slot is k)
               else resetSharedLoop E slot is k
           | None \<Rightarrow> resetSharedLoop E slot is k)
      | None \<Rightarrow> resetSharedLoop E slot is k)"

definition resetSharedObjectsPatchAddresses :: "KernelEnv \<Rightarrow> nat \<Rightarrow> Kernel \<Rightarrow> Kernel rt_result" where
  "resetSharedObjectsPatchAddresses E slot k =
     resetSharedLoop E slot [0..<length (ki_kernelArgInfo (k_info k))] k"

definition setKernelExecInfo :: "AllocationView \<Rightarrow> Kernel \<Rightarrow> Kernel" where
  "setKernelExecInfo a k =
     k\<lparr>k_svmGfxAllocations := k_svmGfxAllocations k @ [a],
       k_svmAllocationsRequireCacheFlush := k_svmAllocationsRequireCacheFlush k \<or> allocationForCacheFlush a\<rparr>"

definition clearKernelExecInfo :: "Kernel \<Rightarrow> Kernel" where
  "clearKernelExecInfo k = k\<lparr>k_svmGfxAllocations := [], k_svmAllocationsRequireCacheFlush := False\<rparr>"

end
