(* ===== verification/Kernel_Lifecycle.thy ===== *)
theory Kernel_Lifecycle
  imports Kernel_Arguments
begin

text \<open>
  Creation, clone and destruction of a kernel object, and the allocations it needs on the GPU
  (\<^verbatim>\<open>initialize\<close>, \<^verbatim>\<open>cloneKernel\<close>, the destructor, \<^verbatim>\<open>makeResident\<close> and \<^verbatim>\<open>getResidency\<close> of \<^verbatim>\<open>kernel/kernel.cpp\<close>).
\<close>

section \<open>Creation\<close>

text \<open>What the kernel takes from its program and its device. \<open>pv_surfaceStateHeapSize\<close> is that of the kernel's
  header; \<open>pv_allocate\<close> is the memory manager.\<close>

record ProgramView =
  pv_constantSurface :: "AllocationView option"
  pv_globalSurface :: "AllocationView option"
  pv_kernelAllocation :: "AllocationView option"
  pv_blocks :: "KernelInfo list"
  pv_surfaceStateHeapSize :: nat
  pv_maxWorkGroupSize :: nat
  pv_computeUnitsUsedForScratch :: nat
  pv_force32BitAllocations :: bool
  pv_allocate :: "nat \<Rightarrow> AllocationView option"
  pv_renderCompressedBuffers :: bool
  pv_cacheFlushAfterWalker :: bool

definition CL_OUT_OF_RESOURCES :: int where "CL_OUT_OF_RESOURCES = - 5"

definition Kernel_ctor :: "KernelInfo \<Rightarrow> Kernel" where
  "Kernel_ctor info =
     \<lparr>k_info = info, k_crossThreadData = [], k_arguments = [], k_handlers = [], k_slmSizes = [], k_cacheFlush = [],
      k_patchedArgumentsNum = 0, k_uncacheableArgsCount = 0, k_slmTotalSize = wl_slmStaticSize (ki_workloadInfo info),
      k_isBuiltIn = False, k_usingSharedObjArgs = False, k_usingImagesOnly = False, k_allBufferArgsStateful = True,
      k_auxTranslationRequired = False, k_disableL3 = False, k_svmGfxAllocations = [],
      k_svmAllocationsRequireCacheFlush = False, k_privateSurface = None, k_image3dArgs = [], k_transformed = False,
      k_surfaceStates = [], k_samplerStates = [], k_samplerRefs = (\<lambda>_. 0)\<rparr>"

text \<open>The kernel's own cross thread data, with the values that do not depend on a dispatch. A location that the
  workload information leaves undefined is the dummy location of the class.\<close>

definition initCrossThreadData :: "ProgramView \<Rightarrow> Kernel \<Rightarrow> Kernel rt_result" where
  "initCrossThreadData P k =
     (let info = k_info k;
          size = (case pi_dataParameterStream (ki_patchInfo info) of Some n \<Rightarrow> n | None \<Rightarrow> 0);
          w = ki_workloadInfo info
      in if size = 0 then Inr k
         else
           let k = k\<lparr>k_crossThreadData := (case ki_crossThreadData info of Some d \<Rightarrow> d | None \<Rightarrow> replicate size 0)\<rparr>
           in patchAll [(pv_maxWorkGroupSize P, wl_maxWorkGroupSizeOffset w),
                        (getMaxSimdSize info, wl_simdSizeOffset w),
                        (getMaxSimdSize info, wl_prefferedWkgMultipleOffset w),
                        (undefinedOffset32, wl_parentEventOffset w)] k)"

definition patchWithImplicitSurface :: "ProgramView \<Rightarrow> nat \<Rightarrow> AllocationView \<Rightarrow> SurfaceToken \<Rightarrow> Kernel \<Rightarrow> Kernel rt_result" where
  "patchWithImplicitSurface P ptrToPatch allocation t k =
     (let ssh = ki_usesSsh (k_info k) \<and> pv_surfaceStateHeapSize P \<noteq> 0
      in rt_bind (if k_crossThreadData k \<noteq> [] then patchWithRequiredSize (st_DataParamOffset t) (st_DataParamSize t) ptrToPatch k
                  else Inr k) (\<lambda>k.
         Inr (if ssh then surfaceState (st_SurfaceStateHeapOffset t)
                (AddressState (av_size allocation) (av_underlyingBuffer allocation) (Some (av_id allocation)) 0) k
              else k)))"

definition privateSurfaceSize :: "ProgramView \<Rightarrow> KernelInfo \<Rightarrow> nat" where
  "privateSurfaceSize P info =
     (case pi_pAllocateStatelessPrivateSurface (ki_patchInfo info) of None \<Rightarrow> 0
      | Some t \<Rightarrow> wrap64 (st_PerThreadSize t * wrap32 (pv_computeUnitsUsedForScratch P * getMaxSimdSize info)))"

text \<open>The private surface; \<open>None\<close> when the kernel cannot be created.\<close>

definition initPrivateSurface :: "ProgramView \<Rightarrow> Kernel \<Rightarrow> Kernel option rt_result" where
  "initPrivateSurface P k =
     (case pi_pAllocateStatelessPrivateSurface (ki_patchInfo (k_info k)) of
        None \<Rightarrow> Inr (Some k)
      | Some t \<Rightarrow>
          if st_PerThreadSize t = 0 then Inr (Some k)
          else
            let n = privateSurfaceSize P (k_info k)
            in if (ki_gpuPointerSize (k_info k) = 4 \<or> pv_force32BitAllocations P) \<and> n > 2 ^ 32 - 1 then Inr None
               else case pv_allocate P n of
                      None \<Rightarrow> Inr None
                    | Some a \<Rightarrow> rt_bind (patchWithImplicitSurface P (av_gpuAddressToPatch a) a t (k\<lparr>k_privateSurface := Some a\<rparr>))
                                  (\<lambda>k. Inr (Some k)))"

definition initProgramSurface :: "ProgramView \<Rightarrow> AllocationView option \<Rightarrow> SurfaceToken option \<Rightarrow> Kernel \<Rightarrow> Kernel rt_result" where
  "initProgramSurface P surface token k =
     (case token of
        None \<Rightarrow> Inr k
      | Some t \<Rightarrow>
          (case surface of
             None \<Rightarrow> Inl NullDereference
           | Some a \<Rightarrow> patchWithImplicitSurface P (if k_isBuiltIn k then av_underlyingBuffer a else av_gpuAddressToPatch a) a t k))"

definition initNullSurface :: "SurfaceToken option \<Rightarrow> Kernel \<Rightarrow> Kernel" where
  "initNullSurface token k =
     (case token of None \<Rightarrow> k
      | Some t \<Rightarrow> if requiresSshForBuffers k then surfaceState (st_SurfaceStateHeapOffset t) NullState k else k)"

fun patchBlocksSimdSize :: "ProgramView \<Rightarrow> (nat \<times> nat) list \<Rightarrow> Kernel \<Rightarrow> Kernel rt_result" where
  "patchBlocksSimdSize P [] k = Inr k"
| "patchBlocksSimdSize P ((block, off) # cs) k =
     (if block \<ge> length (pv_blocks P) then Inl OutOfBounds
      else rt_bind (patchAt off (le_bytes 4 (getMaxSimdSize (pv_blocks P ! block))) k) (patchBlocksSimdSize P cs))"

definition argHandler :: "KernelArgInfo \<Rightarrow> KernelArgHandler \<times> kernelArgType" where
  "argHandler a =
     (if ka_addressQualifier a = CL_KERNEL_ARG_ADDRESS_LOCAL then (SetArgLocal, NONE_OBJ)
      else if ka_isAccelerator a then (SetArgAccelerator, NONE_OBJ)
      else if findString ''pipe'' (ka_typeQualifierStr a) \<noteq> None then (SetArgPipe, PIPE_OBJ)
      else if findString ''*'' (ka_typeStr a) \<noteq> None \<or> ka_isBuffer a then (SetArgBuffer, BUFFER_OBJ)
      else if ka_isImage a then (SetArgImage, IMAGE_OBJ)
      else if ka_isSampler a then (SetArgSampler, SAMPLER_OBJ)
      else if ka_isDeviceQueue a then (SetArgDevQueue, DEVICE_QUEUE_OBJ)
      else (SetArgImmediate, NONE_OBJ))"

definition initArguments :: "ProgramView \<Rightarrow> Kernel \<Rightarrow> Kernel" where
  "initArguments P k =
     (let args = ki_kernelArgInfo (k_info k);
          buffers = filter (\<lambda>a. fst (argHandler a) = SetArgBuffer) args;
          images = filter (\<lambda>a. fst (argHandler a) = SetArgImage) args
      in k\<lparr>k_arguments := map (\<lambda>a. SimpleKernelArgInfo_default\<lparr>sk_type := snd (argHandler a)\<rparr>) args,
           k_handlers := map (fst \<circ> argHandler) args,
           k_slmSizes := replicate (length args) 0,
           k_cacheFlush := replicate (length args) None,
           k_allBufferArgsStateful := k_allBufferArgsStateful k \<and> (\<forall>a \<in> set buffers. ka_pureStatefulBufferAccess a),
           k_auxTranslationRequired := k_auxTranslationRequired k \<or>
             pv_renderCompressedBuffers P \<and> (\<exists>a \<in> set buffers. \<not> ka_pureStatefulBufferAccess a),
           k_usingImagesOnly := k_usingImagesOnly k \<or> images \<noteq> [] \<and> buffers = []\<rparr>)"

definition initialize :: "ProgramView \<Rightarrow> Kernel \<Rightarrow> kernel_result" where
  "initialize P k =
     (let pi = ki_patchInfo (k_info k) in
      rt_bind (initCrossThreadData P k) (\<lambda>k.
      rt_bind (initPrivateSurface P k) (\<lambda>r.
      case r of
        None \<Rightarrow> Inr (CL_OUT_OF_RESOURCES, k)
      | Some k \<Rightarrow>
          rt_bind (initProgramSurface P (pv_constantSurface P) (pi_pAllocateStatelessConstantMemorySurface pi) k) (\<lambda>k.
          rt_bind (initProgramSurface P (pv_globalSurface P) (pi_pAllocateStatelessGlobalMemorySurface pi) k) (\<lambda>k.
          let k = initNullSurface (pi_pAllocateStatelessEventPoolSurface pi) k;
              k = initNullSurface (pi_pAllocateStatelessDefaultDeviceQueueSurface pi) k
          in rt_bind (patchBlocksSimdSize P (ki_childrenKernelsIdOffset (k_info k)) k) (\<lambda>k.
             Inr (CL_SUCCESS, initArguments P k)))))))"

text \<open>\<^verbatim>\<open>Kernel::create\<close>: the object is deleted when it cannot be initialized.\<close>

definition Kernel_create :: "ProgramView \<Rightarrow> KernelInfo \<Rightarrow> (int \<times> Kernel option) rt_result" where
  "Kernel_create P info =
     rt_bind (initialize P (Kernel_ctor info)) (\<lambda>(retVal, k). Inr (retVal, if retVal = CL_SUCCESS then Some k else None))"

section \<open>Clone\<close>

definition cloneArgument :: "KernelEnv \<Rightarrow> Kernel \<Rightarrow> nat \<Rightarrow> Kernel \<Rightarrow> Kernel rt_result" where
  "cloneArgument E src i k =
     (let s = k_arguments src ! i in
      if sk_size s = 0 then Inr k
      else case sk_type s of
        NONE_OBJ \<Rightarrow>
          if i \<ge> length (k_arguments k) then Inl OutOfBounds
          else
            let k = storeKernelArg i NONE_OBJ None None (sk_size s) None 0 k
            in Inr (updateArgument i (\<lambda>a. a\<lparr>sk_isPatched := True\<rparr>)
                 (k\<lparr>k_patchedArgumentsNum := wrap32 (k_patchedArgumentsNum k + 1)\<rparr>))
      | SVM_OBJ \<Rightarrow>
          rt_bind (setArgSvm i (sk_size s) (case sk_value s of Some v \<Rightarrow> v | None \<Rightarrow> 0) (sk_pSvmAlloc s) (sk_svmFlags s) k) (\<lambda>(_, k). Inr k)
      | SVM_ALLOC_OBJ \<Rightarrow>
          rt_bind (setArgSvmAlloc i (case sk_value s of Some v \<Rightarrow> v | None \<Rightarrow> 0) (sk_svmAllocObject s) k) (\<lambda>(_, k). Inr k)
      | _ \<Rightarrow> rt_bind (setArg E i (sk_size s) (sk_value s) k) (\<lambda>(_, k). Inr k))"

fun cloneLoop :: "KernelEnv \<Rightarrow> Kernel \<Rightarrow> nat list \<Rightarrow> Kernel \<Rightarrow> Kernel rt_result" where
  "cloneLoop E src [] k = Inr k"
| "cloneLoop E src (i # is) k = rt_bind (cloneArgument E src i k) (cloneLoop E src is)"

definition cloneKernel :: "KernelEnv \<Rightarrow> Kernel \<Rightarrow> Kernel \<Rightarrow> kernel_result" where
  "cloneKernel E src k =
     (let k = (if length (k_crossThreadData src) \<le> length (k_crossThreadData k)
               then k\<lparr>k_crossThreadData := k_crossThreadData src @ drop (length (k_crossThreadData src)) (k_crossThreadData k)\<rparr>
               else k)
      in rt_bind (cloneLoop E src [0..<length (k_arguments src)] k) (\<lambda>k.
         Inr (CL_SUCCESS, k\<lparr>k_svmGfxAllocations := k_svmGfxAllocations k @ k_svmGfxAllocations src,
                            k_isBuiltIn := k_isBuiltIn src\<rparr>)))"

section \<open>Destruction\<close>

text \<open>The samplers among the first arguments, as many as are patched, are given back.\<close>

fun releaseSamplers :: "KernelEnv \<Rightarrow> nat list \<Rightarrow> Kernel \<Rightarrow> Kernel rt_result" where
  "releaseSamplers E [] k = Inr k"
| "releaseSamplers E (i # is) k =
     (if i \<ge> length (ki_kernelArgInfo (k_info k)) then Inl Thrown
      else if ka_isSampler (argInfo k i) then
        (case sk_object (k_arguments k ! i) of
           None \<Rightarrow> releaseSamplers E is k
         | Some p \<Rightarrow> releaseSamplers E is (if castToSampler E p = None then k else samplerRef p (- 1) k))
      else releaseSamplers E is k)"

definition Kernel_destructor :: "KernelEnv \<Rightarrow> Kernel \<Rightarrow> Kernel rt_result" where
  "Kernel_destructor E k =
     releaseSamplers E [0..<k_patchedArgumentsNum k]
       (k\<lparr>k_crossThreadData := [], k_privateSurface := None\<rparr>)"

section \<open>Residency\<close>

definition isMemObj :: "kernelArgType \<Rightarrow> bool" where
  "isMemObj t = (t = BUFFER_OBJ \<or> t = IMAGE_OBJ \<or> t = PIPE_OBJ)"

text \<open>The allocations an enqueue makes resident at once; an object that is not a memory object aborts.\<close>

definition argResident :: "KernelEnv \<Rightarrow> SimpleKernelArgInfo \<Rightarrow> nat list rt_result" where
  "argResident E s =
     (case sk_object s of
        None \<Rightarrow> Inr []
      | Some p \<Rightarrow>
          if sk_type s = SVM_ALLOC_OBJ then Inr [p]
          else if isMemObj (sk_type s) then
            (case castToMemObj E p of
               None \<Rightarrow> Inl Unrecoverable
             | Some m \<Rightarrow> Inr (av_id (mo_allocation m) # (case mo_mcsAllocation m of Some c \<Rightarrow> [av_id c] | None \<Rightarrow> [])))
          else Inr [])"

fun argsResident :: "KernelEnv \<Rightarrow> SimpleKernelArgInfo list \<Rightarrow> nat list rt_result" where
  "argsResident E [] = Inr []"
| "argsResident E (s # ss) =
     rt_bind (argResident E s) (\<lambda>xs. rt_bind (argsResident E ss) (\<lambda>ys. Inr (xs @ ys)))"

definition optionIds :: "AllocationView option \<Rightarrow> nat list" where
  "optionIds a = (case a of Some v \<Rightarrow> [av_id v] | None \<Rightarrow> [])"

definition kernelMakeResident :: "KernelEnv \<Rightarrow> ProgramView \<Rightarrow> Kernel \<Rightarrow> nat list rt_result" where
  "kernelMakeResident E P k =
     rt_bind (argsResident E (k_arguments k)) (\<lambda>xs.
     Inr (optionIds (k_privateSurface k) @ optionIds (pv_constantSurface P) @ optionIds (pv_globalSurface P) @
          map av_id (k_svmGfxAllocations k) @ xs @ optionIds (pv_kernelAllocation P)))"

text \<open>The surfaces a blocked enqueue collects, and which it makes resident when it is submitted: a
  \<^verbatim>\<open>MemObjSurface\<close> makes the allocation of its memory object resident, a \<^verbatim>\<open>GeneralSurface\<close> its allocation.\<close>

definition argSurfaces :: "KernelEnv \<Rightarrow> SimpleKernelArgInfo \<Rightarrow> nat list rt_result" where
  "argSurfaces E s =
     (case sk_object s of
        None \<Rightarrow> Inr []
      | Some p \<Rightarrow>
          if sk_type s = SVM_ALLOC_OBJ then Inr [p]
          else if isMemObj (sk_type s) then
            (case castToMemObj E p of None \<Rightarrow> Inl NullDereference | Some m \<Rightarrow> Inr [av_id (mo_allocation m)])
          else Inr [])"

fun argsSurfaces :: "KernelEnv \<Rightarrow> SimpleKernelArgInfo list \<Rightarrow> nat list rt_result" where
  "argsSurfaces E [] = Inr []"
| "argsSurfaces E (s # ss) =
     rt_bind (argSurfaces E s) (\<lambda>xs. rt_bind (argsSurfaces E ss) (\<lambda>ys. Inr (xs @ ys)))"

definition getResidency :: "KernelEnv \<Rightarrow> ProgramView \<Rightarrow> Kernel \<Rightarrow> nat list rt_result" where
  "getResidency E P k =
     rt_bind (argsSurfaces E (k_arguments k)) (\<lambda>xs.
     Inr (optionIds (k_privateSurface k) @ optionIds (pv_constantSurface P) @ optionIds (pv_globalSurface P) @
          map av_id (k_svmGfxAllocations k) @ xs @ optionIds (pv_kernelAllocation P)))"

fun requiresCoherency :: "KernelEnv \<Rightarrow> SimpleKernelArgInfo list \<Rightarrow> bool rt_result" where
  "requiresCoherency E [] = Inr False"
| "requiresCoherency E (s # ss) =
     (case sk_object s of
        None \<Rightarrow> requiresCoherency E ss
      | Some p \<Rightarrow>
          if sk_type s = SVM_ALLOC_OBJ \<and> map_option av_isCoherent (sk_svmAllocObject s) = Some True then Inr True
          else if isMemObj (sk_type s) then
            (case castToMemObj E p of
               None \<Rightarrow> Inl Unrecoverable
             | Some m \<Rightarrow> if av_isCoherent (mo_allocation m) then Inr True else requiresCoherency E ss)
          else requiresCoherency E ss)"

definition getAllocationsForCacheFlush :: "ProgramView \<Rightarrow> Kernel \<Rightarrow> nat list" where
  "getAllocationsForCacheFlush P k =
     (if \<not> pv_cacheFlushAfterWalker P then []
      else concat (map optionIds (k_cacheFlush k)) @ optionIds (pv_globalSurface P) @
           (if k_svmAllocationsRequireCacheFlush k
            then map av_id (filter allocationForCacheFlush (k_svmGfxAllocations k)) else []))"

definition fillWithBuffersForAuxTranslation :: "KernelEnv \<Rightarrow> Kernel \<Rightarrow> nat set" where
  "fillWithBuffersForAuxTranslation E k =
     set (concat (map (\<lambda>i.
       if sk_type (k_arguments k ! i) = BUFFER_OBJ \<and> \<not> ka_pureStatefulBufferAccess (argInfo k i)
       then case sk_object (k_arguments k ! i) of
              None \<Rightarrow> []
            | Some p \<Rightarrow> (case castToBuffer E p of
                Some m \<Rightarrow> if av_compressed (mo_allocation m) then [p] else []
              | None \<Rightarrow> [])
       else []) [0..<length (k_arguments k)]))"

text \<open>The scratch size as the number of doublings of a kilobyte.\<close>

fun scratchLoop :: "nat \<Rightarrow> nat \<Rightarrow> nat" where
  "scratchLoop scratchSize valueToProgram =
     (if scratchSize div 2 = 0 then valueToProgram else scratchLoop (scratchSize div 2) (valueToProgram + 1))"

declare scratchLoop.simps [simp del]

definition getScratchSizeValueToProgramMediaVfeState :: "nat \<Rightarrow> nat" where
  "getScratchSizeValueToProgramMediaVfeState scratchSize = scratchLoop (scratchSize div 1024) 0"

end
