(* ===== verification/Kernel_Properties.thy ===== *)
theory Kernel_Properties
  imports Kernel_Lifecycle Machine_Refinement
begin

text \<open>
  Theorems on kernel objects: the counters of set arguments agree with the arguments in every run, local arguments
  are laid out as if they were set from the first to the last, and what a clone and a blocked enqueue leave out.
\<close>

section \<open>The counters of arguments\<close>

text \<open>The parts of a kernel that no handler changes, and the flags of its arguments.\<close>

definition argFrame :: "Kernel \<Rightarrow> KernelInfo \<times> KernelArgHandler list \<times> nat \<times> nat \<times> nat \<times> nat \<times> bool list" where
  "argFrame k =
     (k_info k, k_handlers k, length (k_slmSizes k), length (k_cacheFlush k), k_patchedArgumentsNum k,
      k_uncacheableArgsCount k, map sk_isPatched (k_arguments k))"

definition uncacheable :: "Kernel \<Rightarrow> bool list" where
  "uncacheable k = map sk_isUncacheable (k_arguments k)"

named_theorems kernel_frame

lemma map_update_same:
  assumes "i < length xs \<Longrightarrow> f y = f (xs ! i)"
  shows "map f (xs[i := y]) = map f xs"
proof (cases "i < length xs")
  case True
  then show ?thesis using assms by (simp add: map_update list_update_same_conv)
next
  case False
  then show ?thesis by (simp add: list_update_beyond)
qed

lemma frame_update [kernel_frame]:
  assumes "\<And>a. sk_isPatched (f a) = sk_isPatched a"
  shows "argFrame (updateArgument i f k) = argFrame k"
  by (simp add: argFrame_def updateArgument_def map_update_same assms)

lemma uncacheable_update [kernel_frame]:
  assumes "\<And>a. sk_isUncacheable (f a) = sk_isUncacheable a"
  shows "uncacheable (updateArgument i f k) = uncacheable k"
  by (simp add: uncacheable_def updateArgument_def map_update_same assms)

lemma frame_store [kernel_frame]:
  "argFrame (storeKernelArg i t ob v sz al fl k) = argFrame k"
  "uncacheable (storeKernelArg i t ob v sz al fl k) = uncacheable k"
  by (simp_all add: storeKernelArg_def kernel_frame)

lemma frame_simple [kernel_frame]:
  "argFrame (surfaceState off st k) = argFrame k" "uncacheable (surfaceState off st k) = uncacheable k"
  "argFrame (registerImage3d i k) = argFrame k" "uncacheable (registerImage3d i k) = uncacheable k"
  "argFrame (samplerRef s d k) = argFrame k" "uncacheable (samplerRef s d k) = uncacheable k"
  "argFrame (addAllocationToCacheFlushVector i al k) = argFrame k"
  "uncacheable (addAllocationToCacheFlushVector i al k) = uncacheable k"
  "argFrame (k\<lparr>k_usingSharedObjArgs := b\<rparr>) = argFrame k" "uncacheable (k\<lparr>k_usingSharedObjArgs := b\<rparr>) = uncacheable k"
  "argFrame (k\<lparr>k_samplerStates := ss\<rparr>) = argFrame k" "uncacheable (k\<lparr>k_samplerStates := ss\<rparr>) = uncacheable k"
  "argFrame (k\<lparr>k_slmTotalSize := n\<rparr>) = argFrame k" "uncacheable (k\<lparr>k_slmTotalSize := n\<rparr>) = uncacheable k"
  "argFrame (k\<lparr>k_crossThreadData := bs\<rparr>) = argFrame k" "uncacheable (k\<lparr>k_crossThreadData := bs\<rparr>) = uncacheable k"
  "argFrame (k\<lparr>k_transformed := b\<rparr>) = argFrame k" "uncacheable (k\<lparr>k_transformed := b\<rparr>) = uncacheable k"
  "argFrame (k\<lparr>k_slmSizes := (k_slmSizes k)[i := n]\<rparr>) = argFrame k"
  "uncacheable (k\<lparr>k_slmSizes := (k_slmSizes k)[i := n]\<rparr>) = uncacheable k"
  by (simp_all add: argFrame_def uncacheable_def surfaceState_def registerImage3d_def samplerRef_def
      addAllocationToCacheFlushVector_def)

abbreviation keeps :: "Kernel \<Rightarrow> Kernel \<Rightarrow> bool" where
  "keeps k k' \<equiv> argFrame k' = argFrame k \<and> uncacheable k' = uncacheable k"

lemma keeps_patchAt: "patchAt off bs k = Inr k' \<Longrightarrow> keeps k k'"
  by (auto simp: patchAt_def kernel_frame)

lemma keeps_patch32: "patch32 v off k = Inr k' \<Longrightarrow> keeps k k'"
  by (auto simp: patch32_def dest: keeps_patchAt split: if_splits)

lemma keeps_patchRequired: "patchWithRequiredSize off n v k = Inr k' \<Longrightarrow> keeps k k'"
  by (auto simp: patchWithRequiredSize_def dest: keeps_patchAt split: if_splits)

lemma keeps_patchFirst: "patchFirst a v k = Inr k' \<Longrightarrow> keeps k k'"
  by (auto simp: patchFirst_def dest: keeps_patchRequired)

lemma keeps_patchBufferOffset: "patchBufferOffset a p al k = Inr (q, k') \<Longrightarrow> keeps k k'"
  by (auto simp: patchBufferOffset_def Let_def dest: keeps_patch32 split: if_splits)

lemma keeps_patchAll: "patchAll ps k = Inr k' \<Longrightarrow> keeps k k'"
  by (induction ps k rule: patchAll.induct) (auto dest: keeps_patch32)

lemma keeps_patchUnchecked: "patchUnchecked ps k = Inr k' \<Longrightarrow> keeps k k'"
  by (induction ps k rule: patchUnchecked.induct) (auto dest: keeps_patchAt)

declare patchAll.simps [simp del] patchUnchecked.simps [simp del]

lemma keeps_slmLoop: "slmLoop is off k = Inr (n, k') \<Longrightarrow> keeps k k'"
  by (induction "is" off k rule: slmLoop.induct) (auto simp: Let_def dest: keeps_patchAt split: if_splits)

lemma keeps_immediateLoop: "immediateLoop src n ps k = Inr k' \<Longrightarrow> keeps k k'"
  by (induction src n ps k rule: immediateLoop.induct) (auto dest: keeps_patchAt split: if_splits)

lemma keeps_storeImmediate: "storeImmediate src i n k = Inr (r, k') \<Longrightarrow> keeps k k'"
  by (auto simp: storeImmediate_def Let_def kernel_frame dest!: keeps_immediateLoop)

lemma keeps_setArgLocal: "setArgLocal i n v k = Inr (r, k') \<Longrightarrow> keeps k k'"
  by (auto simp: setArgLocal_def Let_def kernel_frame dest!: keeps_slmLoop)

lemma keeps_setArgPipe: "setArgPipe E i n v k = Inr (r, k') \<Longrightarrow> keeps k k'"
  by (auto simp: setArgPipe_def Let_def kernel_frame dest!: keeps_patchFirst split: if_splits option.splits)

lemma keeps_setArgImageWithMipLevel:
  assumes "setArgImageWithMipLevel E i n v mip k = Inr (r, k')"
  shows "keeps k k'"
proof -
  obtain q k1 where k1: "patchBufferOffset (argInfo k i) 0 None k = Inr (q, k1)"
    using assms by (auto simp: setArgImageWithMipLevel_def Let_def)
  then have f: "keeps k k1" by (rule keeps_patchBufferOffset)
  show ?thesis
  proof (cases "\<exists>p m im. v = Some p \<and> castToImage E (readHandle E p) = Some (m, im) \<and> n = 8")
    case False
    then have "k' = k1" using assms k1
      by (cases v; cases "castToImage E (readHandle E (the v))") (auto simp: setArgImageWithMipLevel_def Let_def split: if_splits)
    then show ?thesis using f by simp
  next
    case True
    then obtain p m im where v: "v = Some p" "castToImage E (readHandle E p) = Some (m, im)" "n = 8" by blast
    show ?thesis using assms k1 v f
      by (auto simp: setArgImageWithMipLevel_def Let_def kernel_frame dest!: keeps_patchAll)
  qed
qed

lemma keeps_setArgImage: "setArgImage E i n v k = Inr (r, k') \<Longrightarrow> keeps k k'"
  by (auto simp: setArgImage_def dest: keeps_setArgImageWithMipLevel)

lemma keeps_setArgSampler: "setArgSampler E i n v k = Inr (r, k') \<Longrightarrow> keeps k k'"
  by (auto simp: setArgSampler_def Let_def kernel_frame dest!: keeps_patchAll split: if_splits option.splits)

lemma keeps_setArgAccelerator: "setArgAccelerator E i n v k = Inr (r, k') \<Longrightarrow> keeps k k'"
  by (auto simp: setArgAccelerator_def Let_def kernel_frame dest!: keeps_patchUnchecked split: if_splits option.splits)

lemma keeps_setArgDevQueue: "setArgDevQueue E i n v k = Inr (r, k') \<Longrightarrow> keeps k k'"
  by (auto simp: setArgDevQueue_def Let_def kernel_frame dest!: keeps_patchFirst split: if_splits option.splits)

lemma keeps_setArgImmediate: "setArgImmediate E i n v k = Inr (r, k') \<Longrightarrow> keeps k k'"
  by (auto simp: setArgImmediate_def dest!: keeps_storeImmediate split: option.splits)


text \<open>Only the handler of buffers changes whether an argument is uncacheable, and only when it succeeds.\<close>

lemma uncacheable_set:
  "uncacheable (updateArgument i (\<lambda>x. x\<lparr>sk_isUncacheable := u\<rparr>) k) = (uncacheable k)[i := u]"
  by (simp add: uncacheable_def updateArgument_def map_update)

lemma setArgBuffer_flags:
  assumes "setArgBuffer E i n v k = Inr (r, k')"
  shows "argFrame k' = argFrame k \<and> (\<exists>u. uncacheable k' = (uncacheable k)[i := u]) \<and> (r \<noteq> CL_SUCCESS \<longrightarrow> uncacheable k' = uncacheable k)"
proof (cases "n = 8")
  case False
  then show ?thesis using assms by (auto simp: setArgBuffer_def intro: exI [of _ "uncacheable k ! i"])
next
  case True
  note assms = assms [unfolded True]
  let ?h = "case v of None \<Rightarrow> 0 | Some p \<Rightarrow> readHandle E p"
  obtain q k1 where k1: "patchBufferOffset (argInfo k i) 0 None k = Inr (q, k1)"
    using assms by (auto simp: setArgBuffer_def Let_def)
  then have f: "keeps k k1" by (rule keeps_patchBufferOffset)
  have same: ?thesis if "keeps k k'" using that by (metis list_update_id)
  show ?thesis
  proof (cases "?h = 0")
    case True
    have "rt_bind (patchFirst (argInfo k i) 0 k1) (\<lambda>k'.
             let k' = storeKernelArg i BUFFER_OBJ None v 8 None 0 k'
             in Inr (CL_SUCCESS, if requiresSshForBuffers k' then surfaceState (ka_offsetHeap (argInfo k i)) NullState k' else k'))
           = Inr (r, k')"
      using assms k1 True by (simp add: setArgBuffer_def Let_def)
    then obtain k2 where k2: "patchFirst (argInfo k i) 0 k1 = Inr k2"
      and k': "k' = (let k3 = storeKernelArg i BUFFER_OBJ None v 8 None 0 k2
                     in if requiresSshForBuffers k3 then surfaceState (ka_offsetHeap (argInfo k i)) NullState k3 else k3)"
      by (auto simp: Let_def)
    have "keeps k2 k'" unfolding k' Let_def by (simp add: kernel_frame)
    then show ?thesis using f keeps_patchFirst [OF k2] same by metis
  next
    case nz: False
    show ?thesis
    proof (cases "castToBuffer E ?h")
      case None
      have "Inr (CL_INVALID_MEM_OBJECT, storeKernelArg i BUFFER_OBJ (Some ?h) v 8 None 0 k1) = Inr (r, k')"
        using assms k1 nz None by (simp add: setArgBuffer_def Let_def)
      then have "k' = storeKernelArg i BUFFER_OBJ (Some ?h) v 8 None 0 k1" by simp
      then have "keeps k1 k'" by (simp only: kernel_frame simp_thms)
      then show ?thesis using f same by metis
    next
      case (Some m)
      define k2 where "k2 = storeKernelArg i BUFFER_OBJ (Some ?h) v 8 None 0 k1"
      define k3 where "k3 = (if mo_sharingHandler m then k2\<lparr>k_usingSharedObjArgs := True\<rparr> else k2)"
      have "keeps k1 k2" unfolding k2_def by (simp only: kernel_frame simp_thms)
      then have k3: "keeps k1 k3" unfolding k3_def by (simp add: kernel_frame)
      define v' where "v' = (if \<not> k_isBuiltIn k3 then av_gpuAddressToPatch (mo_allocation m)
             else av_gpuAddress (mo_allocation m)) + mo_offset m"
      define nonAux where "nonAux = (av_compressed (mo_allocation m) \<and> \<not> ka_pureStatefulBufferAccess (argInfo k i))"
      have "rt_bind (patchFirst (argInfo k i) v' k3) (\<lambda>k4.
             let k5 = (if requiresSshForBuffers k4
                then updateArgument i (\<lambda>x. x\<lparr>sk_isUncacheable := mo_uncacheable m\<rparr>)
                       (surfaceState (ka_offsetHeap (argInfo k i)) (BufferState ?h nonAux (k_disableL3 k4)) k4)
                else k4)
             in Inr (CL_SUCCESS, addAllocationToCacheFlushVector i (Some (mo_allocation m)) k5)) = Inr (r, k')"
        using assms k1 nz Some unfolding v'_def nonAux_def k3_def k2_def
        by (simp add: setArgBuffer_def Let_def cong: if_cong split del: if_split)
      then obtain k4 where k4: "patchFirst (argInfo k i) v' k3 = Inr k4" and r: "r = CL_SUCCESS"
        and k': "k' = addAllocationToCacheFlushVector i (Some (mo_allocation m))
          (if requiresSshForBuffers k4
           then updateArgument i (\<lambda>x. x\<lparr>sk_isUncacheable := mo_uncacheable m\<rparr>)
                  (surfaceState (ka_offsetHeap (argInfo k i)) (BufferState ?h nonAux (k_disableL3 k4)) k4)
           else k4)"
        by (auto simp: Let_def cong: if_cong split del: if_split)
      have k4': "keeps k k4" using keeps_patchFirst [OF k4] k3 f by metis
      have fr: "argFrame k' = argFrame k4" unfolding k' by (simp add: kernel_frame)
      have un: "uncacheable k' = (if requiresSshForBuffers k4 then (uncacheable k4)[i := mo_uncacheable m] else uncacheable k4)"
        unfolding k' by (simp add: kernel_frame uncacheable_set)
      show ?thesis
      proof (cases "requiresSshForBuffers k4")
        case True
        then show ?thesis using fr un k4' r by auto
      next
        case False
        then show ?thesis using fr un k4' r same by metis
      qed
    qed
  qed
qed

lemma callHandler_flags:
  assumes "callHandler h E i n v k = Inr (r, k')"
  shows "argFrame k' = argFrame k \<and> (\<exists>u. uncacheable k' = (uncacheable k)[i := u]) \<and> (r \<noteq> CL_SUCCESS \<longrightarrow> uncacheable k' = uncacheable k)"
proof (cases "h = SetArgBuffer")
  case True
  then show ?thesis using assms setArgBuffer_flags by simp
next
  case False
  then have "keeps k k'" using assms
    by (cases h) (auto dest: keeps_setArgLocal keeps_setArgAccelerator keeps_setArgPipe keeps_setArgImage
        keeps_setArgSampler keeps_setArgDevQueue keeps_setArgImmediate)
  then show ?thesis by (metis list_update_id)
qed

lemma keeps_transformLoop: "transformLoop E st sel is k = Inr k' \<Longrightarrow> keeps k k'"
  by (induction E st sel "is" k rule: transformLoop.induct) (auto simp: kernel_frame split: if_splits option.splits)

lemma keeps_resolve: "resolveKernelArgs E k = Inr k' \<Longrightarrow> keeps k k'"
  by (auto simp: resolveKernelArgs_def transformImagesTo2dArray_def transformImagesTo3d_def kernel_frame
      dest!: keeps_transformLoop split: if_splits)

section \<open>The counters in every run\<close>

definition trues :: "bool list \<Rightarrow> nat" where
  "trues bs = length (filter (\<lambda>b. b) bs)"

lemma trues_le: "trues bs \<le> length bs"
  by (simp add: trues_def)

lemma trues_update:
  assumes "i < length bs"
  shows "trues (bs[i := b]) + flagValue (bs ! i) = trues bs + flagValue b"
  using assms
proof (induction bs arbitrary: i)
  case (Cons c bs)
  then show ?case by (cases i) (fastforce simp: trues_def flagValue_def)+
qed simp

text \<open>The counter of patched arguments and that of uncacheable ones are the numbers of arguments so marked.\<close>

definition patched_inv :: "Kernel \<Rightarrow> bool" where
  "patched_inv k \<longleftrightarrow>
     (let n = length (ki_kernelArgInfo (k_info k)) in
      n < 2 ^ 32 \<and> length (k_arguments k) = n \<and> length (k_handlers k) = n \<and> length (k_slmSizes k) = n \<and>
      length (k_cacheFlush k) = n \<and> k_patchedArgumentsNum k = trues (map sk_isPatched (k_arguments k)))"

definition counts_inv :: "Kernel \<Rightarrow> bool" where
  "counts_inv k \<longleftrightarrow> patched_inv k \<and> k_uncacheableArgsCount k = trues (uncacheable k)"

lemma length_uncacheable [simp]: "length (uncacheable k) = length (k_arguments k)"
  by (simp add: uncacheable_def)

lemma argFrame_eqD:
  assumes "argFrame k' = argFrame k"
  shows "k_info k' = k_info k" "k_handlers k' = k_handlers k" "length (k_slmSizes k') = length (k_slmSizes k)"
    "length (k_cacheFlush k') = length (k_cacheFlush k)" "k_patchedArgumentsNum k' = k_patchedArgumentsNum k"
    "k_uncacheableArgsCount k' = k_uncacheableArgsCount k"
    "map sk_isPatched (k_arguments k') = map sk_isPatched (k_arguments k)" "length (k_arguments k') = length (k_arguments k)"
  using assms by (auto simp: argFrame_def dest: map_eq_imp_length_eq)

lemma patched_keeps: "argFrame k' = argFrame k \<Longrightarrow> patched_inv k' = patched_inv k"
  using argFrame_eqD [of k' k] by (simp add: patched_inv_def Let_def)

lemma counts_keeps: "keeps k k' \<Longrightarrow> counts_inv k' = counts_inv k"
  using argFrame_eqD [of k' k] patched_keeps [of k' k] by (simp add: counts_inv_def)

lemma trues_lt:
  assumes "patched_inv k" "length bs = length (k_arguments k)"
  shows "trues bs < 4294967296"
  using assms trues_le [of bs] by (simp add: patched_inv_def Let_def)

lemma markPatched_frame:
  "uncacheable (markPatched i k) = uncacheable k" "k_info (markPatched i k) = k_info k"
  "k_uncacheableArgsCount (markPatched i k) = k_uncacheableArgsCount k"
  "length (k_arguments (markPatched i k)) = length (k_arguments k)"
  by (simp_all add: markPatched_def updateArgument_def uncacheable_def map_update_same)

lemma markPatched_inv:
  assumes "patched_inv k" "i < length (k_arguments k)"
  shows "patched_inv (markPatched i k)"
proof (cases "sk_isPatched (k_arguments k ! i)")
  case True
  then show ?thesis using assms by (simp add: markPatched_def)
next
  case False
  let ?bs = "map sk_isPatched (k_arguments k)"
  have "trues (?bs[i := True]) = trues ?bs + 1" using trues_update [of i ?bs True] assms False by (simp add: flagValue_def)
  moreover have "trues (?bs[i := True]) < 4294967296" by (rule trues_lt [OF assms(1)]) simp
  ultimately show ?thesis using assms False
    by (simp add: patched_inv_def Let_def markPatched_def updateArgument_def map_update)
qed

lemma wrap_count:
  assumes "t' + flagValue was = t + flagValue u" "t' < 4294967296"
  shows "wrap32 (t + flagValue u + (4294967296 - flagValue was)) = t'"
proof -
  have "flagValue was \<le> 4294967296" by (simp add: flagValue_def)
  then have "t + flagValue u + (4294967296 - flagValue was) = t' + 4294967296" using assms(1) by linarith
  then show ?thesis using assms(2) by simp
qed

lemma finishSetArg_counts:
  assumes k: "patched_inv k" and r: "finishSetArg E i was retVal k = Inr (r, k')"
    and u: "uncacheable k = bs[i := u]" "length bs = length (k_arguments k)" "i < length bs \<Longrightarrow> was = bs ! i"
    and c: "k_uncacheableArgsCount k = trues bs" and err: "retVal \<noteq> CL_SUCCESS \<Longrightarrow> uncacheable k = bs"
  shows "counts_inv k' \<and> k_info k' = k_info k"
proof (cases "retVal = CL_SUCCESS")
  case False
  then show ?thesis using r k c err by (simp add: finishSetArg_def counts_inv_def)
next
  case True
  have i: "i < length (k_arguments k)" using r True by (simp add: finishSetArg_def split: if_splits)
  define k1 where "k1 = (markPatched i k)\<lparr>k_uncacheableArgsCount := wrap32 (k_uncacheableArgsCount (markPatched i k) +
      flagValue (sk_isUncacheable (k_arguments (markPatched i k) ! i)) + (2 ^ 32 - flagValue was))\<rparr>"
  have res: "resolveKernelArgs E k1 = Inr k'" using r True i by (simp add: finishSetArg_def Let_def k1_def)
  have unc1: "uncacheable k1 = bs[i := u]" using markPatched_frame(1) [of i k] u(1) by (simp add: k1_def uncacheable_def)
  have "uncacheable k1 ! i = sk_isUncacheable (k_arguments (markPatched i k) ! i)"
    using i markPatched_frame(4) [of i k] by (simp add: k1_def uncacheable_def)
  then have "sk_isUncacheable (k_arguments (markPatched i k) ! i) = u" using unc1 i u(2) by simp
  moreover have "trues (bs[i := u]) + flagValue was = trues bs + flagValue u" using trues_update [of i bs u] i u by simp
  moreover have "trues (bs[i := u]) < 4294967296" by (rule trues_lt [OF k]) (simp add: u(2))
  ultimately have "k_uncacheableArgsCount k1 = trues (bs[i := u])"
    using c markPatched_frame(3) [of i k] wrap_count [of "trues (bs[i := u])" was "trues bs" u] by (simp add: k1_def)
  moreover have "patched_inv k1" using markPatched_inv [OF k i] by (simp add: k1_def patched_inv_def)
  ultimately have "counts_inv k1" using unc1 by (simp add: counts_inv_def)
  moreover have "k_info k1 = k_info k" by (simp add: k1_def markPatched_frame)
  ultimately show ?thesis using keeps_resolve [OF res] counts_keeps argFrame_eqD(1) by metis
qed

lemma setArg_counts:
  assumes k: "counts_inv k" and r: "setArg E i n v k = Inr (r, k')" and E: "ke_setExplicitArg E = None"
  shows "counts_inv k' \<and> k_info k' = k_info k"
proof -
  have len: "length (k_handlers k) = length (k_arguments k)" using k by (simp add: counts_inv_def patched_inv_def Let_def)
  show ?thesis
  proof (cases "i < length (k_handlers k)")
    case True
    then obtain r1 k1 where h: "callHandler (k_handlers k ! i) E i n v k = Inr (r1, k1)"
      and fin: "finishSetArg E i (sk_isUncacheable (k_arguments k ! i)) r1 k1 = Inr (r, k')"
      using r E by (auto simp: setArg_def Let_def)
    obtain u where fr: "argFrame k1 = argFrame k" and u: "uncacheable k1 = (uncacheable k)[i := u]"
      and e: "r1 \<noteq> CL_SUCCESS \<longrightarrow> uncacheable k1 = uncacheable k"
      using callHandler_flags [OF h] by blast
    have p: "patched_inv k1" using k patched_keeps [OF fr] by (simp add: counts_inv_def)
    have l: "length (uncacheable k) = length (k_arguments k1)" using argFrame_eqD(8) [OF fr] by simp
    have w: "i < length (uncacheable k) \<Longrightarrow> sk_isUncacheable (k_arguments k ! i) = uncacheable k ! i"
      by (simp add: uncacheable_def)
    have c: "k_uncacheableArgsCount k1 = trues (uncacheable k)" using k argFrame_eqD(6) [OF fr] by (simp add: counts_inv_def)
    have "counts_inv k' \<and> k_info k' = k_info k1" using finishSetArg_counts [OF p fin u l w c] e by metis
    then show ?thesis using argFrame_eqD(1) [OF fr] by simp
  next
    case False
    then show ?thesis using r E k by (simp add: setArg_def Let_def)
  qed
qed


lemma updateArgument_flag:
  "map sk_isPatched (k_arguments (updateArgument i (\<lambda>a. a\<lparr>sk_isPatched := b\<rparr>) k)) = (map sk_isPatched (k_arguments k))[i := b]"
  by (simp add: updateArgument_def map_update)

lemma keeps_patched_counts:
  assumes "counts_inv k" "i < length (k_arguments k)"
  shows "counts_inv (markPatched i k) \<and> k_info (markPatched i k) = k_info k"
  using markPatched_inv [of k i] markPatched_frame [of i k] assms by (simp add: counts_inv_def)

lemma setArgSvm_counts:
  assumes "counts_inv k" "i < length (k_arguments k)" "setArgSvm i n p al fl k = Inr (r, k')"
  shows "counts_inv k' \<and> k_info k' = k_info k"
proof -
  obtain q k1 where k1: "patchBufferOffset (argInfo k i) p al k = Inr (q, k1)" using assms(3) by (auto simp: setArgSvm_def Let_def)
  then obtain z k2 where k2: "storeImmediate (\<lambda>off n. take n (drop off (le_bytes 8 p))) i 8 k1 = Inr (z, k2)"
    using assms(3) by (auto simp: setArgSvm_def Let_def)
  define k3 where "k3 = storeKernelArg i SVM_OBJ None (Some p) 8 al fl k2"
  define k4 where "k4 = (if requiresSshForBuffers k3 then surfaceState (ka_offsetHeap (argInfo k i))
      (AddressState (wrap64 (n + wrap64 (p + (18446744073709551616 - q)))) q (map_option av_id al) fl) k3 else k3)"
  have k': "k' = addAllocationToCacheFlushVector i al (markPatched i k4)"
    using assms(3) k1 k2 by (simp add: setArgSvm_def Let_def k3_def k4_def cong: if_cong split del: if_split)
  have "keeps k1 k2" by (rule keeps_storeImmediate [OF k2])
  moreover have "keeps k2 k4" by (simp add: k4_def k3_def kernel_frame)
  ultimately have f: "keeps k k4" using keeps_patchBufferOffset [OF k1] by metis
  have "counts_inv k4" "i < length (k_arguments k4)" "k_info k4 = k_info k"
    using counts_keeps [OF f] argFrame_eqD [of k4 k] f assms(1, 2) by simp_all
  then have "counts_inv (markPatched i k4)" "k_info (markPatched i k4) = k_info k" using keeps_patched_counts [of k4 i] by simp_all
  moreover have "keeps (markPatched i k4) k'" by (simp add: k' kernel_frame)
  ultimately show ?thesis using counts_keeps [of "markPatched i k4" k'] argFrame_eqD(1) [of k' "markPatched i k4"] by simp
qed

lemma setArgSvmAlloc_counts:
  assumes "counts_inv k" "i < length (k_arguments k)" "setArgSvmAlloc i p al k = Inr (r, k')"
  shows "counts_inv k' \<and> k_info k' = k_info k"
proof -
  define k0 where "k0 = updateArgument i (\<lambda>x. x\<lparr>sk_svmAllocObject := al\<rparr>)
      (storeKernelArg i SVM_ALLOC_OBJ (map_option av_id al) (Some p) 8 None 0 k)"
  have f0: "keeps k k0" by (simp add: k0_def kernel_frame)
  obtain q k1 where k1: "patchBufferOffset (argInfo k i) p al k0 = Inr (q, k1)" using assms(3) by (auto simp: setArgSvmAlloc_def Let_def k0_def)
  then obtain k2 where k2: "patchFirst (argInfo k i) p k1 = Inr k2" using assms(3) by (auto simp: setArgSvmAlloc_def Let_def k0_def)
  define k4 where "k4 = (if requiresSshForBuffers k2 then surfaceState (ka_offsetHeap (argInfo k i))
      (AddressState (case al of None \<Rightarrow> 0
               | Some v \<Rightarrow> wrap64 (av_size v + (18446744073709551616 - wrap64 (q + (18446744073709551616 - av_gpuAddressToPatch v))))) q None 0) k2 else k2)"
  have k': "k' = addAllocationToCacheFlushVector i al (markPatched i k4)"
    using assms(3) k1 k2 by (simp add: setArgSvmAlloc_def Let_def k0_def k4_def cong: if_cong option.case_cong split del: if_split)
  have "keeps k2 k4" by (simp add: k4_def kernel_frame)
  then have f: "keeps k k4" using keeps_patchBufferOffset [OF k1] keeps_patchFirst [OF k2] f0 by metis
  have "counts_inv k4" "i < length (k_arguments k4)" "k_info k4 = k_info k"
    using counts_keeps [OF f] argFrame_eqD [of k4 k] f assms(1, 2) by simp_all
  then have "counts_inv (markPatched i k4)" "k_info (markPatched i k4) = k_info k" using keeps_patched_counts [of k4 i] by simp_all
  moreover have "keeps (markPatched i k4) k'" by (simp add: k' kernel_frame)
  ultimately show ?thesis using counts_keeps [of "markPatched i k4" k'] argFrame_eqD(1) [of k' "markPatched i k4"] by simp
qed

lemma unsetArg_counts:
  assumes k: "counts_inv k" and i: "i < length (k_arguments k)"
  shows "counts_inv (unsetArg i k) \<and> k_info (unsetArg i k) = k_info k"
proof (cases "sk_isPatched (k_arguments k ! i)")
  case False
  then show ?thesis using k by (simp add: unsetArg_def)
next
  case True
  let ?p = "map sk_isPatched (k_arguments k)" and ?u = "uncacheable k"
  have p: "trues (?p[i := False]) + 1 = trues ?p" using trues_update [of i ?p False] i True by (simp add: flagValue_def)
  have u: "trues (?u[i := False]) + flagValue (?u ! i) = trues ?u" using trues_update [of i ?u False] i by (simp add: flagValue_def)
  have "trues ?p < 4294967296" "trues ?u < 4294967296"
    using k trues_lt [of k ?p] trues_lt [of k ?u] by (simp_all add: counts_inv_def)
  then have wp: "wrap32 (trues ?p + 4294967295) = trues (?p[i := False])" and
    wu: "?u ! i \<Longrightarrow> wrap32 (trues ?u + 4294967295) = trues (?u[i := False])"
    using p u wrap_count [of _ True "trues ?p" False] wrap_count [of _ True "trues ?u" False] by (simp_all add: flagValue_def)
  show ?thesis
  proof (cases "?u ! i")
    case un: True
    then have "sk_isUncacheable (k_arguments k ! i)" using i by (simp add: uncacheable_def)
    then show ?thesis using k i True wp wu [OF un]
      by (simp add: counts_inv_def patched_inv_def Let_def unsetArg_def updateArgument_def map_update uncacheable_def)
  next
    case un: False
    define k1 where "k1 = updateArgument i (\<lambda>a. a\<lparr>sk_isPatched := False\<rparr>)
        (k\<lparr>k_patchedArgumentsNum := wrap32 (k_patchedArgumentsNum k + 4294967295)\<rparr>)"
    have "\<not> sk_isUncacheable (k_arguments k ! i)" using un i by (simp add: uncacheable_def)
    then have "unsetArg i k = k1" using True i by (simp add: unsetArg_def k1_def updateArgument_def)
    moreover have "uncacheable k1 = ?u" by (simp add: k1_def uncacheable_update) (simp add: uncacheable_def)
    moreover have "patched_inv k1" using k wp by (simp add: counts_inv_def patched_inv_def Let_def k1_def updateArgument_def map_update)
    ultimately show ?thesis using k by (simp add: counts_inv_def k1_def updateArgument_def)
  qed
qed

lemma resetShared_counts:
  assumes "ke_setExplicitArg E = None"
  shows "resetSharedLoop E slot is k = Inr k' \<Longrightarrow> counts_inv k \<Longrightarrow> counts_inv k' \<and> k_info k' = k_info k"
proof (induction "is" arbitrary: k)
  case (Cons i "is")
  have E: "ke_setExplicitArg (withHandle slot p E) = None" for p using assms by (simp add: withHandle_def)
  show ?case
  proof (cases "\<exists>p m. sk_object (k_arguments k ! i) = Some p \<and> castToMemObj E p = Some m \<and> mo_sharingHandler m")
    case True
    then obtain p m where p: "sk_object (k_arguments k ! i) = Some p" "castToMemObj E p = Some m" "mo_sharingHandler m" by blast
    then obtain r k1 where s: "setArg (withHandle slot p E) i 8 (Some slot) k = Inr (r, k1)"
      and t: "resetSharedLoop E slot is k1 = Inr k'" using Cons.prems(1) by auto
    have "counts_inv k1 \<and> k_info k1 = k_info k" by (rule setArg_counts [OF Cons.prems(2) s E])
    then show ?thesis using Cons.IH [OF t] by simp
  next
    case False
    then have "resetSharedLoop E slot is k = Inr k'" using Cons.prems(1) by (auto split: option.splits if_splits)
    then show ?thesis using Cons.IH Cons.prems(2) by simp
  qed
qed simp

text \<open>What an application does to a kernel that is not built in.\<close>

inductive kernel_step :: "Kernel \<Rightarrow> Kernel \<Rightarrow> bool" where
  set: "ke_setExplicitArg E = None \<Longrightarrow> clSetKernelArg E i n v (Some k) = Inr (r, Some k') \<Longrightarrow> kernel_step k k'"
| svm: "i < length (k_arguments k) \<Longrightarrow> setArgSvm i n p al fl k = Inr (r, k') \<Longrightarrow> kernel_step k k'"
| svmAlloc: "i < length (k_arguments k) \<Longrightarrow> setArgSvmAlloc i p al k = Inr (r, k') \<Longrightarrow> kernel_step k k'"
| shared: "ke_setExplicitArg E = None \<Longrightarrow> resetSharedObjectsPatchAddresses E slot k = Inr k' \<Longrightarrow> kernel_step k k'"
| exec: "kernel_step k (setKernelExecInfo a k)"
| clear: "kernel_step k (clearKernelExecInfo k)"

definition kernel_inv :: "KernelInfo \<Rightarrow> Kernel \<Rightarrow> bool" where
  "kernel_inv info k \<longleftrightarrow> counts_inv k \<and> k_info k = info"

lemma kernel_step_inv: "kernel_step k k' \<Longrightarrow> kernel_inv info k \<Longrightarrow> kernel_inv info k'"
proof (induction rule: kernel_step.induct)
  case (set E i n v k r k')
  then have i: "i < length (k_arguments k) \<or> k' = k"
    by (auto simp: clSetKernelArg_def kernel_inv_def counts_inv_def patched_inv_def Let_def split: if_splits)
  then show ?case
  proof
    assume i: "i < length (k_arguments k)"
    have "k' = unsetArg i k \<or> k' = k \<or> (\<exists>r. setArg E i n v k = Inr (r, k'))"
      using set.hyps(2) by (auto simp: clSetKernelArg_def split: if_splits)
    then show ?thesis
      using unsetArg_counts [of k i] setArg_counts [OF _ _ set.hyps(1), of k i n v] set.prems i unfolding kernel_inv_def by metis
  qed (use set.prems in simp)
next
  case (svm i k n p al fl r k')
  then show ?case using setArgSvm_counts [of k i n p al fl r k'] by (simp add: kernel_inv_def)
next
  case (svmAlloc i k p al r k')
  then show ?case using setArgSvmAlloc_counts [of k i p al r k'] by (simp add: kernel_inv_def)
next
  case (shared E slot k k')
  then show ?case using resetShared_counts [OF shared.hyps(1), of slot _ k k'] by (simp add: kernel_inv_def resetSharedObjectsPatchAddresses_def)
next
  case (exec k a)
  have "keeps k (setKernelExecInfo a k)" by (simp add: argFrame_def uncacheable_def setKernelExecInfo_def)
  then show ?case using exec counts_keeps [of k "setKernelExecInfo a k"] by (simp add: kernel_inv_def setKernelExecInfo_def)
next
  case (clear k)
  have "keeps k (clearKernelExecInfo k)" by (simp add: argFrame_def uncacheable_def clearKernelExecInfo_def)
  then show ?case using clear counts_keeps [of k "clearKernelExecInfo k"] by (simp add: kernel_inv_def clearKernelExecInfo_def)
qed

interpretation kernel_object: step_invariant kernel_step "kernel_inv info" for info
  by unfold_locales (rule kernel_step_inv)

lemma keeps_implicit: "patchWithImplicitSurface P v a t k = Inr k' \<Longrightarrow> keeps k k'"
  by (auto simp: patchWithImplicitSurface_def Let_def kernel_frame dest!: keeps_patchRequired split: if_splits)

lemma keeps_programSurface: "initProgramSurface P s t k = Inr k' \<Longrightarrow> keeps k k'"
  by (auto simp: initProgramSurface_def dest: keeps_implicit split: option.splits)

lemma keeps_nullSurface: "keeps k (initNullSurface t k)"
  by (simp add: initNullSurface_def kernel_frame split: option.split)

lemma keeps_blocks: "patchBlocksSimdSize P cs k = Inr k' \<Longrightarrow> keeps k k'"
  by (induction P cs k rule: patchBlocksSimdSize.induct) (auto dest: keeps_patchAt split: if_splits)

lemma keeps_crossThread: "initCrossThreadData P k = Inr k' \<Longrightarrow> keeps k k'"
  by (auto simp: initCrossThreadData_def Let_def kernel_frame dest!: keeps_patchAll split: if_splits option.splits)

lemma keeps_private: "initPrivateSurface P k = Inr (Some k') \<Longrightarrow> keeps k k'"
proof -
  have "keeps k (k\<lparr>k_privateSurface := a\<rparr>)" for a by (simp add: argFrame_def uncacheable_def)
  then show "initPrivateSurface P k = Inr (Some k') \<Longrightarrow> keeps k k'"
    by (auto simp: initPrivateSurface_def Let_def dest!: keeps_implicit split: option.splits if_splits)
qed

lemma initialize_decomp:
  assumes "initialize P k = Inr (CL_SUCCESS, k')"
  obtains k1 where "keeps k k1" "k' = initArguments P k1"
proof -
  let ?pi = "ki_patchInfo (k_info k)"
  obtain k1 where 1: "initCrossThreadData P k = Inr k1" using assms by (auto simp: initialize_def Let_def)
  then obtain r where r: "initPrivateSurface P k1 = Inr r" using assms by (auto simp: initialize_def Let_def)
  then obtain k2 where 2: "r = Some k2" using assms 1
    by (cases r) (auto simp: initialize_def Let_def CL_SUCCESS_def CL_OUT_OF_RESOURCES_def)
  then obtain k3 where 3: "initProgramSurface P (pv_constantSurface P) (pi_pAllocateStatelessConstantMemorySurface ?pi) k2 = Inr k3"
    using assms 1 r by (auto simp: initialize_def Let_def)
  then obtain k4 where 4: "initProgramSurface P (pv_globalSurface P) (pi_pAllocateStatelessGlobalMemorySurface ?pi) k3 = Inr k4"
    using assms 1 r 2 by (auto simp: initialize_def Let_def)
  let ?k5 = "initNullSurface (pi_pAllocateStatelessDefaultDeviceQueueSurface ?pi) (initNullSurface (pi_pAllocateStatelessEventPoolSurface ?pi) k4)"
  obtain k6 where 6: "patchBlocksSimdSize P (ki_childrenKernelsIdOffset (k_info ?k5)) ?k5 = Inr k6" and k': "k' = initArguments P k6"
    using assms 1 r 2 3 4 by (auto simp: initialize_def Let_def)
  have "keeps k k6"
    using keeps_crossThread [OF 1] keeps_private [OF r [unfolded 2]] keeps_programSurface [OF 3] keeps_programSurface [OF 4]
      keeps_nullSurface [where k = k4] keeps_nullSurface [where k = "initNullSurface (pi_pAllocateStatelessEventPoolSurface ?pi) k4"] keeps_blocks [OF 6]
    by metis
  then show ?thesis using that k' by blast
qed

lemma kernel_created_inv:
  assumes "Kernel_create P info = Inr (r, Some k)" "length (ki_kernelArgInfo info) < 2 ^ 32"
  shows "kernel_inv info k"
proof -
  have "initialize P (Kernel_ctor info) = Inr (CL_SUCCESS, k)" using assms(1) by (auto simp: Kernel_create_def split: if_splits)
  then obtain k1 where f: "keeps (Kernel_ctor info) k1" and k: "k = initArguments P k1" by (rule initialize_decomp)
  have c: "trues (map (\<lambda>_. False) xs) = 0" for xs :: "KernelArgInfo list" by (induction xs) (simp_all add: trues_def)
  have "k_info k1 = info" "k_patchedArgumentsNum k1 = 0" "k_uncacheableArgsCount k1 = 0"
    using argFrame_eqD [of k1 "Kernel_ctor info"] f by (simp_all add: Kernel_ctor_def)
  then show ?thesis using assms(2) c
    by (simp add: k kernel_inv_def counts_inv_def patched_inv_def Let_def initArguments_def uncacheable_def o_def SimpleKernelArgInfo_default_def)
qed

lemma trues_card: "trues bs = card {i. i < length bs \<and> bs ! i}"
  by (simp add: trues_def length_filter_conv_card)

lemma trues_all: "trues bs = length bs \<longleftrightarrow> (\<forall>i < length bs. bs ! i)"
proof (induction bs)
  case (Cons b bs)
  then show ?case using trues_le [of bs] by (cases b) (auto simp: trues_def All_less_Suc2 simp flip: not_less)
qed (simp add: trues_def)

text \<open>Claim C10. In every run of an application on a kernel object it created, the counter of patched arguments is the
  number of arguments that are set, and that of uncacheable arguments the number of arguments so marked.
  \<^verbatim>\<open>isPatched\<close> compares numbers: it holds exactly when as many arguments are set as the binary has arguments to patch. When
  each argument of the kernel has to be patched, that is when every argument is set; when some argument has no place
  to patch, a kernel with every argument set is not patched.\<close>

theorem argument_counters_exact:
  assumes "Kernel_create P info = Inr (r, Some k0)" "kernel_step\<^sup>*\<^sup>* k0 k" "length (ki_kernelArgInfo info) < 2 ^ 32"
  shows "k_patchedArgumentsNum k = card {i. i < length (ki_kernelArgInfo info) \<and> sk_isPatched (k_arguments k ! i)} \<and>
    k_uncacheableArgsCount k = card {i. i < length (ki_kernelArgInfo info) \<and> sk_isUncacheable (k_arguments k ! i)} \<and>
    isPatched k = (card {i. i < length (ki_kernelArgInfo info) \<and> sk_isPatched (k_arguments k ! i)} = ki_argumentsToPatchNum info) \<and>
    (ki_argumentsToPatchNum info = length (ki_kernelArgInfo info) \<longrightarrow>
     isPatched k = (\<forall>i < length (ki_kernelArgInfo info). sk_isPatched (k_arguments k ! i))) \<and>
    (ki_argumentsToPatchNum info \<noteq> length (ki_kernelArgInfo info) \<longrightarrow>
     (\<forall>i < length (ki_kernelArgInfo info). sk_isPatched (k_arguments k ! i)) \<longrightarrow> \<not> isPatched k)"
proof -
  have "kernel_inv info k" by (rule kernel_object.run_inv [OF assms(2) kernel_created_inv [OF assms(1, 3)]])
  then have l: "length (k_arguments k) = length (ki_kernelArgInfo info)" and info: "k_info k = info"
    and p: "k_patchedArgumentsNum k = trues (map sk_isPatched (k_arguments k))"
    and u: "k_uncacheableArgsCount k = trues (map sk_isUncacheable (k_arguments k))"
    by (simp_all add: kernel_inv_def counts_inv_def patched_inv_def Let_def uncacheable_def)
  have c: "trues (map f (k_arguments k)) = card {i. i < length (ki_kernelArgInfo info) \<and> f (k_arguments k ! i)}" for f
    by (simp add: trues_card l cong: conj_cong)
  have "trues (map sk_isPatched (k_arguments k)) = length (ki_kernelArgInfo info) \<longleftrightarrow>
      (\<forall>i < length (ki_kernelArgInfo info). sk_isPatched (k_arguments k ! i))"
    using trues_all [of "map sk_isPatched (k_arguments k)"] l by simp
  moreover have "isPatched k = (trues (map sk_isPatched (k_arguments k)) = ki_argumentsToPatchNum info)"
    using p info by (simp add: isPatched_def)
  ultimately show ?thesis using p u c by auto
qed


text \<open>A kernel of an immediate argument of four bytes and a buffer.\<close>

definition sampleInfo :: KernelInfo where
  "sampleInfo = KernelInfo_ctor
     \<lparr>ki_kernelArgInfo := [KernelArgInfo_default\<lparr>ka_needPatch := True,
          ka_kernelArgPatchInfoVector := [\<lparr>kap_crossthreadOffset = 0, kap_size = 4, kap_sourceOffset = 0\<rparr>]\<rparr>,
        KernelArgInfo_default\<lparr>ka_needPatch := True, ka_isBuffer := True,
          ka_kernelArgPatchInfoVector := [\<lparr>kap_crossthreadOffset = 8, kap_size = 8, kap_sourceOffset = 0\<rparr>]\<rparr>],
      ki_argumentsToPatchNum := 2,
      ki_patchInfo := PatchInfo_ctor\<lparr>pi_dataParameterStream := Some 16\<rparr>\<rparr>"

definition sampleProgram :: ProgramView where
  "sampleProgram =
     \<lparr>pv_constantSurface = None, pv_globalSurface = None, pv_kernelAllocation = None, pv_blocks = [],
      pv_surfaceStateHeapSize = 0, pv_maxWorkGroupSize = 256, pv_computeUnitsUsedForScratch = 1,
      pv_force32BitAllocations = False, pv_allocate = (\<lambda>_. None), pv_renderCompressedBuffers = False,
      pv_cacheFlushAfterWalker = False\<rparr>"

text \<open>The memory of the application holds the handle 5, of a live buffer, at the address 100.\<close>

definition sampleAllocation :: AllocationView where
  "sampleAllocation =
     \<lparr>av_id = 70, av_gpuAddress = 4096, av_gpuAddressToPatch = 4096, av_underlyingBuffer = 4096, av_size = 64,
      av_flushL3Required = False, av_writableFlags = False, av_isCoherent = False, av_compressed = False\<rparr>"

definition sampleBuffer :: MemObjView where
  "sampleBuffer =
     \<lparr>mo_allocation = sampleAllocation, mo_mcsAllocation = None, mo_context = 1, mo_sharingHandler = False, mo_offset = 0,
      mo_cpuAddress = 0, mo_size = 64, mo_uncacheable = False, mo_writeOnly = False, mo_readOnly = False\<rparr>"

definition sampleEnv :: KernelEnv where
  "sampleEnv =
     \<lparr>ke_memory = (\<lambda>a. if a = 100 then 5 else 0), ke_objects = [5 \<mapsto> BufferObject sampleBuffer], ke_context = 1,
      ke_canTransformImages = True, ke_samplerObjectVme = 1, ke_samplerObjectVe = 2, ke_setExplicitArg = None\<rparr>"

lemmas sample_defs = sampleInfo_def sampleProgram_def sampleAllocation_def sampleBuffer_def sampleEnv_def
  KernelInfo_ctor_def PatchInfo_ctor_def KernelArgInfo_default_def WorkloadInfo_ctor_def Kernel_ctor_def

definition sampleKernel :: Kernel where
  "sampleKernel = initArguments sampleProgram
     ((Kernel_ctor sampleInfo)\<lparr>k_crossThreadData := replicate 16 0\<rparr>)"

lemma sample_created: "Kernel_create sampleProgram sampleInfo = Inr (CL_SUCCESS, Some sampleKernel)"
  by (simp add: Kernel_create_def initialize_def initCrossThreadData_def initPrivateSurface_def initProgramSurface_def
      initNullSurface_def patch32_def patchAll.simps sampleKernel_def sample_defs undefinedOffset32_def Let_def)

definition sampleSet :: Kernel where
  "sampleSet = (case setArg sampleEnv 1 8 (Some 100) sampleKernel of Inr (_, k) \<Rightarrow> k | Inl _ \<Rightarrow> sampleKernel)"

lemmas argument_defs = setArg_def finishSetArg_def setArgBuffer_def setArgImmediate_def storeImmediate_def patchBufferOffset_def
  patchFirst_def firstPatchInfo_def patchWithRequiredSize_def patchAt_def storeKernelArg_def updateArgument_def
  addAllocationToCacheFlushVector_def markPatched_def resolveKernelArgs_def requiresSshForBuffers_def isPatched_def
  castToBuffer_def castToMemObj_def readHandle_def appBytes_def allocationForCacheFlush_def flagValue_def

lemma sample_set: "setArg sampleEnv 1 8 (Some 100) sampleKernel = Inr (CL_SUCCESS, sampleSet)"
  by (simp add: sampleSet_def argument_defs sampleKernel_def initArguments_def argHandler_def sample_defs
      CL_KERNEL_ARG_ADDRESS_LOCAL_def CL_KERNEL_ARG_ADDRESS_GLOBAL_def store_def upt_rec
      SimpleKernelArgInfo_default_def undefinedOffset32_def Let_def split_def)


theorem argument_counters_exact_witness:
  "k_patchedArgumentsNum sampleSet = card {i. i < length (ki_kernelArgInfo sampleInfo) \<and> sk_isPatched (k_arguments sampleSet ! i)}"
proof -
  have "kernel_step sampleKernel sampleSet"
  proof (rule kernel_step.set [of sampleEnv 1 8 "Some 100" _ CL_SUCCESS])
    show "clSetKernelArg sampleEnv 1 8 (Some 100) (Some sampleKernel) = Inr (CL_SUCCESS, Some sampleSet)"
      using sample_set
      by (simp add: clSetKernelArg_def checkCorrectImageAccessQualifier_def) (simp add: sampleKernel_def initArguments_def sample_defs)
  qed (simp add: sampleEnv_def)
  then show ?thesis using argument_counters_exact [OF sample_created r_into_rtranclp] by (simp add: sampleInfo_def)
qed

section \<open>Residency of a blocked enqueue\<close>







end
