(* ===== verification/Kernel_Layout.thy ===== *)
theory Kernel_Layout
  imports Kernel_Properties
begin

text \<open>
  Local arguments share one region of local memory: each is placed behind those before it, at its alignment.
  The layout from the first argument to the last is the reference; \<^verbatim>\<open>setArgLocal\<close> updates it in place from the
  argument that is set.
\<close>

section \<open>The reference layout\<close>

text \<open>The end of a list of arguments, given by alignment (0 for one that is not local) and size.\<close>

fun slmEnd :: "(nat \<times> nat) list \<Rightarrow> nat \<Rightarrow> nat" where
  "slmEnd [] off = off"
| "slmEnd ((al, sz) # xs) off = slmEnd xs (wrap32 ((if al \<noteq> 0 then alignUp32 off al else off) + wrap32 sz))"

definition slmAlign :: "Kernel \<Rightarrow> nat \<Rightarrow> nat" where
  "slmAlign k j = ka_slmAlignment (argInfo k j)"

definition slmPrefix :: "Kernel \<Rightarrow> nat \<Rightarrow> nat" where
  "slmPrefix k j = slmEnd (map (\<lambda>m. (slmAlign k m, k_slmSizes k ! m)) [0..<j]) 0"

definition slmStart :: "Kernel \<Rightarrow> nat \<Rightarrow> nat" where
  "slmStart k j = alignUp32 (slmPrefix k j) (slmAlign k j)"

definition slmSlot :: "Kernel \<Rightarrow> nat \<Rightarrow> nat" where
  "slmSlot k j = kap_crossthreadOffset (hd (ka_kernelArgPatchInfoVector (argInfo k j)))"

text \<open>Every local argument has a place of its own in the cross thread data.\<close>

definition slm_slots :: "Kernel \<Rightarrow> bool" where
  "slm_slots k \<longleftrightarrow>
     (\<forall>j < length (k_slmSizes k). slmAlign k j \<noteq> 0 \<longrightarrow>
        ka_kernelArgPatchInfoVector (argInfo k j) \<noteq> [] \<and> slmSlot k j + 4 \<le> length (k_crossThreadData k) \<and>
        (\<forall>m < length (k_slmSizes k). slmAlign k m \<noteq> 0 \<longrightarrow> m \<noteq> j \<longrightarrow>
           slmSlot k j + 4 \<le> slmSlot k m \<or> slmSlot k m + 4 \<le> slmSlot k j))"

definition slmField :: "Kernel \<Rightarrow> nat \<Rightarrow> nat rt_result" where
  "slmField k j = loadField 0 (k_crossThreadData k) (slmSlot k j) 4"

definition slm_laid_out :: "Kernel \<Rightarrow> nat \<Rightarrow> bool" where
  "slm_laid_out k j \<longleftrightarrow> (slmAlign k j \<noteq> 0 \<longrightarrow> slmField k j = Inr (slmStart k j))"

lemma alignUp32_lt: "alignUp32 x a < 4294967296"
  using unsigned_less [of "(word_of_nat x :: u32) + word_of_nat (a - 1) AND NOT (word_of_nat (a - 1))"]
  by (simp add: alignUp32_def)

lemma alignUp32_zero: "alignUp32 0 a = 0"
  by (simp add: alignUp32_def)

lemma slmEnd_append: "slmEnd (xs @ ys) off = slmEnd ys (slmEnd xs off)"
  by (induction xs off rule: slmEnd.induct) auto

lemma slmPrefix_Suc:
  "slmPrefix k (Suc j) = wrap32 ((if slmAlign k j \<noteq> 0 then slmStart k j else slmPrefix k j) + wrap32 (k_slmSizes k ! j))"
  by (simp add: slmPrefix_def slmStart_def slmEnd_append)

section \<open>Fields of the cross thread data\<close>

lemma loadField_store_same:
  assumes "store off (le_bytes 4 v) d = Inr d'" "v < 4294967296"
  shows "loadField 0 d' off 4 = Inr v"
  using assms by (auto simp: store_def loadField_def load_def bytesAt_def min_def split: if_splits)

lemma loadField_store_other:
  assumes "store off (le_bytes 4 v) d = Inr d'" "p + 4 \<le> off \<or> off + 4 \<le> p" "p + 4 \<le> length d"
  shows "loadField 0 d' p 4 = loadField 0 d p 4"
proof -
  have o: "off + 4 \<le> length d" using assms(1) by (simp add: store_def split: if_splits)
  then have "d' = overwrite off (le_bytes 4 v) d" using assms(1) by simp
  then show ?thesis using assms(2, 3) o by (auto simp: loadField_def load_def)
qed

lemma store_length: "store off bs d = Inr d' \<Longrightarrow> length d' = length d"
  by (auto simp: store_def split: if_splits)

text \<open>The parts of a kernel that the layout of local arguments reads, beside the fields.\<close>

lemma slm_data_cong:
  "slmAlign (k\<lparr>k_crossThreadData := bs\<rparr>) j = slmAlign k j" "slmPrefix (k\<lparr>k_crossThreadData := bs\<rparr>) j = slmPrefix k j"
  "slmStart (k\<lparr>k_crossThreadData := bs\<rparr>) j = slmStart k j" "slmSlot (k\<lparr>k_crossThreadData := bs\<rparr>) j = slmSlot k j"
  by (simp_all add: slmAlign_def slmPrefix_def slmStart_def slmSlot_def)

lemma slmLoop_lays_out:
  assumes "slm_slots k" "j \<le> length (k_slmSizes k)"
  shows "\<exists>bs. slmLoop [j..<length (k_slmSizes k)] (slmPrefix k j) k =
      Inr (slmPrefix k (length (k_slmSizes k)), k\<lparr>k_crossThreadData := bs\<rparr>) \<and> length bs = length (k_crossThreadData k) \<and>
    (\<forall>m. j \<le> m \<longrightarrow> m < length (k_slmSizes k) \<longrightarrow> slm_laid_out (k\<lparr>k_crossThreadData := bs\<rparr>) m) \<and>
    (\<forall>m < j. slmAlign k m \<noteq> 0 \<longrightarrow> slmField (k\<lparr>k_crossThreadData := bs\<rparr>) m = slmField k m)"
  using assms
proof (induction "length (k_slmSizes k) - j" arbitrary: j k)
  case 0
  then show ?case by (intro exI [of _ "k_crossThreadData k"]) simp
next
  case (Suc n)
  let ?n = "length (k_slmSizes k)"
  have j: "j < ?n" "n = ?n - Suc j" using Suc.hyps(2) by simp_all
  then have up: "[j..<?n] = j # [Suc j..<?n]" by (simp add: upt_conv_Cons)
  show ?case
  proof (cases "slmAlign k j = 0")
    case True
    have "slmLoop [j..<?n] (slmPrefix k j) k = slmLoop [Suc j..<?n] (slmPrefix k (Suc j)) k"
      using True by (simp add: up slmPrefix_Suc Let_def slmAlign_def)
    moreover obtain bs where "slmLoop [Suc j..<?n] (slmPrefix k (Suc j)) k = Inr (slmPrefix k ?n, k\<lparr>k_crossThreadData := bs\<rparr>)"
      "length bs = length (k_crossThreadData k)"
      "\<forall>m. Suc j \<le> m \<longrightarrow> m < ?n \<longrightarrow> slm_laid_out (k\<lparr>k_crossThreadData := bs\<rparr>) m"
      "\<forall>m < Suc j. slmAlign k m \<noteq> 0 \<longrightarrow> slmField (k\<lparr>k_crossThreadData := bs\<rparr>) m = slmField k m"
      using Suc.hyps(1) [of k "Suc j"] Suc.prems j by auto
    moreover have "slm_laid_out (k\<lparr>k_crossThreadData := bs\<rparr>) j" for bs using True by (simp add: slm_laid_out_def slm_data_cong)
    ultimately show ?thesis by (metis Suc_leI less_Suc_eq order_le_less)
  next
    case False
    have pv: "ka_kernelArgPatchInfoVector (argInfo k j) \<noteq> []" "slmSlot k j + 4 \<le> length (k_crossThreadData k)"
      using Suc.prems(1) j False by (auto simp: slm_slots_def)
    then obtain p ps where p: "ka_kernelArgPatchInfoVector (argInfo k j) = p # ps" by (cases "ka_kernelArgPatchInfoVector (argInfo k j)") auto
    have slot: "kap_crossthreadOffset p = slmSlot k j" by (simp add: slmSlot_def p)
    obtain d1 where d1: "store (slmSlot k j) (le_bytes 4 (slmStart k j)) (k_crossThreadData k) = Inr d1" using pv by simp
    define k1 where "k1 = k\<lparr>k_crossThreadData := d1\<rparr>"
    have l1: "length d1 = length (k_crossThreadData k)" by (rule store_length [OF d1])
    have c1: "slmAlign k1 = slmAlign k" "slmPrefix k1 = slmPrefix k" "slmStart k1 = slmStart k" "slmSlot k1 = slmSlot k"
      "k_slmSizes k1 = k_slmSizes k"
      by (rule ext, simp add: k1_def slm_data_cong)+ (simp add: k1_def)
    have slots1: "slm_slots k1" using Suc.prems(1) l1 unfolding slm_slots_def c1 by (simp add: k1_def)
    have step: "slmLoop [j..<?n] (slmPrefix k j) k = slmLoop [Suc j..<?n] (slmPrefix k (Suc j)) k1"
      using False p slot d1
      by (simp add: up slmPrefix_Suc Let_def slmAlign_def slmStart_def firstPatchInfo_def patchAt_def k1_def)
    obtain bs where b: "slmLoop [Suc j..<?n] (slmPrefix k (Suc j)) k1 = Inr (slmPrefix k ?n, k1\<lparr>k_crossThreadData := bs\<rparr>)"
      "length bs = length (k_crossThreadData k1)"
      "\<And>m. Suc j \<le> m \<Longrightarrow> m < ?n \<Longrightarrow> slm_laid_out (k1\<lparr>k_crossThreadData := bs\<rparr>) m"
      "\<And>m. m < Suc j \<Longrightarrow> slmAlign k m \<noteq> 0 \<Longrightarrow> slmField (k1\<lparr>k_crossThreadData := bs\<rparr>) m = slmField k1 m"
      using Suc.hyps(1) [of k1 "Suc j"] slots1 j unfolding c1 by auto
    have k1bs: "k1\<lparr>k_crossThreadData := bs\<rparr> = k\<lparr>k_crossThreadData := bs\<rparr>" by (simp add: k1_def)
    have fj: "slmField k1 j = Inr (slmStart k j)"
      using loadField_store_same [OF d1] alignUp32_lt by (simp add: slmField_def c1) (simp add: k1_def slmStart_def)
    have fo: "slmField k1 m = slmField k m" if "m < j" "slmAlign k m \<noteq> 0" for m
    proof -
      have "slmSlot k m + 4 \<le> slmSlot k j \<or> slmSlot k j + 4 \<le> slmSlot k m" "slmSlot k m + 4 \<le> length (k_crossThreadData k)"
        using Suc.prems(1) j that False unfolding slm_slots_def by (metis less_trans nat_less_le)+
      then show ?thesis using loadField_store_other [OF d1] by (simp add: slmField_def c1) (simp add: k1_def)
    qed
    have at_j: "slm_laid_out (k\<lparr>k_crossThreadData := bs\<rparr>) j"
      using b(4) [of j] fj False k1bs by (simp add: slm_laid_out_def slm_data_cong)
    show ?thesis
    proof (intro exI [of _ bs] conjI allI impI)
      show "slmLoop [j..<?n] (slmPrefix k j) k = Inr (slmPrefix k ?n, k\<lparr>k_crossThreadData := bs\<rparr>)" using step b(1) k1bs by simp
      show "length bs = length (k_crossThreadData k)" using b(2) l1 by (simp add: k1_def)
    next
      fix m assume "j \<le> m" "m < ?n"
      then show "slm_laid_out (k\<lparr>k_crossThreadData := bs\<rparr>) m" using at_j b(3) [of m] k1bs by (cases "m = j") auto
    next
      fix m assume "m < j" "slmAlign k m \<noteq> 0"
      then show "slmField (k\<lparr>k_crossThreadData := bs\<rparr>) m = slmField k m" using b(4) [of m] fo [of m] k1bs by simp
    qed
  qed
qed


section \<open>Setting local arguments\<close>

definition slm_inv :: "Kernel \<Rightarrow> bool" where
  "slm_inv k \<longleftrightarrow> slm_slots k \<and> length (k_slmSizes k) \<le> length (k_arguments k) \<and> (\<forall>j < length (k_slmSizes k). slm_laid_out k j)"

lemma slmPrefix_cong:
  assumes "\<And>m. m < j \<Longrightarrow> slmAlign k' m = slmAlign k m \<and> k_slmSizes k' ! m = k_slmSizes k ! m"
  shows "slmPrefix k' j = slmPrefix k j"
  unfolding slmPrefix_def using assms by (metis (no_types, lifting) map_cong atLeast_upt lessThan_iff)

lemma setArgLocal_lays_out:
  assumes inv: "slm_inv k" and i: "i < length (k_slmSizes k)" "slmAlign k i \<noteq> 0"
  shows "\<exists>k'. setArgLocal i sz v k = Inr (CL_SUCCESS, k') \<and> slm_inv k' \<and> k_slmSizes k' = (k_slmSizes k)[i := sz] \<and>
    k_info k' = k_info k \<and>
    k_slmTotalSize k' = wrap32 (wl_slmStaticSize (ki_workloadInfo (k_info k')) +
      alignUp32 (slmPrefix k' (length (k_slmSizes k'))) 1024)"
proof -
  let ?n = "length (k_slmSizes k)"
  define k1 where "k1 = (storeKernelArg i SLM_OBJ None v sz None 0 k)\<lparr>k_slmSizes := (k_slmSizes k)[i := sz]\<rparr>"
  have e1: "k_info k1 = k_info k" "k_crossThreadData k1 = k_crossThreadData k" "k_slmSizes k1 = (k_slmSizes k)[i := sz]"
    "length (k_arguments k1) = length (k_arguments k)"
    by (simp_all add: k1_def storeKernelArg_def updateArgument_def)
  have c1: "slmAlign k1 = slmAlign k" "slmSlot k1 = slmSlot k" "length (k_slmSizes k1) = ?n"
    by (rule ext, simp add: slmAlign_def slmSlot_def e1)+ (simp add: e1)
  have slots1: "slm_slots k1" using inv unfolding slm_inv_def slm_slots_def c1 e1 by simp
  have pre: "slmPrefix k1 j = slmPrefix k j" if "j \<le> i" for j
    using that by (intro slmPrefix_cong) (simp add: c1 e1)
  have start: "slmStart k1 j = slmStart k j" if "j \<le> i" for j using pre that by (simp add: slmStart_def c1)
  have field: "slmField k1 j = slmField k j" for j by (simp add: slmField_def c1 e1)
  obtain p ps where p: "ka_kernelArgPatchInfoVector (argInfo k i) = p # ps"
    using inv i by (cases "ka_kernelArgPatchInfoVector (argInfo k i)") (auto simp: slm_inv_def slm_slots_def)
  have own: "loadField 0 (k_crossThreadData k) (kap_crossthreadOffset p) 4 = Inr (slmStart k i)"
    using inv i p by (auto simp: slm_inv_def slm_laid_out_def slmField_def slmSlot_def)
  have suc: "slmPrefix k1 (i + 1) = wrap32 (slmStart k i + wrap32 sz)"
    using i start [of i] by (simp add: slmPrefix_Suc c1 e1)
  obtain bs where b: "slmLoop [i + 1..<?n] (slmPrefix k1 (i + 1)) k1 = Inr (slmPrefix k1 ?n, k1\<lparr>k_crossThreadData := bs\<rparr>)"
    "length bs = length (k_crossThreadData k1)"
    "\<And>m. i + 1 \<le> m \<Longrightarrow> m < ?n \<Longrightarrow> slm_laid_out (k1\<lparr>k_crossThreadData := bs\<rparr>) m"
    "\<And>m. m < i + 1 \<Longrightarrow> slmAlign k1 m \<noteq> 0 \<Longrightarrow> slmField (k1\<lparr>k_crossThreadData := bs\<rparr>) m = slmField k1 m"
    using slmLoop_lays_out [OF slots1, of "i + 1"] i c1(3) by auto
  define k2 where "k2 = k1\<lparr>k_crossThreadData := bs\<rparr>"
  define k' where "k' = k2\<lparr>k_slmTotalSize := wrap32 (wl_slmStaticSize (ki_workloadInfo (k_info k2)) + alignUp32 (slmPrefix k1 ?n) 1024)\<rparr>"
  have unf: "setArgLocal i sz v k = rt_bind (firstPatchInfo (argInfo k1 i)) (\<lambda>p.
      rt_bind (loadField 0 (k_crossThreadData k1) (kap_crossthreadOffset p) 4) (\<lambda>slmOffset.
      rt_bind (slmLoop [i + 1..<length (k_slmSizes k1)] (wrap32 (slmOffset + wrap32 sz)) k1) (\<lambda>(slmOffset, k).
      Inr (CL_SUCCESS, k\<lparr>k_slmTotalSize :=
        wrap32 (wl_slmStaticSize (ki_workloadInfo (k_info k)) + alignUp32 slmOffset 1024)\<rparr>))))"
    unfolding setArgLocal_def Let_def k1_def by (simp add: storeKernelArg_def updateArgument_def)
  have res: "setArgLocal i sz v k = Inr (CL_SUCCESS, k')"
    unfolding unf using p own b(1) [unfolded suc] by (simp add: firstPatchInfo_def k'_def k2_def e1 c1)
  have c2: "slmAlign k' = slmAlign k" "slmSlot k' = slmSlot k" "slmPrefix k' = slmPrefix k1" "slmStart k' = slmStart k1"
    "k_slmSizes k' = (k_slmSizes k)[i := sz]" "k_crossThreadData k' = bs" "k_info k' = k_info k"
    by (rule ext, simp add: k'_def k2_def slmAlign_def slmSlot_def slmPrefix_def slmStart_def e1 c1)+
      (simp_all add: k'_def k2_def e1)
  have f2: "slmField k' j = slmField (k1\<lparr>k_crossThreadData := bs\<rparr>) j" for j
    by (simp add: slmField_def c2 slm_data_cong c1)
  have laid: "slm_laid_out k' j" if "j < ?n" for j
  proof (cases "j \<le> i")
    case True
    then show ?thesis using inv that b(4) [of j] field [of j] start [of j] by (auto simp: slm_laid_out_def slm_inv_def f2 c2 c1)
  next
    case False
    then show ?thesis using that b(3) [of j] by (simp add: slm_laid_out_def f2 c2 slm_data_cong c1)
  qed
  have "slm_slots k'" using slots1 b(2) unfolding slm_slots_def c2 c1 e1 by (simp add: c1 e1 c2)
  moreover have "length (k_arguments k') = length (k_arguments k)" by (simp add: k'_def k2_def e1)
  ultimately have "slm_inv k'" using laid inv by (simp add: slm_inv_def c2)
  then show ?thesis using res c2 by (intro exI [of _ k']) (simp add: k'_def k2_def e1)
qed

text \<open>A sequence of calls that set local arguments.\<close>

fun setLocals :: "(nat \<times> nat) list \<Rightarrow> Kernel \<Rightarrow> Kernel rt_result" where
  "setLocals [] k = Inr k"
| "setLocals ((i, sz) # sets) k = rt_bind (setArgLocal i sz None k) (\<lambda>(_, k). setLocals sets k)"


lemma setLocals_lays_out:
  assumes "slm_inv k" "\<forall>(i, sz) \<in> set sets. i < length (k_slmSizes k) \<and> slmAlign k i \<noteq> 0"
  shows "\<exists>k'. setLocals sets k = Inr k' \<and> slm_inv k' \<and> k_info k' = k_info k \<and>
    k_slmSizes k' = fold (\<lambda>(i, sz) xs. xs[i := sz]) sets (k_slmSizes k) \<and>
    (sets \<noteq> [] \<longrightarrow> k_slmTotalSize k' = wrap32 (wl_slmStaticSize (ki_workloadInfo (k_info k')) +
      alignUp32 (slmPrefix k' (length (k_slmSizes k'))) 1024))"
  using assms
proof (induction sets arbitrary: k)
  case (Cons s sets)
  obtain i sz where s: "s = (i, sz)" by (cases s)
  have i: "i < length (k_slmSizes k)" "slmAlign k i \<noteq> 0" using Cons.prems(2) s by auto
  obtain k1 where k1: "setArgLocal i sz None k = Inr (CL_SUCCESS, k1)" "slm_inv k1" "k_slmSizes k1 = (k_slmSizes k)[i := sz]"
    "k_info k1 = k_info k"
    "k_slmTotalSize k1 = wrap32 (wl_slmStaticSize (ki_workloadInfo (k_info k1)) + alignUp32 (slmPrefix k1 (length (k_slmSizes k1))) 1024)"
    using setArgLocal_lays_out [OF Cons.prems(1) i, of sz None] by blast
  have al: "slmAlign k1 = slmAlign k" by (rule ext) (simp add: slmAlign_def k1(4))
  have "\<forall>(i, sz) \<in> set sets. i < length (k_slmSizes k1) \<and> slmAlign k1 i \<noteq> 0"
    using Cons.prems(2) al k1(3) by auto
  from Cons.IH [OF k1(2) this] obtain k' where k': "setLocals sets k1 = Inr k'" "slm_inv k'" "k_info k' = k_info k1"
    "k_slmSizes k' = fold (\<lambda>(i, sz) xs. xs[i := sz]) sets (k_slmSizes k1)"
    "sets \<noteq> [] \<longrightarrow> k_slmTotalSize k' = wrap32 (wl_slmStaticSize (ki_workloadInfo (k_info k')) +
      alignUp32 (slmPrefix k' (length (k_slmSizes k'))) 1024)" by blast
  have e: "sets = [] \<Longrightarrow> k' = k1" using k'(1) by simp
  show ?case
    by (intro exI [of _ k'] conjI impI; cases "sets = []")
      (use k1 k' s e in \<open>simp_all\<close>)
qed simp

text \<open>When no sum exceeds 32 bits and the alignments are powers of two, the regions are aligned and follow each other.\<close>

lemma alignUp32_pow2:
  assumes "x + 2 ^ b \<le> 2 ^ 32" "b < 32"
  shows "alignUp32 x (2 ^ b) = (x + (2 ^ b - 1)) div 2 ^ b * 2 ^ b"
proof -
  have pos: "(0 :: nat) < 2 ^ b" by simp
  have lt: "(2 :: nat) ^ b - 1 < 2 ^ 32" "x < 2 ^ 32" "x + (2 ^ b - 1) < 2 ^ 32" using assms(1) pos by linarith+
  have m: "(word_of_nat (2 ^ b - 1) :: u32) = mask b" by (simp add: mask_eq_exp_minus_1 of_nat_diff)
  have "unat (word_of_nat x + word_of_nat (2 ^ b - 1) :: u32) = (x + (2 ^ b - 1)) mod 2 ^ LENGTH(32)"
    unfolding of_nat_add [symmetric] unat_of_nat ..
  also have "\<dots> = x + (2 ^ b - 1)" using lt(3) by simp
  finally have "unat (word_of_nat x + mask b :: u32) = x + (2 ^ b - 1)" by (simp only: m)
  then show ?thesis unfolding alignUp32_def m unat_and_not_mask by (simp only:)
qed

lemma alignUp32_bounds:
  assumes "x + 2 ^ b \<le> 2 ^ 32" "b < 32"
  shows "x \<le> alignUp32 x (2 ^ b) \<and> alignUp32 x (2 ^ b) < x + 2 ^ b \<and> 2 ^ b dvd alignUp32 x (2 ^ b)"
proof -
  have "(x + (2 ^ b - 1)) div 2 ^ b * 2 ^ b + (x + (2 ^ b - 1)) mod 2 ^ b = x + (2 ^ b - 1)" by (rule div_mult_mod_eq)
  moreover have "(x + (2 ^ b - 1)) mod 2 ^ b < (2 :: nat) ^ b" by simp
  ultimately show ?thesis unfolding alignUp32_pow2 [OF assms] by (intro conjI) (linarith, linarith, simp)
qed

definition slm_fits :: "Kernel \<Rightarrow> bool" where
  "slm_fits k \<longleftrightarrow>
     (\<forall>j < length (k_slmSizes k). slmAlign k j = 0 \<or> (\<exists>b < 32. slmAlign k j = 2 ^ b)) \<and>
     (\<Sum>j < length (k_slmSizes k). k_slmSizes k ! j + slmAlign k j) < 2 ^ 32"

lemma slm_sum_mono:
  "j \<le> n \<Longrightarrow> (\<Sum>m < j. k_slmSizes k ! m + slmAlign k m) \<le> (\<Sum>m < n. k_slmSizes k ! m + slmAlign k m)"
  by (intro sum_mono2) auto

lemma slm_sum_lt:
  "slm_fits k \<Longrightarrow> j \<le> length (k_slmSizes k) \<Longrightarrow> (\<Sum>m < j. k_slmSizes k ! m + slmAlign k m) < 4294967296"
  using slm_sum_mono [of j "length (k_slmSizes k)" k] by (simp add: slm_fits_def)

lemma slmStart_bounds:
  assumes "slm_fits k" "j < length (k_slmSizes k)" "slmAlign k j \<noteq> 0" "slmPrefix k j \<le> (\<Sum>m < j. k_slmSizes k ! m + slmAlign k m)"
  shows "slmPrefix k j \<le> slmStart k j \<and> slmStart k j < slmPrefix k j + slmAlign k j \<and> slmAlign k j dvd slmStart k j"
proof -
  obtain b where b: "b < 32" "slmAlign k j = 2 ^ b" using assms(1-3) by (auto simp: slm_fits_def)
  have "slmPrefix k j + 2 ^ b \<le> 2 ^ 32" using slm_sum_lt [of k "Suc j"] assms b by simp
  from alignUp32_bounds [OF this b(1)] show ?thesis by (simp add: slmStart_def b(2))
qed

lemma slmPrefix_bound:
  assumes "slm_fits k" "j \<le> length (k_slmSizes k)"
  shows "slmPrefix k j \<le> (\<Sum>m < j. k_slmSizes k ! m + slmAlign k m)"
  using assms(2)
proof (induction j)
  case (Suc j)
  let ?x = "if slmAlign k j \<noteq> 0 then slmStart k j else slmPrefix k j"
  have ih: "slmPrefix k j \<le> (\<Sum>m < j. k_slmSizes k ! m + slmAlign k m)" using Suc by simp
  have "?x \<le> (\<Sum>m < j. k_slmSizes k ! m + slmAlign k m) + slmAlign k j"
    using slmStart_bounds [OF assms(1), of j] Suc.prems ih by auto
  moreover have "slmPrefix k (Suc j) \<le> ?x + k_slmSizes k ! j"
    unfolding slmPrefix_Suc by (meson add_left_mono le_trans mod_less_eq_dividend)
  ultimately show ?case by simp
qed (simp add: slmPrefix_def)

lemma slm_step:
  assumes "slm_fits k" "j < length (k_slmSizes k)"
  shows "slmPrefix k (Suc j) = (if slmAlign k j \<noteq> 0 then slmStart k j else slmPrefix k j) + k_slmSizes k ! j \<and>
    (slmAlign k j \<noteq> 0 \<longrightarrow> slmPrefix k j \<le> slmStart k j \<and> slmAlign k j dvd slmStart k j)"
proof -
  have ih: "slmPrefix k j \<le> (\<Sum>m < j. k_slmSizes k ! m + slmAlign k m)" using slmPrefix_bound [of k j] assms by simp
  have lt: "(\<Sum>m < j. k_slmSizes k ! m + slmAlign k m) + (k_slmSizes k ! j + slmAlign k j) < 4294967296"
    using slm_sum_lt [of k "Suc j"] assms by simp
  show ?thesis
    using slmStart_bounds [OF assms _ ih] ih lt by (cases "slmAlign k j = 0") (simp_all add: slmPrefix_Suc)
qed

lemma slmPrefix_mono:
  assumes "slm_fits k" "j \<le> n" "n \<le> length (k_slmSizes k)"
  shows "slmPrefix k j \<le> slmPrefix k n"
  using assms(2, 3)
proof (induction n rule: dec_induct)
  case (step m)
  then show ?case using slm_step [OF assms(1), of m] by (auto split: if_splits)
qed simp

lemma slm_regions:
  assumes "slm_fits k" "m < length (k_slmSizes k)" "slmAlign k m \<noteq> 0"
  shows "slmAlign k m dvd slmStart k m \<and> slmStart k m + k_slmSizes k ! m \<le> slmPrefix k (length (k_slmSizes k)) \<and>
    (\<forall>j < m. slmAlign k j \<noteq> 0 \<longrightarrow> slmStart k j + k_slmSizes k ! j \<le> slmStart k m)"
proof (intro conjI allI impI)
  show "slmAlign k m dvd slmStart k m" using slm_step [OF assms(1, 2)] assms(3) by simp
  show "slmStart k m + k_slmSizes k ! m \<le> slmPrefix k (length (k_slmSizes k))"
    using slm_step [OF assms(1, 2)] assms(3) slmPrefix_mono [OF assms(1), of "Suc m" "length (k_slmSizes k)"] assms(2) by simp
next
  fix j assume j: "j < m" "slmAlign k j \<noteq> 0"
  then have "slmStart k j + k_slmSizes k ! j = slmPrefix k (Suc j)" using slm_step [OF assms(1), of j] assms(2) by simp
  also have "\<dots> \<le> slmPrefix k m" using slmPrefix_mono [OF assms(1), of "Suc j" m] j assms(2) by simp
  also have "\<dots> \<le> slmStart k m" using slm_step [OF assms(1, 2)] assms(3) by simp
  finally show "slmStart k j + k_slmSizes k ! j \<le> slmStart k m" .
qed


lemma slmPrefix_zero:
  assumes "\<And>m. m < j \<Longrightarrow> k_slmSizes k ! m = 0"
  shows "slmPrefix k j = 0"
  using assms
proof (induction j)
  case (Suc j)
  then have "slmPrefix k j = 0" "k_slmSizes k ! j = 0" by simp_all
  then show ?case by (simp add: slmPrefix_Suc slmStart_def alignUp32_zero)
qed (simp add: slmPrefix_def)

lemma slm_inv_initial:
  assumes "slm_slots k" "k_slmSizes k = replicate n 0" "n \<le> length (k_arguments k)"
    "\<forall>j < n. slmAlign k j \<noteq> 0 \<longrightarrow> slmField k j = Inr 0"
  shows "slm_inv k"
proof -
  have "slmPrefix k j = 0" if "j < n" for j using slmPrefix_zero [of j k] assms(2) that by simp
  then show ?thesis using assms by (simp add: slm_inv_def slm_laid_out_def slmStart_def alignUp32_zero)
qed

text \<open>Claim C11. However often and in whatever order an application sets the local arguments of a fresh kernel, the calls
  succeed and the offsets in the cross thread data are those of the layout from the first argument to the last for the sizes last
  set; the total size is the end of that layout rounded up to a kilobyte and the static size. When the sizes
  and alignments sum up to less than 2 to the 32, each region is aligned, inside the total and disjoint from the others.\<close>

theorem local_arguments_laid_out:
  assumes "slm_slots k" "k_slmSizes k = replicate n 0" "n \<le> length (k_arguments k)"
    "\<forall>j < n. slmAlign k j \<noteq> 0 \<longrightarrow> slmField k j = Inr 0"
    "\<forall>(i, sz) \<in> set sets. i < n \<and> slmAlign k i \<noteq> 0"
  shows "\<exists>k'. setLocals sets k = Inr k' \<and>
    k_slmSizes k' = fold (\<lambda>(i, sz) xs. xs[i := sz]) sets (replicate n 0) \<and>
    (\<forall>j < n. slmAlign k j \<noteq> 0 \<longrightarrow> slmField k' j = Inr (slmStart k' j)) \<and>
    (sets \<noteq> [] \<longrightarrow> k_slmTotalSize k' = wrap32 (wl_slmStaticSize (ki_workloadInfo (k_info k)) + alignUp32 (slmPrefix k' n) 1024)) \<and>
    (slm_fits k' \<longrightarrow> (\<forall>m < n. slmAlign k m \<noteq> 0 \<longrightarrow>
       slmAlign k m dvd slmStart k' m \<and> slmStart k' m + k_slmSizes k' ! m \<le> slmPrefix k' n \<and>
       (\<forall>j < m. slmAlign k j \<noteq> 0 \<longrightarrow> slmStart k' j + k_slmSizes k' ! j \<le> slmStart k' m)))"
proof -
  have l: "length (k_slmSizes k) = n" using assms(2) by simp
  obtain k' where k': "setLocals sets k = Inr k'" "slm_inv k'" "k_info k' = k_info k"
    "k_slmSizes k' = fold (\<lambda>(i, sz) xs. xs[i := sz]) sets (k_slmSizes k)"
    "sets \<noteq> [] \<longrightarrow> k_slmTotalSize k' = wrap32 (wl_slmStaticSize (ki_workloadInfo (k_info k')) +
      alignUp32 (slmPrefix k' (length (k_slmSizes k'))) 1024)"
    using setLocals_lays_out [OF slm_inv_initial [OF assms(1-4)], of sets] assms(5) l by auto
  have al: "slmAlign k' = slmAlign k" by (rule ext) (simp add: slmAlign_def k'(3))
  have "length (fold (\<lambda>(i, sz) xs. xs[i := sz]) sets xs) = length xs" for xs :: "nat list"
    by (induction sets arbitrary: xs) auto
  then have l': "length (k_slmSizes k') = n" using k'(4) l by simp
  show ?thesis
  proof (intro exI [of _ k'] conjI impI allI)
    fix j assume "j < n" "slmAlign k j \<noteq> 0"
    then show "slmField k' j = Inr (slmStart k' j)" using k'(2) l' al by (simp add: slm_inv_def slm_laid_out_def)
  next
    fix m assume "slm_fits k'" "m < n" "slmAlign k m \<noteq> 0"
    then have r: "slmAlign k m dvd slmStart k' m \<and> slmStart k' m + k_slmSizes k' ! m \<le> slmPrefix k' n \<and>
       (\<forall>j < m. slmAlign k j \<noteq> 0 \<longrightarrow> slmStart k' j + k_slmSizes k' ! j \<le> slmStart k' m)"
      using slm_regions [of k' m] l' al by simp
    show "slmAlign k m dvd slmStart k' m" using r by blast
    show "slmStart k' m + k_slmSizes k' ! m \<le> slmPrefix k' n" using r by blast
    fix j assume "j < m" "slmAlign k j \<noteq> 0"
    then show "slmStart k' j + k_slmSizes k' ! j \<le> slmStart k' m" using r by blast
  qed (use k' l' assms(2) in simp_all)
qed

text \<open>Three arguments: a local one, an immediate one and a local one of alignment 64.\<close>

definition localInfo :: KernelInfo where
  "localInfo = KernelInfo_ctor
     \<lparr>ki_kernelArgInfo := [KernelArgInfo_default\<lparr>ka_slmAlignment := 4,
          ka_kernelArgPatchInfoVector := [\<lparr>kap_crossthreadOffset = 0, kap_size = 4, kap_sourceOffset = 0\<rparr>]\<rparr>,
        KernelArgInfo_default,
        KernelArgInfo_default\<lparr>ka_slmAlignment := 64,
          ka_kernelArgPatchInfoVector := [\<lparr>kap_crossthreadOffset = 8, kap_size = 4, kap_sourceOffset = 0\<rparr>]\<rparr>]\<rparr>"

definition localKernel :: Kernel where
  "localKernel = (Kernel_ctor localInfo)\<lparr>k_crossThreadData := replicate 16 0, k_slmSizes := [0, 0, 0],
     k_arguments := [SimpleKernelArgInfo_default, SimpleKernelArgInfo_default, SimpleKernelArgInfo_default]\<rparr>"

theorem local_arguments_laid_out_witness:
  "\<exists>k'. setLocals [(2, 100), (0, 10)] localKernel = Inr k' \<and> slmField k' 2 = Inr (slmStart k' 2)"
proof -
  have slots: "slm_slots localKernel"
    by (auto simp: slm_slots_def slmAlign_def slmSlot_def localKernel_def localInfo_def sample_defs less_Suc_eq numeral_3_eq_3)
  have zero: "\<forall>j < 3. slmAlign localKernel j \<noteq> 0 \<longrightarrow> slmField localKernel j = Inr 0"
    by (auto simp: slmField_def slmAlign_def slmSlot_def localKernel_def localInfo_def sample_defs loadField_def load_def bytesAt_def
        less_Suc_eq numeral_3_eq_3 numeral_eq_Suc)
  have al: "slmAlign localKernel 2 = 64" "slmAlign localKernel 0 = 4" by (simp_all add: slmAlign_def localKernel_def localInfo_def sample_defs)
  have "k_slmSizes localKernel = replicate 3 0" "3 \<le> length (k_arguments localKernel)"
    by (simp_all add: localKernel_def numeral_3_eq_3)
  from local_arguments_laid_out [OF slots this zero, of "[(2, 100), (0, 10)]"] show ?thesis using al by auto
qed

end
