(* ===== verification/Kernel_Faults.thy ===== *)
theory Kernel_Faults
  imports Kernel_Properties
begin

text \<open>
  What the clone of a kernel shares with its source that it should not, and the references to samplers a kernel
  loses.
\<close>

section \<open>Clone\<close>

lemma cloneLoop_unset:
  "\<forall>i \<in> set is. sk_size (k_arguments src ! i) = 0 \<Longrightarrow> cloneLoop E src is k = Inr k"
  by (induction "is" arbitrary: k) (simp_all add: cloneArgument_def)



text \<open>A clone gets the cross thread data of its source whole. Its own private surface, whose address creation
  had patched there, is thus replaced by that of the source, while the clone keeps only its own surface resident; and the
  flag that asks for a flush of shared virtual memory is not copied with the allocations.\<close>

theorem clone_shares_private_surface:
  assumes "cloneKernel E src k = Inr (r, k')" "\<forall>s \<in> set (k_arguments src). sk_size s = 0"
    "length (k_crossThreadData src) = length (k_crossThreadData k)"
  shows "k_crossThreadData k' = k_crossThreadData src \<and> k_privateSurface k' = k_privateSurface k \<and>
    k_svmGfxAllocations k' = k_svmGfxAllocations k @ k_svmGfxAllocations src \<and>
    k_svmAllocationsRequireCacheFlush k' = k_svmAllocationsRequireCacheFlush k"
proof -
  have "cloneLoop E src [0..<length (k_arguments src)] k1 = Inr k1" for k1
    using assms(2) by (intro cloneLoop_unset) simp
  then show ?thesis using assms(1, 3) by (auto simp: cloneKernel_def Let_def)
qed

text \<open>A kernel with a private surface; its address is patched at offset 8.\<close>

definition privateInfo :: KernelInfo where
  "privateInfo = KernelInfo_ctor\<lparr>ki_patchInfo := PatchInfo_ctor\<lparr>pi_dataParameterStream := Some 16,
     pi_pAllocateStatelessPrivateSurface := Some \<lparr>st_SurfaceStateHeapOffset = 0, st_DataParamOffset = 8,
       st_DataParamSize = 8, st_PerThreadSize = 32\<rparr>\<rparr>\<rparr>"

definition allocatingAt :: "nat \<Rightarrow> ProgramView" where
  "allocatingAt a = sampleProgram\<lparr>pv_allocate := (\<lambda>n. Some (sampleAllocation\<lparr>av_id := a, av_gpuAddressToPatch := a\<rparr>))\<rparr>"

definition privateKernel :: "nat \<Rightarrow> Kernel" where
  "privateKernel a = initArguments sampleProgram ((Kernel_ctor privateInfo)\<lparr>
     k_crossThreadData := replicate 8 0 @ le_bytes 8 a,
     k_privateSurface := Some (sampleAllocation\<lparr>av_id := a, av_gpuAddressToPatch := a\<rparr>)\<rparr>)"

lemma privateKernel_created:
  assumes "a < 2 ^ 64"
  shows "Kernel_create (allocatingAt a) privateInfo = Inr (CL_SUCCESS, Some (privateKernel a))"
  using assms
  by (simp add: Kernel_create_def initialize_def initCrossThreadData_def initPrivateSurface_def initProgramSurface_def
      initNullSurface_def patch32_def patchAll.simps privateKernel_def allocatingAt_def privateInfo_def sample_defs
      undefinedOffset32_def Let_def patchWithImplicitSurface_def patchWithRequiredSize_def patchAt_def store_def
      initArguments_def privateSurfaceSize_def)

theorem clone_shares_private_surface_witness:
  "\<exists>k'. cloneKernel sampleEnv (privateKernel 4096) (privateKernel 8192) = Inr (CL_SUCCESS, k') \<and>
     loadField 0 (k_crossThreadData k') 8 8 = Inr 4096 \<and> map_option av_id (k_privateSurface k') = Some 8192"
proof -
  have none: "k_arguments (privateKernel a) = []" for a
    by (simp add: privateKernel_def initArguments_def privateInfo_def sample_defs)
  have len: "length (k_crossThreadData (privateKernel a)) = 16" for a
    by (simp add: privateKernel_def initArguments_def privateInfo_def sample_defs)
  obtain k' where k': "cloneKernel sampleEnv (privateKernel 4096) (privateKernel 8192) = Inr (CL_SUCCESS, k')"
    by (simp add: cloneKernel_def none Let_def)
  have "k_crossThreadData k' = k_crossThreadData (privateKernel 4096) \<and> k_privateSurface k' = k_privateSurface (privateKernel 8192)"
    using clone_shares_private_surface [OF k'] none len by simp
  moreover have "loadField 0 (k_crossThreadData (privateKernel 4096)) 8 8 = Inr 4096"
    by (simp add: privateKernel_def initArguments_def loadField_def load_def bytesAt_def Let_def)
  ultimately show ?thesis using k' by (simp add: privateKernel_def initArguments_def Let_def)
qed










section \<open>References to samplers\<close>

text \<open>A call that passes a sampler with a wrong size is refused after the references were changed: the
  kernel gives the reference to the sampler it still holds back and keeps one to the sampler that was refused.\<close>

theorem refused_sampler_changes_references:
  assumes "setArgSampler E i n (Some p) k = Inr (r, k')" "n \<noteq> 8" "castToSampler E (readHandle E p) \<noteq> None"
    "sk_object (k_arguments k ! i) = Some old" "old \<noteq> readHandle E p"
  shows "r = CL_INVALID_SAMPLER \<and> k_arguments k' = k_arguments k \<and> k_samplerRefs k' old = k_samplerRefs k old - 1 \<and>
    k_samplerRefs k' (readHandle E p) = k_samplerRefs k (readHandle E p) + 1"
  using assms by (auto simp: setArgSampler_def Let_def samplerRef_def split: option.splits)

definition sampleSampler :: SamplerView where
  "sampleSampler = \<lparr>sm_snapWaValue = 0, sm_addrModeEnum = 0, sm_normCoordsEnum = 0, sm_isTransformable = True\<rparr>"

definition samplerEnv :: KernelEnv where
  "samplerEnv = sampleEnv\<lparr>ke_objects := [5 \<mapsto> SamplerObject sampleSampler, 6 \<mapsto> SamplerObject sampleSampler]\<rparr>"

definition samplerKernel :: Kernel where
  "samplerKernel = (Kernel_ctor sampleInfo)\<lparr>k_arguments := [SimpleKernelArgInfo_default\<lparr>sk_object := Some 6, sk_type := SAMPLER_OBJ\<rparr>],
     k_samplerRefs := (\<lambda>s. if s = 6 then 1 else 0)\<rparr>"

theorem refused_sampler_changes_references_witness:
  "\<exists>k'. setArgSampler samplerEnv 0 4 (Some 100) samplerKernel = Inr (CL_INVALID_SAMPLER, k') \<and>
     sk_object (k_arguments k' ! 0) = Some 6 \<and> k_samplerRefs k' 6 = 0"
proof -
  have h: "readHandle samplerEnv 100 = 5" by (simp add: readHandle_def appBytes_def upt_rec samplerEnv_def sampleEnv_def)
  have s: "castToSampler samplerEnv 5 \<noteq> None" "castToSampler samplerEnv 6 \<noteq> None" by (simp_all add: castToSampler_def samplerEnv_def)
  have o: "sk_object (k_arguments samplerKernel ! 0) = Some 6" "k_samplerRefs samplerKernel 6 = 1" by (simp_all add: samplerKernel_def)
  obtain r k' where k': "setArgSampler samplerEnv 0 4 (Some 100) samplerKernel = Inr (r, k')"
    using s o h by (auto simp: setArgSampler_def Let_def samplerRef_def)
  from refused_sampler_changes_references [OF k' _ _ o(1)] h s o show ?thesis using k' by auto
qed

text \<open>The destructor looks for samplers among the first arguments only, as many as are patched: a kernel whose second argument
  alone, a sampler, is set does not give its reference back.\<close>

lemma destructor_misses_sampler:
  assumes "k_patchedArgumentsNum k = 1" "\<not> ka_isSampler (argInfo k 0)" "ki_kernelArgInfo (k_info k) \<noteq> []"
  shows "\<exists>k'. Kernel_destructor E k = Inr k' \<and> k_samplerRefs k' = k_samplerRefs k"
  using assms by (simp add: Kernel_destructor_def)

end
