(* ===== verification/Spec2Isabelle.thy ===== *)
theory Spec2Isabelle
  imports Gfx_Partition Host_Ptr_Manager Local_Work_Size Command_Stream Event_Properties Stack_Vec
    Tag_Allocator Page_Table Program_Binary Residency Deferred_Deletion Mapped_Memory Wait_Policy
    Reference_Counting Enqueue_Kernel Patch_Properties Kernel_Layout Kernel_Faults
begin

text \<open>
  The Intel OpenCL compute runtime: a verification library.

  \<^bold>\<open>The program.\<close> The runtime turns OpenCL calls into command buffers for the GPU. Its own logic, below
  the API layer and above the operating system, keeps the GPU address space
  (\<^verbatim>\<open>memory_manager/gfx_partition.cpp\<close> over \<^verbatim>\<open>utilities/heap_allocator\<close>), shares and reuses memory
  (\<^verbatim>\<open>host_ptr_manager.cpp\<close>, \<^verbatim>\<open>graphics_allocation\<close>, \<^verbatim>\<open>internal_allocation_storage.cpp\<close>), chooses the shape
  of work groups (\<^verbatim>\<open>command_queue/local_work_size.cpp\<close>), splits an enqueued range of work items into walkers
  (\<^verbatim>\<open>command_queue/enqueue_kernel.h\<close>, \<^verbatim>\<open>helpers/dispatch_info_builder.h\<close>), reads the patch lists of the device
  binaries the compiler produces (\<^verbatim>\<open>program/process_gen_binary.cpp\<close>, \<^verbatim>\<open>kernel_info.cpp\<close>), keeps the arguments of
  kernels and patches them into the data a walker gets (\<^verbatim>\<open>kernel/kernel.cpp\<close>), fills command buffers and merges them
  (\<^verbatim>\<open>command_stream/linear_stream\<close>, \<^verbatim>\<open>submissions_aggregator.cpp\<close>), orders commands by events
  (\<^verbatim>\<open>event/event.cpp\<close> and its neighbours), hands out time stamp tags (\<^verbatim>\<open>utilities/tag_allocator.h\<close>,
  \<^verbatim>\<open>helpers/timestamp_packet\<close>), maintains the page tables of the simulated GPU
  (\<^verbatim>\<open>memory_manager/page_table\<close>), saves and loads programs (\<^verbatim>\<open>program/process_elf_binary.cpp\<close> over \<^verbatim>\<open>elf/\<close>)
  and decides which allocations stay in GPU memory (\<^verbatim>\<open>os_interface/windows/wddm_residency_controller.cpp\<close>).
  All paths but \<^verbatim>\<open>elf/\<close> are under \<^verbatim>\<open>src/runtime/\<close>.

  \<^bold>\<open>Conventions.\<close> \<open>Runtime_Prelude\<close> names the machine words (\<open>u32\<close>, \<open>u64\<close>), the result type \<open>rt_result\<close> with
  its faults (an unrecoverable check, an access out of bounds, exhausted fuel) and the lemmas on
  words, lists and sums that the components share. A class is a \<open>record\<close>, a member function a function
  that takes the record and returns it updated; a call under a mutex is one step. 64-bit addresses are
  words where wrap-around decides the result; where the code computes with sizes only,
  natural numbers with \<open>wrap32\<close> and \<open>wrap64\<close> written at each operation. Pointers to list
  nodes are addresses of an explicit heap, pointers to events and tags are indices of a store.

  \<^bold>\<open>Theories and the code they model.\<close>

  \<^item> \<open>Aligned_Memory\<close>: \<^verbatim>\<open>helpers/aligned_memory.h\<close>, \<^verbatim>\<open>ptr_math.h\<close>, \<^verbatim>\<open>memory_constants.h\<close>. The alignment functions as
    the code computes them, and their arithmetic meaning; \<open>alignedMalloc\<close> with its hidden pointer.
  \<^item> \<open>Block_Allocator\<close>: the locale of an allocator of address blocks and what its clients may conclude.
  \<^item> \<open>Heap_Allocator\<close>: \<open>allocate\<close>, \<open>free\<close> and the lists of freed chunks. The invariant says that
    free chunks, the gap between the bounds and the blocks held tile the region; it gives
    the interpretation of the block allocator.
  \<^item> \<open>Gfx_Partition\<close>: the layout of the heaps, also the one \<^verbatim>\<open>wddm.cpp\<close> makes of the kernel's ranges, and the Linux range allocators
    (\<^verbatim>\<open>os_interface/linux/drm_limited_range.cpp\<close>, \<^verbatim>\<open>drm_32bit_memory.cpp\<close>, where \<open>mmap\<close> is a parameter).
  \<^item> \<open>Intrusive_List\<close>: \<^verbatim>\<open>utilities/idlist.h\<close> on a heap of nodes, refined to sequences.
  \<^item> \<open>Graphics_Allocation\<close>: \<^verbatim>\<open>memory_manager/graphics_allocation\<close>, the use of an allocation per OS context.
  \<^item> \<open>Internal_Allocation_Storage\<close>: temporary and reusable allocations, and the decision of \<^verbatim>\<open>memory_manager.cpp\<close>
    how to destroy an allocation that may be in use.
  \<^item> \<open>Host_Ptr_Manager\<close>: the map of fragments of host memory, its overlap checks and reference counts.
  \<^item> \<open>Basic_Math\<close>, \<open>Local_Work_Size\<close>: the bit tricks and the strategies for the local size; floating point
    operations are parameters of the model.
  \<^item> \<open>Command_Stream\<close>: the linear stream and the aggregation of command buffers.
  \<^item> \<open>Event_Model\<close>: events, user events and virtual events over a store of events and queues, their callbacks,
    children, submission and time stamps, the event builder and the asynchronous handler
    (\<^verbatim>\<open>event/event.cpp\<close>, \<^verbatim>\<open>user_event.cpp\<close>, \<^verbatim>\<open>event_builder.cpp\<close>, \<^verbatim>\<open>async_events_handler.cpp\<close>).
    \<open>Event_Relations\<close> lifts a relation between worlds that every primitive keeps
    through the mutual recursion of status changes (a locale, interpreted five times);
    \<open>Event_Properties\<close> holds what follows for the interface of events.
  \<^item> \<open>Machine_Refinement\<close>: the locales of a refinement between machines and of an invariant of a step relation, which
    the later theories interpret; \<open>Stack_Vec\<close>: \<^verbatim>\<open>utilities/stackvec.h\<close>, refined to lists.
  \<^item> \<open>Tag_Allocator\<close>: the pool of tags with reference counts and the containers of time stamp packets.
  \<^item> \<open>Page_Table\<close>: the tables of four levels, refined to one flat table level by level.
  \<^item> \<open>Elf_Container\<close>: the reader and the writer of the ELF container (\<^verbatim>\<open>src/elf/\<close>) at the level of bytes.
  \<^item> \<open>Program_Binary\<close>: saving and loading programs in it; the compiler's binaries are lists of bytes.
  \<^item> \<open>Residency\<close>: the residency controller; the answers of the kernel are arguments, the calls for
    eviction are recorded. The list of candidates with holes is abstracted to the sequence of its entries.
  \<^item> \<open>Deferred_Deletion\<close>: \<^verbatim>\<open>memory_manager/deferred_deleter.cpp\<close> as three interleaving threads with program counters and notifications under way, the mutex
    and the condition variable in the state, and \<^verbatim>\<open>deferrable_allocation_deletion.cpp\<close>.
  \<^item> \<open>Mapped_Memory\<close>: \<^verbatim>\<open>svm_memory_manager.cpp\<close>, \<^verbatim>\<open>mem_obj/map_operations_handler.cpp\<close>, \<^verbatim>\<open>address_mapper.cpp\<close>.
  \<^item> \<open>Wait_Policy\<close>: \<^verbatim>\<open>helpers/kmd_notify_properties.cpp\<close> and the wait of the command stream receiver; the tag and the clock
    are functions of the instant.
  \<^item> \<open>Reference_Counting\<close>: \<^verbatim>\<open>utilities/reference_tracked_object.h\<close>, threads that hold and hand over references.
  \<^item> \<open>Dispatch_Builder\<close>: \<^verbatim>\<open>utilities/vec.h\<close>, of \<^verbatim>\<open>helpers\<close>, \<^verbatim>\<open>dispatch_info.h\<close>, \<^verbatim>\<open>dispatch_info_builder.h\<close>: the geometry of a dispatch, its
    split into up to eight regions and \<open>bake\<close>, which fixes the local size and the number of groups.
    \<open>Walker_Split\<close> gives each walker its set of work items and shows that a split tiles the range.
    \<open>Enqueue_Kernel\<close>: the checks of \<^verbatim>\<open>enqueueKernel\<close>, what reaches the builder, the split of the built-in buffer
    copy and fill (\<^verbatim>\<open>built_ins/built_ins.cpp\<close>), the bytes that a work item of their kernels moves
    (\<^verbatim>\<open>built_ins/kernels\<close>) and the pointers and offsets their callers pass.
  \<^item> \<open>Jenkins_Hash\<close>: \<^verbatim>\<open>helpers/hash.h\<close> on 32-bit words. \<open>Kernel_Info\<close>: \<^verbatim>\<open>program/kernel_info.cpp\<close>, the description of a kernel and
    the operations that store a token in it. \<open>Patch_Tokens\<close>: \<^verbatim>\<open>program/process_gen_binary.cpp\<close> and the lists of kernels of \<^verbatim>\<open>program.cpp\<close>;
    the layout of the binary is defined outside the repository, so the binary is a view that gives the
    record at each offset. \<open>Patch_Properties\<close> holds the theorems on them.
  \<^item> \<open>Kernel_Arguments\<close>: the state of a kernel object and the handlers of its arguments (\<^verbatim>\<open>kernel/kernel.cpp\<close>,
    \<^verbatim>\<open>kernel/image_transformer.cpp\<close>, \<^verbatim>\<open>clSetKernelArg\<close> of \<^verbatim>\<open>api/api.cpp\<close>). The memory of the application is a function from
    addresses to bytes, a handle an address that the casts look up among the live objects, and a surface or sampler state a
    record of what is written at an offset of the heap. \<open>Kernel_Lifecycle\<close>: creation, clone, release and
    the allocations a kernel needs. \<open>Kernel_Properties\<close> has the invariant of the counters over the runs of an
    application, \<open>Kernel_Layout\<close> the layout of local memory, \<open>Kernel_Faults\<close> what a clone shares with its source.

  \<^bold>\<open>What is shown.\<close> Allocators: blocks held never overlap, lie in their region and are accounted for exactly
  when the region starts at or above the size threshold, or no request it serves from the right is larger than its base,
  also across the heaps of a partition. Sharing: reference counts are the number of holders,
  memory in use is not freed or given out again. Containers: each refines its sequence. Events: a status never
  goes up, a final one is final, commands are submitted once and only after their parents, callbacks
  run once, a terminated event reaches its children, and a status change returns. Page tables: the
  levels equal a flat table, frames are never shared, and every byte of a range is translated. Programs: what is saved is loaded
  again. Residency: list, count and positions agree in every run, compaction is a filter, trims evict exactly
  what they should, and what is made resident is not trimmed on the way. Deferred deletion: nothing is lost or
  freed twice in any interleaving, and stopping the worker returns once the GPU has finished with what is pending. Mapped memory: lookups find exactly the range
  that holds an address, writable mappings do not overlap. Waiting: a wait returns once the GPU is done.
  References: an object is deleted once, by its last holder. Dispatch: the walkers of an accepted enqueue run every
  work item of its range exactly once, with a local size that is passed or chosen and with a required one that fits,
  and a built-in copy between pointers aligned to double words moves every byte once, as that of a read, a write or a copy of buffers is. Device binaries: a parsed kernel
  is well formed, the loop over the bytes of a patch list is the fold over its items, it returns unless an item of size
  zero is accepted every time, and the hash does not depend on the alignment of its input. Kernel objects: the counters of arguments that are
  set and that are uncacheable are exact in every run, and local arguments set in any order are laid out as if set
  once from the first to the last, aligned and disjoint.
  Where the code does otherwise than it means to, a theorem shows the behaviour: the escape from
  a low heap, the use of an erased fragment, the merge of incompatible buffers, the wrapped total of
  work items, the time stamp off by one, the emptied vector, the program with debug data that cannot be loaded,
  the section header read past the end, the shared fragment marked resident after its eviction, the
  release of one address by two threads, the adjacent range refused, the heap that ends a page behind its limit,
  the required work group that overruns the range, the division by a zero global size, the error of an unhandled
  token or an unknown qualifier that is lost, the bytes a copy of shared virtual memory between unaligned pointers misses, the patch item of size zero, the parent kernels left dangling by a second build,
  the private memory and the argument variables a cloned kernel takes from its source, the compression data a blocked enqueue
  does not make resident, the references to samplers that a refused call changes.

  \<^bold>\<open>Fuel and bounds.\<close> The status change of events takes fuel, since the code recurses through the
  children of an event without a measure of its own: one more than the number of child links
  suffices, and this is proved (\<open>setStatus_returns\<close>). So do the trims, one more than the length of the list,
  which is proved enough (\<open>periodicTrim_ok\<close>, \<open>budgetTrim_ok\<close>), and
  the polling loop, for which the instant at which the GPU is done is enough (\<open>wait_reached\<close>). The loops over patch lists take fuel because an item of size zero keeps
  them from ending: one more than the bytes of the list suffices for items of positive size (\<open>patch_loop_termination\<close>). Every other loop is structural or has a termination
  proof. Physical frames are shown distinct while fewer than 2 to the 51 pages have been touched, below the
  wrap-around of the 64-bit counter.

  \<^bold>\<open>Not modelled.\<close> The API layer and its tracing, the operating system interfaces, the programming of
  hardware commands and the generated register layouts, the compiler front ends, sharing with graphics
  APIs, the AUB and TBX formats: these call code outside the repository or only
  fill buffers for it. Of the modelled parts, waiting on events, performance counters and information
  queries, the broadcast of kernel arguments over the parts of a split, the tables of built-in kernel sources, the
  reflection surface of device-side enqueue and the replacement of a kernel's heaps are left out.
\<close>

end
